(* ===== verification/Prelude.thy ===== *)
theory Prelude
  imports Main "HOL-Library.Word" "HOL-Library.Multiset"
begin

unbundle bit_operations_syntax

text \<open>
  Shared vocabulary of the development: the error values of \<^verbatim>\<open>errors/errors.go\<close>, the
  option names and dynamically typed option values that every \<^verbatim>\<open>SetOption\<close> and
  \<^verbatim>\<open>GetOption\<close> of the repository dispatches on, big-endian integers as
  \<^verbatim>\<open>encoding/binary\<close> writes them, protocol messages as values, and the generic lemmas and
  collections that the component theories use.
\<close>

named_theorems option_names \<open>definitions of the option-name constants\<close>
named_theorems chan_simps \<open>behaviour of the channel operations\<close>
named_theorems step_defs \<open>definitions of the operations of the component at hand\<close>

section \<open>Machine integers and byte strings\<close>

type_synonym byte = "8 word"
type_synonym u16 = "16 word"
type_synonym u32 = "32 word"
type_synonym u64 = "64 word"
type_synonym bytes = "byte list"

text \<open>
  \<^verbatim>\<open>be_enc k n\<close> is the \<open>k\<close>-byte big-endian form of \<open>n\<close> (higher bytes are cut off, as
  the conversion to a fixed-width integer does); \<^verbatim>\<open>be_dec\<close> reads it back.
\<close>

fun be_enc :: "nat \<Rightarrow> nat \<Rightarrow> bytes" where
  "be_enc 0 n = []"
| "be_enc (Suc k) n = be_enc k (n div 256) @ [of_nat n]"

definition be_dec :: "bytes \<Rightarrow> nat" where
  "be_dec bs = foldl (\<lambda>a b. a * 256 + unat b) 0 bs"

definition PutUint32 :: "u32 \<Rightarrow> bytes" where
  "PutUint32 w = be_enc 4 (unat w)"

definition Uint32 :: "bytes \<Rightarrow> u32" where
  "Uint32 bs = of_nat (be_dec (take 4 bs))"

lemma length_be_enc [simp]: "length (be_enc k n) = k"
  by (induction k arbitrary: n) auto

lemma be_dec_Nil [simp]: "be_dec [] = 0"
  by (simp add: be_dec_def)

lemma be_dec_snoc [simp]: "be_dec (bs @ [b]) = be_dec bs * 256 + unat b"
  by (simp add: be_dec_def)

lemma unat_byte_of_nat [simp]: "unat (of_nat n :: byte) = n mod 256"
  by (simp add: unat_of_nat)

lemma be_dec_enc: "be_dec (be_enc k n) = n mod 256 ^ k"
proof (induction k arbitrary: n)
  case 0
  then show ?case by simp
next
  case (Suc k)
  have "be_dec (be_enc (Suc k) n) = (n div 256) mod 256 ^ k * 256 + n mod 256"
    by (simp add: Suc)
  also have "\<dots> = n mod (256 * 256 ^ k)"
    by (simp add: mod_mult2_eq mult.commute)
  finally show ?case by simp
qed

lemma be_dec_less: "be_dec bs < 256 ^ length bs"
proof (induction bs rule: rev_induct)
  case Nil
  then show ?case by simp
next
  case (snoc b bs)
  have "unat b < 256" using unsigned_less [of b] by simp
  with snoc show ?case by simp
qed

lemma be_enc_dec: "be_enc (length bs) (be_dec bs) = bs"
proof (induction bs rule: rev_induct)
  case Nil
  then show ?case by simp
next
  case (snoc b bs)
  have b: "unat b < 256" using unsigned_less [of b] by simp
  have "unat (of_nat (be_dec bs * 256 + unat b) :: byte) = unat b"
    using b by (simp only: unat_byte_of_nat) simp
  then have "of_nat (be_dec bs * 256 + unat b) = b"
    by (rule word_unat_eq_iff [THEN iffD2])
  with snoc b show ?case by (simp only: length_append be_dec_snoc) simp
qed

lemma length_PutUint32 [simp]: "length (PutUint32 w) = 4"
  by (simp add: PutUint32_def)

lemma Uint32_PutUint32 [simp]: "Uint32 (PutUint32 w @ bs) = w"
proof -
  have "unat w < 256 ^ 4" using unsigned_less [of w] by simp
  then show ?thesis by (simp add: Uint32_def PutUint32_def be_dec_enc)
qed

lemma Uint32_PutUint32' [simp]: "Uint32 (PutUint32 w) = w"
  using Uint32_PutUint32 [of w "[]"] by simp

lemma PutUint32_inj [simp]: "PutUint32 v = PutUint32 w \<longleftrightarrow> v = w"
  by (metis Uint32_PutUint32')

lemma PutUint32_Uint32:
  assumes "4 \<le> length bs"
  shows "PutUint32 (Uint32 bs) = take 4 bs"
proof -
  have len: "length (take 4 bs) = 4" using assms by simp
  then have "be_dec (take 4 bs) < 2 ^ 32"
    using be_dec_less [of "take 4 bs"] by simp
  then have "unat (of_nat (be_dec (take 4 bs)) :: u32) = be_dec (take 4 bs)"
    by (simp add: unat_of_nat)
  then show ?thesis
    using be_enc_dec [of "take 4 bs"] len by (simp add: PutUint32_def Uint32_def)
qed

lemma byte_less: "unat (b :: byte) < 256"
  using unsigned_less [of b] by simp

lemma byte_Suc: "unat (b :: byte) < 255 \<Longrightarrow> unat (b + 1) = Suc (unat b)"
  by (simp add: unat_word_ariths)

lemma unat_byte_ucast: "unat (ucast w :: byte) = unat w mod 256"
  by (simp add: unsigned_ucast_eq take_bit_eq_mod)

lemma be_enc_4:
  "be_enc 4 n = [of_nat (n div 256 div 256 div 256), of_nat (n div 256 div 256), of_nat (n div 256), of_nat n]"
proof -
  have "(4::nat) = Suc (Suc (Suc (Suc 0)))" by simp
  then show ?thesis by (simp only: be_enc.simps append.simps)
qed

text \<open>A counter kept in four bytes that is below 255 is three zero bytes and the counter.\<close>

lemma Uint32_small:
  assumes len: "4 \<le> length b" and small: "Uint32 b < 255"
  shows "take 4 b = [0, 0, 0, ucast (Uint32 b)]" "unat (ucast (Uint32 b + 1) :: byte) = Suc (unat (Uint32 b))"
proof -
  define n where "n = unat (Uint32 b)"
  have n: "n < 255" using small by (simp add: n_def word_less_nat_alt)
  have z: "n div 256 = 0" using n by simp
  have c: "(of_nat n :: byte) = ucast (Uint32 b)" by (rule word_unat_eq_iff [THEN iffD2]) (simp only: unat_byte_of_nat unat_byte_ucast n_def)
  have "take 4 b = be_enc 4 n" using PutUint32_Uint32 [OF len] by (simp add: PutUint32_def n_def)
  then show "take 4 b = [0, 0, 0, ucast (Uint32 b)]" by (simp add: be_enc_4 z c)
  have "unat (Uint32 b + 1) = Suc n" using n by (simp add: n_def unat_word_ariths)
  then show "unat (ucast (Uint32 b + 1) :: byte) = Suc (unat (Uint32 b))" using n by (simp add: n_def unat_byte_ucast)
qed

section \<open>Error values\<close>

text \<open>
  The constants of \<^verbatim>\<open>errors/errors.go\<close>; \<open>ErrExternal\<close> stands for an error value that comes
  from outside the repository (an I/O error of the operating system or of the Go library).
\<close>

datatype err =
    ErrBadAddr | ErrBadHeader | ErrBadVersion | ErrTooShort | ErrTooLong | ErrClosed
  | ErrConnRefused | ErrSendTimeout | ErrRecvTimeout | ErrProtoState | ErrProtoOp
  | ErrBadTran | ErrBadProto | ErrBadOption | ErrBadValue | ErrGarbled | ErrAddrInUse
  | ErrBadProperty | ErrTLSNoConfig | ErrTLSNoCert | ErrNotRaw | ErrCanceled
  | ErrNoContext | ErrNoPeers
  | ErrExternal nat

text \<open>A Go \<^verbatim>\<open>error\<close> result: \<open>None\<close> is \<^verbatim>\<open>nil\<close>.\<close>

type_synonym status = "err option"

section \<open>Options\<close>

text \<open>
  An \<^verbatim>\<open>interface{}\<close> option value, by its dynamic type. A \<^verbatim>\<open>time.Duration\<close> counts
  nanoseconds. Of a \<^verbatim>\<open>tls.Config\<close> only what the code reads is there; \<open>VTLS None\<close> is a nil pointer.
\<close>

record tlsconf =
  tls_ncerts :: nat
  tls_getCertificate :: bool
  tls_ServerName :: string

datatype optval =
    VBool bool
  | VInt int
  | VInt32 int
  | VDuration int
  | VBytes bytes
  | VString bytes
  | VUint32 u32
  | VFileMode u32
  | VTLS "tlsconf option"
  | VOther nat

definition OptionRaw :: string where [option_names]: "OptionRaw = ''RAW''"
definition OptionRecvDeadline :: string where [option_names]: "OptionRecvDeadline = ''RECV-DEADLINE''"
definition OptionSendDeadline :: string where [option_names]: "OptionSendDeadline = ''SEND-DEADLINE''"
definition OptionRetryTime :: string where [option_names]: "OptionRetryTime = ''RETRY-TIME''"
definition OptionSubscribe :: string where [option_names]: "OptionSubscribe = ''SUBSCRIBE''"
definition OptionUnsubscribe :: string where [option_names]: "OptionUnsubscribe = ''UNSUBSCRIBE''"
definition OptionSurveyTime :: string where [option_names]: "OptionSurveyTime = ''SURVEY-TIME''"
definition OptionWriteQLen :: string where [option_names]: "OptionWriteQLen = ''WRITEQ-LEN''"
definition OptionReadQLen :: string where [option_names]: "OptionReadQLen = ''READQ-LEN''"
definition OptionTTL :: string where [option_names]: "OptionTTL = ''TTL''"
definition OptionMaxRecvSize :: string where [option_names]: "OptionMaxRecvSize = ''MAX-RCV-SIZE''"
definition OptionReconnectTime :: string where [option_names]: "OptionReconnectTime = ''RECONNECT-TIME''"
definition OptionMaxReconnectTime :: string where
  [option_names]: "OptionMaxReconnectTime = ''MAX-RECONNECT-TIME''"
definition OptionReconnectBackoffOnClose :: string where
  [option_names]: "OptionReconnectBackoffOnClose = ''RECONNECT-BACKOFF-ON-CLOSE''"
definition OptionBestEffort :: string where [option_names]: "OptionBestEffort = ''BEST-EFFORT''"
definition OptionFailNoPeers :: string where [option_names]: "OptionFailNoPeers = ''FAIL-NO-PEERS''"
definition OptionDialAsynch :: string where [option_names]: "OptionDialAsynch = ''DIAL-ASYNCH''"
definition OptionLocalAddr :: string where [option_names]: "OptionLocalAddr = ''LOCAL-ADDR''"
definition OptionKeepAlive :: string where [option_names]: "OptionKeepAlive = ''KEEPALIVE''"
definition OptionKeepAliveTime :: string where [option_names]: "OptionKeepAliveTime = ''KEEPALIVETIME''"
definition OptionNoDelay :: string where [option_names]: "OptionNoDelay = ''NO-DELAY''"
definition OptionTLSConfig :: string where [option_names]: "OptionTLSConfig = ''TLS-CONFIG''"
definition OptionTLSConnState :: string where [option_names]: "OptionTLSConnState = ''TLS-STATE''"
definition OptionListenFD :: string where [option_names]: "OptionListenFD = ''LISTEN-FD''"
definition OptionSocketFD :: string where [option_names]: "OptionSocketFD = ''SOCKET-FD''"
definition OptionPeerPID :: string where [option_names]: "OptionPeerPID = ''PEER-PID''"
definition OptionPeerUID :: string where [option_names]: "OptionPeerUID = ''PEER-UID''"
definition OptionPeerGID :: string where [option_names]: "OptionPeerGID = ''PEER-GID''"
definition OptionRemoteAddr :: string where [option_names]: "OptionRemoteAddr = ''REMOTE-ADDR''"

text \<open>Go type assertions \<^verbatim>\<open>v, ok := value.(T)\<close>, with the range checks the code adds.\<close>

fun asBool :: "optval \<Rightarrow> bool option" where
  "asBool (VBool b) = Some b"
| "asBool _ = None"

fun asDuration :: "optval \<Rightarrow> int option" where
  "asDuration (VDuration d) = Some d"
| "asDuration _ = None"

fun asInt :: "optval \<Rightarrow> int option" where
  "asInt (VInt i) = Some i"
| "asInt _ = None"

fun asInt32 :: "optval \<Rightarrow> int option" where
  "asInt32 (VInt32 i) = Some i"
| "asInt32 _ = None"

fun asString :: "optval \<Rightarrow> bytes option" where
  "asString (VString s) = Some s"
| "asString _ = None"

fun asTLS :: "optval \<Rightarrow> tlsconf option option" where
  "asTLS (VTLS c) = Some c"
| "asTLS _ = None"

definition asQLen :: "optval \<Rightarrow> nat option" where
  "asQLen v = (case asInt v of Some i \<Rightarrow> if i \<ge> 0 then Some (nat i) else None | None \<Rightarrow> None)"

definition asTTL :: "optval \<Rightarrow> nat option" where
  "asTTL v =
     (case asInt v of Some i \<Rightarrow> if i > 0 \<and> i < 256 then Some (nat i) else None | None \<Rightarrow> None)"

lemma asQLen_Some [simp]: "asQLen (VInt (int n)) = Some n"
  by (simp add: asQLen_def)

lemma asQLen_eq_Some: "asQLen v = Some n \<longleftrightarrow> v = VInt (int n)"
  by (cases v) (auto simp: asQLen_def)

lemma asTTL_eq_Some: "asTTL v = Some n \<longleftrightarrow> v = VInt (int n) \<and> 0 < n \<and> n < 256"
  by (cases v) (auto simp: asTTL_def)

lemma asTTL_int [simp]: "asTTL (VInt (int n)) = (if 0 < n \<and> n < 256 then Some n else None)"
  by (auto simp: asTTL_def)

lemma asBool_eq_Some [simp]: "asBool v = Some b \<longleftrightarrow> v = VBool b"
  by (cases v) auto

lemma asDuration_eq_Some [simp]: "asDuration v = Some d \<longleftrightarrow> v = VDuration d"
  by (cases v) auto

lemma asInt_eq_Some [simp]: "asInt v = Some d \<longleftrightarrow> v = VInt d"
  by (cases v) auto

lemma asInt32_eq_Some [simp]: "asInt32 v = Some d \<longleftrightarrow> v = VInt32 d"
  by (cases v) auto

lemma asString_eq_Some [simp]: "asString v = Some d \<longleftrightarrow> v = VString d"
  by (cases v) auto

lemma asTLS_eq_Some [simp]: "asTLS v = Some d \<longleftrightarrow> v = VTLS d"
  by (cases v) auto

text \<open>
  The shape of every case of a \<^verbatim>\<open>SetOption\<close>: \<^verbatim>\<open>if v, ok := value.(T); ok { ...; return nil };
  return ErrBadValue\<close>.
\<close>

definition set_field :: "'a option \<Rightarrow> ('a \<Rightarrow> 's \<Rightarrow> 's) \<Rightarrow> 's \<Rightarrow> 's \<times> status" where
  "set_field v f s = (case v of Some x \<Rightarrow> (f x s, None) | None \<Rightarrow> (s, Some ErrBadValue))"

lemma snd_set_field [simp]: "snd (set_field v f s) = None \<longleftrightarrow> v \<noteq> None"
  "snd (set_field v f s) = Some e \<longleftrightarrow> v = None \<and> e = ErrBadValue"
  by (auto simp: set_field_def split: option.split)

lemma fst_set_field: "fst (set_field v f s) = (case v of Some x \<Rightarrow> f x s | None \<Rightarrow> s)"
  by (simp add: set_field_def split: option.split)

lemma set_field_Some [simp]: "set_field (Some x) f s = (f x s, None)" "set_field None f s = (s, Some ErrBadValue)"
  by (simp_all add: set_field_def)

text \<open>A result that rejects cleanly: an error leaves the state as it was.\<close>

definition clean :: "'s \<Rightarrow> 's \<times> status \<Rightarrow> bool" where
  "clean s r \<longleftrightarrow> snd r = None \<or> fst r = s"

lemma clean_simps [simp]:
  "clean s (set_field v f s)" "clean s (s, e)" "clean s (t, None)"
  "clean s (if b then r1 else r2) \<longleftrightarrow> (if b then clean s r1 else clean s r2)"
  by (auto simp: clean_def set_field_def split: option.split)

definition after :: "('s \<Rightarrow> bool) \<Rightarrow> 's \<times> status \<Rightarrow> bool" where
  "after P r \<longleftrightarrow> P (fst r)"

lemma after_simps [simp]:
  "after P (set_field v f s) \<longleftrightarrow> (\<forall>x. v = Some x \<longrightarrow> P (f x s)) \<and> (v = None \<longrightarrow> P s)"
  "after P (s, e) \<longleftrightarrow> P s"
  "after P (if b then r1 else r2) \<longleftrightarrow> (b \<longrightarrow> after P r1) \<and> (\<not> b \<longrightarrow> after P r2)"
  by (auto simp: after_def set_field_def split: option.split)

lemma afterD: "after P r \<Longrightarrow> P (fst r)"
  by (simp add: after_def)

lemma cleanD: "clean s r \<Longrightarrow> snd r \<noteq> None \<Longrightarrow> fst r = s"
  by (auto simp: clean_def)

section \<open>Messages as values\<close>

text \<open>
  The part of \<^verbatim>\<open>mangos.Message\<close> that protocols read and write. \<open>m_id\<close> identifies the
  object the pointer refers to (pointer comparison compares it, reference counts are kept per
  identity); \<open>m_pipe\<close> is the ID of the pipe the message arrived on,
  \<open>m_from\<close> the protocol's pipe object, where a queue entry pairs the message with it.
\<close>

record message =
  m_id :: nat
  Header :: bytes
  Body :: bytes
  m_pipe :: "u32 option"
  m_from :: nat

definition wire :: "message \<Rightarrow> bytes" where
  "wire m = Header m @ Body m"

section \<open>Lists\<close>

text \<open>\<^verbatim>\<open>append(xs[:i], xs[i+1:]...)\<close> at the first \<open>i\<close> with \<open>xs[i] == x\<close> is \<open>remove1 x xs\<close>.\<close>

definition delete_at :: "nat \<Rightarrow> 'a list \<Rightarrow> 'a list" where
  "delete_at i xs = take i xs @ drop (Suc i) xs"

lemma remove1_delete_at:
  assumes "i < length xs" and "xs ! i = x" and "\<And>j. j < i \<Longrightarrow> xs ! j \<noteq> x"
  shows "delete_at i xs = remove1 x xs"
  using assms
proof (induction xs arbitrary: i)
  case Nil
  then show ?case by simp
next
  case (Cons y ys)
  show ?case
  proof (cases i)
    case 0
    with Cons.prems show ?thesis by (simp add: delete_at_def)
  next
    case (Suc j)
    have "\<And>k. k < j \<Longrightarrow> ys ! k \<noteq> x"
      using Cons.prems(3) Suc by (metis Suc_less_eq nth_Cons_Suc)
    with Cons.IH [of j] Cons.prems Suc have "delete_at j ys = remove1 x ys" by simp
    moreover have "y \<noteq> x" using Cons.prems(3) [of 0] Suc by simp
    ultimately show ?thesis using Suc by (simp add: delete_at_def)
  qed
qed

lemma distinct_remove1_iff [simp]: "distinct xs \<Longrightarrow> x \<notin> set (remove1 x xs)"
  by (simp add: set_remove1_eq)

text \<open>Swapping position \<open>i\<close> with the head, as REQ does when a reply arrives.\<close>

definition swap_front :: "nat \<Rightarrow> 'a list \<Rightarrow> 'a list" where
  "swap_front i xs = (xs[0 := xs ! i])[i := xs ! 0]"

lemma mset_swap_front: "i < length xs \<Longrightarrow> mset (swap_front i xs) = mset xs"
  unfolding swap_front_def by (rule mset_swap) auto

lemma set_swap_front [simp]: "i < length xs \<Longrightarrow> set (swap_front i xs) = set xs"
  by (metis mset_swap_front set_mset_mset)

lemma distinct_swap_front [simp]: "i < length xs \<Longrightarrow> distinct (swap_front i xs) = distinct xs"
  by (metis mset_swap_front distinct_count_atmost_1 set_swap_front)

end
