(* ===== verification/Chan.thy ===== *)
theory Chan
  imports Prelude
begin

text \<open>
  Go channels and the part of the Go runtime the protocols run on: buffered channels with
  their parked senders and receivers, a heap of channels (the code replaces the channels held
  in socket fields while goroutines still hold the old ones, so identity matters), reference
  counts of messages, and the panic flag. The interfaces \<open>bounded_fifo\<close>, \<open>machine\<close> and
  \<open>protocol_base\<close> that the components share are stated here as locales.
\<close>

section \<open>A single channel\<close>

text \<open>
  \<open>ch_buf\<close> holds the messages in the buffer and those handed to a parked receiver that has
  not run yet; \<open>ch_rwait\<close> counts the receivers parked on the channel, \<open>ch_offers\<close> lists the
  messages of the senders parked on it. An unbuffered channel has capacity 0: a send
  succeeds only when a receiver is parked, a receive only when a sender is.
\<close>

record 'm gochan =
  ch_buf :: "'m list"
  ch_cap :: nat
  ch_rwait :: nat
  ch_offers :: "'m list"
  ch_closed :: bool

definition make_gochan :: "nat \<Rightarrow> 'm gochan" where
  "make_gochan n = \<lparr>ch_buf = [], ch_cap = n, ch_rwait = 0, ch_offers = [], ch_closed = False\<rparr>"

definition chan_room :: "'m gochan \<Rightarrow> bool" where
  "chan_room c \<longleftrightarrow> \<not> ch_closed c \<and> ch_offers c = [] \<and> length (ch_buf c) < ch_cap c + ch_rwait c"

definition chan_push :: "'m \<Rightarrow> 'm gochan \<Rightarrow> 'm gochan" where
  "chan_push m c = c\<lparr>ch_buf := ch_buf c @ [m]\<rparr>"

definition chan_pop :: "'m gochan \<Rightarrow> ('m \<times> 'm gochan) option" where
  "chan_pop c =
     (case ch_buf c of
        x # xs \<Rightarrow> Some (x, c\<lparr>ch_buf := xs @ take 1 (ch_offers c), ch_offers := drop 1 (ch_offers c)\<rparr>)
      | [] \<Rightarrow>
          (case ch_offers c of
             x # xs \<Rightarrow> Some (x, c\<lparr>ch_offers := xs\<rparr>)
           | [] \<Rightarrow> None))"

definition chan_contents :: "'m gochan \<Rightarrow> 'm list" where
  "chan_contents c = ch_buf c @ ch_offers c"

text \<open>Parking: a blocked sender leaves its offer, a blocked receiver is counted.\<close>

definition chan_park_send :: "'m \<Rightarrow> 'm gochan \<Rightarrow> 'm gochan" where
  "chan_park_send m c = c\<lparr>ch_offers := ch_offers c @ [m]\<rparr>"

definition chan_park_recv :: "'m gochan \<Rightarrow> 'm gochan" where
  "chan_park_recv c = c\<lparr>ch_rwait := Suc (ch_rwait c)\<rparr>"

definition chan_ok :: "'m gochan \<Rightarrow> bool" where
  "chan_ok c \<longleftrightarrow> length (ch_buf c) \<le> ch_cap c + ch_rwait c"

lemma chan_ok_make [simp, intro]: "chan_ok (make_gochan n)"
  by (simp add: chan_ok_def make_gochan_def)

lemma chan_ok_push [simp]: "chan_room c \<Longrightarrow> chan_ok (chan_push m c)"
  by (auto simp: chan_ok_def chan_room_def chan_push_def)

lemma chan_ok_pop: "chan_ok c \<Longrightarrow> chan_pop c = Some (m, c') \<Longrightarrow> chan_ok c'"
  by (auto simp: chan_ok_def chan_pop_def split: list.splits)

lemma chan_pop_fields:
  "chan_pop c = Some (m, c') \<Longrightarrow> ch_cap c' = ch_cap c \<and> ch_closed c' = ch_closed c"
  by (auto simp: chan_pop_def split: list.splits)

lemma chan_push_fields [simp]:
  "ch_cap (chan_push m c) = ch_cap c" "ch_closed (chan_push m c) = ch_closed c"
  "ch_rwait (chan_push m c) = ch_rwait c" "ch_offers (chan_push m c) = ch_offers c"
  "ch_buf (chan_push m c) = ch_buf c @ [m]"
  by (simp_all add: chan_push_def)

lemma make_gochan_fields [simp]:
  "ch_cap (make_gochan n) = n" "\<not> ch_closed (make_gochan n)" "ch_buf (make_gochan n) = []"
  "ch_rwait (make_gochan n) = 0" "ch_offers (make_gochan n) = []"
  by (simp_all add: make_gochan_def)

section \<open>The queue contract\<close>

text \<open>
  What the protocols rely on when they hand a message to a channel and take it out
  elsewhere: a run of sends and receives delivers exactly the accepted messages, in order.
\<close>

datatype 'm qop = Push 'm | Pop

fun run_q :: "('q \<Rightarrow> bool) \<Rightarrow> ('m \<Rightarrow> 'q \<Rightarrow> 'q) \<Rightarrow> ('q \<Rightarrow> ('m \<times> 'q) option) \<Rightarrow>
    'm qop list \<Rightarrow> 'q \<Rightarrow> 'm list \<times> 'm list \<times> 'q" where
  "run_q room push pop [] q = ([], [], q)"
| "run_q room push pop (Push m # ops) q =
     (if room q
      then let (acc, out, q') = run_q room push pop ops (push m q) in (m # acc, out, q')
      else run_q room push pop ops q)"
| "run_q room push pop (Pop # ops) q =
     (case pop q of
        Some (m, q1) \<Rightarrow> let (acc, out, q') = run_q room push pop ops q1 in (acc, m # out, q')
      | None \<Rightarrow> run_q room push pop ops q)"

locale bounded_fifo =
  fixes contents :: "'q \<Rightarrow> 'm list"
    and room :: "'q \<Rightarrow> bool"
    and push :: "'m \<Rightarrow> 'q \<Rightarrow> 'q"
    and pop :: "'q \<Rightarrow> ('m \<times> 'q) option"
  assumes contents_push: "room q \<Longrightarrow> contents (push m q) = contents q @ [m]"
    and pop_None: "pop q = None \<longleftrightarrow> contents q = []"
    and pop_Some: "pop q = Some (m, q') \<Longrightarrow> contents q = m # contents q'"
begin

lemma run_fifo:
  "run_q room push pop ops q = (acc, out, q') \<Longrightarrow> contents q @ acc = out @ contents q'"
proof (induction ops arbitrary: q acc out)
  case Nil
  then show ?case by simp
next
  case (Cons x ops)
  show ?case
  proof (cases x)
    case (Push m)
    with Cons.prems Cons.IH show ?thesis
      by (fastforce simp: contents_push split: if_splits prod.splits)
  next
    case Pop
    with Cons.prems Cons.IH show ?thesis
      by (fastforce dest: pop_Some split: option.splits prod.splits)
  qed
qed

text \<open>In particular nothing is delivered that was neither queued before nor accepted since.\<close>

lemma run_delivers_prefix:
  assumes "run_q room push pop ops q = (acc, out, q')"
  shows "out = take (length out) (contents q @ acc)"
  using run_fifo [OF assms] by simp

end

interpretation go_chan: bounded_fifo chan_contents chan_room chan_push chan_pop
proof unfold_locales
  show "chan_contents (chan_push m c) = chan_contents c @ [m]" if "chan_room c" for c :: "'a gochan" and m
    using that by (simp add: chan_contents_def chan_push_def chan_room_def)
  show "chan_pop c = None \<longleftrightarrow> chan_contents c = []" for c :: "'a gochan"
    by (auto simp: chan_pop_def chan_contents_def split: list.splits)
  show "chan_contents c = m # chan_contents c'" if "chan_pop c = Some (m, c')" for c c' :: "'a gochan" and m
    using that by (cases "ch_offers c") (auto simp: chan_pop_def chan_contents_def split: list.splits)
qed

section \<open>The runtime state\<close>

text \<open>
  Channel references are numbers; 0 is the nil channel, on which every operation blocks.
  \<open>refs\<close> holds the reference count of each message identity. \<open>panicked\<close> is set by an
  operation that panics in Go (closing a closed or nil channel, sending on a closed one) and
  never cleared. Each protocol's socket extends this record.
\<close>

record 'm world =
  refs :: "nat \<Rightarrow> int"
  chans :: "nat \<Rightarrow> 'm gochan"
  nchan :: nat
  panicked :: bool

definition Clone :: "nat \<Rightarrow> ('m, 'z) world_scheme \<Rightarrow> ('m, 'z) world_scheme" where
  "Clone i w = w\<lparr>refs := (refs w)(i := refs w i + 1)\<rparr>"

definition Free :: "nat \<Rightarrow> ('m, 'z) world_scheme \<Rightarrow> ('m, 'z) world_scheme" where
  "Free i w = w\<lparr>refs := (refs w)(i := refs w i - 1)\<rparr>"

text \<open>\<^verbatim>\<open>Message.MakeUnique\<close> on reference counts: a shared message is copied to the new identity \<open>k\<close>.\<close>

definition make_unique :: "nat \<Rightarrow> message \<Rightarrow> ('m, 'z) world_scheme \<Rightarrow> message \<times> ('m, 'z) world_scheme" where
  "make_unique k m s =
     (if refs s (m_id m) = 1 then (m, s)
      else (m\<lparr>m_id := k\<rparr>, Free (m_id m) (s\<lparr>refs := (refs s)(k := 1)\<rparr>)))"

definition make_chan :: "nat \<Rightarrow> ('m, 'z) world_scheme \<Rightarrow> nat \<times> ('m, 'z) world_scheme" where
  "make_chan n w =
     (nchan w, w\<lparr>chans := (chans w)(nchan w := make_gochan n), nchan := Suc (nchan w)\<rparr>)"

definition chan_is_closed :: "nat \<Rightarrow> ('m, 'z) world_scheme \<Rightarrow> bool" where
  "chan_is_closed q w \<longleftrightarrow> q \<noteq> 0 \<and> ch_closed (chans w q)"

definition close_chan :: "nat \<Rightarrow> ('m, 'z) world_scheme \<Rightarrow> ('m, 'z) world_scheme" where
  "close_chan q w =
     (if q = 0 \<or> ch_closed (chans w q) then w\<lparr>panicked := True\<rparr>
      else w\<lparr>chans := (chans w)(q := (chans w q)\<lparr>ch_closed := True\<rparr>)\<rparr>)"

text \<open>
  A send case of a \<^verbatim>\<open>select\<close>: \<open>None\<close> when it is not ready. A send on a closed channel is
  ready and panics.
\<close>

definition try_send :: "nat \<Rightarrow> 'm \<Rightarrow> ('m, 'z) world_scheme \<Rightarrow> ('m, 'z) world_scheme option" where
  "try_send q m w =
     (if q = 0 then None
      else if ch_closed (chans w q) then Some (w\<lparr>panicked := True\<rparr>)
      else if chan_room (chans w q) then Some (w\<lparr>chans := (chans w)(q := chan_push m (chans w q))\<rparr>)
      else None)"

text \<open>
  A receive case: \<open>None\<close> when it is not ready, \<open>Some (None, w)\<close> for the zero value that a
  closed and drained channel yields.
\<close>

definition try_recv :: "nat \<Rightarrow> ('m, 'z) world_scheme \<Rightarrow> ('m option \<times> ('m, 'z) world_scheme) option" where
  "try_recv q w =
     (if q = 0 then None
      else case chan_pop (chans w q) of
        Some (m, c) \<Rightarrow> Some (Some m, w\<lparr>chans := (chans w)(q := c)\<rparr>)
      | None \<Rightarrow> if ch_closed (chans w q) then Some (None, w) else None)"

definition world_ok :: "('m, 'z) world_scheme \<Rightarrow> bool" where
  "world_ok w \<longleftrightarrow> \<not> panicked w \<and> 0 < nchan w \<and> (\<forall>q. chan_ok (chans w q))"

lemma refs_frame [simp]:
  "chans (Clone i w) = chans w" "nchan (Clone i w) = nchan w" "panicked (Clone i w) = panicked w"
  "chans (Free i w) = chans w" "nchan (Free i w) = nchan w" "panicked (Free i w) = panicked w"
  "world.more (Clone i w) = world.more w" "world.more (Free i w) = world.more w"
  by (simp_all add: Clone_def Free_def)

lemma refs_Clone_Free [simp]:
  "refs (Clone i w) = (refs w)(i := refs w i + 1)" "refs (Free i w) = (refs w)(i := refs w i - 1)"
  by (simp_all add: Clone_def Free_def)

lemma world_ok_refs [simp]: "world_ok (Clone i w) = world_ok w" "world_ok (Free i w) = world_ok w"
  by (simp_all add: world_ok_def)

lemma world_ok_make: "world_ok w \<Longrightarrow> make_chan n w = (q, w') \<Longrightarrow> world_ok w' \<and> q \<noteq> 0 \<and> q < nchan w'"
  by (auto simp: world_ok_def make_chan_def)

lemma world_ok_close:
  "world_ok w \<Longrightarrow> q \<noteq> 0 \<Longrightarrow> \<not> ch_closed (chans w q) \<Longrightarrow> world_ok (close_chan q w)"
  by (auto simp: world_ok_def close_chan_def chan_ok_def)

lemma world_ok_try_send:
  "world_ok w \<Longrightarrow> \<not> ch_closed (chans w q) \<Longrightarrow> try_send q m w = Some w' \<Longrightarrow> world_ok w'"
  by (auto simp: world_ok_def try_send_def split: if_splits)

lemma world_ok_try_recv: "world_ok w \<Longrightarrow> try_recv q w = Some (r, w') \<Longrightarrow> world_ok w'"
  by (auto simp: world_ok_def try_recv_def dest: chan_ok_pop [rotated] split: if_splits option.splits)

lemma try_sendD:
  assumes "try_send q m w = Some w'" and "\<not> ch_closed (chans w q)"
  shows "w' = w\<lparr>chans := (chans w)(q := chan_push m (chans w q))\<rparr>" "q \<noteq> 0" "chan_room (chans w q)"
  using assms by (auto simp: try_send_def split: if_splits)

lemma try_recvD:
  assumes "try_recv q w = Some (x, w')"
  shows "\<exists>c. w' = w\<lparr>chans := (chans w)(q := c)\<rparr> \<and> ch_cap c = ch_cap (chans w q) \<and>
    ch_closed c = ch_closed (chans w q) \<and> (chan_ok (chans w q) \<longrightarrow> chan_ok c)"
proof (cases "chan_pop (chans w q)")
  case None
  with assms have "w' = w\<lparr>chans := (chans w)(q := chans w q)\<rparr>"
    by (auto simp: try_recv_def split: if_splits)
  then show ?thesis by blast
next
  case (Some r)
  then obtain m c where r: "chan_pop (chans w q) = Some (m, c)" by (cases r) auto
  with assms have "w' = w\<lparr>chans := (chans w)(q := c)\<rparr>"
    by (auto simp: try_recv_def split: if_splits)
  then show ?thesis using chan_pop_fields [OF r] chan_ok_pop [OF _ r] by blast
qed

lemma try_send_frame:
  assumes "try_send q m w = Some w'"
  shows "refs w' = refs w" "nchan w' = nchan w" "world.more w' = world.more w"
    "\<And>r. ch_closed (chans w' r) = ch_closed (chans w r)"
    "\<And>r. ch_cap (chans w' r) = ch_cap (chans w r)"
  using assms by (auto simp: try_send_def split: if_splits)

lemma try_recv_frame:
  assumes "try_recv q w = Some (x, w')"
  shows "refs w' = refs w" "nchan w' = nchan w" "panicked w' = panicked w"
    "world.more w' = world.more w"
    "\<And>r. ch_closed (chans w' r) = ch_closed (chans w r)"
    "\<And>r. ch_cap (chans w' r) = ch_cap (chans w r)"
  using assms by (auto simp: try_recv_def dest: chan_pop_fields split: if_splits option.splits)

lemma close_chan_frame [simp]:
  "refs (close_chan q w) = refs w" "nchan (close_chan q w) = nchan w"
  "world.more (close_chan q w) = world.more w"
  "ch_cap (chans (close_chan q w) r) = ch_cap (chans w r)"
  by (auto simp: close_chan_def)

lemmas chan_frames = try_send_frame try_recv_frame

section \<open>State machines\<close>

text \<open>
  A component whose lock-protected regions interleave: its initial states, its steps and an
  invariant that every step keeps.
\<close>

locale machine =
  fixes init :: "'s \<Rightarrow> bool"
    and step :: "'s \<Rightarrow> 's \<Rightarrow> bool"
    and inv :: "'s \<Rightarrow> bool"
  assumes init_inv: "init s \<Longrightarrow> inv s"
    and step_inv: "inv s \<Longrightarrow> step s t \<Longrightarrow> inv t"
begin

lemma steps_inv: "step\<^sup>*\<^sup>* s t \<Longrightarrow> inv s \<Longrightarrow> inv t"
  by (induction rule: rtranclp_induct) (auto intro: step_inv)

lemma reachable_inv: "init s \<Longrightarrow> step\<^sup>*\<^sup>* s t \<Longrightarrow> inv t"
  by (blast intro: init_inv steps_inv)

end

section \<open>The contract of a protocol\<close>

text \<open>
  \<^verbatim>\<open>mangos.ProtocolBase\<close> as the core socket uses it. A closed protocol reports
  \<^verbatim>\<open>ErrClosed\<close> from \<^verbatim>\<open>Close\<close> and refuses pipes without recording them; a rejected option
  changes nothing; an option that was set and can be read reads back as set.
\<close>

datatype protocol_op = OpClose | OpAddPipe u32 | OpSetOption string optval

fun apply_op :: "('s \<Rightarrow> 's \<times> status) \<Rightarrow> (u32 \<Rightarrow> 's \<Rightarrow> 's \<times> status) \<Rightarrow>
    (string \<Rightarrow> optval \<Rightarrow> 's \<Rightarrow> 's \<times> status) \<Rightarrow> protocol_op \<Rightarrow> 's \<Rightarrow> 's" where
  "apply_op cl ap so OpClose s = fst (cl s)"
| "apply_op cl ap so (OpAddPipe p) s = fst (ap p s)"
| "apply_op cl ap so (OpSetOption n v) s = fst (so n v s)"

locale protocol_base =
  fixes closed :: "'s \<Rightarrow> bool"
    and npipes :: "'s \<Rightarrow> u32 set"
    and pClose :: "'s \<Rightarrow> 's \<times> status"
    and pAddPipe :: "u32 \<Rightarrow> 's \<Rightarrow> 's \<times> status"
    and pSetOption :: "string \<Rightarrow> optval \<Rightarrow> 's \<Rightarrow> 's \<times> status"
    and pGetOption :: "string \<Rightarrow> 's \<Rightarrow> err + optval"
  assumes close_open: "\<not> closed s \<Longrightarrow> snd (pClose s) = None \<and> closed (fst (pClose s))"
    and close_closed: "closed s \<Longrightarrow> pClose s = (s, Some ErrClosed)"
    and add_closed: "closed s \<Longrightarrow> snd (pAddPipe p s) = Some ErrClosed \<and> npipes (fst (pAddPipe p s)) = npipes s"
    and add_keeps: "closed (fst (pAddPipe p s)) = closed s"
    and set_keeps: "closed (fst (pSetOption n v s)) = closed s \<and> npipes (fst (pSetOption n v s)) = npipes s"
    and set_error: "snd (pSetOption n v s) \<noteq> None \<Longrightarrow> fst (pSetOption n v s) = s"
    and set_get: "snd (pSetOption n v s) = None \<Longrightarrow> pGetOption n s \<noteq> Inl ErrBadOption \<Longrightarrow>
      pGetOption n (fst (pSetOption n v s)) = Inr v"
begin

lemma apply_op_closed: "closed s \<Longrightarrow> closed (apply_op pClose pAddPipe pSetOption x s) \<and> npipes (apply_op pClose pAddPipe pSetOption x s) = npipes s"
  by (cases x) (simp_all add: close_closed add_keeps add_closed set_keeps)

lemma fold_ops_closed: "closed s \<Longrightarrow> closed (fold (apply_op pClose pAddPipe pSetOption) xs s) \<and> npipes (fold (apply_op pClose pAddPipe pSetOption) xs s) = npipes s"
proof (induction xs arbitrary: s)
  case (Cons x xs)
  then show ?case using apply_op_closed [of s x] by simp
qed simp

text \<open>Once closed, always closed: no sequence of calls brings a pipe in again.\<close>

lemma close_is_final:
  "closed (fold (apply_op pClose pAddPipe pSetOption) xs (fst (pClose s))) \<and>
   snd (pAddPipe p (fold (apply_op pClose pAddPipe pSetOption) xs (fst (pClose s)))) = Some ErrClosed \<and>
   snd (pClose (fold (apply_op pClose pAddPipe pSetOption) xs (fst (pClose s)))) = Some ErrClosed"
proof -
  have "closed (fst (pClose s))"
    by (cases "closed s") (simp_all add: close_open close_closed)
  then have c: "closed (fold (apply_op pClose pAddPipe pSetOption) xs (fst (pClose s)))"
    using fold_ops_closed by blast
  then show ?thesis by (simp add: add_closed close_closed)
qed

end

end
