(* ===== verification/Dialer.thy ===== *)
theory Dialer
  imports Chan
begin

text \<open>
  Dialers and listeners of the core (\<^verbatim>\<open>internal/core/dialer.go\<close>, \<^verbatim>\<open>internal/core/listener.go\<close>).
  The transport's own dialer is outside this theory: its answer to \<^verbatim>\<open>Dial\<close> is an argument, and
  so is \<open>scale\<close>, the value of \<^verbatim>\<open>time.Duration(actfact * float64(t))\<close> for the random factor that
  \<^verbatim>\<open>redial\<close> draws. Besides the fields of the struct the state records what is under way:
  calls of \<^verbatim>\<open>dial\<close> that have not reached its lock (\<open>dl_calls\<close>), calls of the transport's
  \<^verbatim>\<open>Dial\<close> (\<open>dl_dialing\<close>), each with its \<^verbatim>\<open>redial\<close> flag, the armed timers by number with their
  delay (\<open>dl_timers\<close>), and the number of pipes that will report \<^verbatim>\<open>pipeClosed\<close> (\<open>dl_pipes\<close>).
\<close>

section \<open>Dialer\<close>

record dialer =
  dl_closed :: bool
  dl_active :: bool
  dl_asynch :: bool
  dl_redialer :: "nat option"
  dl_reconnTime :: int
  dl_reconnMinTime :: int
  dl_reconnMaxTime :: int
  dl_backoffOnClose :: bool
  dl_calls :: "bool list"
  dl_dialing :: "bool list"
  dl_timers :: "(nat \<times> int) list"
  dl_ntimer :: nat
  dl_pipes :: nat

definition new_dialer :: "int \<Rightarrow> int \<Rightarrow> bool \<Rightarrow> bool \<Rightarrow> dialer" where
  "new_dialer mn mx bo as =
     \<lparr>dl_closed = False, dl_active = False, dl_asynch = as, dl_redialer = None, dl_reconnTime = 0, dl_reconnMinTime = mn,
      dl_reconnMaxTime = mx, dl_backoffOnClose = bo, dl_calls = [], dl_dialing = [], dl_timers = [], dl_ntimer = 0, dl_pipes = 0\<rparr>"

text \<open>
  \<^verbatim>\<open>Dial\<close>: when asynchronous, the call of \<^verbatim>\<open>dial\<close> runs in a goroutine with \<^verbatim>\<open>redial\<close> set.
\<close>

definition dialer_Dial :: "dialer \<Rightarrow> dialer \<times> status" where
  "dialer_Dial d =
     (if dl_active d then (d, Some ErrAddrInUse)
      else if dl_closed d then (d, Some ErrClosed)
      else (d\<lparr>dl_active := True, dl_reconnTime := dl_reconnMinTime d, dl_calls := dl_calls d @ [dl_asynch d]\<rparr>, None))"

definition dialer_Close :: "dialer \<Rightarrow> dialer \<times> status" where
  "dialer_Close d =
     (if dl_closed d then (d, Some ErrClosed)
      else
        (let d1 = (case dl_redialer d of
                     Some k \<Rightarrow> d\<lparr>dl_timers := filter (\<lambda>t. fst t \<noteq> k) (dl_timers d)\<rparr>
                   | None \<Rightarrow> d)
         in (d1\<lparr>dl_closed := True\<rparr>, None)))"

definition asNonNeg :: "optval \<Rightarrow> int option" where
  "asNonNeg v = (case asDuration v of Some i \<Rightarrow> if i \<ge> 0 then Some i else None | None \<Rightarrow> None)"

text \<open>Other options go to the transport's dialer, of state \<open>td\<close>, through \<open>tset\<close> and \<open>tget\<close>.\<close>

definition dialer_SetOption ::
    "(string \<Rightarrow> optval \<Rightarrow> 't \<Rightarrow> 't \<times> status) \<Rightarrow> string \<Rightarrow> optval \<Rightarrow> dialer \<times> 't \<Rightarrow> (dialer \<times> 't) \<times> status" where
  "dialer_SetOption tset n v dt =
     (if n = OptionReconnectTime then set_field (asNonNeg v) (\<lambda>x (d, t). (d\<lparr>dl_reconnMinTime := x\<rparr>, t)) dt
      else if n = OptionMaxReconnectTime then set_field (asNonNeg v) (\<lambda>x (d, t). (d\<lparr>dl_reconnMaxTime := x\<rparr>, t)) dt
      else if n = OptionReconnectBackoffOnClose then set_field (asBool v) (\<lambda>x (d, t). (d\<lparr>dl_backoffOnClose := x\<rparr>, t)) dt
      else if n = OptionDialAsynch then set_field (asBool v) (\<lambda>x (d, t). (d\<lparr>dl_asynch := x\<rparr>, t)) dt
      else (case tset n v (snd dt) of (t', e) \<Rightarrow> ((fst dt, t'), e)))"

definition dialer_GetOption ::
    "(string \<Rightarrow> 't \<Rightarrow> err + optval) \<Rightarrow> (string \<Rightarrow> err + optval) \<Rightarrow> string \<Rightarrow> dialer \<times> 't \<Rightarrow> err + optval" where
  "dialer_GetOption tget sget n dt =
     (case dt of (d, t) \<Rightarrow>
        if n = OptionReconnectTime then Inr (VDuration (dl_reconnMinTime d))
        else if n = OptionMaxReconnectTime then Inr (VDuration (dl_reconnMaxTime d))
        else if n = OptionReconnectBackoffOnClose then Inr (VBool (dl_backoffOnClose d))
        else if n = OptionDialAsynch then Inr (VBool (dl_asynch d))
        else if tget n t \<noteq> Inl ErrBadOption then tget n t
        else sget n)"

definition pipeConnected :: "dialer \<Rightarrow> dialer" where
  "pipeConnected d = d\<lparr>dl_reconnTime := dl_reconnMinTime d\<rparr>"

definition redial :: "(int \<Rightarrow> int) \<Rightarrow> bool \<Rightarrow> dialer \<Rightarrow> dialer" where
  "redial scale backoff d =
     (let rtime = dl_reconnTime d;
          d1 = (if backoff \<and> dl_reconnMaxTime d \<noteq> 0
                then d\<lparr>dl_reconnTime :=
                         (if scale (dl_reconnTime d) > dl_reconnMaxTime d then dl_reconnMaxTime d
                          else scale (dl_reconnTime d))\<rparr>
                else d)
      in d1\<lparr>dl_redialer := Some (dl_ntimer d), dl_timers := dl_timers d @ [(dl_ntimer d, rtime)],
            dl_ntimer := Suc (dl_ntimer d)\<rparr>)"

definition pipeClosed :: "(int \<Rightarrow> int) \<Rightarrow> dialer \<Rightarrow> dialer" where
  "pipeClosed scale d = redial scale (dl_backoffOnClose d) (d\<lparr>dl_pipes := dl_pipes d - 1\<rparr>)"

text \<open>\<^verbatim>\<open>dial\<close>: the region under the lock, and what follows the transport's answer.\<close>

definition dial_begin :: "bool \<Rightarrow> dialer \<Rightarrow> dialer \<times> status" where
  "dial_begin rd d =
     (let d1 = d\<lparr>dl_calls := remove1 rd (dl_calls d)\<rparr>
      in if dl_closed d then (d1, Some ErrClosed)
         else (d1\<lparr>dl_dialing := dl_dialing d @ [rd \<or> dl_asynch d]\<rparr>, None))"

definition dial_done :: "(int \<Rightarrow> int) \<Rightarrow> bool \<Rightarrow> status \<Rightarrow> dialer \<Rightarrow> dialer \<times> status" where
  "dial_done scale rd err d =
     (let d1 = d\<lparr>dl_dialing := remove1 rd (dl_dialing d)\<rparr>
      in case err of
           None \<Rightarrow> (d1\<lparr>dl_pipes := Suc (dl_pipes d)\<rparr>, None)
         | Some e \<Rightarrow>
             if \<not> rd then (d1, Some e)
             else if e = ErrClosed then (d1, Some e)
             else (redial scale True d1, Some e))"

text \<open>A timer fires: the function it was armed with calls \<^verbatim>\<open>dial(true)\<close>.\<close>

definition timer_fires :: "nat \<times> int \<Rightarrow> dialer \<Rightarrow> dialer" where
  "timer_fires t d = d\<lparr>dl_timers := remove1 t (dl_timers d), dl_calls := dl_calls d @ [True]\<rparr>"

inductive dialer_step :: "(int \<Rightarrow> int) \<Rightarrow> dialer \<Rightarrow> dialer \<Rightarrow> bool" for scale where
  di_Dial: "dialer_step scale d (fst (dialer_Dial d))"
| di_Close: "dialer_step scale d (fst (dialer_Close d))"
| di_set: "dialer_step scale d (fst (fst (dialer_SetOption (\<lambda>_ _ t. (t, None)) n v (d, ()))))"
| di_begin: "rd \<in> set (dl_calls d) \<Longrightarrow> dialer_step scale d (fst (dial_begin rd d))"
| di_done: "rd \<in> set (dl_dialing d) \<Longrightarrow> dialer_step scale d (fst (dial_done scale rd e d))"
| di_fire: "t \<in> set (dl_timers d) \<Longrightarrow> dialer_step scale d (timer_fires t d)"
| di_connected: "dialer_step scale d (pipeConnected d)"
| di_closed: "0 < dl_pipes d \<Longrightarrow> dialer_step scale d (pipeClosed scale d)"

text \<open>How many chains of attempts the dialer has.\<close>

definition chain :: "dialer \<Rightarrow> nat" where
  "chain d = length (dl_calls d) + length (dl_dialing d) + length (dl_timers d) + dl_pipes d"

definition dialer_ok :: "dialer \<Rightarrow> bool" where
  "dialer_ok d \<longleftrightarrow> chain d \<le> (if dl_active d then 1 else 0) \<and>
     (\<forall>t\<in>set (dl_timers d). dl_redialer d = Some (fst t) \<and> fst t < dl_ntimer d)"

section \<open>Listener\<close>

record listener =
  ln_closed :: bool
  ln_active :: bool
  ln_serving :: bool
  ln_accepted :: nat

definition new_listener :: listener where
  "new_listener = \<lparr>ln_closed = False, ln_active = False, ln_serving = False, ln_accepted = 0\<rparr>"

text \<open>\<^verbatim>\<open>Listen\<close>: the flags under the lock, then the transport's answer.\<close>

definition listener_Listen_begin :: "listener \<Rightarrow> listener \<times> status" where
  "listener_Listen_begin l =
     (if ln_closed l then (l, Some ErrClosed)
      else if ln_active l then (l, Some ErrAddrInUse)
      else (l\<lparr>ln_active := True\<rparr>, None))"

definition listener_Listen_done :: "status \<Rightarrow> listener \<Rightarrow> listener \<times> status" where
  "listener_Listen_done err l =
     (case err of
        Some e \<Rightarrow> (l\<lparr>ln_active := False\<rparr>, Some e)
      | None \<Rightarrow> (l\<lparr>ln_serving := True\<rparr>, None))"

text \<open>
  One turn of the loop of \<^verbatim>\<open>serve\<close>; \<open>ans\<close> is what \<^verbatim>\<open>Accept\<close> returned. Every error but
  \<^verbatim>\<open>ErrClosed\<close> is followed by another turn after a pause.
\<close>

definition serve_turn :: "status \<Rightarrow> listener \<Rightarrow> listener" where
  "serve_turn ans l =
     (if \<not> ln_serving l then l
      else if ln_closed l then l\<lparr>ln_serving := False\<rparr>
      else (case ans of
              None \<Rightarrow> l\<lparr>ln_accepted := Suc (ln_accepted l)\<rparr>
            | Some e \<Rightarrow> if e = ErrClosed then l\<lparr>ln_serving := False\<rparr> else l))"

text \<open>\<open>terr\<close> is the answer of the transport's \<^verbatim>\<open>Close\<close>.\<close>

definition listener_Close :: "status \<Rightarrow> listener \<Rightarrow> listener \<times> status" where
  "listener_Close terr l =
     (if ln_closed l then (l, Some ErrClosed) else (l\<lparr>ln_closed := True\<rparr>, terr))"

inductive listener_step :: "listener \<Rightarrow> listener \<Rightarrow> bool" where
  li_Listen: "listener_Listen_begin l = (l1, None) \<Longrightarrow> listener_step l (fst (listener_Listen_done e l1))"
| li_turn: "listener_step l (serve_turn ans l)"
| li_Close: "listener_step l (fst (listener_Close e l))"


section \<open>One chain of attempts\<close>

lemma redial_simps [simp]:
  "dl_calls (redial sc b d) = dl_calls d" "dl_dialing (redial sc b d) = dl_dialing d" "dl_pipes (redial sc b d) = dl_pipes d"
  "dl_active (redial sc b d) = dl_active d" "dl_closed (redial sc b d) = dl_closed d" "dl_asynch (redial sc b d) = dl_asynch d"
  "dl_timers (redial sc b d) = dl_timers d @ [(dl_ntimer d, dl_reconnTime d)]" "dl_redialer (redial sc b d) = Some (dl_ntimer d)"
  "dl_ntimer (redial sc b d) = Suc (dl_ntimer d)" "dl_reconnMaxTime (redial sc b d) = dl_reconnMaxTime d"
  "dl_reconnMinTime (redial sc b d) = dl_reconnMinTime d"
  by (simp_all add: redial_def Let_def)

text \<open>Every chain is at one place: the other lists are empty there.\<close>

lemma chain_at:
  assumes "chain d \<le> 1"
  shows "x \<in> set (dl_calls d) \<Longrightarrow> dl_calls d = [x] \<and> dl_dialing d = [] \<and> dl_timers d = [] \<and> dl_pipes d = 0"
    "x \<in> set (dl_dialing d) \<Longrightarrow> dl_calls d = [] \<and> dl_dialing d = [x] \<and> dl_timers d = [] \<and> dl_pipes d = 0"
    "t \<in> set (dl_timers d) \<Longrightarrow> dl_calls d = [] \<and> dl_dialing d = [] \<and> dl_timers d = [t] \<and> dl_pipes d = 0"
    "0 < dl_pipes d \<Longrightarrow> dl_calls d = [] \<and> dl_dialing d = [] \<and> dl_timers d = [] \<and> dl_pipes d = 1"
proof -
  show "dl_calls d = [x] \<and> dl_dialing d = [] \<and> dl_timers d = [] \<and> dl_pipes d = 0" if "x \<in> set (dl_calls d)"
    using assms that length_pos_if_in_set [OF that] by (cases "dl_calls d") (auto simp: chain_def)
  show "dl_calls d = [] \<and> dl_dialing d = [x] \<and> dl_timers d = [] \<and> dl_pipes d = 0" if "x \<in> set (dl_dialing d)"
    using assms that length_pos_if_in_set [OF that] by (cases "dl_dialing d") (auto simp: chain_def)
  show "dl_calls d = [] \<and> dl_dialing d = [] \<and> dl_timers d = [t] \<and> dl_pipes d = 0" if "t \<in> set (dl_timers d)"
    using assms that length_pos_if_in_set [OF that] by (cases "dl_timers d") (auto simp: chain_def)
  show "dl_calls d = [] \<and> dl_dialing d = [] \<and> dl_timers d = [] \<and> dl_pipes d = 1" if "0 < dl_pipes d"
    using assms that unfolding chain_def by (simp add: length_0_conv [symmetric] del: length_0_conv)
qed

lemma dialer_okD:
  assumes "dialer_ok d"
  shows "chain d \<le> 1" "\<not> dl_active d \<Longrightarrow> chain d = 0" "0 < chain d \<Longrightarrow> dl_active d"
  using assms by (auto simp: dialer_ok_def split: if_splits)

lemma dialer_ok_keep:
  assumes "dialer_ok d" "dl_active d' = dl_active d" "dl_calls d' = dl_calls d" "dl_dialing d' = dl_dialing d"
    "dl_timers d' = dl_timers d" "dl_pipes d' = dl_pipes d" "dl_redialer d' = dl_redialer d" "dl_ntimer d' = dl_ntimer d"
  shows "dialer_ok d'"
  using assms by (simp add: dialer_ok_def chain_def)

lemma dialer_step_ok: "dialer_step sc d d' \<Longrightarrow> dialer_ok d \<Longrightarrow> dialer_ok d'"
proof (induction rule: dialer_step.induct)
  case (di_Dial d)
  then show ?case by (auto simp: dialer_Dial_def dialer_ok_def chain_def)
next
  case (di_Close d)
  have "dialer_ok (d\<lparr>dl_timers := filter P (dl_timers d), dl_closed := True\<rparr>)" for P
  proof -
    have "chain (d\<lparr>dl_timers := filter P (dl_timers d), dl_closed := True\<rparr>) \<le> chain d" by (simp add: chain_def)
    with di_Close show ?thesis unfolding dialer_ok_def by auto
  qed
  moreover have "dialer_ok (d\<lparr>dl_closed := True\<rparr>)" using dialer_ok_keep [OF di_Close] by simp
  ultimately show ?case using di_Close by (simp add: dialer_Close_def Let_def split: option.split)
next
  case (di_set d n v)
  then show ?case
    by (simp add: dialer_SetOption_def fst_set_field split: option.split)
      (intro conjI impI allI; rule dialer_ok_keep [OF di_set]; simp)
next
  case (di_begin rd d)
  note c = chain_at(1) [OF dialer_okD(1) [OF di_begin(2)] di_begin(1)]
  then show ?case using dialer_okD(3) [OF di_begin(2)] by (simp add: dial_begin_def Let_def dialer_ok_def chain_def)
next
  case (di_done rd d e)
  note c = chain_at(2) [OF dialer_okD(1) [OF di_done(2)] di_done(1)]
  then show ?case using dialer_okD(3) [OF di_done(2)]
    by (simp add: dial_done_def Let_def dialer_ok_def chain_def split: option.split)
next
  case (di_fire t d)
  note c = chain_at(3) [OF dialer_okD(1) [OF di_fire(2)] di_fire(1)]
  then show ?case using dialer_okD(3) [OF di_fire(2)] by (simp add: timer_fires_def dialer_ok_def chain_def)
next
  case (di_connected d)
  then show ?case by (auto simp: pipeConnected_def intro: dialer_ok_keep)
next
  case (di_closed d)
  note c = chain_at(4) [OF dialer_okD(1) [OF di_closed(2)] di_closed(1)]
  then show ?case using dialer_okD(3) [OF di_closed(2)] by (simp add: pipeClosed_def dialer_ok_def chain_def)
qed

interpretation dialer: machine "\<lambda>d. \<exists>mn mx bo as. d = new_dialer mn mx bo as" "dialer_step sc" dialer_ok
proof unfold_locales
  show "dialer_ok d" if "\<exists>mn mx bo as. d = new_dialer mn mx bo as" for d
    using that by (auto simp: new_dialer_def dialer_ok_def chain_def)
  show "dialer_ok t" if "dialer_ok s" "dialer_step sc s t" for s t using that dialer_step_ok by blast
qed

section \<open>Backoff\<close>

text \<open>
  The delays of \<open>n\<close> failed attempts in a row: the transport fails, the timer that \<^verbatim>\<open>redial\<close> armed
  fires, \<^verbatim>\<open>dial\<close> begins again. \<open>sc\<close> gives the random factor of each attempt.
\<close>

fun attempts :: "(nat \<Rightarrow> int \<Rightarrow> int) \<Rightarrow> err \<Rightarrow> nat \<Rightarrow> dialer \<Rightarrow> int list" where
  "attempts sc e 0 d = []"
| "attempts sc e (Suc n) d =
     (let d1 = fst (dial_done (sc n) True (Some e) d);
          t = last (dl_timers d1)
      in snd t # attempts sc e n (fst (dial_begin True (timer_fires t d1))))"

definition trying :: "dialer \<Rightarrow> bool" where
  "trying d \<longleftrightarrow> \<not> dl_closed d \<and> dl_calls d = [] \<and> dl_dialing d = [True] \<and> dl_timers d = []"

lemma attempt_again:
  fixes sc :: "int \<Rightarrow> int"
  assumes "trying d" "e \<noteq> ErrClosed"
  defines "d' \<equiv> fst (dial_begin True (timer_fires (last (dl_timers (fst (dial_done sc True (Some e) d))))
    (fst (dial_done sc True (Some e) d))))"
  shows "trying d'" "dl_reconnMaxTime d' = dl_reconnMaxTime d"
    "dl_reconnTime d' = (if dl_reconnMaxTime d = 0 then dl_reconnTime d else min (sc (dl_reconnTime d)) (dl_reconnMaxTime d))"
    "last (dl_timers (fst (dial_done sc True (Some e) d))) = (dl_ntimer d, dl_reconnTime d)"
  using assms by (simp_all add: trying_def dial_done_def timer_fires_def dial_begin_def Let_def redial_def min_def)

lemma attempts_Suc:
  assumes "trying d" "e \<noteq> ErrClosed"
  shows "\<exists>d'. trying d' \<and> dl_reconnMaxTime d' = dl_reconnMaxTime d \<and>
    dl_reconnTime d' = (if dl_reconnMaxTime d = 0 then dl_reconnTime d else min (sc n (dl_reconnTime d)) (dl_reconnMaxTime d)) \<and>
    attempts sc e (Suc n) d = dl_reconnTime d # attempts sc e n d'"
  using attempt_again [OF assms, of "sc n"]
  by (intro exI [of _ "fst (dial_begin True (timer_fires (last (dl_timers (fst (dial_done (sc n) True (Some e) d))))
    (fst (dial_done (sc n) True (Some e) d))))"]) (simp add: Let_def)

lemma attempts_bounds:
  assumes e: "e \<noteq> ErrClosed" and sc: "\<And>k x. 0 \<le> x \<Longrightarrow> x \<le> mx \<Longrightarrow> x + x div 10 \<le> sc k x" and mx: "0 < mx"
  shows "trying d \<Longrightarrow> dl_reconnMaxTime d = mx \<Longrightarrow> 0 \<le> dl_reconnTime d \<Longrightarrow> dl_reconnTime d \<le> mx \<Longrightarrow>
    length (attempts sc e n d) = n \<and> sorted (attempts sc e n d) \<and>
    (\<forall>x\<in>set (attempts sc e n d). dl_reconnTime d \<le> x \<and> x \<le> mx) \<and>
    (\<forall>k < n. 10 \<le> dl_reconnTime d \<longrightarrow> min mx (dl_reconnTime d + int k) \<le> attempts sc e n d ! k)"
proof (induction n arbitrary: d)
  case (Suc n)
  let ?r = "dl_reconnTime d"
  obtain d' where d': "trying d'" "dl_reconnMaxTime d' = mx" "dl_reconnTime d' = min (sc n ?r) mx"
      "attempts sc e (Suc n) d = ?r # attempts sc e n d'"
    using attempts_Suc [OF Suc.prems(1) e, of sc n] mx Suc.prems(2) by auto
  have g: "?r + ?r div 10 \<le> sc n ?r" using sc [of ?r n] Suc.prems(3,4) by simp
  then have r: "?r \<le> dl_reconnTime d'" "dl_reconnTime d' \<le> mx" "0 \<le> dl_reconnTime d'"
    using Suc.prems(3,4) by (auto simp: d'(3) min_def)
  note IH = Suc.IH [OF d'(1,2) r(3,2)]
  have "min mx (?r + int k) \<le> (?r # attempts sc e n d') ! k" if "k < Suc n" "10 \<le> ?r" for k
  proof (cases k)
    case 0
    then show ?thesis by simp
  next
    case (Suc j)
    have "1 \<le> ?r div 10" using that(2) by simp
    then have "min mx (?r + 1) \<le> dl_reconnTime d'" using g by (auto simp: d'(3))
    moreover have "min mx (dl_reconnTime d' + int j) \<le> attempts sc e n d' ! j" using IH that Suc r(1) by auto
    ultimately show ?thesis using Suc by auto
  qed
  then show ?case using IH r unfolding d'(4) by force
qed simp


section \<open>Properties\<close>

text \<open>
  C22: A dialer that is in use keeps exactly one line of attempts going. However its methods, its
  timers, the transport's answers and the ends of its pipes interleave, it never has two connections,
  calls or timers at once; \<^verbatim>\<open>Close\<close> leaves no timer armed; a failed attempt (of an asynchronous or
  repeated dial, with any error but \<^verbatim>\<open>ErrClosed\<close>) and the end of a pipe each arm one timer, with the
  current reconnect time; and when a timer fires on a dialer that is not closed, the transport is
  dialled again, while a closed dialer gives up.
\<close>

theorem dialer_keeps_reconnecting:
  assumes run: "(dialer_step scale)\<^sup>*\<^sup>* (new_dialer mn mx bo as) d"
  shows "chain d \<le> 1 \<and>
    (\<not> dl_closed d \<longrightarrow> dl_timers (fst (dialer_Close d)) = []) \<and>
    (True \<in> set (dl_dialing d) \<longrightarrow> e \<noteq> ErrClosed \<longrightarrow>
       dl_timers (fst (dial_done scale True (Some e) d)) = [(dl_ntimer d, dl_reconnTime d)] \<and>
       dl_dialing (fst (dial_done scale True (Some e) d)) = []) \<and>
    (0 < dl_pipes d \<longrightarrow> dl_timers (pipeClosed scale d) = [(dl_ntimer d, dl_reconnTime d)]) \<and>
    (t \<in> set (dl_timers d) \<longrightarrow> True \<in> set (dl_calls (timer_fires t d)) \<and>
       (let r = dial_begin True (timer_fires t d)
        in if dl_closed d then snd r = Some ErrClosed \<and> chain (fst r) = 0
           else snd r = None \<and> dl_dialing (fst r) = [True] \<and> chain (fst r) = 1))"
proof -
  have ok: "dialer_ok d" by (rule dialer.reachable_inv [OF _ run]) blast
  have c: "chain d \<le> 1" by (rule dialer_okD(1) [OF ok])
  have "dl_timers (fst (dialer_Close d)) = []" if "\<not> dl_closed d"
  proof (cases "dl_timers d")
    case Nil
    then show ?thesis using that by (simp add: dialer_Close_def Let_def split: option.split)
  next
    case (Cons a ts)
    then have "dl_timers d = [a]" "dl_redialer d = Some (fst a)"
      using chain_at(3) [OF c, of a] ok by (auto simp: dialer_ok_def)
    then show ?thesis using that by (simp add: dialer_Close_def)
  qed
  moreover have "dl_timers (fst (dial_done scale True (Some e) d)) = [(dl_ntimer d, dl_reconnTime d)] \<and>
       dl_dialing (fst (dial_done scale True (Some e) d)) = []" if "True \<in> set (dl_dialing d)" "e \<noteq> ErrClosed"
    using chain_at(2) [OF c that(1)] that(2) by (simp add: dial_done_def Let_def)
  moreover have "dl_timers (pipeClosed scale d) = [(dl_ntimer d, dl_reconnTime d)]" if "0 < dl_pipes d"
    using chain_at(4) [OF c that] by (simp add: pipeClosed_def)
  moreover have "True \<in> set (dl_calls (timer_fires t d)) \<and>
       (let r = dial_begin True (timer_fires t d)
        in if dl_closed d then snd r = Some ErrClosed \<and> chain (fst r) = 0
           else snd r = None \<and> dl_dialing (fst r) = [True] \<and> chain (fst r) = 1)" if "t \<in> set (dl_timers d)"
    using chain_at(3) [OF c that] by (simp add: timer_fires_def dial_begin_def Let_def chain_def)
  ultimately show ?thesis using c by blast
qed

definition dial1 :: dialer where "dial1 = fst (dialer_Dial (new_dialer 100 1000 False True))"
definition dial2 :: dialer where "dial2 = fst (dial_begin True dial1)"

lemma dial2_run: "(dialer_step sc)\<^sup>*\<^sup>* (new_dialer 100 1000 False True) dial2"
proof -
  have "dialer_step sc (new_dialer 100 1000 False True) dial1" unfolding dial1_def by (rule di_Dial)
  moreover have "dialer_step sc dial1 dial2"
    unfolding dial2_def by (rule di_begin) (simp add: dial1_def dialer_Dial_def new_dialer_def)
  ultimately show ?thesis by (meson rtranclp.rtrancl_into_rtrancl r_into_rtranclp)
qed

lemma dial2_eval: "trying dial2" "dl_reconnMaxTime dial2 = 1000" "dl_reconnTime dial2 = 100" "dl_ntimer dial2 = 0"
  by (simp_all add: trying_def dial2_def dial1_def dial_begin_def dialer_Dial_def new_dialer_def Let_def)

theorem dialer_keeps_reconnecting_witness:
  "True \<in> set (dl_dialing dial2) \<and> dl_timers (fst (dial_done (\<lambda>x. x * 13 div 10) True (Some ErrConnRefused) dial2)) = [(0, 100)]"
  using dialer_keeps_reconnecting [OF dial2_run [of "\<lambda>x. x * 13 div 10"], of ErrConnRefused] dial2_eval
  by (simp add: trying_def)



text \<open>
  A failed synchronous \<^verbatim>\<open>Dial\<close> leaves \<^verbatim>\<open>active\<close> set, so the dialer can never be used again; a failed
  \<^verbatim>\<open>Listen\<close> resets it.
\<close>

lemma failed_Dial_is_final:
  assumes "\<not> dl_active d" "\<not> dl_closed d" "\<not> dl_asynch d" "dl_calls d = []" "dl_dialing d = []"
  shows "\<exists>d1 d2 d3. dialer_Dial d = (d1, None) \<and> dial_begin False d1 = (d2, None) \<and> dial_done sc False (Some e) d2 = (d3, Some e) \<and>
    dialer_Dial d3 = (d3, Some ErrAddrInUse)"
  using assms by (simp add: dialer_Dial_def dial_begin_def dial_done_def Let_def)

lemma failed_Listen_retries:
  assumes "listener_Listen_begin l = (l1, None)" "listener_Listen_done (Some e) l1 = (l2, Some e)"
  shows "l2 = l"
  using assms by (cases l) (auto simp: listener_Listen_begin_def listener_Listen_done_def split: if_splits)

lemma closed_listener_stops:
  "ln_closed l \<Longrightarrow> listener_step l l' \<Longrightarrow> ln_closed l' \<and> ln_accepted l' = ln_accepted l"
  by (erule listener_step.cases)
    (auto simp: listener_Listen_begin_def serve_turn_def listener_Close_def split: if_splits option.splits)

end
