(* ===== verification/CoreSocket.thy ===== *)
theory CoreSocket
  imports Dialer
begin

text \<open>
  The socket of the core (\<^verbatim>\<open>internal/core/socket.go\<close>) over a protocol, its dialers and its
  listeners, and the registry of transports (\<^verbatim>\<open>transport/transport.go\<close>). The protocol's methods
  are arguments; that they meet the contract \<open>protocol_base\<close> is what the lemmas on options assume.
  A transport is the record of its methods, the endpoints it makes have a state of type \<open>'t\<close>, on
  which \<open>tset\<close> is the endpoint's \<^verbatim>\<open>SetOption\<close>. \<^verbatim>\<open>range options\<close> visits a map in any order: the
  options are the list of its pairs in the order of the visit.
\<close>

section \<open>Transports and addresses\<close>

record 't transport =
  tr_Scheme :: string
  tr_NewDialer :: "string \<Rightarrow> err + 't"
  tr_NewListener :: "string \<Rightarrow> err + 't"

type_synonym 't registry = "string \<rightharpoonup> 't transport"

definition RegisterTransport :: "'t transport \<Rightarrow> 't registry \<Rightarrow> 't registry" where
  "RegisterTransport t r = r(tr_Scheme t \<mapsto> t)"

definition GetTransport :: "string \<Rightarrow> 't registry \<Rightarrow> 't transport option" where
  "GetTransport scheme r = r scheme"

definition starts_with :: "string \<Rightarrow> string \<Rightarrow> bool" where
  "starts_with p s \<longleftrightarrow> take (length p) s = p"

text \<open>\<^verbatim>\<open>strings.Index\<close>, \<open>None\<close> for a negative result.\<close>

fun str_index :: "string \<Rightarrow> string \<Rightarrow> nat option" where
  "str_index p [] = (if p = [] then Some 0 else None)"
| "str_index p (c # cs) = (if starts_with p (c # cs) then Some 0 else map_option Suc (str_index p cs))"

definition getTransport :: "string \<Rightarrow> 't registry \<Rightarrow> 't transport option" where
  "getTransport addr r =
     (case str_index ''://'' addr of None \<Rightarrow> None | Some i \<Rightarrow> GetTransport (take i addr) r)"

definition StripScheme :: "'t transport \<Rightarrow> string \<Rightarrow> string \<times> status" where
  "StripScheme t addr =
     (if \<not> starts_with (tr_Scheme t @ ''://'') addr then (addr, Some ErrBadTran)
      else (drop (length (tr_Scheme t @ ''://'')) addr, None))"

lemma starts_with_iff: "starts_with p s \<longleftrightarrow> (\<exists>r. s = p @ r)"
  unfolding starts_with_def by (metis append_eq_conv_conj append_take_drop_id)

lemma str_index_scheme:
  assumes "CHR '':'' \<notin> set sch"
  shows "str_index ''://'' (sch @ ''://'' @ rest) = Some (length sch)"
  using assms by (induction sch) (auto simp: starts_with_def)

text \<open>An address made of a registered scheme and a path finds its transport, which gets the path back.\<close>

lemma address_round_trip:
  assumes "CHR '':'' \<notin> set (tr_Scheme t)"
  shows "getTransport (tr_Scheme t @ ''://'' @ path) (RegisterTransport t r) = Some t"
    and "StripScheme t (tr_Scheme t @ ''://'' @ path) = (path, None)"
  using str_index_scheme [OF assms, of path]
  by (simp_all add: getTransport_def GetTransport_def RegisterTransport_def StripScheme_def starts_with_def)

section \<open>State\<close>

text \<open>
  The objects \<open>k_dobj\<close>, \<open>k_lobj\<close> are the dialers and listeners that were entered into the socket's
  lists; \<open>k_dclose\<close> and \<open>k_lclose\<close> are those that a running \<^verbatim>\<open>Close\<close> still has to close.
\<close>

record ('p, 't) csock =
  k_proto :: 'p
  k_closed :: bool
  k_reconnMinTime :: int
  k_reconnMaxTime :: int
  k_backoffOnClose :: bool
  k_maxRxSize :: int
  k_dialAsynch :: bool
  k_listeners :: "nat list"
  k_dialers :: "nat list"
  k_dobj :: "nat \<Rightarrow> dialer \<times> 't"
  k_ndial :: nat
  k_lobj :: "nat \<Rightarrow> listener \<times> 't"
  k_nlist :: nat
  k_lclose :: "nat list"
  k_dclose :: "nat list"

definition newSocket :: "'p \<Rightarrow> 't \<Rightarrow> ('p, 't) csock" where
  "newSocket proto t0 =
     \<lparr>k_proto = proto, k_closed = False, k_reconnMinTime = 100000000, k_reconnMaxTime = 0, k_backoffOnClose = False,
      k_maxRxSize = 1024 * 1024, k_dialAsynch = False, k_listeners = [], k_dialers = [],
      k_dobj = (\<lambda>_. (new_dialer 0 0 False False, t0)), k_ndial = 0, k_lobj = (\<lambda>_. (new_listener, t0)), k_nlist = 0,
      k_lclose = [], k_dclose = []\<rparr>"

section \<open>Options\<close>

definition set_dialer ::
    "(string \<Rightarrow> optval \<Rightarrow> 't \<Rightarrow> 't \<times> status) \<Rightarrow> string \<Rightarrow> optval \<Rightarrow> nat \<Rightarrow> ('p, 't) csock \<Rightarrow> ('p, 't) csock" where
  "set_dialer tset n v k s = s\<lparr>k_dobj := (k_dobj s)(k := fst (dialer_SetOption tset n v (k_dobj s k)))\<rparr>"

definition set_listener ::
    "(string \<Rightarrow> optval \<Rightarrow> 't \<Rightarrow> 't \<times> status) \<Rightarrow> string \<Rightarrow> optval \<Rightarrow> nat \<Rightarrow> ('p, 't) csock \<Rightarrow> ('p, 't) csock" where
  "set_listener tset n v k s =
     s\<lparr>k_lobj := (k_lobj s)(k := (fst (k_lobj s k), fst (tset n v (snd (k_lobj s k)))))\<rparr>"

text \<open>The \<^verbatim>\<open>switch\<close> of \<^verbatim>\<open>SetOption\<close>.\<close>

definition sock_set_own :: "string \<Rightarrow> optval \<Rightarrow> ('p, 't) csock \<Rightarrow> ('p, 't) csock \<times> status" where
  "sock_set_own n v s =
     (if n = OptionMaxRecvSize then set_field (asQLen v) (\<lambda>x s. s\<lparr>k_maxRxSize := int x\<rparr>) s
      else if n = OptionReconnectTime then set_field (asDuration v) (\<lambda>x s. s\<lparr>k_reconnMinTime := x\<rparr>) s
      else if n = OptionMaxReconnectTime then set_field (asDuration v) (\<lambda>x s. s\<lparr>k_reconnMaxTime := x\<rparr>) s
      else if n = OptionReconnectBackoffOnClose then set_field (asBool v) (\<lambda>x s. s\<lparr>k_backoffOnClose := x\<rparr>) s
      else if n = OptionDialAsynch then set_field (asBool v) (\<lambda>x s. s\<lparr>k_dialAsynch := x\<rparr>) s
      else (s, Some ErrBadOption))"

definition sock_SetOption ::
    "(string \<Rightarrow> optval \<Rightarrow> 'p \<Rightarrow> 'p \<times> status) \<Rightarrow> (string \<Rightarrow> optval \<Rightarrow> 't \<Rightarrow> 't \<times> status) \<Rightarrow>
     string \<Rightarrow> optval \<Rightarrow> ('p, 't) csock \<Rightarrow> ('p, 't) csock \<times> status" where
  "sock_SetOption pset tset n v s =
     (case pset n v (k_proto s) of (p, e) \<Rightarrow>
        let s1 = s\<lparr>k_proto := p\<rparr>
        in if e \<noteq> Some ErrBadOption then (s1, e)
           else (case sock_set_own n v s1 of (s2, e2) \<Rightarrow>
                   if e2 \<noteq> None then (s2, e2)
                   else (fold (set_listener tset n v) (k_listeners s2)
                           (fold (set_dialer tset n v) (k_dialers s2) s2), None)))"

definition sock_GetOption :: "(string \<Rightarrow> 'p \<Rightarrow> err + optval) \<Rightarrow> string \<Rightarrow> ('p, 't) csock \<Rightarrow> err + optval" where
  "sock_GetOption pget n s =
     (if pget n (k_proto s) \<noteq> Inl ErrBadOption then pget n (k_proto s)
      else if n = OptionMaxRecvSize then Inr (VInt (k_maxRxSize s))
      else if n = OptionReconnectTime then Inr (VDuration (k_reconnMinTime s))
      else if n = OptionMaxReconnectTime then Inr (VDuration (k_reconnMaxTime s))
      else if n = OptionReconnectBackoffOnClose then Inr (VBool (k_backoffOnClose s))
      else if n = OptionDialAsynch then Inr (VBool (k_dialAsynch s))
      else Inl ErrBadOption)"

section \<open>Dialers and listeners\<close>

text \<open>
  The loop over the options of \<^verbatim>\<open>NewDialer\<close>: the four options of the core go to the dialer, the
  others to the transport's, which is what \<^verbatim>\<open>dialer_SetOption\<close> does as well.
\<close>

fun dialer_options ::
    "(string \<Rightarrow> optval \<Rightarrow> 't \<Rightarrow> 't \<times> status) \<Rightarrow> (string \<times> optval) list \<Rightarrow> dialer \<times> 't \<Rightarrow> err + dialer \<times> 't" where
  "dialer_options tset [] dt = Inr dt"
| "dialer_options tset ((n, v) # opts) dt =
     (case (if n \<in> {OptionReconnectTime, OptionMaxReconnectTime, OptionReconnectBackoffOnClose, OptionDialAsynch}
            then dialer_SetOption tset n v dt
            else (case tset n v (snd dt) of (t, e) \<Rightarrow> ((fst dt, t), e))) of
        (dt', None) \<Rightarrow> dialer_options tset opts dt'
      | (dt', Some e) \<Rightarrow> Inl e)"

fun listener_options ::
    "(string \<Rightarrow> optval \<Rightarrow> 't \<Rightarrow> 't \<times> status) \<Rightarrow> (string \<times> optval) list \<Rightarrow> 't \<Rightarrow> err + 't" where
  "listener_options tset [] t = Inr t"
| "listener_options tset ((n, v) # opts) t =
     (case tset n v t of (t', None) \<Rightarrow> listener_options tset opts t' | (t', Some e) \<Rightarrow> Inl e)"

text \<open>The socket's receive limit goes to an endpoint whose options do not set it.\<close>

definition inherit_max ::
    "(string \<Rightarrow> optval \<Rightarrow> 't \<Rightarrow> 't \<times> status) \<Rightarrow> int \<Rightarrow> (string \<times> optval) list \<Rightarrow> 't \<Rightarrow> err + 't" where
  "inherit_max tset mx opts t =
     (if OptionMaxRecvSize \<in> fst ` set opts then Inr t
      else (case tset OptionMaxRecvSize (VInt mx) t of
              (t', None) \<Rightarrow> Inr t'
            | (t', Some e) \<Rightarrow> if e = ErrBadOption then Inr t' else Inl e))"

definition make_dialer ::
    "(string \<Rightarrow> optval \<Rightarrow> 't \<Rightarrow> 't \<times> status) \<Rightarrow> 't registry \<Rightarrow> string \<Rightarrow> (string \<times> optval) list \<Rightarrow> ('p, 't) csock \<Rightarrow>
     err + dialer \<times> 't" where
  "make_dialer tset r addr opts s =
     (case getTransport addr r of
        None \<Rightarrow> Inl ErrBadTran
      | Some t \<Rightarrow>
          (case tr_NewDialer t addr of
             Inl e \<Rightarrow> Inl e
           | Inr td \<Rightarrow>
               (case dialer_options tset opts
                       (new_dialer (k_reconnMinTime s) (k_reconnMaxTime s) (k_backoffOnClose s) (k_dialAsynch s), td) of
                  Inl e \<Rightarrow> Inl e
                | Inr (d, td') \<Rightarrow>
                    (case inherit_max tset (k_maxRxSize s) opts td' of Inl e \<Rightarrow> Inl e | Inr td'' \<Rightarrow> Inr (d, td'')))))"

definition sock_NewDialer ::
    "(string \<Rightarrow> optval \<Rightarrow> 't \<Rightarrow> 't \<times> status) \<Rightarrow> 't registry \<Rightarrow> string \<Rightarrow> (string \<times> optval) list \<Rightarrow> ('p, 't) csock \<Rightarrow>
     ('p, 't) csock \<times> (err + nat)" where
  "sock_NewDialer tset r addr opts s =
     (case make_dialer tset r addr opts s of
        Inl e \<Rightarrow> (s, Inl e)
      | Inr dt \<Rightarrow>
          if k_closed s then (s, Inl ErrClosed)
          else (s\<lparr>k_dobj := (k_dobj s)(k_ndial s := dt), k_ndial := Suc (k_ndial s),
                  k_dialers := k_dialers s @ [k_ndial s]\<rparr>, Inr (k_ndial s)))"

definition make_listener ::
    "(string \<Rightarrow> optval \<Rightarrow> 't \<Rightarrow> 't \<times> status) \<Rightarrow> 't registry \<Rightarrow> string \<Rightarrow> (string \<times> optval) list \<Rightarrow> ('p, 't) csock \<Rightarrow> err + 't" where
  "make_listener tset r addr opts s =
     (case getTransport addr r of
        None \<Rightarrow> Inl ErrBadTran
      | Some t \<Rightarrow>
          (case tr_NewListener t addr of
             Inl e \<Rightarrow> Inl e
           | Inr tln \<Rightarrow>
               (case listener_options tset opts tln of
                  Inl e \<Rightarrow> Inl e
                | Inr tln' \<Rightarrow> inherit_max tset (k_maxRxSize s) opts tln')))"

definition sock_NewListener ::
    "(string \<Rightarrow> optval \<Rightarrow> 't \<Rightarrow> 't \<times> status) \<Rightarrow> 't registry \<Rightarrow> string \<Rightarrow> (string \<times> optval) list \<Rightarrow> ('p, 't) csock \<Rightarrow>
     ('p, 't) csock \<times> (err + nat)" where
  "sock_NewListener tset r addr opts s =
     (case make_listener tset r addr opts s of
        Inl e \<Rightarrow> (s, Inl e)
      | Inr t \<Rightarrow>
          if k_closed s then (s, Inl ErrClosed)
          else (s\<lparr>k_lobj := (k_lobj s)(k_nlist s := (new_listener, t)), k_nlist := Suc (k_nlist s),
                  k_listeners := k_listeners s @ [k_nlist s]\<rparr>, Inr (k_nlist s)))"

text \<open>\<^verbatim>\<open>DialOptions\<close> and, without options, \<^verbatim>\<open>Dial\<close>.\<close>

definition sock_DialOptions ::
    "(string \<Rightarrow> optval \<Rightarrow> 't \<Rightarrow> 't \<times> status) \<Rightarrow> 't registry \<Rightarrow> string \<Rightarrow> (string \<times> optval) list \<Rightarrow> ('p, 't) csock \<Rightarrow>
     ('p, 't) csock \<times> status" where
  "sock_DialOptions tset r addr opts s =
     (case sock_NewDialer tset r addr opts s of
        (s1, Inl e) \<Rightarrow> (s1, Some e)
      | (s1, Inr k) \<Rightarrow>
          (case dialer_Dial (fst (k_dobj s1 k)) of (d, e) \<Rightarrow>
             (s1\<lparr>k_dobj := (k_dobj s1)(k := (d, snd (k_dobj s1 k)))\<rparr>, e)))"

text \<open>\<^verbatim>\<open>ListenOptions\<close>; \<open>lerr\<close> is the answer of the transport's \<^verbatim>\<open>Listen\<close>.\<close>

definition sock_ListenOptions ::
    "(string \<Rightarrow> optval \<Rightarrow> 't \<Rightarrow> 't \<times> status) \<Rightarrow> 't registry \<Rightarrow> string \<Rightarrow> (string \<times> optval) list \<Rightarrow> status \<Rightarrow> ('p, 't) csock \<Rightarrow>
     ('p, 't) csock \<times> status" where
  "sock_ListenOptions tset r addr opts lerr s =
     (case sock_NewListener tset r addr opts s of
        (s1, Inl e) \<Rightarrow> (s1, Some e)
      | (s1, Inr k) \<Rightarrow>
          (case listener_Listen_begin (fst (k_lobj s1 k)) of
             (l, Some e) \<Rightarrow> (s1, Some e)
           | (l, None) \<Rightarrow>
               (case listener_Listen_done lerr l of (l', e) \<Rightarrow>
                  (s1\<lparr>k_lobj := (k_lobj s1)(k := (l', snd (k_lobj s1 k)))\<rparr>, e))))"

section \<open>Closing\<close>

definition sock_Close_begin :: "('p, 't) csock \<Rightarrow> ('p, 't) csock" where
  "sock_Close_begin s =
     s\<lparr>k_lclose := k_lclose s @ k_listeners s, k_dclose := k_dclose s @ k_dialers s, k_listeners := [], k_dialers := [],
       k_closed := True\<rparr>"

definition sock_Close_listener :: "status \<Rightarrow> ('p, 't) csock \<Rightarrow> ('p, 't) csock" where
  "sock_Close_listener terr s =
     (case k_lclose s of
        [] \<Rightarrow> s
      | k # ks \<Rightarrow>
          s\<lparr>k_lclose := ks, k_lobj := (k_lobj s)(k := (fst (listener_Close terr (fst (k_lobj s k))), snd (k_lobj s k)))\<rparr>)"

definition sock_Close_dialer :: "('p, 't) csock \<Rightarrow> ('p, 't) csock" where
  "sock_Close_dialer s =
     (case k_dclose s of
        [] \<Rightarrow> s
      | k # ks \<Rightarrow>
          s\<lparr>k_dclose := ks, k_dobj := (k_dobj s)(k := (fst (dialer_Close (fst (k_dobj s k))), snd (k_dobj s k)))\<rparr>)"

definition sock_Close_proto :: "('p \<Rightarrow> 'p \<times> status) \<Rightarrow> ('p, 't) csock \<Rightarrow> ('p, 't) csock \<times> status" where
  "sock_Close_proto pclose s = (case pclose (k_proto s) of (p, e) \<Rightarrow> (s\<lparr>k_proto := p\<rparr>, e))"


section \<open>Runs\<close>

inductive sock_step ::
    "(string \<Rightarrow> optval \<Rightarrow> 'p \<Rightarrow> 'p \<times> status) \<Rightarrow> ('p \<Rightarrow> 'p \<times> status) \<Rightarrow> (string \<Rightarrow> optval \<Rightarrow> 't \<Rightarrow> 't \<times> status) \<Rightarrow>
     't registry \<Rightarrow> ('p, 't) csock \<Rightarrow> ('p, 't) csock \<Rightarrow> bool" for pset pclose tset r where
  ks_set: "sock_step pset pclose tset r s (fst (sock_SetOption pset tset n v s))"
| ks_newdialer: "sock_step pset pclose tset r s (fst (sock_NewDialer tset r addr opts s))"
| ks_newlistener: "sock_step pset pclose tset r s (fst (sock_NewListener tset r addr opts s))"
| ks_dial: "sock_step pset pclose tset r s (fst (sock_DialOptions tset r addr opts s))"
| ks_listen: "sock_step pset pclose tset r s (fst (sock_ListenOptions tset r addr opts le s))"
| ks_close: "sock_step pset pclose tset r s (sock_Close_begin s)"
| ks_closel: "sock_step pset pclose tset r s (sock_Close_listener e s)"
| ks_closed: "sock_step pset pclose tset r s (sock_Close_dialer s)"
| ks_closep: "sock_step pset pclose tset r s (fst (sock_Close_proto pclose s))"
| ks_dialer: "k < k_ndial s \<Longrightarrow> dialer_step scale (fst (k_dobj s k)) d \<Longrightarrow>
    sock_step pset pclose tset r s (s\<lparr>k_dobj := (k_dobj s)(k := (d, snd (k_dobj s k)))\<rparr>)"
| ks_listener: "k < k_nlist s \<Longrightarrow> listener_step (fst (k_lobj s k)) l \<Longrightarrow>
    sock_step pset pclose tset r s (s\<lparr>k_lobj := (k_lobj s)(k := (l, snd (k_lobj s k)))\<rparr>)"

text \<open>
  Every endpoint of an open socket is in its list; every endpoint of a closed one is closed or
  about to be.
\<close>

definition sock_inv :: "('p, 't) csock \<Rightarrow> bool" where
  "sock_inv s \<longleftrightarrow>
     (\<forall>k < k_ndial s. dl_closed (fst (k_dobj s k)) \<or> k \<in> set (if k_closed s then k_dclose s else k_dialers s)) \<and>
     (\<forall>k < k_nlist s. ln_closed (fst (k_lobj s k)) \<or> k \<in> set (if k_closed s then k_lclose s else k_listeners s)) \<and>
     (k_closed s \<longrightarrow> k_dialers s = [] \<and> k_listeners s = [])"

lemma dialer_step_closed: "dialer_step sc d d' \<Longrightarrow> dl_closed d \<Longrightarrow> dl_closed d'"
  by (erule dialer_step.cases)
    (auto simp: dialer_Dial_def dialer_Close_def dialer_SetOption_def fst_set_field dial_begin_def dial_done_def
      timer_fires_def pipeConnected_def pipeClosed_def Let_def split: option.splits if_splits)

lemma listener_step_closed: "listener_step l l' \<Longrightarrow> ln_closed l \<Longrightarrow> ln_closed l'"
  by (erule listener_step.cases)
    (auto simp: listener_Listen_begin_def serve_turn_def listener_Close_def split: if_splits option.splits)

lemma dialer_SetOption_closed: "dl_closed (fst (fst (dialer_SetOption tset n v dt))) = dl_closed (fst dt)"
  by (auto simp: dialer_SetOption_def fst_set_field split: option.split prod.split)

text \<open>Setting options changes neither the lists nor whether an endpoint is closed.\<close>

definition same_ends :: "('p, 't) csock \<Rightarrow> ('p, 't) csock \<Rightarrow> bool" where
  "same_ends s t \<longleftrightarrow> k_closed t = k_closed s \<and> k_dialers t = k_dialers s \<and> k_listeners t = k_listeners s \<and>
     k_ndial t = k_ndial s \<and> k_nlist t = k_nlist s \<and> k_dclose t = k_dclose s \<and> k_lclose t = k_lclose s \<and>
     (\<forall>k. dl_closed (fst (k_dobj t k)) = dl_closed (fst (k_dobj s k))) \<and>
     (\<forall>k. ln_closed (fst (k_lobj t k)) = ln_closed (fst (k_lobj s k)))"

lemma same_ends_inv: "same_ends s t \<Longrightarrow> sock_inv s \<Longrightarrow> sock_inv t"
  by (cases "k_closed s") (simp_all add: same_ends_def sock_inv_def)

lemma same_ends_trans: "same_ends s t \<Longrightarrow> same_ends t u \<Longrightarrow> same_ends s u"
  by (simp add: same_ends_def)

lemma same_ends_ops:
  "same_ends s s" "same_ends s (set_dialer tset n v k s)" "same_ends s (set_listener tset n v k s)"
  "same_ends s (s\<lparr>k_proto := p\<rparr>)" "after (same_ends s) (sock_set_own n v s)"
  by (simp_all add: same_ends_def set_dialer_def set_listener_def dialer_SetOption_closed sock_set_own_def)

lemma same_ends_fold:
  assumes "\<And>k s. same_ends s (f k s)"
  shows "same_ends s (fold f ks s)"
proof (induction ks arbitrary: s)
  case (Cons k ks)
  then show ?case using same_ends_trans [OF assms [of s k]] by simp
qed (simp add: same_ends_ops)

lemma same_ends_SetOption: "same_ends s (fst (sock_SetOption pset tset n v s))"
proof -
  obtain p e where p: "pset n v (k_proto s) = (p, e)" by force
  let ?s1 = "s\<lparr>k_proto := p\<rparr>"
  obtain s2 e2 where o: "sock_set_own n v ?s1 = (s2, e2)" by force
  have 2: "same_ends s s2"
    using same_ends_trans [OF same_ends_ops(4) [of s p]] same_ends_ops(5) [of ?s1 n v] o by (simp add: after_def)
  have "same_ends s (fold (set_listener tset n v) ls (fold (set_dialer tset n v) ds s2))" for ls ds
    by (rule same_ends_trans [OF same_ends_trans [OF 2]]; rule same_ends_fold; rule same_ends_ops)
  then show ?thesis using 2 same_ends_ops(4) [of s p] by (simp add: sock_SetOption_def p o Let_def)
qed

lemma new_dialer_inv: "sock_inv s \<Longrightarrow> sock_inv (fst (sock_NewDialer tset r addr opts s))"
  by (auto simp: sock_NewDialer_def sock_inv_def less_Suc_eq split: sum.split)

lemma new_listener_inv: "sock_inv s \<Longrightarrow> sock_inv (fst (sock_NewListener tset r addr opts s))"
  by (auto simp: sock_NewListener_def sock_inv_def less_Suc_eq split: sum.split)

lemma dialer_upd_inv:
  "sock_inv s \<Longrightarrow> (dl_closed (fst (k_dobj s k)) \<Longrightarrow> dl_closed d) \<Longrightarrow> sock_inv (s\<lparr>k_dobj := (k_dobj s)(k := (d, t))\<rparr>)"
  by (auto simp: sock_inv_def)

lemma listener_upd_inv:
  "sock_inv s \<Longrightarrow> (ln_closed (fst (k_lobj s k)) \<Longrightarrow> ln_closed l) \<Longrightarrow> sock_inv (s\<lparr>k_lobj := (k_lobj s)(k := (l, t))\<rparr>)"
  by (auto simp: sock_inv_def)

lemma sock_step_inv: "sock_step pset pclose tset r s t \<Longrightarrow> sock_inv s \<Longrightarrow> sock_inv t"
proof (induction rule: sock_step.induct)
  case (ks_set s n v)
  then show ?case using same_ends_inv [OF same_ends_SetOption] by blast
next
  case (ks_dial s addr opts)
  note i = new_dialer_inv [OF ks_dial, of tset r addr opts]
  show ?case
    using i dialer_upd_inv [OF i] dialer_step_closed [OF di_Dial]
    by (auto simp: sock_DialOptions_def split: prod.splits sum.splits) (metis fst_conv)+
next
  case (ks_listen s addr opts le)
  note i = new_listener_inv [OF ks_listen, of tset r addr opts]
  have "ln_closed (fst (listener_Listen_done le l))" if "listener_Listen_begin l0 = (l, None)" "ln_closed l0" for l l0
    using that by (auto simp: listener_Listen_begin_def)
  with i listener_upd_inv [OF i] show ?case
    by (auto simp: sock_ListenOptions_def split: prod.splits sum.splits option.splits) (metis fst_conv)+
next
  case (ks_close s)
  then show ?case by (auto simp: sock_Close_begin_def sock_inv_def split: if_splits)
next
  case (ks_closel s e)
  then show ?case
    by (auto simp: sock_Close_listener_def sock_inv_def listener_Close_def split: list.split if_splits)
next
  case (ks_closed s)
  then show ?case
    by (auto simp: sock_Close_dialer_def sock_inv_def dialer_Close_def Let_def split: list.split if_splits option.split)
next
  case (ks_closep s)
  then show ?case using same_ends_inv [OF same_ends_ops(4)] by (auto simp: sock_Close_proto_def split: prod.split)
qed (auto intro: new_dialer_inv new_listener_inv dialer_upd_inv listener_upd_inv dest: dialer_step_closed listener_step_closed)


interpretation core_sock: machine "\<lambda>s. \<exists>p t. s = newSocket p t" "sock_step pset pclose tset r" sock_inv
proof unfold_locales
  show "sock_inv s" if "\<exists>p t. s = newSocket p t" for s :: "('a, 'b) csock"
    using that by (auto simp: newSocket_def sock_inv_def)
  show "sock_inv t" if "sock_inv s" "sock_step pset pclose tset r s t" for s t
    using that sock_step_inv by blast
qed

section \<open>A socket over a protocol\<close>

text \<open>
  The options the core keeps for itself; the contract of a protocol under the core socket adds
  that the protocol leaves them alone.
\<close>

definition own_options :: "string set" where
  "own_options = {OptionMaxRecvSize, OptionReconnectTime, OptionMaxReconnectTime, OptionReconnectBackoffOnClose, OptionDialAsynch}"

lemma fold_frame_get:
  "sock_GetOption g n (fold (set_listener tset m v) ls (fold (set_dialer tset m v) ds s)) = sock_GetOption g n s"
proof -
  have "sock_GetOption g n (fold (set_dialer tset m v) ds s) = sock_GetOption g n s" for ds s
    by (induction ds arbitrary: s) (simp_all add: set_dialer_def sock_GetOption_def)
  moreover have "sock_GetOption g n (fold (set_listener tset m v) ls s) = sock_GetOption g n s" for s
    by (induction ls arbitrary: s) (simp_all add: set_listener_def sock_GetOption_def)
  ultimately show ?thesis by simp
qed

lemma fold_set_dialer:
  "distinct ds \<Longrightarrow> k \<in> set ds \<Longrightarrow> k_dobj (fold (set_dialer tset n v) ds s) k = fst (dialer_SetOption tset n v (k_dobj s k))"
proof (induction ds arbitrary: s)
  case (Cons a ds)
  have other: "k_dobj (fold (set_dialer tset n v) ds s) k = k_dobj s k" if "k \<notin> set ds" for ds s
    using that by (induction ds arbitrary: s) (auto simp: set_dialer_def)
  have one: "k_dobj (set_dialer tset n v a s) k = (if k = a then fst (dialer_SetOption tset n v (k_dobj s a)) else k_dobj s k)"
    by (simp add: set_dialer_def)
  show ?case using Cons one other [of ds "set_dialer tset n v a s"] by (cases "k = a") simp_all
qed simp

lemma fold_set_listener_dobj: "k_dobj (fold (set_listener tset n v) ls s) = k_dobj s"
  by (induction ls arbitrary: s) (simp_all add: set_listener_def)

locale core_protocol = protocol_base +
  assumes own_set: "n \<in> own_options \<Longrightarrow> pSetOption n v s = (s, Some ErrBadOption)"
    and own_get: "n \<in> own_options \<Longrightarrow> pGetOption n s = Inl ErrBadOption"
begin

lemma sock_set_own:
  assumes "n \<in> own_options"
  shows "sock_SetOption pSetOption tset n v s =
    (if snd (sock_set_own n v s) \<noteq> None then sock_set_own n v s
     else (fold (set_listener tset n v) (k_listeners s)
        (fold (set_dialer tset n v) (k_dialers s) (fst (sock_set_own n v s))), None))"
proof -
  have "k_listeners (fst (sock_set_own n v s)) = k_listeners s \<and> k_dialers (fst (sock_set_own n v s)) = k_dialers s"
    by (rule afterD [of "\<lambda>t. k_listeners t = k_listeners s \<and> k_dialers t = k_dialers s"]) (simp add: sock_set_own_def)
  moreover have "s\<lparr>k_proto := k_proto s\<rparr> = s" by simp
  ultimately show ?thesis using own_set [OF assms, of v "k_proto s"]
    by (cases "sock_set_own n v s") (simp add: sock_SetOption_def Let_def)
qed

lemma sock_set_error: "snd (sock_SetOption pSetOption tset n v s) \<noteq> None \<Longrightarrow> fst (sock_SetOption pSetOption tset n v s) = s"
proof -
  assume e: "snd (sock_SetOption pSetOption tset n v s) \<noteq> None"
  have own: "clean s (sock_set_own n v s)" by (simp add: sock_set_own_def)
  obtain p e1 where p: "pSetOption n v (k_proto s) = (p, e1)" by force
  show ?thesis
  proof (cases "e1 = None")
    case True
    with e p show ?thesis by (simp add: sock_SetOption_def)
  next
    case False
    then have "p = k_proto s" using set_error [of n v "k_proto s"] p by simp
    then have "s\<lparr>k_proto := p\<rparr> = s" by simp
    then show ?thesis using e p False own cleanD [OF own]
      by (cases "sock_set_own n v s") (auto simp: sock_SetOption_def Let_def split: if_splits)
  qed
qed

lemma sock_set_get:
  assumes ok: "snd (sock_SetOption pSetOption tset n v s) = None" and g: "sock_GetOption pGetOption n s \<noteq> Inl ErrBadOption"
  shows "sock_GetOption pGetOption n (fst (sock_SetOption pSetOption tset n v s)) = Inr v"
proof (cases "n \<in> own_options")
  case True
  then have o: "snd (sock_set_own n v s) = None" using ok by (simp add: sock_set_own [OF True] split: if_splits)
  then have "sock_GetOption pGetOption n (fst (sock_set_own n v s)) = Inr v"
    using True own_get [OF True]
    by (auto simp: sock_set_own_def sock_GetOption_def own_options_def fst_set_field asQLen_eq_Some option_names split: if_splits)
  then show ?thesis using o by (simp add: sock_set_own [OF True] fold_frame_get)
next
  case False
  then have pg: "pGetOption n (k_proto s) \<noteq> Inl ErrBadOption"
    using g by (auto simp: sock_GetOption_def own_options_def split: if_splits)
  have no: "sock_set_own n v t = (t, Some ErrBadOption)" for t :: "('a, 'b) csock"
    using False by (auto simp: sock_set_own_def own_options_def)
  obtain p e where p: "pSetOption n v (k_proto s) = (p, e)" by force
  then have e: "e = None" using ok no by (cases e) (auto simp: sock_SetOption_def Let_def split: if_splits)
  then have "pGetOption n p = Inr v" using set_get [of n v "k_proto s"] p pg by simp
  then show ?thesis using p e by (simp add: sock_SetOption_def Let_def sock_GetOption_def)
qed

text \<open>A reconnect time reaches every dialer of the socket, unless it is negative.\<close>

lemma sock_set_reconnect:
  assumes k: "k \<in> set (k_dialers s)" "distinct (k_dialers s)"
  shows "snd (sock_SetOption pSetOption tset OptionReconnectTime (VDuration d) s) = None"
    and "dl_reconnMinTime (fst (k_dobj (fst (sock_SetOption pSetOption tset OptionReconnectTime (VDuration d) s)) k)) =
      (if d \<ge> 0 then d else dl_reconnMinTime (fst (k_dobj s k)))"
proof -
  have o: "OptionReconnectTime \<in> own_options" by (simp add: own_options_def)
  have f: "sock_set_own OptionReconnectTime (VDuration d) s = (s\<lparr>k_reconnMinTime := d\<rparr>, None)"
    by (simp add: sock_set_own_def option_names)
  show "snd (sock_SetOption pSetOption tset OptionReconnectTime (VDuration d) s) = None"
    by (simp add: sock_set_own [OF o] f)
  show "dl_reconnMinTime (fst (k_dobj (fst (sock_SetOption pSetOption tset OptionReconnectTime (VDuration d) s)) k)) =
      (if d \<ge> 0 then d else dl_reconnMinTime (fst (k_dobj s k)))"
    by (simp add: sock_set_own [OF o] f fold_set_listener_dobj fold_set_dialer [OF k(2,1)] dialer_SetOption_def asNonNeg_def
        fst_set_field split: prod.split)
qed

end


section \<open>Properties\<close>

text \<open>
  C24: Closing a socket is complete. However \<^verbatim>\<open>Close\<close> interleaves with calls that make dialers and
  listeners and with what these do, once it has gone through its lists every dialer and listener that
  was ever entered is closed: none of them starts to dial again, and no new one can be added.
\<close>

theorem socket_Close_complete:
  assumes run: "(sock_step pset pclose tset r)\<^sup>*\<^sup>* (newSocket p t0) s"
    and c: "k_closed s" "k_dclose s = []" "k_lclose s = []"
  shows "(\<forall>k < k_ndial s. dl_closed (fst (k_dobj s k)) \<and> snd (dialer_Dial (fst (k_dobj s k))) \<noteq> None \<and>
       snd (dial_begin rd (fst (k_dobj s k))) = Some ErrClosed) \<and>
    (\<forall>k < k_nlist s. ln_closed (fst (k_lobj s k)) \<and> snd (listener_Listen_begin (fst (k_lobj s k))) = Some ErrClosed) \<and>
    (\<exists>e. sock_NewDialer tset r addr opts s = (s, Inl e)) \<and> (\<exists>e. sock_NewListener tset r addr opts s = (s, Inl e))"
proof -
  have inv: "sock_inv s" by (rule core_sock.reachable_inv [OF _ run]) blast
  have "dl_closed (fst (k_dobj s k))" if "k < k_ndial s" for k using inv c that by (auto simp: sock_inv_def)
  moreover have "ln_closed (fst (k_lobj s k))" if "k < k_nlist s" for k using inv c that by (auto simp: sock_inv_def)
  ultimately show ?thesis using c(1)
    by (auto simp: dialer_Dial_def dial_begin_def Let_def listener_Listen_begin_def sock_NewDialer_def sock_NewListener_def
        split: sum.split)
qed

definition demo_set :: "string \<Rightarrow> optval \<Rightarrow> unit \<Rightarrow> unit \<times> status" where
  "demo_set n v t = (t, None)"
definition demo_reg :: "unit registry" where
  "demo_reg = RegisterTransport \<lparr>tr_Scheme = ''t'', tr_NewDialer = (\<lambda>_. Inr ()), tr_NewListener = (\<lambda>_. Inr ())\<rparr> Map.empty"
definition demo1 :: "(unit, unit) csock" where
  "demo1 = fst (sock_NewDialer demo_set demo_reg ''t://x'' [] (newSocket () ()))"
definition demo2 :: "(unit, unit) csock" where
  "demo2 = sock_Close_dialer (sock_Close_begin demo1)"

lemma demo_make: "make_dialer demo_set demo_reg ''t://x'' [] (newSocket () ()) = Inr (new_dialer 100000000 0 False False, ())"
  by (simp add: make_dialer_def demo_reg_def demo_set_def RegisterTransport_def getTransport_def GetTransport_def starts_with_def
      newSocket_def inherit_max_def)

lemma demo2_eval: "k_closed demo2" "k_dclose demo2 = []" "k_lclose demo2 = []" "k_ndial demo2 = 1"
  by (simp_all add: demo2_def demo1_def sock_NewDialer_def demo_make sock_Close_begin_def sock_Close_dialer_def)
    (simp_all add: newSocket_def)

lemma demo2_run: "(sock_step pset pclose demo_set demo_reg)\<^sup>*\<^sup>* (newSocket () ()) demo2"
proof -
  have "sock_step pset pclose demo_set demo_reg (newSocket () ()) demo1" unfolding demo1_def by (rule ks_newdialer)
  moreover have "sock_step pset pclose demo_set demo_reg demo1 (sock_Close_begin demo1)" by (rule ks_close)
  moreover have "sock_step pset pclose demo_set demo_reg (sock_Close_begin demo1) demo2" unfolding demo2_def by (rule ks_closed)
  ultimately show ?thesis by (meson rtranclp.rtrancl_into_rtrancl r_into_rtranclp)
qed

theorem socket_Close_complete_witness:
  "0 < k_ndial demo2 \<and> dl_closed (fst (k_dobj demo2 0))"
  using socket_Close_complete [OF demo2_run [of "\<lambda>_ _ s. (s, None)" "\<lambda>s. (s, None)"] demo2_eval(1-3)] by (simp add: demo2_eval(4))

end
