(* ===== verification/RawSock.thy ===== *)
theory RawSock
  imports Chan
begin

text \<open>
  The state that the raw protocols share and the pieces of code they repeat: sockets with a
  receive queue and a send queue that \<^verbatim>\<open>SetOption\<close> replaces while goroutines still hold the old
  ones (\<^verbatim>\<open>sizeQ\<close> is closed to tell them), pipes with a sender and a receiver goroutine, and the
  \<^verbatim>\<open>select\<close> statements of \<^verbatim>\<open>RecvMsg\<close> and \<^verbatim>\<open>SendMsg\<close>. Every lock region is one operation; a
  \<^verbatim>\<open>select\<close> is the list of its ready cases, of which Go picks any. The first \<^verbatim>\<open>select\<close> (with
  \<^verbatim>\<open>default\<close>) and the second, blocking one are separate operations on the captured locals.
  Two inputs stand for the scheduler: \<open>fired\<close>, whether the timer of the call has expired, and
  \<open>parked\<close>, whether the goroutine at the other end is waiting (an unbuffered channel passes a
  message only then).
\<close>

section \<open>Time channels and selects\<close>

datatype timeq = NilQ | ClosedQ | TimerQ

fun timeq_ready :: "bool \<Rightarrow> timeq \<Rightarrow> bool" where
  "timeq_ready fired NilQ = False"
| "timeq_ready fired ClosedQ = True"
| "timeq_ready fired TimerQ = fired"

definition expire_q :: "int \<Rightarrow> timeq" where
  "expire_q d = (if d \<noteq> 0 then TimerQ else NilQ)"

definition expire_q_neg :: "int \<Rightarrow> timeq" where
  "expire_q_neg d = (if d > 0 then TimerQ else if d < 0 then ClosedQ else NilQ)"

definition ready_cases :: "'a option list \<Rightarrow> 'a list" where
  "ready_cases xs = List.map_filter id xs"

lemma ready_cases_simps [simp]:
  "ready_cases [] = []" "ready_cases (None # xs) = ready_cases xs"
  "ready_cases (Some x # xs) = x # ready_cases xs"
  by (simp_all add: ready_cases_def List.map_filter_def)

lemma set_ready_cases: "x \<in> set (ready_cases xs) \<longleftrightarrow> list_ex (\<lambda>y. y = Some x) xs"
  by (auto simp: ready_cases_def List.map_filter_def image_iff list_ex_iff)

definition case_if :: "bool \<Rightarrow> 'a \<Rightarrow> 'a option" where
  "case_if b x = (if b then Some x else None)"

lemma case_if_eq [simp]: "case_if b y = Some x \<longleftrightarrow> b \<and> x = y"
  by (auto simp: case_if_def)

section \<open>State\<close>

text \<open>
  \<open>p_closeQ\<close>: the channel is closed. \<open>p_hold\<close>: the receiver goroutine is in its \<^verbatim>\<open>select\<close> with
  this message, receive queue and size channel. \<open>p_out\<close>: the sender goroutine is in
  \<^verbatim>\<open>p.p.SendMsg\<close>. \<open>p_closing\<close>: the protocol called \<^verbatim>\<open>p.p.Close\<close>. \<open>p_rexit\<close>, \<open>p_sexit\<close>: the
  goroutine has returned. \<open>p_snap\<close>: the socket's send queue and size channel as the sender
  goroutine last read them, where the pipes share one send queue.
\<close>

record rpipe =
  p_ID :: u32
  p_sendQ :: "message gochan"
  p_closeQ :: bool
  p_hold :: "(message \<times> nat \<times> nat) option"
  p_out :: "message option"
  p_closing :: bool
  p_rexit :: bool
  p_sexit :: bool
  p_snap :: "nat \<times> nat"

text \<open>
  Size channels carry nothing; they are numbered in the order they are made, so the newest is
  \<open>x_sizeQ\<close>, and \<open>x_zclosed\<close> tells which are closed. \<open>x_rqs\<close> collects every queue that has been
  the receive queue: a blocked call may still hold any of them. \<open>x_pobj\<close> holds the pipe objects.
\<close>

record rawsock = "message world" +
  x_closed :: bool
  x_closeQ :: bool
  x_sizeQ :: nat
  x_zclosed :: "nat \<Rightarrow> bool"
  x_recvQ :: nat
  x_rqs :: "nat set"
  x_sendQ :: nat
  x_pipes :: "u32 \<rightharpoonup> nat"
  x_pobj :: "nat \<Rightarrow> rpipe"
  x_npipe :: nat
  x_peer :: "nat option"
  x_recvExpire :: int
  x_sendExpire :: int
  x_sendQLen :: nat
  x_recvQLen :: nat
  x_bestEffort :: bool
  x_ttl :: nat

definition upd_pipe :: "nat \<Rightarrow> (rpipe \<Rightarrow> rpipe) \<Rightarrow> 'z rawsock_scheme \<Rightarrow> 'z rawsock_scheme" where
  "upd_pipe p f s = s\<lparr>x_pobj := (x_pobj s)(p := f (x_pobj s p))\<rparr>"

definition raw_new :: "nat \<Rightarrow> nat \<Rightarrow> nat \<Rightarrow> rawsock" where
  "raw_new rlen slen ttl =
     \<lparr>refs = (\<lambda>_. 0), chans = (\<lambda>_. make_gochan 0)(1 := make_gochan rlen, 2 := make_gochan slen), nchan = 3,
      panicked = False, x_closed = False, x_closeQ = False, x_sizeQ = 0, x_zclosed = (\<lambda>_. False),
      x_recvQ = 1, x_rqs = {1}, x_sendQ = 2, x_pipes = Map.empty,
      x_pobj = (\<lambda>_. \<lparr>p_ID = 0, p_sendQ = make_gochan 0, p_closeQ = True, p_hold = None, p_out = None,
                     p_closing = False, p_rexit = True, p_sexit = True, p_snap = (0, 0)\<rparr>),
      x_npipe = 0, x_peer = None, x_recvExpire = 0, x_sendExpire = 0, x_sendQLen = slen, x_recvQLen = rlen,
      x_bestEffort = False, x_ttl = ttl\<rparr>"

section \<open>Shared operations\<close>

definition close_sizeQ :: "nat \<Rightarrow> 'z rawsock_scheme \<Rightarrow> 'z rawsock_scheme" where
  "close_sizeQ z s =
     (if x_zclosed s z then s\<lparr>panicked := True\<rparr> else s\<lparr>x_zclosed := (x_zclosed s)(z := True)\<rparr>)"

definition close_closeQ :: "'z rawsock_scheme \<Rightarrow> 'z rawsock_scheme" where
  "close_closeQ s = (if x_closeQ s then s\<lparr>panicked := True\<rparr> else s\<lparr>x_closeQ := True\<rparr>)"

definition close_pipeQ :: "nat \<Rightarrow> 'z rawsock_scheme \<Rightarrow> 'z rawsock_scheme" where
  "close_pipeQ p s =
     (if p_closeQ (x_pobj s p) then s\<lparr>panicked := True\<rparr> else upd_pipe p (\<lambda>x. x\<lparr>p_closeQ := True\<rparr>) s)"

text \<open>
  Replacing the receive queue: a new queue and a new size channel under the lock, then the
  old size channel is closed.
\<close>

definition resize_recvQ :: "nat \<Rightarrow> 'z rawsock_scheme \<Rightarrow> 'z rawsock_scheme" where
  "resize_recvQ n s =
     (let (q, s1) = make_chan n s
      in close_sizeQ (x_sizeQ s) (s1\<lparr>x_recvQLen := n, x_recvQ := q, x_rqs := insert q (x_rqs s), x_sizeQ := Suc (x_sizeQ s)\<rparr>))"

definition resize_sendQ :: "nat \<Rightarrow> 'z rawsock_scheme \<Rightarrow> 'z rawsock_scheme" where
  "resize_sendQ n s =
     (let (q, s1) = make_chan n s
      in close_sizeQ (x_sizeQ s) (s1\<lparr>x_sendQLen := n, x_sendQ := q, x_sizeQ := Suc (x_sizeQ s)\<rparr>))"

text \<open>
  \<^verbatim>\<open>RecvMsg\<close>: the locals captured under the lock, the polling \<^verbatim>\<open>select\<close>, the blocking one.
\<close>

datatype recv_out = Got message | Failed err | Retry

type_synonym recv_snap = "timeq \<times> nat \<times> nat"

definition recv_try :: "recv_snap \<Rightarrow> 'z rawsock_scheme \<Rightarrow> ('z rawsock_scheme \<times> recv_out) option" where
  "recv_try snap s =
     (case snap of (tq, rq, zq) \<Rightarrow>
        (case try_recv rq s of Some (Some m, s') \<Rightarrow> Some (s', Got m) | _ \<Rightarrow> None))"

definition recv_wait :: "bool \<Rightarrow> recv_snap \<Rightarrow> 'z rawsock_scheme \<Rightarrow> ('z rawsock_scheme \<times> recv_out) list" where
  "recv_wait fired snap s =
     (case snap of (tq, rq, zq) \<Rightarrow>
        ready_cases
          [case_if (x_closeQ s) (s, Failed ErrClosed),
           case_if (timeq_ready fired tq) (s, Failed ErrRecvTimeout),
           recv_try snap s,
           case_if (x_zclosed s zq) (s, Retry)])"

text \<open>
  A send to a pipe's own queue, and what its sender goroutine does with it. \<open>closes\<close>: it closes
  the pipe when it returns because \<^verbatim>\<open>closeQ\<close> is closed; \<open>frees\<close>: it frees a message it could not
  send.
\<close>

definition pipe_send :: "bool \<Rightarrow> nat \<Rightarrow> message \<Rightarrow> 'z rawsock_scheme \<Rightarrow> 'z rawsock_scheme option" where
  "pipe_send parked p m s =
     (if chan_room (p_sendQ (x_pobj s p))
      then Some (upd_pipe p (\<lambda>x. x\<lparr>p_sendQ := chan_push m (p_sendQ x)\<rparr>) s)
      else if parked \<and> ch_buf (p_sendQ (x_pobj s p)) = [] \<and> p_out (x_pobj s p) = None \<and> \<not> p_sexit (x_pobj s p)
      then Some (upd_pipe p (\<lambda>x. x\<lparr>p_out := Some m\<rparr>) s)
      else None)"

definition sender_take :: "bool \<Rightarrow> nat \<Rightarrow> 'z rawsock_scheme \<Rightarrow> 'z rawsock_scheme list" where
  "sender_take closes p s =
     (let x = x_pobj s p in
      if p_out x \<noteq> None \<or> p_sexit x then []
      else
        ready_cases
          [case chan_pop (p_sendQ x) of
             Some (m, q) \<Rightarrow> Some (upd_pipe p (\<lambda>x. x\<lparr>p_sendQ := q, p_out := Some m\<rparr>) s)
           | None \<Rightarrow> None,
           case_if (p_closeQ x) (upd_pipe p (\<lambda>x. x\<lparr>p_sexit := True, p_closing := p_closing x \<or> closes\<rparr>) s)])"

definition sender_done :: "bool \<Rightarrow> nat \<Rightarrow> status \<Rightarrow> 'z rawsock_scheme \<Rightarrow> 'z rawsock_scheme" where
  "sender_done frees p err s =
     (case p_out (x_pobj s p) of
        None \<Rightarrow> s
      | Some m \<Rightarrow>
          if err = None then upd_pipe p (\<lambda>x. x\<lparr>p_out := None\<rparr>) s
          else (let s1 = (if frees then Free (m_id m) s else s)
                in upd_pipe p (\<lambda>x. x\<lparr>p_out := None, p_sexit := True, p_closing := True\<rparr>) s1))"

text \<open>
  The receiver goroutine offers its message. \<open>zfrees\<close>, \<open>zexit\<close>: what the protocol does when
  the queue was replaced meanwhile (whether it frees the message, whether it gives up).
\<close>

definition hold_msg :: "nat \<Rightarrow> message \<Rightarrow> 'z rawsock_scheme \<Rightarrow> 'z rawsock_scheme" where
  "hold_msg p m s = upd_pipe p (\<lambda>x. x\<lparr>p_hold := Some (m, x_recvQ s, x_sizeQ s)\<rparr>) s"

definition receiver_exit :: "nat \<Rightarrow> 'z rawsock_scheme \<Rightarrow> 'z rawsock_scheme" where
  "receiver_exit p s = upd_pipe p (\<lambda>x. x\<lparr>p_hold := None, p_rexit := True, p_closing := True\<rparr>) s"

definition free_if :: "bool \<Rightarrow> message \<Rightarrow> 'z rawsock_scheme \<Rightarrow> 'z rawsock_scheme" where
  "free_if b m s = (if b then Free (m_id m) s else s)"

definition receiver_put :: "bool \<Rightarrow> bool \<Rightarrow> nat \<Rightarrow> 'z rawsock_scheme \<Rightarrow> 'z rawsock_scheme list" where
  "receiver_put zfrees zexit p s =
     (case p_hold (x_pobj s p) of
        None \<Rightarrow> []
      | Some (m, rq, zq) \<Rightarrow>
          ready_cases
            [map_option (upd_pipe p (\<lambda>x. x\<lparr>p_hold := None\<rparr>)) (try_send rq m s),
             case_if (x_zclosed s zq)
               (if zexit then receiver_exit p (free_if zfrees m s)
                else upd_pipe p (\<lambda>x. x\<lparr>p_hold := None\<rparr>) (free_if zfrees m s)),
             case_if (p_closeQ (x_pobj s p)) (receiver_exit p (Free (m_id m) s))])"

text \<open>On an unbuffered queue the message goes straight to the waiting \<^verbatim>\<open>RecvMsg\<close>.\<close>

definition rendezvous :: "nat \<Rightarrow> recv_snap \<Rightarrow> 'z rawsock_scheme \<Rightarrow> ('z rawsock_scheme \<times> recv_out) option" where
  "rendezvous p snap s =
     (case snap of (tq, rq, zq) \<Rightarrow>
        (case p_hold (x_pobj s p) of
           Some (m, rq', zq') \<Rightarrow>
             if rq' = rq \<and> ch_buf (chans s rq) = []
             then Some (upd_pipe p (\<lambda>x. x\<lparr>p_hold := None\<rparr>) s, Got m) else None
         | None \<Rightarrow> None))"

text \<open>
  Where the pipes share the socket's send queue: a send to it (directly to the sender goroutine
  of pipe \<open>parked\<close> when the queue is unbuffered and that goroutine waits), and the \<^verbatim>\<open>select\<close> of
  \<^verbatim>\<open>sender\<close>.
\<close>

definition sq_send :: "nat option \<Rightarrow> nat \<Rightarrow> message \<Rightarrow> 'z rawsock_scheme \<Rightarrow> 'z rawsock_scheme option" where
  "sq_send parked q m s =
     (case try_send q m s of
        Some s' \<Rightarrow> Some s'
      | None \<Rightarrow>
          (case parked of
             Some p \<Rightarrow>
               if q \<noteq> 0 \<and> ch_buf (chans s q) = [] \<and> fst (p_snap (x_pobj s p)) = q \<and>
                  p_out (x_pobj s p) = None \<and> \<not> p_sexit (x_pobj s p)
               then Some (upd_pipe p (\<lambda>x. x\<lparr>p_out := Some m\<rparr>) s) else None
           | None \<Rightarrow> None))"

definition sq_begin :: "nat \<Rightarrow> 'z rawsock_scheme \<Rightarrow> 'z rawsock_scheme" where
  "sq_begin p s = upd_pipe p (\<lambda>x. x\<lparr>p_snap := (x_sendQ s, x_sizeQ s)\<rparr>) s"

definition sq_take :: "nat \<Rightarrow> 'z rawsock_scheme \<Rightarrow> ('z rawsock_scheme \<times> message option) list" where
  "sq_take p s =
     (let x = x_pobj s p in
      if p_out x \<noteq> None \<or> p_sexit x then []
      else
        ready_cases
          [case try_recv (fst (p_snap x)) s of
             Some (Some m, s') \<Rightarrow> Some (upd_pipe p (\<lambda>x. x\<lparr>p_out := Some m\<rparr>) s', Some m)
           | _ \<Rightarrow> None,
           case_if (x_zclosed s (snd (p_snap x))) (sq_begin p s, None),
           case_if (p_closeQ x) (upd_pipe p (\<lambda>x. x\<lparr>p_sexit := True, p_closing := True\<rparr>) s, None)])"

section \<open>Frames\<close>

lemma upd_pipe_simps [simp]:
  "x_pobj (upd_pipe p f s) = (x_pobj s)(p := f (x_pobj s p))" "refs (upd_pipe p f s) = refs s"
  "chans (upd_pipe p f s) = chans s" "nchan (upd_pipe p f s) = nchan s" "panicked (upd_pipe p f s) = panicked s"
  "x_closed (upd_pipe p f s) = x_closed s" "x_closeQ (upd_pipe p f s) = x_closeQ s"
  "x_sizeQ (upd_pipe p f s) = x_sizeQ s" "x_zclosed (upd_pipe p f s) = x_zclosed s"
  "x_recvQ (upd_pipe p f s) = x_recvQ s" "x_sendQ (upd_pipe p f s) = x_sendQ s" "x_rqs (upd_pipe p f s) = x_rqs s"
  "x_pipes (upd_pipe p f s) = x_pipes s" "x_npipe (upd_pipe p f s) = x_npipe s" "x_peer (upd_pipe p f s) = x_peer s"
  "x_recvExpire (upd_pipe p f s) = x_recvExpire s" "x_sendExpire (upd_pipe p f s) = x_sendExpire s"
  "x_sendQLen (upd_pipe p f s) = x_sendQLen s" "x_recvQLen (upd_pipe p f s) = x_recvQLen s"
  "x_bestEffort (upd_pipe p f s) = x_bestEffort s" "x_ttl (upd_pipe p f s) = x_ttl s"
  by (simp_all add: upd_pipe_def)

lemma Free_rawsock [simp]:
  "x_pobj (Free i s) = x_pobj s" "x_closed (Free i s) = x_closed s" "x_closeQ (Free i s) = x_closeQ s"
  "x_sizeQ (Free i s) = x_sizeQ s" "x_zclosed (Free i s) = x_zclosed s" "x_recvQ (Free i s) = x_recvQ s"
  "x_sendQ (Free i s) = x_sendQ s" "x_rqs (Free i s) = x_rqs s" "x_pipes (Free i s) = x_pipes s" "x_npipe (Free i s) = x_npipe s"
  "x_peer (Free i s) = x_peer s" "x_recvExpire (Free i s) = x_recvExpire s" "x_sendExpire (Free i s) = x_sendExpire s"
  "x_sendQLen (Free i s) = x_sendQLen s" "x_recvQLen (Free i s) = x_recvQLen s"
  "x_bestEffort (Free i s) = x_bestEffort s" "x_ttl (Free i s) = x_ttl s"
  by (simp_all add: Free_def)

lemma Clone_rawsock [simp]:
  "x_pobj (Clone i s) = x_pobj s" "x_closed (Clone i s) = x_closed s" "x_closeQ (Clone i s) = x_closeQ s"
  "x_sizeQ (Clone i s) = x_sizeQ s" "x_zclosed (Clone i s) = x_zclosed s" "x_recvQ (Clone i s) = x_recvQ s"
  "x_sendQ (Clone i s) = x_sendQ s" "x_rqs (Clone i s) = x_rqs s" "x_pipes (Clone i s) = x_pipes s" "x_npipe (Clone i s) = x_npipe s"
  "x_peer (Clone i s) = x_peer s" "x_recvExpire (Clone i s) = x_recvExpire s" "x_sendExpire (Clone i s) = x_sendExpire s"
  "x_sendQLen (Clone i s) = x_sendQLen s" "x_recvQLen (Clone i s) = x_recvQLen s"
  "x_bestEffort (Clone i s) = x_bestEffort s" "x_ttl (Clone i s) = x_ttl s"
  by (simp_all add: Clone_def)

abbreviation any :: "message \<Rightarrow> bool" where
  "any \<equiv> \<lambda>_. True"

section \<open>The shared invariant\<close>

text \<open>
  \<open>Q\<close> is what the protocol guarantees of the messages in its receive queue. Queues hold at
  most as many messages as their capacity and are never closed; the current size channel is
  open; the socket's \<^verbatim>\<open>closeQ\<close> is closed only when the socket is.
\<close>

definition plain_chan :: "message gochan \<Rightarrow> bool" where
  "plain_chan c \<longleftrightarrow> length (ch_buf c) \<le> ch_cap c \<and> ch_rwait c = 0 \<and> ch_offers c = [] \<and> \<not> ch_closed c"

definition rpipe_ok :: "(message \<Rightarrow> bool) \<Rightarrow> rpipe \<Rightarrow> bool" where
  "rpipe_ok Q x \<longleftrightarrow> plain_chan (p_sendQ x) \<and> (\<forall>m rq zq. p_hold x = Some (m, rq, zq) \<longrightarrow> Q m \<and> rq \<noteq> 0)"

definition raw_ok :: "(message \<Rightarrow> bool) \<Rightarrow> 'z rawsock_scheme \<Rightarrow> bool" where
  "raw_ok Q s \<longleftrightarrow> \<not> panicked s \<and>
     (\<forall>q. plain_chan (chans s q) \<and> (\<forall>m\<in>set (ch_buf (chans s q)). Q m)) \<and>
     0 < x_recvQ s \<and> x_recvQ s < nchan s \<and> x_sendQ s < nchan s \<and>
     ch_cap (chans s (x_recvQ s)) = x_recvQLen s \<and>
     (\<forall>z. x_zclosed s z \<longrightarrow> z < x_sizeQ s) \<and> (x_closeQ s \<longrightarrow> x_closed s) \<and>
     (\<forall>p. rpipe_ok Q (x_pobj s p))"

lemma raw_okD:
  assumes "raw_ok Q s"
  shows "\<not> panicked s" "plain_chan (chans s q)" "m \<in> set (ch_buf (chans s q)) \<Longrightarrow> Q m" "0 < x_recvQ s"
    "x_recvQ s < nchan s" "x_sendQ s < nchan s" "ch_cap (chans s (x_recvQ s)) = x_recvQLen s"
    "x_zclosed s z \<Longrightarrow> z < x_sizeQ s" "x_closeQ s \<Longrightarrow> x_closed s" "rpipe_ok Q (x_pobj s p)"
  using assms by (auto simp: raw_ok_def)

lemma plain_make [simp]: "plain_chan (make_gochan n)"
  by (simp add: plain_chan_def)

lemma plain_push: "plain_chan c \<Longrightarrow> chan_room c \<Longrightarrow> plain_chan (chan_push m c)"
  by (simp add: plain_chan_def chan_room_def)

lemma plain_pop:
  assumes "plain_chan c" "chan_pop c = Some (m, c')"
  shows "plain_chan c'" "ch_buf c = m # ch_buf c'" "ch_cap c' = ch_cap c"
  using assms by (auto simp: plain_chan_def chan_pop_def split: list.splits)

text \<open>On a plain channel a send case is ready when there is room, a receive case when there is a message.\<close>

lemma chan_pop_plain:
  "plain_chan c \<Longrightarrow> chan_pop c = (case ch_buf c of [] \<Rightarrow> None | x # xs \<Rightarrow> Some (x, c\<lparr>ch_buf := xs\<rparr>))"
  by (cases c) (auto simp: chan_pop_def plain_chan_def split: list.splits)

lemma try_send_plain:
  assumes "plain_chan (chans s q)" "0 < q"
  shows "try_send q m s =
    (if length (ch_buf (chans s q)) < ch_cap (chans s q)
     then Some (s\<lparr>chans := (chans s)(q := chan_push m (chans s q))\<rparr>) else None)"
  using assms by (auto simp: try_send_def plain_chan_def chan_room_def)

lemma try_recv_plain:
  assumes "plain_chan (chans s q)" "0 < q"
  shows "try_recv q s =
    (case ch_buf (chans s q) of [] \<Rightarrow> None
     | x # xs \<Rightarrow> Some (Some x, s\<lparr>chans := (chans s)(q := (chans s q)\<lparr>ch_buf := xs\<rparr>)\<rparr>))"
  using assms by (simp add: try_recv_def chan_pop_plain plain_chan_def split: list.split)

lemma raw_ok_refs [simp]:
  "raw_ok Q (Free i s) = raw_ok Q s" "raw_ok Q (Clone i s) = raw_ok Q s" "raw_ok Q (free_if b m s) = raw_ok Q s"
  by (simp_all add: raw_ok_def free_if_def)

lemma raw_ok_upd_pipe:
  assumes "raw_ok Q s" and "rpipe_ok Q (f (x_pobj s p))"
  shows "raw_ok Q (upd_pipe p f s)"
  using assms by (simp add: raw_ok_def)

lemma raw_ok_fields [simp]:
  "raw_ok Q (s\<lparr>x_recvExpire := d\<rparr>) = raw_ok Q s" "raw_ok Q (s\<lparr>x_sendExpire := d\<rparr>) = raw_ok Q s"
  "raw_ok Q (s\<lparr>x_sendQLen := n\<rparr>) = raw_ok Q s" "raw_ok Q (s\<lparr>x_bestEffort := b\<rparr>) = raw_ok Q s"
  "raw_ok Q (s\<lparr>x_ttl := n\<rparr>) = raw_ok Q s" "raw_ok Q (s\<lparr>x_pipes := ps\<rparr>) = raw_ok Q s"
  "raw_ok Q (s\<lparr>x_peer := op\<rparr>) = raw_ok Q s" "raw_ok Q (s\<lparr>x_npipe := k\<rparr>) = raw_ok Q s"
  by (simp_all add: raw_ok_def)

lemma raw_ok_new: "raw_ok Q (raw_new r w ttl)"
  by (simp add: raw_ok_def raw_new_def rpipe_ok_def)

lemma raw_ok_make_recv:
  assumes ok: "raw_ok Q s"
  shows "raw_ok Q (resize_recvQ n s)"
proof -
  have "\<not> x_zclosed s (x_sizeQ s)" using raw_okD(8) [OF ok] by blast
  then show ?thesis
    using ok by (auto simp: raw_ok_def resize_recvQ_def make_chan_def close_sizeQ_def less_Suc_eq)
qed

lemma raw_ok_make_send:
  assumes ok: "raw_ok Q s"
  shows "raw_ok Q (resize_sendQ n s)"
proof -
  have "\<not> x_zclosed s (x_sizeQ s)" using raw_okD(8) [OF ok] by blast
  then show ?thesis
    using ok by (auto simp: raw_ok_def resize_sendQ_def make_chan_def close_sizeQ_def less_Suc_eq)
qed

lemma raw_ok_set_chan:
  assumes ok: "raw_ok Q s" and c: "plain_chan c" "ch_cap c = ch_cap (chans s q)" "\<forall>m\<in>set (ch_buf c). Q m"
  shows "raw_ok Q (s\<lparr>chans := (chans s)(q := c)\<rparr>)"
  using assms by (auto simp: raw_ok_def)

lemma raw_ok_recv_try:
  assumes ok: "raw_ok Q s" and r: "recv_try snap s = Some (s', x)"
  shows "raw_ok Q s' \<and> (\<exists>m. x = Got m \<and> Q m)"
proof -
  obtain tq rq zq m c where c: "chan_pop (chans s rq) = Some (m, c)" "s' = s\<lparr>chans := (chans s)(rq := c)\<rparr>" "x = Got m"
    using r by (auto simp: recv_try_def try_recv_def split: prod.splits option.splits if_splits)
  note pl = plain_pop [OF raw_okD(2) [OF ok, of rq] c(1)]
  have Q: "Q m" "\<forall>m\<in>set (ch_buf c). Q m" using raw_okD(3) [OF ok, of _ rq] pl(2) by auto
  show ?thesis using raw_ok_set_chan [OF ok pl(1,3) Q(2)] c(2,3) Q(1) by blast
qed

lemma raw_ok_recv_wait:
  assumes "raw_ok Q s" and "(s', x) \<in> set (recv_wait fired snap s)"
  shows "raw_ok Q s' \<and> (\<forall>m. x = Got m \<longrightarrow> Q m)"
  using assms raw_ok_recv_try [OF assms(1), of snap s' x]
  by (auto simp: recv_wait_def set_ready_cases split: prod.splits)

lemma raw_ok_pipe_send:
  assumes ok: "raw_ok Q s" and r: "pipe_send parked p m s = Some s'"
  shows "raw_ok Q s'"
  using r raw_okD(10) [OF ok, of p]
  by (auto simp: pipe_send_def rpipe_ok_def plain_push split: if_splits intro!: raw_ok_upd_pipe [OF ok])

lemma raw_ok_sender_take:
  assumes ok: "raw_ok Q s" and r: "s' \<in> set (sender_take cl p s)"
  shows "raw_ok Q s'"
  using r raw_okD(10) [OF ok, of p]
  by (auto simp: sender_take_def Let_def set_ready_cases rpipe_ok_def dest: plain_pop
      split: if_splits option.splits intro!: raw_ok_upd_pipe [OF ok])

lemma raw_ok_sender_done:
  assumes ok: "raw_ok Q s"
  shows "raw_ok Q (sender_done b p err s)"
proof -
  have x: "rpipe_ok Q (x_pobj s p)" by (rule raw_okD(10) [OF ok])
  have "raw_ok Q (upd_pipe p (\<lambda>x. x\<lparr>p_out := None, p_sexit := True, p_closing := True\<rparr>) t)"
    "raw_ok Q (upd_pipe p (\<lambda>x. x\<lparr>p_out := None\<rparr>) t)" if "raw_ok Q t" "x_pobj t = x_pobj s" for t
    using that x by (auto simp: rpipe_ok_def intro!: raw_ok_upd_pipe)
  then show ?thesis
    using ok by (auto simp: sender_done_def Let_def split: option.splits)
qed

lemma raw_ok_hold: "raw_ok Q s \<Longrightarrow> Q m \<Longrightarrow> raw_ok Q (hold_msg p m s)"
  unfolding hold_msg_def using raw_okD(4,10) [of Q s] by (intro raw_ok_upd_pipe) (auto simp: rpipe_ok_def)

lemma raw_ok_unhold: "raw_ok Q s \<Longrightarrow> raw_ok Q (upd_pipe p (\<lambda>x. x\<lparr>p_hold := None\<rparr>) s)"
  using raw_okD(10) [of Q s p] by (intro raw_ok_upd_pipe) (auto simp: rpipe_ok_def)

lemma raw_ok_receiver_exit: "raw_ok Q s \<Longrightarrow> raw_ok Q (receiver_exit p s)"
  unfolding receiver_exit_def using raw_okD(10) [of Q s p] by (intro raw_ok_upd_pipe) (auto simp: rpipe_ok_def)

lemma raw_ok_try_send:
  assumes ok: "raw_ok Q s" and "Q m" and r: "try_send q m s = Some s'"
  shows "raw_ok Q s'"
proof -
  have pl: "plain_chan (chans s q)" by (rule raw_okD(2) [OF ok])
  then have s': "s' = s\<lparr>chans := (chans s)(q := chan_push m (chans s q))\<rparr>" "chan_room (chans s q)"
    using try_sendD [OF r] by (auto simp: plain_chan_def)
  show ?thesis
    unfolding s'(1) using raw_okD(3) [OF ok, of _ q] assms(2)
    by (intro raw_ok_set_chan [OF ok] plain_push pl s'(2)) auto
qed

lemma raw_ok_receiver_put:
  assumes ok: "raw_ok Q s" and r: "s' \<in> set (receiver_put zf ze p s)"
  shows "raw_ok Q s'"
proof -
  obtain m rq zq where h: "p_hold (x_pobj s p) = Some (m, rq, zq)"
    using r by (cases "p_hold (x_pobj s p)") (auto simp: receiver_put_def)
  then have "Q m" using raw_okD(10) [OF ok, of p] by (simp add: rpipe_ok_def)
  then show ?thesis
    using r h ok raw_ok_try_send [OF ok, of m rq]
    by (auto simp: receiver_put_def set_ready_cases split: if_splits
        intro!: raw_ok_unhold raw_ok_receiver_exit)
qed

lemma raw_ok_rendezvous:
  assumes ok: "raw_ok Q s" and r: "rendezvous p snap s = Some (s', x)"
  shows "raw_ok Q s' \<and> (\<exists>m. x = Got m \<and> Q m)"
  using r raw_okD(10) [OF ok, of p]
  by (auto simp: rendezvous_def rpipe_ok_def split: prod.splits option.splits if_splits intro: raw_ok_unhold [OF ok])

lemma raw_ok_close:
  assumes "raw_ok Q s" and "\<not> x_closed s"
  shows "raw_ok Q (close_closeQ (s\<lparr>x_closed := True\<rparr>))"
  using assms by (simp add: raw_ok_def close_closeQ_def)

lemma raw_ok_close_pipe:
  assumes "raw_ok Q s" and "\<not> p_closeQ (x_pobj s p)"
  shows "raw_ok Q (close_pipeQ p s)"
  using assms raw_okD(10) [OF assms(1), of p]
  by (auto simp: close_pipeQ_def rpipe_ok_def intro!: raw_ok_upd_pipe)

lemmas raw_ok_ops = raw_ok_recv_try raw_ok_recv_wait raw_ok_pipe_send raw_ok_sender_take raw_ok_sender_done
  raw_ok_hold raw_ok_receiver_exit raw_ok_receiver_put raw_ok_rendezvous raw_ok_close raw_ok_close_pipe
  raw_ok_make_recv raw_ok_make_send raw_ok_try_send

section \<open>The pipe table\<close>

text \<open>The table maps the IDs of the attached pipes to their objects, and nothing else.\<close>

definition pipes_ok :: "'z rawsock_scheme \<Rightarrow> bool" where
  "pipes_ok s \<longleftrightarrow> (\<forall>i p. x_pipes s i = Some p \<longleftrightarrow>
     p < x_npipe s \<and> p_ID (x_pobj s p) = i \<and> \<not> p_closeQ (x_pobj s p))"

text \<open>Two states with the same table, and pipes that differ only in what they transport.\<close>

definition same_table :: "'z rawsock_scheme \<Rightarrow> 'z rawsock_scheme \<Rightarrow> bool" where
  "same_table s t \<longleftrightarrow> x_pipes t = x_pipes s \<and> x_npipe t = x_npipe s \<and>
     (\<forall>p. p_ID (x_pobj t p) = p_ID (x_pobj s p) \<and> p_closeQ (x_pobj t p) = p_closeQ (x_pobj s p))"

lemma same_table_ok: "same_table s t \<Longrightarrow> pipes_ok s \<Longrightarrow> pipes_ok t"
  by (simp add: same_table_def pipes_ok_def)

lemma same_table_trans: "same_table s t \<Longrightarrow> same_table t u \<Longrightarrow> same_table s u"
  by (simp add: same_table_def)

lemma same_table_refl [simp]: "same_table s s" "same_table s (Free i s)" "same_table s (Clone i s)"
  "same_table s (free_if b m s)"
  by (simp_all add: same_table_def free_if_def)

lemma same_table_Free: "same_table s t \<Longrightarrow> same_table s (Free i t)"
  by (simp add: same_table_def)

lemma same_table_recv_try: "recv_try snap s = Some (s', x) \<Longrightarrow> same_table s s'"
  by (auto simp: recv_try_def try_recv_def same_table_def split: prod.splits option.splits if_splits)

lemma same_table_recv_wait: "(s', x) \<in> set (recv_wait fired snap s) \<Longrightarrow> same_table s s'"
  using same_table_recv_try [of snap s s' x]
  by (auto simp: recv_wait_def set_ready_cases split: prod.splits)

lemma same_table_pipe_send: "pipe_send b p m s = Some s' \<Longrightarrow> same_table s s'"
  by (auto simp: pipe_send_def same_table_def split: if_splits)

lemma same_table_sender_take: "s' \<in> set (sender_take cl p s) \<Longrightarrow> same_table s s'"
  by (auto simp: sender_take_def Let_def set_ready_cases same_table_def split: if_splits option.splits)

lemma same_table_sender_done: "same_table s (sender_done b p err s)"
  by (auto simp: sender_done_def Let_def same_table_def split: option.splits)

lemma same_table_hold: "same_table s (hold_msg p m s)"
  by (simp add: hold_msg_def same_table_def)

lemma same_table_exit: "same_table s t \<Longrightarrow> same_table s (receiver_exit p t)"
  by (simp add: receiver_exit_def same_table_def)

lemma same_table_unhold: "same_table s t \<Longrightarrow> same_table s (upd_pipe p (\<lambda>x. x\<lparr>p_hold := None\<rparr>) t)"
  by (simp add: same_table_def)

lemma same_table_try_send: "try_send q m s = Some s' \<Longrightarrow> same_table s s'"
  by (auto simp: try_send_def same_table_def split: if_splits)

lemma same_table_put:
  assumes "s' \<in> set (receiver_put zf ze p s)"
  shows "same_table s s'"
proof -
  obtain m rq zq where h: "p_hold (x_pobj s p) = Some (m, rq, zq)"
    using assms by (cases "p_hold (x_pobj s p)") (auto simp: receiver_put_def)
  show ?thesis
    using assms same_table_try_send [of rq m s] unfolding receiver_put_def h
    by (auto simp: set_ready_cases split: if_splits intro!: same_table_unhold same_table_exit)
qed

lemma same_table_rendezvous: "rendezvous p snap s = Some (s', x) \<Longrightarrow> same_table s s'"
  by (auto simp: rendezvous_def same_table_def split: prod.splits option.splits if_splits)

lemma same_table_resize: "same_table s (resize_recvQ n s)" "same_table s (resize_sendQ n s)"
  by (auto simp: resize_recvQ_def resize_sendQ_def make_chan_def close_sizeQ_def same_table_def)

lemma same_table_close: "same_table s (close_closeQ (s\<lparr>x_closed := True\<rparr>))"
  by (simp add: close_closeQ_def same_table_def)

lemmas same_table_ops = same_table_recv_try same_table_recv_wait same_table_pipe_send same_table_sender_take
  same_table_sender_done same_table_hold same_table_exit same_table_put same_table_rendezvous same_table_resize
  same_table_close

lemma same_table_fields [simp]:
  "same_table s (s\<lparr>x_recvExpire := d\<rparr>)" "same_table s (s\<lparr>x_sendExpire := d\<rparr>)" "same_table s (s\<lparr>x_ttl := n\<rparr>)"
  "same_table s (s\<lparr>x_sendQLen := n\<rparr>)" "same_table s (s\<lparr>x_bestEffort := b\<rparr>)" "same_table s (s\<lparr>x_peer := q\<rparr>)"
  by (simp_all add: same_table_def)

section \<open>Steps every raw protocol has\<close>

text \<open>
  The steps of the goroutines and of blocked calls; \<open>zf\<close>, \<open>ze\<close>, \<open>fr\<close> and \<open>cl\<close> are the
  protocol's variants of \<open>receiver_put\<close>, \<open>sender_done\<close> and \<open>sender_take\<close>.
\<close>

inductive recv_step :: "bool \<Rightarrow> bool \<Rightarrow> 'z rawsock_scheme \<Rightarrow> 'z rawsock_scheme \<Rightarrow> bool" for zf ze where
  rs_recv_try: "fst (snd snap) \<in> x_rqs s \<Longrightarrow> recv_try snap s = Some (s', x) \<Longrightarrow> recv_step zf ze s s'"
| rs_recv_wait: "fst (snd snap) \<in> x_rqs s \<Longrightarrow> (s', x) \<in> set (recv_wait f snap s) \<Longrightarrow> recv_step zf ze s s'"
| rs_rendezvous: "fst (snd snap) \<in> x_rqs s \<Longrightarrow> rendezvous p snap s = Some (s', x) \<Longrightarrow> recv_step zf ze s s'"
| rs_put: "s' \<in> set (receiver_put zf ze p s) \<Longrightarrow> recv_step zf ze s s'"
| rs_exit: "recv_step zf ze s (receiver_exit p s)"
| rs_free: "recv_step zf ze s (Free i s)"

inductive raw_step :: "bool \<Rightarrow> bool \<Rightarrow> bool \<Rightarrow> bool \<Rightarrow> 'z rawsock_scheme \<Rightarrow> 'z rawsock_scheme \<Rightarrow> bool" for zf ze fr cl where
  rs_recv: "recv_step zf ze s s' \<Longrightarrow> raw_step zf ze fr cl s s'"
| rs_take: "s' \<in> set (sender_take cl p s) \<Longrightarrow> raw_step zf ze fr cl s s'"
| rs_sent: "raw_step zf ze fr cl s (sender_done fr p err s)"
| rs_pipe_send: "pipe_send b p m s = Some s' \<Longrightarrow> raw_step zf ze fr cl s s'"

lemma recv_step_ok: "recv_step zf ze s t \<Longrightarrow> raw_ok Q s \<Longrightarrow> raw_ok Q t"
  by (induction rule: recv_step.induct) (auto dest: raw_ok_ops intro: raw_ok_ops)

lemma raw_step_ok: "raw_step zf ze fr cl s t \<Longrightarrow> raw_ok Q s \<Longrightarrow> raw_ok Q t"
  by (induction rule: raw_step.induct) (auto dest: raw_ok_ops recv_step_ok intro: raw_ok_ops)

lemma recv_step_table: "recv_step zf ze s t \<Longrightarrow> same_table s t"
  by (induction rule: recv_step.induct) (auto intro: same_table_ops)

lemma raw_step_table: "raw_step zf ze fr cl s t \<Longrightarrow> same_table s t"
  by (induction rule: raw_step.induct) (auto intro: same_table_ops recv_step_table)

text \<open>Receiving touches only queues that have been receive queues.\<close>

definition rqs_ok :: "'z rawsock_scheme \<Rightarrow> bool" where
  "rqs_ok s \<longleftrightarrow> x_recvQ s \<in> x_rqs s \<and> (\<forall>q\<in>x_rqs s. q < nchan s) \<and>
     (\<forall>p m rq zq. p_hold (x_pobj s p) = Some (m, rq, zq) \<longrightarrow> rq \<in> x_rqs s)"

lemma try_recv_eqs:
  "try_recv q s = Some (x, t) \<Longrightarrow> t = s \<or> (\<exists>c. t = s\<lparr>chans := (chans s)(q := c)\<rparr>)"
  by (auto simp: try_recv_def split: if_splits option.splits)

lemma recv_step_chans:
  "recv_step zf ze s t \<Longrightarrow> rqs_ok s \<Longrightarrow> q \<notin> x_rqs s \<Longrightarrow> chans t q = chans s q"
proof (induction rule: recv_step.induct)
  case (rs_recv_try snap s s' x)
  then show ?case by (auto simp: recv_try_def split: prod.splits option.splits dest!: try_recv_eqs)
next
  case (rs_recv_wait snap s s' x f)
  then show ?case
    by (auto simp: recv_wait_def recv_try_def set_ready_cases split: prod.splits option.splits dest!: try_recv_eqs)
next
  case (rs_rendezvous snap s p s' x)
  then show ?case by (auto simp: rendezvous_def split: prod.splits option.splits if_splits)
next
  case (rs_put s' p s)
  then obtain m rq zq where h: "p_hold (x_pobj s p) = Some (m, rq, zq)"
    by (cases "p_hold (x_pobj s p)") (auto simp: receiver_put_def)
  then have "rq \<in> x_rqs s" using rs_put(2) unfolding rqs_ok_def by blast
  then show ?case using rs_put h
    by (auto simp: receiver_put_def set_ready_cases try_send_def receiver_exit_def free_if_def split: if_splits)
qed (simp_all add: receiver_exit_def)

text \<open>The same queues and snapshots, and fewer held messages.\<close>

definition same_queues :: "'z rawsock_scheme \<Rightarrow> 'z rawsock_scheme \<Rightarrow> bool" where
  "same_queues s t \<longleftrightarrow> x_recvQ t = x_recvQ s \<and> x_rqs t = x_rqs s \<and> nchan t = nchan s \<and> x_sendQ t = x_sendQ s \<and>
     (\<forall>p. p_snap (x_pobj t p) = p_snap (x_pobj s p) \<and>
        (p_hold (x_pobj t p) = p_hold (x_pobj s p) \<or> p_hold (x_pobj t p) = None))"

lemma same_queues_rqs: "same_queues s t \<Longrightarrow> rqs_ok s \<Longrightarrow> rqs_ok t"
  unfolding same_queues_def rqs_ok_def by (metis option.distinct(1))

lemma recv_step_queues: "recv_step zf ze s t \<Longrightarrow> same_queues s t"
proof (induction rule: recv_step.induct)
  case (rs_recv_try snap s s' x)
  then show ?case
    by (auto simp: recv_try_def same_queues_def split: prod.splits option.splits dest!: try_recv_eqs)
next
  case (rs_recv_wait snap s s' x f)
  then show ?case
    by (auto simp: recv_wait_def recv_try_def set_ready_cases same_queues_def split: prod.splits option.splits
        dest!: try_recv_eqs)
next
  case (rs_rendezvous snap s p s' x)
  then show ?case by (auto simp: rendezvous_def same_queues_def split: prod.splits option.splits if_splits)
next
  case (rs_put s' p s)
  then obtain m rq zq where h: "p_hold (x_pobj s p) = Some (m, rq, zq)"
    by (cases "p_hold (x_pobj s p)") (auto simp: receiver_put_def)
  then show ?case using rs_put
    by (auto simp: receiver_put_def set_ready_cases try_send_def receiver_exit_def free_if_def same_queues_def
        split: if_splits)
qed (simp_all add: receiver_exit_def same_queues_def)

section \<open>Attaching and detaching pipes\<close>

definition new_rpipe :: "u32 \<Rightarrow> nat \<Rightarrow> rpipe" where
  "new_rpipe i n = \<lparr>p_ID = i, p_sendQ = make_gochan n, p_closeQ = False, p_hold = None, p_out = None,
     p_closing = False, p_rexit = False, p_sexit = False, p_snap = (0, 0)\<rparr>"

text \<open>The new pipe object is number \<open>x_npipe\<close>.\<close>

definition attach_pipe :: "u32 \<Rightarrow> 'z rawsock_scheme \<Rightarrow> 'z rawsock_scheme" where
  "attach_pipe i s =
     (upd_pipe (x_npipe s) (\<lambda>_. new_rpipe i (x_sendQLen s)) s)
       \<lparr>x_pipes := (x_pipes s)(i \<mapsto> x_npipe s), x_npipe := Suc (x_npipe s)\<rparr>"

lemma raw_ok_attach: "raw_ok Q s \<Longrightarrow> raw_ok Q (attach_pipe i s)"
  unfolding attach_pipe_def
  by (simp add: raw_ok_def rpipe_ok_def new_rpipe_def)

lemma pipes_ok_attach:
  assumes ok: "pipes_ok s" and n: "x_pipes s i = None"
  shows "pipes_ok (attach_pipe i s)"
proof -
  have "\<not> (p < x_npipe s \<and> p_ID (x_pobj s p) = i \<and> \<not> p_closeQ (x_pobj s p))" for p
    using ok n unfolding pipes_ok_def by (metis option.distinct(1))
  moreover have "x_pipes s j \<noteq> Some (x_npipe s)" for j
    using ok unfolding pipes_ok_def by blast
  ultimately show ?thesis
    using ok unfolding pipes_ok_def attach_pipe_def by (auto simp: new_rpipe_def less_Suc_eq)
qed

lemma pipes_ok_detach:
  assumes ok: "pipes_ok s" and p: "p < x_npipe s" "\<not> p_closeQ (x_pobj s p)"
  shows "pipes_ok ((close_pipeQ p s)\<lparr>x_pipes := (x_pipes s)(p_ID (x_pobj s p) := None)\<rparr>)"
proof -
  have eq: "x_pipes s (p_ID (x_pobj s p)) = Some p" using ok p unfolding pipes_ok_def by blast
  have "q = p" if "q < x_npipe s" "\<not> p_closeQ (x_pobj s q)" "p_ID (x_pobj s q) = p_ID (x_pobj s p)" for q
    using ok that eq unfolding pipes_ok_def by (metis option.inject)
  with ok p show ?thesis
    unfolding pipes_ok_def close_pipeQ_def by auto
qed

lemma resize_recvQ_simps [simp]:
  "x_closed (resize_recvQ n s) = x_closed s" "x_recvQLen (resize_recvQ n s) = n"
  "x_pipes (resize_recvQ n s) = x_pipes s" "x_closed (close_closeQ s) = x_closed s"
  by (simp_all add: resize_recvQ_def make_chan_def close_sizeQ_def close_closeQ_def)

section \<open>The shared send queue\<close>

lemma raw_ok_sq_send: "raw_ok any s \<Longrightarrow> sq_send pk q m s = Some t \<Longrightarrow> raw_ok any t"
  using raw_okD(10) [of any s] raw_ok_try_send [of any s m q t]
  by (auto simp: sq_send_def rpipe_ok_def split: option.splits if_splits intro!: raw_ok_upd_pipe)

lemma raw_ok_sq_begin: "raw_ok Q s \<Longrightarrow> raw_ok Q (sq_begin p s)"
  unfolding sq_begin_def using raw_okD(10) [of Q s p] by (intro raw_ok_upd_pipe) (auto simp: rpipe_ok_def)

lemma sq_take_cases:
  assumes "(t, x) \<in> set (sq_take p s)"
  obtains m c where "x = Some m" "chan_pop (chans s (fst (p_snap (x_pobj s p)))) = Some (m, c)"
      "t = upd_pipe p (\<lambda>x. x\<lparr>p_out := Some m\<rparr>) (s\<lparr>chans := (chans s)(fst (p_snap (x_pobj s p)) := c)\<rparr>)"
      "fst (p_snap (x_pobj s p)) \<noteq> 0"
    | "x = None" "t = sq_begin p s"
    | "x = None" "t = upd_pipe p (\<lambda>x. x\<lparr>p_sexit := True, p_closing := True\<rparr>) s"
  using assms
  by (auto simp: sq_take_def Let_def set_ready_cases try_recv_def split: if_splits option.splits)

lemma raw_ok_sq_take:
  assumes ok: "raw_ok Q s" and r: "(t, x) \<in> set (sq_take p s)"
  shows "raw_ok Q t"
  using r
proof (cases rule: sq_take_cases)
  case (1 m c)
  let ?q = "fst (p_snap (x_pobj s p))"
  note pl = plain_pop [OF raw_okD(2) [OF ok, of ?q] 1(2)]
  have "raw_ok Q (s\<lparr>chans := (chans s)(?q := c)\<rparr>)"
    using raw_okD(3) [OF ok, of _ ?q] pl(2) by (intro raw_ok_set_chan [OF ok pl(1,3)]) auto
  then show ?thesis unfolding 1(3) using raw_okD(10) [OF ok, of p]
    by (intro raw_ok_upd_pipe) (auto simp: rpipe_ok_def)
next
  case 2
  then show ?thesis using raw_ok_sq_begin [OF ok] by simp
next
  case 3
  then show ?thesis using raw_okD(10) [OF ok, of p] by (auto simp: rpipe_ok_def intro!: raw_ok_upd_pipe [OF ok])
qed

text \<open>
  Accounting for queue \<open>q\<close>: between two states the messages \<open>acc\<close> were accepted and \<open>tak\<close> taken,
  in this order, and nothing else left or entered.
\<close>

definition qlog :: "nat \<Rightarrow> message list \<Rightarrow> message list \<Rightarrow> 'z rawsock_scheme \<Rightarrow> 'z rawsock_scheme \<Rightarrow> bool" where
  "qlog q acc tak s t \<longleftrightarrow> ch_buf (chans s q) @ acc = tak @ ch_buf (chans t q)"

lemma qlog_trans: "qlog q a k s t \<Longrightarrow> qlog q a' k' t u \<Longrightarrow> qlog q (a @ a') (k @ k') s u"
  unfolding qlog_def by (metis append.assoc)

lemma qlog_same: "chans t q = chans s q \<Longrightarrow> qlog q [] [] s t"
  by (simp add: qlog_def)

lemma qlog_send: "raw_ok any s \<Longrightarrow> sq_send pk q m s = Some t \<Longrightarrow> qlog q [m] [] s t \<or> qlog q [m] [m] s t"
  using try_sendD [of q m s t] raw_okD(2) [of any s q]
  by (auto simp: sq_send_def qlog_def plain_chan_def split: option.splits if_splits)

lemma qlog_take:
  assumes ok: "raw_ok any s" and "(t, x) \<in> set (sq_take p s)" and "fst (p_snap (x_pobj s p)) = q"
  shows "qlog q [] (case x of Some m \<Rightarrow> [m] | None \<Rightarrow> []) s t"
  using assms(2)
proof (cases rule: sq_take_cases)
  case (1 m c)
  then show ?thesis using assms(3) plain_pop(2) [OF raw_okD(2) [OF ok, of q], of m c] by (simp add: qlog_def)
qed (auto simp: qlog_def sq_begin_def)

end
