(* ===== verification/Sub.thy ===== *)
theory Sub
  imports RawSock
begin

text \<open>
  Cooked SUB, \<^verbatim>\<open>protocol/sub/sub.go\<close>: contexts with topic subscriptions and a receive queue that
  drops its oldest message when it is full. The size channel of a context is numbered by its
  generation: the channel of a generation is closed, under the lock, when the next one is made.
  \<open>sb_stuck\<close>: a goroutine blocks for ever while it holds the lock of the socket.
\<close>

section \<open>State\<close>

record tctx =
  t_recvQLen :: nat
  t_recvQ :: nat
  t_gen :: nat
  t_closeQ :: bool
  t_recvExpire :: int
  t_closed :: bool
  t_subs :: "bytes list"

record subsock = "message world" +
  sb_obj :: "nat \<Rightarrow> tctx"
  sb_nobj :: nat
  sb_ctxs :: "nat set"
  sb_closed :: bool
  sb_stuck :: bool

text \<open>The master context is number 0.\<close>

definition upd_tctx :: "nat \<Rightarrow> (tctx \<Rightarrow> tctx) \<Rightarrow> subsock \<Rightarrow> subsock" where
  "upd_tctx c f s = s\<lparr>sb_obj := (sb_obj s)(c := f (sb_obj s c))\<rparr>"

section \<open>Receiving\<close>

type_synonym sub_snap = "timeq \<times> nat \<times> nat"

definition sub_RecvMsg_begin :: "nat \<Rightarrow> subsock \<Rightarrow> sub_snap" where
  "sub_RecvMsg_begin c s = (expire_q (t_recvExpire (sb_obj s c)), t_recvQ (sb_obj s c), t_gen (sb_obj s c))"

definition sub_RecvMsg_try :: "nat \<Rightarrow> sub_snap \<Rightarrow> subsock \<Rightarrow> (subsock \<times> recv_out) option" where
  "sub_RecvMsg_try k snap s =
     (case snap of (tq, rq, g) \<Rightarrow>
        (case try_recv rq s of
           Some (Some m, s1) \<Rightarrow> (let (m1, s2) = make_unique k m s1 in Some (s2, Got m1))
         | _ \<Rightarrow> None))"

definition sub_RecvMsg_wait :: "bool \<Rightarrow> nat \<Rightarrow> nat \<Rightarrow> sub_snap \<Rightarrow> subsock \<Rightarrow> (subsock \<times> recv_out) list" where
  "sub_RecvMsg_wait fired k c snap s =
     (case snap of (tq, rq, g) \<Rightarrow>
        ready_cases
          [case_if (timeq_ready fired tq) (s, Failed ErrRecvTimeout),
           case_if (t_closeQ (sb_obj s c)) (s, Failed ErrClosed),
           case_if (g < t_gen (sb_obj s c)) (s, Retry),
           sub_RecvMsg_try k snap s])"

text \<open>After \<open>Retry\<close>: the queue and size channel are read again, the timer goes on.\<close>

definition sub_RecvMsg_again :: "nat \<Rightarrow> sub_snap \<Rightarrow> subsock \<Rightarrow> sub_snap" where
  "sub_RecvMsg_again c snap s = (fst snap, t_recvQ (sb_obj s c), t_gen (sb_obj s c))"

definition sub_SendMsg :: "message \<Rightarrow> subsock \<Rightarrow> status" where
  "sub_SendMsg m s = Some ErrProtoOp"

section \<open>Topics and delivery\<close>

definition HasPrefix :: "bytes \<Rightarrow> bytes \<Rightarrow> bool" where
  "HasPrefix b p \<longleftrightarrow> length b \<ge> length p \<and> take (length p) b = p"

fun matches :: "bytes list \<Rightarrow> message \<Rightarrow> bool" where
  "matches [] m = False"
| "matches (sub # subs) m = (if HasPrefix (Body m) sub then True else matches subs m)"

text \<open>
  The loop body of \<^verbatim>\<open>receiver\<close> for context \<open>c\<close>. On an unbuffered queue the message goes to a call of
  \<^verbatim>\<open>RecvMsg\<close> that is waiting for it (\<open>parked c\<close>), as \<open>(c, m)\<close> in the output; where no such call
  ever comes the goroutine stays blocked with the lock.
\<close>

definition sub_deliver ::
    "(nat \<Rightarrow> bool) \<Rightarrow> message \<Rightarrow> nat \<Rightarrow> subsock \<times> (nat \<times> message) list \<Rightarrow> subsock \<times> (nat \<times> message) list" where
  "sub_deliver parked m c r =
     (let (s, out) = r; q = t_recvQ (sb_obj s c) in
      if sb_stuck s \<or> \<not> matches (t_subs (sb_obj s c)) m then r
      else
        (let s1 = Clone (m_id m) s
         in case try_send q m s1 of
              Some s2 \<Rightarrow> (s2, out)
            | None \<Rightarrow>
                if parked c \<and> ch_cap (chans s1 q) = 0 then (s1, out @ [(c, m)])
                else
                  (let s2 = (case try_recv q s1 of Some (Some m2, s') \<Rightarrow> Free (m_id m2) s' | _ \<Rightarrow> s1)
                   in case try_send q m s2 of
                        Some s3 \<Rightarrow> (s3, out)
                      | None \<Rightarrow> (s2\<lparr>sb_stuck := True\<rparr>, out))))"

text \<open>One message of \<^verbatim>\<open>receiver\<close>; \<open>cs\<close> is the order in which Go visits the contexts.\<close>

definition sub_receiver_msg ::
    "(nat \<Rightarrow> bool) \<Rightarrow> nat list \<Rightarrow> message \<Rightarrow> subsock \<Rightarrow> subsock \<times> (nat \<times> message) list" where
  "sub_receiver_msg parked cs m s =
     (let (s1, out) = fold (sub_deliver parked m) cs (s, [])
      in (if sb_stuck s1 then s1 else Free (m_id m) s1, out))"

definition subscribe :: "nat \<Rightarrow> bytes \<Rightarrow> subsock \<Rightarrow> subsock \<times> status" where
  "subscribe c topic s =
     (if topic \<in> set (t_subs (sb_obj s c)) then (s, None)
      else (upd_tctx c (\<lambda>x. x\<lparr>t_subs := t_subs x @ [topic]\<rparr>) s, None))"

text \<open>The pruning loop over what the old queue held.\<close>

fun prune :: "bytes list \<Rightarrow> nat \<Rightarrow> message list \<Rightarrow> subsock \<Rightarrow> subsock" where
  "prune subs q [] s = s"
| "prune subs q (m # ms) s =
     (if sb_stuck s then s
      else if \<not> matches subs m then prune subs q ms (Free (m_id m) s)
      else
        (case try_send q m s of
           Some s1 \<Rightarrow> prune subs q ms s1
         | None \<Rightarrow> s\<lparr>sb_stuck := True\<rparr>))"

definition renew_recvQ :: "nat \<Rightarrow> nat \<Rightarrow> subsock \<Rightarrow> subsock" where
  "renew_recvQ c n s =
     (let (q, s1) = make_chan n s in upd_tctx c (\<lambda>x. x\<lparr>t_recvQ := q, t_gen := Suc (t_gen x)\<rparr>) s1)"

definition unsubscribe :: "nat \<Rightarrow> bytes \<Rightarrow> subsock \<Rightarrow> subsock \<times> status" where
  "unsubscribe c topic s =
     (if topic \<in> set (t_subs (sb_obj s c))
      then
        (let s1 = upd_tctx c (\<lambda>x. x\<lparr>t_subs := remove1 topic (t_subs x)\<rparr>) s;
             old = t_recvQ (sb_obj s c);
             s2 = renew_recvQ c (t_recvQLen (sb_obj s c)) s1;
             ms = ch_buf (chans s2 old);
             s3 = s2\<lparr>chans := (chans s2)(old := (chans s2 old)\<lparr>ch_buf := []\<rparr>)\<rparr>
         in (prune (t_subs (sb_obj s3 c)) (t_recvQ (sb_obj s3 c)) ms s3, None))
      else (s, Some ErrBadValue))"

section \<open>Options, contexts, pipes\<close>

fun asTopic :: "optval \<Rightarrow> bytes option" where
  "asTopic (VBytes b) = Some b"
| "asTopic (VString b) = Some b"
| "asTopic _ = None"

definition sub_resize :: "nat \<Rightarrow> int \<Rightarrow> subsock \<Rightarrow> subsock" where
  "sub_resize c v s =
     (if v < 0 then s\<lparr>panicked := True\<rparr>
      else upd_tctx c (\<lambda>x. x\<lparr>t_recvQLen := nat v\<rparr>) (renew_recvQ c (nat v) s))"

definition sub_ctx_SetOption :: "nat \<Rightarrow> string \<Rightarrow> optval \<Rightarrow> subsock \<Rightarrow> subsock \<times> status" where
  "sub_ctx_SetOption c name v s =
     (if name = OptionReadQLen then set_field (asInt v) (sub_resize c) s
      else if name = OptionRecvDeadline
      then set_field (asDuration v) (\<lambda>d. upd_tctx c (\<lambda>x. x\<lparr>t_recvExpire := d\<rparr>)) s
      else if name = OptionSubscribe \<or> name = OptionUnsubscribe
      then
        (case asTopic v of
           None \<Rightarrow> (s, Some ErrBadValue)
         | Some vb \<Rightarrow> if name = OptionSubscribe then subscribe c vb s else unsubscribe c vb s)
      else (s, Some ErrBadOption))"

definition sub_ctx_GetOption :: "nat \<Rightarrow> string \<Rightarrow> subsock \<Rightarrow> err + optval" where
  "sub_ctx_GetOption c name s =
     (if name = OptionReadQLen then Inr (VInt (int (t_recvQLen (sb_obj s c))))
      else if name = OptionRecvDeadline then Inr (VDuration (t_recvExpire (sb_obj s c)))
      else Inl ErrBadOption)"

definition sub_ctx_Close :: "nat \<Rightarrow> subsock \<Rightarrow> subsock \<times> status" where
  "sub_ctx_Close c s =
     (if t_closed (sb_obj s c) then (s, Some ErrClosed)
      else
        (let s1 = (upd_tctx c (\<lambda>x. x\<lparr>t_closed := True\<rparr>) s)\<lparr>sb_ctxs := sb_ctxs s - {c}\<rparr>
         in (if t_closeQ (sb_obj s1 c) then s1\<lparr>panicked := True\<rparr>
             else upd_tctx c (\<lambda>x. x\<lparr>t_closeQ := True\<rparr>) s1, None)))"

definition sub_Close :: "nat list \<Rightarrow> subsock \<Rightarrow> subsock \<times> status" where
  "sub_Close cs s =
     (if sb_closed s then (s, Some ErrClosed)
      else (fold (\<lambda>c s. fst (sub_ctx_Close c s)) cs (s\<lparr>sb_closed := True\<rparr>), None))"

definition sub_AddPipe :: "subsock \<Rightarrow> status" where
  "sub_AddPipe s = (if sb_closed s then Some ErrClosed else None)"

definition sub_OpenContext :: "subsock \<Rightarrow> subsock \<times> (err + nat)" where
  "sub_OpenContext s =
     (if sb_closed s then (s, Inl ErrClosed)
      else
        (let c = sb_nobj s; master = sb_obj s 0; (q, s1) = make_chan (t_recvQLen master) s
         in (s1\<lparr>sb_obj := (sb_obj s)(c := \<lparr>t_recvQLen = t_recvQLen master, t_recvQ = q, t_gen = 0, t_closeQ = False,
                  t_recvExpire = t_recvExpire master, t_closed = False, t_subs = []\<rparr>),
                sb_nobj := Suc c, sb_ctxs := insert c (sb_ctxs s)\<rparr>, Inr c)))"

definition sub_GetOption :: "string \<Rightarrow> subsock \<Rightarrow> err + optval" where
  "sub_GetOption name s = (if name = OptionRaw then Inr (VBool False) else sub_ctx_GetOption 0 name s)"

definition sub_SetOption :: "string \<Rightarrow> optval \<Rightarrow> subsock \<Rightarrow> subsock \<times> status" where
  "sub_SetOption name v s = sub_ctx_SetOption 0 name v s"

definition sub_NewProtocol :: subsock where
  "sub_NewProtocol =
     \<lparr>refs = (\<lambda>_. 0), chans = (\<lambda>_. make_gochan 0)(1 := make_gochan 128), nchan = 2, panicked = False,
      sb_obj = (\<lambda>_. \<lparr>t_recvQLen = 128, t_recvQ = 1, t_gen = 0, t_closeQ = False, t_recvExpire = 0,
                     t_closed = False, t_subs = []\<rparr>),
      sb_nobj = 1, sb_ctxs = {0}, sb_closed = False, sb_stuck = False\<rparr>"

section \<open>Runs\<close>

inductive sub_step :: "subsock \<Rightarrow> subsock \<Rightarrow> bool" where
  su_try: "\<not> sb_stuck s \<Longrightarrow> sub_RecvMsg_try k snap s = Some (s', x) \<Longrightarrow> sub_step s s'"
| su_wait: "\<not> sb_stuck s \<Longrightarrow> (s', x) \<in> set (sub_RecvMsg_wait f k c snap s) \<Longrightarrow> sub_step s s'"
| su_receive: "\<not> sb_stuck s \<Longrightarrow> distinct cs \<Longrightarrow> set cs = sb_ctxs s \<Longrightarrow> sub_step s (fst (sub_receiver_msg pk cs m s))"
| su_set: "\<not> sb_stuck s \<Longrightarrow> c < sb_nobj s \<Longrightarrow> sub_step s (fst (sub_ctx_SetOption c n v s))"
| su_ctx_close: "\<not> sb_stuck s \<Longrightarrow> c < sb_nobj s \<Longrightarrow> sub_step s (fst (sub_ctx_Close c s))"
| su_close: "\<not> sb_stuck s \<Longrightarrow> distinct cs \<Longrightarrow> set cs = sb_ctxs s \<Longrightarrow> sub_step s (fst (sub_Close cs s))"
| su_open: "\<not> sb_stuck s \<Longrightarrow> sub_step s (fst (sub_OpenContext s))"

text \<open>
  The queue of a context, and the invariant: every context has a queue of its own, of the
  length its option says, and everything in it matches one of its subscriptions.
\<close>

abbreviation tq :: "subsock \<Rightarrow> nat \<Rightarrow> message gochan" where
  "tq s c \<equiv> chans s (t_recvQ (sb_obj s c))"

definition sub_inv :: "subsock \<Rightarrow> bool" where
  "sub_inv s \<longleftrightarrow> 0 < sb_nobj s \<and> (\<forall>q. plain_chan (chans s q)) \<and> sb_ctxs s \<subseteq> {..<sb_nobj s} \<and>
     (\<forall>c < sb_nobj s. 0 < t_recvQ (sb_obj s c) \<and> t_recvQ (sb_obj s c) < nchan s \<and>
        ch_cap (tq s c) = t_recvQLen (sb_obj s c) \<and> distinct (t_subs (sb_obj s c)) \<and>
        (\<forall>m\<in>set (ch_buf (tq s c)). matches (t_subs (sb_obj s c)) m)) \<and>
     inj_on (\<lambda>c. t_recvQ (sb_obj s c)) {..<sb_nobj s}"

lemma sub_invD:
  assumes "sub_inv s"
  shows "0 < sb_nobj s" "plain_chan (chans s q)" "c \<in> sb_ctxs s \<Longrightarrow> c < sb_nobj s"
    "c < sb_nobj s \<Longrightarrow> 0 < t_recvQ (sb_obj s c)" "c < sb_nobj s \<Longrightarrow> t_recvQ (sb_obj s c) < nchan s"
    "c < sb_nobj s \<Longrightarrow> ch_cap (tq s c) = t_recvQLen (sb_obj s c)" "c < sb_nobj s \<Longrightarrow> distinct (t_subs (sb_obj s c))"
    "c < sb_nobj s \<Longrightarrow> m \<in> set (ch_buf (tq s c)) \<Longrightarrow> matches (t_subs (sb_obj s c)) m"
    "c < sb_nobj s \<Longrightarrow> d < sb_nobj s \<Longrightarrow> c \<noteq> d \<Longrightarrow> t_recvQ (sb_obj s c) \<noteq> t_recvQ (sb_obj s d)"
  using assms by (auto simp: sub_inv_def inj_on_def)

lemma matches_iff: "matches subs m \<longleftrightarrow> (\<exists>t\<in>set subs. HasPrefix (Body m) t)"
  by (induction subs) auto

lemma upd_tctx_simps [simp]:
  "sb_obj (upd_tctx c f s) = (sb_obj s)(c := f (sb_obj s c))" "refs (upd_tctx c f s) = refs s"
  "chans (upd_tctx c f s) = chans s" "nchan (upd_tctx c f s) = nchan s" "panicked (upd_tctx c f s) = panicked s"
  "sb_nobj (upd_tctx c f s) = sb_nobj s" "sb_ctxs (upd_tctx c f s) = sb_ctxs s" "sb_closed (upd_tctx c f s) = sb_closed s"
  "sb_stuck (upd_tctx c f s) = sb_stuck s"
  by (simp_all add: upd_tctx_def)

lemma refs_subsock [simp]:
  "sb_obj (Free i s) = sb_obj s" "sb_nobj (Free i s) = sb_nobj s" "sb_ctxs (Free i s) = sb_ctxs s"
  "sb_closed (Free i s) = sb_closed s" "sb_stuck (Free i s) = sb_stuck s"
  "sb_obj (Clone i s) = sb_obj s" "sb_nobj (Clone i s) = sb_nobj s" "sb_ctxs (Clone i s) = sb_ctxs s"
  "sb_closed (Clone i s) = sb_closed s" "sb_stuck (Clone i s) = sb_stuck s"
  by (simp_all add: Free_def Clone_def)

text \<open>States that differ in what the queues hold and in the reference counts.\<close>

definition same_but_queues :: "subsock \<Rightarrow> subsock \<Rightarrow> bool" where
  "same_but_queues s t \<longleftrightarrow> sb_obj t = sb_obj s \<and> sb_nobj t = sb_nobj s \<and> sb_ctxs t = sb_ctxs s \<and>
     sb_closed t = sb_closed s \<and> nchan t = nchan s \<and> panicked t = panicked s \<and>
     (\<forall>q. ch_cap (chans t q) = ch_cap (chans s q))"

lemma same_but_queues_refl [simp]: "same_but_queues s s" "same_but_queues s (Free i s)" "same_but_queues s (Clone i s)"
  by (simp_all add: same_but_queues_def)

lemma same_but_queues_trans: "same_but_queues s t \<Longrightarrow> same_but_queues t u \<Longrightarrow> same_but_queues s u"
  by (simp add: same_but_queues_def)

lemma sub_inv_queues:
  assumes "sub_inv s" "same_but_queues s t" "\<And>q. plain_chan (chans t q)"
    and "\<And>c m. c < sb_nobj s \<Longrightarrow> m \<in> set (ch_buf (tq t c)) \<Longrightarrow> matches (t_subs (sb_obj s c)) m"
  shows "sub_inv t"
  using assms by (auto simp: sub_inv_def same_but_queues_def)

section \<open>Delivery\<close>

text \<open>A full queue drops its oldest message.\<close>

definition push_drop :: "nat \<Rightarrow> message \<Rightarrow> message list \<Rightarrow> message list" where
  "push_drop n m q = (if length q < n then q else tl q) @ [m]"

definition occ :: "subsock \<Rightarrow> nat \<Rightarrow> nat \<Rightarrow> int" where
  "occ s c i = int (count_list (map m_id (ch_buf (tq s c))) i)"

lemma deliver_matching:
  assumes inv: "sub_inv s" and c: "c < sb_nobj s" and m: "matches (t_subs (sb_obj s c)) m"
    and ns: "\<not> sb_stuck s" and pos: "0 < t_recvQLen (sb_obj s c)"
  obtains R where "sub_deliver pk m c (s, out) =
      (s\<lparr>refs := R, chans := (chans s)(t_recvQ (sb_obj s c) :=
         (tq s c)\<lparr>ch_buf := push_drop (t_recvQLen (sb_obj s c)) m (ch_buf (tq s c))\<rparr>)\<rparr>, out)"
    "\<And>i. R i = refs s i + (if i = m_id m then 1 else 0) -
       (if length (ch_buf (tq s c)) < t_recvQLen (sb_obj s c) then 0 else if i = m_id (hd (ch_buf (tq s c))) then 1 else 0)"
proof -
  let ?q = "t_recvQ (sb_obj s c)"
  note d = sub_invD [OF inv]
  have pl: "plain_chan (chans s ?q)" "0 < ?q" "ch_cap (chans s ?q) = t_recvQLen (sb_obj s c)" using d(2,4,6) c by auto
  show ?thesis
  proof (cases "length (ch_buf (chans s ?q)) < t_recvQLen (sb_obj s c)")
    case True
    then show ?thesis
      by (intro that [of "refs (Clone (m_id m) s)"])
         (use pl m ns in \<open>simp_all add: sub_deliver_def Let_def try_send_plain push_drop_def chan_push_def Clone_def\<close>)
  next
    case False
    then have len: "length (ch_buf (chans s ?q)) = t_recvQLen (sb_obj s c)" using pl by (simp add: plain_chan_def)
    then obtain x xs where b: "ch_buf (chans s ?q) = x # xs" using pos by (cases "ch_buf (chans s ?q)") auto
    show ?thesis
      by (rule that [of "refs (Free (m_id x) (Clone (m_id m) s))"])
         (use pl m ns False len b pos in \<open>auto simp: sub_deliver_def Let_def try_send_plain try_recv_plain push_drop_def
            chan_push_def Clone_def Free_def plain_chan_def try_send_def chan_room_def\<close>)
  qed
qed

lemma plain_push_drop:
  "plain_chan c \<Longrightarrow> ch_cap c = n \<Longrightarrow> 0 < n \<Longrightarrow> plain_chan (c\<lparr>ch_buf := push_drop n m (ch_buf c)\<rparr>)"
  by (auto simp: plain_chan_def push_drop_def)

lemma deliver_cases:
  assumes inv: "sub_inv s" and c: "c < sb_nobj s"
  obtains "sub_deliver pk m c (s, out) = (s, out)" "sb_stuck s \<or> \<not> matches (t_subs (sb_obj s c)) m"
  | R where "matches (t_subs (sb_obj s c)) m" "0 < t_recvQLen (sb_obj s c)" "\<not> sb_stuck s"
      "sub_deliver pk m c (s, out) = (s\<lparr>refs := R, chans := (chans s)(t_recvQ (sb_obj s c) :=
         (tq s c)\<lparr>ch_buf := push_drop (t_recvQLen (sb_obj s c)) m (ch_buf (tq s c))\<rparr>)\<rparr>, out)"
  | "t_recvQLen (sb_obj s c) = 0" "pk c" "sub_deliver pk m c (s, out) = (Clone (m_id m) s, out @ [(c, m)])"
  | "t_recvQLen (sb_obj s c) = 0" "\<not> pk c" "sub_deliver pk m c (s, out) = ((Clone (m_id m) s)\<lparr>sb_stuck := True\<rparr>, out)"
proof -
  note d = sub_invD [OF inv]
  have pl: "plain_chan (chans s q)" "0 < t_recvQ (sb_obj s c)" "ch_cap (tq s c) = t_recvQLen (sb_obj s c)" for q
    using d(2,4,6) c by auto
  show ?thesis
  proof (cases "sb_stuck s \<or> \<not> matches (t_subs (sb_obj s c)) m")
    case True
    then show ?thesis using that(1) by (auto simp: sub_deliver_def Let_def)
  next
    case False
    show ?thesis
    proof (cases "t_recvQLen (sb_obj s c) = 0")
      case True
      then have "ch_buf (tq s c) = []" using pl(1) [of "t_recvQ (sb_obj s c)"] pl(3) by (simp add: plain_chan_def)
      then show ?thesis using that(3,4) False True pl
        by (cases "pk c") (simp_all add: sub_deliver_def Let_def try_send_plain try_recv_plain)
    next
      case pos: False
      then show ?thesis
        using deliver_matching [OF inv c, of m pk out thesis] that(2) False by auto
    qed
  qed
qed

lemma deliver_frame:
  assumes inv: "sub_inv s" and c: "c < sb_nobj s"
  shows "sub_inv (fst (sub_deliver pk m c (s, out))) \<and> same_but_queues s (fst (sub_deliver pk m c (s, out)))"
  using deliver_cases [OF inv c, of pk m out]
proof cases
  case (2 R)
  let ?t = "fst (sub_deliver pk m c (s, out))"
  have fr: "same_but_queues s ?t" using 2 by (simp add: same_but_queues_def)
  have "plain_chan (chans ?t q)" for q
    using 2 sub_invD(2,6) [OF inv] c plain_push_drop by auto
  moreover have "matches (t_subs (sb_obj s d)) x" if "d < sb_nobj s" "x \<in> set (ch_buf (tq ?t d))" for d x
  proof (cases "d = c")
    case True
    then have "x = m \<or> x \<in> set (ch_buf (tq s c))"
      using that(2) 2 by (auto simp: push_drop_def split: if_splits dest: list.set_sel(2) [rotated])
    then show ?thesis using sub_invD(8) [OF inv c] 2(1) True by auto
  next
    case False
    then have "tq ?t d = tq s d" using 2 sub_invD(9) [OF inv that(1) c] by auto
    then show ?thesis using that sub_invD(8) [OF inv] by auto
  qed
  ultimately show ?thesis using sub_inv_queues [OF inv fr] fr by blast
qed (use inv in \<open>simp_all add: sub_inv_def same_but_queues_def\<close>)

lemma deliver_fold_frame:
  "sub_inv s \<Longrightarrow> set cs \<subseteq> {..<sb_nobj s} \<Longrightarrow>
   sub_inv (fst (fold (sub_deliver pk m) cs (s, out))) \<and> same_but_queues s (fst (fold (sub_deliver pk m) cs (s, out)))"
proof (induction cs arbitrary: s out)
  case (Cons c cs)
  obtain t out' where t: "sub_deliver pk m c (s, out) = (t, out')" by fastforce
  then have fr: "sub_inv t" "same_but_queues s t" using deliver_frame [of s c pk m out] Cons.prems by auto
  then show ?case using Cons.IH [of t out'] Cons.prems t
    by (auto simp: same_but_queues_def)
qed simp

lemma deliver_one:
  assumes inv: "sub_inv s" and ns: "\<not> sb_stuck s" and c: "c < sb_nobj s" and pos: "0 < t_recvQLen (sb_obj s c)"
  obtains t where "sub_deliver pk m c (s, out) = (t, out)" "\<not> sb_stuck t"
    "\<And>d. d < sb_nobj s \<Longrightarrow> ch_buf (tq t d) =
       (if d = c \<and> matches (t_subs (sb_obj s c)) m then push_drop (t_recvQLen (sb_obj s c)) m (ch_buf (tq s c))
        else ch_buf (tq s d))"
    "\<And>i. refs t i = refs s i + (occ t c i - occ s c i)"
proof (cases "matches (t_subs (sb_obj s c)) m")
  case False
  then show ?thesis using that [of s] ns by (simp add: sub_deliver_def Let_def)
next
  case True
  let ?b = "ch_buf (tq s c)" and ?n = "t_recvQLen (sb_obj s c)"
  obtain R where R: "sub_deliver pk m c (s, out) = (s\<lparr>refs := R, chans := (chans s)(t_recvQ (sb_obj s c) :=
         (tq s c)\<lparr>ch_buf := push_drop ?n m ?b\<rparr>)\<rparr>, out)"
    "\<And>i. R i = refs s i + (if i = m_id m then 1 else 0) -
       (if length ?b < ?n then 0 else if i = m_id (hd ?b) then 1 else 0)"
    using deliver_matching [OF inv c True ns pos] by metis
  have ne: "?b \<noteq> []" if "\<not> length ?b < ?n" using that pos by auto
  have cnt: "int (count_list (map m_id (push_drop ?n m ?b)) i) = int (count_list (map m_id ?b) i) + (if i = m_id m then 1 else 0) -
      (if length ?b < ?n then 0 else if i = m_id (hd ?b) then 1 else 0)" for i
    using ne by (cases ?b) (auto simp: push_drop_def)
  show ?thesis
    by (rule that [OF R(1)]) (use ns True c sub_invD(9) [OF inv] in \<open>auto simp: R(2) occ_def cnt\<close>)
qed

lemma deliver_fold:
  assumes "sub_inv s" "\<not> sb_stuck s" "distinct cs" "set cs \<subseteq> {..<sb_nobj s}" "\<forall>c\<in>set cs. 0 < t_recvQLen (sb_obj s c)"
  shows "\<exists>s'. fold (sub_deliver pk m) cs (s, out) = (s', out) \<and> \<not> sb_stuck s' \<and>
    (\<forall>c < sb_nobj s. ch_buf (tq s' c) =
       (if c \<in> set cs \<and> matches (t_subs (sb_obj s c)) m then push_drop (t_recvQLen (sb_obj s c)) m (ch_buf (tq s c))
        else ch_buf (tq s c))) \<and>
    (\<forall>i. refs s' i = refs s i + (\<Sum>c\<leftarrow>cs. occ s' c i - occ s c i))"
  using assms
proof (induction cs arbitrary: s)
  case Nil
  then show ?case by simp
next
  case (Cons c cs)
  have c: "c < sb_nobj s" "c \<notin> set cs" "0 < t_recvQLen (sb_obj s c)" using Cons.prems by auto
  obtain t where t: "sub_deliver pk m c (s, out) = (t, out)" "\<not> sb_stuck t"
    "\<And>d. d < sb_nobj s \<Longrightarrow> ch_buf (tq t d) =
       (if d = c \<and> matches (t_subs (sb_obj s c)) m then push_drop (t_recvQLen (sb_obj s c)) m (ch_buf (tq s c))
        else ch_buf (tq s d))"
    "\<And>i. refs t i = refs s i + (occ t c i - occ s c i)"
    using deliver_one [OF Cons.prems(1,2) c(1,3), of pk m out] by blast
  have fr: "sub_inv t" "same_but_queues s t" using deliver_frame [OF Cons.prems(1) c(1), of pk m out] t(1) by auto
  then have eq: "sb_obj t = sb_obj s" "sb_nobj t = sb_nobj s" by (simp_all add: same_but_queues_def)
  obtain s' where s': "fold (sub_deliver pk m) cs (t, out) = (s', out)" "\<not> sb_stuck s'"
    "\<forall>c < sb_nobj s. ch_buf (tq s' c) =
       (if c \<in> set cs \<and> matches (t_subs (sb_obj s c)) m then push_drop (t_recvQLen (sb_obj s c)) m (ch_buf (tq t c))
        else ch_buf (tq t c))"
    "\<forall>i. refs s' i = refs t i + (\<Sum>c\<leftarrow>cs. occ s' c i - occ t c i)"
    using Cons.IH [OF fr(1) t(2)] Cons.prems eq by auto
  have oc: "occ s' c i = occ t c i" "d \<in> set cs \<Longrightarrow> occ t d i = occ s d i" for d i
    using s'(3) t(3) c Cons.prems(4) by (auto simp: occ_def)
  have "refs s' i = refs s i + (\<Sum>c\<leftarrow>c # cs. occ s' c i - occ s c i)" for i
    using s'(4) t(4) oc by (simp cong: map_cong)
  moreover have "\<forall>d < sb_nobj s. ch_buf (tq s' d) =
       (if d \<in> set (c # cs) \<and> matches (t_subs (sb_obj s d)) m then push_drop (t_recvQLen (sb_obj s d)) m (ch_buf (tq s d))
        else ch_buf (tq s d))"
    using s'(3) t(3) c by auto
  ultimately show ?case using t(1) s'(1,2) by simp
qed

section \<open>Subscriptions\<close>

lemma prune_eq:
  assumes "plain_chan (chans s q)" "0 < q" "\<not> sb_stuck s"
    and "length (ch_buf (chans s q)) + length ms \<le> ch_cap (chans s q)"
  shows "\<exists>R. prune subs q ms s =
    s\<lparr>refs := R, chans := (chans s)(q := (chans s q)\<lparr>ch_buf := ch_buf (chans s q) @ filter (matches subs) ms\<rparr>)\<rparr>"
  using assms
proof (induction ms arbitrary: s)
  case Nil
  then show ?case by (intro exI [of _ "refs s"]) simp
next
  case (Cons m ms)
  show ?case
  proof (cases "matches subs m")
    case False
    then show ?thesis
      using Cons.IH [of "Free (m_id m) s"] Cons.prems by (auto simp: Free_def)
  next
    case True
    let ?s1 = "s\<lparr>chans := (chans s)(q := chan_push m (chans s q))\<rparr>"
    have "try_send q m s = Some ?s1" using Cons.prems by (simp add: try_send_plain)
    moreover have "plain_chan (chans ?s1 q)" "0 < q" "\<not> sb_stuck ?s1"
        "length (ch_buf (chans ?s1 q)) + length ms \<le> ch_cap (chans ?s1 q)"
      using Cons.prems by (simp_all add: plain_chan_def)
    from Cons.IH [OF this] obtain R where "prune subs q ms ?s1 = ?s1\<lparr>refs := R, chans := (chans ?s1)(q := (chans ?s1 q)
        \<lparr>ch_buf := ch_buf (chans ?s1 q) @ filter (matches subs) ms\<rparr>)\<rparr>" by blast
    ultimately show ?thesis
      using Cons.prems True by (intro exI [of _ R]) (simp add: chan_push_def fun_upd_def cong: if_cong)
  qed
qed

text \<open>Replacing the queue of a context by a new one that holds \<open>b\<close>.\<close>

lemma sub_inv_renew:
  assumes inv: "sub_inv s" and c: "c < sb_nobj s" and x: "t_recvQ x = nchan s" "t_recvQLen x = n" "distinct (t_subs x)"
    and b: "length b \<le> n" "\<forall>m\<in>set b. matches (t_subs x) m"
    and t: "sb_obj t = (sb_obj s)(c := x)" "sb_nobj t = sb_nobj s" "sb_ctxs t = sb_ctxs s" "nchan t = Suc (nchan s)"
      "\<And>q. q \<noteq> nchan s \<Longrightarrow> q \<noteq> t_recvQ (sb_obj s c) \<Longrightarrow> chans t q = chans s q" "plain_chan (chans t (t_recvQ (sb_obj s c)))"
      "chans t (nchan s) = (make_gochan n)\<lparr>ch_buf := b\<rparr>"
  shows "sub_inv t"
proof -
  note d = sub_invD [OF inv]
  have pl: "plain_chan (chans t q)" for q
    using t(5-7) d(2) b(1) by (cases "q = nchan s"; cases "q = t_recvQ (sb_obj s c)") (auto simp: plain_chan_def)
  have other: "tq t e = tq s e" if "e < sb_nobj s" "e \<noteq> c" for e
    using that t(1,5) d(5,9) c by (metis fun_upd_apply less_irrefl)
  have inj: "inj_on (\<lambda>c. t_recvQ (sb_obj t c)) {..<sb_nobj t}"
    using d(5,9) c x(1) t(1,2) by (auto simp: inj_on_def) (metis less_irrefl)+
  have "0 < nchan s" using d(4,5) c by (metis gr_zeroI not_less_zero)
  then have "0 < t_recvQ (sb_obj t e) \<and> t_recvQ (sb_obj t e) < nchan t \<and> ch_cap (tq t e) = t_recvQLen (sb_obj t e) \<and>
      distinct (t_subs (sb_obj t e)) \<and> (\<forall>m\<in>set (ch_buf (tq t e)). matches (t_subs (sb_obj t e)) m)" if "e < sb_nobj s" for e
    using that d(4-8) other x b(2) t(1,4,7) by (cases "e = c") (auto simp: less_Suc_eq)
  then show ?thesis using pl inj d(1,3) t(2,3) by (auto simp: sub_inv_def)
qed

lemma unsubscribe_eq:
  assumes inv: "sub_inv s" and ns: "\<not> sb_stuck s" and c: "c < sb_nobj s" and topic: "topic \<in> set (t_subs (sb_obj s c))"
  obtains t where "unsubscribe c topic s = (t, None)" "\<not> sb_stuck t" "nchan t = Suc (nchan s)" "sb_nobj t = sb_nobj s" "sb_ctxs t = sb_ctxs s"
    "sb_closed t = sb_closed s" "panicked t = panicked s"
    "sb_obj t = (sb_obj s)(c := (sb_obj s c)\<lparr>t_subs := remove1 topic (t_subs (sb_obj s c)), t_recvQ := nchan s,
       t_gen := Suc (t_gen (sb_obj s c))\<rparr>)"
    "chans t = (chans s)(t_recvQ (sb_obj s c) := (tq s c)\<lparr>ch_buf := []\<rparr>, nchan s := (make_gochan (t_recvQLen (sb_obj s c)))
       \<lparr>ch_buf := filter (matches (remove1 topic (t_subs (sb_obj s c)))) (ch_buf (tq s c))\<rparr>)"
proof -
  note d = sub_invD [OF inv]
  let ?x = "sb_obj s c" and ?subs = "remove1 topic (t_subs (sb_obj s c))"
  let ?s3 = "s\<lparr>nchan := Suc (nchan s), sb_obj := (sb_obj s)(c := ?x\<lparr>t_subs := ?subs, t_recvQ := nchan s, t_gen := Suc (t_gen ?x)\<rparr>),
      chans := (chans s)(nchan s := make_gochan (t_recvQLen ?x), t_recvQ ?x := (tq s c)\<lparr>ch_buf := []\<rparr>)\<rparr>"
  have q: "t_recvQ ?x \<noteq> nchan s" "0 < nchan s" using d(4,5) [OF c] by auto
  have eq: "unsubscribe c topic s = (prune ?subs (nchan s) (ch_buf (tq s c)) ?s3, None)"
    using topic q by (simp add: unsubscribe_def renew_recvQ_def make_chan_def Let_def upd_tctx_def)
  have ch: "chans ?s3 (nchan s) = make_gochan (t_recvQLen ?x)" using q by simp
  have "length (ch_buf (tq s c)) \<le> t_recvQLen ?x" using d(2,6) c by (metis plain_chan_def)
  then obtain R where "prune ?subs (nchan s) (ch_buf (tq s c)) ?s3 = ?s3\<lparr>refs := R, chans := (chans ?s3)(nchan s :=
      (make_gochan (t_recvQLen ?x))\<lparr>ch_buf := filter (matches ?subs) (ch_buf (tq s c))\<rparr>)\<rparr>"
    using prune_eq [of ?s3 "nchan s" "ch_buf (tq s c)" ?subs] q ns unfolding ch by auto
  with eq show ?thesis using that ns q by (simp add: fun_upd_twist)
qed

lemma unsubscribe_inv:
  assumes inv: "sub_inv s" and ns: "\<not> sb_stuck s" and c: "c < sb_nobj s"
  shows "sub_inv (fst (unsubscribe c topic s))"
proof (cases "topic \<in> set (t_subs (sb_obj s c))")
  case True
  note d = sub_invD [OF inv]
  let ?b = "filter (matches (remove1 topic (t_subs (sb_obj s c)))) (ch_buf (tq s c))"
  obtain t where t: "unsubscribe c topic s = (t, None)" "nchan t = Suc (nchan s)" "sb_nobj t = sb_nobj s" "sb_ctxs t = sb_ctxs s"
    "sb_obj t = (sb_obj s)(c := (sb_obj s c)\<lparr>t_subs := remove1 topic (t_subs (sb_obj s c)), t_recvQ := nchan s,
       t_gen := Suc (t_gen (sb_obj s c))\<rparr>)"
    "chans t = (chans s)(t_recvQ (sb_obj s c) := (tq s c)\<lparr>ch_buf := []\<rparr>, nchan s := (make_gochan (t_recvQLen (sb_obj s c)))\<lparr>ch_buf := ?b\<rparr>)"
    using unsubscribe_eq [OF inv ns c True] by blast
  have "length (ch_buf (tq s c)) \<le> t_recvQLen (sb_obj s c)" using d(2,6) c by (metis plain_chan_def)
  then have len: "length ?b \<le> t_recvQLen (sb_obj s c)" using length_filter_le le_trans by blast
  have q: "t_recvQ (sb_obj s c) \<noteq> nchan s" using d(5) [OF c] by simp
  have "plain_chan (chans t (t_recvQ (sb_obj s c)))" using t(6) q d(2) by (simp add: plain_chan_def)
  then have "sub_inv t"
    by (rule sub_inv_renew [OF inv c _ _ _ len, rotated -2])
       (use t q d(7) [OF c] in \<open>auto simp: distinct_remove1\<close>)
  then show ?thesis using t(1) by simp
qed (simp add: unsubscribe_def inv)

lemma sub_resize_inv:
  assumes inv: "sub_inv s" and c: "c < sb_nobj s"
  shows "sub_inv (sub_resize c v s)"
proof (cases "v < 0")
  case True
  then show ?thesis using inv by (simp add: sub_resize_def sub_inv_def)
next
  case False
  note d = sub_invD [OF inv]
  let ?t = "sub_resize c v s" and ?x = "(sb_obj s c)\<lparr>t_recvQ := nchan s, t_gen := Suc (t_gen (sb_obj s c)), t_recvQLen := nat v\<rparr>"
  have q: "t_recvQ (sb_obj s c) \<noteq> nchan s" using d(5) [OF c] by simp
  have t: "sb_obj ?t = (sb_obj s)(c := ?x)" "sb_nobj ?t = sb_nobj s" "sb_ctxs ?t = sb_ctxs s" "nchan ?t = Suc (nchan s)"
    "chans ?t = (chans s)(nchan s := make_gochan (nat v))"
    using False by (simp_all add: sub_resize_def renew_recvQ_def make_chan_def)
  have "plain_chan (chans ?t (t_recvQ (sb_obj s c)))" using t(5) q d(2) by simp
  then show ?thesis
    by (rule sub_inv_renew [where x = ?x and b = "[]" and n = "nat v", OF inv c, rotated -2])
       (use t d(7) [OF c] in \<open>auto simp: make_gochan_def\<close>)
qed

lemma sub_inv_obj:
  assumes "sub_inv s" and "sb_nobj t = sb_nobj s" "sb_ctxs t \<subseteq> sb_ctxs s" "nchan t = nchan s" "chans t = chans s"
    and "\<And>c. t_recvQ (sb_obj t c) = t_recvQ (sb_obj s c) \<and> t_recvQLen (sb_obj t c) = t_recvQLen (sb_obj s c) \<and>
      (distinct (t_subs (sb_obj s c)) \<longrightarrow> distinct (t_subs (sb_obj t c))) \<and> set (t_subs (sb_obj s c)) \<subseteq> set (t_subs (sb_obj t c))"
  shows "sub_inv t"
  using assms unfolding sub_inv_def matches_iff by (auto simp: inj_on_def) blast

lemma sub_set_inv:
  assumes inv: "sub_inv s" and ns: "\<not> sb_stuck s" and c: "c < sb_nobj s"
  shows "sub_inv (fst (sub_ctx_SetOption c n v s))"
proof -
  have "sub_inv (fst (subscribe c b s))" for b
    unfolding subscribe_def by (auto intro!: sub_inv_obj [OF inv] simp: inv)
  moreover have "sub_inv (upd_tctx c (\<lambda>x. x\<lparr>t_recvExpire := d\<rparr>) s)" for d
    by (rule sub_inv_obj [OF inv]) auto
  ultimately show ?thesis
    using unsubscribe_inv [OF inv ns c] sub_resize_inv [OF inv c] inv
    by (auto simp: sub_ctx_SetOption_def fst_set_field split: option.split)
qed

lemma sub_ctx_Close_inv: "sub_inv s \<Longrightarrow> sub_inv (fst (sub_ctx_Close c s))"
  by (rule sub_inv_obj [of s]) (auto simp: sub_ctx_Close_def Let_def)

lemma sub_Close_inv:
  assumes "sub_inv s"
  shows "sub_inv (fst (sub_Close cs s))"
proof -
  have "sub_inv (fold (\<lambda>c s. fst (sub_ctx_Close c s)) cs t)" if "sub_inv t" for t
    using that by (induction cs arbitrary: t) (simp_all add: sub_ctx_Close_inv)
  moreover have "sub_inv (s\<lparr>sb_closed := True\<rparr>)" by (rule sub_inv_obj [OF assms]) auto
  ultimately show ?thesis using assms by (simp add: sub_Close_def)
qed

lemma sub_open_inv:
  assumes inv: "sub_inv s"
  shows "sub_inv (fst (sub_OpenContext s))"
proof (cases "sb_closed s")
  case False
  note d = sub_invD [OF inv]
  have "0 < nchan s" using d(4) [OF d(1)] d(5) [OF d(1)] by simp
  moreover have "t_recvQ (sb_obj s c) \<noteq> nchan s" if "c < sb_nobj s" for c using d(5) [OF that] by simp
  ultimately show ?thesis
    using inv False by (auto simp: sub_OpenContext_def make_chan_def Let_def sub_inv_def inj_on_def less_Suc_eq)
qed (simp add: sub_OpenContext_def inv)

lemma sub_try_frame:
  assumes inv: "sub_inv s" and r: "sub_RecvMsg_try k snap s = Some (s', x)"
  shows "sub_inv s'"
proof -
  obtain tm rq g m s1 where s1: "snap = (tm, rq, g)" "try_recv rq s = Some (Some m, s1)" "s' = snd (make_unique k m s1)"
    using r by (auto simp: sub_RecvMsg_try_def split: prod.splits option.splits)
  have rq: "rq \<noteq> 0" using s1(2) by (auto simp: try_recv_def split: if_splits)
  then obtain xs where xs: "ch_buf (chans s rq) = m # xs" "s1 = s\<lparr>chans := (chans s)(rq := (chans s rq)\<lparr>ch_buf := xs\<rparr>)\<rparr>"
    using s1(2) try_recv_plain [of s rq] sub_invD(2) [OF inv, of rq] by (auto split: list.splits)
  have ch: "chans s' = chans s1" "sb_obj s' = sb_obj s" "sb_nobj s' = sb_nobj s" "sb_ctxs s' = sb_ctxs s" "nchan s' = nchan s"
    "sb_closed s' = sb_closed s" "panicked s' = panicked s"
    using s1(3) xs(2) by (auto simp: make_unique_def Free_def)
  show ?thesis
  proof (rule sub_inv_queues [OF inv])
    show "same_but_queues s s'" using ch xs(2) by (simp add: same_but_queues_def)
    show "plain_chan (chans s' q)" for q
      using ch(1) xs sub_invD(2) [OF inv, of q] sub_invD(2) [OF inv, of rq] by (auto simp: plain_chan_def)
    show "matches (t_subs (sb_obj s c)) y" if "c < sb_nobj s" "y \<in> set (ch_buf (tq s' c))" for c y
      using that ch xs sub_invD(8) [OF inv that(1), of y] by (auto split: if_splits)
  qed
qed

lemma sub_wait_frame:
  assumes "sub_inv s" "(s', x) \<in> set (sub_RecvMsg_wait f k c snap s)"
  shows "sub_inv s'"
  using assms sub_try_frame [OF assms(1), of k snap s' x]
  by (cases snap) (auto simp: sub_RecvMsg_wait_def set_ready_cases)

lemma sub_receive_inv:
  assumes inv: "sub_inv s" and cs: "set cs = sb_ctxs s"
  shows "sub_inv (fst (sub_receiver_msg pk cs m s))"
proof -
  have "set cs \<subseteq> {..<sb_nobj s}" using cs sub_invD(3) [OF inv] by auto
  then have "sub_inv (fst (fold (sub_deliver pk m) cs (s, [])))" using deliver_fold_frame [OF inv] by blast
  then show ?thesis by (auto simp: sub_receiver_msg_def sub_inv_def split: prod.splits)
qed

interpretation sub: machine "\<lambda>s. s = sub_NewProtocol" sub_step sub_inv
proof unfold_locales
  show "sub_inv s" if "s = sub_NewProtocol" for s
    using that by (auto simp: sub_inv_def sub_NewProtocol_def inj_on_def)
  show "sub_inv t" if "sub_inv s" "sub_step s t" for s t
    using that(2,1)
    by cases (auto intro: sub_try_frame sub_wait_frame sub_receive_inv sub_set_inv sub_ctx_Close_inv sub_Close_inv sub_open_inv)
qed

section \<open>Specification: filtered queues\<close>

text \<open>What a context promises: a set of topics and a bounded queue of the latest matching messages.\<close>

record tspec =
  sp_topics :: "bytes set"
  sp_cap :: nat
  sp_queue :: "message list"

definition wanted :: "bytes set \<Rightarrow> message \<Rightarrow> bool" where
  "wanted T m \<longleftrightarrow> (\<exists>t\<in>T. \<exists>r. Body m = t @ r)"

definition latest :: "nat \<Rightarrow> 'a list \<Rightarrow> 'a list" where
  "latest n q = drop (length q - n) q"

definition spec_publish :: "message \<Rightarrow> tspec \<Rightarrow> tspec" where
  "spec_publish m x = (if wanted (sp_topics x) m then x\<lparr>sp_queue := latest (sp_cap x) (sp_queue x @ [m])\<rparr> else x)"

definition spec_subscribe :: "bytes \<Rightarrow> tspec \<Rightarrow> tspec" where
  "spec_subscribe t x = x\<lparr>sp_topics := insert t (sp_topics x)\<rparr>"

definition spec_unsubscribe :: "bytes \<Rightarrow> tspec \<Rightarrow> tspec" where
  "spec_unsubscribe t x =
     x\<lparr>sp_topics := sp_topics x - {t}, sp_queue := filter (wanted (sp_topics x - {t})) (sp_queue x)\<rparr>"

definition sub_abs :: "subsock \<Rightarrow> nat \<Rightarrow> tspec" where
  "sub_abs s c = \<lparr>sp_topics = set (t_subs (sb_obj s c)), sp_cap = t_recvQLen (sb_obj s c), sp_queue = ch_buf (tq s c)\<rparr>"

lemma HasPrefix_iff: "HasPrefix b p \<longleftrightarrow> (\<exists>r. b = p @ r)"
  by (auto simp: HasPrefix_def) (metis append_take_drop_id)

lemma wanted_id [simp]: "wanted T (m\<lparr>m_id := k\<rparr>) = wanted T m"
  by (simp add: wanted_def)

lemma matches_wanted: "matches subs m \<longleftrightarrow> wanted (set subs) m"
  by (simp add: matches_iff wanted_def HasPrefix_iff)

lemma latest_push: "length q \<le> n \<Longrightarrow> 0 < n \<Longrightarrow> latest n (q @ [m]) = push_drop n m q"
  by (auto simp: latest_def push_drop_def drop_Suc)

lemma publish_abs:
  assumes inv: "sub_inv s" and ns: "\<not> sb_stuck s" and cs: "distinct cs" "set cs = sb_ctxs s"
    and pos: "\<forall>c\<in>sb_ctxs s. 0 < t_recvQLen (sb_obj s c)"
  obtains t where "sub_receiver_msg pk cs m s = (t, [])" "\<not> sb_stuck t"
    "\<And>c. c < sb_nobj s \<Longrightarrow> sub_abs t c = (if c \<in> sb_ctxs s then spec_publish m (sub_abs s c) else sub_abs s c)"
    "\<And>i. refs t i = refs s i + (\<Sum>c\<leftarrow>cs. occ t c i - occ s c i) - (if i = m_id m then 1 else 0)"
proof -
  have sub: "set cs \<subseteq> {..<sb_nobj s}" using cs sub_invD(3) [OF inv] by auto
  obtain u where u: "fold (sub_deliver pk m) cs (s, []) = (u, [])" "\<not> sb_stuck u"
    "\<forall>c < sb_nobj s. ch_buf (tq u c) =
       (if c \<in> set cs \<and> matches (t_subs (sb_obj s c)) m then push_drop (t_recvQLen (sb_obj s c)) m (ch_buf (tq s c))
        else ch_buf (tq s c))"
    "\<forall>i. refs u i = refs s i + (\<Sum>c\<leftarrow>cs. occ u c i - occ s c i)"
    using deliver_fold [OF inv ns cs(1) sub, of pk m "[]"] pos cs(2) by blast
  have "same_but_queues s u" using deliver_fold_frame [OF inv sub, of pk m "[]"] u(1) by simp
  then have eq: "sb_obj u = sb_obj s" "ch_cap (chans u q) = ch_cap (chans s q)" for q by (simp_all add: same_but_queues_def)
  have len: "length (ch_buf (tq s c)) \<le> t_recvQLen (sb_obj s c)" if "c < sb_nobj s" for c
    using sub_invD(2,6) [OF inv] that by (metis plain_chan_def)
  have "sub_abs u c = (if c \<in> sb_ctxs s then spec_publish m (sub_abs s c) else sub_abs s c)" if "c < sb_nobj s" for c
    using u(3) that pos len [OF that] cs(2) eq(1)
    by (auto simp: sub_abs_def spec_publish_def matches_wanted latest_push)
  then show ?thesis using that [of "Free (m_id m) u"] u by (simp add: sub_receiver_msg_def sub_abs_def occ_def)
qed

lemma unsubscribe_abs:
  assumes inv: "sub_inv s" and ns: "\<not> sb_stuck s" and c: "c < sb_nobj s" and b: "b \<in> set (t_subs (sb_obj s c))"
  shows "\<exists>t. unsubscribe c b s = (t, None) \<and> \<not> sb_stuck t \<and> sub_abs t c = spec_unsubscribe b (sub_abs s c)"
  by (rule unsubscribe_eq [OF inv ns c b])
     (use sub_invD(7) [OF inv c] in \<open>auto simp: sub_abs_def spec_unsubscribe_def set_remove1_eq matches_wanted cong: filter_cong\<close>)

section \<open>Properties\<close>



definition sub1 :: subsock where
  "sub1 = fst (sub_ctx_SetOption 0 OptionSubscribe (VBytes [65]) sub_NewProtocol)"

definition sub_m :: message where
  "sub_m = \<lparr>m_id = 7, Header = [], Body = [65, 66], m_pipe = None, m_from = 0\<rparr>"

lemma sub1_run: "sub_step\<^sup>*\<^sup>* sub_NewProtocol sub1"
  unfolding sub1_def by (intro r_into_rtranclp su_set) (simp_all add: sub_NewProtocol_def)

lemma sub1_eval: "sb_ctxs sub1 = {0}" "sb_nobj sub1 = 1" "\<not> sb_stuck sub1" "t_recvQLen (sb_obj sub1 0) = 128"
  "sub_abs sub1 0 = \<lparr>sp_topics = {[65]}, sp_cap = 128, sp_queue = []\<rparr>"
  by (simp_all add: sub1_def sub_ctx_SetOption_def option_names subscribe_def sub_NewProtocol_def sub_abs_def)


text \<open>
  No unwanted message is ever handed out. In every reachable state the queue of every context
  holds at most \<^verbatim>\<open>OptionReadQLen\<close> messages, all of them wanted by its present subscriptions, however
  subscriptions have come and gone since they arrived; so what \<^verbatim>\<open>RecvMsg\<close> takes from it is
  wanted, and is the caller's alone.
\<close>

theorem sub_queue_only_wanted:
  assumes run: "sub_step\<^sup>*\<^sup>* sub_NewProtocol s" and c: "c < sb_nobj s"
  shows "length (sp_queue (sub_abs s c)) \<le> sp_cap (sub_abs s c) \<and>
    (\<forall>m\<in>set (sp_queue (sub_abs s c)). wanted (sp_topics (sub_abs s c)) m) \<and>
    (\<forall>k s' x. (\<forall>m\<in>set (sp_queue (sub_abs s c)). m_id m \<noteq> k) \<longrightarrow>
       sub_RecvMsg_try k (sub_RecvMsg_begin c s) s = Some (s', x) \<longrightarrow>
       (\<exists>m. x = Got m \<and> wanted (sp_topics (sub_abs s c)) m \<and> refs s' (m_id m) = 1))"
proof -
  have inv: "sub_inv s" by (rule sub.reachable_inv [OF refl run])
  note d = sub_invD [OF inv]
  have all: "\<forall>m\<in>set (ch_buf (tq s c)). wanted (set (t_subs (sb_obj s c))) m"
    using d(8) [OF c] by (simp add: matches_wanted)
  have "\<exists>m. x = Got m \<and> wanted (set (t_subs (sb_obj s c))) m \<and> refs s' (m_id m) = 1"
    if "sub_RecvMsg_try k (sub_RecvMsg_begin c s) s = Some (s', x)" "\<forall>m\<in>set (ch_buf (tq s c)). m_id m \<noteq> k" for k s' x
    using that all try_recv_plain [OF d(2) d(4) [OF c]]
    by (auto simp: sub_RecvMsg_try_def sub_RecvMsg_begin_def make_unique_def Free_def wanted_id split: list.splits if_splits)
  moreover have "length (ch_buf (tq s c)) \<le> t_recvQLen (sb_obj s c)" using d(2,6) c by (metis plain_chan_def)
  ultimately show ?thesis using all by (auto simp: sub_abs_def)
qed

definition sub2 :: subsock where
  "sub2 = fst (sub_receiver_msg (\<lambda>_. False) [0] sub_m sub1)"

lemma sub2_run: "sub_step\<^sup>*\<^sup>* sub_NewProtocol sub2"
proof -
  have "sub_step sub1 sub2" unfolding sub2_def by (rule su_receive) (simp_all add: sub1_eval)
  with sub1_run show ?thesis by (rule rtranclp.rtrancl_into_rtrancl)
qed

lemma sub2_eval: "sb_nobj sub2 = 1" "sp_topics (sub_abs sub2 0) = {[65]}" "sp_queue (sub_abs sub2 0) = [sub_m]"
  "sp_cap (sub_abs sub2 0) = 128" "0 < t_recvQ (sb_obj sub2 0)" "plain_chan (tq sub2 0)"
  by (simp_all add: sub2_def sub_receiver_msg_def sub_deliver_def sub1_def sub_ctx_SetOption_def option_names
      subscribe_def sub_NewProtocol_def sub_m_def HasPrefix_def try_send_def chan_room_def Clone_def upd_tctx_def
      sub_abs_def plain_chan_def Free_def)

theorem sub_queue_only_wanted_witness:
  "\<exists>s' m. sub_RecvMsg_try 99 (sub_RecvMsg_begin 0 sub2) sub2 = Some (s', Got m) \<and> wanted {[65]} m \<and> refs s' (m_id m) = 1"
proof -
  have "ch_buf (chans sub2 (t_recvQ (sb_obj sub2 0))) = [sub_m]" using sub2_eval(3) by (simp add: sub_abs_def)
  then have "\<exists>r. sub_RecvMsg_try 99 (sub_RecvMsg_begin 0 sub2) sub2 = Some r"
    using try_recv_plain [OF sub2_eval(6,5)] by (simp add: sub_RecvMsg_try_def sub_RecvMsg_begin_def split: prod.split)
  then obtain s' x where "sub_RecvMsg_try 99 (sub_RecvMsg_begin 0 sub2) sub2 = Some (s', x)" by (metis surj_pair)
  moreover have "m_id sub_m \<noteq> 99" by (simp add: sub_m_def)
  ultimately show ?thesis using sub_queue_only_wanted [OF sub2_run, of 0] by (auto simp: sub2_eval)
qed

text \<open>
  What \<^verbatim>\<open>OptionReadQLen\<close> must not be set to. With length zero, a message that matches while
  no \<^verbatim>\<open>RecvMsg\<close> waits makes the receiver goroutine block for ever while it holds the socket's
  lock; a negative length, which the type check lets through, panics.
\<close>

theorem sub_bad_queue_length:
  "(\<exists>s. sub_step\<^sup>*\<^sup>* sub_NewProtocol s \<and> sb_stuck s) \<and>
   sub_SetOption OptionReadQLen (VInt (- 1)) sub_NewProtocol = (sub_NewProtocol\<lparr>panicked := True\<rparr>, None)"
proof
  let ?s2 = "fst (sub_ctx_SetOption 0 OptionReadQLen (VInt 0) sub1)"
  let ?s3 = "fst (sub_receiver_msg (\<lambda>_. False) [0] sub_m ?s2)"
  have "sub_step sub1 ?s2" by (rule su_set) (simp_all add: sub1_eval)
  moreover have c: "sb_ctxs ?s2 = {0}" "\<not> sb_stuck ?s2"
    by (simp_all add: sub_ctx_SetOption_def sub_resize_def renew_recvQ_def make_chan_def sub1_eval)
  then have "sub_step ?s2 ?s3" by (intro su_receive) simp_all
  ultimately have "sub_step\<^sup>*\<^sup>* sub_NewProtocol ?s3"
    using sub1_run by (meson rtranclp.rtrancl_into_rtrancl)
  moreover have "sb_stuck ?s3"
    by (simp add: sub_ctx_SetOption_def sub_resize_def renew_recvQ_def make_chan_def sub1_def option_names subscribe_def
        sub_NewProtocol_def sub_receiver_msg_def sub_deliver_def sub_m_def HasPrefix_def try_send_def try_recv_def
        chan_room_def chan_pop_def Clone_def upd_tctx_def)
  ultimately show "\<exists>s. sub_step\<^sup>*\<^sup>* sub_NewProtocol s \<and> sb_stuck s" by blast
  show "sub_SetOption OptionReadQLen (VInt (- 1)) sub_NewProtocol = (sub_NewProtocol\<lparr>panicked := True\<rparr>, None)"
    by (simp add: sub_SetOption_def sub_ctx_SetOption_def sub_resize_def)
qed

end
