(* ===== verification/Macat.thy ===== *)
theory Macat
  imports CoreSocket Sub
begin

text \<open>
  The command line tool, \<^verbatim>\<open>macat/macat.go\<close>: what its options do to the application's state, the checks of
  \<^verbatim>\<open>Run\<close>, the loops that send and receive, and the output formats. The option parser (\<^verbatim>\<open>optopia\<close>) is a parameter:
  the application sees the long names of the options with their arguments, in order. The socket is a
  parameter too: the answers of its calls are lists, in the order of the calls; a loop that has used up the
  answers is still running (result \<open>None\<close>). Sleeping is left out.
\<close>

datatype apperr = AppErr string | SockErr string err | FileErr err

type_synonym appstatus = "apperr option"

section \<open>Durations\<close>

text \<open>\<^verbatim>\<open>strconv.Atoi\<close> for decimal numbers of an \<^verbatim>\<open>int\<close>; \<open>parse\<close> is \<^verbatim>\<open>time.ParseDuration\<close>.\<close>

definition digit :: "char \<Rightarrow> int option" where
  "digit c = (let n = (of_char c :: int) in if 48 \<le> n \<and> n \<le> 57 then Some (n - 48) else None)"

fun digits :: "int \<Rightarrow> string \<Rightarrow> int option" where
  "digits acc [] = Some acc"
| "digits acc (c # cs) = (case digit c of None \<Rightarrow> None | Some d \<Rightarrow> digits (10 * acc + d) cs)"

definition Atoi :: "string \<Rightarrow> int option" where
  "Atoi s =
     (let neg = starts_with ''-'' s; ds = (if neg \<or> starts_with ''+'' s then drop 1 s else s)
      in if ds = [] then None
         else case digits 0 ds of
                None \<Rightarrow> None
              | Some n \<Rightarrow> (let v = (if neg then - n else n) in if - (2 ^ 63) \<le> v \<and> v < 2 ^ 63 then Some v else None))"

definition wrap64 :: "int \<Rightarrow> int" where
  "wrap64 i = sint (of_int i :: 64 word)"

definition UnmarshalText :: "(string \<Rightarrow> int option) \<Rightarrow> string \<Rightarrow> apperr + int" where
  "UnmarshalText parse s =
     (case Atoi s of
        Some v \<Rightarrow> Inr (wrap64 (v * 1000000000))
      | None \<Rightarrow> (case parse s of Some d \<Rightarrow> Inr d | None \<Rightarrow> Inl (AppErr ''value is not a duration'')))"

lemma UnmarshalText_wraps: "UnmarshalText parse ''9300000000'' = Inr (- 9146744073709551616)"
proof -
  have "Atoi ''9300000000'' = Some 9300000000" by code_simp
  moreover have "wrap64 9300000000000000000 = - 9146744073709551616" by code_simp
  ultimately show ?thesis by (simp add: UnmarshalText_def)
qed

section \<open>The application\<close>

text \<open>
  The last five fields are \<^verbatim>\<open>tlsCfg\<close>: \<open>a_ca\<close> and \<open>a_clientCA\<close> say that \<^verbatim>\<open>RootCAs\<close> and \<^verbatim>\<open>ClientCAs\<close> are set, \<open>a_cert\<close> that there
  is a certificate, \<open>a_clientAuth\<close> that \<^verbatim>\<open>ClientAuth\<close> is \<^verbatim>\<open>RequireAndVerifyClientCert\<close>, \<open>a_skip\<close> is \<^verbatim>\<open>InsecureSkipVerify\<close>.
\<close>

record app =
  a_verbose :: int
  a_dialAddr :: "string list"
  a_bindAddr :: "string list"
  a_subs :: "string list"
  a_recvTimeout :: int
  a_sendTimeout :: int
  a_sendInterval :: int
  a_sendDelay :: int
  a_sendData :: "bytes option"
  a_format :: string
  a_sock :: "string option"
  a_certFile :: string
  a_keyFile :: string
  a_noVerify :: bool
  a_count :: int
  a_countSet :: bool
  a_ca :: bool
  a_clientCA :: bool
  a_cert :: bool
  a_clientAuth :: bool
  a_skip :: bool

definition Initialize :: app where
  "Initialize =
     \<lparr>a_verbose = 0, a_dialAddr = [], a_bindAddr = [], a_subs = [], a_recvTimeout = - 1, a_sendTimeout = - 1, a_sendInterval = - 1,
      a_sendDelay = - 1, a_sendData = None, a_format = [], a_sock = None, a_certFile = [], a_keyFile = [], a_noVerify = False,
      a_count = 1, a_countSet = False, a_ca = False, a_clientCA = False, a_cert = False, a_clientAuth = False, a_skip = False\<rparr>"

definition setSocket :: "string \<Rightarrow> app \<Rightarrow> app \<times> appstatus" where
  "setSocket p a = (if a_sock a \<noteq> None then (a, Some (AppErr ''protocol already selected'')) else (a\<lparr>a_sock := Some p\<rparr>, None))"

definition has_scheme :: "string \<Rightarrow> bool" where
  "has_scheme addr \<longleftrightarrow> str_index ''://'' addr \<noteq> None"

definition addDial :: "string \<Rightarrow> app \<Rightarrow> app \<times> appstatus" where
  "addDial addr a =
     (if \<not> has_scheme addr then (a, Some (AppErr ''invalid address format'')) else (a\<lparr>a_dialAddr := a_dialAddr a @ [addr]\<rparr>, None))"

definition addBind :: "string \<Rightarrow> app \<Rightarrow> app \<times> appstatus" where
  "addBind addr a =
     (if \<not> has_scheme addr then (a, Some (AppErr ''invalid address format'')) else (a\<lparr>a_bindAddr := a_bindAddr a @ [addr]\<rparr>, None))"

definition addBindIPC :: "string \<Rightarrow> app \<Rightarrow> app \<times> appstatus" where
  "addBindIPC path a = addBind (''ipc://'' @ path) a"

definition addDialIPC :: "string \<Rightarrow> app \<Rightarrow> app \<times> appstatus" where
  "addDialIPC path a = addDial (''ipc://'' @ path) a"

definition addBindLocal :: "string \<Rightarrow> app \<Rightarrow> app \<times> appstatus" where
  "addBindLocal port a = addBind (''tcp://127.0.0.1:'' @ port) a"

definition addDialLocal :: "string \<Rightarrow> app \<Rightarrow> app \<times> appstatus" where
  "addDialLocal port a = addDial (''tcp://127.0.0.1:'' @ port) a"

definition addSub :: "string \<Rightarrow> app \<Rightarrow> app \<times> appstatus" where
  "addSub s a = (a\<lparr>a_subs := a_subs a @ [s]\<rparr>, None)"

definition setSendData :: "bytes \<Rightarrow> app \<Rightarrow> app \<times> appstatus" where
  "setSendData d a =
     (if a_sendData a \<noteq> None then (a, Some (AppErr ''data or file already set'')) else (a\<lparr>a_sendData := Some d\<rparr>, None))"

text \<open>\<open>rd\<close> is what \<^verbatim>\<open>ioutil.ReadFile\<close> returns: a slice, nil or not, and an error.\<close>

definition setSendFile :: "bytes option \<times> err option \<Rightarrow> app \<Rightarrow> app \<times> appstatus" where
  "setSendFile rd a =
     (if a_sendData a \<noteq> None then (a, Some (AppErr ''data or file already set''))
      else (a\<lparr>a_sendData := fst rd\<rparr>, map_option FileErr (snd rd)))"

definition setFormat :: "string \<Rightarrow> app \<Rightarrow> app \<times> appstatus" where
  "setFormat f a =
     (if a_format a \<noteq> [] then (a, Some (AppErr ''output format already set''))
      else if f \<in> {''no'', ''raw'', ''ascii'', ''quoted'', ''msgpack''} then (a\<lparr>a_format := f\<rparr>, None)
      else (a, Some (AppErr (''invalid format type: '' @ f))))"

definition setCert :: "string \<Rightarrow> app \<Rightarrow> app \<times> appstatus" where
  "setCert path a = (if a_certFile a \<noteq> [] then (a, Some (AppErr ''certificate file already set'')) else (a\<lparr>a_certFile := path\<rparr>, None))"

definition setKey :: "string \<Rightarrow> app \<Rightarrow> app \<times> appstatus" where
  "setKey path a = (if a_keyFile a \<noteq> [] then (a, Some (AppErr ''key file already set'')) else (a\<lparr>a_keyFile := path\<rparr>, None))"

text \<open>\<open>rd\<close> reads the file, \<open>pem\<close> says whether it holds certificates. The pool is set before that is known.\<close>

definition setCaCert :: "bytes option \<times> err option \<Rightarrow> (bytes \<Rightarrow> bool) \<Rightarrow> app \<Rightarrow> app \<times> appstatus" where
  "setCaCert rd pem a =
     (if a_ca a then (a, Some (AppErr ''cacert already set''))
      else case snd rd of
             Some e \<Rightarrow> (a, Some (FileErr e))
           | None \<Rightarrow> (let a1 = a\<lparr>a_ca := True\<rparr>
                       in if pem (case fst rd of None \<Rightarrow> [] | Some b \<Rightarrow> b) then (a1\<lparr>a_clientCA := True\<rparr>, None)
                          else (a1, Some (AppErr ''unable to load CA certs''))))"

section \<open>The table of options\<close>

text \<open>What the parser needs of the world: files, certificates, \<^verbatim>\<open>time.ParseDuration\<close>, the integers of \<^verbatim>\<open>optopia\<close>.\<close>

record env =
  e_read :: "string \<Rightarrow> bytes option \<times> err option"
  e_pem :: "bytes \<Rightarrow> bool"
  e_duration :: "string \<Rightarrow> int option"
  e_int :: "string \<Rightarrow> int option"
  e_bytes :: "string \<Rightarrow> bytes"

definition protocols :: "string set" where
  "protocols = {''push'', ''pull'', ''pub'', ''sub'', ''req'', ''rep'', ''surveyor'', ''respondent'', ''bus'', ''pair'', ''star''}"

definition handle_address :: "string \<Rightarrow> string \<Rightarrow> app \<Rightarrow> (app \<times> appstatus) option" where
  "handle_address n v a =
     (if n = ''bind'' then Some (addBind v a)
      else if n = ''connect'' then Some (addDial v a)
      else if n = ''bind-ipc'' then Some (addBindIPC v a)
      else if n = ''connect-ipc'' then Some (addDialIPC v a)
      else if n = ''bind-local'' then Some (addBindLocal v a)
      else if n = ''connect-local'' then Some (addDialLocal v a)
      else if n = ''subscribe'' then Some (addSub v a)
      else None)"

definition handle_timing :: "env \<Rightarrow> string \<Rightarrow> string \<Rightarrow> app \<Rightarrow> (app \<times> appstatus) option" where
  "handle_timing w n v a =
     (let dur = (\<lambda>f. Some (case UnmarshalText (e_duration w) v of Inl e \<Rightarrow> (a, Some e) | Inr d \<Rightarrow> (f d, None)))
      in if n = ''count'' then
           Some (case e_int w v of None \<Rightarrow> (a, Some (AppErr ''bad count'')) | Some c \<Rightarrow> (a\<lparr>a_count := c, a_countSet := True\<rparr>, None))
         else if n = ''recv-timeout'' then dur (\<lambda>d. a\<lparr>a_recvTimeout := d\<rparr>)
         else if n = ''send-timeout'' then dur (\<lambda>d. a\<lparr>a_sendTimeout := d\<rparr>)
         else if n = ''send-delay'' then dur (\<lambda>d. a\<lparr>a_sendDelay := d\<rparr>)
         else if n = ''send-interval'' then
           dur (\<lambda>d. let a1 = a\<lparr>a_sendInterval := d\<rparr> in if a_countSet a1 then a1 else a1\<lparr>a_count := - 1\<rparr>)
         else None)"

definition handle_output :: "env \<Rightarrow> string \<Rightarrow> string \<Rightarrow> app \<Rightarrow> (app \<times> appstatus) option" where
  "handle_output w n v a =
     (if n \<in> {''raw'', ''ascii'', ''quoted'', ''msgpack''} then Some (setFormat n a)
      else if n = ''format'' then Some (setFormat v a)
      else if n = ''data'' then Some (setSendData (e_bytes w v) a)
      else if n = ''file'' then Some (setSendFile (e_read w v) a)
      else if n = ''cert'' then Some (setCert v a)
      else if n = ''key'' then Some (setKey v a)
      else if n = ''cacert'' then Some (setCaCert (e_read w v) (e_pem w) a)
      else if n = ''insecure'' then Some (a\<lparr>a_noVerify := True\<rparr>, None)
      else None)"

definition handle :: "env \<Rightarrow> string \<Rightarrow> string \<Rightarrow> app \<Rightarrow> app \<times> appstatus" where
  "handle w n v a =
     (if n = ''verbose'' then (a\<lparr>a_verbose := a_verbose a + 1\<rparr>, None)
      else if n = ''silent'' then (a\<lparr>a_verbose := a_verbose a - 1\<rparr>, None)
      else if n \<in> protocols then setSocket n a
      else case handle_address n v a of
             Some r \<Rightarrow> r
           | None \<Rightarrow>
               (case handle_timing w n v a of
                  Some r \<Rightarrow> r
                | None \<Rightarrow> (case handle_output w n v a of Some r \<Rightarrow> r | None \<Rightarrow> (a, Some (AppErr ''unknown option'')))))"

fun parse_options :: "env \<Rightarrow> (string \<times> string) list \<Rightarrow> app \<Rightarrow> app \<times> appstatus" where
  "parse_options w [] a = (a, None)"
| "parse_options w ((n, v) # xs) a = (case handle w n v a of (a1, Some e) \<Rightarrow> (a1, Some e) | (a1, None) \<Rightarrow> parse_options w xs a1)"

section \<open>Output\<close>

text \<open>\<^verbatim>\<open>strconv.IsPrint\<close> for the code points of one byte.\<close>

definition IsPrint :: "byte \<Rightarrow> bool" where
  "IsPrint b \<longleftrightarrow> (let n = unat b in 0x20 \<le> n \<and> n < 0x7f \<or> 0xa1 \<le> n \<and> n \<noteq> 0xad)"

definition hexdigit :: "nat \<Rightarrow> byte" where
  "hexdigit n = of_nat (if n < 10 then 48 + n else 87 + n)"

definition quote_byte :: "byte \<Rightarrow> bytes" where
  "quote_byte b =
     (if b = 10 then [92, 110]
      else if b = 13 then [92, 114]
      else if b = 92 then [92, 92]
      else if b = 34 then [92, 34]
      else if IsPrint b then [b]
      else [92, 120, hexdigit (unat b div 16), hexdigit (unat b mod 16)])"

definition msgpack_header :: "nat \<Rightarrow> bytes" where
  "msgpack_header n =
     (if n < 256 then [0xc4, of_nat n]
      else if n < 65536 then 0xc5 # be_enc 2 (unat (of_nat n :: u16))
      else 0xc6 # PutUint32 (of_nat n))"

text \<open>What is written to the standard output for a message with the given body.\<close>

definition printMsg :: "string \<Rightarrow> bytes \<Rightarrow> bytes" where
  "printMsg fmt body =
     (if fmt = ''no'' then []
      else if fmt = ''raw'' then body
      else if fmt = ''ascii'' then map (\<lambda>b. if IsPrint b then b else 46) body @ [10]
      else if fmt = ''quoted'' then concat (map quote_byte body) @ [10]
      else if fmt = ''msgpack'' then msgpack_header (length body) @ body
      else [])"

section \<open>The loops\<close>

text \<open>
  The calls on the socket that have returned, what was printed and the sleeps, in order. A loop is \<open>Running\<close> when it waits
  for an answer that the lists do not hold. \<open>conf\<close> is the configuration that an endpoint gets: a pointer to \<^verbatim>\<open>tlsCfg\<close>, whose
  value at the time is kept here, or the options for Pion's clients and servers.
\<close>

record tlscfg =
  t_RootCAs :: bool
  t_ClientCAs :: bool
  t_Certificates :: bool
  t_RequireAndVerify :: bool
  t_InsecureSkipVerify :: bool

definition tlsCfg :: "app \<Rightarrow> tlscfg" where
  "tlsCfg a =
     \<lparr>t_RootCAs = a_ca a, t_ClientCAs = a_clientCA a, t_Certificates = a_cert a, t_RequireAndVerify = a_clientAuth a,
      t_InsecureSkipVerify = a_skip a\<rparr>"

datatype pionopt = WithRootCAs bool | WithInsecureSkipVerify bool | WithClientAuth bool | WithCertificates | WithClientCAs

datatype conf = TLSConf tlscfg | is_DTLSConf: DTLSConf (client_options: "pionopt list") (server_options: "pionopt list")

datatype act =
    ASend bytes "err option"
  | APrint bytes
  | ASetOption string optval
  | ASleep int
  | AListen string "conf option" "err option"
  | ADial string "conf option" "err option"
  | AClose

datatype outcome = Running | Returned appstatus | Panicked

text \<open>The \<^verbatim>\<open>switch count\<close> of the two sending loops, for a count that is not zero.\<close>

definition count_down :: "int \<Rightarrow> int" where
  "count_down c = (if c = - 1 then - 1 else wrap64 (c - 1))"

fun recvLoop :: "app \<Rightarrow> (err + bytes) list \<Rightarrow> act list \<times> outcome" where
  "recvLoop a [] = ([], Running)"
| "recvLoop a (Inl e # rs) =
     (if e = ErrProtoState \<or> e = ErrRecvTimeout then ([], Returned None) else ([], Returned (Some (SockErr ''recv'' e))))"
| "recvLoop a (Inr b # rs) = (case recvLoop a rs of (t, o1) \<Rightarrow> (APrint (printMsg (a_format a) b) # t, o1))"

fun send_turns :: "app \<Rightarrow> bytes \<Rightarrow> int \<Rightarrow> err option list \<Rightarrow> act list \<times> outcome" where
  "send_turns a d c [] = ([], if c = 0 then Returned None else Running)"
| "send_turns a d c (r # rs) =
     (if c = 0 then ([], Returned None)
      else case r of
             Some e \<Rightarrow> ([ASend d r], Returned (Some (SockErr ''send'' e)))
           | None \<Rightarrow>
               (let c1 = count_down c; z = (if a_sendInterval a \<ge> 0 \<and> c1 \<noteq> 0 then [ASleep (a_sendInterval a)] else [])
                in case send_turns a d c1 rs of (t, o1) \<Rightarrow> (ASend d r # z @ t, o1)))"

definition sendLoop :: "app \<Rightarrow> err option list \<Rightarrow> act list \<times> outcome" where
  "sendLoop a ss =
     (case a_sendData a of None \<Rightarrow> ([], Returned (Some (AppErr ''no data to send''))) | Some d \<Rightarrow> send_turns a d (a_count a) ss)"

text \<open>The body that is sent when no data was given is empty: \<^verbatim>\<open>append\<close> of a nil slice.\<close>

definition send_body :: "app \<Rightarrow> bytes" where
  "send_body a = (case a_sendData a of None \<Rightarrow> [] | Some d \<Rightarrow> d)"

text \<open>
  A turn of \<^verbatim>\<open>sendRecvLoop\<close> uses one answer of \<^verbatim>\<open>SendMsg\<close> and one of \<^verbatim>\<open>RecvMsg\<close> with the time that passed since the message
  was sent. The increment of \<^verbatim>\<open>a.count\<close> before \<^verbatim>\<open>recvLoop\<close> is left out: nothing reads the field after it.
\<close>

definition sr_deadline :: "app \<Rightarrow> act list" where
  "sr_deadline a =
     (if a_recvTimeout a < 0 \<or> a_recvTimeout a > a_sendInterval a
      then [ASetOption OptionRecvDeadline (VDuration (a_sendInterval a))] else [])"

fun sr_turns :: "app \<Rightarrow> int \<Rightarrow> err option list \<Rightarrow> ((err + bytes) \<times> int) list \<Rightarrow> act list \<times> outcome" where
  "sr_turns a c [] rs = ([], if c = 0 then Returned None else Running)"
| "sr_turns a c (s # ss) rs =
     (if c = 0 then ([], Returned None)
      else case s of
             Some e \<Rightarrow> ([ASend (send_body a) s], Returned (Some (SockErr ''send'' e)))
           | None \<Rightarrow>
               (if a_sendInterval a < 0 then
                  (case recvLoop a (map fst rs) of (t, o1) \<Rightarrow> (ASend (send_body a) s # t, o1))
                else
                  (case rs of
                     [] \<Rightarrow> (ASend (send_body a) s # sr_deadline a, Running)
                   | (r, el) # rs1 \<Rightarrow>
                       (let c1 = count_down c; z = (if c1 \<noteq> 0 then [ASleep (a_sendInterval a - el)] else []);
                            next_turn = (\<lambda>p. case sr_turns a c1 ss rs1 of (t, o1) \<Rightarrow> (ASend (send_body a) s # sr_deadline a @ p @ z @ t, o1))
                        in case r of
                             Inr b \<Rightarrow> next_turn [APrint (printMsg (a_format a) b)]
                           | Inl e \<Rightarrow>
                               if e = ErrProtoState \<or> e = ErrRecvTimeout then next_turn []
                               else (ASend (send_body a) s # sr_deadline a, Returned (Some (SockErr ''recv'' e)))))))"

definition sendRecvLoop :: "app \<Rightarrow> err option list \<Rightarrow> ((err + bytes) \<times> int) list \<Rightarrow> act list \<times> outcome" where
  "sendRecvLoop a ss rs = sr_turns a (a_count a) ss rs"

fun reply_turns :: "app \<Rightarrow> bytes \<Rightarrow> err option list \<Rightarrow> (err + bytes) list \<Rightarrow> act list \<times> outcome" where
  "reply_turns a d ss [] = ([], Running)"
| "reply_turns a d ss (Inl e # rs) =
     (if e = ErrRecvTimeout then ([], Returned None) else ([], Returned (Some (SockErr ''recv'' e))))"
| "reply_turns a d [] (Inr b # rs) = ([APrint (printMsg (a_format a) b)], Running)"
| "reply_turns a d (s # ss) (Inr b # rs) =
     (case s of
        Some e \<Rightarrow> ([APrint (printMsg (a_format a) b), ASend d s], Returned (Some (SockErr ''send'' e)))
      | None \<Rightarrow> (case reply_turns a d ss rs of (t, o1) \<Rightarrow> (APrint (printMsg (a_format a) b) # ASend d s # t, o1)))"

definition replyLoop :: "app \<Rightarrow> err option list \<Rightarrow> (err + bytes) list \<Rightarrow> act list \<times> outcome" where
  "replyLoop a ss rs = (case a_sendData a of None \<Rightarrow> recvLoop a rs | Some d \<Rightarrow> reply_turns a d ss rs)"

section \<open>Run\<close>

definition dtlsConfig :: "app \<Rightarrow> conf" where
  "dtlsConfig a =
     (let cert = (if a_cert a then [WithCertificates] else [])
      in DTLSConf ([WithRootCAs (a_ca a), WithInsecureSkipVerify (a_skip a)] @ cert)
                  ([WithClientAuth False] @ cert @ (if a_clientCA a then [WithClientCAs, WithClientAuth True] else [])))"

text \<open>What the rest of the program answers: \<open>n_parsed\<close> and the two fields after it are the work of \<^verbatim>\<open>optopia\<close> on the arguments.\<close>

record answers =
  n_parsed :: "(string \<times> string) list"
  n_perr :: appstatus
  n_extra :: "string list"
  n_load :: "string \<Rightarrow> string \<Rightarrow> err option"
  n_setopt :: "string \<Rightarrow> optval \<Rightarrow> err option"
  n_listens :: "err option list"
  n_dials :: "err option list"
  n_sends :: "err option list"
  n_recvs :: "((err + bytes) \<times> int) list"

definition parse_args :: "env \<Rightarrow> answers \<Rightarrow> app \<Rightarrow> app \<times> appstatus" where
  "parse_args w n a =
     (case parse_options w (n_parsed n) a of
        (a1, Some e) \<Rightarrow> (a1, Some e)
      | (a1, None) \<Rightarrow>
          (case n_perr n of
             Some e \<Rightarrow> (a1, Some e)
           | None \<Rightarrow> if n_extra n \<noteq> [] then (a1, Some (AppErr ''usage: extra arguments'')) else (a1, None)))"

definition load_cert :: "answers \<Rightarrow> app \<Rightarrow> app \<times> appstatus" where
  "load_cert n a =
     (if a_certFile a = [] then (a, None)
      else let a1 = (if a_keyFile a = [] then a\<lparr>a_keyFile := a_certFile a\<rparr> else a)
           in case n_load n (a_certFile a1) (a_keyFile a1) of
                Some e \<Rightarrow> (a1, Some (SockErr ''failed loading cert/key'' e))
              | None \<Rightarrow> (a1\<lparr>a_cert := True\<rparr>, None))"

definition tls_policy :: "app \<Rightarrow> app" where
  "tls_policy a =
     (if a_ca a then a\<lparr>a_clientAuth := True, a_skip := False\<rparr> else a\<lparr>a_clientAuth := False, a_skip := a_noVerify a\<rparr>)"

definition run_checks :: "app \<Rightarrow> appstatus" where
  "run_checks a =
     (if a_sock a = None then Some (AppErr ''protocol not specified'')
      else if a_bindAddr a = [] \<and> a_dialAddr a = [] then Some (AppErr ''no address specified'')
      else if a_sock a \<noteq> Some ''sub'' \<and> a_subs a \<noteq> [] then Some (AppErr ''subscription only valid with SUB protocol'')
      else None)"

text \<open>The stages of \<^verbatim>\<open>Run\<close> give the calls they made and \<open>Some\<close> outcome when \<^verbatim>\<open>Run\<close> ends (or waits) there.\<close>

fun subscribe_all :: "answers \<Rightarrow> bytes list \<Rightarrow> act list \<times> outcome option" where
  "subscribe_all n [] = ([], None)"
| "subscribe_all n (b # bs) =
     (case n_setopt n OptionSubscribe (VBytes b) of
        Some e \<Rightarrow> ([ASetOption OptionSubscribe (VBytes b)], Some Panicked)
      | None \<Rightarrow> (case subscribe_all n bs of (t, r) \<Rightarrow> (ASetOption OptionSubscribe (VBytes b) # t, r)))"

definition run_subscribe :: "env \<Rightarrow> answers \<Rightarrow> app \<Rightarrow> act list \<times> outcome option" where
  "run_subscribe w n a =
     (if a_sock a \<noteq> Some ''sub'' then ([], None)
      else subscribe_all n (if a_subs a \<noteq> [] then map (e_bytes w) (a_subs a) else [[]]))"

definition is_tls :: "string \<Rightarrow> bool" where
  "is_tls addr \<longleftrightarrow> starts_with ''tls'' addr \<or> starts_with ''wss'' addr \<or> starts_with ''dtls'' addr"

definition conf_for :: "app \<Rightarrow> string \<Rightarrow> conf option" where
  "conf_for a addr =
     (if \<not> is_tls addr then None else if starts_with ''dtls'' addr then Some (dtlsConfig a) else Some (TLSConf (tlsCfg a)))"

fun bind_all :: "app \<Rightarrow> string list \<Rightarrow> err option list \<Rightarrow> act list \<times> outcome option" where
  "bind_all a [] rs = ([], None)"
| "bind_all a (addr # addrs) rs =
     (if is_tls addr \<and> \<not> a_cert a then ([], Some (Returned (Some (AppErr ''no server cert specified''))))
      else case rs of
             [] \<Rightarrow> ([], Some Running)
           | Some e # _ \<Rightarrow> ([AListen addr (conf_for a addr) (Some e)], Some (Returned (Some (SockErr (''bind('' @ addr @ '')'') e))))
           | None # rs1 \<Rightarrow> (case bind_all a addrs rs1 of (t, r) \<Rightarrow> (AListen addr (conf_for a addr) None # t, r)))"

fun dial_all :: "app \<Rightarrow> string list \<Rightarrow> err option list \<Rightarrow> act list \<times> outcome option" where
  "dial_all a [] rs = ([], None)"
| "dial_all a (addr # addrs) rs =
     (if is_tls addr \<and> \<not> a_ca a \<and> \<not> a_noVerify a then ([], Some (Returned (Some (AppErr ''no CA cert specified''))))
      else case rs of
             [] \<Rightarrow> ([], Some Running)
           | Some e # _ \<Rightarrow> ([ADial addr (conf_for a addr) (Some e)], Some (Returned (Some (SockErr (''dial('' @ addr @ '')'') e))))
           | None # rs1 \<Rightarrow> (case dial_all a addrs rs1 of (t, r) \<Rightarrow> (ADial addr (conf_for a addr) None # t, r)))"

definition run_settle :: "app \<Rightarrow> act list" where
  "run_settle a =
     [ASleep 20000000, ASleep (a_sendDelay a)]
     @ (if a_recvTimeout a \<ge> 0 then [ASetOption OptionRecvDeadline (VDuration (a_recvTimeout a))] else [])
     @ (if a_sendTimeout a \<ge> 0 then [ASetOption OptionSendDeadline (VDuration (a_sendTimeout a))] else [])"

definition run_main :: "answers \<Rightarrow> app \<Rightarrow> act list \<times> outcome" where
  "run_main n a =
     (let p = a_sock a; rs = map fst (n_recvs n)
      in if p = Some ''pull'' \<or> p = Some ''sub'' then recvLoop a rs
         else if p = Some ''push'' \<or> p = Some ''pub'' then sendLoop a (n_sends n)
         else if p = Some ''pair'' \<or> p = Some ''star'' \<or> p = Some ''bus'' then
           (if a_sendData a \<noteq> None then sendRecvLoop a (n_sends n) (n_recvs n) else recvLoop a rs)
         else if p = Some ''surveyor'' \<or> p = Some ''req'' then sendRecvLoop a (n_sends n) (n_recvs n)
         else if p = Some ''rep'' \<or> p = Some ''respondent'' then replyLoop a (n_sends n) rs
         else ([], Returned (Some (AppErr ''unknown protocol''))))"

definition and_then :: "act list \<times> outcome option \<Rightarrow> act list \<times> outcome \<Rightarrow> act list \<times> outcome" where
  "and_then st k = (case snd st of Some r \<Rightarrow> (fst st, r) | None \<Rightarrow> (fst st @ fst k, snd k))"

definition cleanup :: "app \<Rightarrow> act list \<times> outcome \<Rightarrow> act list \<times> outcome" where
  "cleanup a r = (if snd r = Running \<or> a_sock a = None then r else (fst r @ [ASleep 20000000, AClose], snd r))"

definition run_socket :: "env \<Rightarrow> answers \<Rightarrow> app \<Rightarrow> act list \<times> outcome" where
  "run_socket w n a =
     and_then (run_subscribe w n a)
       (and_then (bind_all a (a_bindAddr a) (n_listens n))
          (and_then (dial_all a (a_dialAddr a) (n_dials n))
             (and_then (run_settle a, None) (run_main n a))))"

definition Run :: "env \<Rightarrow> answers \<Rightarrow> app \<Rightarrow> app \<times> act list \<times> outcome" where
  "Run w n a =
     (case parse_args w n a of
        (a1, Some e) \<Rightarrow> (a1, cleanup a1 ([], Returned (Some e)))
      | (a1, None) \<Rightarrow>
          (case load_cert n a1 of
             (a2, Some e) \<Rightarrow> (a2, cleanup a2 ([], Returned (Some e)))
           | (a2, None) \<Rightarrow>
               (let a3 = tls_policy a2
                in case run_checks a3 of
                     Some e \<Rightarrow> (a3, cleanup a3 ([], Returned (Some e)))
                   | None \<Rightarrow> (a3, cleanup a3 (run_socket w n a3)))))"

section \<open>Reading the output back\<close>

text \<open>A decoder for each of the two formats that keep all bytes: it takes one message off the output.\<close>

definition hexval :: "byte \<Rightarrow> nat" where
  "hexval b = (if 87 \<le> unat b then unat b - 87 else unat b - 48)"

definition unescape :: "byte \<Rightarrow> byte option" where
  "unescape e = (if e = 110 then Some 10 else if e = 114 then Some 13 else if e = 92 \<or> e = 34 then Some e else None)"

fun unquote :: "bytes \<Rightarrow> bytes \<Rightarrow> (bytes \<times> bytes) option" where
  "unquote acc [] = None"
| "unquote acc (b # bs) =
     (if b = 10 then Some (rev acc, bs)
      else if b \<noteq> 92 then unquote (b # acc) bs
      else case bs of
             [] \<Rightarrow> None
           | e # bs1 \<Rightarrow>
               (if e = 120 then
                  (case bs1 of h # l # bs2 \<Rightarrow> unquote (of_nat (16 * hexval h + hexval l) # acc) bs2 | _ \<Rightarrow> None)
                else case unescape e of Some c \<Rightarrow> unquote (c # acc) bs1 | None \<Rightarrow> None))"

definition unpack :: "bytes \<Rightarrow> (bytes \<times> bytes) option" where
  "unpack bs =
     (case bs of
        [] \<Rightarrow> None
      | t # r \<Rightarrow>
          (let k = (if t = 0xc4 then 1 else if t = 0xc5 then 2 else 4); n = be_dec (take k r)
           in Some (take n (drop k r), drop n (drop k r))))"

fun decode_all :: "(bytes \<Rightarrow> (bytes \<times> bytes) option) \<Rightarrow> nat \<Rightarrow> bytes \<Rightarrow> bytes list option" where
  "decode_all d k [] = Some []"
| "decode_all d 0 (b # bs) = None"
| "decode_all d (Suc k) (b # bs) =
     (case d (b # bs) of None \<Rightarrow> None | Some (m, r) \<Rightarrow> map_option ((#) m) (decode_all d k r))"

text \<open>The contract of a format: the output for a message is not empty and can be told from what follows it.\<close>

locale output_format =
  fixes enc :: "bytes \<Rightarrow> bytes" and dec :: "bytes \<Rightarrow> (bytes \<times> bytes) option" and good :: "bytes \<Rightarrow> bool"
  assumes dec_enc: "good b \<Longrightarrow> dec (enc b @ rest) = Some (b, rest)"
    and enc_ne: "enc b \<noteq> []"
begin

lemma decode_stream: "\<forall>b \<in> set bs. good b \<Longrightarrow> length (concat (map enc bs)) \<le> k \<Longrightarrow> decode_all dec k (concat (map enc bs)) = Some bs"
proof (induction bs arbitrary: k)
  case (Cons b bs)
  obtain x xs where e: "enc b = x # xs" using enc_ne [of b] by (cases "enc b") auto
  with Cons.prems obtain j where k: "k = Suc j" "length (concat (map enc bs)) \<le> j" by (cases k) auto
  have "dec (x # xs @ concat (map enc bs)) = Some (b, concat (map enc bs))" using dec_enc [of b] e Cons.prems(1) by simp
  then show ?case using Cons.IH [OF _ k(2)] Cons.prems(1) by (simp add: e k(1))
qed simp

end

lemma hexval_hexdigit: "n < 16 \<Longrightarrow> hexval (hexdigit n) = n"
  by (simp add: hexval_def hexdigit_def unat_byte_of_nat)

lemma hex_join: "16 * of_nat (unat b div 16) + of_nat (unat b mod 16) = (b :: byte)"
proof -
  have "16 * of_nat (unat b div 16) + of_nat (unat b mod 16) = (of_nat (16 * (unat b div 16) + unat b mod 16) :: byte)"
    by (simp only: of_nat_add of_nat_mult of_nat_numeral)
  also have "\<dots> = b" by (simp only: mult_div_mod_eq) simp
  finally show ?thesis .
qed

lemma unquote_byte: "unquote acc (quote_byte b @ xs) = unquote (b # acc) xs"
  by (simp add: quote_byte_def unescape_def hexval_hexdigit hex_join IsPrint_def byte_less less_mult_imp_div_less)

lemma unquote_body: "unquote acc (concat (map quote_byte bs) @ xs) = unquote (rev bs @ acc) xs"
  by (induction bs arbitrary: acc) (simp_all add: unquote_byte)

interpretation quoted: output_format "printMsg ''quoted''" "unquote []" "\<lambda>b. True"
  by unfold_locales (simp_all add: printMsg_def unquote_body)

interpretation msgpack: output_format "printMsg ''msgpack''" unpack "\<lambda>b. length b < 2 ^ 32"
proof (unfold_locales, goal_cases)
  case (1 b rest)
  have "be_dec [x] = unat x" for x using be_dec_snoc [of "[]" x] by simp
  with 1 show ?case by (auto simp: printMsg_def msgpack_header_def unpack_def PutUint32_def be_dec_enc unat_of_nat Let_def)
qed (simp add: printMsg_def msgpack_header_def)

section \<open>What the loops do\<close>

text \<open>Everything printed, the messages sent, the messages received before the first error.\<close>

fun stdout :: "act list \<Rightarrow> bytes" where
  "stdout [] = []"
| "stdout (APrint b # t) = b @ stdout t"
| "stdout (_ # t) = stdout t"

fun sent :: "act list \<Rightarrow> (bytes \<times> err option) list" where
  "sent [] = []"
| "sent (ASend d r # t) = (d, r) # sent t"
| "sent (_ # t) = sent t"

fun received :: "(err + bytes) list \<Rightarrow> bytes list" where
  "received (Inr b # rs) = b # received rs"
| "received _ = []"

fun first_error :: "(err + bytes) list \<Rightarrow> err option" where
  "first_error [] = None"
| "first_error (Inl e # rs) = Some e"
| "first_error (Inr b # rs) = first_error rs"

lemma stdout_append [simp]: "stdout (t @ u) = stdout t @ stdout u"
  by (induction t rule: stdout.induct) simp_all

lemma sent_append [simp]: "sent (t @ u) = sent t @ sent u"
  by (induction t rule: sent.induct) simp_all

text \<open>The outcome of a loop that ends on the first error \<open>e\<close>, quietly when it is one of \<open>E\<close>.\<close>

definition ended :: "err set \<Rightarrow> err option \<Rightarrow> outcome" where
  "ended E e = (case e of None \<Rightarrow> Running | Some x \<Rightarrow> Returned (if x \<in> E then None else Some (SockErr ''recv'' x)))"

lemma recvLoop_eq:
  "recvLoop a rs = (map (\<lambda>b. APrint (printMsg (a_format a) b)) (received rs), ended {ErrProtoState, ErrRecvTimeout} (first_error rs))"
  by (induction a rs rule: recvLoop.induct) (simp_all add: ended_def)

lemma stdout_prints: "stdout (map (\<lambda>b. APrint (f b)) bs) = concat (map f bs)" "sent (map (\<lambda>b. APrint (f b)) bs) = []"
  by (induction bs) simp_all

text \<open>A count that is not negative is reached exactly, unless a call fails before or does not return.\<close>

lemma wrap64_id: "- (2 ^ 63) \<le> i \<Longrightarrow> i < 2 ^ 63 \<Longrightarrow> wrap64 i = i"
  by (simp add: wrap64_def signed_of_int signed_take_bit_int_eq_self)

lemma count_down_pos: "0 < c \<Longrightarrow> c < 2 ^ 63 \<Longrightarrow> count_down c = c - 1"
  by (simp add: count_down_def wrap64_id)

lemma send_turns_exact:
  "0 \<le> c \<Longrightarrow> c < 2 ^ 63 \<Longrightarrow> nat c \<le> length ss \<Longrightarrow> \<forall>s \<in> set (take (nat c) ss). s = None \<Longrightarrow>
   sent (fst (send_turns a d c ss)) = replicate (nat c) (d, None) \<and> snd (send_turns a d c ss) = Returned None"
proof (induction ss arbitrary: c)
  case (Cons s ss)
  show ?case
  proof (cases "c = 0")
    case False
    then have c: "nat c = Suc (nat (c - 1))" "count_down c = c - 1" using Cons.prems count_down_pos by auto
    then show ?thesis using Cons.IH [of "c - 1"] Cons.prems False by (auto simp: Let_def split: prod.splits)
  qed simp
qed simp

lemma send_turns_unbounded:
  "\<forall>s \<in> set ss. s = None \<Longrightarrow>
   sent (fst (send_turns a d (- 1) ss)) = map (Pair d) ss \<and> snd (send_turns a d (- 1) ss) = Running"
  by (induction ss) (auto simp: Let_def count_down_def split: prod.splits)

text \<open>A replier answers each message after it has printed it, and sends nothing else.\<close>

lemma reply_turns_sent:
  "length (sent (fst (reply_turns a d ss rs))) \<le> length (received rs) \<and> (\<forall>x \<in> set (sent (fst (reply_turns a d ss rs))). fst x = d)"
  by (induction a d ss rs rule: reply_turns.induct) (auto split: option.splits prod.splits)

lemma reply_turns_all:
  "\<forall>s \<in> set ss. s = None \<Longrightarrow> length (received rs) \<le> length ss \<Longrightarrow>
   fst (reply_turns a d ss rs) = concat (map (\<lambda>b. [APrint (printMsg (a_format a) b), ASend d None]) (received rs)) \<and>
   snd (reply_turns a d ss rs) = ended {ErrRecvTimeout} (first_error rs)"
  by (induction a d ss rs rule: reply_turns.induct) (auto simp: ended_def split: option.splits prod.splits)

text \<open>With an interval, \<^verbatim>\<open>sendRecvLoop\<close> sends as often as \<^verbatim>\<open>count\<close> says at most; without, exactly one message.\<close>

lemma sr_deadline_sent [simp]: "sent (sr_deadline a) = []" "stdout (sr_deadline a) = []"
  by (simp_all add: sr_deadline_def)

lemma sr_turns_bound:
  "0 \<le> c \<Longrightarrow> c < 2 ^ 63 \<Longrightarrow> length (sent (fst (sr_turns a c ss rs))) \<le> nat c"
proof (induction a c ss rs rule: sr_turns.induct)
  case (2 a c s ss rs)
  show ?case
  proof (cases "c = 0 \<or> s \<noteq> None \<or> a_sendInterval a < 0 \<or> rs = []")
    case True
    with 2 show ?thesis by (auto simp: recvLoop_eq stdout_prints split: option.splits prod.splits)
  next
    case False
    then obtain r el rs1 where rs: "rs = (r, el) # rs1" by (cases rs) auto
    have c: "nat c = Suc (nat (c - 1))" "count_down c = c - 1" using False 2 count_down_pos by auto
    have n: "length (sent (fst (sr_turns a (c - 1) ss rs1))) \<le> nat (c - 1)" using 2 False rs c by (cases r) auto
    show ?thesis using False n c by (cases r) (auto simp: rs Let_def split: prod.splits)
  qed
qed simp

lemma sendRecvLoop_once:
  assumes "a_sendInterval a < 0" "a_count a \<noteq> 0"
  shows "sent (fst (sendRecvLoop a (None # ss) rs)) = [(send_body a, None)]"
  using assms by (simp add: sendRecvLoop_def recvLoop_eq stdout_prints)

section \<open>The TLS policy\<close>

text \<open>The configurations, TLS or DTLS, as the policy sees them.\<close>

fun conf_skip :: "conf \<Rightarrow> bool" where
  "conf_skip (TLSConf c) = t_InsecureSkipVerify c"
| "conf_skip (DTLSConf cs ss) \<longleftrightarrow> WithInsecureSkipVerify True \<in> set cs"

fun conf_roots :: "conf \<Rightarrow> bool" where
  "conf_roots (TLSConf c) = t_RootCAs c"
| "conf_roots (DTLSConf cs ss) \<longleftrightarrow> WithRootCAs True \<in> set cs"

fun conf_cert :: "conf \<Rightarrow> bool" where
  "conf_cert (TLSConf c) = t_Certificates c"
| "conf_cert (DTLSConf cs ss) \<longleftrightarrow> WithCertificates \<in> set ss"

fun conf_auth :: "conf \<Rightarrow> bool" where
  "conf_auth (TLSConf c) \<longleftrightarrow> t_RequireAndVerify c \<and> t_ClientCAs c"
| "conf_auth (DTLSConf cs ss) \<longleftrightarrow> last ss = WithClientAuth True \<and> WithClientCAs \<in> set ss"

definition listen_safe :: "app \<Rightarrow> string \<Rightarrow> conf option \<Rightarrow> bool" where
  "listen_safe a addr c \<longleftrightarrow>
     (if is_tls addr then \<exists>k. c = Some k \<and> is_DTLSConf k = starts_with ''dtls'' addr \<and> conf_cert k \<and> conf_auth k = a_ca a
      else c = None)"

definition dial_safe :: "app \<Rightarrow> string \<Rightarrow> conf option \<Rightarrow> bool" where
  "dial_safe a addr c \<longleftrightarrow>
     (if is_tls addr then \<exists>k. c = Some k \<and> is_DTLSConf k = starts_with ''dtls'' addr \<and> conf_skip k = (a_noVerify a \<and> \<not> a_ca a) \<and>
                              (\<not> conf_skip k \<longrightarrow> conf_roots k)
      else c = None)"

text \<open>The flags that the policy looks at say which options were given.\<close>

definition flags :: "app \<Rightarrow> bool \<times> bool \<times> bool \<times> bool" where
  "flags a = (a_noVerify a, a_ca a, a_clientCA a, a_cert a)"

lemma handle_address_flags: "handle_address n v a = Some r \<Longrightarrow> flags (fst r) = flags a \<and> n \<notin> {''insecure'', ''cacert''}"
  by (auto simp: handle_address_def addBind_def addDial_def addBindIPC_def addDialIPC_def addBindLocal_def addDialLocal_def
      addSub_def flags_def split: if_splits)

lemma handle_timing_flags: "handle_timing w n v a = Some r \<Longrightarrow> flags (fst r) = flags a \<and> n \<notin> {''insecure'', ''cacert''}"
  by (auto simp: handle_timing_def flags_def Let_def split: if_splits option.splits sum.splits)

fun flag_step :: "string \<Rightarrow> bool \<times> bool \<times> bool \<times> bool \<Rightarrow> bool \<times> bool \<times> bool \<times> bool" where
  "flag_step n (v, r, c, t) = (v \<or> n = ''insecure'', r \<or> n = ''cacert'', c \<or> n = ''cacert'', t)"

lemma flag_step_other: "n \<notin> {''insecure'', ''cacert''} \<Longrightarrow> flag_step n f = f"
  by (cases f) simp

lemma handle_output_flags: "handle_output w n v a = Some (a1, None) \<Longrightarrow> flags a1 = flag_step n (flags a)"
  by (auto simp: handle_output_def setFormat_def setSendData_def setSendFile_def setCert_def setKey_def setCaCert_def flags_def Let_def
      split: if_splits option.splits)

lemma handle_flags: "handle w n v a = (a1, None) \<Longrightarrow> flags a1 = flag_step n (flags a)"
proof -
  assume h: "handle w n v a = (a1, None)"
  consider "n \<in> {''verbose'', ''silent''}" | "n \<notin> {''verbose'', ''silent''}" "n \<in> protocols" |
    "n \<notin> {''verbose'', ''silent''}" "n \<notin> protocols" by blast
  then show ?thesis
  proof cases
    case 1
    with h show ?thesis by (auto simp: handle_def flags_def)
  next
    case 2
    then have "n \<notin> {''insecure'', ''cacert''}" by (auto simp: protocols_def)
    moreover from 2 h have "flags a1 = flags a" by (auto simp: handle_def setSocket_def flags_def split: if_splits)
    ultimately show ?thesis by (metis flag_step_other)
  next
    case 3
    with h consider "handle_address n v a = Some (a1, None)" | "handle_timing w n v a = Some (a1, None)" |
      "handle_output w n v a = Some (a1, None)" by (simp add: handle_def split: option.splits)
    then show ?thesis
    proof cases
      case 1
      from handle_address_flags [OF this] show ?thesis by (metis flag_step_other fst_conv)
    next
      case 2
      from handle_timing_flags [OF this] show ?thesis by (metis flag_step_other fst_conv)
    qed (rule handle_output_flags)
  qed
qed

lemma parse_flags: "parse_options w xs a = (a1, None) \<Longrightarrow> flags a1 = fold flag_step (map fst xs) (flags a)"
proof (induction xs arbitrary: a)
  case (Cons x xs)
  obtain n v where x: "x = (n, v)" by (cases x)
  with Cons.prems obtain a2 where h: "handle w n v a = (a2, None)" "parse_options w xs a2 = (a1, None)"
    by (auto split: prod.splits option.splits)
  from handle_flags [OF h(1)] Cons.IH [OF h(2)] show ?case by (simp add: x)
qed simp

lemma fold_flags: "fold flag_step ns (v, r, c, t) = (v \<or> ''insecure'' \<in> set ns, r \<or> ''cacert'' \<in> set ns, c \<or> ''cacert'' \<in> set ns, t)"
  by (induction ns arbitrary: v r c) auto

text \<open>Only the two loops over the addresses listen and dial.\<close>

fun quiet :: "act list \<Rightarrow> bool" where
  "quiet [] = True"
| "quiet (AListen _ _ _ # t) = False"
| "quiet (ADial _ _ _ # t) = False"
| "quiet (_ # t) = quiet t"

lemma quiet_append [simp]: "quiet (t @ u) = (quiet t \<and> quiet u)"
  by (induction t rule: quiet.induct) simp_all

lemma quiet_prints [simp]: "quiet (map (\<lambda>b. APrint (f b)) bs)"
  by (induction bs) simp_all

lemma quiet_send_turns [simp]: "quiet (fst (send_turns a d c ss))"
  by (induction a d c ss rule: send_turns.induct) (auto simp: Let_def split: option.splits prod.splits)

lemma quiet_sr_deadline [simp]: "quiet (sr_deadline a)"
  by (simp add: sr_deadline_def)

lemma quiet_sr_turns [simp]: "quiet (fst (sr_turns a c ss rs))"
  by (induction a c ss rs rule: sr_turns.induct) (auto simp: Let_def recvLoop_eq split: option.splits prod.splits list.splits sum.splits)

lemma quiet_reply_turns [simp]: "quiet (fst (reply_turns a d ss rs))"
  by (induction a d ss rs rule: reply_turns.induct) (auto split: option.splits prod.splits)

lemma quiet_run_main [simp]: "quiet (fst (run_main n a))"
  by (simp add: run_main_def sendLoop_def sendRecvLoop_def replyLoop_def recvLoop_eq Let_def split: option.splits)

lemma quiet_subscribe_all [simp]: "quiet (fst (subscribe_all n bs))"
  by (induction bs) (auto split: option.splits prod.splits)

lemma quiet_run_settle [simp]: "quiet (run_settle a)"
  by (simp add: run_settle_def)

definition policy_ok :: "app \<Rightarrow> bool" where
  "policy_ok a \<longleftrightarrow> a_clientCA a = a_ca a \<and> a_clientAuth a = a_ca a \<and> a_skip a = (a_noVerify a \<and> \<not> a_ca a)"

definition safe_act :: "app \<Rightarrow> act \<Rightarrow> bool" where
  "safe_act a x \<longleftrightarrow> (case x of AListen addr c e \<Rightarrow> listen_safe a addr c | ADial addr c e \<Rightarrow> dial_safe a addr c | _ \<Rightarrow> True)"

lemma quiet_safe: "quiet t \<Longrightarrow> list_all (safe_act a) t"
  by (induction t rule: quiet.induct) (simp_all add: safe_act_def)

lemma conf_listen: "policy_ok a \<Longrightarrow> \<not> (is_tls addr \<and> \<not> a_cert a) \<Longrightarrow> listen_safe a addr (conf_for a addr)"
  by (simp add: policy_ok_def listen_safe_def conf_for_def dtlsConfig_def tlsCfg_def Let_def)

lemma conf_dial: "policy_ok a \<Longrightarrow> \<not> (is_tls addr \<and> \<not> a_ca a \<and> \<not> a_noVerify a) \<Longrightarrow> dial_safe a addr (conf_for a addr)"
  by (cases "a_ca a") (simp_all add: policy_ok_def dial_safe_def conf_for_def dtlsConfig_def tlsCfg_def Let_def)

lemma safe_bind_all: "policy_ok a \<Longrightarrow> list_all (safe_act a) (fst (bind_all a addrs rs))"
  by (induction a addrs rs rule: bind_all.induct) (simp_all add: safe_act_def conf_listen case_prod_beta split: list.splits option.splits)

lemma safe_dial_all: "policy_ok a \<Longrightarrow> list_all (safe_act a) (fst (dial_all a addrs rs))"
  by (induction a addrs rs rule: dial_all.induct) (simp_all add: safe_act_def conf_dial case_prod_beta split: list.splits option.splits)

lemma and_then_all: "list_all P (fst st) \<Longrightarrow> list_all P (fst k) \<Longrightarrow> list_all P (fst (and_then st k))"
  by (simp add: and_then_def split: option.splits)

lemma safe_run_socket: "policy_ok a \<Longrightarrow> list_all (safe_act a) (fst (run_socket w n a))"
  unfolding run_socket_def
  by (intro and_then_all) (simp_all add: safe_bind_all safe_dial_all quiet_safe run_subscribe_def)

text \<open>Where the policy is not met, nothing is sent or printed.\<close>

definition mute :: "act list \<Rightarrow> bool" where
  "mute t \<longleftrightarrow> sent t = [] \<and> stdout t = []"

lemma mute_subscribe_all: "mute (fst (subscribe_all n bs))"
  by (induction bs) (auto simp: mute_def split: option.splits prod.splits)

lemma mute_bind_all: "mute (fst (bind_all a addrs rs))"
  by (induction a addrs rs rule: bind_all.induct) (auto simp: mute_def split: list.splits option.splits prod.splits)

lemma mute_dial_all: "mute (fst (dial_all a addrs rs))"
  by (induction a addrs rs rule: dial_all.induct) (auto simp: mute_def split: list.splits option.splits prod.splits)

lemma bind_all_stops: "addr \<in> set addrs \<Longrightarrow> is_tls addr \<Longrightarrow> \<not> a_cert a \<Longrightarrow> snd (bind_all a addrs rs) \<noteq> None"
  by (induction a addrs rs rule: bind_all.induct) (auto split: list.splits option.splits prod.splits)

lemma dial_all_stops:
  "addr \<in> set addrs \<Longrightarrow> is_tls addr \<Longrightarrow> \<not> a_ca a \<Longrightarrow> \<not> a_noVerify a \<Longrightarrow> snd (dial_all a addrs rs) \<noteq> None"
  by (induction a addrs rs rule: dial_all.induct) (auto split: list.splits option.splits prod.splits)

lemma and_then_mute: "mute (fst st) \<Longrightarrow> snd st \<noteq> None \<or> mute (fst k) \<Longrightarrow> mute (fst (and_then st k))"
  by (auto simp: and_then_def mute_def split: option.splits)

lemma mute_run_socket:
  assumes "(\<exists>addr \<in> set (a_bindAddr a). is_tls addr \<and> \<not> a_cert a) \<or> (\<exists>addr \<in> set (a_dialAddr a). is_tls addr \<and> \<not> a_ca a \<and> \<not> a_noVerify a)"
  shows "mute (fst (run_socket w n a))"
proof -
  let ?main = "and_then (run_settle a, None) (run_main n a)"
  let ?dial = "and_then (dial_all a (a_dialAddr a) (n_dials n)) ?main"
  have "mute (fst (run_subscribe w n a))"
    using mute_subscribe_all by (auto simp: run_subscribe_def mute_def simp del: subscribe_all.simps)
  moreover have "snd (bind_all a (a_bindAddr a) (n_listens n)) \<noteq> None \<or> mute (fst ?dial)"
    using assms bind_all_stops [of _ "a_bindAddr a" a] dial_all_stops [of _ "a_dialAddr a" a] and_then_mute [OF mute_dial_all, of a _ _ ?main] by blast
  ultimately show ?thesis unfolding run_socket_def
    by (intro and_then_mute [OF _ disjI2] and_then_mute [OF mute_bind_all])
qed

text \<open>What \<^verbatim>\<open>Run\<close> has established when it reaches the socket.\<close>

definition given :: "string \<Rightarrow> answers \<Rightarrow> bool" where
  "given opt n \<longleftrightarrow> opt \<in> fst ` set (n_parsed n)"

lemma load_cert_flags: "load_cert n a = (a1, None) \<Longrightarrow>
    a_noVerify a1 = a_noVerify a \<and> a_ca a1 = a_ca a \<and> a_clientCA a1 = a_clientCA a \<and> a_cert a1 = (a_cert a \<or> a_certFile a \<noteq> [])"
  by (auto simp: load_cert_def Let_def split: if_splits option.splits)

lemma tls_policy_ok:
  "a_clientCA a = a_ca a \<Longrightarrow> policy_ok (tls_policy a)" "a_noVerify (tls_policy a) = a_noVerify a" "a_ca (tls_policy a) = a_ca a"
  by (simp_all add: policy_ok_def tls_policy_def)

lemma Run_cases:
  assumes "Run w n Initialize = (a, t, r)"
  obtains (early) "mute t" "quiet t"
  | (socket) "policy_ok a" "a_noVerify a = (given ''insecure'' n)" "a_ca a = (given ''cacert'' n)"
      "(t, r) = cleanup a (run_socket w n a)"
proof (cases "\<exists>a1. parse_args w n Initialize = (a1, None) \<and> (\<exists>a2. load_cert n a1 = (a2, None) \<and> run_checks (tls_policy a2) = None)")
  case True
  then obtain a1 a2 where p: "parse_args w n Initialize = (a1, None)" "load_cert n a1 = (a2, None)" "run_checks (tls_policy a2) = None" by blast
  then have a: "a = tls_policy a2" "(t, r) = cleanup a (run_socket w n a)" using assms by (auto simp: Run_def Let_def)
  from p(1) have "parse_options w (n_parsed n) Initialize = (a1, None)" by (auto simp: parse_args_def split: prod.splits option.splits if_splits)
  from parse_flags [OF this] have f: "a_noVerify a1 = (given ''insecure'' n)" "a_ca a1 = (given ''cacert'' n)"
    "a_clientCA a1 = a_ca a1" by (simp_all add: flags_def fold_flags given_def Initialize_def)
  with load_cert_flags [OF p(2)] have "a_clientCA a2 = a_ca a2" by simp
  from socket [OF _ _ _ a(2)] tls_policy_ok(1) [OF this] load_cert_flags [OF p(2)] f show ?thesis by (simp add: a(1) tls_policy_ok)
next
  case False
  then have "\<exists>b e. cleanup b ([], Returned e) = (t, r)" using assms
    by (simp add: Run_def Let_def split: prod.splits option.splits) blast+
  then have "mute t \<and> quiet t" by (auto simp: cleanup_def mute_def split: if_splits)
  with early show ?thesis by blast
qed

lemma cleanup_acts: "(t, r) = cleanup a k \<Longrightarrow> list_all P (fst k) \<Longrightarrow> P (ASleep 20000000) \<Longrightarrow> P AClose \<Longrightarrow> list_all P t"
  by (cases k) (auto simp: cleanup_def split: if_splits)

lemma cleanup_mute: "(t, r) = cleanup a k \<Longrightarrow> mute (fst k) \<Longrightarrow> mute t"
  by (cases k) (auto simp: cleanup_def mute_def split: if_splits)

lemma Run_safe:
  assumes "Run w n Initialize = (a, t, r)"
  shows "x \<in> set t \<Longrightarrow> \<exists>b. safe_act b x \<and> a_noVerify b = (given ''insecure'' n) \<and> a_ca b = (given ''cacert'' n)"
  using assms
proof (cases rule: Run_cases)
  case early
  assume "x \<in> set t"
  then have "safe_act b x" for b using quiet_safe [OF early(2)] by (simp add: list_all_iff)
  then show ?thesis
    by (intro exI [of _ "Initialize\<lparr>a_noVerify := given ''insecure'' n, a_ca := given ''cacert'' n\<rparr>"]) simp
next
  case socket
  assume "x \<in> set t"
  moreover have "list_all (safe_act a) t" using cleanup_acts [OF socket(4) safe_run_socket [OF socket(1)]] by (simp add: safe_act_def)
  ultimately show ?thesis using socket(2,3) by (auto simp: list_all_iff)
qed

section \<open>Properties\<close>


definition tool_env :: env where
  "tool_env = \<lparr>e_read = (\<lambda>_. (Some [], None)), e_pem = (\<lambda>_. True), e_duration = (\<lambda>_. None), e_int = Atoi, e_bytes = map of_char\<rparr>"

definition tool_answers :: answers where
  "tool_answers =
     \<lparr>n_parsed = [(''push'', []), (''connect'', ''tls+tcp://h:1''), (''bind'', ''dtls://h:2''), (''cert'', ''f''), (''insecure'', []), (''data'', ''x'')],
      n_perr = None, n_extra = [], n_load = (\<lambda>_ _. None), n_setopt = (\<lambda>_ _. None), n_listens = [None], n_dials = [None], n_sends = [None],
      n_recvs = []\<rparr>"

definition refused_answers :: answers where
  "refused_answers = tool_answers\<lparr>n_parsed := [(''push'', []), (''connect'', ''tls+tcp://h:1''), (''data'', ''x'')]\<rparr>"

definition tool_conf :: conf where
  "tool_conf = TLSConf \<lparr>t_RootCAs = False, t_ClientCAs = False, t_Certificates = True, t_RequireAndVerify = False, t_InsecureSkipVerify = True\<rparr>"

definition tool_dtls :: conf where
  "tool_dtls = DTLSConf [WithRootCAs False, WithInsecureSkipVerify True, WithCertificates] [WithClientAuth False, WithCertificates]"

lemma tool_run:
  "snd (Run tool_env tool_answers Initialize) =
     ([AListen ''dtls://h:2'' (Some tool_dtls) None, ADial ''tls+tcp://h:1'' (Some tool_conf) None,
       ASleep 20000000, ASleep (- 1), ASend [120] None, ASleep 20000000, AClose], Returned None)"
  by code_simp

lemma refused_run: "a_dialAddr (fst (Run tool_env refused_answers Initialize)) = [''tls+tcp://h:1'']"
  by code_simp


definition receiver :: "app \<Rightarrow> bool" where
  "receiver a \<longleftrightarrow> a_sock a \<in> {Some ''pull'', Some ''sub''} \<or>
     a_sendData a = None \<and> a_sock a \<in> {Some ''pair'', Some ''star'', Some ''bus'', Some ''rep'', Some ''respondent''}"

definition decoder :: "string \<Rightarrow> bytes \<Rightarrow> (bytes \<times> bytes) option" where
  "decoder fmt = (if fmt = ''quoted'' then unquote [] else unpack)"

lemma run_main_receiver: "receiver a \<Longrightarrow> run_main n a = recvLoop a (map fst (n_recvs n))"
  by (auto simp: receiver_def run_main_def replyLoop_def Let_def)

text \<open>
  C39: The tool as a receiver (PULL, SUB, and PAIR, STAR, BUS, REP, RESPONDENT without data to send). It sends nothing; it prints the messages
  that come in before the first error, and stops there: quietly at a time-out or at the end of a survey, with the
  error otherwise; and its output, in the quoted and in the msgpack format, can be read back: decoding it gives the bodies of the
  messages, all their bytes, in order. Messages of the msgpack format are shorter than \<^verbatim>\<open>2^32\<close> bytes, which its header can hold.
\<close>

theorem macat_receiver_output:
  assumes "receiver a" and "a_format a = ''quoted'' \<or> a_format a = ''msgpack'' \<and> (\<forall>b \<in> set (received (map fst (n_recvs n))). length b < 2 ^ 32)"
    and "run_main n a = (t, r)"
  shows "sent t = [] \<and>
         decode_all (decoder (a_format a)) (length (stdout t)) (stdout t) = Some (received (map fst (n_recvs n))) \<and>
         r = ended {ErrProtoState, ErrRecvTimeout} (first_error (map fst (n_recvs n)))"
proof -
  let ?rs = "map fst (n_recvs n)"
  have t: "t = map (\<lambda>b. APrint (printMsg (a_format a) b)) (received ?rs)" and r: "r = ended {ErrProtoState, ErrRecvTimeout} (first_error ?rs)"
    using assms(3) by (simp_all add: run_main_receiver [OF assms(1)] recvLoop_eq)
  have "stdout t = concat (map (printMsg (a_format a)) (received ?rs))" by (simp add: t stdout_prints)
  with assms(2) have "decode_all (decoder (a_format a)) (length (stdout t)) (stdout t) = Some (received ?rs)"
    using quoted.decode_stream [of "received ?rs"] msgpack.decode_stream [of "received ?rs"] by (auto simp: decoder_def)
  then show ?thesis using r by (simp add: t stdout_prints)
qed

definition quoting_app :: app where
  "quoting_app = Initialize\<lparr>a_sock := Some ''pull'', a_format := ''quoted''\<rparr>"

definition two_received :: answers where
  "two_received = tool_answers\<lparr>n_recvs := [(Inr [65, 10], 0), (Inr [0, 92], 0), (Inl ErrRecvTimeout, 0), (Inr [1], 0)]\<rparr>"

lemma two_received_run:
  "run_main two_received quoting_app =
     ([APrint [65, 92, 110, 10], APrint [92, 120, 48, 48, 92, 92, 10]], Returned None)"
  by code_simp

lemma macat_receiver_output_witness:
  "decode_all (decoder ''quoted'') (length [65, 92, 110, 10, 92, 120, 48, 48, 92, 92, 10 :: byte]) [65, 92, 110, 10, 92, 120, 48, 48, 92, 92, 10] =
     Some [[65, 10], [0, 92]]"
proof -
  have a: "receiver quoting_app" "a_format quoting_app = ''quoted''" by (simp_all add: receiver_def quoting_app_def)
  have rec: "received (map fst (n_recvs two_received)) = [[65, 10], [0, 92]]" by (simp add: two_received_def)
  have out: "stdout [APrint [65, 92, 110, 10], APrint [92, 120, 48, 48, 92, 92, 10]] = [65, 92, 110, 10, 92, 120, 48, 48, 92, 92, 10]" by simp
  show ?thesis using macat_receiver_output [OF a(1) disjI1 two_received_run] by (simp only: a(2) rec out)
qed

end
