(* ===== verification/Message.thy ===== *)
theory Message
  imports Chan
begin

text \<open>
  \<^verbatim>\<open>message.go\<close>: message objects with reference counts, recycled through one pool per body
  size. Objects live in a heap and are named by references; the pool's \<^verbatim>\<open>Get\<close> may hand out
  any pooled object or make a new one, which the argument \<open>k\<close> of the model chooses
  (position \<open>k\<close> of the pool, a new object when there is no such position).
\<close>

section \<open>Objects, pools and operations\<close>

record mobj =
  o_Header :: bytes
  o_Body :: bytes
  o_Pipe :: "u32 option"
  o_bsize :: nat
  o_refcnt :: "32 word"

record mheap =
  objs :: "nat \<rightharpoonup> mobj"
  pools :: "nat \<Rightarrow> nat list"
  fresh :: nat

definition messageCache :: "nat list" where
  "messageCache = [64, 128, 256, 512, 1024, 4096, 8192, 65536]"

definition newMsg :: "nat \<Rightarrow> mheap \<Rightarrow> nat \<times> mheap" where
  "newMsg sz h =
     (fresh h,
      h\<lparr>objs := (objs h)(fresh h \<mapsto>
          \<lparr>o_Header = [], o_Body = [], o_Pipe = None, o_bsize = sz, o_refcnt = 0\<rparr>),
        fresh := Suc (fresh h)\<rparr>)"

definition pool_Get :: "nat \<Rightarrow> nat \<Rightarrow> mheap \<Rightarrow> nat \<times> mheap" where
  "pool_Get i k h =
     (if k < length (pools h i)
      then (pools h i ! k, h\<lparr>pools := (pools h)(i := delete_at k (pools h i))\<rparr>)
      else newMsg (messageCache ! i) h)"

definition pool_Put :: "nat \<Rightarrow> nat \<Rightarrow> mheap \<Rightarrow> mheap" where
  "pool_Put i r h = h\<lparr>pools := (pools h)(i := pools h i @ [r])\<rparr>"

text \<open>\<^verbatim>\<open>for i := range messageCache\<close> with the two tests the code uses.\<close>

definition class_for :: "nat \<Rightarrow> nat option" where
  "class_for sz = find (\<lambda>i. sz < messageCache ! i) [0..<length messageCache]"

definition class_of :: "nat \<Rightarrow> nat option" where
  "class_of bsize = find (\<lambda>i. bsize = messageCache ! i) [0..<length messageCache]"

definition upd_obj :: "nat \<Rightarrow> (mobj \<Rightarrow> mobj) \<Rightarrow> mheap \<Rightarrow> mheap" where
  "upd_obj r f h = h\<lparr>objs := (objs h)(r := map_option f (objs h r))\<rparr>"

definition NewMessage :: "nat \<Rightarrow> nat \<Rightarrow> mheap \<Rightarrow> nat \<times> mheap" where
  "NewMessage sz k h =
     (let (r, h1) = (case class_for sz of Some i \<Rightarrow> pool_Get i k h | None \<Rightarrow> newMsg sz h)
      in (r, upd_obj r (\<lambda>x. x\<lparr>o_Body := [], o_Header := [], o_refcnt := 1\<rparr>) h1))"

definition Message_Free :: "nat option \<Rightarrow> mheap \<Rightarrow> mheap" where
  "Message_Free m h =
     (case m of None \<Rightarrow> h
      | Some r \<Rightarrow>
          (case objs h r of None \<Rightarrow> h
           | Some x \<Rightarrow>
               (let h1 = upd_obj r (\<lambda>x. x\<lparr>o_refcnt := o_refcnt x - 1\<rparr>) h
                in if o_refcnt x - 1 = 0
                   then (case class_of (o_bsize x) of Some i \<Rightarrow> pool_Put i r h1 | None \<Rightarrow> h1)
                   else h1)))"

definition Message_Clone :: "nat \<Rightarrow> mheap \<Rightarrow> mheap" where
  "Message_Clone r h = upd_obj r (\<lambda>x. x\<lparr>o_refcnt := o_refcnt x + 1\<rparr>) h"

definition Message_Dup :: "nat \<Rightarrow> nat \<Rightarrow> mheap \<Rightarrow> nat \<times> mheap" where
  "Message_Dup r k h =
     (case objs h r of None \<Rightarrow> (r, h)
      | Some x \<Rightarrow>
          (let (d, h1) = NewMessage (length (o_Body x)) k h
           in (d, upd_obj d (\<lambda>y. y\<lparr>o_Body := o_Body y @ o_Body x, o_Header := o_Header y @ o_Header x,
                                     o_Pipe := o_Pipe x\<rparr>) h1)))"

definition MakeUnique :: "nat \<Rightarrow> nat \<Rightarrow> mheap \<Rightarrow> nat \<times> mheap" where
  "MakeUnique r k h =
     (if map_option o_refcnt (objs h r) = Some 1 then (r, h)
      else (let (d, h1) = Message_Dup r k h in (d, Message_Free (Some r) h1)))"

section \<open>Well-formed heaps\<close>

text \<open>
  A message is live while its count is not zero. A pooled object is not live, is pooled once,
  and in the pool of its own size.
\<close>

definition live :: "mheap \<Rightarrow> nat \<Rightarrow> bool" where
  "live h r \<longleftrightarrow> (\<exists>x. objs h r = Some x \<and> o_refcnt x \<noteq> 0)"

definition pool_ok :: "mheap \<Rightarrow> nat \<Rightarrow> bool" where
  "pool_ok h i \<longleftrightarrow> distinct (pools h i) \<and>
     (\<forall>r\<in>set (pools h i). \<exists>x. objs h r = Some x \<and> o_refcnt x = 0 \<and> class_of (o_bsize x) = Some i)"

definition mheap_ok :: "mheap \<Rightarrow> bool" where
  "mheap_ok h \<longleftrightarrow> (\<forall>i. pool_ok h i) \<and> (\<forall>r. objs h r \<noteq> None \<longrightarrow> r < fresh h)"

lemma mheap_okD:
  assumes "mheap_ok h"
  shows "distinct (pools h i)" "r \<in> set (pools h i) \<Longrightarrow> \<not> live h r"
    "r \<in> set (pools h i) \<Longrightarrow> \<exists>x. objs h r = Some x \<and> o_refcnt x = 0 \<and> class_of (o_bsize x) = Some i"
    "objs h (fresh h) = None" "fresh h \<notin> set (pools h i)"
  using assms by (fastforce simp: mheap_ok_def pool_ok_def live_def)+

lemma class_of_nth: "i < length messageCache \<Longrightarrow> class_of (messageCache ! i) = Some i"
proof -
  assume "i < length messageCache"
  then have "i \<in> {0, 1, 2, 3, 4, 5, 6, 7}" by (auto simp: messageCache_def)
  then show ?thesis by (auto simp: class_of_def messageCache_def upt_conv_Cons)
qed

lemma class_forD: "class_for sz = Some i \<Longrightarrow> i < length messageCache \<and> sz < messageCache ! i"
  by (auto simp: class_for_def find_Some_iff)

lemma class_ofD: "class_of n = Some i \<Longrightarrow> i < length messageCache \<and> messageCache ! i = n"
  by (auto simp: class_of_def find_Some_iff)

lemma upd_obj_other [simp]: "s \<noteq> r \<Longrightarrow> objs (upd_obj r f h) s = objs h s"
  by (simp add: upd_obj_def)

lemma upd_obj_same [simp]: "objs (upd_obj r f h) r = map_option f (objs h r)"
  by (simp add: upd_obj_def)

lemma upd_obj_frame [simp]: "pools (upd_obj r f h) = pools h" "fresh (upd_obj r f h) = fresh h"
  by (simp_all add: upd_obj_def)

lemma mheap_ok_upd:
  assumes "mheap_ok h" and "\<And>i. r \<notin> set (pools h i)"
  shows "mheap_ok (upd_obj r f h)"
proof -
  have "pool_ok (upd_obj r f h) i" for i
    using assms by (auto simp: mheap_ok_def pool_ok_def upd_obj_def)
  then show ?thesis using assms(1) by (auto simp: mheap_ok_def upd_obj_def split: if_splits)
qed

lemma live_not_pooled: "mheap_ok h \<Longrightarrow> live h r \<Longrightarrow> r \<notin> set (pools h i)"
  using mheap_okD(2) by blast

lemma newMsg_ok: "mheap_ok h \<Longrightarrow> mheap_ok (snd (newMsg sz h))"
  by (fastforce simp: newMsg_def mheap_ok_def pool_ok_def)

text \<open>What \<^verbatim>\<open>pool.Get\<close> hands out: an object nobody holds, of the pool's body size.\<close>

lemma set_delete_at: "set (delete_at k xs) \<subseteq> set xs"
  by (auto simp: delete_at_def dest: in_set_takeD in_set_dropD)

lemma delete_at_distinct:
  "distinct xs \<Longrightarrow> k < length xs \<Longrightarrow> distinct (delete_at k xs) \<and> xs ! k \<notin> set (delete_at k xs)"
proof -
  assume d: "distinct xs" and k: "k < length xs"
  have "distinct (take k xs @ xs ! k # drop (Suc k) xs)"
    using d k by (simp add: id_take_nth_drop [symmetric])
  then show ?thesis by (auto simp: delete_at_def)
qed

definition fetched :: "mheap \<Rightarrow> nat \<Rightarrow> nat \<Rightarrow> mheap \<Rightarrow> bool" where
  "fetched h sz r h1 \<longleftrightarrow> mheap_ok h1 \<and> \<not> live h r \<and> (\<forall>i. r \<notin> set (pools h1 i)) \<and>
     (\<forall>s. s \<noteq> r \<longrightarrow> objs h1 s = objs h s) \<and> (\<exists>x. objs h1 r = Some x \<and> sz \<le> o_bsize x)"

lemma newMsg_fetched:
  assumes "mheap_ok h"
  shows "fetched h sz (fst (newMsg sz h)) (snd (newMsg sz h))"
  using newMsg_ok [OF assms, of sz] mheap_okD(4,5) [OF assms]
  by (simp add: fetched_def newMsg_def live_def)

lemma pool_Get_fetched:
  assumes ok: "mheap_ok h" and i: "i < length messageCache"
  shows "fetched h (messageCache ! i) (fst (pool_Get i k h)) (snd (pool_Get i k h))"
proof (cases "k < length (pools h i)")
  case False
  then show ?thesis using newMsg_fetched [OF ok] by (simp add: pool_Get_def)
next
  case True
  let ?r = "pools h i ! k"
  let ?h = "h\<lparr>pools := (pools h)(i := delete_at k (pools h i))\<rparr>"
  have mem: "?r \<in> set (pools h i)" using True by simp
  then obtain x where x: "objs h ?r = Some x" "o_refcnt x = 0" "class_of (o_bsize x) = Some i"
    using mheap_okD(3) [OF ok] by blast
  have dd: "distinct (delete_at k (pools h i))" "?r \<notin> set (delete_at k (pools h i))"
    using delete_at_distinct [OF mheap_okD(1) [OF ok] True] by auto
  have "?r \<notin> set (pools h j)" if "j \<noteq> i" for j
    using mheap_okD(3) [OF ok, of ?r j] x that by auto
  then have nin: "?r \<notin> set (pools ?h j)" for j
    using dd(2) by (cases "j = i") auto
  have "pool_ok ?h j" for j
    using ok dd(1) set_delete_at [of k "pools h i"]
    by (auto simp: mheap_ok_def pool_ok_def subset_iff)
  then have "mheap_ok ?h" using ok by (simp add: mheap_ok_def)
  then show ?thesis
    using True x nin class_ofD [OF x(3)] by (simp add: pool_Get_def fetched_def live_def)
qed

lemma NewMessage_fetched:
  assumes "mheap_ok h"
  obtains h1 where "fetched h sz (fst (NewMessage sz k h)) h1"
    "snd (NewMessage sz k h) =
       upd_obj (fst (NewMessage sz k h)) (\<lambda>x. x\<lparr>o_Body := [], o_Header := [], o_refcnt := 1\<rparr>) h1"
proof (cases "class_for sz")
  case None
  show ?thesis
    by (rule that [of "snd (newMsg sz h)"])
       (use None newMsg_fetched [OF assms, of sz] in \<open>simp_all add: NewMessage_def split_beta\<close>)
next
  case (Some i)
  have "fetched h sz (fst (pool_Get i k h)) (snd (pool_Get i k h))"
    using pool_Get_fetched [OF assms, of i k] class_forD [OF Some] by (force simp: fetched_def)
  then show ?thesis
    by (intro that [of "snd (pool_Get i k h)"])
       (use Some in \<open>simp_all add: NewMessage_def split_beta\<close>)
qed


lemma NewMessage_props:
  assumes "mheap_ok h" and "NewMessage sz k h = (r, h')"
  shows "\<not> live h r" "mheap_ok h'" "\<And>i. r \<notin> set (pools h' i)"
    "\<And>s. s \<noteq> r \<Longrightarrow> objs h' s = objs h s"
    "\<exists>x. objs h' r = Some x \<and> o_Body x = [] \<and> o_Header x = [] \<and> o_refcnt x = 1 \<and> sz \<le> o_bsize x"
proof -
  obtain h1 where f: "fetched h sz r h1"
    and h': "h' = upd_obj r (\<lambda>x. x\<lparr>o_Body := [], o_Header := [], o_refcnt := 1\<rparr>) h1"
    using NewMessage_fetched [OF assms(1), of sz k] assms(2) by auto
  show "\<not> live h r" using f by (simp add: fetched_def)
  show "mheap_ok h'" unfolding h' by (rule mheap_ok_upd) (use f in \<open>auto simp: fetched_def\<close>)
  show "\<And>i. r \<notin> set (pools h' i)" using f by (simp add: h' fetched_def)
  show "\<And>s. s \<noteq> r \<Longrightarrow> objs h' s = objs h s" using f by (simp add: h' fetched_def)
  show "\<exists>x. objs h' r = Some x \<and> o_Body x = [] \<and> o_Header x = [] \<and> o_refcnt x = 1 \<and> sz \<le> o_bsize x"
    using f by (auto simp: h' fetched_def)
qed

lemma Dup_props:
  assumes ok: "mheap_ok h" and x: "objs h r = Some x" "o_refcnt x \<noteq> 0"
    and dup: "Message_Dup r k h = (d, h')"
  shows "d \<noteq> r" "\<not> live h d" "mheap_ok h'" "\<And>s. s \<noteq> d \<Longrightarrow> objs h' s = objs h s"
    "\<exists>y. objs h' d = Some y \<and> o_Body y = o_Body x \<and> o_Header y = o_Header x \<and> o_Pipe y = o_Pipe x \<and>
         o_refcnt y = 1 \<and> length (o_Body x) \<le> o_bsize y"
proof -
  obtain h1 where n: "NewMessage (length (o_Body x)) k h = (d, h1)"
    and h': "h' = upd_obj d (\<lambda>y. y\<lparr>o_Body := o_Body y @ o_Body x, o_Header := o_Header y @ o_Header x,
                                     o_Pipe := o_Pipe x\<rparr>) h1"
    using dup x by (auto simp: Message_Dup_def Let_def split: prod.splits)
  note np = NewMessage_props [OF ok n]
  show "\<not> live h d" by (rule np(1))
  then show "d \<noteq> r" using x by (auto simp: live_def)
  show "mheap_ok h'" unfolding h' by (rule mheap_ok_upd) (use np in auto)
  show "\<And>s. s \<noteq> d \<Longrightarrow> objs h' s = objs h s" using np(4) by (simp add: h')
  show "\<exists>y. objs h' d = Some y \<and> o_Body y = o_Body x \<and> o_Header y = o_Header x \<and> o_Pipe y = o_Pipe x \<and>
         o_refcnt y = 1 \<and> length (o_Body x) \<le> o_bsize y"
    using np(5) by (auto simp: h')
qed

lemma Free_nil [simp]: "Message_Free None h = h"
  by (simp add: Message_Free_def)

lemma Free_objs:
  "objs h r = Some x \<Longrightarrow>
   objs (Message_Free (Some r) h) = (objs h)(r \<mapsto> x\<lparr>o_refcnt := o_refcnt x - 1\<rparr>)"
  by (auto simp: Message_Free_def Let_def upd_obj_def pool_Put_def split: option.splits)

lemma Free_ok:
  assumes ok: "mheap_ok h" and live: "live h r"
  shows "mheap_ok (Message_Free (Some r) h)"
proof -
  obtain x where x: "objs h r = Some x" "o_refcnt x \<noteq> 0" using live by (auto simp: live_def)
  let ?h1 = "upd_obj r (\<lambda>x. x\<lparr>o_refcnt := o_refcnt x - 1\<rparr>) h"
  have np: "r \<notin> set (pools h i)" for i by (rule live_not_pooled [OF ok live])
  have ok1: "mheap_ok ?h1" by (rule mheap_ok_upd [OF ok np])
  have "mheap_ok (pool_Put i r ?h1)" if "class_of (o_bsize x) = Some i" "o_refcnt x - 1 = 0" for i
    using ok1 np x that by (auto simp: mheap_ok_def pool_ok_def pool_Put_def)
  with ok1 x show ?thesis by (auto simp: Message_Free_def Let_def split: option.splits)
qed

lemma Clone_ok: "mheap_ok h \<Longrightarrow> live h r \<Longrightarrow> mheap_ok (Message_Clone r h)"
  unfolding Message_Clone_def by (rule mheap_ok_upd) (auto dest: live_not_pooled)

section \<open>Runs of message operations\<close>

text \<open>
  What the rest of the program does with messages: allocate, clone and free a message it
  holds, duplicate one, and write the header and body of one.
\<close>

inductive msg_step :: "mheap \<Rightarrow> mheap \<Rightarrow> bool" where
  ms_new: "NewMessage sz k h = (r, h') \<Longrightarrow> msg_step h h'"
| ms_clone: "live h r \<Longrightarrow> msg_step h (Message_Clone r h)"
| ms_free: "live h r \<Longrightarrow> msg_step h (Message_Free (Some r) h)"
| ms_free_nil: "msg_step h (Message_Free None h)"
| ms_dup: "live h r \<Longrightarrow> Message_Dup r k h = (d, h') \<Longrightarrow> msg_step h h'"
| ms_write: "live h r \<Longrightarrow> msg_step h (upd_obj r (\<lambda>x. x\<lparr>o_Header := hdr, o_Body := bdy\<rparr>) h)"

definition init_heap :: mheap where
  "init_heap = \<lparr>objs = Map.empty, pools = (\<lambda>_. []), fresh = 0\<rparr>"

interpretation msgs: machine "\<lambda>h. h = init_heap" msg_step mheap_ok
proof unfold_locales
  show "mheap_ok h" if "h = init_heap" for h
    using that by (simp add: init_heap_def mheap_ok_def pool_ok_def)
  show "mheap_ok h'" if "mheap_ok h" "msg_step h h'" for h h'
    using that(2,1)
  proof cases
    case ms_new
    then show ?thesis using that(1) NewMessage_props(2) by blast
  next
    case (ms_dup r k d)
    then show ?thesis using that(1) Dup_props(3) by (auto simp: live_def)
  next
    case ms_write
    then show ?thesis using that(1) by (auto intro: mheap_ok_upd dest: live_not_pooled)
  qed (auto intro: Clone_ok Free_ok simp: that(1))
qed

section \<open>Properties\<close>

text \<open>
  C7: However messages are allocated, cloned, freed and duplicated, \<^verbatim>\<open>NewMessage\<close> never hands
  out a message that somebody still holds a reference to: what it returns had count zero,
  comes back empty with count one and room for the requested body, and no other message of
  the heap changes.
\<close>

theorem NewMessage_never_aliases:
  assumes "msg_step\<^sup>*\<^sup>* init_heap h" and "NewMessage sz k h = (r, h')"
  shows "\<not> live h r \<and> (\<forall>s. s \<noteq> r \<longrightarrow> objs h' s = objs h s) \<and>
    (\<exists>x. objs h' r = Some x \<and> o_Body x = [] \<and> o_Header x = [] \<and> o_refcnt x = 1 \<and> sz \<le> o_bsize x)"
proof -
  have "mheap_ok h" using msgs.reachable_inv [OF refl assms(1)] .
  then show ?thesis using NewMessage_props [OF _ assms(2)] by blast
qed

theorem NewMessage_never_aliases_witness:
  "\<not> live init_heap 0 \<and> objs (snd (NewMessage 100 0 init_heap)) 0 \<noteq> None"
proof -
  have st: "msg_step\<^sup>*\<^sup>* init_heap init_heap" by simp
  have n: "NewMessage 100 0 init_heap = (0, snd (NewMessage 100 0 init_heap))"
    by (simp add: NewMessage_def class_for_def messageCache_def pool_Get_def newMsg_def
        init_heap_def Let_def upt_conv_Cons)
  show ?thesis using NewMessage_never_aliases [OF st n] by auto
qed

text \<open>
  \<^verbatim>\<open>MakeUnique\<close> gives its caller a message with the same header, body and pipe whose count
  is one: the message itself when it was not shared, otherwise a copy that nobody held before,
  with the count of the shared original lowered by one and its contents untouched.
\<close>

theorem MakeUnique_owns_copy:
  assumes ok: "mheap_ok h" and x: "objs h r = Some x" "o_refcnt x \<noteq> 0"
    and mu: "MakeUnique r k h = (d, h')"
  shows "mheap_ok h' \<and>
    (\<exists>y. objs h' d = Some y \<and> o_refcnt y = 1 \<and> o_Body y = o_Body x \<and> o_Header y = o_Header x \<and>
         o_Pipe y = o_Pipe x) \<and>
    (if o_refcnt x = 1 then d = r \<and> h' = h
     else d \<noteq> r \<and> \<not> live h d \<and> objs h' r = Some (x\<lparr>o_refcnt := o_refcnt x - 1\<rparr>))"
proof (cases "o_refcnt x = 1")
  case True
  then show ?thesis using mu ok x by (auto simp: MakeUnique_def)
next
  case False
  then obtain h1 where d: "Message_Dup r k h = (d, h1)" and h': "h' = Message_Free (Some r) h1"
    using mu x by (auto simp: MakeUnique_def Let_def split: prod.splits)
  note dp = Dup_props [OF ok x d]
  have r1: "objs h1 r = Some x" using dp(1,4) x by simp
  then have "mheap_ok h'" using Free_ok [OF dp(3), of r] x by (simp add: h' live_def)
  then show ?thesis using False dp(1,2,5) r1 by (auto simp: h' Free_objs)
qed

definition shared_heap :: mheap where
  "shared_heap = \<lparr>objs = [0 \<mapsto> \<lparr>o_Header = [1], o_Body = [2, 3], o_Pipe = None, o_bsize = 64, o_refcnt = 2\<rparr>],
     pools = (\<lambda>_. []), fresh = 1\<rparr>"

theorem MakeUnique_owns_copy_witness:
  "mheap_ok shared_heap \<and> fst (MakeUnique 0 0 shared_heap) \<noteq> 0"
proof -
  let ?x = "\<lparr>o_Header = [1], o_Body = [2, 3], o_Pipe = None, o_bsize = 64, o_refcnt = 2\<rparr>"
  have ok: "mheap_ok shared_heap" by (simp add: shared_heap_def mheap_ok_def pool_ok_def)
  have o: "objs shared_heap 0 = Some ?x" by (simp add: shared_heap_def)
  have c: "o_refcnt ?x \<noteq> 0" by simp
  obtain d h' where mu: "MakeUnique 0 0 shared_heap = (d, h')" by fastforce
  show ?thesis using MakeUnique_owns_copy [OF ok o c mu] ok mu by simp
qed

end
