(* ===== verification/Conn.thy ===== *)
theory Conn
  imports Message
begin

text \<open>
  The stream transports' wire format, \<^verbatim>\<open>transport/conn.go\<close>, \<^verbatim>\<open>transport/connipc.go\<close> and
  \<^verbatim>\<open>transport/connipc_posix.go\<close>. A \<^verbatim>\<open>net.Conn\<close> is the list of chunks that its reads will return
  (a read returns at most one chunk; when there is none left it fails), the bytes written so far
  and, where the peer stops taking data, how many more it accepts. Errors of the Go library are
  values of \<open>ErrExternal\<close>. Message objects are those of the \<^verbatim>\<open>message.go\<close> heap; memory is not exhausted.
\<close>

section \<open>Connections\<close>

record conn =
  rx :: "bytes list"
  tx :: bytes
  room :: "nat option"
  hung_up :: bool
  proto_Self :: u16
  proto_Peer :: u16
  c_open :: bool
  c_shut :: bool
  options :: "string \<rightharpoonup> optval"
  maxrx :: int

abbreviation EOF :: err where "EOF \<equiv> ErrExternal 0"
abbreviation ErrUnexpectedEOF :: err where "ErrUnexpectedEOF \<equiv> ErrExternal 1"
abbreviation ErrNetClosed :: err where "ErrNetClosed \<equiv> ErrExternal 2"
abbreviation ErrWrite :: err where "ErrWrite \<equiv> ErrExternal 3"

text \<open>\<^verbatim>\<open>io.ReadFull\<close>: read chunk after chunk until \<open>n\<close> bytes are there.\<close>

fun read_full :: "nat \<Rightarrow> bytes list \<Rightarrow> (err + bytes) \<times> bytes list" where
  "read_full 0 cs = (Inr [], cs)"
| "read_full (Suc n) [] = (Inl EOF, [])"
| "read_full (Suc n) (c # cs) =
     (if length c \<le> Suc n
      then (case read_full (Suc n - length c) cs of
              (Inr bs, r) \<Rightarrow> (Inr (c @ bs), r)
            | (Inl e, r) \<Rightarrow> (Inl (if c = [] then e else ErrUnexpectedEOF), r))
      else (Inr (take (Suc n) c), drop (Suc n) c # cs))"

definition conn_read :: "nat \<Rightarrow> conn \<Rightarrow> (err + bytes) \<times> conn" where
  "conn_read n p =
     (if hung_up p \<and> n > 0 then (Inl ErrNetClosed, p)
      else (let (r, cs) = read_full n (rx p) in (r, p\<lparr>rx := cs\<rparr>)))"

definition conn_write :: "bytes \<Rightarrow> conn \<Rightarrow> status \<times> conn" where
  "conn_write bs p =
     (if hung_up p then (Some ErrNetClosed, p)
      else
        case room p of
          None \<Rightarrow> (None, p\<lparr>tx := tx p @ bs\<rparr>)
        | Some n \<Rightarrow>
            if length bs \<le> n then (None, p\<lparr>tx := tx p @ bs, room := Some (n - length bs)\<rparr>)
            else (Some ErrWrite, p\<lparr>tx := tx p @ take n bs, room := Some 0\<rparr>))"

definition int64 :: "bytes \<Rightarrow> int" where
  "int64 bs = sint (of_nat (be_dec bs) :: 64 word)"

definition content :: "mheap \<Rightarrow> nat \<Rightarrow> bytes" where
  "content h r = (case objs h r of Some x \<Rightarrow> o_Header x @ o_Body x | None \<Rightarrow> [])"

section \<open>Send and Recv\<close>

text \<open>The part of \<^verbatim>\<open>Recv\<close> after the size has been read; \<open>k\<close> is the choice of the message pool.\<close>

definition recv_body :: "int \<Rightarrow> nat \<Rightarrow> conn \<Rightarrow> mheap \<Rightarrow> (err + nat) \<times> conn \<times> mheap" where
  "recv_body sz k p h =
     (if sz < 0 \<or> (maxrx p > 0 \<and> sz > maxrx p) then (Inl ErrTooLong, p, h)
      else
        (let (r, h1) = NewMessage (nat sz) k h
         in case conn_read (nat sz) p of
              (Inl e, p1) \<Rightarrow> (Inl e, p1, Message_Free (Some r) h1)
            | (Inr bs, p1) \<Rightarrow> (Inr r, p1, upd_obj r (\<lambda>x. x\<lparr>o_Body := bs\<rparr>) h1)))"

definition conn_Recv :: "nat \<Rightarrow> conn \<Rightarrow> mheap \<Rightarrow> (err + nat) \<times> conn \<times> mheap" where
  "conn_Recv k p h =
     (case conn_read 8 p of
        (Inl e, p1) \<Rightarrow> (Inl e, p1, h)
      | (Inr b, p1) \<Rightarrow> recv_body (int64 b) k p1 h)"

definition conn_Send :: "nat \<Rightarrow> conn \<Rightarrow> mheap \<Rightarrow> status \<times> conn \<times> mheap" where
  "conn_Send m p h =
     (let lbyte = be_enc 8 (length (content h m))
      in case conn_write (lbyte @ content h m) p of
           (Some e, p1) \<Rightarrow> (Some e, p1, h)
         | (None, p1) \<Rightarrow> (None, p1, Message_Free (Some m) h))"

text \<open>The IPC variant puts a byte 1 in front; the receiver reads it and ignores its value.\<close>

definition connipc_Recv :: "nat \<Rightarrow> conn \<Rightarrow> mheap \<Rightarrow> (err + nat) \<times> conn \<times> mheap" where
  "connipc_Recv k p h =
     (case conn_read 1 p of
        (Inl e, p1) \<Rightarrow> (Inl e, p1, h)
      | (Inr one, p1) \<Rightarrow>
          (case conn_read 8 p1 of
             (Inl e, p2) \<Rightarrow> (Inl e, p2, h)
           | (Inr b, p2) \<Rightarrow> recv_body (int64 b) k p2 h))"

definition connipc_Send :: "nat \<Rightarrow> conn \<Rightarrow> mheap \<Rightarrow> status \<times> conn \<times> mheap" where
  "connipc_Send m p h =
     (let lbyte = 1 # be_enc 8 (length (content h m))
      in case conn_write (lbyte @ content h m) p of
           (Some e, p1) \<Rightarrow> (Some e, p1, h)
         | (None, p1) \<Rightarrow> (None, p1, Message_Free (Some m) h))"

text \<open>The Windows variant writes one contiguous buffer; its \<^verbatim>\<open>Recv\<close> repeats the other's code.\<close>

definition winipc_Recv :: "nat \<Rightarrow> conn \<Rightarrow> mheap \<Rightarrow> (err + nat) \<times> conn \<times> mheap" where
  "winipc_Recv k p h =
     (case conn_read 1 p of
        (Inl e, p1) \<Rightarrow> (Inl e, p1, h)
      | (Inr one, p1) \<Rightarrow>
          (case conn_read 8 p1 of
             (Inl e, p2) \<Rightarrow> (Inl e, p2, h)
           | (Inr b, p2) \<Rightarrow> recv_body (int64 b) k p2 h))"

definition winipc_Send :: "nat \<Rightarrow> conn \<Rightarrow> mheap \<Rightarrow> status \<times> conn \<times> mheap" where
  "winipc_Send m p h =
     (let buf = [1] @ be_enc 8 (length (content h m)) @ content h m
      in case conn_write buf p of
           (Some e, p1) \<Rightarrow> (Some e, p1, h)
         | (None, p1) \<Rightarrow> (None, p1, Message_Free (Some m) h))"

lemma winipc_eq: "winipc_Send = connipc_Send" "winipc_Recv = connipc_Recv"
  by (simp_all add: fun_eq_iff winipc_Send_def winipc_Recv_def connipc_Send_def connipc_Recv_def)

section \<open>Closing, options, construction\<close>

definition conn_Close :: "conn \<Rightarrow> conn" where
  "conn_Close p = (if c_shut p then p else p\<lparr>c_shut := True, c_open := False, hung_up := True\<rparr>)"

definition conn_GetOption :: "string \<Rightarrow> conn \<Rightarrow> err + optval" where
  "conn_GetOption n p =
     (if n = OptionMaxRecvSize then Inr (VInt (maxrx p))
      else case options p n of Some v \<Rightarrow> Inr v | None \<Rightarrow> Inl ErrBadProperty)"

text \<open>\<open>None\<close>: the type assertion \<^verbatim>\<open>v.(int)\<close> panics.\<close>

definition conn_SetOption :: "string \<Rightarrow> optval \<Rightarrow> conn \<Rightarrow> conn option" where
  "conn_SetOption n v p =
     (if n = OptionMaxRecvSize
      then map_option (\<lambda>i. p\<lparr>maxrx := i, options := (options p)(n \<mapsto> v)\<rparr>) (asInt v)
      else Some (p\<lparr>options := (options p)(n \<mapsto> v)\<rparr>))"

definition NewConnPipe :: "bytes list \<Rightarrow> nat option \<Rightarrow> optval \<Rightarrow> optval \<Rightarrow> u16 \<Rightarrow> u16 \<Rightarrow> conn" where
  "NewConnPipe cs n laddr raddr self peer =
     \<lparr>rx = cs, tx = [], room = n, hung_up = False, proto_Self = self, proto_Peer = peer, c_open = False,
      c_shut = False, options = [OptionMaxRecvSize \<mapsto> VInt 0, OptionLocalAddr \<mapsto> laddr, OptionRemoteAddr \<mapsto> raddr],
      maxrx = 0\<rparr>"

section \<open>Handshake\<close>

definition Uint16 :: "bytes \<Rightarrow> u16" where
  "Uint16 bs = of_nat (be_dec bs)"

text \<open>\<^verbatim>\<open>connHeader\<close> in network byte order: zero, S, P, version, protocol, reserved.\<close>

definition connHeader :: "u16 \<Rightarrow> bytes" where
  "connHeader self = [0, 83, 80, 0] @ be_enc 2 (unat self) @ be_enc 2 0"

definition hang_up :: "conn \<Rightarrow> conn" where
  "hang_up p = p\<lparr>hung_up := True\<rparr>"

text \<open>
  \<^verbatim>\<open>handshake\<close>: write our header, read the peer's and judge it. \<open>closed_meanwhile\<close>: another goroutine
  closed the pipe while the header was under way.
\<close>

definition conn_handshake :: "bool \<Rightarrow> conn \<Rightarrow> status \<times> conn" where
  "conn_handshake closed_meanwhile p =
     (case conn_write (connHeader (proto_Self p)) p of
        (Some e, p1) \<Rightarrow> (Some e, p1)
      | (None, p1) \<Rightarrow>
          (case conn_read 8 p1 of
             (Inl e, p2) \<Rightarrow> (Some e, hang_up p2)
           | (Inr h, p2) \<Rightarrow>
               if h ! 0 \<noteq> 0 \<or> h ! 1 \<noteq> 83 \<or> h ! 2 \<noteq> 80 \<or> Uint16 (take 2 (drop 6 h)) \<noteq> 0
               then (Some ErrBadHeader, hang_up p2)
               else if h ! 3 \<noteq> 0 then (Some ErrBadVersion, hang_up p2)
               else if Uint16 (take 2 (drop 4 h)) \<noteq> proto_Peer p2 then (Some ErrBadProto, hang_up p2)
               else (let p3 = (if closed_meanwhile then conn_Close p2 else p2)
                     in if c_shut p3 then (Some ErrClosed, p3) else (None, p3\<lparr>c_open := True\<rparr>))))"

section \<open>Reading and writing\<close>

lemma be_enc_numeral: "be_enc (numeral k) n = be_enc (pred_numeral k) (n div 256) @ [of_nat n]"
  by (simp only: numeral_eq_Suc be_enc.simps)

lemma read_full_Cons:
  "0 < n \<Longrightarrow> read_full n (c # cs) =
     (if length c \<le> n
      then (case read_full (n - length c) cs of
              (Inr bs, r) \<Rightarrow> (Inr (c @ bs), r)
            | (Inl e, r) \<Rightarrow> (Inl (if c = [] then e else ErrUnexpectedEOF), r))
      else (Inr (take n c), drop n c # cs))"
  by (cases n) simp_all

lemma read_full_eq:
  "n \<le> length (concat cs) \<Longrightarrow>
     \<exists>r. read_full n cs = (Inr (take n (concat cs)), r) \<and> concat r = drop n (concat cs)"
  "length (concat cs) < n \<Longrightarrow>
     read_full n cs = (Inl (if concat cs = [] then EOF else ErrUnexpectedEOF), [])"
proof (induction n cs rule: read_full.induct)
  case (3 n c cs)
  { case 1
    show ?case
    proof (cases "length c \<le> Suc n")
      case True
      then have "Suc n - length c \<le> length (concat cs)" using 1 by simp
      from "3.IH"(1) [OF True this] obtain r where
          "read_full (Suc n - length c) cs = (Inr (take (Suc n - length c) (concat cs)), r)"
          "concat r = drop (Suc n - length c) (concat cs)" by blast
      then show ?thesis using True by simp
    qed simp
  next
    case 2
    then have "length c \<le> Suc n" by simp
    then show ?case using "3.IH"(2) 2 by auto
  }
qed simp_all

lemma conn_read_ok:
  assumes "\<not> hung_up p" and "concat (rx p) = b @ rest" and "n = length b"
  obtains cs where "conn_read n p = (Inr b, p\<lparr>rx := cs\<rparr>)" "concat cs = rest"
  using read_full_eq(1) [of n "rx p"] assms that by (auto simp: conn_read_def)

lemma conn_read_short:
  assumes "length (concat (rx p)) < n"
  shows "\<exists>e p'. conn_read n p = (Inl e, p')"
  using read_full_eq(2) [OF assms] by (simp add: conn_read_def)

lemma int64_enc:
  assumes "n < 2 ^ 63"
  shows "int64 (be_enc 8 n) = int n"
proof -
  have "n mod 256 ^ 8 = n" using assms by simp
  then have "int64 (be_enc 8 n) = sint (of_nat n :: 64 word)" by (simp only: int64_def be_dec_enc)
  also have "\<dots> = int n" using assms by (simp add: signed_of_nat signed_take_bit_int_eq_self)
  finally show ?thesis .
qed


section \<open>Streams of messages\<close>

text \<open>A message the receiver accepts: below \<^verbatim>\<open>OptionMaxRecvSize\<close>, and of a size an \<^verbatim>\<open>int64\<close> can hold.\<close>

definition fits :: "conn \<Rightarrow> bytes \<Rightarrow> bool" where
  "fits p b \<longleftrightarrow> length b < 2 ^ 63 \<and> (maxrx p > 0 \<longrightarrow> int (length b) \<le> maxrx p)"

text \<open>
  What \<^verbatim>\<open>Recv\<close> gives its caller: a message nobody held, with this body and no header, and
  nothing else changed.
\<close>

definition delivered :: "mheap \<Rightarrow> nat \<Rightarrow> bytes \<Rightarrow> mheap \<Rightarrow> bool" where
  "delivered h r b h' \<longleftrightarrow> mheap_ok h' \<and> \<not> live h r \<and> (\<forall>s. s \<noteq> r \<longrightarrow> objs h' s = objs h s) \<and>
     (\<exists>x. objs h' r = Some x \<and> o_Header x = [] \<and> o_Body x = b \<and> o_refcnt x = 1)"

fun send_all :: "(nat \<Rightarrow> conn \<Rightarrow> mheap \<Rightarrow> status \<times> conn \<times> mheap) \<Rightarrow> nat list \<Rightarrow> conn \<Rightarrow> mheap \<Rightarrow> status \<times> conn \<times> mheap" where
  "send_all snd1 [] p h = (None, p, h)"
| "send_all snd1 (m # ms) p h =
     (case snd1 m p h of (None, p1, h1) \<Rightarrow> send_all snd1 ms p1 h1 | (Some e, p1, h1) \<Rightarrow> (Some e, p1, h1))"

fun recv_all :: "(nat \<Rightarrow> conn \<Rightarrow> mheap \<Rightarrow> (err + nat) \<times> conn \<times> mheap) \<Rightarrow> nat list \<Rightarrow> conn \<Rightarrow> mheap \<Rightarrow> (err + nat list) \<times> conn \<times> mheap" where
  "recv_all rcv [] p h = (Inr [], p, h)"
| "recv_all rcv (k # ks) p h =
     (case rcv k p h of
        (Inl e, p1, h1) \<Rightarrow> (Inl e, p1, h1)
      | (Inr r, p1, h1) \<Rightarrow>
          (case recv_all rcv ks p1 h1 of
             (Inr rs, p2, h2) \<Rightarrow> (Inr (r # rs), p2, h2)
           | (Inl e, p2, h2) \<Rightarrow> (Inl e, p2, h2)))"

lemma content_Free [simp]: "content (Message_Free (Some m) h) = content h"
proof (cases "objs h m")
  case (Some x)
  then show ?thesis by (auto simp: content_def Free_objs)
qed (simp add: Message_Free_def)

text \<open>
  The contract of a message framing: \<open>Send\<close> appends one frame, \<open>Recv\<close> takes one frame from the
  front of the stream, however it was cut into chunks.
\<close>

locale framing =
  fixes Send :: "nat \<Rightarrow> conn \<Rightarrow> mheap \<Rightarrow> status \<times> conn \<times> mheap"
    and Recv :: "nat \<Rightarrow> conn \<Rightarrow> mheap \<Rightarrow> (err + nat) \<times> conn \<times> mheap"
    and frame :: "bytes \<Rightarrow> bytes"
  assumes send_frame: "\<not> hung_up p \<Longrightarrow> room p = None \<Longrightarrow>
      Send m p h = (None, p\<lparr>tx := tx p @ frame (content h m)\<rparr>, Message_Free (Some m) h)"
    and recv_frame: "mheap_ok h \<Longrightarrow> \<not> hung_up p \<Longrightarrow> concat (rx p) = frame b @ rest \<Longrightarrow> fits p b \<Longrightarrow>
      \<exists>r cs h'. Recv k p h = (Inr r, p\<lparr>rx := cs\<rparr>, h') \<and> concat cs = rest \<and> delivered h r b h'"
begin

lemma send_stream:
  "\<not> hung_up p \<Longrightarrow> room p = None \<Longrightarrow>
   \<exists>h'. send_all Send ms p h = (None, p\<lparr>tx := tx p @ concat (map (\<lambda>m. frame (content h m)) ms)\<rparr>, h')"
proof (induction ms arbitrary: p h)
  case (Cons m ms)
  then show ?case
    using Cons.IH [of "p\<lparr>tx := tx p @ frame (content h m)\<rparr>" "Message_Free (Some m) h"] send_frame [of p m h]
    by auto
qed simp

lemma recv_stream:
  assumes "mheap_ok h" and "\<not> hung_up p" and "concat (rx p) = concat (map frame bs) @ rest"
    and "\<forall>b\<in>set bs. fits p b" and "length ks = length bs"
  shows "\<exists>rs cs h'. recv_all Recv ks p h = (Inr rs, p\<lparr>rx := cs\<rparr>, h') \<and> concat cs = rest \<and> mheap_ok h' \<and>
    distinct rs \<and> (\<forall>r\<in>set rs. \<not> live h r) \<and> (\<forall>s. s \<notin> set rs \<longrightarrow> objs h' s = objs h s) \<and>
    list_all2 (\<lambda>r b. \<exists>x. objs h' r = Some x \<and> o_Header x = [] \<and> o_Body x = b \<and> o_refcnt x = 1) rs bs"
  using assms
proof (induction ks arbitrary: bs p h)
  case Nil
  then show ?case by (intro exI [of _ "[]"] exI [of _ "rx p"] exI [of _ h]) simp
next
  case (Cons k ks)
  then obtain b bs' where bs: "bs = b # bs'" by (cases bs) auto
  obtain r cs h1 where r: "Recv k p h = (Inr r, p\<lparr>rx := cs\<rparr>, h1)" "concat cs = concat (map frame bs') @ rest"
      "delivered h r b h1"
    using recv_frame [of h p b "concat (map frame bs') @ rest" k] Cons.prems bs by auto
  obtain rs ds h' where rs: "recv_all Recv ks (p\<lparr>rx := cs\<rparr>) h1 = (Inr rs, p\<lparr>rx := ds\<rparr>, h')" "concat ds = rest" "mheap_ok h'"
      "distinct rs" "\<forall>r\<in>set rs. \<not> live h1 r" "\<forall>s. s \<notin> set rs \<longrightarrow> objs h' s = objs h1 s"
      "list_all2 (\<lambda>r b. \<exists>x. objs h' r = Some x \<and> o_Header x = [] \<and> o_Body x = b \<and> o_refcnt x = 1) rs bs'"
    using Cons.IH [of h1 "p\<lparr>rx := cs\<rparr>" bs'] Cons.prems bs r(2,3) by (auto simp: delivered_def fits_def)
  have new: "live h1 r" "r \<notin> set rs" using r(3) rs(5) by (auto simp: delivered_def live_def)
  have fr: "\<forall>s\<in>set rs. \<not> live h s" "\<forall>s. s \<notin> set (r # rs) \<longrightarrow> objs h' s = objs h s" "objs h' r = objs h1 r"
    using r(3) rs(5,6) new(2) by (auto simp: delivered_def live_def)
  show ?case
    by (rule exI [of _ "r # rs"], rule exI [of _ ds], rule exI [of _ h'])
       (use r rs new fr bs in \<open>auto simp: delivered_def\<close>)
qed

end

lemma recv_body_ok:
  assumes ok: "mheap_ok h" and p: "\<not> hung_up p" "concat (rx p) = b @ rest" "fits p b"
  shows "\<exists>r cs h'. recv_body (int (length b)) k p h = (Inr r, p\<lparr>rx := cs\<rparr>, h') \<and> concat cs = rest \<and> delivered h r b h'"
proof -
  obtain r h1 where n: "NewMessage (length b) k h = (r, h1)" by fastforce
  note np = NewMessage_props [OF ok n]
  obtain cs where cs: "conn_read (length b) p = (Inr b, p\<lparr>rx := cs\<rparr>)" "concat cs = rest"
    using conn_read_ok [OF p(1,2) refl] .
  have "delivered h r b (upd_obj r (\<lambda>x. x\<lparr>o_Body := b\<rparr>) h1)"
    using np mheap_ok_upd [OF np(2,3)] by (auto simp: delivered_def)
  then show ?thesis using n cs p(3) by (auto simp: recv_body_def fits_def)
qed

interpretation stream: framing conn_Send conn_Recv "\<lambda>b. be_enc 8 (length b) @ b"
proof unfold_locales
  show "conn_Send m p h =
      (None, p\<lparr>tx := tx p @ be_enc 8 (length (content h m)) @ content h m\<rparr>, Message_Free (Some m) h)"
    if "\<not> hung_up p" "room p = None" for p m h
    using that by (simp add: conn_Send_def conn_write_def)
  show "\<exists>r cs h'. conn_Recv k p h = (Inr r, p\<lparr>rx := cs\<rparr>, h') \<and> concat cs = rest \<and> delivered h r b h'"
    if h: "mheap_ok h" "\<not> hung_up p" and c: "concat (rx p) = (be_enc 8 (length b) @ b) @ rest" and b: "fits p b"
    for h p b rest k
  proof -
    have e: "concat (rx p) = be_enc 8 (length b) @ (b @ rest)" using c by simp
    obtain cs where cs: "conn_read 8 p = (Inr (be_enc 8 (length b)), p\<lparr>rx := cs\<rparr>)" "concat cs = b @ rest"
      by (rule conn_read_ok [OF h(2) e, of 8]) simp_all
    moreover have "int64 (be_enc 8 (length b)) = int (length b)" using b by (simp add: int64_enc fits_def)
    ultimately show ?thesis
      using recv_body_ok [of h "p\<lparr>rx := cs\<rparr>" b rest k] h b by (auto simp: conn_Recv_def fits_def)
  qed
qed

interpretation ipc: framing connipc_Send connipc_Recv "\<lambda>b. 1 # be_enc 8 (length b) @ b"
proof unfold_locales
  show "connipc_Send m p h =
      (None, p\<lparr>tx := tx p @ 1 # be_enc 8 (length (content h m)) @ content h m\<rparr>, Message_Free (Some m) h)"
    if "\<not> hung_up p" "room p = None" for p m h
    using that by (simp add: connipc_Send_def conn_write_def)
  show "\<exists>r cs h'. connipc_Recv k p h = (Inr r, p\<lparr>rx := cs\<rparr>, h') \<and> concat cs = rest \<and> delivered h r b h'"
    if h: "mheap_ok h" "\<not> hung_up p" and c: "concat (rx p) = (1 # be_enc 8 (length b) @ b) @ rest" and b: "fits p b"
    for h p b rest k
  proof -
    have e: "concat (rx p) = [1] @ (be_enc 8 (length b) @ b @ rest)" using c by simp
    obtain cs where cs: "conn_read 1 p = (Inr [1], p\<lparr>rx := cs\<rparr>)" "concat cs = be_enc 8 (length b) @ b @ rest"
      by (rule conn_read_ok [OF h(2) e, of 1]) simp_all
    have e2: "concat (rx (p\<lparr>rx := cs\<rparr>)) = be_enc 8 (length b) @ (b @ rest)" "\<not> hung_up (p\<lparr>rx := cs\<rparr>)"
      using h(2) cs(2) by simp_all
    obtain ds where ds: "conn_read 8 (p\<lparr>rx := cs\<rparr>) = (Inr (be_enc 8 (length b)), p\<lparr>rx := ds\<rparr>)" "concat ds = b @ rest"
      by (rule conn_read_ok [OF e2(2,1), of 8]) simp_all
    have "int64 (be_enc 8 (length b)) = int (length b)" using b by (simp add: int64_enc fits_def)
    then show ?thesis
      using recv_body_ok [of h "p\<lparr>rx := ds\<rparr>" b rest k] h b cs(1) ds
      by (auto simp: connipc_Recv_def fits_def simp del: One_nat_def)
  qed
qed

interpretation winipc: framing winipc_Send winipc_Recv "\<lambda>b. 1 # be_enc 8 (length b) @ b"
  unfolding winipc_eq by (rule ipc.framing_axioms)

section \<open>Properties\<close>

text \<open>
  C15: What is sent is what arrives. For the stream and for the IPC wire format, of POSIX systems, of Windows and from one to the other, alike: sending any
  list of messages on a working connection succeeds, and a receiver that gets those bytes, cut
  into chunks in any way and followed by anything, receives exactly these messages in this
  order, each as a new object that nobody else holds, and leaves the rest of the stream unread.
\<close>

theorem stream_round_trip:
  assumes ops: "(Send, Recv) \<in> {(conn_Send, conn_Recv), (connipc_Send, connipc_Recv), (winipc_Send, winipc_Recv),
      (connipc_Send, winipc_Recv), (winipc_Send, connipc_Recv)}"
    and p: "\<not> hung_up p" "room p = None" "tx p = []"
    and q: "mheap_ok g" "\<not> hung_up q" "concat (rx q) = tx (fst (snd (send_all Send ms p h))) @ rest"
      "\<forall>m\<in>set ms. fits q (content h m)" "length ks = length ms"
  shows "fst (send_all Send ms p h) = None \<and>
    (\<exists>rs cs g'. recv_all Recv ks q g = (Inr rs, q\<lparr>rx := cs\<rparr>, g') \<and> concat cs = rest \<and> mheap_ok g' \<and>
       distinct rs \<and> (\<forall>r\<in>set rs. \<not> live g r) \<and> (\<forall>s. s \<notin> set rs \<longrightarrow> objs g' s = objs g s) \<and>
       list_all2 (\<lambda>r m. \<exists>x. objs g' r = Some x \<and> o_Header x = [] \<and> o_Body x = content h m \<and> o_refcnt x = 1) rs ms)"
proof -
  have c: "length ks = length (map (content h) ms)" "\<forall>b\<in>set (map (content h) ms). fits q b" using q by auto
  consider "Send = conn_Send" "Recv = conn_Recv" | "Send = connipc_Send" "Recv = connipc_Recv" using ops unfolding winipc_eq by blast
  then show ?thesis
  proof cases
    case 1
    then show ?thesis
      using stream.send_stream [OF p(1,2), of ms h] q(3) p(3) stream.recv_stream [OF q(1,2) _ c(2,1), of rest]
      by (auto simp: comp_def list.rel_map)
  next
    case 2
    then show ?thesis
      using ipc.send_stream [OF p(1,2), of ms h] q(3) p(3) ipc.recv_stream [OF q(1,2) _ c(2,1), of rest]
      by (auto simp: comp_def list.rel_map)
  qed
qed

definition msg_heap :: mheap where
  "msg_heap = \<lparr>objs = [0 \<mapsto> \<lparr>o_Header = [7], o_Body = [8, 9], o_Pipe = None, o_bsize = 64, o_refcnt = 1\<rparr>],
     pools = (\<lambda>_. []), fresh = 1\<rparr>"

definition conn_a :: conn where
  "conn_a = NewConnPipe [] None (VOther 0) (VOther 1) 16 17"

definition conn_b :: conn where
  "conn_b = NewConnPipe [[0, 0, 0, 0, 0, 0], [0, 3, 7, 8], [9]] None (VOther 1) (VOther 0) 17 16"

theorem stream_round_trip_witness:
  "\<exists>rs cs g'. recv_all conn_Recv [0] conn_b init_heap = (Inr rs, conn_b\<lparr>rx := cs\<rparr>, g') \<and>
     list_all2 (\<lambda>r m. \<exists>x. objs g' r = Some x \<and> o_Header x = [] \<and> o_Body x = [7, 8, 9] \<and> o_refcnt x = 1) rs [0 :: nat]"
proof -
  have c: "content msg_heap 0 = [7, 8, 9]" by (simp add: content_def msg_heap_def)
  have "concat (rx conn_b) = tx (fst (snd (send_all conn_Send [0] conn_a msg_heap))) @ []"
    by (simp add: conn_a_def conn_b_def NewConnPipe_def conn_Send_def conn_write_def c be_enc_numeral)
  moreover have "mheap_ok init_heap" by (simp add: init_heap_def mheap_ok_def pool_ok_def)
  moreover have "fits conn_b (content msg_heap 0)" by (simp add: c fits_def conn_b_def NewConnPipe_def)
  moreover have "\<not> hung_up conn_a" "room conn_a = None" "tx conn_a = []" "\<not> hung_up conn_b"
    by (simp_all add: conn_a_def conn_b_def NewConnPipe_def)
  ultimately obtain rs cs g' where "recv_all conn_Recv [0] conn_b init_heap = (Inr rs, conn_b\<lparr>rx := cs\<rparr>, g')"
      "list_all2 (\<lambda>r m. \<exists>x. objs g' r = Some x \<and> o_Header x = [] \<and> o_Body x = content msg_heap m \<and> o_refcnt x = 1) rs [0]"
    using stream_round_trip [of conn_Send conn_Recv conn_a init_heap conn_b "[0]" msg_heap "[]" "[0]"] by auto
  then show ?thesis by (auto simp: list_all2_Cons2 c)
qed

text \<open>What a receive does to the heap, whatever the peer sends.\<close>

definition recv_fair :: "int \<Rightarrow> mheap \<Rightarrow> err + nat \<Rightarrow> mheap \<Rightarrow> bool" where
  "recv_fair limit h res h' \<longleftrightarrow> mheap_ok h' \<and>
     (\<forall>r. res = Inr r \<longrightarrow> \<not> live h r \<and> (\<exists>x. objs h' r = Some x \<and> o_refcnt x = 1 \<and> o_Header x = [] \<and>
        (limit > 0 \<longrightarrow> int (length (o_Body x)) \<le> limit))) \<and>
     (\<forall>s. res \<noteq> Inr s \<longrightarrow> live h' s = live h s) \<and> (\<forall>s. live h s \<longrightarrow> objs h' s = objs h s)"

lemma recv_fair_refl: "mheap_ok h \<Longrightarrow> recv_fair n h (Inl e) h"
  by (simp add: recv_fair_def)

lemma read_full_length: "read_full n cs = (Inr bs, r) \<Longrightarrow> length bs = n"
  using read_full_eq(1) [of n cs] read_full_eq(2) [of cs n] by (cases "n \<le> length (concat cs)") auto

lemma conn_read_frame:
  "conn_read n p = (x, p') \<Longrightarrow> maxrx p' = maxrx p \<and> (\<forall>bs. x = Inr bs \<longrightarrow> length bs = n)"
  by (auto simp: conn_read_def split: if_splits prod.splits dest: read_full_length)

lemma recv_body_fair:
  assumes ok: "mheap_ok h" and r: "recv_body sz k p h = (res, p', h')"
  shows "recv_fair (maxrx p) h res h'"
proof (cases "sz < 0 \<or> (maxrx p > 0 \<and> sz > maxrx p)")
  case True
  then show ?thesis using r ok by (auto simp: recv_body_def recv_fair_refl)
next
  case False
  obtain m h1 where n: "NewMessage (nat sz) k h = (m, h1)" by fastforce
  note np = NewMessage_props [OF ok n]
  have l: "live h1 m" using np(5) by (auto simp: live_def)
  show ?thesis
  proof (cases "fst (conn_read (nat sz) p)")
    case (Inl e)
    then have res: "res = Inl e" "h' = Message_Free (Some m) h1"
      using r n False by (auto simp: recv_body_def split: prod.splits)
    obtain x where x: "objs h1 m = Some x" "o_refcnt x = 1" using np(5) by blast
    then have o: "objs h' = (objs h1)(m \<mapsto> x\<lparr>o_refcnt := 0\<rparr>)" unfolding res(2) by (simp add: Free_objs)
    have "live h' s = live h s" for s
      using np(1,4) by (cases "s = m") (auto simp: live_def o)
    moreover have "live h s \<Longrightarrow> objs h' s = objs h s" for s
      using np(1,4) by (cases "s = m") (auto simp: o)
    ultimately show ?thesis
      using Free_ok [OF np(2) l] res by (simp add: recv_fair_def)
  next
    case (Inr bs)
    then have res: "res = Inr m" "h' = upd_obj m (\<lambda>x. x\<lparr>o_Body := bs\<rparr>) h1"
      using r n False by (auto simp: recv_body_def split: prod.splits)
    have len: "int (length bs) = sz"
      using Inr conn_read_frame [of "nat sz" p "Inr bs"] False by (cases "conn_read (nat sz) p") auto
    have "live h' s = live h s" if "s \<noteq> m" for s
      using np(4) that by (auto simp: live_def res(2))
    moreover have "live h s \<Longrightarrow> objs h' s = objs h s" for s
      using np(1,4) by (cases "s = m") (auto simp: res(2))
    moreover have "mheap_ok h'" unfolding res(2) by (rule mheap_ok_upd [OF np(2,3)])
    ultimately show ?thesis
      using np(1,5) len False by (auto simp: recv_fair_def res)
  qed
qed

lemma Recv_fair:
  assumes "mheap_ok h" and "Recv \<in> {conn_Recv, connipc_Recv}" and "Recv k p h = (res, p', h')"
  shows "recv_fair (maxrx p) h res h'"
  using assms recv_fair_refl [OF assms(1)] recv_body_fair [OF assms(1), of _ k _ res p' h']
  by (auto simp: conn_Recv_def connipc_Recv_def split: prod.splits sum.splits dest!: conn_read_frame simp del: One_nat_def)
     (metis recv_body_fair assms(1))+

text \<open>
  A peer cannot make a receiver exceed \<^verbatim>\<open>OptionMaxRecvSize\<close>, corrupt or leak messages. Whatever
  bytes arrive, \<^verbatim>\<open>Recv\<close> (stream and IPC) leaves every message that somebody holds as it was; when it
  fails no message is left allocated; when it succeeds, it returns one new message whose body
  is within the limit.
\<close>

theorem Recv_bounded_no_leak:
  assumes "mheap_ok h" and "Recv \<in> {conn_Recv, connipc_Recv}" and "Recv k p h = (res, p', h')"
  shows "mheap_ok h' \<and>
     (\<forall>r. res = Inr r \<longrightarrow> \<not> live h r \<and> (\<exists>x. objs h' r = Some x \<and> o_refcnt x = 1 \<and> o_Header x = [] \<and>
        (maxrx p > 0 \<longrightarrow> int (length (o_Body x)) \<le> maxrx p))) \<and>
     (\<forall>s. res \<noteq> Inr s \<longrightarrow> live h' s = live h s) \<and> (\<forall>s. live h s \<longrightarrow> objs h' s = objs h s)"
  using Recv_fair [OF assms] by (simp add: recv_fair_def)

definition conn_c :: conn where
  "conn_c = (NewConnPipe [[0, 0, 0, 0, 0, 0, 1, 0]] None (VOther 1) (VOther 0) 17 16)\<lparr>maxrx := 64\<rparr>"

theorem Recv_bounded_no_leak_witness:
  "conn_Recv 0 conn_c msg_heap = (Inl ErrTooLong, conn_c\<lparr>rx := []\<rparr>, msg_heap) \<and> live msg_heap 0"
proof -
  have ok: "mheap_ok msg_heap" by (simp add: msg_heap_def mheap_ok_def pool_ok_def)
  have i: "int64 [0, 0, 0, 0, 0, 0, 1, 0] = 256"
    by (simp add: int64_def be_dec_def)
  have r: "conn_Recv 0 conn_c msg_heap = (Inl ErrTooLong, conn_c\<lparr>rx := []\<rparr>, msg_heap)"
    by (simp add: conn_Recv_def conn_read_def conn_c_def NewConnPipe_def recv_body_def i read_full_Cons)
  have "live msg_heap 0 = live msg_heap 0 \<and> mheap_ok msg_heap"
    using Recv_bounded_no_leak [of msg_heap conn_Recv 0 conn_c "Inl ErrTooLong" "conn_c\<lparr>rx := []\<rparr>" msg_heap] ok r
    by simp
  then show ?thesis using r by (simp add: live_def msg_heap_def)
qed

section \<open>Handshakes\<close>

lemma Uint16_iff:
  assumes "length bs = 2"
  shows "Uint16 bs = w \<longleftrightarrow> bs = be_enc 2 (unat w)"
proof -
  have lt: "be_dec bs < 65536" using be_dec_less [of bs] assms by simp
  then have u: "unat (of_nat (be_dec bs) :: u16) = be_dec bs" by (simp add: unat_of_nat)
  have "unat w < 65536" using unsigned_less [of w] by simp
  then have "be_dec (be_enc 2 (unat w)) = unat w" by (simp add: be_dec_enc)
  moreover have "be_enc 2 (be_dec bs) = bs" using be_enc_dec [of bs] assms by simp
  ultimately show ?thesis using u by (metis Uint16_def word_unat_eq_iff)
qed

lemma list8: "length h = 8 \<Longrightarrow> \<exists>a b c d e f g i. h = [a, b, c, d, e, f, g, i]"
  by (auto simp: numeral_eq_Suc length_Suc_conv)

text \<open>The verdict on the eight bytes of a header.\<close>

definition verdict :: "u16 \<Rightarrow> bytes \<Rightarrow> status" where
  "verdict peer h =
     (if h = connHeader peer then None
      else if take 3 h \<noteq> [0, 83, 80] \<or> drop 6 h \<noteq> [0, 0] then Some ErrBadHeader
      else if h ! 3 \<noteq> 0 then Some ErrBadVersion
      else Some ErrBadProto)"

lemma verdict_eq:
  assumes "length h = 8"
  shows "verdict peer h =
    (if h ! 0 \<noteq> 0 \<or> h ! 1 \<noteq> 83 \<or> h ! 2 \<noteq> 80 \<or> Uint16 (take 2 (drop 6 h)) \<noteq> 0 then Some ErrBadHeader
     else if h ! 3 \<noteq> 0 then Some ErrBadVersion
     else if Uint16 (take 2 (drop 4 h)) \<noteq> peer then Some ErrBadProto else None)"
proof -
  obtain a b c d e f g i where h: "h = [a, b, c, d, e, f, g, i]" using list8 [OF assms] by blast
  have 0: "Uint16 [g, i] = 0 \<longleftrightarrow> g = 0 \<and> i = 0"
    using Uint16_iff [of "[g, i]" 0] by (simp add: be_enc_numeral)
  have p: "Uint16 [e, f] = peer \<longleftrightarrow> [e, f] = be_enc 2 (unat peer)" by (rule Uint16_iff) simp
  obtain x y where xy: "be_enc 2 (unat peer) = [x, y]" by (simp add: be_enc_numeral)
  show ?thesis unfolding h verdict_def connHeader_def xy using 0 p xy by (auto simp: be_enc_numeral)
qed

text \<open>
  C16: The handshake tells the peer our protocol and accepts exactly one answer: the header of our
  peer protocol. Whatever eight bytes arrive, in whatever chunks, the result is the verdict on
  them: wrong magic or reserved bytes, wrong version and wrong protocol are told apart in this
  order. The pipe is open after success only; after a failure the connection is closed.
\<close>

theorem handshake_verdict:
  assumes p: "\<not> hung_up p" "room p = None" "\<not> c_shut p" "\<not> c_open p" and h: "concat (rx p) = h @ rest" "length h = 8"
  shows "\<exists>p'. conn_handshake False p = (verdict (proto_Peer p) h, p') \<and>
     tx p' = tx p @ connHeader (proto_Self p) \<and> concat (rx p') = rest \<and>
     c_open p' = (h = connHeader (proto_Peer p)) \<and> hung_up p' = (h \<noteq> connHeader (proto_Peer p))"
proof -
  let ?p1 = "p\<lparr>tx := tx p @ connHeader (proto_Self p)\<rparr>"
  have w: "conn_write (connHeader (proto_Self p)) p = (None, ?p1)" using p by (simp add: conn_write_def)
  have e: "\<not> hung_up ?p1" "concat (rx ?p1) = h @ rest" using p h by simp_all
  obtain cs where r: "conn_read 8 ?p1 = (Inr h, ?p1\<lparr>rx := cs\<rparr>)" "concat cs = rest"
    by (rule conn_read_ok [OF e, of 8]) (simp_all add: h)
  have v: "verdict (proto_Peer p) h = None \<longleftrightarrow> h = connHeader (proto_Peer p)" by (auto simp: verdict_def)
  let ?p2 = "?p1\<lparr>rx := cs\<rparr>"
  have "conn_handshake False p =
      (case verdict (proto_Peer p) h of None \<Rightarrow> (None, ?p2\<lparr>c_open := True\<rparr>) | Some x \<Rightarrow> (Some x, hang_up ?p2))"
    unfolding verdict_eq [OF h(2)] conn_handshake_def w using r(1) p by simp
  then show ?thesis using p r(2) v by (auto simp: hang_up_def split: option.splits)
qed

definition conn_d :: conn where
  "conn_d = NewConnPipe [[0, 83], [80, 0, 0, 16, 0, 0]] None (VOther 1) (VOther 0) 17 16"

theorem handshake_verdict_witness:
  "\<exists>p'. conn_handshake False conn_d = (None, p') \<and> c_open p' \<and> tx p' = connHeader 17"
proof -
  have h: "concat (rx conn_d) = connHeader 16 @ []"
    by (simp add: conn_d_def NewConnPipe_def connHeader_def be_enc_numeral)
  have "length (connHeader 16) = 8" by (simp add: connHeader_def)
  then show ?thesis
    using handshake_verdict [of conn_d "connHeader 16" "[]"] h
    by (auto simp: conn_d_def NewConnPipe_def verdict_def)
qed

end
