(* ===== verification/Protocols.thy ===== *)
theory Protocols
  imports Conn
begin

text \<open>
  Who talks to whom: the protocol numbers of \<^verbatim>\<open>protocol.go\<close> and what \<^verbatim>\<open>Info\<close> of each protocol package says, composed with the
  handshake of the stream transports. The packages bus, pair, pair1, pub, pull, push and star have no \<^verbatim>\<open>Info\<close> of their own: they embed
  the raw protocol's.
\<close>

record ProtocolInfo =
  Self :: u16
  Peer :: u16
  SelfName :: string
  PeerName :: string

section \<open>Numbers\<close>

text \<open>The major number is in the upper 12 bits, the minor one in the lower 4.\<close>

named_theorems proto_numbers

definition ProtoPair :: u16 where [proto_numbers]: "ProtoPair = 0x10"
definition ProtoPair1 :: u16 where [proto_numbers]: "ProtoPair1 = 0x11"
definition ProtoPub :: u16 where [proto_numbers]: "ProtoPub = 0x20"
definition ProtoSub :: u16 where [proto_numbers]: "ProtoSub = 0x21"
definition ProtoReq :: u16 where [proto_numbers]: "ProtoReq = 0x30"
definition ProtoRep :: u16 where [proto_numbers]: "ProtoRep = 0x31"
definition ProtoPush :: u16 where [proto_numbers]: "ProtoPush = 0x50"
definition ProtoPull :: u16 where [proto_numbers]: "ProtoPull = 0x51"
definition ProtoSurveyor :: u16 where [proto_numbers]: "ProtoSurveyor = 0x62"
definition ProtoRespondent :: u16 where [proto_numbers]: "ProtoRespondent = 0x63"
definition ProtoBus :: u16 where [proto_numbers]: "ProtoBus = 0x70"
definition ProtoStar :: u16 where [proto_numbers]: "ProtoStar = 0x640"

section \<open>Info\<close>

named_theorems infos

definition req_Info :: ProtocolInfo where [infos]: "req_Info = \<lparr>Self = ProtoReq, Peer = ProtoRep, SelfName = ''req'', PeerName = ''rep''\<rparr>"
definition xreq_Info :: ProtocolInfo where [infos]: "xreq_Info = \<lparr>Self = ProtoReq, Peer = ProtoRep, SelfName = ''req'', PeerName = ''rep''\<rparr>"
definition rep_Info :: ProtocolInfo where [infos]: "rep_Info = \<lparr>Self = ProtoRep, Peer = ProtoReq, SelfName = ''rep'', PeerName = ''req''\<rparr>"
definition xrep_Info :: ProtocolInfo where [infos]: "xrep_Info = \<lparr>Self = ProtoRep, Peer = ProtoReq, SelfName = ''rep'', PeerName = ''req''\<rparr>"
definition surveyor_Info :: ProtocolInfo where
  [infos]: "surveyor_Info = \<lparr>Self = ProtoSurveyor, Peer = ProtoRespondent, SelfName = ''surveyor'', PeerName = ''respondent''\<rparr>"
definition xsurveyor_Info :: ProtocolInfo where
  [infos]: "xsurveyor_Info = \<lparr>Self = ProtoSurveyor, Peer = ProtoRespondent, SelfName = ''surveyor'', PeerName = ''respondent''\<rparr>"
definition respondent_Info :: ProtocolInfo where
  [infos]: "respondent_Info = \<lparr>Self = ProtoRespondent, Peer = ProtoSurveyor, SelfName = ''respondent'', PeerName = ''surveyor''\<rparr>"
definition xrespondent_Info :: ProtocolInfo where
  [infos]: "xrespondent_Info = \<lparr>Self = ProtoRespondent, Peer = ProtoSurveyor, SelfName = ''respondent'', PeerName = ''surveyor''\<rparr>"
definition sub_Info :: ProtocolInfo where [infos]: "sub_Info = \<lparr>Self = ProtoSub, Peer = ProtoPub, SelfName = ''sub'', PeerName = ''pub''\<rparr>"
definition xsub_Info :: ProtocolInfo where [infos]: "xsub_Info = \<lparr>Self = ProtoSub, Peer = ProtoPub, SelfName = ''sub'', PeerName = ''pub''\<rparr>"
definition xpub_Info :: ProtocolInfo where [infos]: "xpub_Info = \<lparr>Self = ProtoPub, Peer = ProtoSub, SelfName = ''pub'', PeerName = ''sub''\<rparr>"
definition xpush_Info :: ProtocolInfo where [infos]: "xpush_Info = \<lparr>Self = ProtoPush, Peer = ProtoPull, SelfName = ''push'', PeerName = ''pull''\<rparr>"
definition xpull_Info :: ProtocolInfo where [infos]: "xpull_Info = \<lparr>Self = ProtoPull, Peer = ProtoPush, SelfName = ''pull'', PeerName = ''push''\<rparr>"
definition xpair_Info :: ProtocolInfo where [infos]: "xpair_Info = \<lparr>Self = ProtoPair, Peer = ProtoPair, SelfName = ''pair'', PeerName = ''pair''\<rparr>"
definition xpair1_Info :: ProtocolInfo where [infos]: "xpair1_Info = \<lparr>Self = ProtoPair1, Peer = ProtoPair1, SelfName = ''pair1'', PeerName = ''pair1''\<rparr>"
definition xbus_Info :: ProtocolInfo where [infos]: "xbus_Info = \<lparr>Self = ProtoBus, Peer = ProtoBus, SelfName = ''bus'', PeerName = ''bus''\<rparr>"
definition xstar_Info :: ProtocolInfo where [infos]: "xstar_Info = \<lparr>Self = ProtoStar, Peer = ProtoStar, SelfName = ''star'', PeerName = ''star''\<rparr>"

definition library :: "ProtocolInfo list" where
  "library =
     [req_Info, xreq_Info, rep_Info, xrep_Info, surveyor_Info, xsurveyor_Info, respondent_Info, xrespondent_Info, sub_Info, xsub_Info,
      xpub_Info, xpush_Info, xpull_Info, xpair_Info, xpair1_Info, xbus_Info, xstar_Info]"

section \<open>Pairing\<close>

text \<open>The numbers and the names of the library agree: a protocol is the peer of another by number exactly when it is by name.\<close>

definition agree :: "ProtocolInfo \<Rightarrow> ProtocolInfo \<Rightarrow> bool" where
  "agree i j \<longleftrightarrow> (Peer i = Self j) = (PeerName i = SelfName j) \<and> (Peer i = Self j) = (Peer j = Self i)"

lemma library_agrees: "list_all (\<lambda>i. list_all (agree i) library) library"
  by code_simp

lemma connHeader_inj: "connHeader v = connHeader w \<longleftrightarrow> v = w"
proof -
  have "Uint16 (be_enc 2 (unat x)) = x" for x by (simp add: Uint16_iff)
  then show ?thesis unfolding connHeader_def by (metis append_same_eq same_append_eq)
qed

lemma verdict_library: "verdict peer (connHeader self) = (if peer = self then None else Some ErrBadProto)"
proof -
  obtain x y where xy: "be_enc 2 (unat self) = [x, y]" by (simp add: be_enc_numeral)
  have "take 3 (connHeader self) = [0, 83, 80]" "drop 6 (connHeader self) = [0, 0]" "connHeader self ! 3 = 0"
    unfolding connHeader_def xy by (simp_all add: be_enc_numeral)
  then show ?thesis using connHeader_inj [of self peer] by (auto simp: verdict_def)
qed

text \<open>A fresh pipe of a socket, as \<^verbatim>\<open>NewConnPipe\<close> makes it from \<^verbatim>\<open>sock.Info\<close>, on a connection that brings \<open>cs\<close>.\<close>

definition fresh_pipe :: "ProtocolInfo \<Rightarrow> bytes list \<Rightarrow> conn" where
  "fresh_pipe i cs = NewConnPipe cs None (VOther 0) (VOther 1) (Self i) (Peer i)"

text \<open>
  C40: Two sockets of the library, raw or not, connected by a stream: what each writes first arrives at the other, cut into
  chunks in any way. The handshake of both ends succeeds when each protocol is the peer of the other by name, and of both ends it
  fails with \<^verbatim>\<open>ErrBadProto\<close> otherwise: there is no pair of protocols of which one end takes the connection for open and the
  other does not.
\<close>

theorem protocols_connect:
  assumes lib: "i \<in> set library" "j \<in> set library"
    and wire: "concat cs = connHeader (Self j) @ xs" "concat ds = connHeader (Self i) @ ys"
  shows "let (e, p) = conn_handshake False (fresh_pipe i cs); (f, q) = conn_handshake False (fresh_pipe j ds)
         in take 8 (tx p) = connHeader (Self i) \<and> take 8 (tx q) = connHeader (Self j) \<and>
            (if PeerName i = SelfName j \<and> PeerName j = SelfName i
             then e = None \<and> f = None \<and> c_open p \<and> c_open q
             else e = Some ErrBadProto \<and> f = Some ErrBadProto \<and> \<not> c_open p \<and> \<not> c_open q)"
proof -
  have len: "length (connHeader w) = 8" for w by (simp add: connHeader_def)
  have ag: "agree i j" "agree j i" using library_agrees lib by (auto simp: list_all_iff)
  have fresh: "\<not> hung_up (fresh_pipe k bs)" "room (fresh_pipe k bs) = None" "\<not> c_shut (fresh_pipe k bs)" "\<not> c_open (fresh_pipe k bs)"
    "rx (fresh_pipe k bs) = bs" "tx (fresh_pipe k bs) = []" "proto_Self (fresh_pipe k bs) = Self k" "proto_Peer (fresh_pipe k bs) = Peer k"
    for k bs by (simp_all add: fresh_pipe_def NewConnPipe_def)
  from handshake_verdict [OF fresh(1-4) _ len, of i cs "Self j" xs] wire(1) obtain p where
    p: "conn_handshake False (fresh_pipe i cs) = (verdict (Peer i) (connHeader (Self j)), p)" "tx p = connHeader (Self i)"
      "c_open p = (connHeader (Self j) = connHeader (Peer i))" by (auto simp: fresh)
  from handshake_verdict [OF fresh(1-4) _ len, of j ds "Self i" ys] wire(2) obtain q where
    q: "conn_handshake False (fresh_pipe j ds) = (verdict (Peer j) (connHeader (Self i)), q)" "tx q = connHeader (Self j)"
      "c_open q = (connHeader (Self i) = connHeader (Peer j))" by (auto simp: fresh)
  show ?thesis using ag by (auto simp: p q verdict_library connHeader_inj agree_def len)
qed

lemma protocols_connect_witness:
  "fst (conn_handshake False (fresh_pipe req_Info [connHeader 0x31])) = None \<and>
   fst (conn_handshake False (fresh_pipe req_Info [connHeader 0x11])) = Some ErrBadProto \<and>
   fst (conn_handshake False (fresh_pipe xpair1_Info [connHeader 0x30])) = Some ErrBadProto"
proof -
  have lib: "req_Info \<in> set library" "xrep_Info \<in> set library" "xpair1_Info \<in> set library" by (simp_all add: library_def)
  have n: "Self xrep_Info = 0x31" "Self req_Info = 0x30" "Self xpair1_Info = 0x11" by (simp_all add: infos proto_numbers)
  have 1: "fst (conn_handshake False (fresh_pipe req_Info [connHeader 0x31])) = None"
    using protocols_connect [OF lib(1,2), of "[connHeader 0x31]" "[]" "[connHeader 0x30]" "[]"] by (simp add: n Let_def split: prod.splits) (simp add: infos)
  show ?thesis using 1 protocols_connect [OF lib(1,3), of "[connHeader 0x11]" "[]" "[connHeader 0x30]" "[]"]
    by (simp add: n Let_def split: prod.splits) (simp add: infos)
qed

end
