(* ===== verification/Handshaker.thy ===== *)
theory Handshaker
  imports Conn
begin

text \<open>
  The asynchronous handshaker of \<^verbatim>\<open>transport/conn.go\<close>: \<^verbatim>\<open>Start\<close> hands it a fresh connection, a
  worker goroutine per connection runs the handshake, \<^verbatim>\<open>Wait\<close> returns the results in the order
  they came in, and \<^verbatim>\<open>Close\<close> ends everything. Connections are numbered; the last three fields
  record what has happened to them: started, closed by the handshaker, returned by \<^verbatim>\<open>Wait\<close>.
\<close>

record handshaker =
  workq :: "nat set"
  doneq :: "(nat option \<times> status) list"
  h_closed :: bool
  started :: "nat set"
  shut :: "nat set"
  given :: "nat list"

definition NewConnHandshaker :: handshaker where
  "NewConnHandshaker = \<lparr>workq = {}, doneq = [], h_closed = False, started = {}, shut = {}, given = []\<rparr>"

text \<open>\<^verbatim>\<open>Wait\<close> as far as it does not block (\<open>None\<close>: it waits for the condition variable).\<close>

definition hs_Wait :: "handshaker \<Rightarrow> (handshaker \<times> nat option \<times> status) option" where
  "hs_Wait h =
     (if doneq h = [] \<and> \<not> h_closed h then None
      else if h_closed h then Some (h, None, Some ErrClosed)
      else
        (let (c, e) = hd (doneq h)
         in Some (h\<lparr>doneq := tl (doneq h), given := given h @ (case c of Some p \<Rightarrow> [p] | None \<Rightarrow> [])\<rparr>, c, e)))"

definition hs_Start :: "nat \<Rightarrow> handshaker \<Rightarrow> handshaker" where
  "hs_Start c h = h\<lparr>workq := insert c (workq h), started := insert c (started h)\<rparr>"

fun drain_doneq :: "(nat option \<times> status) list \<Rightarrow> nat set \<Rightarrow> nat set" where
  "drain_doneq [] cl = cl"
| "drain_doneq ((c, e) # q) cl = drain_doneq q (case c of Some p \<Rightarrow> insert p cl | None \<Rightarrow> cl)"

definition hs_Close :: "handshaker \<Rightarrow> handshaker" where
  "hs_Close h = h\<lparr>h_closed := True, shut := drain_doneq (doneq h) (shut h \<union> workq h), doneq := []\<rparr>"

text \<open>The worker after \<^verbatim>\<open>handshake\<close> returned \<open>e\<close>.\<close>

definition hs_worker :: "nat \<Rightarrow> status \<Rightarrow> handshaker \<Rightarrow> handshaker" where
  "hs_worker c e h =
     (let h1 = h\<lparr>workq := workq h - {c}\<rparr>;
          (item, h2) =
            (if e \<noteq> None then ((None, e), h1\<lparr>shut := insert c (shut h1)\<rparr>)
             else if h_closed h1 then ((Some c, Some ErrClosed), h1\<lparr>shut := insert c (shut h1)\<rparr>)
             else ((Some c, None), h1))
      in h2\<lparr>doneq := doneq h2 @ [item]\<rparr>)"

section \<open>Runs\<close>

inductive hs_step :: "handshaker \<Rightarrow> handshaker \<Rightarrow> bool" where
  hs_start: "c \<notin> started h \<Longrightarrow> hs_step h (hs_Start c h)"
| hs_work: "c \<in> workq h \<Longrightarrow> hs_step h (hs_worker c e h)"
| hs_wait: "hs_Wait h = Some (h', c, e) \<Longrightarrow> hs_step h h'"
| hs_close: "hs_step h (hs_Close h)"

inductive_cases hs_stepE: "hs_step h h'"

text \<open>Where the connections are: under work, waiting to be returned, returned, or closed.\<close>

definition waiting :: "handshaker \<Rightarrow> nat list" where
  "waiting h = List.map_filter (\<lambda>(c, e). if e = None then c else None) (doneq h)"

definition hs_inv :: "handshaker \<Rightarrow> bool" where
  "hs_inv h \<longleftrightarrow> distinct (given h @ waiting h) \<and> workq h \<subseteq> started h \<and>
     set (given h) \<union> set (waiting h) \<subseteq> started h - workq h - shut h \<and>
     started h \<subseteq> workq h \<union> set (given h) \<union> set (waiting h) \<union> shut h \<and> shut h \<subseteq> started h \<and>
     (\<forall>c e. (Some c, Some e) \<in> set (doneq h) \<longrightarrow> c \<in> shut h) \<and> (h_closed h \<longrightarrow> waiting h = []) \<and>
     (\<not> h_closed h \<longrightarrow> (\<forall>(c, e)\<in>set (doneq h). c = None \<longleftrightarrow> e \<noteq> None) \<and> workq h \<inter> shut h = {})"

lemma waiting_simps [simp]:
  "waiting (h\<lparr>doneq := []\<rparr>) = []" "waiting (h\<lparr>workq := w\<rparr>) = waiting h" "waiting (h\<lparr>shut := z\<rparr>) = waiting h"
  "waiting (h\<lparr>given := g\<rparr>) = waiting h" "waiting (h\<lparr>started := z\<rparr>) = waiting h" "waiting (h\<lparr>h_closed := b\<rparr>) = waiting h"
  "waiting (h\<lparr>doneq := q @ [(Some c, None)]\<rparr>) = waiting (h\<lparr>doneq := q\<rparr>) @ [c]"
  "waiting (h\<lparr>doneq := q @ [(c', Some e)]\<rparr>) = waiting (h\<lparr>doneq := q\<rparr>)"
  "waiting (h\<lparr>doneq := doneq h\<rparr>) = waiting h"
  by (simp_all add: waiting_def List.map_filter_def)

lemma drain_doneq_eq: "drain_doneq q cl = cl \<union> {p. \<exists>e. (Some p, e) \<in> set q}"
  by (induction q cl rule: drain_doneq.induct) (auto split: option.splits)

lemma set_map_filter_iff: "x \<in> set (List.map_filter f xs) \<longleftrightarrow> (\<exists>y\<in>set xs. f y = Some x)"
  by (auto simp: List.map_filter_def image_iff)

lemma set_waiting: "set (waiting h) = {c. (Some c, None) \<in> set (doneq h)}"
proof -
  have "(case y of (c, e) \<Rightarrow> if e = None then c else None) = Some x \<longleftrightarrow> y = (Some x, None)" for y :: "nat option \<times> status" and x
    by (cases y) auto
  then show ?thesis unfolding waiting_def by (intro set_eqI) (simp only: set_map_filter_iff mem_Collect_eq, blast)
qed

lemma drain_waiting:
  assumes "\<forall>c e. (Some c, Some e) \<in> set (doneq h) \<longrightarrow> c \<in> shut h"
  shows "drain_doneq (doneq h) (shut h \<union> w) = shut h \<union> w \<union> set (waiting h)"
  unfolding drain_doneq_eq set_waiting using assms by (auto, metis option.exhaust)

lemma hs_step_inv:
  assumes "hs_step h h'" and inv: "hs_inv h"
  shows "hs_inv h'"
  using assms(1)
proof cases
  case (hs_start c)
  then show ?thesis using inv by (auto simp: hs_inv_def hs_Start_def)
next
  case (hs_work c e)
  show ?thesis
  proof (cases e)
    case None
    then show ?thesis using inv hs_work
      by (cases "h_closed h") (auto simp: hs_inv_def hs_worker_def Let_def)
  next
    case (Some x)
    then show ?thesis using inv hs_work
      by (cases "h_closed h") (auto simp: hs_inv_def hs_worker_def Let_def)
  qed
next
  case (hs_wait c e)
  show ?thesis
  proof (cases "h_closed h")
    case True
    then show ?thesis using hs_wait inv by (simp add: hs_Wait_def)
  next
    case False
    then obtain q where q: "doneq h = (c, e) # q" "h' = h\<lparr>doneq := q, given := given h @ (case c of Some p \<Rightarrow> [p] | None \<Rightarrow> [])\<rparr>"
      using hs_wait by (cases "doneq h") (auto simp: hs_Wait_def Let_def split: prod.splits)
    have "c = None \<longleftrightarrow> e \<noteq> None" using inv False q by (auto simp: hs_inv_def)
    then consider p where "c = Some p" "e = None" "waiting h = p # waiting (h\<lparr>doneq := q\<rparr>)"
      | x where "c = None" "e = Some x" "waiting h = waiting (h\<lparr>doneq := q\<rparr>)"
      using q by (cases c; cases e) (auto simp: waiting_def List.map_filter_def)
    then show ?thesis
      using inv False q by cases (auto simp: hs_inv_def)
  qed
next
  case hs_close
  then show ?thesis
    using inv drain_waiting [of h "workq h"] by (auto simp: hs_inv_def hs_Close_def)
qed

interpretation hs: machine "\<lambda>h. h = NewConnHandshaker" hs_step hs_inv
proof unfold_locales
  show "hs_inv h" if "h = NewConnHandshaker" for h
    using that by (simp add: hs_inv_def NewConnHandshaker_def waiting_def List.map_filter_def)
  show "hs_inv h'" if "hs_inv h" "hs_step h h'" for h h' using hs_step_inv that by blast
qed

section \<open>Properties\<close>

text \<open>
  C17: The handshaker neither leaks nor mixes up connections. In every run each connection it was
  given is under work, waiting to be returned, returned or closed; \<^verbatim>\<open>Wait\<close> returns a connection
  at most once and never one that the handshaker has closed. When \<^verbatim>\<open>Close\<close> returns, every
  connection it was given and did not return is closed, and a connection that is started
  later is closed by its worker, whatever the handshake says.
\<close>

theorem handshaker_no_leak:
  assumes "hs_step\<^sup>*\<^sup>* NewConnHandshaker h"
  shows "distinct (given h) \<and> set (given h) \<inter> shut h = {} \<and>
    started h = workq h \<union> set (waiting h) \<union> set (given h) \<union> shut h \<and>
    started h \<subseteq> set (given (hs_Close h)) \<union> shut (hs_Close h) \<and>
    (h_closed h \<longrightarrow> waiting h = [] \<and> (\<forall>c\<in>workq h. \<forall>e. c \<in> shut (hs_worker c e h)))"
proof -
  have inv: "hs_inv h" by (rule hs.reachable_inv [OF refl assms])
  have "started h \<subseteq> set (given (hs_Close h)) \<union> shut (hs_Close h)"
    using inv drain_waiting [of h "workq h"] by (auto simp: hs_inv_def hs_Close_def)
  moreover have "c \<in> shut (hs_worker c e h)" if "h_closed h" for c e
    using that by (simp add: hs_worker_def Let_def)
  ultimately show ?thesis using inv unfolding hs_inv_def by auto
qed

definition hs2 :: handshaker where
  "hs2 = hs_worker 4 None (hs_Start 5 (hs_Start 4 NewConnHandshaker))"

theorem handshaker_no_leak_witness:
  "hs_Wait hs2 \<noteq> None \<and> shut (hs_Close hs2) = {4, 5} \<and> started hs2 \<subseteq> set (given (hs_Close hs2)) \<union> shut (hs_Close hs2)"
proof -
  have "hs_step NewConnHandshaker (hs_Start 4 NewConnHandshaker)"
    by (rule hs_start) (simp add: NewConnHandshaker_def)
  moreover have "hs_step (hs_Start 4 NewConnHandshaker) (hs_Start 5 (hs_Start 4 NewConnHandshaker))"
    by (rule hs_start) (simp add: NewConnHandshaker_def hs_Start_def)
  moreover have "hs_step (hs_Start 5 (hs_Start 4 NewConnHandshaker)) hs2"
    unfolding hs2_def by (rule hs_work) (simp add: NewConnHandshaker_def hs_Start_def)
  ultimately have "hs_step\<^sup>*\<^sup>* NewConnHandshaker hs2" by (meson converse_rtranclp_into_rtranclp r_into_rtranclp)
  from handshaker_no_leak [OF this] show ?thesis
    by (auto simp: hs2_def hs_worker_def hs_Start_def NewConnHandshaker_def hs_Wait_def hs_Close_def Let_def)
qed

end
