(* ===== verification/StreamEnds.thy ===== *)
theory StreamEnds
  imports CoreSocket Handshaker
begin

text \<open>
  Dialers and listeners of the stream transports, \<^verbatim>\<open>transport/tcp/tcp.go\<close>,
  \<^verbatim>\<open>transport/tlstcp/tlstcp.go\<close>, \<^verbatim>\<open>transport/unix/unix.go\<close> with \<^verbatim>\<open>unix_posix.go\<close>, and the alias
  \<^verbatim>\<open>transport/ipc/ipc.go\<close>: their options, how they are made, and \<^verbatim>\<open>Dial\<close>. The \<^verbatim>\<open>net\<close> and
  \<^verbatim>\<open>crypto/tls\<close> packages are arguments: resolving a name, connecting, the TLS handshake, turning a file
  descriptor into a listener. The life of listeners is in \<open>StreamListeners\<close>.
\<close>

section \<open>What an endpoint promises of its options\<close>

text \<open>
  The Go types that \<^verbatim>\<open>options.go\<close>, \<^verbatim>\<open>unix_options.go\<close>, \<^verbatim>\<open>winpipe_options.go\<close> and \<^verbatim>\<open>ws.go\<close> document for the options of endpoints. A name
  that is not listed has no type, so an endpoint that keeps the laws below refuses it.
\<close>

definition OptionSocketPermissions :: string where [option_names]: "OptionSocketPermissions = ''UNIX-IPC-CHMOD''"
definition OptionSocketOwner :: string where [option_names]: "OptionSocketOwner = ''UNIX-IPC-OWNER''"
definition OptionWebSocketCheckOrigin :: string where [option_names]: "OptionWebSocketCheckOrigin = ''WEBSOCKET-CHECKORIGIN''"
definition OptionWebSocketFollowRedirects :: string where
  [option_names]: "OptionWebSocketFollowRedirects = ''WEBSOCKET-FOLLOWREDIRECTS''"
definition OptionSecurityDescriptor :: string where [option_names]: "OptionSecurityDescriptor = ''WIN-IPC-SECURITY-DESCRIPTOR''"
definition OptionInputBufferSize :: string where [option_names]: "OptionInputBufferSize = ''WIN-IPC-INPUT-BUFFER-SIZE''"
definition OptionOutputBufferSize :: string where [option_names]: "OptionOutputBufferSize = ''WIN-IPC-OUTPUT-BUFFER-SIZE''"
definition OptionSocketGroup :: string where [option_names]: "OptionSocketGroup = ''UNIX-IPC-GROUP''"

definition opt_type :: "string \<Rightarrow> optval \<Rightarrow> bool" where
  "opt_type n v \<longleftrightarrow>
     (if n \<in> {OptionMaxRecvSize, OptionListenFD, OptionSocketFD, OptionSocketOwner, OptionSocketGroup} then asInt v \<noteq> None
      else if n = OptionKeepAliveTime then asDuration v \<noteq> None
      else if n \<in> {OptionKeepAlive, OptionNoDelay, OptionWebSocketCheckOrigin, OptionWebSocketFollowRedirects} then asBool v \<noteq> None
      else if n = OptionTLSConfig then asTLS v \<noteq> None
      else if n = OptionSocketPermissions then (\<exists>m. v = VUint32 m \<or> v = VFileMode m)
      else if n \<in> {OptionInputBufferSize, OptionOutputBufferSize} then asInt32 v \<noteq> None
      else if n = OptionSecurityDescriptor then asString v \<noteq> None
      else False)"

text \<open>A sequence of settings, refused ones included, and what types promise after any of them.\<close>

definition settings :: "(string \<Rightarrow> optval \<Rightarrow> 's \<Rightarrow> 's \<times> status) \<Rightarrow> (string \<times> optval) list \<Rightarrow> 's \<Rightarrow> 's" where
  "settings so xs s = fold (\<lambda>(n, v) s. fst (so n v s)) xs s"

definition typed_from :: "(string \<Rightarrow> optval \<Rightarrow> 's \<Rightarrow> 's \<times> status) \<Rightarrow> (string \<Rightarrow> 's \<Rightarrow> err + optval) \<Rightarrow> 's \<Rightarrow> bool" where
  "typed_from so go s0 \<longleftrightarrow>
     (\<forall>xs n v. (go n (settings so xs s0) = Inr v \<longrightarrow> opt_type n v) \<and>
        (\<not> opt_type n v \<longrightarrow> snd (so n v (settings so xs s0)) \<noteq> None \<and> fst (so n v (settings so xs s0)) = settings so xs s0))"

text \<open>
  A value is taken, and given, with its documented type only. An option that is refused changes nothing; one that was set and can be read reads back; setting
  one leaves the others alone. Some names are kept for compatibility (\<open>legacy\<close>: the value is
  ignored), some share one field (\<open>shared\<close>). \<open>ok\<close> is what the endpoint keeps true of its state.
\<close>

locale tran_options =
  fixes so :: "string \<Rightarrow> optval \<Rightarrow> 's \<Rightarrow> 's \<times> status"
    and go :: "string \<Rightarrow> 's \<Rightarrow> err + optval"
    and legacy :: "string set"
    and shared :: "string set"
    and ok :: "'s \<Rightarrow> bool"
  assumes set_ok: "ok s \<Longrightarrow> ok (fst (so n v s))"
    and set_error: "snd (so n v s) \<noteq> None \<Longrightarrow> fst (so n v s) = s"
    and set_get: "snd (so n v s) = None \<Longrightarrow> go n s \<noteq> Inl ErrBadOption \<Longrightarrow> n \<notin> legacy \<Longrightarrow> go n (fst (so n v s)) = Inr v"
    and set_typed: "snd (so n v s) = None \<Longrightarrow> opt_type n v"
    and get_typed: "ok s \<Longrightarrow> go n s = Inr v \<Longrightarrow> opt_type n v"
    and set_other: "k \<noteq> n \<Longrightarrow> k \<notin> shared \<or> n \<notin> shared \<Longrightarrow> go k (fst (so n v s)) = go k s"
begin

lemma set_all_other: "n \<notin> fst ` set xs \<Longrightarrow> n \<notin> shared \<Longrightarrow> go n (settings so xs s) = go n s"
  by (induction xs arbitrary: s) (auto simp: settings_def set_other)

text \<open>Whatever was set, an option reads with its type.\<close>

lemma set_all_ok: "ok s \<Longrightarrow> ok (settings so xs s)"
  by (induction xs arbitrary: s) (auto simp: settings_def set_ok)

lemma typed_from: "ok s \<Longrightarrow> typed_from so go s"
  unfolding typed_from_def using get_typed set_all_ok set_typed set_error by meson

text \<open>A setting survives the settings of other names that follow.\<close>

lemma set_all_get:
  assumes "snd (so n v (settings so xs s)) = None" "go n s \<noteq> Inl ErrBadOption" "n \<notin> legacy" "n \<notin> shared"
    "n \<notin> fst ` set xs" "n \<notin> fst ` set ys"
  shows "go n (settings so (xs @ (n, v) # ys) s) = Inr v"
proof -
  have "settings so (xs @ (n, v) # ys) s = settings so ys (fst (so n v (settings so xs s)))" by (simp add: settings_def)
  then show ?thesis using assms set_get [of n v "settings so xs s"] by (simp add: set_all_other)
qed

end

section \<open>Dialers\<close>

record sdialer =
  sd_addr :: string
  sd_Self :: u16
  sd_Peer :: u16
  sd_maxRecvSize :: int
  sd_keepAlive :: int
  sd_config :: "tlsconf option"

definition new_sdialer :: "string \<Rightarrow> u16 \<Rightarrow> u16 \<Rightarrow> sdialer" where
  "new_sdialer a self peer =
     \<lparr>sd_addr = a, sd_Self = self, sd_Peer = peer, sd_maxRecvSize = 0, sd_keepAlive = 0, sd_config = None\<rparr>"

definition tcp_dialer_SetOption :: "string \<Rightarrow> optval \<Rightarrow> sdialer \<Rightarrow> sdialer \<times> status" where
  "tcp_dialer_SetOption n v d =
     (if n = OptionMaxRecvSize then set_field (asInt v) (\<lambda>b d. d\<lparr>sd_maxRecvSize := b\<rparr>) d
      else if n = OptionKeepAliveTime then set_field (asDuration v) (\<lambda>b d. d\<lparr>sd_keepAlive := b\<rparr>) d
      else if n = OptionKeepAlive then set_field (asBool v) (\<lambda>b d. d\<lparr>sd_keepAlive := (if b then 0 else - 1)\<rparr>) d
      else if n = OptionNoDelay then set_field (asBool v) (\<lambda>b d. d) d
      else (d, Some ErrBadOption))"

definition tcp_dialer_GetOption :: "string \<Rightarrow> sdialer \<Rightarrow> err + optval" where
  "tcp_dialer_GetOption n d =
     (if n = OptionMaxRecvSize then Inr (VInt (sd_maxRecvSize d))
      else if n = OptionKeepAliveTime then Inr (VDuration (sd_keepAlive d))
      else if n = OptionNoDelay then Inr (VBool True)
      else if n = OptionKeepAlive then Inr (VBool (sd_keepAlive d \<ge> 0))
      else Inl ErrBadOption)"

definition tls_dialer_SetOption :: "string \<Rightarrow> optval \<Rightarrow> sdialer \<Rightarrow> sdialer \<times> status" where
  "tls_dialer_SetOption n v d =
     (if n = OptionMaxRecvSize then set_field (asInt v) (\<lambda>b d. d\<lparr>sd_maxRecvSize := b\<rparr>) d
      else if n = OptionTLSConfig then set_field (asTLS v) (\<lambda>b d. d\<lparr>sd_config := b\<rparr>) d
      else if n = OptionKeepAliveTime then set_field (asDuration v) (\<lambda>b d. d\<lparr>sd_keepAlive := b\<rparr>) d
      else if n = OptionNoDelay then set_field (asBool v) (\<lambda>b d. d) d
      else if n = OptionKeepAlive then set_field (asBool v) (\<lambda>b d. d\<lparr>sd_keepAlive := (if b then 0 else - 1)\<rparr>) d
      else (d, Some ErrBadOption))"

definition tls_dialer_GetOption :: "string \<Rightarrow> sdialer \<Rightarrow> err + optval" where
  "tls_dialer_GetOption n d =
     (if n = OptionMaxRecvSize then Inr (VInt (sd_maxRecvSize d))
      else if n = OptionNoDelay then Inr (VBool True)
      else if n = OptionTLSConfig then Inr (VTLS (sd_config d))
      else if n = OptionKeepAlive then Inr (VBool (sd_keepAlive d \<ge> 0))
      else if n = OptionKeepAliveTime then Inr (VDuration (sd_keepAlive d))
      else Inl ErrBadOption)"

definition unix_dialer_SetOption :: "string \<Rightarrow> optval \<Rightarrow> sdialer \<Rightarrow> sdialer \<times> status" where
  "unix_dialer_SetOption n v d =
     (if n = OptionMaxRecvSize then set_field (asInt v) (\<lambda>b d. d\<lparr>sd_maxRecvSize := b\<rparr>) d
      else (d, Some ErrBadOption))"

definition unix_dialer_GetOption :: "string \<Rightarrow> sdialer \<Rightarrow> err + optval" where
  "unix_dialer_GetOption n d =
     (if n = OptionMaxRecvSize then Inr (VInt (sd_maxRecvSize d)) else Inl ErrBadOption)"

text \<open>
  The laws for one outcome: what \<open>clean\<close> says of a state and the outcome of a setting on it, \<open>typed\<close> says of
  a condition that taking the value implies. Both go through the branches of a setter.
\<close>

definition clean :: "'s \<Rightarrow> 's \<times> status \<Rightarrow> bool" where
  "clean s r \<longleftrightarrow> snd r = None \<or> fst r = s"

definition typed :: "bool \<Rightarrow> 's \<times> status \<Rightarrow> bool" where
  "typed b r \<longleftrightarrow> (snd r = None \<longrightarrow> b)"

lemma clean_typed_pair:
  "clean s (t, e) \<longleftrightarrow> e = None \<or> t = s" "typed b (t, e) \<longleftrightarrow> (e = None \<longrightarrow> b)"
  "clean s (set_field x f s)" "typed b (set_field x f s) \<longleftrightarrow> (x \<noteq> None \<longrightarrow> b)"
  by (simp_all add: clean_def typed_def set_field_def split: option.split)

lemma opt_type_simps:
  "opt_type OptionMaxRecvSize v \<longleftrightarrow> asInt v \<noteq> None" "opt_type OptionListenFD v \<longleftrightarrow> asInt v \<noteq> None"
  "opt_type OptionSocketOwner v \<longleftrightarrow> asInt v \<noteq> None" "opt_type OptionSocketGroup v \<longleftrightarrow> asInt v \<noteq> None"
  "opt_type OptionKeepAliveTime v \<longleftrightarrow> asDuration v \<noteq> None" "opt_type OptionKeepAlive v \<longleftrightarrow> asBool v \<noteq> None"
  "opt_type OptionNoDelay v \<longleftrightarrow> asBool v \<noteq> None" "opt_type OptionTLSConfig v \<longleftrightarrow> asTLS v \<noteq> None"
  "opt_type OptionSocketPermissions v \<longleftrightarrow> (\<exists>m. v = VUint32 m \<or> v = VFileMode m)"
  by (simp_all add: opt_type_def option_names)

lemmas dialer_sets = tcp_dialer_SetOption_def tls_dialer_SetOption_def unix_dialer_SetOption_def
lemmas dialer_gets = tcp_dialer_GetOption_def tls_dialer_GetOption_def unix_dialer_GetOption_def

lemma dialer_SetOption_clean:
  "clean d (tcp_dialer_SetOption n v d)" "clean d (tls_dialer_SetOption n v d)" "clean d (unix_dialer_SetOption n v d)"
  by (simp_all add: dialer_sets clean_typed_pair)

lemma dialer_SetOption_typed:
  "typed (opt_type n v) (tcp_dialer_SetOption n v d)" "typed (opt_type n v) (tls_dialer_SetOption n v d)"
  "typed (opt_type n v) (unix_dialer_SetOption n v d)"
  by (simp_all add: dialer_sets clean_typed_pair opt_type_simps)

lemma dialer_GetOption_typed:
  "tcp_dialer_GetOption n d = Inr v \<Longrightarrow> opt_type n v" "tls_dialer_GetOption n d = Inr v \<Longrightarrow> opt_type n v"
  "unix_dialer_GetOption n d = Inr v \<Longrightarrow> opt_type n v"
  by (auto simp: dialer_gets opt_type_simps split: if_splits)

lemma dialer_SetOption_fields:
  "n \<noteq> OptionMaxRecvSize \<Longrightarrow> sd_maxRecvSize (fst (tcp_dialer_SetOption n v d)) = sd_maxRecvSize d"
  "n \<notin> {OptionKeepAlive, OptionKeepAliveTime} \<Longrightarrow> sd_keepAlive (fst (tcp_dialer_SetOption n v d)) = sd_keepAlive d"
  "n \<noteq> OptionMaxRecvSize \<Longrightarrow> sd_maxRecvSize (fst (tls_dialer_SetOption n v d)) = sd_maxRecvSize d"
  "n \<notin> {OptionKeepAlive, OptionKeepAliveTime} \<Longrightarrow> sd_keepAlive (fst (tls_dialer_SetOption n v d)) = sd_keepAlive d"
  "n \<noteq> OptionTLSConfig \<Longrightarrow> sd_config (fst (tls_dialer_SetOption n v d)) = sd_config d"
  "n \<noteq> OptionMaxRecvSize \<Longrightarrow> sd_maxRecvSize (fst (unix_dialer_SetOption n v d)) = sd_maxRecvSize d"
  by (simp_all add: dialer_sets set_field_def split: option.split)

interpretation tcp_dialer: tran_options tcp_dialer_SetOption tcp_dialer_GetOption "{OptionNoDelay}" "{OptionKeepAlive, OptionKeepAliveTime}" "\<lambda>_. True"
proof
  fix n k v and d :: sdialer
  show "fst (tcp_dialer_SetOption n v d) = d" if "snd (tcp_dialer_SetOption n v d) \<noteq> None"
    using that dialer_SetOption_clean(1) [of d n v] by (auto simp: clean_def)
  show "opt_type n v" if "snd (tcp_dialer_SetOption n v d) = None"
    using that dialer_SetOption_typed(1) [of n v d] by (simp add: typed_def)
  show "opt_type n v" if "tcp_dialer_GetOption n d = Inr v" using that by (rule dialer_GetOption_typed(1))
  show "tcp_dialer_GetOption n (fst (tcp_dialer_SetOption n v d)) = Inr v"
    if set: "snd (tcp_dialer_SetOption n v d) = None" and get: "tcp_dialer_GetOption n d \<noteq> Inl ErrBadOption" and "n \<notin> {OptionNoDelay}"
  proof -
    have "n \<in> {OptionMaxRecvSize, OptionKeepAliveTime, OptionKeepAlive}" using get \<open>n \<notin> {OptionNoDelay}\<close> by (simp add: dialer_gets split: if_splits)
    then show ?thesis using set
      by (elim insertE) (simp_all add: dialer_sets dialer_gets set_field_def option_names split: option.splits)
  qed
  show "tcp_dialer_GetOption k (fst (tcp_dialer_SetOption n v d)) = tcp_dialer_GetOption k d"
    if "k \<noteq> n" "k \<notin> {OptionKeepAlive, OptionKeepAliveTime} \<or> n \<notin> {OptionKeepAlive, OptionKeepAliveTime}"
    using that by (auto simp: tcp_dialer_GetOption_def dialer_SetOption_fields)
qed

interpretation tls_dialer: tran_options tls_dialer_SetOption tls_dialer_GetOption "{OptionNoDelay}" "{OptionKeepAlive, OptionKeepAliveTime}" "\<lambda>_. True"
proof
  fix n k v and d :: sdialer
  show "fst (tls_dialer_SetOption n v d) = d" if "snd (tls_dialer_SetOption n v d) \<noteq> None"
    using that dialer_SetOption_clean(2) [of d n v] by (auto simp: clean_def)
  show "opt_type n v" if "snd (tls_dialer_SetOption n v d) = None"
    using that dialer_SetOption_typed(2) [of n v d] by (simp add: typed_def)
  show "opt_type n v" if "tls_dialer_GetOption n d = Inr v" using that by (rule dialer_GetOption_typed(2))
  show "tls_dialer_GetOption n (fst (tls_dialer_SetOption n v d)) = Inr v"
    if set: "snd (tls_dialer_SetOption n v d) = None" and get: "tls_dialer_GetOption n d \<noteq> Inl ErrBadOption" and "n \<notin> {OptionNoDelay}"
  proof -
    have "n \<in> {OptionMaxRecvSize, OptionTLSConfig, OptionKeepAliveTime, OptionKeepAlive}" using get \<open>n \<notin> {OptionNoDelay}\<close> by (simp add: dialer_gets split: if_splits)
    then show ?thesis using set
      by (elim insertE) (simp_all add: dialer_sets dialer_gets set_field_def option_names split: option.splits)
  qed
  show "tls_dialer_GetOption k (fst (tls_dialer_SetOption n v d)) = tls_dialer_GetOption k d"
    if "k \<noteq> n" "k \<notin> {OptionKeepAlive, OptionKeepAliveTime} \<or> n \<notin> {OptionKeepAlive, OptionKeepAliveTime}"
    using that by (auto simp: tls_dialer_GetOption_def dialer_SetOption_fields)
qed

interpretation unix_dialer: tran_options unix_dialer_SetOption unix_dialer_GetOption "{}" "{}" "\<lambda>_. True"
proof
  fix n k v and d :: sdialer
  show "fst (unix_dialer_SetOption n v d) = d" if "snd (unix_dialer_SetOption n v d) \<noteq> None"
    using that dialer_SetOption_clean(3) [of d n v] by (auto simp: clean_def)
  show "opt_type n v" if "snd (unix_dialer_SetOption n v d) = None"
    using that dialer_SetOption_typed(3) [of n v d] by (simp add: typed_def)
  show "opt_type n v" if "unix_dialer_GetOption n d = Inr v" using that by (rule dialer_GetOption_typed(3))
  show "unix_dialer_GetOption n (fst (unix_dialer_SetOption n v d)) = Inr v"
    if set: "snd (unix_dialer_SetOption n v d) = None" and get: "unix_dialer_GetOption n d \<noteq> Inl ErrBadOption" and "n \<notin> {}"
  proof -
    have "n \<in> {OptionMaxRecvSize}" using get \<open>n \<notin> {}\<close> by (simp add: dialer_gets split: if_splits)
    then show ?thesis using set
      by (elim insertE) (simp_all add: dialer_sets dialer_gets set_field_def option_names split: option.splits)
  qed
  show "unix_dialer_GetOption k (fst (unix_dialer_SetOption n v d)) = unix_dialer_GetOption k d"
    if "k \<noteq> n" "k \<notin> {} \<or> n \<notin> {}"
    using that by (auto simp: unix_dialer_GetOption_def dialer_SetOption_fields)
qed

section \<open>Dialing\<close>

text \<open>
  A network connection: the chunks it will deliver, how much it takes, and its two addresses.
\<close>

type_synonym netconn = "bytes list \<times> nat option \<times> optval \<times> optval"

definition ResolveTCPAddr :: "(string \<Rightarrow> err + string) \<Rightarrow> string \<Rightarrow> err + string" where
  "ResolveTCPAddr resolve addr = resolve (if starts_with ''*'' addr then drop 1 addr else addr)"

text \<open>
  The common end: a pipe with the receive limit and further properties, then the handshake.
  \<open>None\<close> is a panic.
\<close>

fun set_props :: "(string \<times> optval) list \<Rightarrow> conn \<Rightarrow> conn option" where
  "set_props [] p = Some p"
| "set_props ((n, v) # xs) p = Option.bind (conn_SetOption n v p) (set_props xs)"

definition endpoint_pipe :: "int \<Rightarrow> (string \<times> optval) list \<Rightarrow> u16 \<Rightarrow> u16 \<Rightarrow> netconn \<Rightarrow> conn option" where
  "endpoint_pipe mx props self peer c =
     (case c of (cs, rm, la, ra) \<Rightarrow> set_props ((OptionMaxRecvSize, VInt mx) # props) (NewConnPipe cs rm la ra self peer))"

definition finish_dial :: "sdialer \<Rightarrow> (string \<times> optval) list \<Rightarrow> netconn \<Rightarrow> (err + conn) option" where
  "finish_dial d props c =
     (case endpoint_pipe (sd_maxRecvSize d) props (sd_Self d) (sd_Peer d) c of
        None \<Rightarrow> None
      | Some p \<Rightarrow> (case conn_handshake False p of (Some e, p1) \<Rightarrow> Some (Inl e) | (None, p1) \<Rightarrow> Some (Inr p1)))"

definition tcp_Dial :: "(string \<Rightarrow> err + string) \<Rightarrow> (string \<Rightarrow> err + netconn) \<Rightarrow> sdialer \<Rightarrow> (err + conn) option" where
  "tcp_Dial resolve connect d =
     (case ResolveTCPAddr resolve (sd_addr d) of
        Inl e \<Rightarrow> Some (Inl e)
      | Inr a \<Rightarrow> (case connect a of Inl e \<Rightarrow> Some (Inl e) | Inr c \<Rightarrow> finish_dial d [] c))"

definition last_index :: "char \<Rightarrow> string \<Rightarrow> nat option" where
  "last_index c s = (if c \<in> set s then Some (length s - Suc (length (takeWhile (\<lambda>x. x \<noteq> c) (rev s)))) else None)"

definition client_config :: "sdialer \<Rightarrow> tlsconf option" where
  "client_config d =
     (let c = (case sd_config d of Some c \<Rightarrow> c | None \<Rightarrow> \<lparr>tls_ncerts = 0, tls_getCertificate = False, tls_ServerName = []\<rparr>)
      in if tls_ServerName c = []
         then map_option (\<lambda>i. c\<lparr>tls_ServerName := take i (sd_addr d)\<rparr>) (last_index CHR '':'' (sd_addr d))
         else Some c)"

text \<open>\<open>tls\<close> is the client handshake: it gives the encrypted connection and its state.\<close>

definition tls_Dial ::
    "(string \<Rightarrow> err + string) \<Rightarrow> (string \<Rightarrow> err + netconn) \<Rightarrow> (tlsconf \<Rightarrow> netconn \<Rightarrow> err + netconn \<times> optval) \<Rightarrow>
     sdialer \<Rightarrow> (err + conn) option" where
  "tls_Dial resolve connect tls d =
     (case ResolveTCPAddr resolve (sd_addr d) of
        Inl e \<Rightarrow> Some (Inl e)
      | Inr a \<Rightarrow>
          (case connect a of
             Inl e \<Rightarrow> Some (Inl e)
           | Inr c \<Rightarrow>
               (case client_config d of
                  None \<Rightarrow> None
                | Some cfg \<Rightarrow>
                    (case tls cfg c of
                       Inl e \<Rightarrow> Some (Inl e)
                     | Inr (c1, st) \<Rightarrow> finish_dial d [(OptionTLSConnState, st)] c1))))"

text \<open>\<open>cred\<close> are the properties that \<^verbatim>\<open>getPeer\<close> finds.\<close>

definition peer_props :: "(int \<times> int \<times> int) option \<Rightarrow> (string \<times> optval) list" where
  "peer_props cred =
     (case cred of
        None \<Rightarrow> []
      | Some (pid, uid, gid) \<Rightarrow> [(OptionPeerPID, VInt pid), (OptionPeerUID, VInt uid), (OptionPeerGID, VInt gid)])"

definition unix_Dial :: "(string \<Rightarrow> err + netconn) \<Rightarrow> (int \<times> int \<times> int) option \<Rightarrow> sdialer \<Rightarrow> (err + conn) option" where
  "unix_Dial connect cred d =
     (case connect (sd_addr d) of
        Inl e \<Rightarrow> Some (Inl e)
      | Inr c \<Rightarrow> finish_dial d (peer_props cred) c)"

section \<open>Making endpoints\<close>

definition tran_of :: "string \<Rightarrow> unit transport" where
  "tran_of scheme = \<lparr>tr_Scheme = scheme, tr_NewDialer = (\<lambda>_. Inr ()), tr_NewListener = (\<lambda>_. Inr ())\<rparr>"

definition tcp_NewDialer :: "(string \<Rightarrow> err + string) \<Rightarrow> u16 \<Rightarrow> u16 \<Rightarrow> string \<Rightarrow> err + sdialer" where
  "tcp_NewDialer resolve self peer addr =
     (case StripScheme (tran_of ''tcp'') addr of
        (_, Some e) \<Rightarrow> Inl e
      | (a, None) \<Rightarrow> (case ResolveTCPAddr resolve a of Inl e \<Rightarrow> Inl e | Inr _ \<Rightarrow> Inr (new_sdialer a self peer)))"

definition tls_NewDialer :: "(string \<Rightarrow> err + string) \<Rightarrow> u16 \<Rightarrow> u16 \<Rightarrow> string \<Rightarrow> err + sdialer" where
  "tls_NewDialer resolve self peer addr =
     (case StripScheme (tran_of ''tls+tcp'') addr of
        (_, Some e) \<Rightarrow> Inl e
      | (a, None) \<Rightarrow> (case ResolveTCPAddr resolve a of Inl e \<Rightarrow> Inl e | Inr _ \<Rightarrow> Inr (new_sdialer a self peer)))"

definition unix_NewDialer :: "u16 \<Rightarrow> u16 \<Rightarrow> string \<Rightarrow> err + sdialer" where
  "unix_NewDialer self peer addr =
     (case StripScheme (tran_of ''unix'') addr of (_, Some e) \<Rightarrow> Inl e | (a, None) \<Rightarrow> Inr (new_sdialer a self peer))"

definition ipc_NewDialer :: "u16 \<Rightarrow> u16 \<Rightarrow> string \<Rightarrow> err + sdialer" where
  "ipc_NewDialer self peer addr =
     (case StripScheme (tran_of ''ipc'') addr of
        (_, Some e) \<Rightarrow> Inl e | (path, None) \<Rightarrow> unix_NewDialer self peer (''unix'' @ ''://'' @ path))"

section \<open>What dialing gives\<close>

text \<open>The limit goes into the pipe; further properties do not disturb it, and nothing here panics.\<close>

lemma set_props_ok:
  assumes "OptionMaxRecvSize \<notin> fst ` set props"
  shows "\<exists>q. set_props props p = Some q \<and> maxrx q = maxrx p \<and> proto_Self q = proto_Self p \<and> proto_Peer q = proto_Peer p \<and>
    rx q = rx p \<and> c_open q = c_open p \<and> c_shut q = c_shut p \<and> hung_up q = hung_up p"
  using assms
proof (induction props arbitrary: p)
  case (Cons x props)
  obtain n v where x: "x = (n, v)" by (cases x)
  then have c: "conn_SetOption n v p = Some (p\<lparr>options := (options p)(n \<mapsto> v)\<rparr>)" using Cons.prems by (auto simp: conn_SetOption_def)
  show ?case using Cons.IH [of "p\<lparr>options := (options p)(n \<mapsto> v)\<rparr>"] Cons.prems by (auto simp: x c)
qed simp

lemma endpoint_pipe_ok:
  assumes "OptionMaxRecvSize \<notin> fst ` set props"
  obtains p where "endpoint_pipe mx props self peer c = Some p" "maxrx p = mx" "proto_Self p = self" "proto_Peer p = peer"
    "rx p = fst c" "\<not> c_open p" "\<not> c_shut p" "\<not> hung_up p"
proof -
  obtain cs rm la ra where c: "c = (cs, rm, la, ra)" by (cases c)
  let ?p = "NewConnPipe cs rm la ra self peer"
  let ?q = "?p\<lparr>maxrx := mx, options := (options ?p)(OptionMaxRecvSize \<mapsto> VInt mx)\<rparr>"
  have "endpoint_pipe mx props self peer c = set_props props ?q" by (simp add: endpoint_pipe_def c conn_SetOption_def)
  with set_props_ok [OF assms, of ?q] that show thesis by (auto simp: c NewConnPipe_def)
qed

end
