(* ===== verification/StreamListeners.thy ===== *)
theory StreamListeners
  imports StreamEnds
begin

text \<open>
  Listeners of \<^verbatim>\<open>transport/tcp/tcp.go\<close>, \<^verbatim>\<open>transport/tlstcp/tlstcp.go\<close>, \<^verbatim>\<open>transport/unix/unix.go\<close>
  (with \<^verbatim>\<open>unix_posix.go\<close>) and the alias \<^verbatim>\<open>transport/ipc/ipc.go\<close>: options, \<^verbatim>\<open>Listen\<close>, the accept loop,
  \<^verbatim>\<open>Accept\<close> and \<^verbatim>\<open>Close\<close>, as sequences of lock regions that other calls can come between.

  A listening socket is a number with its address; the operating system's answers (a new socket, an
  error, what a file descriptor is) are arguments. Besides the fields of the code the record has:
  \<open>sl_open\<close>, the listening sockets that are open; \<open>sl_entered\<close>, a call of \<^verbatim>\<open>Listen\<close> has passed its check
  of the close channel; \<open>sl_late\<close>, one has gone on although the listener had been closed meanwhile;
  \<open>sl_phase\<close>, how far \<^verbatim>\<open>Close\<close> is (1: channel closed, 2: sockets closed, 3: done); and the
  connections: all accepted (\<open>sl_conns\<close>), those that the accept loop or the goroutine it started holds
  (\<open>sl_local\<close>), under their TLS handshake (\<open>sl_run\<close>), closed by the listener (\<open>sl_cshut\<close>).
\<close>

type_synonym lsocket = "nat \<times> string"

record slistener =
  sl_addr :: string
  sl_Self :: u16
  sl_Peer :: u16
  sl_maxRecvSize :: int
  sl_keepAlive :: int
  sl_config :: "tlsconf option"
  sl_owner :: int
  sl_group :: int
  sl_chown :: bool
  sl_mode :: u32
  sl_chmod :: bool
  sl_l :: "lsocket option"
  sl_activated :: "lsocket option"
  sl_bound :: "string option"
  sl_closeq :: bool
  sl_once :: bool
  sl_pending :: "nat set"
  sl_hs :: handshaker
  sl_open :: "nat set"
  sl_entered :: bool
  sl_late :: bool
  sl_phase :: nat
  sl_conns :: "nat set"
  sl_local :: "nat set"
  sl_run :: "nat set"
  sl_cshut :: "nat set"

definition new_slistener :: "string \<Rightarrow> u16 \<Rightarrow> u16 \<Rightarrow> int \<Rightarrow> int \<Rightarrow> slistener" where
  "new_slistener a self peer uid gid =
     \<lparr>sl_addr = a, sl_Self = self, sl_Peer = peer, sl_maxRecvSize = 0, sl_keepAlive = 0, sl_config = None,
      sl_owner = uid, sl_group = gid, sl_chown = False, sl_mode = 0, sl_chmod = False, sl_l = None, sl_activated = None,
      sl_bound = None, sl_closeq = False, sl_once = False, sl_pending = {}, sl_hs = NewConnHandshaker, sl_open = {},
      sl_entered = False, sl_late = False, sl_phase = 0, sl_conns = {}, sl_local = {}, sl_run = {}, sl_cshut = {}\<rparr>"

definition tcp_NewListener :: "u16 \<Rightarrow> u16 \<Rightarrow> string \<Rightarrow> err + slistener" where
  "tcp_NewListener self peer addr =
     (case StripScheme (tran_of ''tcp'') addr of (_, Some e) \<Rightarrow> Inl e | (a, None) \<Rightarrow> Inr (new_slistener a self peer 0 0))"

definition tls_NewListener :: "u16 \<Rightarrow> u16 \<Rightarrow> string \<Rightarrow> err + slistener" where
  "tls_NewListener self peer addr =
     (case StripScheme (tran_of ''tls+tcp'') addr of (_, Some e) \<Rightarrow> Inl e | (a, None) \<Rightarrow> Inr (new_slistener a self peer 0 0))"

definition unix_NewListener :: "int \<Rightarrow> int \<Rightarrow> u16 \<Rightarrow> u16 \<Rightarrow> string \<Rightarrow> err + slistener" where
  "unix_NewListener uid gid self peer addr =
     (case StripScheme (tran_of ''unix'') addr of (_, Some e) \<Rightarrow> Inl e | (a, None) \<Rightarrow> Inr (new_slistener a self peer uid gid))"

definition ipc_NewListener :: "int \<Rightarrow> int \<Rightarrow> u16 \<Rightarrow> u16 \<Rightarrow> string \<Rightarrow> err + slistener" where
  "ipc_NewListener uid gid self peer addr =
     (case StripScheme (tran_of ''ipc'') addr of
        (_, Some e) \<Rightarrow> Inl e | (path, None) \<Rightarrow> unix_NewListener uid gid self peer (''unix'' @ ''://'' @ path))"

section \<open>Options\<close>

text \<open>\<open>net\<close> is \<^verbatim>\<open>net.FileListener\<close>: the socket, and whether it has the kind that the transport needs.\<close>

definition FileListener :: "(int \<Rightarrow> err + lsocket \<times> bool) \<Rightarrow> int \<Rightarrow> err + lsocket \<times> bool" where
  "FileListener net fd = (if fd < 0 then Inl ErrBadValue else net fd)"

definition set_ListenFD :: "(int \<Rightarrow> err + lsocket \<times> bool) \<Rightarrow> optval \<Rightarrow> slistener \<Rightarrow> slistener \<times> status" where
  "set_ListenFD net v l =
     (if sl_closeq l then (l, Some ErrClosed)
      else
        case asInt v of
          None \<Rightarrow> (l, Some ErrBadValue)
        | Some fd \<Rightarrow>
            if sl_l l \<noteq> None \<or> sl_activated l \<noteq> None then (l, Some ErrBadValue)
            else
              (case FileListener net fd of
                 Inl e \<Rightarrow> (l, Some e)
               | Inr (s, right_kind) \<Rightarrow>
                   if right_kind then (l\<lparr>sl_activated := Some s, sl_open := insert (fst s) (sl_open l)\<rparr>, None)
                   else (l, Some ErrBadValue)))"

definition tcp_listener_SetOption :: "(int \<Rightarrow> err + lsocket \<times> bool) \<Rightarrow> string \<Rightarrow> optval \<Rightarrow> slistener \<Rightarrow> slistener \<times> status" where
  "tcp_listener_SetOption net n v l =
     (if n = OptionListenFD then set_ListenFD net v l
      else if n = OptionMaxRecvSize then set_field (asInt v) (\<lambda>b l. l\<lparr>sl_maxRecvSize := b\<rparr>) l
      else if n = OptionKeepAliveTime then set_field (asDuration v) (\<lambda>b l. l\<lparr>sl_keepAlive := b\<rparr>) l
      else if n = OptionKeepAlive then set_field (asBool v) (\<lambda>b l. l\<lparr>sl_keepAlive := (if b then 0 else - 1)\<rparr>) l
      else if n = OptionNoDelay then set_field (asBool v) (\<lambda>b l. l) l
      else (l, Some ErrBadOption))"

definition tcp_listener_GetOption :: "string \<Rightarrow> slistener \<Rightarrow> err + optval" where
  "tcp_listener_GetOption n l =
     (if n = OptionMaxRecvSize then Inr (VInt (sl_maxRecvSize l))
      else if n = OptionKeepAliveTime then Inr (VDuration (sl_keepAlive l))
      else if n = OptionNoDelay then Inr (VBool True)
      else if n = OptionKeepAlive then Inr (VBool (sl_keepAlive l \<ge> 0))
      else Inl ErrBadOption)"

definition tls_listener_SetOption :: "(int \<Rightarrow> err + lsocket \<times> bool) \<Rightarrow> string \<Rightarrow> optval \<Rightarrow> slistener \<Rightarrow> slistener \<times> status" where
  "tls_listener_SetOption net n v l =
     (if n = OptionListenFD then set_ListenFD net v l
      else if n = OptionMaxRecvSize then set_field (asInt v) (\<lambda>b l. l\<lparr>sl_maxRecvSize := b\<rparr>) l
      else if n = OptionTLSConfig then set_field (asTLS v) (\<lambda>b l. l\<lparr>sl_config := b\<rparr>) l
      else if n = OptionKeepAliveTime then set_field (asDuration v) (\<lambda>b l. l\<lparr>sl_keepAlive := b\<rparr>) l
      else if n = OptionNoDelay then set_field (asBool v) (\<lambda>b l. l) l
      else if n = OptionKeepAlive then set_field (asBool v) (\<lambda>b l. l\<lparr>sl_keepAlive := (if b then 0 else - 1)\<rparr>) l
      else (l, Some ErrBadOption))"

definition tls_listener_GetOption :: "string \<Rightarrow> slistener \<Rightarrow> err + optval" where
  "tls_listener_GetOption n l =
     (if n = OptionMaxRecvSize then Inr (VInt (sl_maxRecvSize l))
      else if n = OptionTLSConfig then Inr (VTLS (sl_config l))
      else if n = OptionKeepAliveTime then Inr (VDuration (sl_keepAlive l))
      else if n = OptionNoDelay then Inr (VBool True)
      else if n = OptionKeepAlive then Inr (VBool (sl_keepAlive l \<ge> 0))
      else Inl ErrBadOption)"

text \<open>\<^verbatim>\<open>os.ModePerm\<close> is octal 777. The ownership options of \<^verbatim>\<open>unix_posix.go\<close>:\<close>

definition ModePerm :: u32 where "ModePerm = 511"

definition unix_setOption :: "string \<Rightarrow> optval \<Rightarrow> slistener \<Rightarrow> slistener \<times> status" where
  "unix_setOption n v l =
     (if n = OptionSocketPermissions then
        (case v of
           VUint32 b \<Rightarrow> if and b ModePerm = b then (l\<lparr>sl_mode := b, sl_chmod := True\<rparr>, None) else (l, Some ErrBadValue)
         | VFileMode b \<Rightarrow> if and b ModePerm = b then (l\<lparr>sl_mode := b, sl_chmod := True\<rparr>, None) else (l, Some ErrBadValue)
         | _ \<Rightarrow> (l, Some ErrBadValue))
      else if n = OptionSocketOwner then set_field (asInt v) (\<lambda>b l. l\<lparr>sl_owner := b, sl_chown := True\<rparr>) l
      else if n = OptionSocketGroup then set_field (asInt v) (\<lambda>b l. l\<lparr>sl_group := b, sl_chown := True\<rparr>) l
      else (l, Some ErrBadOption))"

definition unix_listener_SetOption :: "(int \<Rightarrow> err + lsocket \<times> bool) \<Rightarrow> string \<Rightarrow> optval \<Rightarrow> slistener \<Rightarrow> slistener \<times> status" where
  "unix_listener_SetOption net n v l =
     (if n = OptionListenFD then set_ListenFD net v l
      else if n = OptionMaxRecvSize then set_field (asInt v) (\<lambda>b l. l\<lparr>sl_maxRecvSize := b\<rparr>) l
      else unix_setOption n v l)"

definition unix_listener_GetOption :: "string \<Rightarrow> slistener \<Rightarrow> err + optval" where
  "unix_listener_GetOption n l =
     (if n = OptionMaxRecvSize then Inr (VInt (sl_maxRecvSize l)) else Inl ErrBadOption)"

lemma set_ListenFD_clean: "clean l (set_ListenFD net v l)" "asInt v \<noteq> None \<longrightarrow> b \<Longrightarrow> typed b (set_ListenFD net v l)"
  by (simp_all add: set_ListenFD_def clean_typed_pair split: option.split sum.split prod.split)

lemma set_ListenFD_keeps [simp]:
  "sl_maxRecvSize (fst (set_ListenFD net v l)) = sl_maxRecvSize l"
  "sl_keepAlive (fst (set_ListenFD net v l)) = sl_keepAlive l"
  "sl_config (fst (set_ListenFD net v l)) = sl_config l"
  by (simp_all add: set_ListenFD_def split: option.split sum.split prod.split)

lemmas listener_sets = tcp_listener_SetOption_def tls_listener_SetOption_def unix_listener_SetOption_def unix_setOption_def
lemmas listener_gets = tcp_listener_GetOption_def tls_listener_GetOption_def unix_listener_GetOption_def

lemma listener_SetOption_clean:
  "clean l (tcp_listener_SetOption net n v l)" "clean l (tls_listener_SetOption net n v l)"
  "clean l (unix_listener_SetOption net n v l)"
  by (simp_all add: listener_sets clean_typed_pair set_ListenFD_clean split: optval.split)

lemma listener_SetOption_typed:
  "typed (opt_type n v) (tcp_listener_SetOption net n v l)" "typed (opt_type n v) (tls_listener_SetOption net n v l)"
  "typed (opt_type n v) (unix_listener_SetOption net n v l)"
  by (simp_all add: listener_sets clean_typed_pair set_ListenFD_clean opt_type_simps split: optval.split)

lemma listener_GetOption_typed:
  "tcp_listener_GetOption n l = Inr v \<Longrightarrow> opt_type n v" "tls_listener_GetOption n l = Inr v \<Longrightarrow> opt_type n v"
  "unix_listener_GetOption n l = Inr v \<Longrightarrow> opt_type n v"
  by (auto simp: listener_gets opt_type_simps split: if_splits)

lemma listener_SetOption_fields:
  "n \<noteq> OptionMaxRecvSize \<Longrightarrow> sl_maxRecvSize (fst (tcp_listener_SetOption net n v l)) = sl_maxRecvSize l"
  "n \<notin> {OptionKeepAlive, OptionKeepAliveTime} \<Longrightarrow> sl_keepAlive (fst (tcp_listener_SetOption net n v l)) = sl_keepAlive l"
  "n \<noteq> OptionMaxRecvSize \<Longrightarrow> sl_maxRecvSize (fst (tls_listener_SetOption net n v l)) = sl_maxRecvSize l"
  "n \<notin> {OptionKeepAlive, OptionKeepAliveTime} \<Longrightarrow> sl_keepAlive (fst (tls_listener_SetOption net n v l)) = sl_keepAlive l"
  "n \<noteq> OptionTLSConfig \<Longrightarrow> sl_config (fst (tls_listener_SetOption net n v l)) = sl_config l"
  "n \<noteq> OptionMaxRecvSize \<Longrightarrow> sl_maxRecvSize (fst (unix_listener_SetOption net n v l)) = sl_maxRecvSize l"
  by (simp_all add: listener_sets set_field_def split: option.split optval.split)

lemma tcp_listener_set_get:
  assumes "snd (tcp_listener_SetOption net n v l) = None" "tcp_listener_GetOption n l \<noteq> Inl ErrBadOption" "n \<noteq> OptionNoDelay"
  shows "tcp_listener_GetOption n (fst (tcp_listener_SetOption net n v l)) = Inr v"
proof -
  have "n \<in> {OptionMaxRecvSize, OptionKeepAliveTime, OptionKeepAlive}" using assms(2,3) by (simp add: listener_gets split: if_splits)
  then show ?thesis using assms(1)
    by (elim insertE) (simp_all add: listener_sets listener_gets set_field_def option_names split: option.splits)
qed

lemma tls_listener_set_get:
  assumes "snd (tls_listener_SetOption net n v l) = None" "tls_listener_GetOption n l \<noteq> Inl ErrBadOption" "n \<noteq> OptionNoDelay"
  shows "tls_listener_GetOption n (fst (tls_listener_SetOption net n v l)) = Inr v"
proof -
  have "n \<in> {OptionMaxRecvSize, OptionTLSConfig, OptionKeepAliveTime, OptionKeepAlive}" using assms(2,3) by (simp add: listener_gets split: if_splits)
  then show ?thesis using assms(1)
    by (elim insertE) (simp_all add: listener_sets listener_gets set_field_def option_names split: option.splits)
qed

lemma unix_listener_set_get:
  assumes "snd (unix_listener_SetOption net n v l) = None" "unix_listener_GetOption n l \<noteq> Inl ErrBadOption" "n \<noteq> OptionNoDelay"
  shows "unix_listener_GetOption n (fst (unix_listener_SetOption net n v l)) = Inr v"
proof -
  have "n \<in> {OptionMaxRecvSize}" using assms(2,3) by (simp add: listener_gets split: if_splits)
  then show ?thesis using assms(1)
    by (elim insertE) (simp_all add: listener_sets listener_gets set_field_def option_names split: option.splits)
qed

interpretation tcp_listener: tran_options "tcp_listener_SetOption net" tcp_listener_GetOption "{OptionNoDelay}"
    "{OptionKeepAlive, OptionKeepAliveTime}" "\<lambda>_. True"
proof
  fix n k v and l :: slistener
  show "fst (tcp_listener_SetOption net n v l) = l" if "snd (tcp_listener_SetOption net n v l) \<noteq> None"
    using that listener_SetOption_clean(1) [of l net n v] by (auto simp: clean_def)
  show "opt_type n v" if "snd (tcp_listener_SetOption net n v l) = None"
    using that listener_SetOption_typed(1) [of n v net l] by (simp add: typed_def)
  show "opt_type n v" if "tcp_listener_GetOption n l = Inr v" using that by (rule listener_GetOption_typed(1))
  show "tcp_listener_GetOption n (fst (tcp_listener_SetOption net n v l)) = Inr v"
    if "snd (tcp_listener_SetOption net n v l) = None" "tcp_listener_GetOption n l \<noteq> Inl ErrBadOption" "n \<notin> {OptionNoDelay}"
    using tcp_listener_set_get that by blast
  show "tcp_listener_GetOption k (fst (tcp_listener_SetOption net n v l)) = tcp_listener_GetOption k l"
    if "k \<noteq> n" "k \<notin> {OptionKeepAlive, OptionKeepAliveTime} \<or> n \<notin> {OptionKeepAlive, OptionKeepAliveTime}"
    using that by (auto simp: tcp_listener_GetOption_def listener_SetOption_fields)
qed

interpretation tls_listener: tran_options "tls_listener_SetOption net" tls_listener_GetOption "{OptionNoDelay}"
    "{OptionKeepAlive, OptionKeepAliveTime}" "\<lambda>_. True"
proof
  fix n k v and l :: slistener
  show "fst (tls_listener_SetOption net n v l) = l" if "snd (tls_listener_SetOption net n v l) \<noteq> None"
    using that listener_SetOption_clean(2) [of l net n v] by (auto simp: clean_def)
  show "opt_type n v" if "snd (tls_listener_SetOption net n v l) = None"
    using that listener_SetOption_typed(2) [of n v net l] by (simp add: typed_def)
  show "opt_type n v" if "tls_listener_GetOption n l = Inr v" using that by (rule listener_GetOption_typed(2))
  show "tls_listener_GetOption n (fst (tls_listener_SetOption net n v l)) = Inr v"
    if "snd (tls_listener_SetOption net n v l) = None" "tls_listener_GetOption n l \<noteq> Inl ErrBadOption" "n \<notin> {OptionNoDelay}"
    using tls_listener_set_get that by blast
  show "tls_listener_GetOption k (fst (tls_listener_SetOption net n v l)) = tls_listener_GetOption k l"
    if "k \<noteq> n" "k \<notin> {OptionKeepAlive, OptionKeepAliveTime} \<or> n \<notin> {OptionKeepAlive, OptionKeepAliveTime}"
    using that by (auto simp: tls_listener_GetOption_def listener_SetOption_fields)
qed

interpretation unix_listener: tran_options "unix_listener_SetOption net" unix_listener_GetOption "{}" "{}" "\<lambda>_. True"
proof
  fix n k v and l :: slistener
  show "fst (unix_listener_SetOption net n v l) = l" if "snd (unix_listener_SetOption net n v l) \<noteq> None"
    using that listener_SetOption_clean(3) [of l net n v] by (auto simp: clean_def)
  show "opt_type n v" if "snd (unix_listener_SetOption net n v l) = None"
    using that listener_SetOption_typed(3) [of n v net l] by (simp add: typed_def)
  show "opt_type n v" if "unix_listener_GetOption n l = Inr v" using that by (rule listener_GetOption_typed(3))
  show "unix_listener_GetOption n (fst (unix_listener_SetOption net n v l)) = Inr v"
    if "snd (unix_listener_SetOption net n v l) = None" "unix_listener_GetOption n l \<noteq> Inl ErrBadOption"
    using unix_listener_set_get [OF that] that(2) by (auto simp: unix_listener_GetOption_def option_names split: if_splits)
  show "unix_listener_GetOption k (fst (unix_listener_SetOption net n v l)) = unix_listener_GetOption k l" if "k \<noteq> n"
    using that by (auto simp: unix_listener_GetOption_def listener_SetOption_fields)
qed

section \<open>Listen\<close>

text \<open>
  TCP: the check of the close channel is not under the lock. \<open>lr\<close> is the answer of \<^verbatim>\<open>net.ListenConfig.Listen\<close>.
\<close>

definition Listen_check :: "slistener \<Rightarrow> slistener \<times> status" where
  "Listen_check l = (if sl_closeq l then (l, Some ErrClosed) else (l\<lparr>sl_entered := True\<rparr>, None))"

definition past_check :: "slistener \<Rightarrow> slistener" where
  "past_check l = l\<lparr>sl_entered := False\<rparr>"

definition take_socket :: "lsocket \<Rightarrow> slistener \<Rightarrow> slistener" where
  "take_socket s l =
     l\<lparr>sl_l := Some s, sl_activated := None, sl_bound := Some (snd s), sl_open := insert (fst s) (sl_open l),
       sl_late := (sl_late l \<or> sl_closeq l)\<rparr>"

definition tcp_Listen_locked :: "err + lsocket \<Rightarrow> slistener \<Rightarrow> slistener \<times> status" where
  "tcp_Listen_locked lr l =
     (if sl_l l \<noteq> None then (past_check l, Some ErrAddrInUse)
      else
        case sl_activated l of
          Some s \<Rightarrow> (take_socket s (past_check l), None)
        | None \<Rightarrow> (case lr of Inl e \<Rightarrow> (past_check l, Some e) | Inr s \<Rightarrow> (take_socket s (past_check l), None)))"

definition tls_Listen_locked :: "err + lsocket \<Rightarrow> slistener \<Rightarrow> slistener \<times> status" where
  "tls_Listen_locked lr l =
     (case sl_config l of
        None \<Rightarrow> (past_check l, Some ErrTLSNoConfig)
      | Some cfg \<Rightarrow>
          if \<not> tls_getCertificate cfg \<and> tls_ncerts cfg = 0 then (past_check l, Some ErrTLSNoCert)
          else
            (case sl_activated l of
               Some s \<Rightarrow> (take_socket s (past_check l), None)
             | None \<Rightarrow> (case lr of Inl e \<Rightarrow> (past_check l, Some e) | Inr s \<Rightarrow> (take_socket s (past_check l), None))))"

text \<open>
  Unix: the whole call is under the lock. What is at a path, and what the system calls do with it: binding
  needs a free path, connecting to a socket nobody listens on is refused. \<open>env\<close> is an error that binding
  meets for another reason.
\<close>

datatype pathstate = Absent | NotSocket | Live | Stale

datatype permcall = Chown string int int | Chmod string u32

definition net_ListenUnix :: "status \<Rightarrow> nat \<Rightarrow> string \<Rightarrow> (string \<Rightarrow> pathstate) \<Rightarrow> (string \<Rightarrow> pathstate) \<times> (bool \<times> err + lsocket)" where
  "net_ListenUnix env fd a fs =
     (case env of
        Some e \<Rightarrow> (fs, Inl (False, e))
      | None \<Rightarrow> if fs a = Absent then (fs(a := Live), Inr (fd, a)) else (fs, Inl (True, ErrExternal 98)))"

definition removeStaleSocket :: "string \<Rightarrow> (string \<Rightarrow> pathstate) \<Rightarrow> (string \<Rightarrow> pathstate)" where
  "removeStaleSocket a fs =
     (if fs a = Absent \<or> fs a = NotSocket then fs
      else if fs a = Stale then fs(a := Absent)
      else fs)"

definition setPermissions :: "string \<Rightarrow> slistener \<Rightarrow> permcall list" where
  "setPermissions path l =
     (if sl_chown l then [Chown path (sl_owner l) (sl_group l)] else []) @
     (if sl_chmod l then [Chmod path (sl_mode l)] else [])"

definition unix_bind ::
    "status \<Rightarrow> nat \<Rightarrow> string \<Rightarrow> (string \<Rightarrow> pathstate) \<Rightarrow> (string \<Rightarrow> pathstate) \<times> (err + lsocket)" where
  "unix_bind env fd a fs =
     (case net_ListenUnix env fd a fs of
        (fs1, Inr s) \<Rightarrow> (fs1, Inr s)
      | (fs1, Inl (in_use, e)) \<Rightarrow>
          if \<not> in_use then (fs1, Inl e)
          else
            (case net_ListenUnix env fd a (removeStaleSocket a fs1) of
               (fs2, Inr s) \<Rightarrow> (fs2, Inr s)
             | (fs2, Inl (in_use2, e2)) \<Rightarrow> (fs2, Inl (if in_use2 then ErrAddrInUse else e2))))"

definition unix_Listen ::
    "status \<Rightarrow> nat \<Rightarrow> (string \<Rightarrow> pathstate) \<Rightarrow> slistener \<Rightarrow> slistener \<times> status \<times> (string \<Rightarrow> pathstate) \<times> permcall list" where
  "unix_Listen env fd fs l =
     (if sl_closeq l then (l, Some ErrClosed, fs, [])
      else
        case sl_activated l of
          Some s \<Rightarrow> (take_socket s l, None, fs, setPermissions (snd s) l)
        | None \<Rightarrow>
            (case unix_bind env fd (sl_addr l) fs of
               (fs1, Inl e) \<Rightarrow> (l, Some e, fs1, [])
             | (fs1, Inr s) \<Rightarrow> (take_socket s l, None, fs1, setPermissions (snd s) l)))"

section \<open>The accept loop, Accept, Address\<close>

text \<open>\<^verbatim>\<open>l.l.Accept()\<close> returned a connection; it fails once the socket is closed.\<close>

definition loop_Accept :: "nat \<Rightarrow> slistener \<Rightarrow> slistener" where
  "loop_Accept c l = l\<lparr>sl_conns := insert c (sl_conns l), sl_local := insert c (sl_local l)\<rparr>"

definition start_handshaker :: "nat \<Rightarrow> slistener \<Rightarrow> slistener" where
  "start_handshaker c l = l\<lparr>sl_local := sl_local l - {c}, sl_hs := hs_Start c (sl_hs l)\<rparr>"

text \<open>The pipe that the loop hands to the handshaker, for TCP and Unix.\<close>

definition accept_pipe :: "(string \<times> optval) list \<Rightarrow> netconn \<Rightarrow> slistener \<Rightarrow> conn option" where
  "accept_pipe props c l = endpoint_pipe (sl_maxRecvSize l) props (sl_Self l) (sl_Peer l) c"

text \<open>TLS: the goroutine \<^verbatim>\<open>start\<close>, before and after its handshake, and the deferred deletion.\<close>

definition tls_start_begin :: "nat \<Rightarrow> slistener \<Rightarrow> slistener" where
  "tls_start_begin c l =
     (if sl_closeq l then l\<lparr>sl_local := sl_local l - {c}, sl_cshut := insert c (sl_cshut l)\<rparr>
      else l\<lparr>sl_local := sl_local l - {c}, sl_pending := insert c (sl_pending l), sl_run := insert c (sl_run l)\<rparr>)"

definition tls_start_end :: "status \<Rightarrow> nat \<Rightarrow> slistener \<Rightarrow> slistener" where
  "tls_start_end e c l =
     (case e of
        Some _ \<Rightarrow> l\<lparr>sl_run := sl_run l - {c}, sl_cshut := insert c (sl_cshut l)\<rparr>
      | None \<Rightarrow> l\<lparr>sl_run := sl_run l - {c}, sl_hs := hs_Start c (sl_hs l)\<rparr>)"

definition tls_start_delete :: "nat \<Rightarrow> slistener \<Rightarrow> slistener" where
  "tls_start_delete c l = l\<lparr>sl_pending := sl_pending l - {c}\<rparr>"

definition sl_Accept :: "slistener \<Rightarrow> (slistener \<times> nat option \<times> status) option" where
  "sl_Accept l =
     (if sl_l l = None then Some (l, None, Some ErrClosed)
      else map_option (\<lambda>(h, c, e). (l\<lparr>sl_hs := h\<rparr>, c, e)) (hs_Wait (sl_hs l)))"

definition tcp_Address :: "slistener \<Rightarrow> string" where
  "tcp_Address l = (case sl_bound l of Some b \<Rightarrow> ''tcp://'' @ b | None \<Rightarrow> ''tcp://'' @ sl_addr l)"

definition tls_Address :: "slistener \<Rightarrow> string" where
  "tls_Address l = (case sl_bound l of Some b \<Rightarrow> ''tls+tcp://'' @ b | None \<Rightarrow> ''tls+tcp://'' @ sl_addr l)"

definition unix_Address :: "slistener \<Rightarrow> string" where
  "unix_Address l = (case sl_l l of Some (_, a) \<Rightarrow> ''unix://'' @ a | None \<Rightarrow> ''unix://'' @ sl_addr l)"

definition ipc_Address :: "slistener \<Rightarrow> string" where
  "ipc_Address l =
     ''ipc://'' @ (if starts_with ''unix://'' (unix_Address l) then drop (length ''unix://'') (unix_Address l) else unix_Address l)"

section \<open>Close\<close>

definition fd_of :: "lsocket option \<Rightarrow> nat set" where
  "fd_of x = fst ` set_option x"

definition close_sockets :: "slistener \<Rightarrow> slistener" where
  "close_sockets l = l\<lparr>sl_open := sl_open l - fd_of (sl_l l) - fd_of (sl_activated l)\<rparr>"

definition tcp_Close_locked :: "slistener \<Rightarrow> slistener" where
  "tcp_Close_locked l = (if sl_once l then l else (close_sockets l)\<lparr>sl_once := True, sl_closeq := True, sl_phase := 2\<rparr>)"

definition tls_Close_chan :: "slistener \<Rightarrow> slistener" where
  "tls_Close_chan l = (if sl_once l then l else l\<lparr>sl_once := True, sl_closeq := True, sl_phase := 1\<rparr>)"

definition tls_Close_locked :: "slistener \<Rightarrow> slistener" where
  "tls_Close_locked l = (close_sockets l)\<lparr>sl_cshut := sl_cshut l \<union> sl_pending l, sl_phase := 2\<rparr>"

definition Close_handshaker :: "slistener \<Rightarrow> slistener" where
  "Close_handshaker l = l\<lparr>sl_hs := hs_Close (sl_hs l), sl_phase := 3\<rparr>"

definition unix_Close :: "slistener \<Rightarrow> slistener" where
  "unix_Close l =
     (if sl_once l then l
      else (close_sockets l)\<lparr>sl_once := True, sl_hs := hs_Close (sl_hs l), sl_closeq := True, sl_phase := 3\<rparr>)"

section \<open>Runs\<close>

datatype stran = Tcp | Tls | Unix

fun sl_SetOption :: "stran \<Rightarrow> (int \<Rightarrow> err + lsocket \<times> bool) \<Rightarrow> string \<Rightarrow> optval \<Rightarrow> slistener \<Rightarrow> slistener \<times> status" where
  "sl_SetOption Tcp = tcp_listener_SetOption"
| "sl_SetOption Tls = tls_listener_SetOption"
| "sl_SetOption Unix = unix_listener_SetOption"

text \<open>
  The core calls \<^verbatim>\<open>Listen\<close> one call at a time, and again only when it failed (\<open>listener_Listen_begin\<close>).
\<close>

inductive sl_step :: "stran \<Rightarrow> slistener \<Rightarrow> slistener \<Rightarrow> bool" where
  sl_set: "sl_step t l (fst (sl_SetOption t net n v l))"
| sl_check: "t \<noteq> Unix \<Longrightarrow> sl_l l = None \<Longrightarrow> \<not> sl_entered l \<Longrightarrow> sl_step t l (fst (Listen_check l))"
| sl_listen_tcp: "sl_entered l \<Longrightarrow> sl_l l = None \<Longrightarrow> sl_step Tcp l (fst (tcp_Listen_locked lr l))"
| sl_listen_tls: "sl_entered l \<Longrightarrow> sl_l l = None \<Longrightarrow> sl_step Tls l (fst (tls_Listen_locked lr l))"
| sl_listen_unix: "sl_l l = None \<Longrightarrow> sl_step Unix l (fst (unix_Listen env fd fs l))"
| sl_loop: "sl_l l = Some s \<Longrightarrow> fst s \<in> sl_open l \<Longrightarrow> c \<notin> sl_conns l \<Longrightarrow> sl_step t l (loop_Accept c l)"
| sl_start: "t \<noteq> Tls \<Longrightarrow> c \<in> sl_local l \<Longrightarrow> sl_step t l (start_handshaker c l)"
| sl_tls_begin: "c \<in> sl_local l \<Longrightarrow> sl_step Tls l (tls_start_begin c l)"
| sl_tls_end: "c \<in> sl_run l \<Longrightarrow> sl_step Tls l (tls_start_end e c l)"
| sl_tls_delete: "c \<in> sl_pending l - sl_run l \<Longrightarrow> sl_step Tls l (tls_start_delete c l)"
| sl_worker: "c \<in> workq (sl_hs l) \<Longrightarrow> sl_step t l (l\<lparr>sl_hs := hs_worker c e (sl_hs l)\<rparr>)"
| sl_accept: "sl_Accept l = Some (l', c, e) \<Longrightarrow> sl_step t l l'"
| sl_close_tcp: "sl_step Tcp l (tcp_Close_locked l)"
| sl_close_tls: "sl_step Tls l (tls_Close_chan l)"
| sl_close_tls2: "sl_phase l = 1 \<Longrightarrow> sl_step Tls l (tls_Close_locked l)"
| sl_close_hs: "t \<noteq> Unix \<Longrightarrow> sl_phase l = 2 \<Longrightarrow> sl_step t l (Close_handshaker l)"
| sl_close_unix: "sl_step Unix l (unix_Close l)"

definition sl_sockets :: "stran \<Rightarrow> slistener \<Rightarrow> bool" where
  "sl_sockets t l \<longleftrightarrow>
     (sl_phase l < 2 \<longrightarrow> sl_open l = fd_of (sl_l l) \<union> fd_of (sl_activated l)) \<and>
     (2 \<le> sl_phase l \<and> \<not> sl_late l \<longrightarrow> sl_open l = {}) \<and>
     (sl_closeq l \<longleftrightarrow> 0 < sl_phase l) \<and> (sl_once l \<longleftrightarrow> 0 < sl_phase l) \<and>
     (t = Unix \<longrightarrow> \<not> sl_late l)"

definition sl_connections :: "stran \<Rightarrow> slistener \<Rightarrow> bool" where
  "sl_connections t l \<longleftrightarrow> (t \<noteq> Tls \<longrightarrow> sl_run l = {}) \<and> hs_inv (sl_hs l) \<and> (sl_phase l = 3 \<longleftrightarrow> h_closed (sl_hs l)) \<and> (sl_closeq l \<longleftrightarrow> 0 < sl_phase l) \<and>
     (sl_once l \<longleftrightarrow> 0 < sl_phase l) \<and>
     sl_conns l = sl_local l \<union> sl_run l \<union> started (sl_hs l) \<union> sl_cshut l \<and>
     sl_local l \<inter> (sl_run l \<union> started (sl_hs l)) = {} \<and> sl_run l \<inter> started (sl_hs l) = {} \<and>
     sl_run l \<subseteq> sl_pending l \<and> sl_pending l \<subseteq> sl_local l \<union> sl_run l \<union> started (sl_hs l) \<union> sl_cshut l \<and> (2 \<le> sl_phase l \<longrightarrow> sl_run l \<subseteq> sl_cshut l)"

lemma fd_of_simps [simp]: "fd_of None = {}" "fd_of (Some s) = {fst s}"
  by (simp_all add: fd_of_def)

text \<open>What a setting leaves alone, whatever it sets.\<close>

definition settings_only :: "slistener \<Rightarrow> slistener \<Rightarrow> bool" where
  "settings_only l l' \<longleftrightarrow> sl_hs l' = sl_hs l \<and> sl_phase l' = sl_phase l \<and> sl_closeq l' = sl_closeq l \<and> sl_once l' = sl_once l \<and>
     sl_conns l' = sl_conns l \<and> sl_local l' = sl_local l \<and> sl_run l' = sl_run l \<and> sl_pending l' = sl_pending l \<and>
     sl_cshut l' = sl_cshut l \<and> sl_late l' = sl_late l \<and> sl_l l' = sl_l l \<and>
     (sl_activated l' = sl_activated l \<and> sl_open l' = sl_open l \<or>
      \<not> sl_closeq l \<and> sl_activated l = None \<and> sl_open l' = fd_of (sl_activated l') \<union> sl_open l)"

lemma set_ListenFD_only: "settings_only l (fst (set_ListenFD net v l))"
  by (simp add: set_ListenFD_def settings_only_def split: option.split sum.split prod.split del: split_paired_All not_None_eq)

lemma set_field_only: "(\<And>y. settings_only l (f y l)) \<Longrightarrow> settings_only l (fst (set_field x f l))"
  by (simp add: set_field_def settings_only_def split: option.split)

lemma settings_only_upd:
  "settings_only l l" "settings_only l (l\<lparr>sl_maxRecvSize := i\<rparr>)" "settings_only l (l\<lparr>sl_keepAlive := i\<rparr>)"
  "settings_only l (l\<lparr>sl_config := c\<rparr>)" "settings_only l (l\<lparr>sl_mode := m, sl_chmod := b\<rparr>)"
  "settings_only l (l\<lparr>sl_owner := i, sl_chown := b\<rparr>)" "settings_only l (l\<lparr>sl_group := i, sl_chown := b\<rparr>)"
  by (simp_all add: settings_only_def)

lemma sl_SetOption_only: "settings_only l (fst (sl_SetOption t net n v l))"
  by (cases t) (simp_all add: listener_sets set_ListenFD_only set_field_only settings_only_upd split: optval.split)

lemma hs_simps [simp]:
  "started (hs_Start c h) = insert c (started h)" "started (hs_worker c e h) = started h" "started (hs_Close h) = started h"
  "h_closed (hs_Start c h) = h_closed h" "h_closed (hs_worker c e h) = h_closed h" "h_closed (hs_Close h)"
  by (simp_all add: hs_Start_def hs_worker_def hs_Close_def Let_def)

lemma hs_Wait_simps: "hs_Wait h = Some (h', c, e) \<Longrightarrow> started h' = started h \<and> h_closed h' = h_closed h"
  by (auto simp: hs_Wait_def Let_def split: if_splits prod.splits)

lemma sl_AcceptE:
  assumes "sl_Accept l = Some (l', c, e)"
  obtains h where "l' = l\<lparr>sl_hs := h\<rparr>" "started h = started (sl_hs l)" "h_closed h = h_closed (sl_hs l)"
    "hs_inv (sl_hs l) \<Longrightarrow> hs_inv h"
proof (cases "sl_l l = None")
  case True
  then show thesis using assms that [of "sl_hs l"] by (simp add: sl_Accept_def)
next
  case False
  then obtain h where h: "hs_Wait (sl_hs l) = Some (h, c, e)" "l' = l\<lparr>sl_hs := h\<rparr>"
    using assms by (auto simp: sl_Accept_def)
  from hs_Wait_simps [OF h(1)] hs_step_inv [OF hs_wait [OF h(1)]] that [OF h(2)] show thesis by blast
qed

text \<open>A call of \<^verbatim>\<open>Listen\<close> does nothing to the sockets or takes one: the activated one, if there is one.\<close>

definition gets_socket :: "slistener \<Rightarrow> slistener \<Rightarrow> bool" where
  "gets_socket l l' \<longleftrightarrow> l' = l \<or> (\<exists>s. l' = take_socket s l \<and> fd_of (sl_activated l) \<subseteq> {fst s})"

lemma gets_socketI:
  "gets_socket l l" "sl_activated l = None \<Longrightarrow> gets_socket l (take_socket s l)"
  "sl_activated l = Some s \<Longrightarrow> gets_socket l (take_socket s l)"
  unfolding gets_socket_def by (blast, metis fd_of_simps(1) empty_subsetI, metis fd_of_simps(2) order_refl)

lemma Listen_gets_socket:
  "gets_socket l (fst (unix_Listen env fd fs l))" "sl_closeq l \<Longrightarrow> fst (unix_Listen env fd fs l) = l"
  "gets_socket (past_check l) (fst (tcp_Listen_locked lr l))" "gets_socket (past_check l) (fst (tls_Listen_locked lr l))"
  by (simp_all add: unix_Listen_def tcp_Listen_locked_def tls_Listen_locked_def gets_socketI past_check_def
      split: option.split sum.split prod.split)

section \<open>The sockets\<close>

lemma sl_sockets_cong:
  "sl_phase l' = sl_phase l \<Longrightarrow> sl_open l' = sl_open l \<Longrightarrow> sl_l l' = sl_l l \<Longrightarrow> sl_activated l' = sl_activated l \<Longrightarrow>
   sl_late l' = sl_late l \<Longrightarrow> sl_closeq l' = sl_closeq l \<Longrightarrow> sl_once l' = sl_once l \<Longrightarrow> sl_sockets t l' = sl_sockets t l"
  by (simp add: sl_sockets_def)

lemma settings_sockets:
  assumes only: "settings_only l l'" and inv: "sl_sockets t l"
  shows "sl_sockets t l'"
proof -
  have e: "sl_phase l' = sl_phase l" "sl_closeq l' = sl_closeq l" "sl_once l' = sl_once l" "sl_late l' = sl_late l" "sl_l l' = sl_l l"
    using only unfolding settings_only_def by blast+
  consider "sl_activated l' = sl_activated l" "sl_open l' = sl_open l"
    | "\<not> sl_closeq l" "sl_activated l = None" "sl_open l' = fd_of (sl_activated l') \<union> sl_open l"
    using only unfolding settings_only_def by metis
  then show ?thesis
  proof cases
    case 2
    then have "sl_phase l = 0" using inv by (simp add: sl_sockets_def)
    then show ?thesis using 2 inv by (simp add: sl_sockets_def e Un_commute)
  qed (use sl_sockets_cong [OF e(1)] e inv in metis)
qed

lemma take_socket_sockets:
  assumes "sl_sockets t l" "sl_l l = None" "gets_socket l l'" "t = Unix \<longrightarrow> \<not> sl_closeq l \<or> l' = l"
  shows "sl_sockets t l'"
  using assms unfolding gets_socket_def
proof (elim disjE exE conjE)
  fix s assume l': "l' = take_socket s l" and fd: "fd_of (sl_activated l) \<subseteq> {fst s}"
  have "insert (fst s) (sl_open l) = {fst s}" if "sl_phase l < 2" using that fd assms(1,2) unfolding sl_sockets_def by auto
  moreover have "sl_closeq l \<longleftrightarrow> 0 < sl_phase l" "sl_once l \<longleftrightarrow> 0 < sl_phase l" "t = Unix \<longrightarrow> \<not> sl_late l"
    using assms(1) unfolding sl_sockets_def by blast+
  moreover have "sl_l (take_socket s l) \<noteq> sl_l l" using assms(2) by (simp add: take_socket_def)
  then have "t = Unix \<longrightarrow> \<not> sl_closeq l" using assms(4) l' by metis
  ultimately show ?thesis unfolding sl_sockets_def l' by (simp add: take_socket_def)
qed simp

lemma close_sockets_open: "sl_sockets t l \<Longrightarrow> sl_phase l < 2 \<Longrightarrow> sl_open (close_sockets l) = {}"
  by (auto simp: sl_sockets_def close_sockets_def)

lemma sl_step_sockets:
  assumes "sl_step t l l'" and inv: "sl_sockets t l"
  shows "sl_sockets t l'"
  using assms(1)
proof cases
  case (sl_set net n v)
  then show ?thesis using settings_sockets [OF sl_SetOption_only inv] by simp
next
  case (sl_listen_tcp lr)
  have "sl_sockets t (past_check l)" using inv by (simp add: past_check_def sl_sockets_def)
  then show ?thesis using sl_listen_tcp take_socket_sockets [OF _ _ Listen_gets_socket(3) [of l lr], of t] by (simp add: past_check_def)
next
  case (sl_listen_tls lr)
  have "sl_sockets t (past_check l)" using inv by (simp add: past_check_def sl_sockets_def)
  then show ?thesis using sl_listen_tls take_socket_sockets [OF _ _ Listen_gets_socket(4) [of l lr], of t] by (simp add: past_check_def)
next
  case (sl_listen_unix env fd fs)
  then show ?thesis using take_socket_sockets [OF inv _ Listen_gets_socket(1)] Listen_gets_socket(2) by blast
next
  case (sl_accept c e)
  then show ?thesis using inv by (elim sl_AcceptE) (simp add: sl_sockets_def)
next
  case sl_close_tcp
  show ?thesis
  proof (cases "sl_once l")
    case False
    then have "sl_phase l < 2" using inv by (simp add: sl_sockets_def)
    from close_sockets_open [OF inv this] False show ?thesis using inv sl_close_tcp by (simp add: sl_sockets_def tcp_Close_locked_def)
  qed (use inv sl_close_tcp in \<open>simp add: tcp_Close_locked_def\<close>)
next
  case sl_close_tls2
  then show ?thesis using inv close_sockets_open [OF inv] by (simp add: sl_sockets_def tls_Close_locked_def close_sockets_def)
next
  case sl_close_unix
  show ?thesis
  proof (cases "sl_once l")
    case False
    then have "sl_phase l < 2" using inv by (simp add: sl_sockets_def)
    from close_sockets_open [OF inv this] False show ?thesis
      using inv sl_close_unix by (simp add: sl_sockets_def unix_Close_def close_sockets_def)
  qed (use inv sl_close_unix in \<open>simp add: unix_Close_def\<close>)
qed (use inv in \<open>auto simp: sl_sockets_def Listen_check_def loop_Accept_def start_handshaker_def tls_start_begin_def
      tls_start_end_def tls_start_delete_def tls_Close_chan_def Close_handshaker_def split: option.splits\<close>)

section \<open>The connections\<close>

lemma settings_connections: "settings_only l l' \<Longrightarrow> sl_connections t l \<Longrightarrow> sl_connections t l'"
  unfolding settings_only_def sl_connections_def by metis

lemma gets_socket_connections: "gets_socket l l' \<Longrightarrow> sl_connections t l \<Longrightarrow> sl_connections t l'"
proof -
  have "sl_connections t (take_socket s l) = sl_connections t l" for s by (simp add: sl_connections_def take_socket_def)
  then show "gets_socket l l' \<Longrightarrow> sl_connections t l \<Longrightarrow> sl_connections t l'" unfolding gets_socket_def by metis
qed

lemma hs_inv_ops:
  "hs_inv h \<Longrightarrow> c \<notin> started h \<Longrightarrow> hs_inv (hs_Start c h)" "hs_inv h \<Longrightarrow> c \<in> workq h \<Longrightarrow> hs_inv (hs_worker c e h)"
  "hs_inv h \<Longrightarrow> hs_inv (hs_Close h)"
  using hs_step_inv hs_start hs_work hs_close by blast+

lemma sl_step_connections:
  assumes "sl_step t l l'" and inv: "sl_connections t l"
  shows "sl_connections t l'"
  using assms(1)
proof cases
  case (sl_set net n v)
  then show ?thesis using settings_connections [OF sl_SetOption_only inv] by simp
next
  case (sl_listen_tcp lr)
  have "sl_connections t (past_check l)" using inv by (simp add: past_check_def sl_connections_def)
  then show ?thesis using sl_listen_tcp gets_socket_connections [OF Listen_gets_socket(3)] by simp
next
  case (sl_listen_tls lr)
  have "sl_connections t (past_check l)" using inv by (simp add: past_check_def sl_connections_def)
  then show ?thesis using sl_listen_tls gets_socket_connections [OF Listen_gets_socket(4)] by simp
next
  case (sl_listen_unix env fd fs)
  then show ?thesis using gets_socket_connections [OF Listen_gets_socket(1) inv] by simp
next
  case (sl_accept c e)
  then show ?thesis using inv by (elim sl_AcceptE) (simp add: sl_connections_def)
next
  case (sl_loop s c)
  then show ?thesis using inv by (auto simp: sl_connections_def loop_Accept_def)
next
  case (sl_start c)
  then show ?thesis using inv by (auto simp: sl_connections_def start_handshaker_def intro: hs_inv_ops)
next
  case (sl_tls_begin c)
  then show ?thesis using inv by (auto simp: sl_connections_def tls_start_begin_def)
next
  case (sl_tls_end c e)
  then show ?thesis using inv by (cases e) (auto simp: sl_connections_def tls_start_end_def intro: hs_inv_ops)
next
  case (sl_tls_delete c)
  then show ?thesis using inv by (auto simp: sl_connections_def tls_start_delete_def)
next
  case (sl_worker c e)
  then show ?thesis using inv by (simp add: sl_connections_def hs_inv_ops)
next
  case sl_close_tcp
  then show ?thesis using inv by (auto simp: sl_connections_def tcp_Close_locked_def close_sockets_def)
next
  case sl_close_tls2
  then show ?thesis using inv by (auto simp: sl_connections_def tls_Close_locked_def close_sockets_def)
next
  case sl_close_hs
  then show ?thesis using inv by (simp add: sl_connections_def Close_handshaker_def hs_inv_ops)
next
  case sl_close_unix
  then show ?thesis using inv by (auto simp: sl_connections_def unix_Close_def close_sockets_def hs_inv_ops)
qed (use inv in \<open>auto simp: sl_connections_def Listen_check_def tls_Close_chan_def\<close>)

section \<open>Properties\<close>

interpretation sl: machine "\<lambda>l. \<exists>a self peer uid gid. l = new_slistener a self peer uid gid" "sl_step t" "\<lambda>l. sl_sockets t l \<and> sl_connections t l"
proof
  show "sl_sockets t l \<and> sl_connections t l" if "\<exists>a self peer uid gid. l = new_slistener a self peer uid gid" for l
    using that
    by (elim exE) (simp add: new_slistener_def sl_sockets_def sl_connections_def NewConnHandshaker_def hs_inv_def waiting_def List.map_filter_def)
qed (blast dest: sl_step_sockets sl_step_connections)

text \<open>
  C31: The life of a stream listener. In every run, with calls of \<^verbatim>\<open>Listen\<close>, \<^verbatim>\<open>Accept\<close>, \<^verbatim>\<open>SetOption\<close> and
  \<^verbatim>\<open>Close\<close>, the accept loop, the TLS goroutines and the handshaker's workers in any order: once
  \<^verbatim>\<open>Close\<close> has returned, every connection ever accepted was returned by \<^verbatim>\<open>Accept\<close>, is closed, or is
  held by a goroutine that has not come to its next lock or by a worker that will close it; one that
  hangs in its TLS handshake is closed. \<^verbatim>\<open>Accept\<close> and \<^verbatim>\<open>Listen\<close> report \<^verbatim>\<open>ErrClosed\<close>. No listening socket
  is open unless a \<^verbatim>\<open>Listen\<close> had passed its check before and went on after the close, which the Unix
  listener's lock rules out.
\<close>

theorem stream_listener_Close:
  assumes "(sl_step t)\<^sup>*\<^sup>* (new_slistener a self peer uid gid) l" and ph: "sl_phase l = 3"
  shows "sl_conns l \<subseteq> set (given (sl_hs l)) \<union> shut (sl_hs l) \<union> sl_cshut l \<union> sl_local l \<union> workq (sl_hs l) \<and>
    sl_run l \<subseteq> sl_cshut l \<and> (\<forall>c\<in>workq (sl_hs l). \<forall>e. c \<in> shut (hs_worker c e (sl_hs l))) \<and>
    sl_Accept l = Some (l, None, Some ErrClosed) \<and> snd (Listen_check l) = Some ErrClosed \<and>
    (\<not> sl_late l \<longrightarrow> sl_open l = {}) \<and> (t = Unix \<longrightarrow> \<not> sl_late l)"
proof -
  have inv: "sl_sockets t l" "sl_connections t l" using sl.reachable_inv [OF _ assms(1)] by blast+
  have h: "hs_inv (sl_hs l)" "h_closed (sl_hs l)" "sl_closeq l" using inv(2) ph by (simp_all add: sl_connections_def)
  have "started (sl_hs l) \<subseteq> workq (sl_hs l) \<union> set (given (sl_hs l)) \<union> shut (sl_hs l)"
    using h(1,2) by (auto simp: hs_inv_def)
  moreover have "sl_run l \<subseteq> sl_cshut l" using inv(2) ph by (simp add: sl_connections_def)
  moreover have "sl_conns l = sl_local l \<union> sl_run l \<union> started (sl_hs l) \<union> sl_cshut l" using inv(2) by (simp add: sl_connections_def)
  ultimately have "sl_conns l \<subseteq> set (given (sl_hs l)) \<union> shut (sl_hs l) \<union> sl_cshut l \<union> sl_local l \<union> workq (sl_hs l)" by blast
  moreover have "c \<in> shut (hs_worker c e (sl_hs l))" for c e using h(2) by (simp add: hs_worker_def Let_def)
  moreover have "sl_Accept l = Some (l, None, Some ErrClosed)" using h(2) by (simp add: sl_Accept_def hs_Wait_def)
  moreover have "snd (Listen_check l) = Some ErrClosed" using h(3) by (simp add: Listen_check_def)
  ultimately show ?thesis using inv(1) ph \<open>sl_run l \<subseteq> sl_cshut l\<close> by (simp add: sl_sockets_def)
qed

text \<open>The race: a TCP \<^verbatim>\<open>Listen\<close> that was past its check when \<^verbatim>\<open>Close\<close> ran leaves a socket open for good.\<close>

definition raced :: "slistener" where
  "raced = fst (tcp_Listen_locked (Inr (7, ''127.0.0.1:5555''))
     (Close_handshaker (tcp_Close_locked (fst (Listen_check (new_slistener ''127.0.0.1:5555'' 48 49 0 0))))))"

lemma raced_run: "(sl_step Tcp)\<^sup>*\<^sup>* (new_slistener ''127.0.0.1:5555'' 48 49 0 0) raced"
proof -
  let ?l0 = "new_slistener ''127.0.0.1:5555'' 48 49 0 0"
  let ?l1 = "fst (Listen_check ?l0)"
  let ?l2 = "tcp_Close_locked ?l1"
  let ?l3 = "Close_handshaker ?l2"
  have "sl_step Tcp ?l0 ?l1" by (rule sl_check) (simp_all add: new_slistener_def)
  moreover have "sl_step Tcp ?l1 ?l2" by (rule sl_close_tcp)
  moreover have "sl_step Tcp ?l2 ?l3"
    by (rule sl_close_hs) (simp_all add: tcp_Close_locked_def Listen_check_def new_slistener_def)
  moreover have "sl_step Tcp ?l3 raced"
    unfolding raced_def
    by (rule sl_listen_tcp) (simp_all add: Close_handshaker_def tcp_Close_locked_def close_sockets_def Listen_check_def new_slistener_def)
  ultimately show ?thesis by (meson converse_rtranclp_into_rtranclp r_into_rtranclp)
qed

lemmas raced_eval = raced_def tcp_Listen_locked_def take_socket_def past_check_def Close_handshaker_def tcp_Close_locked_def
  close_sockets_def Listen_check_def new_slistener_def

lemma tcp_Listen_Close_race:
  "(sl_step Tcp)\<^sup>*\<^sup>* (new_slistener ''127.0.0.1:5555'' 48 49 0 0) raced \<and> sl_phase raced = 3 \<and> sl_open raced = {7} \<and>
   tcp_Close_locked raced = raced"
  using raced_run by (simp add: raced_eval)

theorem stream_listener_Close_witness:
  "sl_phase raced = 3 \<and> sl_Accept raced = Some (raced, None, Some ErrClosed) \<and> snd (Listen_check raced) = Some ErrClosed"
proof -
  have "sl_phase raced = 3" by (simp add: raced_eval)
  with stream_listener_Close [OF raced_run this] show ?thesis by blast
qed

text \<open>
  Binding a Unix socket never takes a path away from somebody: it succeeds exactly when nothing is at
  the path or only a socket file nobody listens on, which it replaces; a file of another kind and the
  socket of a live listener are left alone, and \<^verbatim>\<open>Listen\<close> reports \<^verbatim>\<open>ErrAddrInUse\<close>. No other path is touched.
  Ownership and mode are changed on the socket's path, and only where the options were set.
\<close>

theorem unix_Listen_path:
  assumes "\<not> sl_closeq l" "sl_activated l = None"
  shows "unix_Listen None fd fs l =
    (if fs (sl_addr l) = Absent \<or> fs (sl_addr l) = Stale
     then (take_socket (fd, sl_addr l) l, None, fs(sl_addr l := Live), setPermissions (sl_addr l) l)
     else (l, Some ErrAddrInUse, fs, []))"
proof -
  have "unix_bind None fd (sl_addr l) fs =
      (if fs (sl_addr l) = Absent \<or> fs (sl_addr l) = Stale then (fs(sl_addr l := Live), Inr (fd, sl_addr l)) else (fs, Inl ErrAddrInUse))"
    by (cases "fs (sl_addr l)") (simp_all add: unix_bind_def net_ListenUnix_def removeStaleSocket_def)
  then show ?thesis using assms by (simp add: unix_Listen_def)
qed

theorem unix_Listen_path_witness:
  "\<not> sl_closeq (new_slistener ''/tmp/s'' 48 49 0 0) \<and>
   fst (snd (unix_Listen None 3 (\<lambda>_. NotSocket) (new_slistener ''/tmp/s'' 48 49 0 0))) = Some ErrAddrInUse \<and>
   fst (snd (unix_Listen None 3 (\<lambda>_. Stale) (new_slistener ''/tmp/s'' 48 49 0 0))) = None"
proof -
  let ?l = "new_slistener ''/tmp/s'' 48 49 0 0"
  have l: "\<not> sl_closeq ?l" "sl_activated ?l = None" by (simp_all add: new_slistener_def)
  show ?thesis unfolding unix_Listen_path [OF l] using l by simp
qed

end
