(* ===== verification/Winpipe.thy ===== *)
theory Winpipe
  imports StreamListeners
begin

text \<open>
  The transport over Windows named pipes, \<^verbatim>\<open>transport/winpipe/winpipe_windows.go\<close>. The package \<^verbatim>\<open>go-winio\<close> is an argument:
  \<open>ListenPipe\<close> and \<open>DialPipe\<close> give a listening pipe (a number) or a connection. The messages on the wire are those of
  \<^verbatim>\<open>transport/connipc_windows.go\<close> (\<open>winipc_Send\<close>, \<open>winipc_Recv\<close> of \<open>Conn\<close>).
\<close>

section \<open>State\<close>

record wdialer =
  wd_path :: string
  wd_Self :: u16
  wd_Peer :: u16
  wd_recvMaxSize :: int

text \<open>
  The goroutine that \<^verbatim>\<open>Listen\<close> starts: at the top of its loop, in \<^verbatim>\<open>Accept\<close> with the receive limit that it read before, with a
  connection that \<^verbatim>\<open>Accept\<close> gave it, or returned. Besides the fields of the code the listener has: \<open>wl_open\<close>, the
  listening pipes that are open, \<open>wl_conns\<close>, the connections ever accepted, and \<open>wl_limit\<close>, the limit each got.
\<close>

datatype wloop = NoLoop | Top | Waiting int | Holding nat int | Gone

record wlistener =
  wl_path :: string
  wl_Self :: u16
  wl_Peer :: u16
  wl_listener :: "nat option"
  wl_hs :: handshaker
  wl_closed :: bool
  wl_recvMaxSize :: int
  wl_outputBufferSize :: int
  wl_inputBufferSize :: int
  wl_securityDesc :: bytes
  wl_once :: bool
  wl_loop :: wloop
  wl_open :: "nat set"
  wl_conns :: "nat set"
  wl_limit :: "nat \<Rightarrow> int"

record PipeConfig =
  InputBufferSize :: int
  OutputBufferSize :: int
  SecurityDescriptor :: bytes
  MessageMode :: bool

section \<open>Making endpoints\<close>

definition wp_NewDialer :: "u16 \<Rightarrow> u16 \<Rightarrow> string \<Rightarrow> err + wdialer" where
  "wp_NewDialer self peer addr =
     (case StripScheme (tran_of ''winpipe'') addr of
        (_, Some e) \<Rightarrow> Inl e
      | (a, None) \<Rightarrow> Inr \<lparr>wd_path = a, wd_Self = self, wd_Peer = peer, wd_recvMaxSize = 0\<rparr>)"

definition new_wlistener :: "string \<Rightarrow> u16 \<Rightarrow> u16 \<Rightarrow> wlistener" where
  "new_wlistener a self peer =
     \<lparr>wl_path = a, wl_Self = self, wl_Peer = peer, wl_listener = None, wl_hs = NewConnHandshaker, wl_closed = False, wl_recvMaxSize = 0,
      wl_outputBufferSize = 4096, wl_inputBufferSize = 4096, wl_securityDesc = [], wl_once = False, wl_loop = NoLoop, wl_open = {},
      wl_conns = {}, wl_limit = (\<lambda>_. 0)\<rparr>"

definition wp_NewListener :: "u16 \<Rightarrow> u16 \<Rightarrow> string \<Rightarrow> err + wlistener" where
  "wp_NewListener self peer addr =
     (case StripScheme (tran_of ''winpipe'') addr of (_, Some e) \<Rightarrow> Inl e | (a, None) \<Rightarrow> Inr (new_wlistener a self peer))"

section \<open>Options\<close>

definition wp_dialer_SetOption :: "string \<Rightarrow> optval \<Rightarrow> wdialer \<Rightarrow> wdialer \<times> status" where
  "wp_dialer_SetOption n v d =
     (if n = OptionMaxRecvSize then set_field (asInt v) (\<lambda>b d. d\<lparr>wd_recvMaxSize := b\<rparr>) d else (d, Some ErrBadOption))"

definition wp_dialer_GetOption :: "string \<Rightarrow> wdialer \<Rightarrow> err + optval" where
  "wp_dialer_GetOption n d = (if n = OptionMaxRecvSize then Inr (VInt (wd_recvMaxSize d)) else Inl ErrBadOption)"

definition wp_listener_SetOption :: "string \<Rightarrow> optval \<Rightarrow> wlistener \<Rightarrow> wlistener \<times> status" where
  "wp_listener_SetOption n v l =
     (if n = OptionInputBufferSize then set_field (asInt32 v) (\<lambda>b l. l\<lparr>wl_inputBufferSize := b\<rparr>) l
      else if n = OptionOutputBufferSize then set_field (asInt32 v) (\<lambda>b l. l\<lparr>wl_outputBufferSize := b\<rparr>) l
      else if n = OptionSecurityDescriptor then set_field (asString v) (\<lambda>b l. l\<lparr>wl_securityDesc := b\<rparr>) l
      else if n = OptionMaxRecvSize then set_field (asInt v) (\<lambda>b l. l\<lparr>wl_recvMaxSize := b\<rparr>) l
      else (l, Some ErrBadOption))"

definition wp_listener_GetOption :: "string \<Rightarrow> wlistener \<Rightarrow> err + optval" where
  "wp_listener_GetOption n l =
     (if n = OptionMaxRecvSize then Inr (VInt (wl_recvMaxSize l))
      else if n = OptionInputBufferSize then Inr (VInt32 (wl_inputBufferSize l))
      else if n = OptionOutputBufferSize then Inr (VInt32 (wl_outputBufferSize l))
      else if n = OptionSecurityDescriptor then Inr (VString (wl_securityDesc l))
      else Inl ErrBadOption)"

lemmas wp_options = wp_dialer_SetOption_def wp_dialer_GetOption_def wp_listener_SetOption_def wp_listener_GetOption_def

interpretation wp_dialer: tran_options wp_dialer_SetOption wp_dialer_GetOption "{}" "{}" "\<lambda>_. True"
  by unfold_locales (auto simp: wp_options opt_type_def option_names set_field_def split: if_splits option.splits)

lemma wp_opt_types:
  "opt_type OptionInputBufferSize v \<longleftrightarrow> asInt32 v \<noteq> None" "opt_type OptionOutputBufferSize v \<longleftrightarrow> asInt32 v \<noteq> None"
  "opt_type OptionSecurityDescriptor v \<longleftrightarrow> asString v \<noteq> None"
  by (simp_all add: opt_type_def option_names)

lemma wp_listener_fields:
  "n \<noteq> OptionMaxRecvSize \<Longrightarrow> wl_recvMaxSize (fst (wp_listener_SetOption n v l)) = wl_recvMaxSize l"
  "n \<noteq> OptionInputBufferSize \<Longrightarrow> wl_inputBufferSize (fst (wp_listener_SetOption n v l)) = wl_inputBufferSize l"
  "n \<noteq> OptionOutputBufferSize \<Longrightarrow> wl_outputBufferSize (fst (wp_listener_SetOption n v l)) = wl_outputBufferSize l"
  "n \<noteq> OptionSecurityDescriptor \<Longrightarrow> wl_securityDesc (fst (wp_listener_SetOption n v l)) = wl_securityDesc l"
  by (simp_all add: wp_listener_SetOption_def fst_set_field split: option.split)

lemma wp_listener_set_get:
  assumes "snd (wp_listener_SetOption n v l) = None" "wp_listener_GetOption n l \<noteq> Inl ErrBadOption"
  shows "wp_listener_GetOption n (fst (wp_listener_SetOption n v l)) = Inr v"
proof -
  have "n \<in> {OptionMaxRecvSize, OptionInputBufferSize, OptionOutputBufferSize, OptionSecurityDescriptor}"
    using assms(2) by (simp add: wp_listener_GetOption_def split: if_splits)
  then show ?thesis using assms(1)
    by (elim insertE) (simp_all add: wp_listener_SetOption_def wp_listener_GetOption_def set_field_def option_names split: option.splits)
qed

interpretation wp_listener: tran_options wp_listener_SetOption wp_listener_GetOption "{}" "{}" "\<lambda>_. True"
proof
  fix n k v and l :: wlistener
  have c: "clean l (wp_listener_SetOption n v l)" and t: "typed (opt_type n v) (wp_listener_SetOption n v l)"
    by (simp_all add: wp_listener_SetOption_def clean_typed_pair wp_opt_types opt_type_simps)
  show "fst (wp_listener_SetOption n v l) = l" if "snd (wp_listener_SetOption n v l) \<noteq> None" using that c by (auto simp: clean_def)
  show "opt_type n v" if "snd (wp_listener_SetOption n v l) = None" using that t by (simp add: typed_def)
  show "opt_type n v" if "wp_listener_GetOption n l = Inr v"
    using that by (auto simp: wp_listener_GetOption_def wp_opt_types opt_type_simps split: if_splits)
  show "wp_listener_GetOption n (fst (wp_listener_SetOption n v l)) = Inr v"
    if "snd (wp_listener_SetOption n v l) = None" "wp_listener_GetOption n l \<noteq> Inl ErrBadOption" using wp_listener_set_get that by blast
  show "wp_listener_GetOption k (fst (wp_listener_SetOption n v l)) = wp_listener_GetOption k l" if "k \<noteq> n"
    using that by (auto simp: wp_listener_GetOption_def wp_listener_fields)
qed

section \<open>Dial\<close>

definition pipe_path :: "string \<Rightarrow> string" where
  "pipe_path p = [CHR 92, CHR 92, CHR ''.'', CHR 92] @ ''pipe'' @ [CHR 92] @ p"

definition wp_Dial :: "(string \<Rightarrow> err + netconn) \<Rightarrow> wdialer \<Rightarrow> (err + conn) option" where
  "wp_Dial DialPipe d =
     (case DialPipe (pipe_path (wd_path d)) of
        Inl e \<Rightarrow> Some (Inl e)
      | Inr c \<Rightarrow>
          (case endpoint_pipe (wd_recvMaxSize d) [] (wd_Self d) (wd_Peer d) c of
             None \<Rightarrow> None
           | Some p \<Rightarrow> (case conn_handshake False p of (Some e, p1) \<Rightarrow> Some (Inl e) | (None, p1) \<Rightarrow> Some (Inr p1))))"

section \<open>The listener\<close>

definition wp_config :: "wlistener \<Rightarrow> PipeConfig" where
  "wp_config l =
     \<lparr>InputBufferSize = wl_inputBufferSize l, OutputBufferSize = wl_outputBufferSize l, SecurityDescriptor = wl_securityDesc l, MessageMode = False\<rparr>"

definition wp_Listen :: "(string \<Rightarrow> PipeConfig \<Rightarrow> err + nat) \<Rightarrow> wlistener \<Rightarrow> wlistener \<times> status" where
  "wp_Listen ListenPipe l =
     (if wl_closed l then (l, Some ErrClosed)
      else case ListenPipe (pipe_path (wl_path l)) (wp_config l) of
             Inl e \<Rightarrow> (l, Some e)
           | Inr s \<Rightarrow> (l\<lparr>wl_listener := Some s, wl_open := insert s (wl_open l), wl_loop := Top\<rparr>, None))"

text \<open>The turns of the loop: the lock region at its top, the two answers of \<^verbatim>\<open>Accept\<close>, the start of the handshake.\<close>

definition wp_loop_top :: "wlistener \<Rightarrow> wlistener" where
  "wp_loop_top l = (if wl_closed l then l\<lparr>wl_loop := Gone\<rparr> else l\<lparr>wl_loop := Waiting (wl_recvMaxSize l)\<rparr>)"

definition wp_loop_conn :: "nat \<Rightarrow> int \<Rightarrow> wlistener \<Rightarrow> wlistener" where
  "wp_loop_conn c mrs l = l\<lparr>wl_loop := Holding c mrs, wl_conns := insert c (wl_conns l)\<rparr>"

definition wp_loop_error :: "wlistener \<Rightarrow> wlistener" where
  "wp_loop_error l = l\<lparr>wl_loop := Top\<rparr>"

definition wp_loop_start :: "nat \<Rightarrow> int \<Rightarrow> wlistener \<Rightarrow> wlistener" where
  "wp_loop_start c mrs l = l\<lparr>wl_loop := Top, wl_hs := hs_Start c (wl_hs l), wl_limit := (wl_limit l)(c := mrs)\<rparr>"

definition wp_Address :: "wlistener \<Rightarrow> string" where
  "wp_Address l = ''winpipe://'' @ wl_path l"

definition wp_Accept :: "wlistener \<Rightarrow> (wlistener \<times> nat option \<times> status) option" where
  "wp_Accept l =
     (if wl_listener l = None then Some (l, None, Some ErrClosed)
      else map_option (\<lambda>(h, c, e). (l\<lparr>wl_hs := h\<rparr>, c, e)) (hs_Wait (wl_hs l)))"

definition wp_Close :: "wlistener \<Rightarrow> wlistener" where
  "wp_Close l =
     (if wl_once l then l
      else l\<lparr>wl_once := True, wl_closed := True, wl_open := wl_open l - set_option (wl_listener l), wl_hs := hs_Close (wl_hs l)\<rparr>)"

section \<open>Runs\<close>

text \<open>\<^verbatim>\<open>Listen\<close> is called again only when it failed.\<close>

inductive wp_step :: "wlistener \<Rightarrow> wlistener \<Rightarrow> bool" where
  wp_set: "wp_step l (fst (wp_listener_SetOption n v l))"
| wp_listen: "wl_listener l = None \<Longrightarrow> wp_step l (fst (wp_Listen f l))"
| wp_top: "wl_loop l = Top \<Longrightarrow> wp_step l (wp_loop_top l)"
| wp_conn: "wl_loop l = Waiting m \<Longrightarrow> wl_listener l = Some s \<Longrightarrow> s \<in> wl_open l \<Longrightarrow> c \<notin> wl_conns l \<Longrightarrow> wp_step l (wp_loop_conn c m l)"
| wp_error: "wl_loop l = Waiting m \<Longrightarrow> wp_step l (wp_loop_error l)"
| wp_start: "wl_loop l = Holding c m \<Longrightarrow> wp_step l (wp_loop_start c m l)"
| wp_worker: "c \<in> workq (wl_hs l) \<Longrightarrow> wp_step l (l\<lparr>wl_hs := hs_worker c e (wl_hs l)\<rparr>)"
| wp_accept: "wp_Accept l = Some (l', c, e) \<Longrightarrow> wp_step l l'"
| wp_close: "wp_step l (wp_Close l)"

definition held :: "wlistener \<Rightarrow> nat set" where
  "held l = (case wl_loop l of Holding c m \<Rightarrow> {c} | _ \<Rightarrow> {})"

definition wp_inv :: "wlistener \<Rightarrow> bool" where
  "wp_inv l \<longleftrightarrow> hs_inv (wl_hs l) \<and> wl_conns l = held l \<union> started (wl_hs l) \<and> held l \<inter> started (wl_hs l) = {} \<and>
     wl_closed l = h_closed (wl_hs l) \<and> wl_once l = wl_closed l \<and>
     wl_open l = (if wl_closed l then {} else set_option (wl_listener l)) \<and> (wl_loop l = NoLoop \<longleftrightarrow> wl_listener l = None) \<and>
     (wl_loop l = Gone \<longrightarrow> wl_closed l)"

lemma wp_SetOption_keeps:
  "wp_inv (fst (wp_listener_SetOption n v l)) = wp_inv l" "wl_closed (fst (wp_listener_SetOption n v l)) = wl_closed l"
  by (simp_all add: wp_listener_SetOption_def fst_set_field wp_inv_def held_def split: option.split)

lemma wp_AcceptE:
  assumes "wp_Accept l = Some (l', c, e)"
  obtains h where "l' = l\<lparr>wl_hs := h\<rparr>" "started h = started (wl_hs l)" "h_closed h = h_closed (wl_hs l)" "hs_inv (wl_hs l) \<Longrightarrow> hs_inv h"
proof (cases "wl_listener l = None")
  case True
  then show thesis using assms that [of "wl_hs l"] by (simp add: wp_Accept_def)
next
  case False
  then obtain h where h: "hs_Wait (wl_hs l) = Some (h, c, e)" "l' = l\<lparr>wl_hs := h\<rparr>" using assms by (auto simp: wp_Accept_def)
  from hs_Wait_simps [OF h(1)] hs_step_inv [OF hs_wait [OF h(1)]] that [OF h(2)] show thesis by blast
qed

lemma wp_step_inv:
  assumes "wp_step l l'" and inv: "wp_inv l"
  shows "wp_inv l'"
  using assms(1)
proof cases
  case (wp_set n v)
  then show ?thesis using inv by (simp add: wp_SetOption_keeps)
next
  case (wp_listen f)
  then show ?thesis using inv by (auto simp: wp_Listen_def wp_inv_def held_def split: sum.splits)
next
  case wp_top
  then show ?thesis using inv by (auto simp: wp_loop_top_def wp_inv_def held_def)
next
  case (wp_conn m s c)
  then show ?thesis using inv by (auto simp: wp_loop_conn_def wp_inv_def held_def)
next
  case (wp_error m)
  then show ?thesis using inv by (auto simp: wp_loop_error_def wp_inv_def held_def)
next
  case (wp_start c m)
  then show ?thesis using inv by (auto simp: wp_loop_start_def wp_inv_def held_def intro: hs_inv_ops)
next
  case (wp_worker c e)
  then show ?thesis using inv by (auto simp: wp_inv_def held_def hs_inv_ops)
next
  case (wp_accept c e)
  then show ?thesis using inv by (elim wp_AcceptE) (auto simp: wp_inv_def held_def)
next
  case wp_close
  then show ?thesis using inv by (auto simp: wp_Close_def wp_inv_def held_def hs_inv_ops)
qed

interpretation wp: machine "\<lambda>l. \<exists>a self peer. l = new_wlistener a self peer" wp_step wp_inv
proof
  show "wp_inv l" if "\<exists>a self peer. l = new_wlistener a self peer" for l
    using that by (elim exE) (simp add: new_wlistener_def wp_inv_def held_def NewConnHandshaker_def hs_inv_def waiting_def List.map_filter_def)
qed (rule wp_step_inv)

text \<open>
  The life of a named-pipe listener, in every run: once it is closed no listening pipe is open, every connection ever accepted was
  returned by \<^verbatim>\<open>Accept\<close>, is closed, is with a worker that will close it or in the hands of the loop, which returns at its next turn.
\<close>

theorem winpipe_listener_Close:
  assumes "wp_step\<^sup>*\<^sup>* (new_wlistener a self peer) l" and cl: "wl_closed l"
  shows "wl_open l = {} \<and> wl_conns l \<subseteq> set (given (wl_hs l)) \<union> shut (wl_hs l) \<union> workq (wl_hs l) \<union> held l \<and>
    (\<forall>c\<in>workq (wl_hs l). \<forall>e. c \<in> shut (hs_worker c e (wl_hs l))) \<and> wl_loop (wp_loop_top l) = Gone \<and>
    wp_Accept l = Some (l, None, Some ErrClosed) \<and> wp_Listen f l = (l, Some ErrClosed) \<and> wp_Close l = l"
proof -
  have inv: "wp_inv l" using wp.reachable_inv [OF _ assms(1)] by blast
  have h: "hs_inv (wl_hs l)" "h_closed (wl_hs l)" "wl_once l" "wl_open l = {}" "wl_conns l = held l \<union> started (wl_hs l)"
    using inv cl by (simp_all add: wp_inv_def)
  have "started (wl_hs l) \<subseteq> workq (wl_hs l) \<union> set (given (wl_hs l)) \<union> shut (wl_hs l)" using h(1,2) by (auto simp: hs_inv_def)
  moreover have "c \<in> shut (hs_worker c e (wl_hs l))" for c e using h(2) by (simp add: hs_worker_def Let_def)
  ultimately show ?thesis using h cl by (auto simp: wp_loop_top_def wp_Accept_def hs_Wait_def wp_Listen_def wp_Close_def)
qed

text \<open>
  A receive limit that is set while the loop waits in \<^verbatim>\<open>Accept\<close> does not apply to the connection that comes next: the loop read
  the limit before.
\<close>

lemma winpipe_limit_late:
  assumes "wl_loop l = Waiting m" "wl_listener l = Some s" "s \<in> wl_open l" "c \<notin> wl_conns l"
  shows "\<exists>l'. wp_step\<^sup>*\<^sup>* l l' \<and> wl_recvMaxSize l' = n \<and> c \<in> started (wl_hs l') \<and> wl_limit l' c = m"
proof -
  let ?l1 = "l\<lparr>wl_recvMaxSize := n\<rparr>"
  have "wp_step l (fst (wp_listener_SetOption OptionMaxRecvSize (VInt n) l))" by (rule wp_set)
  then have "wp_step l ?l1" by (simp add: wp_listener_SetOption_def option_names)
  moreover have "wp_step ?l1 (wp_loop_conn c m ?l1)" by (rule wp_conn) (use assms in simp_all)
  moreover have "wp_step (wp_loop_conn c m ?l1) (wp_loop_start c m (wp_loop_conn c m ?l1))"
    by (rule wp_start) (simp add: wp_loop_conn_def)
  ultimately have "wp_step\<^sup>*\<^sup>* l (wp_loop_start c m (wp_loop_conn c m ?l1))" by (meson converse_rtranclp_into_rtranclp r_into_rtranclp)
  moreover have "wl_recvMaxSize (wp_loop_start c m (wp_loop_conn c m ?l1)) = n \<and> c \<in> started (wl_hs (wp_loop_start c m (wp_loop_conn c m ?l1))) \<and>
      wl_limit (wp_loop_start c m (wp_loop_conn c m ?l1)) c = m" by (simp add: wp_loop_start_def wp_loop_conn_def)
  ultimately show ?thesis by blast
qed

end
