(* ===== verification/DtlsPacket.thy ===== *)
theory DtlsPacket
  imports Conn Complex_Main
begin

text \<open>
  Admission of DTLS peers, \<^verbatim>\<open>transport/dtls/packet.go\<close> and \<^verbatim>\<open>transport/dtls/config.go\<close>: one UDP socket shared by
  all peers, a packet queue per source address, a bound on the peers whose handshake is not finished,
  and a token bucket. Packet connections are numbered in the order of their admission, so the number
  also stands for the address object that the source compares by pointer. Times are nanoseconds of a
  clock that does not go back; the credit is a rational number where the code has a \<^verbatim>\<open>float64\<close>. The
  expiry timer and the deadlines are inputs.
\<close>

section \<open>Configuration\<close>

text \<open>Pion's options are opaque; \<open>None\<close> is a nil option.\<close>

record dconfig =
  cf_ClientOptions :: "nat option list"
  cf_ServerOptions :: "nat option list"
  cf_ConnectTimeout :: int
  cf_MaxPending :: int
  cf_HandshakeRate :: int

datatype pionopt = WithServerName string | DefaultOption nat | UserOption nat

definition cf_validate :: "dconfig \<Rightarrow> status" where
  "cf_validate c =
     (if cf_ConnectTimeout c < 0 \<or> cf_MaxPending c < 0 \<or> cf_HandshakeRate c < 0 then Some ErrBadValue
      else if None \<in> set (cf_ClientOptions c) then Some ErrBadValue
      else if None \<in> set (cf_ServerOptions c) then Some ErrBadValue
      else None)"

definition cf_timeout :: "dconfig \<Rightarrow> int" where
  "cf_timeout c = (if cf_ConnectTimeout c \<noteq> 0 then cf_ConnectTimeout c else 5000000000)"

definition cf_maxPending :: "dconfig \<Rightarrow> int" where
  "cf_maxPending c = (if cf_MaxPending c \<noteq> 0 then cf_MaxPending c else 1024)"

definition cf_handshakeRate :: "dconfig \<Rightarrow> int" where
  "cf_handshakeRate c = (if cf_HandshakeRate c \<noteq> 0 then cf_HandshakeRate c else 128)"

text \<open>The transport's defaults come first, so that an option of the user overrides them.\<close>

definition defaultOptions :: "pionopt list" where
  "defaultOptions = map DefaultOption [0, 1, 2, 3]"

definition cf_clientOptions :: "string \<Rightarrow> dconfig \<Rightarrow> pionopt list" where
  "cf_clientOptions host c = WithServerName host # defaultOptions @ map UserOption (List.map_filter id (cf_ClientOptions c))"

definition cf_serverOptions :: "dconfig \<Rightarrow> pionopt list" where
  "cf_serverOptions c = defaultOptions @ map UserOption (List.map_filter id (cf_ServerOptions c))"

section \<open>State\<close>

text \<open>\<open>pl_sock\<close>: the UDP socket is open; \<open>pl_toclose\<close>: connections that a \<^verbatim>\<open>Close\<close> still has to close.\<close>

record pconn =
  pc_remote :: string
  pc_expires :: int
  pc_packets :: "bytes list"
  pc_done :: bool
  pc_accepted :: bool
  pc_pending :: bool
  pc_held :: bool

record plistener =
  pl_peers :: "(string \<times> nat) list"
  pl_conns :: "nat \<Rightarrow> pconn"
  pl_next :: nat
  pl_acceptq :: "nat list"
  pl_closed :: bool
  pl_pending :: int
  pl_maxPending :: int
  pl_timeout :: int
  pl_rate :: rat
  pl_credit :: rat
  pl_updated :: int
  pl_sock :: bool
  pl_toclose :: "nat set"

definition new_pconn :: "string \<Rightarrow> int \<Rightarrow> pconn" where
  "new_pconn r ex =
     \<lparr>pc_remote = r, pc_expires = ex, pc_packets = [], pc_done = False, pc_accepted = False, pc_pending = True, pc_held = False\<rparr>"

definition newPacketListener :: "int \<Rightarrow> dconfig \<Rightarrow> plistener" where
  "newPacketListener now cfg =
     \<lparr>pl_peers = [], pl_conns = (\<lambda>_. new_pconn [] 0), pl_next = 0, pl_acceptq = [], pl_closed = False, pl_pending = 0,
      pl_maxPending = cf_maxPending cfg, pl_timeout = cf_timeout cfg, pl_rate = of_int (cf_handshakeRate cfg),
      pl_credit = of_int (cf_handshakeRate cfg), pl_updated = now, pl_sock = True, pl_toclose = {}\<rparr>"

definition upd_pc :: "nat \<Rightarrow> (pconn \<Rightarrow> pconn) \<Rightarrow> plistener \<Rightarrow> plistener" where
  "upd_pc c f l = l\<lparr>pl_conns := (pl_conns l)(c := f (pl_conns l c))\<rparr>"

definition accept_cap :: "plistener \<Rightarrow> int" where
  "accept_cap l = min 128 (pl_maxPending l)"

section \<open>Operations\<close>

text \<open>The first fragment of a ClientHello. The length test comes first, so that no index is out of range.\<close>

definition u24 :: "bytes \<Rightarrow> nat \<Rightarrow> nat" where
  "u24 b i = unat (b ! i) * 65536 + unat (b ! (i + 1)) * 256 + unat (b ! (i + 2))"

definition clientHello :: "bytes \<Rightarrow> bool" where
  "clientHello b =
     (if length b < 25 \<or> b ! 0 \<noteq> 22 \<or> b ! 1 \<noteq> 254 \<or> (b ! 2 \<noteq> 255 \<and> b ! 2 \<noteq> 253) \<or> b ! 3 \<noteq> 0 \<or> b ! 4 \<noteq> 0 \<or> b ! 13 \<noteq> 1 then False
      else
        (let record_len = unat (b ! 11) * 256 + unat (b ! 12); total = u24 b 14; offset = u24 b 19; fragment = u24 b 22
         in record_len \<ge> 12 \<and> record_len \<le> length b - 13 \<and> offset = 0 \<and> total \<le> 16384 \<and> fragment > 0 \<and> fragment \<le> total \<and>
            fragment \<le> record_len - 12))"

definition push_packet :: "nat \<Rightarrow> bytes \<Rightarrow> plistener \<Rightarrow> plistener" where
  "push_packet c b l =
     (if length (pc_packets (pl_conns l c)) < 16 then upd_pc c (\<lambda>x. x\<lparr>pc_packets := pc_packets x @ [b]\<rparr>) l else l)"

definition seconds :: "int \<Rightarrow> rat" where
  "seconds d = of_int d / 1000000000"

definition admit :: "int \<Rightarrow> string \<Rightarrow> plistener \<Rightarrow> plistener" where
  "admit now r l =
     l\<lparr>pl_conns := (pl_conns l)(pl_next l := new_pconn r (now + pl_timeout l)), pl_peers := (r, pl_next l) # pl_peers l,
       pl_next := Suc (pl_next l), pl_pending := pl_pending l + 1, pl_acceptq := pl_acceptq l @ [pl_next l]\<rparr>"

definition dispatch :: "int \<Rightarrow> bytes \<Rightarrow> string \<Rightarrow> plistener \<Rightarrow> plistener" where
  "dispatch now b r l =
     (case map_of (pl_peers l) r of
        Some c \<Rightarrow> push_packet c b l
      | None \<Rightarrow>
          if pl_closed l \<or> \<not> clientHello b \<or> pl_pending l \<ge> pl_maxPending l \<or> int (length (pl_acceptq l)) = accept_cap l then l
          else
            (let credit = min (pl_rate l) (pl_credit l + seconds (now - pl_updated l) * pl_rate l);
                 l1 = l\<lparr>pl_credit := credit, pl_updated := now\<rparr>
             in if credit < 1 then l1
                else push_packet (pl_next l) b (admit now r (l1\<lparr>pl_credit := credit - 1\<rparr>))))"

text \<open>
  \<^verbatim>\<open>Accept\<close> after it took the head of the queue: \<open>None\<close> means the next turn of its loop. When \<^verbatim>\<open>done\<close> is closed
  the select may return \<^verbatim>\<open>net.ErrClosed\<close> as well.
\<close>

definition pk_Accept :: "plistener \<Rightarrow> (plistener \<times> (err + nat) option) option" where
  "pk_Accept l =
     (case pl_acceptq l of
        [] \<Rightarrow> if pl_closed l then Some (l, Some (Inl ErrNetClosed)) else None
      | c # q \<Rightarrow>
          (let l1 = l\<lparr>pl_acceptq := q\<rparr>
           in if pc_done (pl_conns l c) then Some (l1, None)
              else if pl_closed l then Some (l1, Some (Inl ErrNetClosed))
              else Some (upd_pc c (\<lambda>x. x\<lparr>pc_accepted := True\<rparr>) l1, Some (Inr c))))"

text \<open>\<open>c\<close> is the connection whose address Pion kept.\<close>

definition holdPeer :: "nat \<Rightarrow> plistener \<Rightarrow> plistener \<times> nat option" where
  "holdPeer c l =
     (if map_of (pl_peers l) (pc_remote (pl_conns l c)) = Some c then (upd_pc c (\<lambda>x. x\<lparr>pc_held := True\<rparr>) l, Some c)
      else (l, None))"

definition pk_Close_begin :: "plistener \<Rightarrow> plistener" where
  "pk_Close_begin l =
     (if pl_closed l then l
      else l\<lparr>pl_closed := True, pl_toclose := pl_toclose l \<union> set (filter (\<lambda>c. \<not> pc_accepted (pl_conns l c)) (map snd (pl_peers l))),
             pl_sock := (pl_sock l \<and> pl_peers l \<noteq> [])\<rparr>)"

definition readLoop_error :: "plistener \<Rightarrow> plistener" where
  "readLoop_error l =
     (let l1 = pk_Close_begin l in l1\<lparr>pl_toclose := pl_toclose l1 \<union> set (map snd (pl_peers l1))\<rparr>)"

definition establish :: "nat \<Rightarrow> plistener \<Rightarrow> plistener \<times> bool" where
  "establish c l =
     (if pc_done (pl_conns l c) then (l, False)
      else if pc_pending (pl_conns l c)
        then ((upd_pc c (\<lambda>x. x\<lparr>pc_pending := False\<rparr>) l)\<lparr>pl_pending := pl_pending l - 1\<rparr>, True)
      else (l, True))"

definition pk_release :: "nat \<Rightarrow> plistener \<Rightarrow> plistener" where
  "pk_release c l =
     (if pc_pending (pl_conns l c)
      then (upd_pc c (\<lambda>x. x\<lparr>pc_pending := False, pc_held := False\<rparr>) l)\<lparr>pl_pending := pl_pending l - 1\<rparr>
      else upd_pc c (\<lambda>x. x\<lparr>pc_held := False\<rparr>) l)"

definition pc_close :: "bool \<Rightarrow> nat \<Rightarrow> plistener \<Rightarrow> plistener" where
  "pc_close pendingOnly c l =
     (let x = pl_conns l c
      in if pc_done x then l\<lparr>pl_toclose := pl_toclose l - {c}\<rparr>
         else if pendingOnly \<and> \<not> pc_pending x then l
         else
           (let l1 = l\<lparr>pl_peers := filter (\<lambda>(r, _). r \<noteq> pc_remote x) (pl_peers l), pl_toclose := pl_toclose l - {c}\<rparr>;
                l2 = (if pc_pending x \<and> \<not> pc_held x
                      then (upd_pc c (\<lambda>x. x\<lparr>pc_done := True, pc_pending := False\<rparr>) l1)\<lparr>pl_pending := pl_pending l - 1\<rparr>
                      else upd_pc c (\<lambda>x. x\<lparr>pc_done := True\<rparr>) l1)
            in l2\<lparr>pl_sock := (pl_sock l2 \<and> \<not> (pl_closed l2 \<and> pl_peers l2 = []))\<rparr>))"

text \<open>\<open>expired\<close>: the read deadline has passed. \<open>None\<close>: the read waits for a packet.\<close>

definition ReadFrom :: "bool \<Rightarrow> nat \<Rightarrow> nat \<Rightarrow> plistener \<Rightarrow> (plistener \<times> (err + bytes)) option" where
  "ReadFrom expired n c l =
     (let x = pl_conns l c
      in if pc_done x then Some (l, Inl ErrNetClosed)
         else if expired then Some (l, Inl (ErrExternal 6))
         else (case pc_packets x of
                 [] \<Rightarrow> None
               | p # ps \<Rightarrow>
                   Some (upd_pc c (\<lambda>x. x\<lparr>pc_packets := ps\<rparr>) l,
                         if length p > n then Inl (ErrExternal 7) else Inr p)))"

text \<open>\<open>wr\<close> is what the socket answers; writing waits for the one writer slot, a closed connection does not write.\<close>

definition WriteTo :: "bool \<Rightarrow> (bytes \<Rightarrow> err + nat) \<Rightarrow> bytes \<Rightarrow> string \<Rightarrow> nat \<Rightarrow> plistener \<Rightarrow> err + nat" where
  "WriteTo expired wr b a c l =
     (if a \<noteq> pc_remote (pl_conns l c) then Inl (ErrExternal 8)
      else if pc_done (pl_conns l c) then Inl ErrNetClosed
      else if expired then Inl (ErrExternal 6)
      else wr b)"

section \<open>Runs\<close>

text \<open>\<^verbatim>\<open>time.Now\<close> does not go back. Everything else may happen at any time, on any connection.\<close>

inductive pk_step :: "plistener \<Rightarrow> plistener \<Rightarrow> bool" where
  pk_dispatch: "pl_updated l \<le> now \<Longrightarrow> pk_step l (dispatch now b r l)"
| pk_accept: "pk_Accept l = Some (l', res) \<Longrightarrow> pk_step l l'"
| pk_hold: "c < pl_next l \<Longrightarrow> pk_step l (fst (holdPeer c l))"
| pk_close: "pk_step l (pk_Close_begin l)"
| pk_read_error: "pk_step l (readLoop_error l)"
| pk_establish: "c < pl_next l \<Longrightarrow> pk_step l (fst (establish c l))"
| pk_release: "c < pl_next l \<Longrightarrow> pk_step l (pk_release c l)"
| pk_conn_close: "c < pl_next l \<Longrightarrow> pk_step l (pc_close b c l)"
| pk_read: "c < pl_next l \<Longrightarrow> ReadFrom ex n c l = Some (l', res) \<Longrightarrow> pk_step l l'"

definition pending_set :: "plistener \<Rightarrow> nat set" where
  "pending_set l = {c. c < pl_next l \<and> pc_pending (pl_conns l c)}"

text \<open>The table: one open connection per address, and every open connection is there.\<close>

definition pk_table :: "plistener \<Rightarrow> bool" where
  "pk_table l \<longleftrightarrow> distinct (map fst (pl_peers l)) \<and>
     (\<forall>r c. (r, c) \<in> set (pl_peers l) \<longleftrightarrow> c < pl_next l \<and> pc_remote (pl_conns l c) = r \<and> \<not> pc_done (pl_conns l c)) \<and>
     (pl_sock l \<longleftrightarrow> \<not> (pl_closed l \<and> pl_peers l = []))"

text \<open>The bounds: slots in use, queue lengths.\<close>

definition pk_bounds :: "plistener \<Rightarrow> bool" where
  "pk_bounds l \<longleftrightarrow> pl_pending l = int (card (pending_set l)) \<and> pl_pending l \<le> pl_maxPending l \<and>
     int (length (pl_acceptq l)) \<le> accept_cap l \<and> set (pl_acceptq l) \<subseteq> {..<pl_next l} \<and> distinct (pl_acceptq l) \<and>
     (\<forall>c. length (pc_packets (pl_conns l c)) \<le> 16)"

text \<open>No slot is lost, and nobody is forgotten by \<^verbatim>\<open>Close\<close>.\<close>

definition pk_slots :: "plistener \<Rightarrow> bool" where
  "pk_slots l \<longleftrightarrow>
     (\<forall>c < pl_next l. pc_done (pl_conns l c) \<and> pc_pending (pl_conns l c) \<longrightarrow> pc_held (pl_conns l c)) \<and>
     (\<forall>c < pl_next l. pl_closed l \<and> \<not> pc_accepted (pl_conns l c) \<and> \<not> pc_done (pl_conns l c) \<longrightarrow> c \<in> pl_toclose l) \<and>
     (\<forall>c\<in>set (pl_acceptq l). \<not> pc_accepted (pl_conns l c))"

text \<open>The token bucket, for a listener that was made at \<open>t0\<close>.\<close>

definition pk_bucket :: "int \<Rightarrow> rat \<Rightarrow> plistener \<Rightarrow> bool" where
  "pk_bucket t0 rt l \<longleftrightarrow> pl_rate l = rt \<and> pl_credit l \<le> rt \<and> t0 \<le> pl_updated l \<and>
     of_nat (pl_next l) + pl_credit l \<le> rt + seconds (pl_updated l - t0) * rt"

lemma pending_set_finite [simp]: "finite (pending_set l)"
  by (simp add: pending_set_def)

lemma upd_pc_fields [simp]:
  "pl_peers (upd_pc c f l) = pl_peers l" "pl_next (upd_pc c f l) = pl_next l" "pl_acceptq (upd_pc c f l) = pl_acceptq l"
  "pl_closed (upd_pc c f l) = pl_closed l" "pl_pending (upd_pc c f l) = pl_pending l" "pl_maxPending (upd_pc c f l) = pl_maxPending l"
  "pl_rate (upd_pc c f l) = pl_rate l" "pl_credit (upd_pc c f l) = pl_credit l" "pl_updated (upd_pc c f l) = pl_updated l"
  "pl_sock (upd_pc c f l) = pl_sock l" "pl_toclose (upd_pc c f l) = pl_toclose l" "accept_cap (upd_pc c f l) = accept_cap l"
  "pl_conns (upd_pc c f l) = (pl_conns l)(c := f (pl_conns l c))"
  by (simp_all add: upd_pc_def accept_cap_def)

lemma push_packet_fields [simp]:
  "pl_peers (push_packet c b l) = pl_peers l" "pl_next (push_packet c b l) = pl_next l" "pl_acceptq (push_packet c b l) = pl_acceptq l"
  "pl_closed (push_packet c b l) = pl_closed l" "pl_pending (push_packet c b l) = pl_pending l"
  "pl_maxPending (push_packet c b l) = pl_maxPending l" "pl_rate (push_packet c b l) = pl_rate l"
  "pl_credit (push_packet c b l) = pl_credit l" "pl_updated (push_packet c b l) = pl_updated l" "pl_sock (push_packet c b l) = pl_sock l"
  "pl_toclose (push_packet c b l) = pl_toclose l" "accept_cap (push_packet c b l) = accept_cap l"
  "pc_remote (pl_conns (push_packet c b l) d) = pc_remote (pl_conns l d)" "pc_done (pl_conns (push_packet c b l) d) = pc_done (pl_conns l d)"
  "pc_accepted (pl_conns (push_packet c b l) d) = pc_accepted (pl_conns l d)"
  "pc_pending (pl_conns (push_packet c b l) d) = pc_pending (pl_conns l d)" "pc_held (pl_conns (push_packet c b l) d) = pc_held (pl_conns l d)"
  by (simp_all add: push_packet_def)

lemma push_packet_16: "length (pc_packets (pl_conns l d)) \<le> 16 \<Longrightarrow> length (pc_packets (pl_conns (push_packet c b l) d)) \<le> 16"
  by (simp add: push_packet_def)

lemma push_packet_inv:
  "pk_table (push_packet c b l) = pk_table l" "pk_slots (push_packet c b l) = pk_slots l" "pk_bucket t0 rt (push_packet c b l) = pk_bucket t0 rt l"
  "pending_set (push_packet c b l) = pending_set l" "pk_bounds l \<Longrightarrow> pk_bounds (push_packet c b l)"
proof -
  show p: "pending_set (push_packet c b l) = pending_set l" by (simp add: pending_set_def)
  show "pk_bounds (push_packet c b l)" if "pk_bounds l" using that by (simp add: pk_bounds_def p push_packet_16)
qed (simp_all add: pk_table_def pk_slots_def pk_bucket_def)

section \<open>Admission\<close>

text \<open>\<^verbatim>\<open>dispatch\<close> queues the packet, refuses it, spends nothing, or admits a new connection.\<close>

definition refilled :: "int \<Rightarrow> plistener \<Rightarrow> plistener" where
  "refilled now l =
     l\<lparr>pl_credit := min (pl_rate l) (pl_credit l + seconds (now - pl_updated l) * pl_rate l), pl_updated := now\<rparr>"

lemma dispatch_cases:
  obtains c where "map_of (pl_peers l) r = Some c" "dispatch now b r l = push_packet c b l"
    | "map_of (pl_peers l) r = None" "dispatch now b r l = l"
    | "map_of (pl_peers l) r = None" "dispatch now b r l = refilled now l"
    | "map_of (pl_peers l) r = None" "\<not> pl_closed l" "clientHello b" "pl_pending l < pl_maxPending l"
      "int (length (pl_acceptq l)) \<noteq> accept_cap l" "1 \<le> pl_credit (refilled now l)"
      "dispatch now b r l =
         push_packet (pl_next l) b (admit now r ((refilled now l)\<lparr>pl_credit := pl_credit (refilled now l) - 1\<rparr>))"
proof (cases "map_of (pl_peers l) r")
  case None
  show thesis
  proof (cases "pl_closed l \<or> \<not> clientHello b \<or> pl_pending l \<ge> pl_maxPending l \<or> int (length (pl_acceptq l)) = accept_cap l")
    case True
    then show thesis using that(2) None by (auto simp: dispatch_def)
  next
    case False
    then have d: "dispatch now b r l = (if pl_credit (refilled now l) < 1 then refilled now l
        else push_packet (pl_next l) b (admit now r ((refilled now l)\<lparr>pl_credit := pl_credit (refilled now l) - 1\<rparr>)))"
      using None by (simp add: dispatch_def refilled_def Let_def)
    show thesis
    proof (cases "pl_credit (refilled now l) < 1")
      case True
      then show thesis using that(3) None d by simp
    next
      case credit: False
      then show thesis using that(4) None d False by simp
    qed
  qed
qed (auto simp: dispatch_def intro: that(1))

lemma refilled_inv:
  "pk_table (refilled now l) = pk_table l" "pk_slots (refilled now l) = pk_slots l" "pk_bounds (refilled now l) = pk_bounds l"
  by (simp_all add: refilled_def pk_table_def pk_slots_def pk_bounds_def pending_set_def accept_cap_def)

lemma refilled_bucket:
  assumes "pk_bucket t0 rt l" "0 \<le> rt" "pl_updated l \<le> now"
  shows "pk_bucket t0 rt (refilled now l)"
proof -
  let ?c = "pl_credit (refilled now l)"
  have b: "pl_rate l = rt" "t0 \<le> pl_updated l" "of_nat (pl_next l) + pl_credit l \<le> rt + seconds (pl_updated l - t0) * rt"
    using assms(1) by (simp_all add: pk_bucket_def)
  have "?c \<le> pl_credit l + seconds (now - pl_updated l) * rt" "?c \<le> rt" by (simp_all add: refilled_def b(1))
  moreover have "seconds (now - t0) = seconds (now - pl_updated l) + seconds (pl_updated l - t0)"
    by (simp add: seconds_def flip: add_divide_distrib)
  ultimately have "of_nat (pl_next l) + ?c \<le> rt + seconds (now - t0) * rt" using b(3) by (simp add: distrib_right)
  moreover have "pl_updated (refilled now l) = now" "pl_next (refilled now l) = pl_next l" "pl_rate (refilled now l) = rt"
    by (simp_all add: refilled_def b(1))
  ultimately show ?thesis using \<open>?c \<le> rt\<close> b(2) assms(3) by (simp add: pk_bucket_def)
qed

lemma admit_inv:
  assumes "map_of (pl_peers l) r = None" "\<not> pl_closed l" "pl_pending l < pl_maxPending l" "int (length (pl_acceptq l)) \<noteq> accept_cap l"
  shows "pk_table l \<Longrightarrow> pk_table (admit now r l)" "pk_slots l \<Longrightarrow> pk_bounds l \<Longrightarrow> pk_slots (admit now r l)" "pk_bounds l \<Longrightarrow> pk_bounds (admit now r l)"
proof -
  have fresh: "r \<notin> fst ` set (pl_peers l)" using assms(1) by (simp add: map_of_eq_None_iff)
  show "pk_table (admit now r l)" if "pk_table l"
    using that fresh assms(2) by (auto simp: pk_table_def admit_def new_pconn_def less_Suc_eq image_iff)
  show "pk_slots (admit now r l)" if "pk_slots l" "pk_bounds l"
    using that assms(2) by (auto simp: pk_slots_def pk_bounds_def admit_def new_pconn_def less_Suc_eq)
  have "pending_set (admit now r l) = insert (pl_next l) (pending_set l)" "pl_next l \<notin> pending_set l"
    by (auto simp: pending_set_def admit_def new_pconn_def less_Suc_eq)
  then show "pk_bounds (admit now r l)" if "pk_bounds l"
    using that assms(3,4) by (auto simp: pk_bounds_def admit_def new_pconn_def accept_cap_def)
qed

text \<open>All of them together.\<close>

definition pk_inv :: "int \<Rightarrow> rat \<Rightarrow> plistener \<Rightarrow> bool" where
  "pk_inv t0 rt l \<longleftrightarrow> 0 \<le> rt \<and> pk_table l \<and> pk_bounds l \<and> pk_slots l \<and> pk_bucket t0 rt l"

lemma dispatch_inv:
  assumes inv: "pk_inv t0 rt l" and now: "pl_updated l \<le> now"
  shows "pk_inv t0 rt (dispatch now b r l)"
proof (cases rule: dispatch_cases [of l r now b])
  case 1
  then show ?thesis using inv by (simp add: pk_inv_def push_packet_inv)
next
  case 2
  then show ?thesis using inv by simp
next
  case 3
  then show ?thesis using inv now by (simp add: pk_inv_def refilled_inv refilled_bucket)
next
  case 4
  let ?l = "(refilled now l)\<lparr>pl_credit := pl_credit (refilled now l) - 1\<rparr>"
  have b: "pk_bucket t0 rt (refilled now l)" using inv now by (simp add: pk_inv_def refilled_bucket)
  have "pk_table ?l = pk_table l" "pk_slots ?l = pk_slots l" "pk_bounds ?l = pk_bounds l"
    by (simp_all add: refilled_def pk_table_def pk_slots_def pk_bounds_def pending_set_def accept_cap_def)
  then have i: "pk_table ?l" "pk_slots ?l" "pk_bounds ?l" using inv by (simp_all add: pk_inv_def)
  have p: "map_of (pl_peers ?l) r = None" "\<not> pl_closed ?l" "pl_pending ?l < pl_maxPending ?l" "int (length (pl_acceptq ?l)) \<noteq> accept_cap ?l"
    using 4 by (simp_all add: refilled_def accept_cap_def)
  have "pk_bucket t0 rt (admit now r ?l)" using b by (simp add: pk_bucket_def admit_def)
  then show ?thesis using inv admit_inv [OF p, of now] i 4(7) by (simp add: pk_inv_def push_packet_inv)
qed

section \<open>The other operations\<close>

text \<open>Giving a slot back.\<close>

lemma pending_set_drop:
  assumes "c < pl_next l" "pc_pending (pl_conns l c)" "\<And>x. \<not> pc_pending (f x)"
  shows "card (pending_set (upd_pc c f l)) = card (pending_set l) - 1" "0 < card (pending_set l)"
proof -
  have "c \<in> pending_set l" "pending_set (upd_pc c f l) = pending_set l - {c}" using assms by (auto simp: pending_set_def)
  then show "card (pending_set (upd_pc c f l)) = card (pending_set l) - 1" "0 < card (pending_set l)"
    by (simp_all add: card_gt_0_iff) auto
qed

lemma pending_set_same: "(\<And>x. pc_pending (f x) = pc_pending x) \<Longrightarrow> pending_set (upd_pc c f l) = pending_set l"
  by (auto simp: pending_set_def)

lemma pending_set_cong: "pl_conns l' = pl_conns l \<Longrightarrow> pl_next l' = pl_next l \<Longrightarrow> pending_set l' = pending_set l"
  by (simp add: pending_set_def)

lemma bounds_drop:
  assumes "pk_bounds l" "c < pl_next l" "pc_pending (pl_conns l c)" "\<And>x. \<not> pc_pending (f x) \<and> pc_packets (f x) = pc_packets x"
  shows "pk_bounds ((upd_pc c f l)\<lparr>pl_pending := pl_pending l - 1\<rparr>)"
proof -
  have "pending_set ((upd_pc c f l)\<lparr>pl_pending := pl_pending l - 1\<rparr>) = pending_set (upd_pc c f l)" by (rule pending_set_cong) simp_all
  then show ?thesis using pending_set_drop [OF assms(2,3), of f] assms by (auto simp: pk_bounds_def accept_cap_def)
qed

lemma bounds_same:
  assumes "pk_bounds l" "\<And>x. pc_pending (f x) = pc_pending x \<and> length (pc_packets (f x)) \<le> length (pc_packets x)"
  shows "pk_bounds (upd_pc c f l)"
  using assms order_trans [OF conjunct2 [OF assms(2)]] by (auto simp: pk_bounds_def pending_set_same)

lemma hold_inv: "pk_inv t0 rt l \<Longrightarrow> pk_inv t0 rt (fst (holdPeer c l))"
  by (simp add: holdPeer_def pk_inv_def bounds_same) (auto simp: pk_table_def pk_slots_def pk_bucket_def)

lemma establish_inv: "pk_inv t0 rt l \<Longrightarrow> c < pl_next l \<Longrightarrow> pk_inv t0 rt (fst (establish c l))"
  by (simp add: establish_def pk_inv_def bounds_drop) (auto simp: pk_table_def pk_slots_def pk_bucket_def)

lemma release_inv: "pk_inv t0 rt l \<Longrightarrow> c < pl_next l \<Longrightarrow> pk_inv t0 rt (pk_release c l)"
  by (simp add: pk_release_def pk_inv_def bounds_drop bounds_same) (auto simp: pk_table_def pk_slots_def pk_bucket_def)

lemma read_inv: "pk_inv t0 rt l \<Longrightarrow> ReadFrom ex n c l = Some (l', res) \<Longrightarrow> pk_inv t0 rt l'"
proof -
  assume inv: "pk_inv t0 rt l" and r: "ReadFrom ex n c l = Some (l', res)"
  show ?thesis
  proof (cases "l' = l")
    case False
    then obtain q ps where q: "pc_packets (pl_conns l c) = q # ps" "l' = upd_pc c (\<lambda>x. x\<lparr>pc_packets := ps\<rparr>) l"
      using r by (auto simp: ReadFrom_def Let_def split: if_splits list.splits)
    have "pending_set l' = pending_set l" unfolding q(2) by (rule pending_set_same) simp
    then have "pk_bounds l'" using inv q by (auto simp: pk_inv_def pk_bounds_def dest: spec [of _ c])
    moreover have "pk_table l' = pk_table l" "pk_slots l' = pk_slots l" "pk_bucket t0 rt l' = pk_bucket t0 rt l"
      unfolding q(2) by (auto simp: pk_table_def pk_slots_def pk_bucket_def)
    ultimately show ?thesis using inv by (simp add: pk_inv_def)
  qed (use inv in simp)
qed

lemma accept_inv: "pk_inv t0 rt l \<Longrightarrow> pk_Accept l = Some (l', res) \<Longrightarrow> pk_inv t0 rt l'"
proof -
  assume inv: "pk_inv t0 rt l" and a: "pk_Accept l = Some (l', res)"
  show ?thesis
  proof (cases "pl_acceptq l")
    case Nil
    then show ?thesis using inv a by (auto simp: pk_Accept_def split: if_splits)
  next
    case (Cons c q)
    let ?l = "l\<lparr>pl_acceptq := q\<rparr>"
    have "pending_set ?l = pending_set l" by (rule pending_set_cong) simp_all
    then have i: "pk_inv t0 rt ?l" using inv Cons
      by (auto simp: pk_inv_def pk_bounds_def accept_cap_def pk_table_def pk_slots_def pk_bucket_def)
    have "l' = ?l \<or> \<not> pl_closed l \<and> l' = upd_pc c (\<lambda>x. x\<lparr>pc_accepted := True\<rparr>) ?l"
      using a Cons by (auto simp: pk_Accept_def Let_def split: if_splits)
    moreover have "c \<notin> set q" using inv Cons by (simp add: pk_inv_def pk_bounds_def)
    then have "pk_inv t0 rt (upd_pc c (\<lambda>x. x\<lparr>pc_accepted := True\<rparr>) ?l)" if "\<not> pl_closed l"
      using that i by (simp add: pk_inv_def bounds_same) (auto simp: pk_table_def pk_slots_def pk_bucket_def)
    ultimately show ?thesis using i by blast
  qed
qed

lemma close_begin_inv: "pk_inv t0 rt l \<Longrightarrow> pk_inv t0 rt (pk_Close_begin l)"
proof -
  assume inv: "pk_inv t0 rt l"
  show ?thesis
  proof (cases "pl_closed l")
    case False
    let ?l = "pk_Close_begin l"
    have f: "pl_peers ?l = pl_peers l" "pl_conns ?l = pl_conns l" "pl_next ?l = pl_next l" "pl_acceptq ?l = pl_acceptq l" "pl_closed ?l"
      "pl_pending ?l = pl_pending l" "pl_maxPending ?l = pl_maxPending l" "pl_rate ?l = pl_rate l" "pl_credit ?l = pl_credit l"
      "pl_updated ?l = pl_updated l" "pl_sock ?l = (pl_sock l \<and> pl_peers l \<noteq> [])"
      "pl_toclose ?l = pl_toclose l \<union> set (filter (\<lambda>c. \<not> pc_accepted (pl_conns l c)) (map snd (pl_peers l)))"
      using False by (simp_all add: pk_Close_begin_def)
    have "pending_set ?l = pending_set l" by (rule pending_set_cong) (simp_all add: f)
    then have "pk_bounds ?l" using inv by (simp add: pk_inv_def pk_bounds_def f accept_cap_def)
    moreover have "pk_table ?l" using inv False by (auto simp: pk_inv_def pk_table_def f)
    moreover have "pk_slots ?l" using inv by (auto simp: pk_inv_def pk_table_def pk_slots_def f image_iff Bex_def)
    ultimately show ?thesis using inv by (simp add: pk_inv_def pk_bucket_def f)
  qed (use inv in \<open>simp add: pk_Close_begin_def\<close>)
qed

lemma toclose_inv: "pk_inv t0 rt l \<Longrightarrow> pl_toclose l \<subseteq> z \<Longrightarrow> pk_inv t0 rt (l\<lparr>pl_toclose := z\<rparr>)"
proof -
  have "pending_set (l\<lparr>pl_toclose := z\<rparr>) = pending_set l" by (rule pending_set_cong) simp_all
  then show "pk_inv t0 rt l \<Longrightarrow> pl_toclose l \<subseteq> z \<Longrightarrow> pk_inv t0 rt (l\<lparr>pl_toclose := z\<rparr>)"
    by (auto simp: pk_inv_def pk_bounds_def accept_cap_def pk_table_def pk_slots_def pk_bucket_def)
qed

lemma read_error_inv: "pk_inv t0 rt l \<Longrightarrow> pk_inv t0 rt (readLoop_error l)"
  unfolding readLoop_error_def Let_def by (rule toclose_inv [OF close_begin_inv]) auto

text \<open>Closing a connection that is open, in two steps: the table and the socket, then the slot.\<close>

definition unlist :: "nat \<Rightarrow> plistener \<Rightarrow> plistener" where
  "unlist c l =
     (let ps = filter (\<lambda>(r, _). r \<noteq> pc_remote (pl_conns l c)) (pl_peers l)
      in (upd_pc c (\<lambda>x. x\<lparr>pc_done := True\<rparr>) l)
           \<lparr>pl_peers := ps, pl_toclose := pl_toclose l - {c}, pl_sock := (pl_sock l \<and> \<not> (pl_closed l \<and> ps = []))\<rparr>)"

lemma pc_close_eq:
  assumes "\<not> pc_done (pl_conns l c)" "b \<longrightarrow> pc_pending (pl_conns l c)"
  shows "pc_close b c l =
    (if pc_pending (pl_conns l c) \<and> \<not> pc_held (pl_conns l c)
     then (upd_pc c (\<lambda>x. x\<lparr>pc_pending := False\<rparr>) (unlist c l))\<lparr>pl_pending := pl_pending (unlist c l) - 1\<rparr>
     else unlist c l)"
  using assms by (cases "pc_pending (pl_conns l c)") (simp_all add: pc_close_def unlist_def Let_def upd_pc_def)

lemma unlist_fields [simp]:
  "pl_next (unlist c l) = pl_next l" "pl_acceptq (unlist c l) = pl_acceptq l" "pl_closed (unlist c l) = pl_closed l"
  "pl_pending (unlist c l) = pl_pending l" "pl_maxPending (unlist c l) = pl_maxPending l" "pl_rate (unlist c l) = pl_rate l"
  "pl_credit (unlist c l) = pl_credit l" "pl_updated (unlist c l) = pl_updated l" "pl_toclose (unlist c l) = pl_toclose l - {c}"
  "pl_conns (unlist c l) = (pl_conns l)(c := (pl_conns l c)\<lparr>pc_done := True\<rparr>)"
  by (simp_all add: unlist_def Let_def)

lemma unlist_table:
  assumes "pk_table l" "c < pl_next l" "\<not> pc_done (pl_conns l c)"
  shows "pk_table (unlist c l)"
proof -
  let ?ps = "filter (\<lambda>(r, _). r \<noteq> pc_remote (pl_conns l c)) (pl_peers l)"
  have p: "pl_peers (unlist c l) = ?ps" "pl_sock (unlist c l) = (pl_sock l \<and> \<not> (pl_closed l \<and> ?ps = []))"
    by (simp_all add: unlist_def Let_def)
  have d: "distinct (map fst (pl_peers l))"
    and t: "\<And>r d. (r, d) \<in> set (pl_peers l) \<longleftrightarrow> d < pl_next l \<and> pc_remote (pl_conns l d) = r \<and> \<not> pc_done (pl_conns l d)"
    and k: "pl_sock l \<longleftrightarrow> \<not> (pl_closed l \<and> pl_peers l = [])"
    using assms(1) unfolding pk_table_def by blast+
  have c: "(pc_remote (pl_conns l c), c) \<in> set (pl_peers l)" using t assms(2,3) by blast
  have only: "d = c" if "(pc_remote (pl_conns l c), d) \<in> set (pl_peers l)" for d
    using d c that by (metis eq_key_imp_eq_value)
  have "distinct (map fst ?ps)" using d by (rule distinct_map_filter)
  moreover have "(r, e) \<in> set ?ps \<longleftrightarrow> e < pl_next l \<and> pc_remote (pl_conns (unlist c l) e) = r \<and> \<not> pc_done (pl_conns (unlist c l) e)" for r e
    using t only by (cases "e = c") auto
  moreover have "pl_peers l \<noteq> []" using c by auto
  ultimately show ?thesis using k by (simp add: pk_table_def p)
qed

lemma unlist_bounds: "pk_bounds l \<Longrightarrow> pk_bounds (unlist c l)"
proof -
  have "pending_set (unlist c l) = pending_set l" by (auto simp: pending_set_def)
  then show "pk_bounds l \<Longrightarrow> pk_bounds (unlist c l)" by (simp add: pk_bounds_def accept_cap_def)
qed

lemma pc_close_inv:
  assumes inv: "pk_inv t0 rt l" and c: "c < pl_next l"
  shows "pk_inv t0 rt (pc_close b c l)"
proof (cases "pc_done (pl_conns l c)")
  case True
  have "pending_set (l\<lparr>pl_toclose := pl_toclose l - {c}\<rparr>) = pending_set l" by (rule pending_set_cong) simp_all
  then show ?thesis using inv True
    by (auto simp: pc_close_def pk_inv_def pk_bounds_def accept_cap_def pk_table_def pk_slots_def pk_bucket_def)
next
  case False
  show ?thesis
  proof (cases "b \<and> \<not> pc_pending (pl_conns l c)")
    case True
    then show ?thesis using inv False by (simp add: pc_close_def)
  next
    case goes: False
    have i: "pk_table (unlist c l)" "pk_bounds (unlist c l)" "pk_bucket t0 rt (unlist c l)" "0 \<le> rt"
      using inv unlist_table [OF _ c False] unlist_bounds by (auto simp: pk_inv_def pk_bucket_def)
    have sl: "pk_slots l" using inv by (simp add: pk_inv_def)
    let ?l = "(upd_pc c (\<lambda>x. x\<lparr>pc_pending := False\<rparr>) (unlist c l))\<lparr>pl_pending := pl_pending (unlist c l) - 1\<rparr>"
    show ?thesis
    proof (cases "pc_pending (pl_conns l c) \<and> \<not> pc_held (pl_conns l c)")
      case True
      have "pk_bounds ?l" by (rule bounds_drop [OF i(2)]) (use c True in auto)
      moreover have "pk_table ?l = pk_table (unlist c l)" "pk_bucket t0 rt ?l = pk_bucket t0 rt (unlist c l)"
        by (auto simp: pk_table_def pk_bucket_def)
      moreover have "pk_slots ?l" using sl by (auto simp: pk_slots_def)
      ultimately show ?thesis using True i goes False by (simp add: pc_close_eq pk_inv_def)
    next
      case keep: False
      then have "pk_slots (unlist c l)" using sl by (auto simp: pk_slots_def)
      then show ?thesis using i goes False by (simp add: pc_close_eq pk_inv_def keep)
    qed
  qed
qed

lemma pk_step_inv: "pk_step l l' \<Longrightarrow> pk_inv t0 rt l \<Longrightarrow> pk_inv t0 rt l'"
  by (erule pk_step.cases)
    (blast intro: dispatch_inv accept_inv hold_inv close_begin_inv read_error_inv establish_inv release_inv pc_close_inv read_inv)+

section \<open>Properties\<close>

lemma pk_init:
  assumes "cf_validate cfg = None"
  shows "pk_inv now (of_int (cf_handshakeRate cfg)) (newPacketListener now cfg)"
proof -
  have n: "0 \<le> cf_maxPending cfg" "0 \<le> cf_handshakeRate cfg"
    using assms by (auto simp: cf_validate_def cf_maxPending_def cf_handshakeRate_def split: if_splits)
  let ?l = "newPacketListener now cfg"
  have "pk_table ?l" "pk_slots ?l" by (simp_all add: newPacketListener_def pk_table_def pk_slots_def)
  moreover have "pk_bounds ?l" using n by (simp add: newPacketListener_def pk_bounds_def pending_set_def accept_cap_def new_pconn_def)
  moreover have "pk_bucket now (of_int (cf_handshakeRate cfg)) ?l" by (simp add: newPacketListener_def pk_bucket_def seconds_def)
  ultimately show ?thesis using n by (simp add: pk_inv_def)
qed

interpretation pk: machine "\<lambda>l. \<exists>cfg. cf_validate cfg = None \<and> l = newPacketListener t0 cfg \<and> rt = of_int (cf_handshakeRate cfg)" pk_step "pk_inv t0 rt"
proof
  show "pk_inv t0 rt l" if "\<exists>cfg. cf_validate cfg = None \<and> l = newPacketListener t0 cfg \<and> rt = of_int (cf_handshakeRate cfg)" for l
    using that pk_init by blast
  show "pk_inv t0 rt l'" if "pk_inv t0 rt l" "pk_step l l'" for l l' using that pk_step_inv by blast
qed

text \<open>
  C35: Strangers cannot exhaust a DTLS listener. For every valid configuration and in every run: the
  counter is the number of connections that hold an admission slot and never exceeds \<^verbatim>\<open>MaxPending\<close>; a closed
  connection holds one only while its handshake has not released it; queues stay within their capacities; an
  address has at most one open connection; by any time, no more connections were admitted than the
  rate allows since the start plus one burst. The shared socket is open exactly until the listener is closed and the
  last connection with it, and then no connection waits unaccepted but those \<^verbatim>\<open>Close\<close> is about to close.
\<close>

theorem dtls_admission_bounded:
  assumes "cf_validate cfg = None" and run: "pk_step\<^sup>*\<^sup>* (newPacketListener t0 cfg) l"
  shows "pl_pending l = int (card {c. c < pl_next l \<and> pc_pending (pl_conns l c)}) \<and> pl_pending l \<le> pl_maxPending l \<and>
    (\<forall>c < pl_next l. pc_done (pl_conns l c) \<and> pc_pending (pl_conns l c) \<longrightarrow> pc_held (pl_conns l c)) \<and>
    int (length (pl_acceptq l)) \<le> min 128 (pl_maxPending l) \<and> (\<forall>c. length (pc_packets (pl_conns l c)) \<le> 16) \<and>
    (\<forall>c d. c < pl_next l \<longrightarrow> d < pl_next l \<longrightarrow> \<not> pc_done (pl_conns l c) \<longrightarrow> \<not> pc_done (pl_conns l d) \<longrightarrow>
       pc_remote (pl_conns l c) = pc_remote (pl_conns l d) \<longrightarrow> c = d) \<and>
    of_nat (pl_next l) \<le> of_int (cf_handshakeRate cfg) * (1 + seconds (pl_updated l - t0)) - pl_credit l \<and>
    (pl_sock l \<longleftrightarrow> \<not> (pl_closed l \<and> (\<forall>c < pl_next l. pc_done (pl_conns l c)))) \<and>
    (\<forall>c < pl_next l. pl_closed l \<and> \<not> pc_accepted (pl_conns l c) \<and> \<not> pc_done (pl_conns l c) \<longrightarrow> c \<in> pl_toclose l)"
proof -
  have "pk_inv t0 (of_int (cf_handshakeRate cfg)) l" using pk.reachable_inv [OF _ run] assms(1) by blast
  then have inv: "pk_table l" "pk_bounds l" "pk_slots l" "pk_bucket t0 (of_int (cf_handshakeRate cfg)) l" by (simp_all add: pk_inv_def)
  have t: "\<And>r d. (r, d) \<in> set (pl_peers l) \<longleftrightarrow> d < pl_next l \<and> pc_remote (pl_conns l d) = r \<and> \<not> pc_done (pl_conns l d)"
    and d: "distinct (map fst (pl_peers l))" using inv(1) unfolding pk_table_def by blast+
  have "c = d" if "c < pl_next l" "d < pl_next l" "\<not> pc_done (pl_conns l c)" "\<not> pc_done (pl_conns l d)"
      "pc_remote (pl_conns l c) = pc_remote (pl_conns l d)" for c d
    using that t d by (metis eq_key_imp_eq_value)
  moreover have "pl_peers l = [] \<longleftrightarrow> (\<forall>c < pl_next l. pc_done (pl_conns l c))"
  proof
    show "\<forall>c < pl_next l. pc_done (pl_conns l c)" if "pl_peers l = []" using t that by auto
    show "pl_peers l = []" if "\<forall>c < pl_next l. pc_done (pl_conns l c)" using t that by (cases "pl_peers l") auto
  qed
  moreover have "of_nat (pl_next l) \<le> of_int (cf_handshakeRate cfg) * (1 + seconds (pl_updated l - t0)) - pl_credit l"
    using inv(4) by (simp add: pk_bucket_def algebra_simps)
  ultimately show ?thesis using inv unfolding pk_table_def pk_bounds_def pk_slots_def pending_set_def accept_cap_def by blast
qed

definition hello :: bytes where
  "hello = [22, 254, 253, 0, 0, 0, 0, 0, 0, 0, 0, 0, 13, 1, 0, 0, 1, 0, 0, 0, 0, 0, 0, 0, 1, 7]"

definition cfg1 :: dconfig where
  "cfg1 = \<lparr>cf_ClientOptions = [], cf_ServerOptions = [Some 0], cf_ConnectTimeout = 0, cf_MaxPending = 1, cf_HandshakeRate = 0\<rparr>"

definition pk1 :: plistener where
  "pk1 = dispatch 9 hello ''10.0.0.2:7'' (dispatch 5 hello ''10.0.0.1:7'' (newPacketListener 0 cfg1))"

lemma hello_ok: "clientHello hello"
  by (simp add: hello_def clientHello_def u24_def)

lemma pk1_eval: "pl_pending pk1 = 1" "pl_maxPending pk1 = 1" "pl_next pk1 = 1" "map fst (pl_peers pk1) = [''10.0.0.1:7'']"
  by (simp_all add: pk1_def dispatch_def hello_ok newPacketListener_def cfg1_def cf_maxPending_def cf_timeout_def cf_handshakeRate_def
      accept_cap_def seconds_def admit_def push_packet_def upd_pc_def new_pconn_def Let_def)

text \<open>With one slot, the second stranger is turned away.\<close>

theorem dtls_admission_bounded_witness:
  "pl_pending pk1 = 1 \<and> card {c. c < 1 \<and> pc_pending (pl_conns pk1 c)} = 1 \<and> pl_pending pk1 \<le> pl_maxPending pk1"
proof -
  have v: "cf_validate cfg1 = None" by (simp add: cfg1_def cf_validate_def)
  have "pk_step (newPacketListener 0 cfg1) (dispatch 5 hello ''10.0.0.1:7'' (newPacketListener 0 cfg1))"
    by (rule pk_dispatch) (simp add: newPacketListener_def)
  moreover have "pk_step (dispatch 5 hello ''10.0.0.1:7'' (newPacketListener 0 cfg1)) pk1"
    unfolding pk1_def
    by (rule pk_dispatch)
      (simp add: dispatch_def hello_ok newPacketListener_def cfg1_def cf_maxPending_def cf_timeout_def cf_handshakeRate_def
        accept_cap_def seconds_def admit_def push_packet_def upd_pc_def new_pconn_def Let_def)
  ultimately have "pk_step\<^sup>*\<^sup>* (newPacketListener 0 cfg1) pk1" by (meson converse_rtranclp_into_rtranclp r_into_rtranclp)
  from dtls_admission_bounded [OF v this] show ?thesis unfolding pk1_eval by linarith
qed

text \<open>A datagram that passes the screen holds the whole of its first fragment, which is not longer than 16 kilobytes.\<close>

lemma clientHello_fragment:
  assumes "clientHello b"
  shows "25 + u24 b 22 \<le> length b \<and> 0 < u24 b 22 \<and> u24 b 22 \<le> 16384"
proof -
  let ?n = "unat (b ! 11) * 256 + unat (b ! 12)"
  have "25 \<le> length b" "?n \<ge> 12" "?n \<le> length b - 13" "u24 b 22 \<le> ?n - 12" "0 < u24 b 22" "u24 b 22 \<le> u24 b 14" "u24 b 14 \<le> 16384"
    using assms unfolding clientHello_def Let_def by (auto split: if_splits)
  then show ?thesis by linarith
qed

text \<open>An expired connection whose address has been reused never takes over the slot of its successor.\<close>

lemma holdPeer_own:
  assumes "pk_table l" "holdPeer c l = (l', Some d)" "c < pl_next l"
  shows "d = c \<and> \<not> pc_done (pl_conns l c)"
proof -
  have "d = c" "(pc_remote (pl_conns l c), c) \<in> set (pl_peers l)"
    using assms(2) by (auto simp: holdPeer_def split: if_splits dest: map_of_SomeD)
  then show ?thesis using assms(1) unfolding pk_table_def by blast
qed

end
