(* ===== verification/Udp.thy ===== *)
theory Udp
  imports CoreSocket
begin

text \<open>
  The UDP transport, \<^verbatim>\<open>transport/udp/udp.go\<close>: one datagram per message, a connection request and
  its acknowledgement that carry the receive limits, keep-alive by repeated requests. A listener
  serves all its peers over one socket: it finds the pipe of a datagram by the remote address. The
  state of a listener holds its pipe objects (\<open>ul_obj\<close>), the datagrams it wrote (\<open>ul_sent\<close>), the
  pipe that \<^verbatim>\<open>handlePacket\<close> is about to queue for \<^verbatim>\<open>Accept\<close> (\<open>ul_parked\<close>: only the one read loop
  handles packets), the closed pipes whose call of \<^verbatim>\<open>remove\<close> is still to come (\<open>ul_removing\<close>) and the
  pipes that the listener's \<^verbatim>\<open>Close\<close> has still to close (\<open>ul_closing\<close>). A table of pipes is an
  association list. Times are nanoseconds, the clock is an argument. Message ownership is the
  answer of \<^verbatim>\<open>Send\<close>: whether the message was freed.
\<close>

section \<open>Packets\<close>

definition udpHeaderSize :: nat where "udpHeaderSize = 8"
definition udpMaxPayload :: nat where "udpMaxPayload = 65000"
definition udpMaxPeers :: nat where "udpMaxPeers = 1024"
definition time_Second :: int where "time_Second = 1000000000"
definition udpRefresh :: int where "udpRefresh = 5 * time_Second"
definition udpExpireFactor :: int where "udpExpireFactor = 5"
definition opData :: byte where "opData = 0"
definition opCReq :: byte where "opCReq = 1"
definition opCAck :: byte where "opCAck = 2"
definition opDisc :: byte where "opDisc = 3"
definition discMsgSize :: u16 where "discMsgSize = 4"
definition discNoBuf :: u16 where "discNoBuf = 8"

record packet =
  pk_opcode :: byte
  pk_proto :: u16
  pk_length :: u16
  pk_refresh :: u16

text \<open>\<^verbatim>\<open>binary.LittleEndian\<close>.\<close>

definition PutUint16LE :: "u16 \<Rightarrow> bytes" where
  "PutUint16LE w = [of_nat (unat w mod 256), of_nat (unat w div 256)]"

definition Uint16LE :: "bytes \<Rightarrow> u16" where
  "Uint16LE bs = of_nat (unat (bs ! 0) + 256 * unat (bs ! 1))"

definition marshal :: "packet \<Rightarrow> bytes" where
  "marshal p = [1, pk_opcode p] @ PutUint16LE (pk_proto p) @ PutUint16LE (pk_length p) @ PutUint16LE (pk_refresh p)"

definition unmarshalPacket :: "bytes \<Rightarrow> packet option" where
  "unmarshalPacket src =
     (if length src < udpHeaderSize \<or> src ! 0 \<noteq> 1 then None
      else Some \<lparr>pk_opcode = src ! 1, pk_proto = Uint16LE (drop 2 src), pk_length = Uint16LE (drop 4 src),
                 pk_refresh = Uint16LE (drop 6 src)\<rparr>)"

section \<open>Pipes\<close>

record upipe =
  up_Self :: u16
  up_Peer :: u16
  up_remote :: string
  up_maxRecv :: nat
  up_sendMax :: nat
  up_closed :: bool
  up_refresh :: int
  up_expires :: int
  up_recvq :: "bytes list"

definition new_upipe :: "u16 \<Rightarrow> u16 \<Rightarrow> nat \<Rightarrow> string \<Rightarrow> int \<Rightarrow> upipe" where
  "new_upipe self peer mr remote now =
     \<lparr>up_Self = self, up_Peer = peer, up_remote = remote, up_maxRecv = mr, up_sendMax = udpMaxPayload, up_closed = False,
      up_refresh = udpRefresh, up_expires = now + udpRefresh * udpExpireFactor, up_recvq = []\<rparr>"

definition setRefresh :: "u16 \<Rightarrow> int \<Rightarrow> upipe \<Rightarrow> upipe" where
  "setRefresh seconds now p =
     (let refresh = uint seconds * time_Second
      in if refresh = 0 then p
         else (let p1 = (if refresh < up_refresh p then p\<lparr>up_refresh := refresh\<rparr> else p)
               in p1\<lparr>up_expires := now + up_refresh p1 * udpExpireFactor\<rparr>))"

definition touch :: "int \<Rightarrow> upipe \<Rightarrow> upipe" where
  "touch now p = p\<lparr>up_expires := now + up_refresh p * udpExpireFactor\<rparr>"

definition expired :: "int \<Rightarrow> upipe \<Rightarrow> bool" where
  "expired now p \<longleftrightarrow> \<not> up_closed p \<and> now > up_expires p"

definition writePacket :: "packet \<Rightarrow> bytes \<Rightarrow> bytes" where
  "writePacket h payload = marshal h @ payload"

text \<open>\<^verbatim>\<open>sendCReq\<close> and \<^verbatim>\<open>sendCAck\<close>, up to the write: the error, or the datagram.\<close>

definition sendConn :: "byte \<Rightarrow> upipe \<Rightarrow> err + bytes" where
  "sendConn opc p =
     (if up_closed p then Inl ErrClosed
      else Inr (writePacket \<lparr>pk_opcode = opc, pk_proto = up_Self p, pk_length = of_nat (up_maxRecv p),
                             pk_refresh = of_int (up_refresh p div time_Second)\<rparr> []))"

text \<open>\<^verbatim>\<open>handleData\<close>: the pipe, and whether it must be closed.\<close>

definition handleData :: "int \<Rightarrow> packet \<Rightarrow> bytes \<Rightarrow> upipe \<Rightarrow> upipe \<times> bool" where
  "handleData now h payload p =
     (if up_closed p \<or> pk_proto h \<noteq> up_Peer p then (p, False)
      else if unat (pk_length h) > length payload \<or> unat (pk_length h) > up_maxRecv p then (p, True)
      else
        (let p1 = touch now p; m = take (unat (pk_length h)) payload
         in (if length (up_recvq p1) < 16 then p1\<lparr>up_recvq := up_recvq p1 @ [m]\<rparr> else p1, False)))"

datatype udp_sent = SendFailed err | SendDropped | SendDatagram bytes

definition upipe_Send :: "message \<Rightarrow> upipe \<Rightarrow> udp_sent" where
  "upipe_Send m p =
     (let n = length (Header m) + length (Body m)
      in if up_closed p then SendFailed ErrClosed
         else if n > up_sendMax p \<or> n > udpMaxPayload then SendDropped
         else SendDatagram
           (writePacket \<lparr>pk_opcode = opData, pk_proto = up_Self p, pk_length = of_nat n, pk_refresh = 0\<rparr> (Header m @ Body m)))"

text \<open>The result of \<^verbatim>\<open>Send\<close> after the write returned \<open>err\<close>, with whether the message was freed.\<close>

definition upipe_Send_result :: "udp_sent \<Rightarrow> status \<Rightarrow> status \<times> bool" where
  "upipe_Send_result r err =
     (case r of SendFailed e \<Rightarrow> (Some e, False) | SendDropped \<Rightarrow> (None, True)
      | SendDatagram b \<Rightarrow> (case err of Some e \<Rightarrow> (Some e, False) | None \<Rightarrow> (None, True)))"

definition upipe_Recv :: "upipe \<Rightarrow> (upipe \<times> (err + bytes)) list" where
  "upipe_Recv p =
     (case up_recvq p of [] \<Rightarrow> [] | m # ms \<Rightarrow> [(p\<lparr>up_recvq := ms\<rparr>, Inr m)]) @
     (if up_closed p then [(p, Inl ErrClosed)] else [])"

definition disc_packet :: "u16 \<Rightarrow> u16 \<Rightarrow> bytes" where
  "disc_packet self reason =
     writePacket \<lparr>pk_opcode = opDisc, pk_proto = self, pk_length = reason, pk_refresh = 0\<rparr> []"

text \<open>The first region of \<^verbatim>\<open>Close\<close>: \<open>None\<close> when the pipe is closed already, else the datagram it writes.\<close>

definition upipe_Close :: "upipe \<Rightarrow> (upipe \<times> bytes) option" where
  "upipe_Close p =
     (if up_closed p then None else Some (p\<lparr>up_closed := True\<rparr>, disc_packet (up_Self p) discMsgSize))"

definition upipe_GetOption :: "string \<Rightarrow> upipe \<Rightarrow> (err + nat) option" where
  "upipe_GetOption name p =
     (if name = OptionLocalAddr \<or> name = OptionRemoteAddr then None
      else if name = OptionMaxRecvSize then Some (Inr (up_maxRecv p)) else Some (Inl ErrBadProperty))"

definition setMaxRecv :: "string \<Rightarrow> optval \<Rightarrow> nat \<Rightarrow> nat \<times> status" where
  "setMaxRecv name v dst =
     (if name \<noteq> OptionMaxRecvSize then (dst, Some ErrBadOption)
      else case asInt v of
             None \<Rightarrow> (dst, Some ErrBadValue)
           | Some i \<Rightarrow>
               if i < 0 then (dst, Some ErrBadValue)
               else (if i = 0 \<or> nat i > udpMaxPayload then udpMaxPayload else nat i, None))"

section \<open>Addresses\<close>

text \<open>
  \<^verbatim>\<open>net.ResolveUDPAddr\<close> is an argument: whether the address has an IP, its port, and its text.
\<close>

type_synonym resolver = "string \<Rightarrow> (bool \<times> nat \<times> string) option"

definition udp_tran :: "string \<Rightarrow> unit transport" where
  "udp_tran scheme = \<lparr>tr_Scheme = scheme, tr_NewDialer = (\<lambda>_. Inr ()), tr_NewListener = (\<lambda>_. Inr ())\<rparr>"

definition contains_any :: "string \<Rightarrow> string \<Rightarrow> bool" where
  "contains_any cs s \<longleftrightarrow> list_ex (\<lambda>c. c \<in> set cs) s"

definition udp_NewDialer :: "resolver \<Rightarrow> string \<Rightarrow> string \<Rightarrow> err + string" where
  "udp_NewDialer resolve scheme addr =
     (case StripScheme (udp_tran scheme) addr of
        (_, Some e) \<Rightarrow> Inl e
      | (a, None) \<Rightarrow>
          if starts_with ''*'' a \<or> contains_any ''/?#'' a then Inl ErrBadAddr
          else case resolve a of
                 None \<Rightarrow> Inl ErrBadAddr
               | Some (ip, port, txt) \<Rightarrow> if port = 0 \<or> \<not> ip then Inl ErrBadAddr else Inr txt)"

definition udp_listen_addr :: "resolver \<Rightarrow> string \<Rightarrow> string \<Rightarrow> err + string" where
  "udp_listen_addr resolve scheme addr =
     (case StripScheme (udp_tran scheme) addr of
        (_, Some e) \<Rightarrow> Inl e
      | (a, None) \<Rightarrow>
          if contains_any ''/?#'' a then Inl ErrBadAddr
          else case resolve (if starts_with ''*'' a then drop 1 a else a) of
                 None \<Rightarrow> Inl ErrBadAddr | Some (ip, port, txt) \<Rightarrow> Inr txt)"

section \<open>The dialer\<close>

text \<open>
  What happens to the socket of \<^verbatim>\<open>Dial\<close>: a datagram is read, a read times out before the deadline,
  the socket was closed, or a read or write fails otherwise with an error \<open>e\<close> of the network library
  (a timeout past the deadline too). The result is an error, the connected pipe, or nothing yet;
  beside it, the number of requests that were sent.
\<close>

datatype udp_io = ReadData bytes | ReadTimeout | SockClosed | SockFail err

datatype progress = DialErr err | Connected upipe | Dialing

fun udp_Dial_loop :: "int \<Rightarrow> udp_io list \<Rightarrow> nat \<Rightarrow> upipe \<Rightarrow> progress \<times> nat" where
  "udp_Dial_loop now [] n p = (Dialing, n)"
| "udp_Dial_loop now (ReadTimeout # rs) n p = udp_Dial_loop now rs (Suc n) p"
| "udp_Dial_loop now (SockClosed # rs) n p = (DialErr ErrClosed, n)"
| "udp_Dial_loop now (SockFail e # rs) n p = (DialErr e, n)"
| "udp_Dial_loop now (ReadData b # rs) n p =
     (case unmarshalPacket b of
        None \<Rightarrow> udp_Dial_loop now rs n p
      | Some h \<Rightarrow>
          if pk_opcode h \<noteq> opCAck then udp_Dial_loop now rs n p
          else if pk_proto h \<noteq> up_Peer p then (DialErr ErrBadProto, n)
          else if pk_refresh h = 0 then (DialErr ErrBadProto, n)
          else (Connected (setRefresh (pk_refresh h) now (p\<lparr>up_sendMax := unat (pk_length h)\<rparr>)), n))"

definition udp_Dial :: "int \<Rightarrow> u16 \<Rightarrow> u16 \<Rightarrow> nat \<Rightarrow> string \<Rightarrow> udp_io list \<Rightarrow> progress \<times> nat" where
  "udp_Dial now self peer mr remote rs = udp_Dial_loop now rs 1 (new_upipe self peer mr remote now)"

text \<open>One datagram of \<^verbatim>\<open>readConnected\<close>: the pipe, and whether it must be closed.\<close>

definition readConnected_msg :: "int \<Rightarrow> bytes \<Rightarrow> upipe \<Rightarrow> upipe \<times> bool" where
  "readConnected_msg now b p =
     (case unmarshalPacket b of
        None \<Rightarrow> (p, False)
      | Some h \<Rightarrow>
          if pk_opcode h = opData then handleData now h (drop udpHeaderSize b) p
          else if pk_opcode h = opCAck then
            (if pk_proto h = up_Peer p \<and> pk_refresh h \<noteq> 0
             then (setRefresh (pk_refresh h) now (p\<lparr>up_sendMax := unat (pk_length h)\<rparr>), False) else (p, False))
          else (p, pk_opcode h = opDisc))"

text \<open>A tick of \<^verbatim>\<open>refreshDialer\<close>: whether the pipe must be closed, or the request it sends.\<close>

definition refresh_tick :: "int \<Rightarrow> upipe \<Rightarrow> bool \<times> (err + bytes)" where
  "refresh_tick now p = (if expired now p then (True, Inl ErrClosed) else (False, sendConn opCReq p))"

section \<open>The listener\<close>

record ulistener =
  ul_Self :: u16
  ul_Peer :: u16
  ul_maxRecv :: nat
  ul_conn :: bool
  ul_pipes :: "(string \<times> nat) list"
  ul_maxPeers :: nat
  ul_acceptq :: "nat list"
  ul_closeq :: bool
  ul_doneq :: bool
  ul_closed :: bool
  ul_obj :: "nat \<Rightarrow> upipe"
  ul_nobj :: nat
  ul_sent :: "(string \<times> bytes) list"
  ul_parked :: "nat option"
  ul_removing :: "nat list"
  ul_closing :: "nat list"
  ul_reading :: bool
  ul_panicked :: bool

definition udp_NewListener :: "u16 \<Rightarrow> u16 \<Rightarrow> ulistener" where
  "udp_NewListener self peer =
     \<lparr>ul_Self = self, ul_Peer = peer, ul_maxRecv = udpMaxPayload, ul_conn = False, ul_pipes = [], ul_maxPeers = udpMaxPeers,
      ul_acceptq = [], ul_closeq = False, ul_doneq = False, ul_closed = False, ul_obj = (\<lambda>_. new_upipe 0 0 0 [] 0), ul_nobj = 0,
      ul_sent = [], ul_parked = None, ul_removing = [], ul_closing = [], ul_reading = False, ul_panicked = False\<rparr>"

definition upd_up :: "nat \<Rightarrow> (upipe \<Rightarrow> upipe) \<Rightarrow> ulistener \<Rightarrow> ulistener" where
  "upd_up k f l = l\<lparr>ul_obj := (ul_obj l)(k := f (ul_obj l k))\<rparr>"

definition ul_write :: "string \<Rightarrow> bytes \<Rightarrow> ulistener \<Rightarrow> ulistener" where
  "ul_write a b l = l\<lparr>ul_sent := ul_sent l @ [(a, b)]\<rparr>"

text \<open>\<^verbatim>\<open>Listen\<close>; \<open>err\<close> is the answer of \<^verbatim>\<open>net.ListenUDP\<close>.\<close>

definition udp_Listen :: "status \<Rightarrow> ulistener \<Rightarrow> ulistener \<times> status" where
  "udp_Listen err l =
     (if ul_closed l then (l, Some ErrClosed)
      else if ul_conn l then (l, Some ErrAddrInUse)
      else case err of Some e \<Rightarrow> (l, Some e) | None \<Rightarrow> (l\<lparr>ul_conn := True, ul_reading := True\<rparr>, None))"

definition closeConnLocked :: "ulistener \<Rightarrow> ulistener" where
  "closeConnLocked l =
     (if \<not> ul_conn l then l
      else if ul_doneq l then l\<lparr>ul_panicked := True\<rparr>
      else l\<lparr>ul_conn := False, ul_doneq := True\<rparr>)"

text \<open>\<^verbatim>\<open>Close\<close> of a pipe of the listener: its first region, and \<^verbatim>\<open>remove\<close>.\<close>

definition udp_pipe_Close :: "nat \<Rightarrow> ulistener \<Rightarrow> ulistener" where
  "udp_pipe_Close k l =
     (case upipe_Close (ul_obj l k) of
        None \<Rightarrow> l
      | Some (p, b) \<Rightarrow> ul_write (up_remote p) b ((upd_up k (\<lambda>_. p) l)\<lparr>ul_removing := ul_removing l @ [k]\<rparr>))"

definition udp_remove :: "nat \<Rightarrow> ulistener \<Rightarrow> ulistener" where
  "udp_remove k l =
     (let a = up_remote (ul_obj l k);
          l1 = l\<lparr>ul_removing := remove1 k (ul_removing l)\<rparr>;
          l2 = (if map_of (ul_pipes l1) a = Some k
                then l1\<lparr>ul_pipes := filter (\<lambda>(b, _). b \<noteq> a) (ul_pipes l1)\<rparr> else l1)
      in if ul_closed l2 \<and> ul_pipes l2 = [] then closeConnLocked l2 else l2)"

definition udp_listener_Close :: "ulistener \<Rightarrow> ulistener" where
  "udp_listener_Close l =
     (if ul_closed l then l
      else
        (let l1 = (if ul_closeq l then l\<lparr>ul_closed := True, ul_panicked := True\<rparr> else l\<lparr>ul_closed := True, ul_closeq := True\<rparr>);
             l2 = l1\<lparr>ul_closing := ul_closing l1 @ ul_acceptq l1, ul_acceptq := []\<rparr>
         in if ul_pipes l2 = [] then closeConnLocked l2 else l2))"

text \<open>The loop that closes what \<^verbatim>\<open>Close\<close> drained from the accept queue.\<close>

definition udp_listener_Close_next :: "ulistener \<Rightarrow> ulistener" where
  "udp_listener_Close_next l =
     (case ul_closing l of [] \<Rightarrow> l | k # ks \<Rightarrow> udp_pipe_Close k (l\<lparr>ul_closing := ks\<rparr>))"

text \<open>\<^verbatim>\<open>Accept\<close>: the first test, then the ready cases of the \<^verbatim>\<open>select\<close>.\<close>

definition udp_Accept_begin :: "ulistener \<Rightarrow> status" where
  "udp_Accept_begin l = (if ul_closed l then Some ErrClosed else None)"

definition udp_Accept :: "ulistener \<Rightarrow> (ulistener \<times> (err + nat)) list" where
  "udp_Accept l =
     (case ul_acceptq l of
        [] \<Rightarrow> []
      | k # ks \<Rightarrow>
          (let l1 = l\<lparr>ul_acceptq := ks\<rparr>
           in [if ul_closed l1 then (udp_pipe_Close k l1, Inl ErrClosed) else (l1, Inr k)])) @
     (if ul_closeq l then [(l, Inl ErrClosed)] else [])"

definition sendDisc :: "string \<Rightarrow> u16 \<Rightarrow> ulistener \<Rightarrow> ulistener" where
  "sendDisc a reason l = (if \<not> ul_conn l then l else ul_write a (disc_packet (ul_Self l) reason) l)"

definition ul_sendCAck :: "nat \<Rightarrow> ulistener \<Rightarrow> ulistener" where
  "ul_sendCAck k l =
     (case sendConn opCAck (ul_obj l k) of Inl e \<Rightarrow> l | Inr b \<Rightarrow> ul_write (up_remote (ul_obj l k)) b l)"

text \<open>
  \<^verbatim>\<open>handlePacket\<close> up to the \<^verbatim>\<open>select\<close> that queues a new pipe. A nil \<^verbatim>\<open>conn\<close> would be dereferenced.
\<close>

definition udp_new_pipe :: "int \<Rightarrow> packet \<Rightarrow> string \<Rightarrow> ulistener \<Rightarrow> ulistener" where
  "udp_new_pipe now h a l =
     (if \<not> ul_conn l then l\<lparr>ul_panicked := True\<rparr>
      else
        (let k = ul_nobj l;
             p = setRefresh (pk_refresh h) now ((new_upipe (ul_Self l) (ul_Peer l) (ul_maxRecv l) a now)\<lparr>up_sendMax := unat (pk_length h)\<rparr>)
         in (ul_sendCAck k (l\<lparr>ul_obj := (ul_obj l)(k := p), ul_nobj := Suc k, ul_pipes := (a, k) # ul_pipes l\<rparr>))
              \<lparr>ul_parked := Some k\<rparr>))"

definition handlePacket :: "int \<Rightarrow> bytes \<Rightarrow> string \<Rightarrow> ulistener \<Rightarrow> ulistener" where
  "handlePacket now b a l =
     (case unmarshalPacket b of
        None \<Rightarrow> l
      | Some h \<Rightarrow>
          (case map_of (ul_pipes l) a of
             None \<Rightarrow>
               if ul_closed l then l
               else if pk_opcode h = opCReq \<and> pk_proto h = ul_Peer l \<and> pk_refresh h \<noteq> 0 then
                 (if length (ul_pipes l) \<ge> ul_maxPeers l then sendDisc a discNoBuf l else udp_new_pipe now h a l)
               else l
           | Some k \<Rightarrow>
               if up_remote (ul_obj l k) \<noteq> a then l
               else if pk_opcode h = opData then
                 (case handleData now h (drop udpHeaderSize b) (ul_obj l k) of (p, close) \<Rightarrow>
                    (if close then udp_pipe_Close k (upd_up k (\<lambda>_. p) l) else upd_up k (\<lambda>_. p) l))
               else if pk_opcode h = opCReq then
                 (if pk_proto h = up_Peer (ul_obj l k) \<and> pk_refresh h \<noteq> 0
                  then ul_sendCAck k (upd_up k (setRefresh (pk_refresh h) now) l) else l)
               else if pk_opcode h = opDisc then udp_pipe_Close k l
               else l))"

text \<open>The ready cases of the \<^verbatim>\<open>select\<close>; none when the accept queue is full.\<close>

definition handlePacket_queue :: "ulistener \<Rightarrow> ulistener list" where
  "handlePacket_queue l =
     (case ul_parked l of
        None \<Rightarrow> []
      | Some k \<Rightarrow>
          (let l1 = l\<lparr>ul_parked := None\<rparr>
           in (if length (ul_acceptq l) < 16 then [l\<lparr>ul_acceptq := ul_acceptq l @ [k], ul_parked := None\<rparr>] else []) @
              (if ul_closeq l then [udp_pipe_Close k l1] else [])))"

text \<open>\<^verbatim>\<open>reapExpired\<close>: the expired pipes of the table, each of which is then closed.\<close>

definition reapExpired :: "int \<Rightarrow> ulistener \<Rightarrow> nat list" where
  "reapExpired now l = [k. (a, k) \<leftarrow> ul_pipes l, expired now (ul_obj l k)]"

definition udp_SetOption :: "string \<Rightarrow> optval \<Rightarrow> ulistener \<Rightarrow> ulistener \<times> status" where
  "udp_SetOption n v l = (case setMaxRecv n v (ul_maxRecv l) of (r, st) \<Rightarrow> (l\<lparr>ul_maxRecv := r\<rparr>, st))"

definition udp_GetOption :: "string \<Rightarrow> ulistener \<Rightarrow> err + optval" where
  "udp_GetOption n l = (if n = OptionMaxRecvSize then Inr (VInt (int (ul_maxRecv l))) else Inl ErrBadOption)"

text \<open>The dialer has the same option; its field is the argument.\<close>

definition udp_dialer_SetOption :: "string \<Rightarrow> optval \<Rightarrow> nat \<Rightarrow> nat \<times> status" where
  "udp_dialer_SetOption n v maxRecv = setMaxRecv n v maxRecv"

definition udp_dialer_GetOption :: "string \<Rightarrow> nat \<Rightarrow> err + optval" where
  "udp_dialer_GetOption n maxRecv = (if n = OptionMaxRecvSize then Inr (VInt (int maxRecv)) else Inl ErrBadOption)"

text \<open>The limit reads back as it was set, or as the largest payload where zero or more than that was asked for.\<close>

lemma udp_dialer_limit:
  assumes "udp_dialer_SetOption OptionMaxRecvSize (VInt i) m = (m', None)"
  shows "udp_dialer_GetOption OptionMaxRecvSize m' = Inr (VInt (if i = 0 \<or> i > int udpMaxPayload then int udpMaxPayload else i)) \<and> 0 \<le> i"
  using assms by (auto simp: udp_dialer_SetOption_def udp_dialer_GetOption_def setMaxRecv_def udpMaxPayload_def split: if_splits)

definition udp_network :: "string \<Rightarrow> string" where
  "udp_network scheme = (if scheme = ''udp4'' then ''udp4'' else if scheme = ''udp6'' then ''udp6'' else ''udp'')"

text \<open>\<open>conn\<close> is the address of the bound socket, \<open>loc\<close> the configured one.\<close>

definition udp_Address :: "string \<Rightarrow> string option \<Rightarrow> string \<Rightarrow> string" where
  "udp_Address network conn loc = (case conn of Some a \<Rightarrow> network @ ''://'' @ a | None \<Rightarrow> network @ ''://'' @ loc)"

lemma udp_Address_scheme:
  assumes "scheme \<in> {''udp'', ''udp4'', ''udp6''}"
  shows "StripScheme (udp_tran scheme) (udp_Address (udp_network scheme) conn loc) = (case conn of Some a \<Rightarrow> a | None \<Rightarrow> loc, None)"
  using assms by (auto simp: udp_Address_def udp_network_def StripScheme_def udp_tran_def starts_with_def split: option.splits)

section \<open>Runs\<close>

inductive udp_step :: "ulistener \<Rightarrow> ulistener \<Rightarrow> bool" where
  us_listen: "udp_step l (fst (udp_Listen e l))"
| us_packet: "ul_reading l \<Longrightarrow> ul_parked l = None \<Longrightarrow> udp_step l (handlePacket now b a l)"
| us_queue: "l' \<in> set (handlePacket_queue l) \<Longrightarrow> udp_step l l'"
| us_accept: "(l', r) \<in> set (udp_Accept l) \<Longrightarrow> udp_step l l'"
| us_close: "udp_step l (udp_listener_Close l)"
| us_close_next: "udp_step l (udp_listener_Close_next l)"
| us_pipe_close: "k < ul_nobj l \<Longrightarrow> udp_step l (udp_pipe_Close k l)"
| us_remove: "k \<in> set (ul_removing l) \<Longrightarrow> udp_step l (udp_remove k l)"
| us_send: "k < ul_nobj l \<Longrightarrow> upipe_Send m (ul_obj l k) = SendDatagram b \<Longrightarrow> udp_step l (ul_write (up_remote (ul_obj l k)) b l)"
| us_recv: "k < ul_nobj l \<Longrightarrow> (p, r) \<in> set (upipe_Recv (ul_obj l k)) \<Longrightarrow> udp_step l (upd_up k (\<lambda>_. p) l)"
| us_set: "udp_step l (fst (udp_SetOption n v l))"

section \<open>Packets on the wire\<close>

lemma Uint16LE_Put [simp]: "Uint16LE (PutUint16LE w @ bs) = w" "length (PutUint16LE w) = 2"
proof -
  have "unat w < 2 ^ LENGTH(16)" by (rule unsigned_less)
  then have "unat w div 256 < 256" by (simp add: less_mult_imp_div_less)
  then show "Uint16LE (PutUint16LE w @ bs) = w"
    by (simp add: Uint16LE_def PutUint16LE_def unat_of_nat nth_append)
qed (simp add: PutUint16LE_def)

lemma length_marshal [simp]: "length (marshal p) = 8"
  by (simp add: marshal_def)

lemma unmarshal_marshal [simp]: "unmarshalPacket (marshal p @ bs) = Some p"
proof -
  have d: "drop 2 (marshal p @ bs) = PutUint16LE (pk_proto p) @ PutUint16LE (pk_length p) @ PutUint16LE (pk_refresh p) @ bs"
    "drop 4 (marshal p @ bs) = PutUint16LE (pk_length p) @ PutUint16LE (pk_refresh p) @ bs"
    "drop 6 (marshal p @ bs) = PutUint16LE (pk_refresh p) @ bs"
    by (simp_all add: marshal_def)
  have "(marshal p @ bs) ! 0 = 1" "(marshal p @ bs) ! 1 = pk_opcode p" by (simp_all add: marshal_def)
  then show ?thesis unfolding unmarshalPacket_def d by (simp add: udpHeaderSize_def)
qed

lemma unmarshal_marshal0 [simp]: "unmarshalPacket (marshal p) = Some p"
  using unmarshal_marshal [of p "[]"] by simp

section \<open>Invariant\<close>

definition upipe_ok :: "upipe \<Rightarrow> bool" where
  "upipe_ok p \<longleftrightarrow> time_Second \<le> up_refresh p \<and> up_refresh p \<le> udpRefresh \<and> up_maxRecv p \<le> udpMaxPayload \<and>
     length (up_recvq p) \<le> 16 \<and> (\<forall>m\<in>set (up_recvq p). length m \<le> up_maxRecv p)"

lemma new_upipe_ok: "mr \<le> udpMaxPayload \<Longrightarrow> upipe_ok (new_upipe s p mr a now)"
  by (simp add: upipe_ok_def new_upipe_def udpRefresh_def time_Second_def)

lemma setRefresh_ok [simp]: "upipe_ok p \<Longrightarrow> upipe_ok (setRefresh r now p)"
proof -
  have "uint r \<noteq> 0 \<Longrightarrow> 1 \<le> uint r" using uint_nonnegative [of r] by linarith
  then have "uint r \<noteq> 0 \<Longrightarrow> time_Second \<le> uint r * time_Second" by (simp add: time_Second_def)
  then show "upipe_ok p \<Longrightarrow> upipe_ok (setRefresh r now p)"
    by (auto simp: upipe_ok_def setRefresh_def Let_def)
qed

lemma setRefresh_frame [simp]:
  "up_remote (setRefresh r now p) = up_remote p" "up_closed (setRefresh r now p) = up_closed p" "up_recvq (setRefresh r now p) = up_recvq p"
  "up_maxRecv (setRefresh r now p) = up_maxRecv p" "up_sendMax (setRefresh r now p) = up_sendMax p" "up_Self (setRefresh r now p) = up_Self p"
  "up_Peer (setRefresh r now p) = up_Peer p"
  by (simp_all add: setRefresh_def Let_def)

lemma sendMax_ok [simp]: "upipe_ok (p\<lparr>up_sendMax := n\<rparr>) = upipe_ok p"
  by (simp add: upipe_ok_def)

lemma handleData_frame:
  assumes "handleData now h b p = (q, c)"
  shows "upipe_ok p \<Longrightarrow> upipe_ok q" "up_remote q = up_remote p" "up_closed q = up_closed p"
  using assms by (auto simp: handleData_def touch_def upipe_ok_def Let_def split: if_splits)

definition table_ok :: "ulistener \<Rightarrow> bool" where
  "table_ok l \<longleftrightarrow> distinct (map fst (ul_pipes l)) \<and> length (ul_pipes l) \<le> ul_maxPeers l \<and> ul_maxPeers l = udpMaxPeers \<and>
     (\<forall>(a, k)\<in>set (ul_pipes l). k < ul_nobj l \<and> up_remote (ul_obj l k) = a \<and> (up_closed (ul_obj l k) \<longrightarrow> k \<in> set (ul_removing l))) \<and>
     (\<forall>k<ul_nobj l. \<not> up_closed (ul_obj l k) \<longrightarrow> (up_remote (ul_obj l k), k) \<in> set (ul_pipes l)) \<and>
     (\<forall>k\<in>set (ul_removing l). k < ul_nobj l \<and> up_closed (ul_obj l k))"

definition conn_ok :: "ulistener \<Rightarrow> bool" where
  "conn_ok l \<longleftrightarrow> ul_closeq l = ul_closed l \<and> (ul_conn l \<longrightarrow> \<not> ul_doneq l) \<and> (\<not> ul_closed l \<longrightarrow> \<not> ul_doneq l \<and> (ul_reading l \<longrightarrow> ul_conn l)) \<and>
     (ul_reading l \<longrightarrow> ul_conn l \<or> ul_doneq l) \<and> (\<not> ul_conn l \<longrightarrow> ul_pipes l = []) \<and> (ul_closed l \<and> ul_pipes l = [] \<longrightarrow> \<not> ul_conn l)"

definition queue_ok :: "ulistener \<Rightarrow> bool" where
  "queue_ok l \<longleftrightarrow> length (ul_acceptq l) \<le> 16 \<and> (\<forall>k\<in>set (ul_acceptq l) \<union> set (ul_closing l) \<union> set_option (ul_parked l). k < ul_nobj l) \<and>
     ul_maxRecv l \<le> udpMaxPayload \<and> (\<forall>k. upipe_ok (ul_obj l k))"

definition udp_inv :: "ulistener \<Rightarrow> bool" where
  "udp_inv l \<longleftrightarrow> \<not> ul_panicked l \<and> table_ok l \<and> conn_ok l \<and> queue_ok l"

lemma udp_invD: "udp_inv l \<Longrightarrow> \<not> ul_panicked l" "udp_inv l \<Longrightarrow> table_ok l" "udp_inv l \<Longrightarrow> conn_ok l" "udp_inv l \<Longrightarrow> queue_ok l"
  by (simp_all add: udp_inv_def)

lemma tableD:
  assumes "table_ok l"
  shows "distinct (map fst (ul_pipes l))" "length (ul_pipes l) \<le> ul_maxPeers l"
    "(a, k) \<in> set (ul_pipes l) \<Longrightarrow> k < ul_nobj l \<and> up_remote (ul_obj l k) = a \<and> (up_closed (ul_obj l k) \<longrightarrow> k \<in> set (ul_removing l))"
    "k < ul_nobj l \<Longrightarrow> \<not> up_closed (ul_obj l k) \<Longrightarrow> (up_remote (ul_obj l k), k) \<in> set (ul_pipes l)"
    "k \<in> set (ul_removing l) \<Longrightarrow> k < ul_nobj l \<and> up_closed (ul_obj l k)" "ul_maxPeers l = udpMaxPeers"
  using assms unfolding table_ok_def by blast+

lemma tableI:
  assumes "distinct (map fst (ul_pipes l))" "length (ul_pipes l) \<le> ul_maxPeers l" "ul_maxPeers l = udpMaxPeers"
    "\<And>a k. (a, k) \<in> set (ul_pipes l) \<Longrightarrow> k < ul_nobj l \<and> up_remote (ul_obj l k) = a \<and> (up_closed (ul_obj l k) \<longrightarrow> k \<in> set (ul_removing l))"
    "\<And>k. k < ul_nobj l \<Longrightarrow> \<not> up_closed (ul_obj l k) \<Longrightarrow> (up_remote (ul_obj l k), k) \<in> set (ul_pipes l)"
    "\<And>k. k \<in> set (ul_removing l) \<Longrightarrow> k < ul_nobj l \<and> up_closed (ul_obj l k)"
  shows "table_ok l"
  using assms unfolding table_ok_def by blast

lemma upd_up_simps [simp]:
  "ul_obj (upd_up k f l) = (ul_obj l)(k := f (ul_obj l k))" "ul_pipes (upd_up k f l) = ul_pipes l" "ul_nobj (upd_up k f l) = ul_nobj l"
  "ul_maxPeers (upd_up k f l) = ul_maxPeers l" "ul_removing (upd_up k f l) = ul_removing l" "ul_closing (upd_up k f l) = ul_closing l"
  "ul_acceptq (upd_up k f l) = ul_acceptq l" "ul_parked (upd_up k f l) = ul_parked l" "ul_conn (upd_up k f l) = ul_conn l"
  "ul_closed (upd_up k f l) = ul_closed l" "ul_closeq (upd_up k f l) = ul_closeq l" "ul_doneq (upd_up k f l) = ul_doneq l"
  "ul_reading (upd_up k f l) = ul_reading l" "ul_panicked (upd_up k f l) = ul_panicked l" "ul_maxRecv (upd_up k f l) = ul_maxRecv l"
  "ul_sent (upd_up k f l) = ul_sent l" "ul_Self (upd_up k f l) = ul_Self l" "ul_Peer (upd_up k f l) = ul_Peer l"
  by (simp_all add: upd_up_def)

text \<open>What a datagram changes, and the updates that keep each part.\<close>

lemma udp_inv_write [simp]: "udp_inv (ul_write a b l) = udp_inv l"
  by (simp add: udp_inv_def table_ok_def conn_ok_def queue_ok_def ul_write_def)

lemma udp_inv_sendCAck [simp]: "udp_inv (ul_sendCAck k l) = udp_inv l"
  by (simp add: ul_sendCAck_def split: sum.split)

lemma upd_up_inv:
  assumes inv: "udp_inv l" and f: "upipe_ok (f (ul_obj l k))" "up_remote (f (ul_obj l k)) = up_remote (ul_obj l k)"
    "up_closed (f (ul_obj l k)) = up_closed (ul_obj l k)"
  shows "udp_inv (upd_up k f l)"
proof -
  have g: "up_remote (ul_obj (upd_up k f l) j) = up_remote (ul_obj l j)" "up_closed (ul_obj (upd_up k f l) j) = up_closed (ul_obj l j)" for j
    by (simp_all add: f)
  have "table_ok (upd_up k f l)" using udp_invD(2) [OF inv] unfolding table_ok_def g by simp
  then show ?thesis
    using inv f(1) by (simp add: udp_inv_def conn_ok_def queue_ok_def)
qed

lemma udp_pipe_Close_inv:
  assumes inv: "udp_inv l" and k: "k < ul_nobj l"
  shows "udp_inv (udp_pipe_Close k l)"
proof (cases "up_closed (ul_obj l k)")
  case True
  then show ?thesis using inv by (simp add: udp_pipe_Close_def upipe_Close_def)
next
  case False
  let ?t = "(upd_up k (\<lambda>p. p\<lparr>up_closed := True\<rparr>) l)\<lparr>ul_removing := ul_removing l @ [k]\<rparr>"
  note t = tableD [OF udp_invD(2) [OF inv]]
  have "table_ok ?t"
  proof (rule tableI)
    show "j < ul_nobj ?t \<and> up_remote (ul_obj ?t j) = a \<and> (up_closed (ul_obj ?t j) \<longrightarrow> j \<in> set (ul_removing ?t))"
      if "(a, j) \<in> set (ul_pipes ?t)" for a j using t(3) [of a j] that by auto
    show "(up_remote (ul_obj ?t j), j) \<in> set (ul_pipes ?t)" if "j < ul_nobj ?t" "\<not> up_closed (ul_obj ?t j)" for j
      using t(4) [of j] that by (simp split: if_splits)
    show "j < ul_nobj ?t \<and> up_closed (ul_obj ?t j)" if "j \<in> set (ul_removing ?t)" for j
      using t(5) [of j] k that by auto
  qed (use t(1,2,6) in simp_all)
  moreover have "conn_ok ?t" "queue_ok ?t" using inv by (simp_all add: udp_inv_def conn_ok_def queue_ok_def upipe_ok_def)
  ultimately have "udp_inv ?t" using inv by (simp add: udp_inv_def)
  moreover have "udp_pipe_Close k l = ul_write (up_remote (ul_obj l k)) (disc_packet (up_Self (ul_obj l k)) discMsgSize) ?t"
    using False by (simp add: udp_pipe_Close_def upipe_Close_def upd_up_def)
  ultimately show ?thesis by simp
qed

lemma closeConn_inv:
  assumes "\<not> ul_panicked l" "table_ok l" "queue_ok l" "ul_pipes l = []" "ul_closed l" "ul_closeq l" "ul_conn l \<Longrightarrow> \<not> ul_doneq l"
    "ul_reading l \<Longrightarrow> ul_conn l \<or> ul_doneq l"
  shows "udp_inv (closeConnLocked l)"
  using assms by (auto simp: closeConnLocked_def udp_inv_def conn_ok_def table_ok_def queue_ok_def)

lemma conn_okD:
  assumes "conn_ok l"
  shows "ul_closeq l = ul_closed l" "ul_conn l \<Longrightarrow> \<not> ul_doneq l" "\<not> ul_closed l \<Longrightarrow> \<not> ul_doneq l"
    "\<not> ul_closed l \<Longrightarrow> ul_reading l \<Longrightarrow> ul_conn l" "\<not> ul_conn l \<Longrightarrow> ul_pipes l = []" "ul_closed l \<Longrightarrow> ul_pipes l = [] \<Longrightarrow> \<not> ul_conn l"
    "ul_reading l \<Longrightarrow> ul_conn l \<or> ul_doneq l"
  using assms by (auto simp: conn_ok_def)

lemma udp_remove_inv:
  assumes inv: "udp_inv l" and k: "k \<in> set (ul_removing l)"
  shows "udp_inv (udp_remove k l)"
proof -
  let ?a = "up_remote (ul_obj l k)" let ?l1 = "l\<lparr>ul_removing := remove1 k (ul_removing l)\<rparr>"
  define l2 where "l2 = (if map_of (ul_pipes l) ?a = Some k then ?l1\<lparr>ul_pipes := filter (\<lambda>(b, _). b \<noteq> ?a) (ul_pipes l)\<rparr> else ?l1)"
  note t = tableD [OF udp_invD(2) [OF inv]] and c = conn_okD [OF udp_invD(3) [OF inv]]
  have kc: "up_closed (ul_obj l k)" using t(5) [OF k] by simp
  have f: "ul_obj l2 = ul_obj l" "ul_nobj l2 = ul_nobj l" "ul_maxPeers l2 = ul_maxPeers l" "ul_removing l2 = remove1 k (ul_removing l)"
    "ul_panicked l2 = ul_panicked l" "ul_conn l2 = ul_conn l" "ul_closed l2 = ul_closed l" "ul_closeq l2 = ul_closeq l" "ul_doneq l2 = ul_doneq l"
    "ul_reading l2 = ul_reading l" "ul_acceptq l2 = ul_acceptq l" "ul_closing l2 = ul_closing l" "ul_parked l2 = ul_parked l" "ul_maxRecv l2 = ul_maxRecv l"
    by (simp_all add: l2_def)
  have sub: "set (ul_pipes l2) \<subseteq> set (ul_pipes l)" "length (ul_pipes l2) \<le> length (ul_pipes l)" "distinct (map fst (ul_pipes l2))"
    using t(1) by (auto simp: l2_def distinct_map_filter)
  have gone: "(b, k) \<notin> set (ul_pipes l2)" for b
  proof
    assume b: "(b, k) \<in> set (ul_pipes l2)"
    then have "(b, k) \<in> set (ul_pipes l)" "b = ?a" using sub(1) t(3) by blast+
    then have "map_of (ul_pipes l) ?a = Some k" using t(1) by simp
    then show False using b \<open>b = ?a\<close> by (simp add: l2_def)
  qed
  have keep: "(b, j) \<in> set (ul_pipes l2)" if j: "(b, j) \<in> set (ul_pipes l)" "j \<noteq> k" for b j
  proof (cases "map_of (ul_pipes l) ?a = Some k")
    case True
    then have "b \<noteq> ?a" using map_of_is_SomeI [OF t(1) j(1)] j(2) by auto
    then show ?thesis using True j(1) by (simp add: l2_def)
  qed (use j in \<open>simp add: l2_def\<close>)
  have tb: "table_ok l2"
  proof (rule tableI)
    show "j < ul_nobj l2 \<and> up_remote (ul_obj l2 j) = b \<and> (up_closed (ul_obj l2 j) \<longrightarrow> j \<in> set (ul_removing l2))"
      if j: "(b, j) \<in> set (ul_pipes l2)" for b j
    proof -
      have "j \<noteq> k" using gone [of b] j by blast
      then show ?thesis using t(3) [of b j] sub(1) j by (auto simp: f)
    qed
    show "(up_remote (ul_obj l2 j), j) \<in> set (ul_pipes l2)" if "j < ul_nobj l2" "\<not> up_closed (ul_obj l2 j)" for j
      using keep [OF t(4) [of j]] kc that by (auto simp: f)
    show "j < ul_nobj l2 \<and> up_closed (ul_obj l2 j)" if "j \<in> set (ul_removing l2)" for j
      using t(5) [of j] that by (auto simp: f dest: notin_set_remove1)
  qed (use sub t(2,6) in \<open>simp_all add: f\<close>)
  have q: "queue_ok l2" using udp_invD(4) [OF inv] by (simp add: queue_ok_def f)
  have e: "udp_remove k l = (if ul_closed l2 \<and> ul_pipes l2 = [] then closeConnLocked l2 else l2)"
    by (simp add: udp_remove_def l2_def Let_def)
  show ?thesis
  proof (cases "ul_closed l2 \<and> ul_pipes l2 = []")
    case True
    then show ?thesis unfolding e using closeConn_inv [OF _ tb q] udp_invD(1) [OF inv] c(1,2,7) by (simp add: f)
  next
    case False
    moreover have "conn_ok l2"
      using c False sub(1) by (auto simp: conn_ok_def f)
    ultimately show ?thesis using e tb q udp_invD(1) [OF inv] by (auto simp: udp_inv_def f)
  qed
qed

lemma udp_listener_Close_inv:
  assumes inv: "udp_inv l"
  shows "udp_inv (udp_listener_Close l)"
proof (cases "ul_closed l")
  case False
  let ?l = "l\<lparr>ul_closed := True, ul_closeq := True, ul_closing := ul_closing l @ ul_acceptq l, ul_acceptq := []\<rparr>"
  note c = conn_okD [OF udp_invD(3) [OF inv]]
  have nq: "\<not> ul_closeq l" using c(1) False by simp
  have tq: "table_ok ?l" "queue_ok ?l" using udp_invD(2,4) [OF inv] by (auto simp: table_ok_def queue_ok_def)
  have e: "udp_listener_Close l = (if ul_pipes ?l = [] then closeConnLocked ?l else ?l)"
    using False nq by (simp add: udp_listener_Close_def Let_def)
  show ?thesis
  proof (cases "ul_pipes l = []")
    case True
    then show ?thesis unfolding e using closeConn_inv [OF _ tq] udp_invD(1) [OF inv] c(2,7) by simp
  next
    case ne: False
    have "conn_ok ?l" using c ne by (auto simp: conn_ok_def)
    then show ?thesis using e ne tq udp_invD(1) [OF inv] by (simp add: udp_inv_def)
  qed
qed (simp add: udp_listener_Close_def inv)

lemma udp_queue_field_inv:
  assumes inv: "udp_inv l" and q: "length aq \<le> 16" "set aq \<union> set cl \<union> set_option pk \<subseteq> {..<ul_nobj l}"
  shows "udp_inv (l\<lparr>ul_acceptq := aq, ul_closing := cl, ul_parked := pk\<rparr>)"
  using inv q by (auto simp: udp_inv_def table_ok_def conn_ok_def queue_ok_def)

lemma queueD:
  assumes "udp_inv l"
  shows "length (ul_acceptq l) \<le> 16" "set (ul_acceptq l) \<union> set (ul_closing l) \<union> set_option (ul_parked l) \<subseteq> {..<ul_nobj l}"
    "upipe_ok (ul_obj l k)" "ul_maxRecv l \<le> udpMaxPayload"
  using udp_invD(4) [OF assms] by (auto simp: queue_ok_def)

lemma udp_new_pipe_inv:
  assumes inv: "udp_inv l" and n: "map_of (ul_pipes l) a = None" "length (ul_pipes l) < ul_maxPeers l" "\<not> ul_closed l" "ul_reading l"
    and r: "pk_refresh h \<noteq> 0"
  shows "udp_inv (udp_new_pipe now h a l)"
proof -
  let ?k = "ul_nobj l"
  define p where "p = setRefresh (pk_refresh h) now ((new_upipe (ul_Self l) (ul_Peer l) (ul_maxRecv l) a now)\<lparr>up_sendMax := unat (pk_length h)\<rparr>)"
  let ?t = "l\<lparr>ul_obj := (ul_obj l)(?k := p), ul_nobj := Suc ?k, ul_pipes := (a, ?k) # ul_pipes l\<rparr>"
  note t = tableD [OF udp_invD(2) [OF inv]] and c = conn_okD [OF udp_invD(3) [OF inv]]
  have "upipe_ok p" unfolding p_def using new_upipe_ok [OF queueD(4) [OF inv]] by simp
  then have p: "up_remote p = a" "\<not> up_closed p" "upipe_ok p" by (simp_all add: p_def new_upipe_def)
  have na: "a \<notin> fst ` set (ul_pipes l)" using n(1) by (simp add: map_of_eq_None_iff)
  have "table_ok ?t"
  proof (rule tableI)
    show "j < ul_nobj ?t \<and> up_remote (ul_obj ?t j) = b \<and> (up_closed (ul_obj ?t j) \<longrightarrow> j \<in> set (ul_removing ?t))"
      if "(b, j) \<in> set (ul_pipes ?t)" for b j using t(3) [of b j] that p by auto
    show "(up_remote (ul_obj ?t j), j) \<in> set (ul_pipes ?t)" if "j < ul_nobj ?t" "\<not> up_closed (ul_obj ?t j)" for j
      using t(4) [of j] that p by (auto simp: less_Suc_eq split: if_splits)
    show "j < ul_nobj ?t \<and> up_closed (ul_obj ?t j)" if "j \<in> set (ul_removing ?t)" for j
      using t(5) [of j] that by auto
  qed (use t(1,6) n(2) na in simp_all)
  moreover have "conn_ok ?t" using c n(3,4) by (auto simp: conn_ok_def)
  moreover have "queue_ok ?t" using udp_invD(4) [OF inv] p(3) by (auto simp: queue_ok_def less_SucI)
  ultimately have "udp_inv ?t" using udp_invD(1) [OF inv] by (simp add: udp_inv_def)
  then have "udp_inv (ul_sendCAck ?k ?t)" by simp
  moreover have "ul_nobj (ul_sendCAck ?k ?t) = Suc ?k" by (simp add: ul_sendCAck_def ul_write_def split: sum.split)
  moreover have "ul_parked_update (\<lambda>_. Some ?k) u = u\<lparr>ul_acceptq := ul_acceptq u, ul_closing := ul_closing u, ul_parked := Some ?k\<rparr>" for u
    by simp
  ultimately have "udp_inv ((ul_sendCAck ?k ?t)\<lparr>ul_parked := Some ?k\<rparr>)"
    using udp_queue_field_inv [of "ul_sendCAck ?k ?t" "ul_acceptq (ul_sendCAck ?k ?t)" "ul_closing (ul_sendCAck ?k ?t)" "Some ?k"]
      queueD(1,2) [of "ul_sendCAck ?k ?t"] by auto
  then show ?thesis using c(4) [OF n(3,4)] by (simp add: udp_new_pipe_def Let_def p_def)
qed

lemma handlePacket_inv:
  assumes inv: "udp_inv l" and r: "ul_reading l"
  shows "udp_inv (handlePacket now b a l)"
proof (cases "unmarshalPacket b")
  case (Some h)
  show ?thesis
  proof (cases "map_of (ul_pipes l) a")
    case None
    then show ?thesis
      using inv r udp_new_pipe_inv [OF inv None, of h now] by (simp add: handlePacket_def Some sendDisc_def)
  next
    case k: (Some k)
    have kn: "k < ul_nobj l" using tableD(3) [OF udp_invD(2) [OF inv] map_of_SomeD [OF k]] by simp
    obtain p c where d: "handleData now h (drop udpHeaderSize b) (ul_obj l k) = (p, c)" by fastforce
    have u: "udp_inv (upd_up k (\<lambda>_. p) l)" "udp_inv (upd_up k (setRefresh (pk_refresh h) now) l)"
      by (rule upd_up_inv [OF inv]; use handleData_frame [OF d] queueD(3) [OF inv] in simp)+
    then show ?thesis
      using inv kn udp_pipe_Close_inv [OF u(1)] udp_pipe_Close_inv [OF inv] by (simp add: handlePacket_def Some k d)
  qed
qed (simp add: handlePacket_def inv)

lemma handlePacket_queue_inv:
  assumes inv: "udp_inv l" and t: "t \<in> set (handlePacket_queue l)"
  shows "udp_inv t"
proof -
  obtain k where k: "ul_parked l = Some k" using t by (cases "ul_parked l") (simp_all add: handlePacket_queue_def)
  have "udp_inv (l\<lparr>ul_acceptq := ul_acceptq l, ul_closing := ul_closing l, ul_parked := None\<rparr>)"
    by (rule udp_queue_field_inv [OF inv]) (use queueD(1,2) [OF inv] in auto)
  then have u: "udp_inv (l\<lparr>ul_parked := None\<rparr>)" by simp
  have kn: "k < ul_nobj l" using queueD(2) [OF inv] k by auto
  have "udp_inv (l\<lparr>ul_acceptq := ul_acceptq l @ [k], ul_closing := ul_closing l, ul_parked := None\<rparr>)" if "length (ul_acceptq l) < 16"
    by (rule udp_queue_field_inv [OF inv]) (use that kn queueD(2) [OF inv] in auto)
  then show ?thesis
    using t k udp_pipe_Close_inv [OF u, of k] kn by (auto simp: handlePacket_queue_def Let_def split: if_splits)
qed

lemma udp_Accept_inv:
  assumes inv: "udp_inv l" and t: "(t, r) \<in> set (udp_Accept l)"
  shows "udp_inv t"
proof (cases "ul_acceptq l")
  case Nil
  then show ?thesis using t inv by (auto simp: udp_Accept_def split: if_splits)
next
  case (Cons k ks)
  have "udp_inv (l\<lparr>ul_acceptq := ks, ul_closing := ul_closing l, ul_parked := ul_parked l\<rparr>)"
    by (rule udp_queue_field_inv [OF inv]) (use queueD(1,2) [OF inv] Cons in auto)
  then have u: "udp_inv (l\<lparr>ul_acceptq := ks\<rparr>)" by simp
  have kn: "k < ul_nobj l" using queueD(2) [OF inv] Cons by auto
  show ?thesis using t inv u udp_pipe_Close_inv [OF u, of k] kn by (auto simp: udp_Accept_def Cons Let_def split: if_splits)
qed

lemma udp_Close_next_inv:
  assumes inv: "udp_inv l"
  shows "udp_inv (udp_listener_Close_next l)"
proof (cases "ul_closing l")
  case (Cons k ks)
  have "udp_inv (l\<lparr>ul_acceptq := ul_acceptq l, ul_closing := ks, ul_parked := ul_parked l\<rparr>)"
    by (rule udp_queue_field_inv [OF inv]) (use queueD(1,2) [OF inv] Cons in auto)
  then have u: "udp_inv (l\<lparr>ul_closing := ks\<rparr>)" by simp
  have "k < ul_nobj l" using queueD(2) [OF inv] Cons by auto
  then show ?thesis using udp_pipe_Close_inv [OF u, of k] by (simp add: udp_listener_Close_next_def Cons)
qed (simp add: udp_listener_Close_next_def inv)

lemma upipe_Recv_frame:
  assumes "(q, r) \<in> set (upipe_Recv p)"
  shows "upipe_ok p \<Longrightarrow> upipe_ok q" "up_remote q = up_remote p" "up_closed q = up_closed p"
  using assms by (cases "up_recvq p"; auto simp: upipe_Recv_def upipe_ok_def split: if_splits)+

lemma setMaxRecv_bound: "dst \<le> udpMaxPayload \<Longrightarrow> fst (setMaxRecv n v dst) \<le> udpMaxPayload"
  by (auto simp: setMaxRecv_def split: option.split)

lemma udp_SetOption_inv: "udp_inv l \<Longrightarrow> udp_inv (fst (udp_SetOption n v l))"
  using setMaxRecv_bound [of "ul_maxRecv l" n v]
  by (auto simp: udp_SetOption_def udp_inv_def table_ok_def conn_ok_def queue_ok_def split: prod.split)

lemma udp_Listen_inv: "udp_inv l \<Longrightarrow> udp_inv (fst (udp_Listen err l))"
  by (auto simp: udp_Listen_def udp_inv_def table_ok_def conn_ok_def queue_ok_def split: option.split)

lemma udp_init_inv: "udp_inv (udp_NewListener s p)"
  by (simp add: udp_inv_def table_ok_def conn_ok_def queue_ok_def udp_NewListener_def new_upipe_ok)

lemma udp_step_inv:
  assumes "udp_step l t" and inv: "udp_inv l"
  shows "udp_inv t"
  using assms(1)
proof cases
  case (us_listen e) then show ?thesis using udp_Listen_inv [OF inv] by blast
next
  case (us_packet now b a) then show ?thesis using handlePacket_inv [OF inv] by blast
next
  case us_queue then show ?thesis by (rule handlePacket_queue_inv [OF inv])
next
  case (us_accept r) then show ?thesis by (rule udp_Accept_inv [OF inv])
next
  case us_close then show ?thesis using udp_listener_Close_inv [OF inv] by simp
next
  case us_close_next then show ?thesis using udp_Close_next_inv [OF inv] by simp
next
  case (us_pipe_close k) then show ?thesis using udp_pipe_Close_inv [OF inv] by simp
next
  case (us_remove k) then show ?thesis using udp_remove_inv [OF inv] by simp
next
  case (us_send k m b) then show ?thesis using inv by simp
next
  case (us_recv k p r)
  show ?thesis unfolding us_recv(1)
    by (rule upd_up_inv [OF inv]) (use upipe_Recv_frame [OF us_recv(3)] queueD(3) [OF inv] in auto)
next
  case (us_set n v) then show ?thesis using udp_SetOption_inv [OF inv] by simp
qed

interpretation udp: machine "\<lambda>l. \<exists>s p. l = udp_NewListener s p" udp_step udp_inv
  by unfold_locales (auto simp: udp_init_inv intro: udp_step_inv)

section \<open>Handshake packets\<close>

lemma unat_of_nat16: "n \<le> udpMaxPayload \<Longrightarrow> unat (of_nat n :: u16) = n"
  by (simp add: unat_of_nat udpMaxPayload_def)

definition conn_packet :: "byte \<Rightarrow> upipe \<Rightarrow> packet" where
  "conn_packet opc p = \<lparr>pk_opcode = opc, pk_proto = up_Self p, pk_length = of_nat (up_maxRecv p),
     pk_refresh = of_int (up_refresh p div time_Second)\<rparr>"

text \<open>The limit survives the sixteen bits of its field, and the refresh time is never sent as zero.\<close>

lemma conn_packet_fields:
  assumes "upipe_ok p"
  shows "unat (pk_length (conn_packet opc p)) = up_maxRecv p" "pk_refresh (conn_packet opc p) \<noteq> 0"
    "pk_opcode (conn_packet opc p) = opc" "pk_proto (conn_packet opc p) = up_Self p"
proof -
  have "1 \<le> up_refresh p div time_Second" "up_refresh p div time_Second \<le> 5"
    using assms unfolding upipe_ok_def udpRefresh_def time_Second_def by linarith+
  then have "up_refresh p div time_Second \<in> {1, 2, 3, 4, 5}" by auto
  then show "pk_refresh (conn_packet opc p) \<noteq> 0" by (auto simp: conn_packet_def)
  show "unat (pk_length (conn_packet opc p)) = up_maxRecv p"
    using assms unat_of_nat16 by (simp add: conn_packet_def upipe_ok_def)
qed (simp_all add: conn_packet_def)

section \<open>Properties\<close>

text \<open>
  C29: The UDP listener in every run. No channel is closed twice and no nil socket is used; at most
  1024 peers have a pipe, and a remote address has at most one that is open; once the listener is
  closed and its pipes are closed and removed, the socket is released and the reaper told to end;
  every pipe buffers at most 16 messages, none longer than its receive limit.
\<close>

theorem udp_listener_sound:
  assumes "udp_step\<^sup>*\<^sup>* (udp_NewListener s p) l"
  shows "\<not> ul_panicked l \<and> length (ul_pipes l) \<le> 1024 \<and>
    (\<forall>j k. j < ul_nobj l \<and> k < ul_nobj l \<and> \<not> up_closed (ul_obj l j) \<and> \<not> up_closed (ul_obj l k) \<and>
       up_remote (ul_obj l j) = up_remote (ul_obj l k) \<longrightarrow> j = k) \<and>
    (ul_closed l \<and> ul_removing l = [] \<and> (\<forall>k<ul_nobj l. up_closed (ul_obj l k)) \<longrightarrow>
       \<not> ul_conn l \<and> (ul_reading l \<longrightarrow> ul_doneq l)) \<and>
    (\<forall>k. length (up_recvq (ul_obj l k)) \<le> 16 \<and>
       (\<forall>m\<in>set (up_recvq (ul_obj l k)). length m \<le> up_maxRecv (ul_obj l k) \<and> length m \<le> 65000))"
proof -
  have inv: "udp_inv l" by (rule udp.reachable_inv [OF _ assms]) blast
  note t = tableD [OF udp_invD(2) [OF inv]] and c = conn_okD [OF udp_invD(3) [OF inv]]
  have peers: "length (ul_pipes l) \<le> 1024" using t(2,6) by (simp add: udpMaxPeers_def)
  have uniq: "j = k" if "j < ul_nobj l" "k < ul_nobj l" "\<not> up_closed (ul_obj l j)" "\<not> up_closed (ul_obj l k)"
      "up_remote (ul_obj l j) = up_remote (ul_obj l k)" for j k
    using t(4) [OF that(1,3)] t(4) [OF that(2,4)] that(5) t(1) by (metis eq_key_imp_eq_value)
  have "ul_pipes l = []" if "ul_removing l = []" "\<forall>k<ul_nobj l. up_closed (ul_obj l k)"
  proof (rule ccontr)
    assume "ul_pipes l \<noteq> []"
    then obtain a k where "(a, k) \<in> set (ul_pipes l)" by (metis last_in_set surj_pair)
    then show False using t(3) [of a k] that by auto
  qed
  then have rel: "\<not> ul_conn l \<and> (ul_reading l \<longrightarrow> ul_doneq l)"
    if "ul_closed l" "ul_removing l = []" "\<forall>k<ul_nobj l. up_closed (ul_obj l k)"
    using c(6,7) that by blast
  have bound: "length (up_recvq (ul_obj l k)) \<le> 16 \<and>
       (\<forall>m\<in>set (up_recvq (ul_obj l k)). length m \<le> up_maxRecv (ul_obj l k) \<and> length m \<le> 65000)" for k
  proof -
    have "up_maxRecv (ul_obj l k) \<le> 65000" "length (up_recvq (ul_obj l k)) \<le> 16"
      and m: "m \<in> set (up_recvq (ul_obj l k)) \<Longrightarrow> length m \<le> up_maxRecv (ul_obj l k)" for m
      using queueD(3) [OF inv, of k] by (simp_all add: upipe_ok_def udpMaxPayload_def)
    then show ?thesis using order_trans [OF m] by blast
  qed
  show ?thesis using udp_invD(1) [OF inv] peers uniq rel bound by blast
qed

text \<open>
  C30: One message, one datagram. When a pipe has heard the acknowledgement of its peer, what it
  sends is either dropped, exactly when it is longer than the peer's receive limit, or reaches
  the peer as header and body in one; it never makes the peer close, and is queued unless sixteen
  messages wait.
\<close>

theorem udp_datagram_round_trip:
  assumes "upipe_ok q" and "\<not> up_closed q" and "\<not> up_closed p" and "up_Self p = up_Peer q" and "up_Self q = up_Peer p"
  shows "\<exists>b p'. sendConn opCAck q = Inr b \<and> readConnected_msg now b p = (p', False) \<and>
    (if length (wire m) > up_maxRecv q then upipe_Send m p' = SendDropped
     else \<exists>d. upipe_Send m p' = SendDatagram d \<and>
       (\<exists>q'. readConnected_msg now d q = (q', False) \<and>
          up_recvq q' = (if length (up_recvq q) < 16 then up_recvq q @ [wire m] else up_recvq q)))"
proof -
  let ?n = "length (wire m)" let ?b = "marshal (conn_packet opCAck q)"
  define p' where "p' = setRefresh (pk_refresh (conn_packet opCAck q)) now (p\<lparr>up_sendMax := up_maxRecv q\<rparr>)"
  have rd: "readConnected_msg now ?b p = (p', False)"
    using conn_packet_fields [OF assms(1), of opCAck] assms(5)
    by (simp add: readConnected_msg_def p'_def opCAck_def opData_def)
  have mr: "up_maxRecv q \<le> udpMaxPayload" using assms(1) by (simp add: upipe_ok_def)
  have p': "up_sendMax p' = up_maxRecv q" "\<not> up_closed p'" "up_Self p' = up_Peer q"
    using assms(3,4) by (simp_all add: p'_def)
  have c: "sendConn opCAck q = Inr ?b" using assms(2) by (simp add: sendConn_def conn_packet_def writePacket_def)
  show ?thesis
  proof (cases "?n > up_maxRecv q")
    case True
    then have "upipe_Send m p' = SendDropped" using p' by (simp add: upipe_Send_def wire_def Let_def)
    then show ?thesis using c rd True by auto
  next
    case False
    let ?h = "\<lparr>pk_opcode = opData, pk_proto = up_Self p', pk_length = of_nat ?n, pk_refresh = 0\<rparr>"
    have n: "unat (of_nat ?n :: u16) = ?n" using False mr by (intro unat_of_nat16) simp
    have snd: "upipe_Send m p' = SendDatagram (marshal ?h @ wire m)"
      using False p' mr by (simp add: upipe_Send_def wire_def writePacket_def Let_def)
    have "drop udpHeaderSize (marshal ?h @ wire m) = wire m" by (simp add: udpHeaderSize_def)
    then have "\<exists>q'. readConnected_msg now (marshal ?h @ wire m) q = (q', False) \<and>
        up_recvq q' = (if length (up_recvq q) < 16 then up_recvq q @ [wire m] else up_recvq q)"
      using False assms(2) p'(3) by (simp add: readConnected_msg_def handleData_def touch_def n Let_def)
    then show ?thesis using c rd False snd by auto
  qed
qed

text \<open>
  A run: the listener gets a request, is closed before the new pipe is queued for \<^verbatim>\<open>Accept\<close>, and the
  \<^verbatim>\<open>select\<close> picks the queue.
\<close>

definition udp_req :: packet where
  "udp_req = \<lparr>pk_opcode = opCReq, pk_proto = 0x30, pk_length = 1000, pk_refresh = 5\<rparr>"

definition ud1 :: ulistener where "ud1 = fst (udp_Listen None (udp_NewListener 0x31 0x30))"
definition ud2 :: ulistener where "ud2 = handlePacket 0 (marshal udp_req) ''h:1'' ud1"
definition ud3 :: ulistener where "ud3 = udp_listener_Close ud2"
definition ud4 :: ulistener where "ud4 = hd (handlePacket_queue ud3)"

lemma ud2_eq:
  "ul_parked ud2 = Some 0" "ul_closed ud2 = False" "ul_closeq ud2 = False" "ul_acceptq ud2 = []" "ul_closing ud2 = []" "ul_removing ud2 = []"
  "ul_pipes ud2 = [(''h:1'', 0)]" "ul_conn ud2" "ul_nobj ud2 = 1" "\<not> up_closed (ul_obj ud2 0)"
  by (simp_all add: ud2_def ud1_def udp_Listen_def udp_NewListener_def handlePacket_def udp_new_pipe_def ul_sendCAck_def sendConn_def
      ul_write_def new_upipe_def udp_req_def udpMaxPeers_def Let_def)

lemma ud_runs:
  "udp_step\<^sup>*\<^sup>* (udp_NewListener 0x31 0x30) ud2" "udp_step\<^sup>*\<^sup>* (udp_NewListener 0x31 0x30) ud4"
proof -
  have "udp_step (udp_NewListener 0x31 0x30) ud1" unfolding ud1_def by (rule us_listen)
  moreover have "udp_step ud1 ud2"
    unfolding ud2_def by (rule us_packet) (simp_all add: ud1_def udp_Listen_def udp_NewListener_def)
  ultimately show r2: "udp_step\<^sup>*\<^sup>* (udp_NewListener 0x31 0x30) ud2" by (meson rtranclp.rtrancl_into_rtrancl rtranclp.rtrancl_refl)
  have "handlePacket_queue ud3 \<noteq> []" by (simp add: handlePacket_queue_def ud3_def udp_listener_Close_def ud2_eq Let_def)
  then have "udp_step ud3 ud4" unfolding ud4_def by (intro us_queue) (rule hd_in_set)
  moreover have "udp_step ud2 ud3" unfolding ud3_def by (rule us_close)
  ultimately show "udp_step\<^sup>*\<^sup>* (udp_NewListener 0x31 0x30) ud4" using r2 by (meson rtranclp.rtrancl_into_rtrancl)
qed

theorem udp_listener_sound_witness: "\<not> ul_panicked ud2 \<and> length (ul_pipes ud2) \<le> 1024"
  using udp_listener_sound [OF ud_runs(1)] by blast

text \<open>
  Closing the listener can strand a pipe: it lies in the accept queue, which nobody reads any
  more, is open, keeps the socket open, and no goroutine is about to close it. (It goes away when
  its peer leaves or falls silent.)
\<close>

lemma udp_close_strands_pipe:
  "\<exists>l. udp_step\<^sup>*\<^sup>* (udp_NewListener 0x31 0x30) l \<and> ul_closed l \<and> ul_acceptq l = [0] \<and> \<not> up_closed (ul_obj l 0) \<and> ul_conn l \<and>
     ul_closing l = [] \<and> ul_removing l = [] \<and> ul_parked l = None"
proof -
  have e: "ud4 = ud3\<lparr>ul_acceptq := [0], ul_parked := None\<rparr>"
    by (simp add: ud4_def handlePacket_queue_def ud3_def udp_listener_Close_def ud2_eq Let_def)
  have "ul_closed ud4" "ul_acceptq ud4 = [0]" "\<not> up_closed (ul_obj ud4 0)" "ul_conn ud4" "ul_closing ud4 = []" "ul_removing ud4 = []"
    "ul_parked ud4 = None"
    unfolding e by (simp_all add: ud3_def udp_listener_Close_def ud2_eq Let_def)
  then show ?thesis using ud_runs(2) by blast
qed

theorem udp_datagram_round_trip_witness:
  "\<exists>b p' d q'. sendConn opCAck (new_upipe 1 2 1000 [] 0) = Inr b \<and> readConnected_msg 0 b (new_upipe 2 1 65000 [] 0) = (p', False) \<and>
     upipe_Send \<lparr>m_id = 0, Header = [1], Body = [2], m_pipe = None, m_from = 0\<rparr> p' = SendDatagram d \<and>
     readConnected_msg 0 d (new_upipe 1 2 1000 [] 0) = (q', False) \<and> up_recvq q' = [[1, 2]]"
proof -
  have "upipe_ok (new_upipe 1 2 1000 [] 0)" by (rule new_upipe_ok) (simp add: udpMaxPayload_def)
  from udp_datagram_round_trip [OF this, of "new_upipe 2 1 65000 [] 0" 0 "\<lparr>m_id = 0, Header = [1], Body = [2], m_pipe = None, m_from = 0\<rparr>"]
  show ?thesis by (auto simp: new_upipe_def wire_def)
qed

end
