(* ===== verification/DtlsPipe.thy ===== *)
theory DtlsPipe
  imports Udp
begin

text \<open>
  Pipes of the DTLS transport, \<^verbatim>\<open>transport/dtls/pipe.go\<close>: the datagram header, the negotiation, the read loop
  turn by turn, keep-alive, sending and closing. The encrypted connection is an argument: the records it
  delivers, whether a write succeeds. The clock is an argument, times are nanoseconds. Message
  ownership is part of the answer of \<^verbatim>\<open>Send\<close>.
\<close>

section \<open>The header\<close>

record dheader =
  dh_op :: byte
  dh_proto :: u16
  dh_param :: u16
  dh_refresh :: u16

definition headerSize :: nat where "headerSize = 8"
definition maxPayload :: int where "maxPayload = 16320"

definition dh_encode :: "dheader \<Rightarrow> bytes" where
  "dh_encode h = [1, dh_op h] @ PutUint16LE (dh_proto h) @ PutUint16LE (dh_param h) @ PutUint16LE (dh_refresh h)"

definition decodeHeader :: "bytes \<Rightarrow> dheader option" where
  "decodeHeader b =
     (if length b < headerSize \<or> b ! 0 \<noteq> 1 \<or> unat (b ! 1) > unat opDisc then None
      else Some \<lparr>dh_op = b ! 1, dh_proto = Uint16LE (drop 2 b), dh_param = Uint16LE (drop 4 b), dh_refresh = Uint16LE (drop 6 b)\<rparr>)"

section \<open>Pipes\<close>

record dpipe =
  dp_Self :: u16
  dp_Peer :: u16
  dp_maxRecv :: int
  dp_sendMax :: int
  dp_refresh :: int
  dp_expires :: int
  dp_closed :: bool
  dp_wake :: bool
  dp_recvq :: "bytes list"

definition new_dpipe :: "int \<Rightarrow> u16 \<Rightarrow> u16 \<Rightarrow> int \<Rightarrow> dpipe" where
  "new_dpipe now self peer mr =
     \<lparr>dp_Self = self, dp_Peer = peer, dp_maxRecv = mr, dp_sendMax = maxPayload, dp_refresh = 5 * time_Second,
      dp_expires = now + 25 * time_Second, dp_closed = False, dp_wake = False, dp_recvq = []\<rparr>"

definition dp_control :: "byte \<Rightarrow> dpipe \<Rightarrow> bytes" where
  "dp_control opc p =
     dh_encode \<lparr>dh_op = opc, dh_proto = dp_Self p, dh_param = of_int (dp_maxRecv p), dh_refresh = of_int (dp_refresh p div time_Second)\<rparr>"

text \<open>\<^verbatim>\<open>write\<close>: a short write is an error. \<open>wr\<close> is the answer of the connection.\<close>

definition dp_write :: "(bytes \<Rightarrow> err + nat) \<Rightarrow> bytes \<Rightarrow> status" where
  "dp_write wr b = (case wr b of Inl e \<Rightarrow> Some e | Inr n \<Rightarrow> if n \<noteq> length b then Some (ErrExternal 9) else None)"

definition dp_update :: "int \<Rightarrow> dheader \<Rightarrow> dpipe \<Rightarrow> dpipe" where
  "dp_update now h p =
     (let p1 = p\<lparr>dp_sendMax := (if dh_param h > 0 \<and> uint (dh_param h) < maxPayload then uint (dh_param h) else maxPayload)\<rparr>;
          p2 = (if dh_refresh h > 0 \<and> uint (dh_refresh h) * time_Second < dp_refresh p1
                then p1\<lparr>dp_refresh := uint (dh_refresh h) * time_Second, dp_wake := True\<rparr> else p1)
      in p2\<lparr>dp_expires := now + 5 * dp_refresh p2\<rparr>)"

definition disc_header :: "u16 \<Rightarrow> dpipe \<Rightarrow> bytes" where
  "disc_header reason p = dh_encode \<lparr>dh_op = opDisc, dh_proto = dp_Self p, dh_param = reason, dh_refresh = 0\<rparr>"

text \<open>\<^verbatim>\<open>closeWithReason\<close>: the datagram it writes, none when the pipe is closed already; queued messages are freed.\<close>

definition closeWithReason :: "u16 \<Rightarrow> dpipe \<Rightarrow> dpipe \<times> bytes option" where
  "closeWithReason reason p =
     (if dp_closed p then (p, None) else (p\<lparr>dp_closed := True, dp_recvq := []\<rparr>, Some (disc_header reason p)))"

text \<open>One datagram of the negotiation: the pipe, what is written, and the error.\<close>

definition negotiate_msg :: "bool \<Rightarrow> int \<Rightarrow> bytes \<Rightarrow> dpipe \<Rightarrow> dpipe \<times> bytes list \<times> status" where
  "negotiate_msg dial now b p =
     (let refuse = (\<lambda>reason. case closeWithReason reason p of (p1, w) \<Rightarrow> (p1, (case w of None \<Rightarrow> [] | Some d \<Rightarrow> [d]), Some ErrBadProto))
      in case decodeHeader b of
           None \<Rightarrow> refuse 7
         | Some h \<Rightarrow>
             if length b \<noteq> headerSize \<or> (dial \<and> dh_op h \<noteq> opCAck) \<or> (\<not> dial \<and> dh_op h \<noteq> opCReq) then refuse 7
             else if dh_proto h \<noteq> dp_Peer p then refuse 1
             else (let p1 = dp_update now h p in (p1, if dial then [] else [dp_control opCAck p1], None)))"

text \<open>
  The loop over what reading answers: a timeout before the limit lets the dialer ask again; when the
  answers end, the context has expired. Every turn of a dialer writes a request.
\<close>

datatype nread = NTimeout | NError err | NData int bytes

fun negotiate :: "bool \<Rightarrow> nread list \<Rightarrow> dpipe \<Rightarrow> dpipe \<times> bytes list \<times> status" where
  "negotiate dial [] p = (p, [], Some (ErrExternal 10))"
| "negotiate dial (NTimeout # rs) p =
     (if dial then (case negotiate dial rs p of (p1, w, e) \<Rightarrow> (p1, dp_control opCReq p # w, e)) else (p, [], Some (ErrExternal 10)))"
| "negotiate dial (NError x # rs) p = (p, if dial then [dp_control opCReq p] else [], Some x)"
| "negotiate dial (NData now b # rs) p =
     (case negotiate_msg dial now b p of (p1, w, e) \<Rightarrow> (p1, (if dial then [dp_control opCReq p] else []) @ w, e))"

text \<open>One turn of \<^verbatim>\<open>readLoop\<close>: it goes on, or ends (and the deferred \<^verbatim>\<open>Close\<close> runs), after closing for a reason or not.\<close>

datatype turn = GoOn "bytes list" | Stop | StopReason u16

definition readLoop_msg :: "bool \<Rightarrow> int \<Rightarrow> bytes \<Rightarrow> dpipe \<Rightarrow> dpipe \<times> turn" where
  "readLoop_msg dial now b p =
     (case decodeHeader b of
        None \<Rightarrow> (p, StopReason 7)
      | Some h \<Rightarrow>
          if dh_proto h \<noteq> dp_Peer p then (p, StopReason 1)
          else if int (length b) > int headerSize + dp_maxRecv p then (p, StopReason 4)
          else if dh_op h = opData then
            (if dp_closed p then (p, Stop)
             else
               (let p1 = p\<lparr>dp_expires := now + 5 * dp_refresh p\<rparr>; m = drop headerSize b
                in (if length (dp_recvq p1) < 16 then p1\<lparr>dp_recvq := dp_recvq p1 @ [m]\<rparr> else p1, GoOn [])))
          else if dh_op h = opCReq then
            (if dial \<or> length b \<noteq> headerSize then (p, Stop) else (let p1 = dp_update now h p in (p1, GoOn [dp_control opCAck p1])))
          else if dh_op h = opCAck then
            (if \<not> dial \<or> length b \<noteq> headerSize then (p, Stop) else (dp_update now h p, GoOn []))
          else (p, Stop))"

definition keepAlive_wait :: "bool \<Rightarrow> int \<Rightarrow> dpipe \<Rightarrow> int" where
  "keepAlive_wait dial now p =
     (let wait = dp_expires p - now in max 0 (if dial \<and> dp_refresh p < wait then dp_refresh p else wait))"

text \<open>What follows the timer: \<open>Inl\<close> is the close, \<open>Inr\<close> what is written.\<close>

definition keepAlive_fire :: "bool \<Rightarrow> int \<Rightarrow> dpipe \<Rightarrow> unit + bytes list" where
  "keepAlive_fire dial now p = (if now \<ge> dp_expires p then Inl () else Inr (if dial then [dp_control opCReq p] else []))"

definition dp_Send :: "message \<Rightarrow> dpipe \<Rightarrow> udp_sent" where
  "dp_Send m p =
     (if dp_closed p then SendFailed ErrClosed
      else if int (length (Header m)) > dp_sendMax p \<or> int (length (Body m)) > dp_sendMax p - int (length (Header m)) then SendDropped
      else SendDatagram
        (dh_encode \<lparr>dh_op = opData, dh_proto = dp_Self p, dh_param = of_nat (length (Header m) + length (Body m)), dh_refresh = 0\<rparr> @
         Header m @ Body m))"

text \<open>The outcomes that the select of \<^verbatim>\<open>Recv\<close> can pick; none: it waits.\<close>

definition dp_Recv :: "dpipe \<Rightarrow> (dpipe \<times> (err + bytes)) list" where
  "dp_Recv p =
     (if dp_closed p then [(p, Inl ErrClosed)] else []) @
     (case dp_recvq p of [] \<Rightarrow> [] | m # ms \<Rightarrow> [(p\<lparr>dp_recvq := ms\<rparr>, Inr m)])"

definition OptionDTLSConfig :: string where [option_names]: "OptionDTLSConfig = ''DTLS-CONFIG''"
definition OptionDTLSConnState :: string where [option_names]: "OptionDTLSConnState = ''DTLS-STATE''"

definition dp_GetOption :: "optval \<Rightarrow> optval \<Rightarrow> optval option \<Rightarrow> string \<Rightarrow> dpipe \<Rightarrow> err + optval" where
  "dp_GetOption la ra st n p =
     (if n = OptionLocalAddr then Inr la
      else if n = OptionRemoteAddr then Inr ra
      else if n = OptionMaxRecvSize then Inr (VInt (dp_maxRecv p))
      else if n = OptionDTLSConnState then (case st of None \<Rightarrow> Inl ErrBadProperty | Some v \<Rightarrow> Inr v)
      else Inl ErrBadProperty)"

section \<open>Headers on the wire\<close>

lemma length_encode [simp]: "length (dh_encode h) = 8"
  by (simp add: dh_encode_def)

lemma decode_encode [simp]:
  assumes "unat (dh_op h) \<le> 3"
  shows "decodeHeader (dh_encode h @ bs) = Some h"
proof -
  have d: "drop 2 (dh_encode h @ bs) = PutUint16LE (dh_proto h) @ PutUint16LE (dh_param h) @ PutUint16LE (dh_refresh h) @ bs"
    "drop 4 (dh_encode h @ bs) = PutUint16LE (dh_param h) @ PutUint16LE (dh_refresh h) @ bs"
    "drop 6 (dh_encode h @ bs) = PutUint16LE (dh_refresh h) @ bs"
    by (simp_all add: dh_encode_def)
  have "(dh_encode h @ bs) ! 0 = 1" "(dh_encode h @ bs) ! 1 = dh_op h" by (simp_all add: dh_encode_def)
  then show ?thesis using assms unfolding decodeHeader_def d by (simp add: headerSize_def opDisc_def)
qed

lemma decode_encode0 [simp]: "unat (dh_op h) \<le> 3 \<Longrightarrow> decodeHeader (dh_encode h) = Some h"
  using decode_encode [of h "[]"] by simp

lemma ops_small [simp]: "unat opData \<le> 3" "unat opCReq \<le> 3" "unat opCAck \<le> 3" "unat opDisc \<le> 3"
  by (simp_all add: opData_def opCReq_def opCAck_def opDisc_def)

lemma ops_distinct [simp]:
  "opData \<noteq> opCReq" "opData \<noteq> opCAck" "opData \<noteq> opDisc" "opCReq \<noteq> opData" "opCReq \<noteq> opCAck" "opCReq \<noteq> opDisc"
  "opCAck \<noteq> opData" "opCAck \<noteq> opCReq" "opCAck \<noteq> opDisc"
  by (simp_all add: opData_def opCReq_def opCAck_def opDisc_def)

section \<open>Invariant\<close>

text \<open>The limits of a pipe; whatever records arrive, the queue stays within them.\<close>

definition dpipe_ok :: "dpipe \<Rightarrow> bool" where
  "dpipe_ok p \<longleftrightarrow> 0 < dp_maxRecv p \<and> dp_maxRecv p \<le> maxPayload \<and> 0 < dp_sendMax p \<and> dp_sendMax p \<le> maxPayload \<and>
     time_Second \<le> dp_refresh p \<and> dp_refresh p \<le> 5 * time_Second \<and>
     length (dp_recvq p) \<le> 16 \<and> (\<forall>m\<in>set (dp_recvq p). int (length m) \<le> dp_maxRecv p)"

lemma new_dpipe_ok: "0 < mr \<Longrightarrow> mr \<le> maxPayload \<Longrightarrow> dpipe_ok (new_dpipe now s p mr)"
  by (simp add: dpipe_ok_def new_dpipe_def time_Second_def maxPayload_def)

lemma word_pos: "(0 :: u16) < w \<longleftrightarrow> 0 < uint w"
  by (simp add: word_less_def)

lemma dp_update_ok: "dpipe_ok p \<Longrightarrow> dpipe_ok (dp_update now h p)"
proof -
  have "time_Second \<le> uint (dh_refresh h) * time_Second" if "0 < uint (dh_refresh h)"
    using that by (simp add: time_Second_def)
  then show "dpipe_ok p \<Longrightarrow> dpipe_ok (dp_update now h p)"
    by (auto simp: dp_update_def Let_def dpipe_ok_def word_pos maxPayload_def)
qed

lemma readLoop_msg_ok:
  assumes "dpipe_ok p"
  shows "dpipe_ok (fst (readLoop_msg dial now b p))"
proof -
  have q: "dpipe_ok (p\<lparr>dp_expires := e, dp_recvq := dp_recvq p @ [drop headerSize b]\<rparr>)"
    if "\<not> int (length b) > int headerSize + dp_maxRecv p" "length (dp_recvq p) < 16" for e
    using assms that by (auto simp: dpipe_ok_def)
  have "dpipe_ok (p\<lparr>dp_expires := e\<rparr>)" for e using assms by (simp add: dpipe_ok_def)
  then show ?thesis using assms q dp_update_ok [OF assms] by (simp add: readLoop_msg_def Let_def split: option.split)
qed

section \<open>Properties\<close>

lemma param_16: "0 < mr \<Longrightarrow> mr \<le> maxPayload \<Longrightarrow> uint (of_int mr :: u16) = mr"
  by (simp add: maxPayload_def uint_word_of_int take_bit_int_eq_self unsigned_of_int)

text \<open>What a request or an acknowledgement of a pipe does to its peer, when both are new.\<close>

definition joined :: "int \<Rightarrow> int \<Rightarrow> dpipe \<Rightarrow> dpipe" where
  "joined now mr p = p\<lparr>dp_sendMax := mr, dp_expires := now + 5 * dp_refresh p\<rparr>"

lemma update_joined:
  assumes "0 < dp_maxRecv q" "dp_maxRecv q \<le> maxPayload" "dp_refresh q = 5 * time_Second" "dp_refresh p = 5 * time_Second"
  shows "dp_update now \<lparr>dh_op = opc, dh_proto = s, dh_param = of_int (dp_maxRecv q), dh_refresh = of_int (dp_refresh q div time_Second)\<rparr> p =
    joined now (dp_maxRecv q) p"
proof -
  have "dp_refresh q div time_Second = 5" using assms(3) by (simp add: time_Second_def)
  then show ?thesis
    using assms param_16 [OF assms(1,2)] by (auto simp: dp_update_def Let_def joined_def word_pos)
qed

lemma negotiate_msg_ok:
  assumes "0 < dp_maxRecv q" "dp_maxRecv q \<le> maxPayload" "dp_refresh q = 5 * time_Second" "dp_refresh p = 5 * time_Second"
    and "dp_Self q = dp_Peer p" and "opc = (if dial then opCAck else opCReq)"
  shows "negotiate_msg dial now (dp_control opc q) p =
    (joined now (dp_maxRecv q) p, if dial then [] else [dp_control opCAck (joined now (dp_maxRecv q) p)], None)"
proof -
  let ?h = "\<lparr>dh_op = opc, dh_proto = dp_Self q, dh_param = of_int (dp_maxRecv q), dh_refresh = of_int (dp_refresh q div time_Second)\<rparr>"
  have "decodeHeader (dp_control opc q) = Some ?h" using assms(6) by (simp add: dp_control_def)
  moreover have "dp_update now ?h p = joined now (dp_maxRecv q) p" by (rule update_joined [OF assms(1-4)])
  moreover have "length (dp_control opc q) = headerSize" by (simp add: dp_control_def headerSize_def)
  moreover have "dh_op ?h = opc" "dh_proto ?h = dp_Peer p" using assms(5) by simp_all
  ultimately show ?thesis using assms(6) unfolding negotiate_msg_def Let_def by (cases dial) (simp_all only: option.case if_True if_False simp_thms ops_distinct)
qed

lemma negotiate_lost: "negotiate True (replicate n NTimeout @ rs) p =
    (case negotiate True rs p of (p1, w, e) \<Rightarrow> (p1, replicate n (dp_control opCReq p) @ w, e))"
  by (induction n) (auto split: prod.split)

text \<open>A message within the limit arrives, a longer one is dropped by the sender.\<close>

lemma dp_deliver:
  assumes "\<not> dp_closed p" "\<not> dp_closed q" "dp_sendMax p = dp_maxRecv q" "dp_Self p = dp_Peer q" "0 < dp_maxRecv q"
  shows "if int (length (wire m)) > dp_maxRecv q then dp_Send m p = SendDropped
    else \<exists>b q'. dp_Send m p = SendDatagram b \<and> readLoop_msg dial now b q = (q', GoOn []) \<and>
      dp_recvq q' = (if length (dp_recvq q) < 16 then dp_recvq q @ [wire m] else dp_recvq q)"
proof (cases "int (length (wire m)) > dp_maxRecv q")
  case True
  then show ?thesis using assms by (auto simp: dp_Send_def wire_def)
next
  case False
  let ?h = "\<lparr>dh_op = opData, dh_proto = dp_Self p, dh_param = of_nat (length (Header m) + length (Body m)), dh_refresh = 0\<rparr>"
  have "dp_Send m p = SendDatagram (dh_encode ?h @ wire m)" using False assms by (auto simp: dp_Send_def wire_def)
  moreover have "\<exists>q'. readLoop_msg dial now (dh_encode ?h @ wire m) q = (q', GoOn []) \<and>
      dp_recvq q' = (if length (dp_recvq q) < 16 then dp_recvq q @ [wire m] else dp_recvq q)"
    using False assms by (simp add: readLoop_msg_def headerSize_def Let_def)
  ultimately show ?thesis using False by auto
qed

text \<open>
  C36: A DTLS session. Take new pipes of matching protocols with legal receive limits. However many requests of
  the dialer get lost, the one that arrives makes the listener acknowledge, and the acknowledgement lets both
  start with the other's limit. From then on a message in either direction arrives as it was sent when it
  is within the receiver's limit, and is dropped by its sender when it is longer; neither makes the
  receiver close. A request for another protocol is answered with a disconnect and an error.
\<close>

theorem dtls_session_round_trip:
  assumes "0 < md" "md \<le> maxPayload" "0 < ml" "ml \<le> maxPayload"
  shows "\<exists>l ack d w. negotiate False [NData t2 (dp_control opCReq (new_dpipe t0 a b md))] (new_dpipe t1 b a ml) = (l, [ack], None) \<and>
    negotiate True (replicate n NTimeout @ [NData t3 ack]) (new_dpipe t0 a b md) = (d, w, None) \<and> length w = Suc n \<and>
    (\<forall>m. if int (length (wire m)) > ml then dp_Send m d = SendDropped
       else \<exists>x l'. dp_Send m d = SendDatagram x \<and> readLoop_msg False t4 x l = (l', GoOn []) \<and> dp_recvq l' = [wire m]) \<and>
    (\<forall>m. if int (length (wire m)) > md then dp_Send m l = SendDropped
       else \<exists>x d'. dp_Send m l = SendDatagram x \<and> readLoop_msg True t4 x d = (d', GoOn []) \<and> dp_recvq d' = [wire m]) \<and>
    (c \<noteq> a \<longrightarrow> snd (snd (negotiate False [NData t2 (dp_control opCReq (new_dpipe t0 c b md))] (new_dpipe t1 b a ml))) = Some ErrBadProto)"
proof -
  let ?dial0x = "new_dpipe t0 a b md" let ?lis0x = "new_dpipe t1 b a ml"
  let ?l = "joined t2 md ?lis0x" let ?d = "joined t3 ml ?dial0x" let ?ack = "dp_control opCAck ?l"
  have f: "dp_maxRecv ?dial0x = md" "dp_maxRecv ?l = ml" "dp_refresh ?dial0x = 5 * time_Second" "dp_refresh ?l = 5 * time_Second"
    "dp_refresh ?lis0x = 5 * time_Second" "dp_Self ?dial0x = a" "dp_Peer ?dial0x = b" "dp_Self ?l = b" "dp_Peer ?lis0x = a"
    by (simp_all add: new_dpipe_def joined_def)
  have g: "dp_sendMax ?d = ml" "dp_sendMax ?l = md" "dp_maxRecv ?d = md" "dp_Self ?d = a" "dp_Peer ?d = b" "dp_Peer ?l = a"
    "\<not> dp_closed ?d" "\<not> dp_closed ?l" "dp_recvq ?d = []" "dp_recvq ?l = []"
    by (simp_all add: new_dpipe_def joined_def)
  have n1: "negotiate False [NData t2 (dp_control opCReq ?dial0x)] ?lis0x = (?l, [?ack], None)"
    using negotiate_msg_ok [of ?dial0x ?lis0x opCReq False t2] assms f by simp
  have "negotiate True [NData t3 ?ack] ?dial0x = (?d, [dp_control opCReq ?dial0x], None)"
    using negotiate_msg_ok [of ?l ?dial0x opCAck True t3] assms f by simp
  then have n2: "negotiate True (replicate n NTimeout @ [NData t3 ?ack]) ?dial0x = (?d, replicate n (dp_control opCReq ?dial0x) @ [dp_control opCReq ?dial0x], None)"
    by (simp only: negotiate_lost) simp
  have s1: "if int (length (wire m)) > ml then dp_Send m ?d = SendDropped
       else \<exists>x l'. dp_Send m ?d = SendDatagram x \<and> readLoop_msg False t4 x ?l = (l', GoOn []) \<and> dp_recvq l' = [wire m]" for m
    using dp_deliver [of ?d ?l m False t4] assms f g by (auto split: if_splits)
  have s2: "if int (length (wire m)) > md then dp_Send m ?l = SendDropped
       else \<exists>x d'. dp_Send m ?l = SendDatagram x \<and> readLoop_msg True t4 x ?d = (d', GoOn []) \<and> dp_recvq d' = [wire m]" for m
    using dp_deliver [of ?l ?d m True t4] assms f g by (auto split: if_splits)
  have r: "c \<noteq> a \<longrightarrow> snd (snd (negotiate False [NData t2 (dp_control opCReq (new_dpipe t0 c b md))] ?lis0x)) = Some ErrBadProto"
    by (simp add: negotiate_msg_def dp_control_def headerSize_def Let_def new_dpipe_def split: prod.split)
  show ?thesis by (intro exI conjI allI) (fact n1, fact n2, simp, fact s1, fact s2, fact r)
qed

theorem dtls_session_round_trip_witness:
  "\<exists>l ack d w. negotiate False [NData 2 (dp_control opCReq (new_dpipe 0 16 17 100))] (new_dpipe 1 17 16 200) = (l, [ack], None) \<and>
    negotiate True [NTimeout, NData 3 ack] (new_dpipe 0 16 17 100) = (d, w, None) \<and> length w = 2"
proof -
  have "0 < (100 :: int)" "(100 :: int) \<le> maxPayload" "0 < (200 :: int)" "(200 :: int) \<le> maxPayload" by (simp_all add: maxPayload_def)
  from dtls_session_round_trip [OF this, of 2 0 16 17 1 1 3 4 16] show ?thesis by (auto simp: numeral_2_eq_2)
qed

end
