(* ===== verification/Dtls.thy ===== *)
theory Dtls
  imports DtlsPacket DtlsPipe
begin

text \<open>
  The DTLS transport, \<^verbatim>\<open>transport/dtls/dtls.go\<close>: addresses, options, dialing, and the listener over the packet
  listener of \<open>DtlsPacket\<close>. A connection and its pipe have the number of their packet connection. Pion is an
  argument: that a handshake fails, and when; closing its connection closes the packet connection. Besides the
  fields of the code: \<open>dl_fresh\<close>, the packet connections that Pion has taken and not yet returned from its
  \<^verbatim>\<open>Accept\<close>; \<open>dl_running\<close>, those whose handshake goroutine runs; \<open>dl_failed\<close>, those whose goroutine has to
  clean up; \<open>dl_taken\<close>, pipes that an \<^verbatim>\<open>Accept\<close> took and has not returned; \<open>dl_toclose\<close> and \<open>dl_queued\<close>, what
  \<^verbatim>\<open>Close\<close> still has to close; \<open>dl_given\<close>, the pipes \<^verbatim>\<open>Accept\<close> returned.
\<close>

section \<open>Addresses and options\<close>

definition dtls_network :: "string \<Rightarrow> string" where
  "dtls_network scheme = (if starts_with ''dtls'' scheme then ''udp'' @ drop 4 scheme else scheme)"

definition ContainsAny :: "string \<Rightarrow> string \<Rightarrow> bool" where
  "ContainsAny s chars \<longleftrightarrow> (\<exists>c\<in>set s. c \<in> set chars)"

text \<open>\<open>split\<close> and \<open>resolve\<close> are of the \<^verbatim>\<open>net\<close> package; \<open>resolve\<close> says whether the address is one a dialer can use.\<close>

record ddialer =
  dd_network :: string
  dd_remote :: string
  dd_host :: string
  dd_Self :: u16
  dd_Peer :: u16
  dd_config :: "dconfig option"
  dd_maxRecv :: int
  dd_started :: bool

definition dtls_NewDialer ::
    "string \<Rightarrow> (string \<Rightarrow> err + string) \<Rightarrow> (string \<Rightarrow> string \<Rightarrow> err + string \<times> bool) \<Rightarrow> u16 \<Rightarrow> u16 \<Rightarrow> string \<Rightarrow> err + ddialer" where
  "dtls_NewDialer scheme split resolve self peer addr =
     (case StripScheme \<lparr>tr_Scheme = scheme, tr_NewDialer = (\<lambda>_. Inr ()), tr_NewListener = (\<lambda>_. Inr ())\<rparr> addr of
        (_, Some e) \<Rightarrow> Inl e
      | (a, None) \<Rightarrow>
          if ContainsAny a ''* /?#'' then Inl ErrBadAddr
          else
            (case split a of
               Inl _ \<Rightarrow> Inl ErrBadAddr
             | Inr host \<Rightarrow>
                 if host = [] then Inl ErrBadAddr
                 else
                   (case resolve (dtls_network scheme) a of
                      Inl _ \<Rightarrow> Inl ErrBadAddr
                    | Inr (remote, usable) \<Rightarrow>
                        if \<not> usable then Inl ErrBadAddr
                        else Inr \<lparr>dd_network = dtls_network scheme, dd_remote = remote, dd_host = host, dd_Self = self, dd_Peer = peer,
                                  dd_config = None, dd_maxRecv = maxPayload, dd_started = False\<rparr>)))"

text \<open>An option value of this transport: a configuration (possibly a nil pointer), or one of the others.\<close>

datatype doptval = DConfig "dconfig option" | DVal optval

definition dtls_setOption :: "dconfig option \<Rightarrow> int \<Rightarrow> bool \<Rightarrow> string \<Rightarrow> doptval \<Rightarrow> (dconfig option \<times> int) \<times> status" where
  "dtls_setOption cfg mr started n v =
     (if n \<noteq> OptionDTLSConfig \<and> n \<noteq> OptionMaxRecvSize then ((cfg, mr), Some ErrBadOption)
      else if started then ((cfg, mr), Some ErrProtoState)
      else if n = OptionDTLSConfig then
        (case v of
           DConfig (Some c) \<Rightarrow> (case cf_validate c of Some e \<Rightarrow> ((cfg, mr), Some e) | None \<Rightarrow> ((Some c, mr), None))
         | _ \<Rightarrow> ((cfg, mr), Some ErrBadValue))
      else
        (case v of
           DVal (VInt sz) \<Rightarrow>
             if sz < 0 then ((cfg, mr), Some ErrBadValue)
             else ((cfg, if sz = 0 \<or> sz > maxPayload then maxPayload else sz), None)
         | _ \<Rightarrow> ((cfg, mr), Some ErrBadValue)))"

definition dtls_getOption :: "dconfig option \<Rightarrow> int \<Rightarrow> string \<Rightarrow> err + doptval" where
  "dtls_getOption cfg mr n =
     (if n = OptionDTLSConfig then Inr (DConfig cfg)
      else if n = OptionMaxRecvSize then Inr (DVal (VInt mr))
      else Inl ErrBadOption)"

definition dd_SetOption :: "string \<Rightarrow> doptval \<Rightarrow> ddialer \<Rightarrow> ddialer \<times> status" where
  "dd_SetOption n v d =
     (case dtls_setOption (dd_config d) (dd_maxRecv d) (dd_started d) n v of
        ((c, m), e) \<Rightarrow> (d\<lparr>dd_config := c, dd_maxRecv := m\<rparr>, e))"

definition dd_GetOption :: "string \<Rightarrow> ddialer \<Rightarrow> err + doptval" where
  "dd_GetOption n d = dtls_getOption (dd_config d) (dd_maxRecv d) n"

text \<open>
  \<open>client\<close> opens the socket and does the DTLS handshake with Pion's options; \<open>rs\<close> is what the negotiation
  reads. The answer is the pipe, and what was written.
\<close>

definition dtls_Dial ::
    "(pionopt list \<Rightarrow> int \<Rightarrow> status) \<Rightarrow> int \<Rightarrow> nread list \<Rightarrow> ddialer \<Rightarrow> ddialer \<times> (err + dpipe) \<times> bytes list" where
  "dtls_Dial client now rs d =
     (let d1 = d\<lparr>dd_started := True\<rparr>;
          cfg = (case dd_config d of Some c \<Rightarrow> c
                 | None \<Rightarrow> \<lparr>cf_ClientOptions = [], cf_ServerOptions = [], cf_ConnectTimeout = 0, cf_MaxPending = 0, cf_HandshakeRate = 0\<rparr>)
      in case client (cf_clientOptions (dd_host d) cfg) (cf_timeout cfg) of
           Some e \<Rightarrow> (d1, Inl e, [])
         | None \<Rightarrow>
             (case negotiate True rs (new_dpipe now (dd_Self d) (dd_Peer d) (dd_maxRecv d)) of
                (p, w, Some e) \<Rightarrow> (d1, Inl e, w @ (case closeWithReason 0 p of (_, Some b) \<Rightarrow> [b] | (_, None) \<Rightarrow> []))
              | (p, w, None) \<Rightarrow> (d1, Inr p, w)))"

section \<open>The listener\<close>

record dlistener =
  dl_scheme :: string
  dl_local :: string
  dl_config :: "dconfig option"
  dl_maxRecv :: int
  dl_started :: bool
  dl_closing :: bool
  dl_packets :: plistener
  dl_bound :: string
  dl_ready :: "nat list"
  dl_pending :: "nat set"
  dl_fresh :: "nat set"
  dl_running :: "nat set"
  dl_failed :: "nat set"
  dl_taken :: "nat set"
  dl_toclose :: "nat set"
  dl_queued :: "nat set"
  dl_given :: "nat list"

definition no_config :: dconfig where
  "no_config = \<lparr>cf_ClientOptions = [], cf_ServerOptions = [], cf_ConnectTimeout = 0, cf_MaxPending = 0, cf_HandshakeRate = 0\<rparr>"

definition new_dlistener :: "string \<Rightarrow> string \<Rightarrow> dlistener" where
  "new_dlistener scheme local =
     \<lparr>dl_scheme = scheme, dl_local = local, dl_config = None, dl_maxRecv = maxPayload, dl_started = False, dl_closing = False,
      dl_packets = newPacketListener 0 no_config, dl_bound = [], dl_ready = [], dl_pending = {}, dl_fresh = {},
      dl_running = {}, dl_failed = {}, dl_taken = {}, dl_toclose = {}, dl_queued = {}, dl_given = []\<rparr>"

definition dtls_NewListener :: "string \<Rightarrow> (string \<Rightarrow> string \<Rightarrow> err + string \<times> bool) \<Rightarrow> string \<Rightarrow> err + dlistener" where
  "dtls_NewListener scheme resolve addr =
     (case StripScheme \<lparr>tr_Scheme = scheme, tr_NewDialer = (\<lambda>_. Inr ()), tr_NewListener = (\<lambda>_. Inr ())\<rparr> addr of
        (_, Some e) \<Rightarrow> Inl e
      | (a, None) \<Rightarrow>
          if ContainsAny a '' /?#'' then Inl ErrBadAddr
          else
            (case resolve (dtls_network scheme) (if starts_with ''*'' a then drop 1 a else a) of
               Inl _ \<Rightarrow> Inl ErrBadAddr
             | Inr (local, usable) \<Rightarrow>
                 if \<not> usable then Inl ErrBadAddr
                 else Inr (new_dlistener scheme local)))"

definition dl_SetOption :: "string \<Rightarrow> doptval \<Rightarrow> dlistener \<Rightarrow> dlistener \<times> status" where
  "dl_SetOption n v l =
     (if dl_closing l then (l, Some ErrClosed)
      else case dtls_setOption (dl_config l) (dl_maxRecv l) (dl_started l) n v of
             ((c, m), e) \<Rightarrow> (l\<lparr>dl_config := c, dl_maxRecv := m\<rparr>, e))"

definition dl_GetOption :: "string \<Rightarrow> dlistener \<Rightarrow> err + doptval" where
  "dl_GetOption n l = dtls_getOption (dl_config l) (dl_maxRecv l) n"

text \<open>\<open>udp\<close> opens the socket, \<open>pion\<close> makes Pion's listener.\<close>

definition dtls_Listen :: "err + string \<Rightarrow> (pionopt list \<Rightarrow> status) \<Rightarrow> int \<Rightarrow> dlistener \<Rightarrow> dlistener \<times> status" where
  "dtls_Listen udp pion now l =
     (if dl_closing l then (l, Some ErrClosed)
      else if dl_started l then (l, Some ErrAddrInUse)
      else
        case dl_config l of
          None \<Rightarrow> (l, Some ErrTLSNoConfig)
        | Some cfg \<Rightarrow>
            if cf_ServerOptions cfg = [] then (l, Some ErrTLSNoCert)
            else
              (case udp of
                 Inl e \<Rightarrow> (l, Some e)
               | Inr bound \<Rightarrow>
                   (case pion (cf_serverOptions cfg) of
                      Some e \<Rightarrow> (l, Some e)
                    | None \<Rightarrow> (l\<lparr>dl_packets := newPacketListener now cfg, dl_bound := bound, dl_started := True\<rparr>, None))))"

definition dl_close_conn :: "nat \<Rightarrow> dlistener \<Rightarrow> dlistener" where
  "dl_close_conn c l = l\<lparr>dl_packets := pc_close False c (dl_packets l)\<rparr>"

text \<open>Pion takes a packet connection, and later returns it from its \<^verbatim>\<open>Accept\<close>.\<close>

definition pion_take :: "dlistener \<Rightarrow> dlistener option" where
  "pion_take l =
     (case pk_Accept (dl_packets l) of
        Some (pk, Some (Inr c)) \<Rightarrow> Some (l\<lparr>dl_packets := pk, dl_fresh := insert c (dl_fresh l)\<rparr>)
      | _ \<Rightarrow> None)"

definition acceptLoop_conn :: "nat \<Rightarrow> dlistener \<Rightarrow> dlistener" where
  "acceptLoop_conn c l =
     (let l1 = l\<lparr>dl_fresh := dl_fresh l - {c}\<rparr>
      in if dl_closing l then dl_close_conn c l1
         else
           (case holdPeer c (dl_packets l) of
              (_, None) \<Rightarrow> dl_close_conn c l1
            | (pk, Some _) \<Rightarrow>
                l1\<lparr>dl_packets := pk, dl_pending := insert c (dl_pending l), dl_running := insert c (dl_running l)\<rparr>))"

text \<open>The handshake goroutine, after the handshake and the negotiation ended with \<open>e\<close>.\<close>

definition handshake_end :: "status \<Rightarrow> nat \<Rightarrow> dlistener \<Rightarrow> dlistener" where
  "handshake_end e c l =
     (let l1 = l\<lparr>dl_running := dl_running l - {c}\<rparr>;
          (pk, ok) = (if e = None \<and> \<not> dl_closing l then establish c (dl_packets l) else (dl_packets l, False))
      in if ok \<and> length (dl_ready l) < 16
         then l1\<lparr>dl_packets := pk_release c pk, dl_ready := dl_ready l @ [c], dl_pending := dl_pending l - {c}\<rparr>
         else l1\<lparr>dl_packets := pk, dl_failed := insert c (dl_failed l)\<rparr>)"

definition handshake_cleanup :: "nat \<Rightarrow> dlistener \<Rightarrow> dlistener" where
  "handshake_cleanup c l =
     l\<lparr>dl_packets := pk_release c (pc_close False c (dl_packets l)), dl_pending := dl_pending l - {c}, dl_failed := dl_failed l - {c}\<rparr>"

definition dl_Accept_take :: "dlistener \<Rightarrow> (dlistener \<times> nat) option" where
  "dl_Accept_take l =
     (case dl_ready l of [] \<Rightarrow> None | c # cs \<Rightarrow> Some (l\<lparr>dl_ready := cs, dl_taken := insert c (dl_taken l)\<rparr>, c))"

definition dl_Accept_end :: "nat \<Rightarrow> dlistener \<Rightarrow> dlistener \<times> (err + nat)" where
  "dl_Accept_end c l =
     (let l1 = l\<lparr>dl_taken := dl_taken l - {c}\<rparr>
      in if dl_closing l then (dl_close_conn c l1, Inl ErrClosed) else (l1\<lparr>dl_given := dl_given l @ [c]\<rparr>, Inr c))"

definition dl_Close_begin :: "dlistener \<Rightarrow> dlistener" where
  "dl_Close_begin l =
     (if dl_closing l then l
      else l\<lparr>dl_closing := True, dl_queued := dl_queued l \<union> set (dl_ready l), dl_ready := [], dl_toclose := dl_toclose l \<union> dl_pending l\<rparr>)"

definition dl_Close_pending :: "nat \<Rightarrow> dlistener \<Rightarrow> dlistener" where
  "dl_Close_pending c l =
     l\<lparr>dl_packets := pk_release c (pc_close False c (dl_packets l)), dl_toclose := dl_toclose l - {c}\<rparr>"

definition dl_Close_queued :: "nat \<Rightarrow> dlistener \<Rightarrow> dlistener" where
  "dl_Close_queued c l = l\<lparr>dl_packets := pc_close False c (dl_packets l), dl_queued := dl_queued l - {c}\<rparr>"

definition dl_Address :: "dlistener \<Rightarrow> string" where
  "dl_Address l = dl_scheme l @ ''://'' @ (if dl_started l then dl_bound l else dl_local l)"

section \<open>Runs\<close>

text \<open>What happens to the packet listener without the listener's doing: datagrams, timers, closed pipes, failing reads.\<close>

inductive pk_env :: "plistener \<Rightarrow> plistener \<Rightarrow> bool" where
  env_dispatch: "pl_updated k \<le> now \<Longrightarrow> pk_env k (dispatch now b r k)"
| env_skip: "pk_Accept k = Some (k', res) \<Longrightarrow> (\<And>c. res \<noteq> Some (Inr c)) \<Longrightarrow> pk_env k k'"
| env_close: "pk_env k (pk_Close_begin k)"
| env_read_error: "pk_env k (readLoop_error k)"
| env_conn_close: "c < pl_next k \<Longrightarrow> pk_env k (pc_close b c k)"
| env_read: "c < pl_next k \<Longrightarrow> ReadFrom ex n c k = Some (k', res) \<Longrightarrow> pk_env k k'"

inductive dl_step :: "dlistener \<Rightarrow> dlistener \<Rightarrow> bool" where
  dl_set: "dl_step l (fst (dl_SetOption n v l))"
| dl_listen: "dl_step l (fst (dtls_Listen udp pion now l))"
| dl_env: "dl_started l \<Longrightarrow> pk_env (dl_packets l) k \<Longrightarrow> dl_step l (l\<lparr>dl_packets := k\<rparr>)"
| dl_take: "dl_started l \<Longrightarrow> pion_take l = Some l' \<Longrightarrow> dl_step l l'"
| dl_conn: "c \<in> dl_fresh l \<Longrightarrow> dl_step l (acceptLoop_conn c l)"
| dl_handshake: "c \<in> dl_running l \<Longrightarrow> dl_step l (handshake_end e c l)"
| dl_cleanup: "c \<in> dl_failed l \<Longrightarrow> dl_step l (handshake_cleanup c l)"
| dl_accept: "dl_Accept_take l = Some (l', c) \<Longrightarrow> dl_step l l'"
| dl_accepted: "c \<in> dl_taken l \<Longrightarrow> dl_step l (fst (dl_Accept_end c l))"
| dl_close: "dl_step l (dl_Close_begin l)"
| dl_close_pending: "c \<in> dl_toclose l \<Longrightarrow> dl_step l (dl_Close_pending c l)"
| dl_close_queued: "c \<in> dl_queued l \<Longrightarrow> dl_step l (dl_Close_queued c l)"

section \<open>Invariant\<close>

text \<open>How a packet listener may change: connections stay, closed ones stay closed, nobody gets a slot or a hold.\<close>

definition pk_mono :: "plistener \<Rightarrow> plistener \<Rightarrow> bool" where
  "pk_mono k k' \<longleftrightarrow> pl_next k \<le> pl_next k' \<and>
     (\<forall>c < pl_next k. (pc_done (pl_conns k c) \<longrightarrow> pc_done (pl_conns k' c)) \<and> pc_accepted (pl_conns k' c) = pc_accepted (pl_conns k c) \<and>
        (pc_held (pl_conns k' c) \<longrightarrow> pc_held (pl_conns k c)) \<and> (pc_pending (pl_conns k' c) \<longrightarrow> pc_pending (pl_conns k c))) \<and>
     (\<forall>c < pl_next k'. pl_next k \<le> c \<longrightarrow> \<not> pc_accepted (pl_conns k' c) \<and> \<not> pc_held (pl_conns k' c))"

lemma pk_mono_refl [simp]: "pk_mono k k"
  by (simp add: pk_mono_def)

lemma push_packet_mono: "pk_mono k k' \<Longrightarrow> pk_mono k (push_packet c b k')"
  by (simp add: pk_mono_def)

lemma refilled_mono: "pk_mono k (refilled now k)"
  by (simp add: pk_mono_def refilled_def)

lemma admit_mono: "pk_mono k (admit now r ((refilled now k)\<lparr>pl_credit := x\<rparr>))"
  by (auto simp: pk_mono_def admit_def refilled_def new_pconn_def)

lemma pc_close_mono: "pk_mono k (pc_close b c k)"
  by (simp add: pk_mono_def pc_close_def Let_def)

lemma pc_close_done: "pc_done (pl_conns (pc_close False c k) c)"
  by (simp add: pc_close_def Let_def)

lemma release_mono: "pk_mono k (pk_release c k)"
  by (simp add: pk_mono_def pk_release_def)

lemma pk_mono_trans: "pk_mono k k1 \<Longrightarrow> pk_mono k1 k2 \<Longrightarrow> pl_next k1 = pl_next k \<Longrightarrow> pk_mono k k2"
  unfolding pk_mono_def by (metis le_refl)

lemma pk_env_mono: "pk_env k k' \<Longrightarrow> pk_mono k k'"
proof (induction rule: pk_env.induct)
  case (env_dispatch k now b r)
  show ?case by (cases rule: dispatch_cases [of k r now b]) (simp_all add: push_packet_mono refilled_mono admit_mono)
next
  case (env_skip k k' res)
  then show ?case by (auto simp: pk_Accept_def pk_mono_def Let_def split: list.splits if_splits)
next
  case (env_close k)
  then show ?case by (simp add: pk_Close_begin_def pk_mono_def)
next
  case (env_read_error k)
  then show ?case by (simp add: readLoop_error_def pk_Close_begin_def pk_mono_def Let_def)
next
  case (env_conn_close c k b)
  then show ?case by (simp add: pc_close_mono)
next
  case (env_read c k ex n k' res)
  then show ?case by (auto simp: ReadFrom_def pk_mono_def Let_def split: list.splits if_splits)
qed

lemma pk_env_step: "pk_env k k' \<Longrightarrow> pk_step k k'"
  by (induction rule: pk_env.induct) (blast intro: pk_step.intros)+

definition owned :: "dlistener \<Rightarrow> nat set" where
  "owned l = dl_fresh l \<union> dl_running l \<union> dl_failed l \<union> set (dl_ready l) \<union> dl_taken l \<union> dl_queued l \<union> set (dl_given l)"

text \<open>Who has which connection.\<close>

definition dl_places :: "dlistener \<Rightarrow> bool" where
  "dl_places l \<longleftrightarrow> distinct (dl_ready l @ dl_given l) \<and> length (dl_ready l) \<le> 16 \<and> dl_pending l = dl_running l \<union> dl_failed l \<and>
     (dl_fresh l \<union> dl_running l) \<inter> (set (dl_ready l) \<union> dl_taken l \<union> set (dl_given l) \<union> dl_failed l) = {} \<and>
     dl_fresh l \<inter> dl_running l = {} \<and> dl_taken l \<inter> (set (dl_ready l) \<union> set (dl_given l)) = {} \<and>
     (dl_closing l \<longrightarrow> dl_ready l = []) \<and> (\<not> dl_started l \<longrightarrow> owned l = {} \<and> dl_toclose l = {}) \<and>
     (\<forall>cfg. dl_config l = Some cfg \<longrightarrow> cf_validate cfg = None)"

text \<open>What that means for the packet connections.\<close>

definition dl_conns :: "dlistener \<Rightarrow> plistener \<Rightarrow> bool" where
  "dl_conns l k \<longleftrightarrow> owned l \<union> dl_toclose l \<subseteq> {c. c < pl_next k \<and> pc_accepted (pl_conns k c)} \<and>
     (\<forall>c < pl_next k. pc_held (pl_conns k c) \<longrightarrow> c \<in> dl_running l \<union> dl_failed l) \<and>
     (\<forall>c < pl_next k. pc_accepted (pl_conns k c) \<and> \<not> pc_done (pl_conns k c) \<longrightarrow> c \<in> owned l) \<and>
     (\<forall>c\<in>set (dl_ready l) \<union> dl_taken l \<union> dl_queued l \<union> set (dl_given l). \<not> pc_pending (pl_conns k c)) \<and>
     (dl_closing l \<longrightarrow> (\<forall>c\<in>dl_running l \<union> dl_failed l. c \<in> dl_toclose l \<or> pc_done (pl_conns k c)))"

definition dl_inv :: "dlistener \<Rightarrow> bool" where
  "dl_inv l \<longleftrightarrow> dl_places l \<and> dl_conns l (dl_packets l) \<and> (\<exists>t0 rt. pk_inv t0 rt (dl_packets l))"

lemma dl_conns_mono:
  assumes "dl_conns l k" and m: "pk_mono k k'"
  shows "dl_conns l k'"
proof -
  have old: "c < pl_next k'" "pc_done (pl_conns k c) \<longrightarrow> pc_done (pl_conns k' c)" "pc_accepted (pl_conns k' c) = pc_accepted (pl_conns k c)"
    "pc_held (pl_conns k' c) \<longrightarrow> pc_held (pl_conns k c)" "pc_pending (pl_conns k' c) \<longrightarrow> pc_pending (pl_conns k c)" if "c < pl_next k" for c
    using m that by (auto simp: pk_mono_def)
  have new: "c < pl_next k" if "c < pl_next k'" "pc_accepted (pl_conns k' c) \<or> pc_held (pl_conns k' c)" for c
    using m that by (meson not_le pk_mono_def)
  have i: "c < pl_next k \<and> pc_accepted (pl_conns k c)" if "c \<in> owned l \<union> dl_toclose l" for c using assms(1) that unfolding dl_conns_def by blast
  have own: "set (dl_ready l) \<union> dl_taken l \<union> dl_queued l \<union> set (dl_given l) \<subseteq> owned l" "dl_running l \<union> dl_failed l \<subseteq> owned l"
    by (auto simp: owned_def)
  have "owned l \<union> dl_toclose l \<subseteq> {c. c < pl_next k' \<and> pc_accepted (pl_conns k' c)}" using i old by blast
  moreover have "c \<in> dl_running l \<union> dl_failed l" if "c < pl_next k'" "pc_held (pl_conns k' c)" for c
    using assms(1) new [of c] old [of c] that unfolding dl_conns_def by blast
  moreover have "c \<in> owned l" if "c < pl_next k'" "pc_accepted (pl_conns k' c)" "\<not> pc_done (pl_conns k' c)" for c
    using assms(1) new [of c] old [of c] that unfolding dl_conns_def by blast
  moreover have "\<not> pc_pending (pl_conns k' c)" if "c \<in> set (dl_ready l) \<union> dl_taken l \<union> dl_queued l \<union> set (dl_given l)" for c
    using assms(1) that own(1) i [of c] old(5) [of c] unfolding dl_conns_def by blast
  moreover have "c \<in> dl_toclose l \<or> pc_done (pl_conns k' c)" if "dl_closing l" "c \<in> dl_running l \<union> dl_failed l" for c
    using assms(1) that own(2) i [of c] old(2) [of c] unfolding dl_conns_def by blast
  ultimately show ?thesis unfolding dl_conns_def by blast
qed

lemma pk_invE:
  assumes "dl_inv l"
  obtains t0 rt where "pk_inv t0 rt (dl_packets l)"
  using assms by (auto simp: dl_inv_def)

lemma dl_inv_packets:
  assumes "dl_inv l" "pk_mono (dl_packets l) k" "\<And>t0 rt. pk_inv t0 rt (dl_packets l) \<Longrightarrow> pk_inv t0 rt k"
  shows "dl_inv (l\<lparr>dl_packets := k\<rparr>)"
proof -
  have "dl_places (l\<lparr>dl_packets := k\<rparr>) = dl_places l" "dl_conns (l\<lparr>dl_packets := k\<rparr>) k = dl_conns l k"
    by (simp_all add: dl_places_def dl_conns_def owned_def)
  then show ?thesis using assms dl_conns_mono by (auto simp: dl_inv_def)
qed

lemma inv_close:
  assumes "dl_inv l" "c < pl_next (dl_packets l)"
  shows "dl_inv (l\<lparr>dl_packets := pc_close b c (dl_packets l)\<rparr>)"
  using assms by (intro dl_inv_packets) (auto intro: pc_close_mono pc_close_inv)

lemma inv_close_release:
  assumes "dl_inv l" "c < pl_next (dl_packets l)"
  shows "dl_inv (l\<lparr>dl_packets := pk_release c (pc_close b c (dl_packets l))\<rparr>)"
proof (rule dl_inv_packets [OF assms(1)])
  have n: "pl_next (pc_close b c (dl_packets l)) = pl_next (dl_packets l)" by (simp add: pc_close_def Let_def)
  show "pk_mono (dl_packets l) (pk_release c (pc_close b c (dl_packets l)))"
    using pk_mono_trans [OF pc_close_mono release_mono n] .
  show "pk_inv t0 rt (pk_release c (pc_close b c (dl_packets l)))" if "pk_inv t0 rt (dl_packets l)" for t0 rt
    using release_inv [OF pc_close_inv [OF that assms(2)]] assms(2) by (simp add: n)
qed

lemma owned_lt: "dl_inv l \<Longrightarrow> c \<in> owned l \<union> dl_toclose l \<Longrightarrow> c < pl_next (dl_packets l)"
  by (auto simp: dl_inv_def dl_conns_def)

text \<open>Moves of a connection from place to place, the packet listener left alone.\<close>

lemma move_drop_fresh:
  assumes "dl_inv l" "pc_done (pl_conns (dl_packets l) c)"
  shows "dl_inv (l\<lparr>dl_fresh := dl_fresh l - {c}\<rparr>)"
proof -
  let ?l = "l\<lparr>dl_fresh := dl_fresh l - {c}\<rparr>"
  have o: "owned ?l \<subseteq> owned l" "owned l \<subseteq> insert c (owned ?l)" by (auto simp: owned_def)
  have "dl_places ?l" using assms(1) o(1) by (auto simp: dl_inv_def dl_places_def)
  moreover have "dl_conns ?l (dl_packets l)" using assms o by (auto simp: dl_inv_def dl_conns_def)
  ultimately show ?thesis using assms(1) by (simp add: dl_inv_def)
qed

lemma move_ready:
  assumes "dl_inv l" "c \<in> dl_running l" "\<not> dl_closing l" "length (dl_ready l) < 16"
    and "\<not> pc_pending (pl_conns (dl_packets l) c)" "\<not> pc_held (pl_conns (dl_packets l) c)"
  shows "dl_inv (l\<lparr>dl_running := dl_running l - {c}, dl_ready := dl_ready l @ [c], dl_pending := dl_pending l - {c}\<rparr>)"
  using assms by (auto simp: dl_inv_def dl_places_def dl_conns_def owned_def)

lemma move_failed:
  assumes "dl_inv l" "c \<in> dl_running l"
  shows "dl_inv (l\<lparr>dl_running := dl_running l - {c}, dl_failed := insert c (dl_failed l)\<rparr>)"
  using assms by (auto simp: dl_inv_def dl_places_def dl_conns_def owned_def)

lemma move_cleaned:
  assumes "dl_inv l" "c \<in> dl_failed l" "pc_done (pl_conns (dl_packets l) c)" "\<not> pc_held (pl_conns (dl_packets l) c)"
  shows "dl_inv (l\<lparr>dl_pending := dl_pending l - {c}, dl_failed := dl_failed l - {c}\<rparr>)"
  using assms by (auto simp: dl_inv_def dl_places_def dl_conns_def owned_def)

lemma move_taken:
  assumes "dl_inv l" "dl_ready l = c # cs"
  shows "dl_inv (l\<lparr>dl_ready := cs, dl_taken := insert c (dl_taken l)\<rparr>)"
  using assms by (auto simp: dl_inv_def dl_places_def dl_conns_def owned_def)

lemma move_given:
  assumes "dl_inv l" "c \<in> dl_taken l" "\<not> dl_closing l"
  shows "dl_inv (l\<lparr>dl_taken := dl_taken l - {c}, dl_given := dl_given l @ [c]\<rparr>)"
  using assms by (auto simp: dl_inv_def dl_places_def dl_conns_def owned_def)

lemma move_untaken:
  assumes "dl_inv l" "pc_done (pl_conns (dl_packets l) c)"
  shows "dl_inv (l\<lparr>dl_taken := dl_taken l - {c}\<rparr>)"
proof -
  let ?l = "l\<lparr>dl_taken := dl_taken l - {c}\<rparr>"
  have o: "owned ?l \<subseteq> owned l" "owned l \<subseteq> insert c (owned ?l)" by (auto simp: owned_def)
  have "dl_places ?l" using assms(1) o(1) by (auto simp: dl_inv_def dl_places_def)
  moreover have "dl_conns ?l (dl_packets l)" using assms o by (auto simp: dl_inv_def dl_conns_def)
  ultimately show ?thesis using assms(1) by (simp add: dl_inv_def)
qed

lemma move_closing: "dl_inv l \<Longrightarrow> dl_inv (dl_Close_begin l)"
proof (cases "dl_closing l")
  case False
  assume "dl_inv l"
  then show ?thesis using False by (auto simp: dl_inv_def dl_places_def dl_conns_def owned_def dl_Close_begin_def)
qed (simp add: dl_Close_begin_def)

lemma move_closed:
  assumes "dl_inv l" "pc_done (pl_conns (dl_packets l) c)"
  shows "dl_inv (l\<lparr>dl_toclose := dl_toclose l - {c}\<rparr>)" "dl_inv (l\<lparr>dl_queued := dl_queued l - {c}\<rparr>)"
  using assms by (auto simp: dl_inv_def dl_places_def dl_conns_def owned_def)

section \<open>Every step\<close>

lemma release_fields: "\<not> pc_pending (pl_conns (pk_release c k) c)" "\<not> pc_held (pl_conns (pk_release c k) c)"
    "pc_done (pl_conns (pk_release c k) d) = pc_done (pl_conns k d)"
  by (simp_all add: pk_release_def)

lemma set_inv: "dl_inv l \<Longrightarrow> dl_inv (fst (dl_SetOption n v l))"
proof (cases "dtls_setOption (dl_config l) (dl_maxRecv l) (dl_started l) n v")
  case (Pair cm e)
  assume inv: "dl_inv l"
  have "fst cm = dl_config l \<or> (\<exists>c. fst cm = Some c \<and> cf_validate c = None)"
    using Pair by (auto simp: dtls_setOption_def split: if_splits option.splits doptval.splits optval.splits)
  then show ?thesis using inv Pair
    by (cases cm) (auto simp: dl_SetOption_def dl_inv_def dl_places_def dl_conns_def owned_def)
qed

lemma listen_inv:
  assumes "dl_inv l"
  shows "dl_inv (fst (dtls_Listen udp pion now l))"
proof (cases "fst (dtls_Listen udp pion now l) = l")
  case False
  then obtain cfg bound where c: "dl_config l = Some cfg" "\<not> dl_started l"
      "fst (dtls_Listen udp pion now l) = l\<lparr>dl_packets := newPacketListener now cfg, dl_bound := bound, dl_started := True\<rparr>"
    by (auto simp: dtls_Listen_def split: if_splits option.splits sum.splits)
  have "cf_validate cfg = None" "owned l = {}" "dl_toclose l = {}" using assms c by (auto simp: dl_inv_def dl_places_def)
  then have "\<exists>t0 rt. pk_inv t0 rt (newPacketListener now cfg)" using pk_init by blast
  moreover have "dl_conns (l\<lparr>dl_packets := newPacketListener now cfg, dl_bound := bound, dl_started := True\<rparr>) (newPacketListener now cfg)"
    using \<open>owned l = {}\<close> \<open>dl_toclose l = {}\<close> by (auto simp: dl_conns_def owned_def newPacketListener_def)
  moreover have "dl_places (l\<lparr>dl_packets := newPacketListener now cfg, dl_bound := bound, dl_started := True\<rparr>)"
    using assms by (simp add: dl_inv_def dl_places_def)
  ultimately show ?thesis by (simp add: c(3) dl_inv_def)
qed (use assms in simp)

lemma take_inv:
  assumes "dl_inv l" "dl_started l" "pion_take l = Some l'"
  shows "dl_inv l'"
proof -
  let ?k = "dl_packets l"
  obtain k c where k: "pk_Accept ?k = Some (k, Some (Inr c))" "l' = l\<lparr>dl_packets := k, dl_fresh := insert c (dl_fresh l)\<rparr>"
    using assms(3) by (auto simp: pion_take_def split: option.splits prod.splits sum.splits)
  then obtain q where q: "pl_acceptq ?k = c # q" "k = upd_pc c (\<lambda>x. x\<lparr>pc_accepted := True\<rparr>) (?k\<lparr>pl_acceptq := q\<rparr>)"
    by (auto simp: pk_Accept_def Let_def split: list.splits if_splits)
  obtain t0 rt where pk: "pk_inv t0 rt ?k" by (rule pk_invE [OF assms(1)])
  then have new: "c < pl_next ?k" "\<not> pc_accepted (pl_conns ?k c)" using q(1) by (auto simp: pk_inv_def pk_bounds_def pk_slots_def)
  then have "c \<notin> owned l" using assms(1) by (auto simp: dl_inv_def dl_conns_def)
  then have "dl_places l'" using assms(1,2) by (auto simp: k(2) dl_inv_def dl_places_def owned_def)
  moreover have "dl_conns l' k" using assms(1) new unfolding k(2) q(2) by (auto simp: dl_inv_def dl_conns_def owned_def)
  moreover have "pk_inv t0 rt k" using accept_inv [OF pk k(1)] .
  ultimately show ?thesis by (auto simp: dl_inv_def k(2))
qed

lemma close_conn_comm:
  "dl_close_conn c (l\<lparr>dl_fresh := x\<rparr>) = l\<lparr>dl_packets := pc_close False c (dl_packets l), dl_fresh := x\<rparr>"
  "dl_close_conn c (l\<lparr>dl_taken := x\<rparr>) = l\<lparr>dl_packets := pc_close False c (dl_packets l), dl_taken := x\<rparr>"
  by (simp_all add: dl_close_conn_def)

lemma conn_inv:
  assumes inv: "dl_inv l" and c: "c \<in> dl_fresh l"
  shows "dl_inv (acceptLoop_conn c l)"
proof -
  have lt: "c < pl_next (dl_packets l)" using owned_lt [OF inv] c by (simp add: owned_def)
  have closed: "dl_inv (dl_close_conn c (l\<lparr>dl_fresh := dl_fresh l - {c}\<rparr>))"
    using move_drop_fresh [OF inv_close [OF inv lt, of False], of c] by (simp add: close_conn_comm pc_close_done)
  show ?thesis
  proof (cases "\<not> dl_closing l \<and> map_of (pl_peers (dl_packets l)) (pc_remote (pl_conns (dl_packets l) c)) = Some c")
    case True
    let ?k = "upd_pc c (\<lambda>x. x\<lparr>pc_held := True\<rparr>) (dl_packets l)"
    let ?l = "l\<lparr>dl_fresh := dl_fresh l - {c}, dl_packets := ?k, dl_pending := insert c (dl_pending l), dl_running := insert c (dl_running l)\<rparr>"
    have eq: "acceptLoop_conn c l = ?l" using True by (simp add: acceptLoop_conn_def holdPeer_def Let_def)
    have "\<exists>t0 rt. pk_inv t0 rt ?k" using hold_inv [of _ _ "dl_packets l" c] True inv by (auto simp: holdPeer_def dl_inv_def)
    moreover have "dl_places ?l" using inv c by (auto simp: dl_inv_def dl_places_def owned_def)
    moreover have "dl_conns ?l ?k" using inv c True by (auto simp: dl_inv_def dl_conns_def owned_def)
    ultimately show ?thesis unfolding eq by (simp add: dl_inv_def)
  next
    case False
    then have "acceptLoop_conn c l = dl_close_conn c (l\<lparr>dl_fresh := dl_fresh l - {c}\<rparr>)"
      by (auto simp: acceptLoop_conn_def holdPeer_def Let_def)
    then show ?thesis using closed by simp
  qed
qed

lemma establish_facts:
  "pk_mono k (fst (establish c k))" "pl_next (fst (establish c k)) = pl_next k"
  by (simp_all add: establish_def pk_mono_def)

lemma handshake_inv:
  assumes inv: "dl_inv l" and c: "c \<in> dl_running l"
  shows "dl_inv (handshake_end e c l)"
proof -
  have lt: "c < pl_next (dl_packets l)" using owned_lt [OF inv] c by (simp add: owned_def)
  define k where "k = (if e = None \<and> \<not> dl_closing l then fst (establish c (dl_packets l)) else dl_packets l)"
  define ok where "ok = (e = None \<and> \<not> dl_closing l \<and> snd (establish c (dl_packets l)))"
  have k: "pk_mono (dl_packets l) k" "pl_next k = pl_next (dl_packets l)" by (simp_all add: k_def establish_facts)
  have ik: "pk_inv t0 rt k" if "pk_inv t0 rt (dl_packets l)" for t0 rt using establish_inv [OF that lt] that by (simp add: k_def)
  have eq: "handshake_end e c l =
      (if ok \<and> length (dl_ready l) < 16
       then l\<lparr>dl_packets := pk_release c k, dl_running := dl_running l - {c}, dl_ready := dl_ready l @ [c], dl_pending := dl_pending l - {c}\<rparr>
       else l\<lparr>dl_packets := k, dl_running := dl_running l - {c}, dl_failed := insert c (dl_failed l)\<rparr>)"
    by (auto simp: handshake_end_def k_def ok_def split_beta Let_def)
  show ?thesis
  proof (cases "ok \<and> length (dl_ready l) < 16")
    case True
    have "dl_inv (l\<lparr>dl_packets := pk_release c k\<rparr>)"
      using pk_mono_trans [OF k(1) release_mono k(2)] release_inv [OF ik] k(2) lt by (intro dl_inv_packets [OF inv]) auto
    from move_ready [OF this, of c] show ?thesis using True c unfolding eq by (simp add: ok_def release_fields)
  next
    case False
    have "dl_inv (l\<lparr>dl_packets := k\<rparr>)" using dl_inv_packets [OF inv k(1) ik] .
    from move_failed [OF this, of c] show ?thesis using c unfolding eq if_not_P [OF False] by simp
  qed
qed

lemma cleanup_inv:
  assumes inv: "dl_inv l" and c: "c \<in> dl_failed l"
  shows "dl_inv (handshake_cleanup c l)"
proof -
  have lt: "c < pl_next (dl_packets l)" using owned_lt [OF inv] c by (simp add: owned_def)
  have "dl_inv (l\<lparr>dl_packets := pk_release c (pc_close False c (dl_packets l))\<rparr>)" by (rule inv_close_release [OF inv lt])
  from move_cleaned [OF this, of c] show ?thesis
    using c by (simp add: handshake_cleanup_def release_fields pc_close_done)
qed

lemma close_inv:
  assumes inv: "dl_inv l"
  shows "c \<in> dl_toclose l \<Longrightarrow> dl_inv (dl_Close_pending c l)" "c \<in> dl_queued l \<Longrightarrow> dl_inv (dl_Close_queued c l)"
    "c \<in> dl_taken l \<Longrightarrow> dl_inv (fst (dl_Accept_end c l))"
proof -
  have lt: "c < pl_next (dl_packets l)" if "c \<in> owned l \<union> dl_toclose l" using owned_lt [OF inv that] .
  show "dl_inv (dl_Close_pending c l)" if "c \<in> dl_toclose l"
    using move_closed(1) [OF inv_close_release [OF inv lt, of False], of c] that by (simp add: dl_Close_pending_def release_fields pc_close_done)
  show "dl_inv (dl_Close_queued c l)" if "c \<in> dl_queued l"
    using move_closed(2) [OF inv_close [OF inv lt, of False], of c] that by (simp add: dl_Close_queued_def pc_close_done owned_def)
  show "dl_inv (fst (dl_Accept_end c l))" if t: "c \<in> dl_taken l"
  proof (cases "dl_closing l")
    case True
    then show ?thesis using move_untaken [OF inv_close [OF inv lt, of False], of c] t
      by (simp add: dl_Accept_end_def close_conn_comm pc_close_done owned_def Let_def)
  next
    case False
    then show ?thesis using move_given [OF inv t] by (simp add: dl_Accept_end_def Let_def)
  qed
qed

lemma dl_step_inv: "dl_step l l' \<Longrightarrow> dl_inv l \<Longrightarrow> dl_inv l'"
proof (induction rule: dl_step.induct)
  case (dl_env l k)
  then show ?case using pk_env_mono pk_step_inv [OF pk_env_step] by (intro dl_inv_packets) auto
next
  case (dl_accept l l' c)
  then show ?case using move_taken by (auto simp: dl_Accept_take_def split: list.splits)
qed (simp_all add: set_inv listen_inv take_inv conn_inv handshake_inv cleanup_inv close_inv move_closing)

lemma new_dlistener_inv: "dl_inv (new_dlistener scheme local)"
proof -
  have "\<exists>t0 rt. pk_inv t0 rt (newPacketListener 0 no_config)" using pk_init [of no_config 0] by (auto simp: no_config_def cf_validate_def)
  then show ?thesis by (simp add: new_dlistener_def dl_inv_def dl_places_def dl_conns_def owned_def) (simp add: newPacketListener_def)
qed

interpretation dl: machine "\<lambda>l. \<exists>scheme local. l = new_dlistener scheme local" dl_step dl_inv
proof
  show "dl_inv l" if "\<exists>scheme local. l = new_dlistener scheme local" for l using that new_dlistener_inv by blast
  show "dl_inv l'" if "dl_inv l" "dl_step l l'" for l l' using dl_step_inv that by blast
qed

section \<open>Properties\<close>



text \<open>The limit that a dialer or listener gets is always one that a pipe can keep.\<close>

lemma dtls_setOption_limit:
  "0 < mr \<Longrightarrow> mr \<le> maxPayload \<Longrightarrow> dtls_setOption cfg mr started n v = ((cfg', mr'), e) \<Longrightarrow> 0 < mr' \<and> mr' \<le> maxPayload"
  by (auto simp: dtls_setOption_def maxPayload_def split: if_splits option.splits doptval.splits optval.splits)

end
