(* ===== verification/SocketFD.thy ===== *)
theory SocketFD
  imports StreamListeners
begin

text \<open>
  The transport for connected descriptors, \<^verbatim>\<open>transport/socket/socket.go\<close>: a listener without a
  listening socket, that is given connections through an option. Connections are numbered. Besides the
  fields of the code: \<open>sk_held\<close>, the connections that a \<^verbatim>\<open>Listen\<close> or \<^verbatim>\<open>SetOption\<close> still has to start,
  \<open>sk_toclose\<close>, those that \<^verbatim>\<open>Close\<close> still has to close, \<open>sk_cshut\<close>, those the listener closed,
  \<open>sk_conns\<close>, all it was given, and \<open>sk_done\<close>: \<^verbatim>\<open>Close\<close> has returned.
\<close>

record sklistener =
  sk_Self :: u16
  sk_Peer :: u16
  sk_hs :: handshaker
  sk_maxRecv :: int
  sk_active :: bool
  sk_closed :: bool
  sk_pending :: "nat list"
  sk_held :: "nat set"
  sk_toclose :: "nat set"
  sk_cshut :: "nat set"
  sk_conns :: "nat set"
  sk_done :: bool

definition new_sk :: "u16 \<Rightarrow> u16 \<Rightarrow> sklistener" where
  "new_sk self peer =
     \<lparr>sk_Self = self, sk_Peer = peer, sk_hs = NewConnHandshaker, sk_maxRecv = 0, sk_active = False, sk_closed = False,
      sk_pending = [], sk_held = {}, sk_toclose = {}, sk_cshut = {}, sk_conns = {}, sk_done = False\<rparr>"

definition sk_NewDialer :: "string \<Rightarrow> err + sdialer" where
  "sk_NewDialer addr = Inl ErrBadTran"

definition sk_NewListener :: "u16 \<Rightarrow> u16 \<Rightarrow> string \<Rightarrow> err + sklistener" where
  "sk_NewListener self peer addr =
     (case StripScheme (tran_of ''socket'') addr of
        (_, Some e) \<Rightarrow> Inl e
      | (path, None) \<Rightarrow> if path \<noteq> [] then Inl ErrBadAddr else Inr (new_sk self peer))"

definition sk_Address :: "sklistener \<Rightarrow> string" where
  "sk_Address l = ''socket://''"

definition sk_Listen_begin :: "sklistener \<Rightarrow> sklistener \<times> status" where
  "sk_Listen_begin l =
     (if sk_closed l then (l, Some ErrClosed)
      else if sk_active l then (l, Some ErrAddrInUse)
      else (l\<lparr>sk_active := True, sk_held := sk_held l \<union> set (sk_pending l), sk_pending := []\<rparr>, None))"

definition sk_start :: "nat \<Rightarrow> sklistener \<Rightarrow> sklistener" where
  "sk_start c l =
     (if sk_closed l then l\<lparr>sk_held := sk_held l - {c}, sk_cshut := insert c (sk_cshut l)\<rparr>
      else l\<lparr>sk_held := sk_held l - {c}, sk_hs := hs_Start c (sk_hs l)\<rparr>)"

text \<open>The pipe that \<^verbatim>\<open>start\<close> makes of the connection.\<close>

definition sk_pipe :: "netconn \<Rightarrow> sklistener \<Rightarrow> conn option" where
  "sk_pipe c l = endpoint_pipe (sk_maxRecv l) [] (sk_Self l) (sk_Peer l) c"

definition sk_Accept :: "sklistener \<Rightarrow> (sklistener \<times> nat option \<times> status) option" where
  "sk_Accept l =
     (if \<not> sk_active l \<or> sk_closed l then Some (l, None, Some ErrClosed)
      else map_option (\<lambda>(h, c, e). (l\<lparr>sk_hs := h\<rparr>, c, e)) (hs_Wait (sk_hs l)))"

definition sk_Close_begin :: "sklistener \<Rightarrow> sklistener" where
  "sk_Close_begin l =
     (if sk_closed l then l
      else l\<lparr>sk_closed := True, sk_toclose := sk_toclose l \<union> set (sk_pending l), sk_pending := []\<rparr>)"

definition sk_Close_conn :: "nat \<Rightarrow> sklistener \<Rightarrow> sklistener" where
  "sk_Close_conn c l = l\<lparr>sk_toclose := sk_toclose l - {c}, sk_cshut := insert c (sk_cshut l)\<rparr>"

definition sk_Close_end :: "sklistener \<Rightarrow> sklistener" where
  "sk_Close_end l = l\<lparr>sk_hs := hs_Close (sk_hs l), sk_done := True\<rparr>"

text \<open>\<open>net\<close> is \<^verbatim>\<open>net.FileConn\<close>.\<close>

definition FileConn :: "(int \<Rightarrow> err + nat) \<Rightarrow> int \<Rightarrow> err + nat" where
  "FileConn net fd = (if fd < 0 then Inl ErrBadValue else net fd)"

definition sk_SetOption :: "(int \<Rightarrow> err + nat) \<Rightarrow> string \<Rightarrow> optval \<Rightarrow> sklistener \<Rightarrow> sklistener \<times> status" where
  "sk_SetOption net n v l =
     (if n = OptionMaxRecvSize then
        (case asInt v of
           None \<Rightarrow> (l, Some ErrBadValue)
         | Some i \<Rightarrow> if i < 0 then (l, Some ErrBadValue) else (l\<lparr>sk_maxRecv := i\<rparr>, None))
      else if n = OptionSocketFD then
        (case asInt v of
           None \<Rightarrow> (l, Some ErrBadValue)
         | Some fd \<Rightarrow>
             (case FileConn net fd of
                Inl e \<Rightarrow> (l, Some e)
              | Inr c \<Rightarrow>
                  if sk_closed l then (l\<lparr>sk_cshut := insert c (sk_cshut l), sk_conns := insert c (sk_conns l)\<rparr>, Some ErrClosed)
                  else if sk_active l then (l\<lparr>sk_held := insert c (sk_held l), sk_conns := insert c (sk_conns l)\<rparr>, None)
                  else (l\<lparr>sk_pending := sk_pending l @ [c], sk_conns := insert c (sk_conns l)\<rparr>, None)))
      else (l, Some ErrBadOption))"

definition sk_GetOption :: "string \<Rightarrow> sklistener \<Rightarrow> err + optval" where
  "sk_GetOption n l = (if n \<noteq> OptionMaxRecvSize then Inl ErrBadOption else Inr (VInt (sk_maxRecv l)))"

section \<open>Runs\<close>

text \<open>\<^verbatim>\<open>FileConn\<close> takes over the descriptor, so each connection is a new one.\<close>

inductive sk_step :: "sklistener \<Rightarrow> sklistener \<Rightarrow> bool" where
  sk_set: "(\<And>fd c. net fd = Inr c \<Longrightarrow> c \<notin> sk_conns l) \<Longrightarrow> sk_step l (fst (sk_SetOption net n v l))"
| sk_listen: "sk_step l (fst (sk_Listen_begin l))"
| sk_start: "c \<in> sk_held l \<Longrightarrow> sk_step l (sk_start c l)"
| sk_accept: "sk_Accept l = Some (l', c, e) \<Longrightarrow> sk_step l l'"
| sk_worker: "c \<in> workq (sk_hs l) \<Longrightarrow> sk_step l (l\<lparr>sk_hs := hs_worker c e (sk_hs l)\<rparr>)"
| sk_close: "sk_step l (sk_Close_begin l)"
| sk_close_conn: "c \<in> sk_toclose l \<Longrightarrow> sk_step l (sk_Close_conn c l)"
| sk_close_end: "sk_closed l \<Longrightarrow> sk_toclose l = {} \<Longrightarrow> sk_step l (sk_Close_end l)"

definition sk_inv :: "sklistener \<Rightarrow> bool" where
  "sk_inv l \<longleftrightarrow> hs_inv (sk_hs l) \<and>
     sk_conns l = set (sk_pending l) \<union> sk_held l \<union> sk_toclose l \<union> sk_cshut l \<union> started (sk_hs l) \<and>
     (set (sk_pending l) \<union> sk_held l) \<inter> started (sk_hs l) = {} \<and>
     set (sk_pending l) \<inter> sk_held l = {} \<and> (sk_active l \<or> sk_closed l \<longrightarrow> sk_pending l = []) \<and>
     (sk_done l \<longrightarrow> sk_closed l \<and> sk_toclose l = {}) \<and> (sk_done l \<longleftrightarrow> h_closed (sk_hs l))"

lemma sk_inv_set:
  assumes "sk_inv l" "\<And>fd c. net fd = Inr c \<Longrightarrow> c \<notin> sk_conns l"
  shows "sk_inv (fst (sk_SetOption net n v l))"
proof -
  have fresh: "c \<notin> sk_conns l" if "FileConn net fd = Inr c" for fd c
    using assms(2) that by (auto simp: FileConn_def split: if_splits)
  have *: "sk_inv (l\<lparr>sk_maxRecv := i\<rparr>)" "c \<notin> sk_conns l \<Longrightarrow> sk_closed l \<Longrightarrow> sk_inv (l\<lparr>sk_cshut := insert c (sk_cshut l), sk_conns := insert c (sk_conns l)\<rparr>)"
    "c \<notin> sk_conns l \<Longrightarrow> \<not> sk_closed l \<Longrightarrow> sk_inv (l\<lparr>sk_held := insert c (sk_held l), sk_conns := insert c (sk_conns l)\<rparr>)"
    "c \<notin> sk_conns l \<Longrightarrow> \<not> sk_closed l \<Longrightarrow> \<not> sk_active l \<Longrightarrow> sk_inv (l\<lparr>sk_pending := sk_pending l @ [c], sk_conns := insert c (sk_conns l)\<rparr>)"
    for i c using assms(1) by (auto simp: sk_inv_def)
  show ?thesis using assms(1) fresh by (simp add: sk_SetOption_def * split: option.split sum.split)
qed

lemma sk_step_inv:
  assumes "sk_step l l'" and inv: "sk_inv l"
  shows "sk_inv l'"
  using assms(1)
proof cases
  case (sk_set net n v)
  then show ?thesis using sk_inv_set [OF inv] by blast
next
  case (sk_start c)
  then show ?thesis using inv by (auto simp: sk_inv_def sk_start_def intro: hs_inv_ops)
next
  case (sk_accept c e)
  show ?thesis
  proof (cases "\<not> sk_active l \<or> sk_closed l")
    case False
    then obtain h where h: "hs_Wait (sk_hs l) = Some (h, c, e)" "l' = l\<lparr>sk_hs := h\<rparr>" using sk_accept by (auto simp: sk_Accept_def)
    from hs_Wait_simps [OF h(1)] hs_step_inv [OF hs_wait [OF h(1)]] inv show ?thesis by (simp add: sk_inv_def h(2))
  qed (use sk_accept inv in \<open>auto simp: sk_Accept_def\<close>)
next
  case (sk_worker c e)
  then show ?thesis using inv by (simp add: sk_inv_def hs_inv_ops)
next
  case sk_close_end
  then show ?thesis using inv by (auto simp: sk_inv_def sk_Close_end_def hs_inv_ops)
qed (use inv in \<open>auto simp: sk_inv_def sk_Listen_begin_def sk_Close_begin_def sk_Close_conn_def\<close>)

interpretation sk: machine "\<lambda>l. \<exists>self peer. l = new_sk self peer" sk_step sk_inv
proof
  show "sk_inv l" if "\<exists>self peer. l = new_sk self peer" for l
    using that by (elim exE) (simp add: new_sk_def sk_inv_def NewConnHandshaker_def hs_inv_def waiting_def List.map_filter_def)
qed (blast dest: sk_step_inv)


section \<open>Properties\<close>

text \<open>
  No connection is lost. In every run each connection the listener was ever given waits for \<^verbatim>\<open>Listen\<close>, is
  held by a call that is about to start it, was started, or is closed; once \<^verbatim>\<open>Close\<close> has returned none
  waits, what was not returned by \<^verbatim>\<open>Accept\<close> is closed, under a worker that closes it, or held by a
  call that will close it, and no handshake starts any more.
\<close>

theorem socket_listener_Close:
  assumes "sk_step\<^sup>*\<^sup>* (new_sk self peer) l" and "sk_done l"
  shows "sk_conns l \<subseteq> set (given (sk_hs l)) \<union> shut (sk_hs l) \<union> sk_cshut l \<union> sk_held l \<union> workq (sk_hs l) \<and>
    (\<forall>c. sk_hs (sk_start c l) = sk_hs l \<and> c \<in> sk_cshut (sk_start c l)) \<and>
    sk_Accept l = Some (l, None, Some ErrClosed) \<and> snd (sk_Listen_begin l) = Some ErrClosed"
proof -
  have inv: "sk_inv l" using sk.reachable_inv [OF _ assms(1)] by blast
  then have h: "h_closed (sk_hs l)" "sk_closed l" "sk_toclose l = {}" "sk_pending l = []" using assms(2) by (auto simp: sk_inv_def)
  have "started (sk_hs l) \<subseteq> workq (sk_hs l) \<union> set (given (sk_hs l)) \<union> shut (sk_hs l)"
    using inv h(1) by (auto simp: sk_inv_def hs_inv_def)
  then show ?thesis using inv h by (auto simp: sk_inv_def sk_start_def sk_Accept_def sk_Listen_begin_def)
qed

lemma sk_options_typed:
  "typed (opt_type n v) (sk_SetOption net n v l)" "sk_GetOption n l = Inr v \<Longrightarrow> opt_type n v"
proof -
  have t: "opt_type OptionSocketFD v \<longleftrightarrow> asInt v \<noteq> None" by (simp add: opt_type_def option_names)
  show "typed (opt_type n v) (sk_SetOption net n v l)"
    by (simp add: sk_SetOption_def clean_typed_pair opt_type_simps t split: option.split sum.split)
  show "sk_GetOption n l = Inr v \<Longrightarrow> opt_type n v" by (auto simp: sk_GetOption_def opt_type_simps split: if_splits)
qed

text \<open>A descriptor that comes before \<^verbatim>\<open>Listen\<close> waits; after \<^verbatim>\<open>Close\<close> it is closed and refused.\<close>

lemma sk_SetOption_fd:
  assumes "net fd = Inr c" "0 \<le> fd"
  shows "sk_closed l \<Longrightarrow> snd (sk_SetOption net OptionSocketFD (VInt fd) l) = Some ErrClosed \<and>
      c \<in> sk_cshut (fst (sk_SetOption net OptionSocketFD (VInt fd) l))"
    and "\<not> sk_closed l \<Longrightarrow> \<not> sk_active l \<Longrightarrow>
      sk_pending (fst (sk_SetOption net OptionSocketFD (VInt fd) l)) = sk_pending l @ [c]"
  using assms by (simp_all add: sk_SetOption_def FileConn_def option_names)

end
