(* ===== verification/Ws.thy ===== *)
theory Ws
  imports StreamEnds
begin

text \<open>
  The WebSocket transports, \<^verbatim>\<open>transport/ws/ws.go\<close> and \<^verbatim>\<open>transport/wss/wss.go\<close>: options, pipes, dialing, the
  HTTP handler and the listener. The WebSocket library, \<^verbatim>\<open>net/http\<close>, \<^verbatim>\<open>net/url\<close> and TLS are arguments: what
  a read, a write, a dial or an upgrade answers, and the parsed address. Lock regions are atomic. Header
  values are ASCII, so \<^verbatim>\<open>strings.TrimSpace\<close> removes the six ASCII white space characters.
\<close>

section \<open>Options\<close>

type_synonym wsopts = "string \<rightharpoonup> optval"

definition ws_get :: "string \<Rightarrow> wsopts \<Rightarrow> err + optval" where
  "ws_get n o1 =
     (if n = OptionNoDelay then Inr (VBool True)
      else case o1 n of None \<Rightarrow> Inl ErrBadOption | Some v \<Rightarrow> Inr v)"

definition ws_set :: "string \<Rightarrow> optval \<Rightarrow> wsopts \<Rightarrow> wsopts \<times> status" where
  "ws_set n v o1 =
     (if n = OptionNoDelay then set_field (asBool v) (\<lambda>_ o1. o1) o1
      else if n = OptionWebSocketCheckOrigin \<or> n = OptionWebSocketFollowRedirects
        then set_field (asBool v) (\<lambda>b o1. o1(n \<mapsto> VBool b)) o1
      else if n = OptionTLSConfig then set_field (asTLS v) (\<lambda>c o1. o1(n \<mapsto> VTLS c)) o1
      else if n = OptionMaxRecvSize then set_field (asInt v) (\<lambda>i o1. o1(n \<mapsto> VInt i)) o1
      else (o1, Some ErrBadOption))"

definition wsReadLimit :: "int \<Rightarrow> int" where
  "wsReadLimit limit = (if limit \<le> 0 then - 1 else limit)"

text \<open>What the code keeps true of an option map: the stored values have their types.\<close>

definition ws_typed :: "wsopts \<Rightarrow> bool" where
  "ws_typed o1 \<longleftrightarrow> (\<forall>n v. o1 n = Some v \<longrightarrow> opt_type n v)"

lemma ws_opt_type:
  "opt_type OptionNoDelay v \<longleftrightarrow> asBool v \<noteq> None" "opt_type OptionWebSocketCheckOrigin v \<longleftrightarrow> asBool v \<noteq> None"
  "opt_type OptionWebSocketFollowRedirects v \<longleftrightarrow> asBool v \<noteq> None" "opt_type OptionTLSConfig v \<longleftrightarrow> asTLS v \<noteq> None"
  "opt_type OptionMaxRecvSize v \<longleftrightarrow> asInt v \<noteq> None"
  by (simp_all add: opt_type_def option_names)

lemma ws_set_cases:
  "fst (ws_set n v o1) = o1 \<and> snd (ws_set n v o1) \<noteq> None \<or>
   snd (ws_set n v o1) = None \<and> opt_type n v \<and> fst (ws_set n v o1) = (if n = OptionNoDelay then o1 else o1(n \<mapsto> v))"
  by (cases v) (auto simp: ws_set_def set_field_def ws_opt_type)

lemma ws_set_typed: "ws_typed o1 \<Longrightarrow> ws_typed (fst (ws_set n v o1))"
  using ws_set_cases [of n v o1] unfolding ws_typed_def by (auto split: if_splits)

interpretation ws_options: tran_options ws_set ws_get "{OptionNoDelay}" "{}" ws_typed
proof
  fix n k v and o1 :: wsopts
  note c = ws_set_cases [of n v o1]
  show "ws_typed (fst (ws_set n v o1))" if "ws_typed o1" using that by (rule ws_set_typed)
  show "fst (ws_set n v o1) = o1" if "snd (ws_set n v o1) \<noteq> None" using that c by metis
  show "opt_type n v" if "snd (ws_set n v o1) = None" using that c by metis
  show "opt_type n v" if "ws_typed o1" "ws_get n o1 = Inr v"
    using that by (auto simp: ws_get_def ws_typed_def ws_opt_type split: if_splits option.splits)
  show "ws_get n (fst (ws_set n v o1)) = Inr v" if "snd (ws_set n v o1) = None" "ws_get n o1 \<noteq> Inl ErrBadOption" "n \<notin> {OptionNoDelay}"
    using that c by (auto simp: ws_get_def)
  show "ws_get k (fst (ws_set n v o1)) = ws_get k o1" if "k \<noteq> n" using that c by (auto simp: ws_get_def)
qed

section \<open>Pipes\<close>

record wspipe =
  w_addr :: string
  w_open :: bool
  w_cancelled :: bool
  w_wsclosed :: bool
  w_wg :: int
  w_limit :: int
  w_options :: wsopts

text \<open>\<open>rd\<close> is the answer of \<^verbatim>\<open>ws.Read\<close>, \<open>wr\<close> that of \<^verbatim>\<open>ws.Write\<close>; \<open>k\<close> the choice of the message pool.\<close>

definition ws_Recv :: "err + bytes \<Rightarrow> nat \<Rightarrow> mheap \<Rightarrow> (err + nat) \<times> mheap" where
  "ws_Recv rd k h =
     (case rd of
        Inl e \<Rightarrow> (Inl e, h)
      | Inr body \<Rightarrow> (let (r, h1) = NewMessage 0 k h in (Inr r, upd_obj r (\<lambda>x. x\<lparr>o_Body := body\<rparr>) h1)))"

definition ws_Send :: "(bytes \<Rightarrow> status) \<Rightarrow> nat \<Rightarrow> mheap \<Rightarrow> status \<times> mheap" where
  "ws_Send wr m h =
     (let buf = content h m
      in case wr buf of Some e \<Rightarrow> (Some e, h) | None \<Rightarrow> (None, Message_Free (Some m) h))"

text \<open>\<^verbatim>\<open>wg.Done\<close> takes one from the counter; below zero it panics.\<close>

definition ws_pipe_Close :: "wspipe \<Rightarrow> wspipe" where
  "ws_pipe_Close w =
     (if w_open w then w\<lparr>w_open := False, w_cancelled := True, w_wsclosed := True, w_wg := w_wg w - 1\<rparr> else w)"

definition ws_pipe_GetOption :: "string \<Rightarrow> wspipe \<Rightarrow> err + optval" where
  "ws_pipe_GetOption n w = (case w_options w n of Some v \<Rightarrow> Inr v | None \<Rightarrow> Inl ErrBadOption)"

definition new_wspipe :: "string \<Rightarrow> int \<Rightarrow> wsopts \<Rightarrow> wspipe" where
  "new_wspipe a lim o1 =
     \<lparr>w_addr = a, w_open = True, w_cancelled = False, w_wsclosed = False, w_wg = 1, w_limit = lim, w_options = o1\<rparr>"

definition conn_options :: "optval option \<Rightarrow> optval option \<Rightarrow> optval option \<Rightarrow> wsopts" where
  "conn_options la ra st =
     Map.empty(OptionLocalAddr := la, OptionRemoteAddr := ra, OptionTLSConnState := st)"

definition ws_maxrx :: "wsopts \<Rightarrow> int" where
  "ws_maxrx o1 =
     (case ws_get OptionMaxRecvSize o1 of Inl _ \<Rightarrow> 0 | Inr v \<Rightarrow> (case asInt v of Some i \<Rightarrow> i | None \<Rightarrow> 0))"

section \<open>Dialers\<close>

record wsdialer =
  wd_addr :: string
  wd_PeerName :: string
  wd_opts :: wsopts
  wd_iswss :: bool

definition sp_suffix :: string where "sp_suffix = ''.sp.nanomsg.org''"

definition ws_NewDialer :: "string \<Rightarrow> string \<Rightarrow> err + wsdialer" where
  "ws_NewDialer peer addr =
     (let o1 = [OptionNoDelay \<mapsto> VBool True, OptionMaxRecvSize \<mapsto> VInt 0, OptionWebSocketFollowRedirects \<mapsto> VBool False]
      in if starts_with ''wss://'' addr then Inr \<lparr>wd_addr = addr, wd_PeerName = peer, wd_opts = o1, wd_iswss = True\<rparr>
         else if \<not> starts_with ''ws://'' addr then Inl ErrBadTran
         else Inr \<lparr>wd_addr = addr, wd_PeerName = peer, wd_opts = o1, wd_iswss = False\<rparr>)"

definition ws_dialer_SetOption :: "string \<Rightarrow> optval \<Rightarrow> wsdialer \<Rightarrow> wsdialer \<times> status" where
  "ws_dialer_SetOption n v d = (case ws_set n v (wd_opts d) of (o1, e) \<Rightarrow> (d\<lparr>wd_opts := o1\<rparr>, e))"

definition ws_dialer_GetOption :: "string \<Rightarrow> wsdialer \<Rightarrow> err + optval" where
  "ws_dialer_GetOption n d = ws_get n (wd_opts d)"

text \<open>
  \<open>None\<close> is a panic: one of the two type assertions failed. \<open>dial\<close> is \<^verbatim>\<open>websocket.Dial\<close>: it gets the TLS
  configuration, whether redirects are followed, and the subprotocol, and answers with an error (and
  whether there was a response), or with what is known of the connection: its addresses and TLS state.
\<close>

definition ws_Dial ::
    "(tlsconf option option \<Rightarrow> bool \<Rightarrow> string \<Rightarrow> err \<times> bool + (optval \<times> optval \<times> optval option) option) \<Rightarrow> wsdialer \<Rightarrow>
     (err + wspipe) option" where
  "ws_Dial dial d =
     (case (case wd_opts d OptionTLSConfig of None \<Rightarrow> Some None | Some v \<Rightarrow> map_option Some (asTLS v)) of
        None \<Rightarrow> None
      | Some tls \<Rightarrow>
          (case (case ws_get OptionWebSocketFollowRedirects (wd_opts d) of Inl _ \<Rightarrow> None | Inr v \<Rightarrow> asBool v) of
             None \<Rightarrow> None
           | Some follow \<Rightarrow>
               (case dial tls follow (wd_PeerName d @ sp_suffix) of
                  Inl (e, resp) \<Rightarrow> Some (Inl (if resp then ErrBadProto else e))
                | Inr None \<Rightarrow> Some (Inl (ErrExternal 5))
                | Inr (Some (la, ra, st)) \<Rightarrow>
                    Some (Inr (new_wspipe (wd_addr d) (wsReadLimit (ws_maxrx (wd_opts d))) (conn_options (Some la) (Some ra) st))))))"

section \<open>Listeners\<close>

text \<open>
  The parsed address, \<^verbatim>\<open>*url.URL\<close>: scheme, host name, port and path. Pipes are numbered in the order the
  handler makes them; \<open>wl_given\<close> are those that \<^verbatim>\<open>Accept\<close> returned, \<open>wl_sock\<close> the listening socket,
  \<open>wl_late\<close> says that the handler made a pipe after \<^verbatim>\<open>Close\<close>.
\<close>

record wsurl =
  u_scheme :: string
  u_hostname :: string
  u_port :: string
  u_path :: string

record wslistener =
  wl_addr :: string
  wl_SelfName :: string
  wl_url :: wsurl
  wl_iswss :: bool
  wl_opts :: wsopts
  wl_skipverify :: bool
  wl_running :: bool
  wl_noserve :: bool
  wl_closed :: bool
  wl_anon :: bool
  wl_bound :: "string option"
  wl_sock :: bool
  wl_pending :: "nat list"
  wl_pipes :: "nat \<Rightarrow> wspipe"
  wl_next :: nat
  wl_given :: "nat list"
  wl_late :: bool

definition url_host :: "wsurl \<Rightarrow> string" where
  "url_host u = u_hostname u @ (if u_port u = [] then [] else CHR '':'' # u_port u)"

definition url_String :: "wsurl \<Rightarrow> string" where
  "url_String u = u_scheme u @ ''://'' @ url_host u @ u_path u"

definition ws_listener :: "(string \<Rightarrow> err + wsurl) \<Rightarrow> string \<Rightarrow> string \<Rightarrow> err + wslistener" where
  "ws_listener parse self addr =
     (if \<not> starts_with ''wss://'' addr \<and> \<not> starts_with ''ws://'' addr then Inl ErrBadTran
      else
        case parse addr of
          Inl e \<Rightarrow> Inl e
        | Inr u \<Rightarrow>
            Inr \<lparr>wl_addr = addr, wl_SelfName = self, wl_url = (if u_path u = [] then u\<lparr>u_path := ''/''\<rparr> else u),
                 wl_iswss = starts_with ''wss://'' addr,
                 wl_opts = [OptionMaxRecvSize \<mapsto> VInt 0, OptionWebSocketFollowRedirects \<mapsto> VBool False],
                 wl_skipverify = False, wl_running = False, wl_noserve = False, wl_closed = False, wl_anon = False, wl_bound = None,
                 wl_sock = False, wl_pending = [], wl_pipes = (\<lambda>_. new_wspipe [] 0 Map.empty), wl_next = 0, wl_given = [],
                 wl_late = False\<rparr>)"

text \<open>\<^verbatim>\<open>wss.go\<close> hands both constructors to those of \<^verbatim>\<open>ws.go\<close>.\<close>

definition wss_NewDialer :: "string \<Rightarrow> string \<Rightarrow> err + wsdialer" where
  "wss_NewDialer peer addr = ws_NewDialer peer addr"

definition wss_NewListener :: "(string \<Rightarrow> err + wsurl) \<Rightarrow> string \<Rightarrow> string \<Rightarrow> err + wslistener" where
  "wss_NewListener parse self addr = ws_listener parse self addr"

definition OptionWebSocketMux :: string where [option_names]: "OptionWebSocketMux = ''WEBSOCKET-MUX''"
definition OptionWebSocketHandler :: string where [option_names]: "OptionWebSocketHandler = ''WEBSOCKET-HANDLER''"

definition ws_listener_SetOption :: "string \<Rightarrow> optval \<Rightarrow> wslistener \<Rightarrow> wslistener \<times> status" where
  "ws_listener_SetOption n v l =
     (let l1 = (if n = OptionWebSocketCheckOrigin
                then (case asBool v of Some b \<Rightarrow> l\<lparr>wl_skipverify := \<not> b\<rparr> | None \<Rightarrow> l)
                else l)
      in case ws_set n v (wl_opts l1) of (o1, e) \<Rightarrow> (l1\<lparr>wl_opts := o1\<rparr>, e))"

definition ws_listener_GetOption :: "string \<Rightarrow> wslistener \<Rightarrow> wslistener \<times> (err + optval)" where
  "ws_listener_GetOption n l =
     (if n = OptionWebSocketMux then (l, Inr (VOther 1))
      else if n = OptionWebSocketHandler then (l\<lparr>wl_running := True, wl_noserve := True\<rparr>, Inr (VOther 2))
      else if n = OptionWebSocketCheckOrigin then
        (l, (case ws_get n (wl_opts l) of
               Inl _ \<Rightarrow> Inr (VBool True)
             | Inr v \<Rightarrow> (case asBool v of Some b \<Rightarrow> Inr (VBool b) | None \<Rightarrow> Inr (VBool True))))
      else (l, ws_get n (wl_opts l)))"

text \<open>
  \<^verbatim>\<open>Listen\<close>, \<open>None\<close> for a panic. The interface value of a nil \<^verbatim>\<open>*tls.Config\<close> is not nil, so the test does
  not catch it and reading \<^verbatim>\<open>tcfg.Certificates\<close> panics. \<open>listen\<close> resolves the host and listens on it: it
  answers with an error or whether the port was zero, and the port that was bound.
\<close>

definition wss_config :: "wslistener \<Rightarrow> status option" where
  "wss_config l =
     (if \<not> wl_iswss l then Some None
      else
        case wl_opts l OptionTLSConfig of
          None \<Rightarrow> Some (Some ErrTLSNoConfig)
        | Some v \<Rightarrow>
            (case asTLS v of
               None \<Rightarrow> None
             | Some None \<Rightarrow> None
             | Some (Some cfg) \<Rightarrow> Some (if tls_ncerts cfg = 0 then Some ErrTLSNoCert else None)))"

definition ws_Listen :: "(string \<Rightarrow> err + bool \<times> string) \<Rightarrow> wslistener \<Rightarrow> (wslistener \<times> status) option" where
  "ws_Listen listen l =
     (if wl_closed l then Some (l, Some ErrClosed)
      else if wl_noserve l then Some (l, None)
      else
        case wss_config l of
          None \<Rightarrow> None
        | Some (Some e) \<Rightarrow> Some (l, Some e)
        | Some None \<Rightarrow>
            (case listen (url_host (wl_url l)) of
               Inl e \<Rightarrow> Some (l, Some e)
             | Inr (port0, bound) \<Rightarrow>
                 Some (l\<lparr>wl_anon := (wl_anon l \<or> port0), wl_sock := True, wl_pending := [], wl_running := True,
                         wl_bound := Some bound\<rparr>, None)))"

text \<open>\<^verbatim>\<open>Accept\<close> takes the newest pipe; \<open>None\<close>: it waits.\<close>

definition ws_Accept :: "wslistener \<Rightarrow> (wslistener \<times> (err + nat)) option" where
  "ws_Accept l =
     (if \<not> wl_running l then Some (l, Inl ErrClosed)
      else if wl_pending l = [] then None
      else Some (l\<lparr>wl_pending := butlast (wl_pending l), wl_given := wl_given l @ [last (wl_pending l)]\<rparr>, Inr (last (wl_pending l))))"

definition ws_handler :: "optval option \<Rightarrow> optval option \<Rightarrow> optval option \<Rightarrow> wslistener \<Rightarrow> wslistener" where
  "ws_handler la ra st l =
     l\<lparr>wl_pending := wl_pending l @ [wl_next l],
       wl_pipes := (wl_pipes l)(wl_next l := new_wspipe (wl_addr l) (wsReadLimit (ws_maxrx (wl_opts l))) (conn_options la ra st)),
       wl_next := Suc (wl_next l), wl_late := (wl_late l \<or> wl_closed l)\<rparr>"

definition ws_Close :: "wslistener \<Rightarrow> wslistener \<times> status" where
  "ws_Close l =
     (if wl_closed l then (l, Some ErrClosed)
      else (l\<lparr>wl_sock := False, wl_closed := True, wl_running := False,
              wl_pipes := fold (\<lambda>p f. f(p := ws_pipe_Close (f p))) (wl_pending l) (wl_pipes l), wl_pending := []\<rparr>, None))"

definition ws_Address :: "wslistener \<Rightarrow> wslistener \<times> string" where
  "ws_Address l =
     (if wl_anon l
      then (let u = (wl_url l)\<lparr>u_port := (case wl_bound l of Some b \<Rightarrow> b | None \<Rightarrow> [])\<rparr> in (l\<lparr>wl_url := u\<rparr>, url_String u))
      else (l, url_String (wl_url l)))"

section \<open>The HTTP handler\<close>

fun split_comma :: "string \<Rightarrow> string list" where
  "split_comma [] = [[]]"
| "split_comma (c # cs) =
     (if c = CHR '','' then [] # split_comma cs
      else (case split_comma cs of w # ws \<Rightarrow> (c # w) # ws | [] \<Rightarrow> [[c]]))"

definition is_space :: "char \<Rightarrow> bool" where
  "is_space c \<longleftrightarrow> (of_char c :: nat) \<in> {9, 10, 11, 12, 13, 32}"

definition TrimSpace :: "string \<Rightarrow> string" where
  "TrimSpace s = rev (dropWhile is_space (rev (dropWhile is_space s)))"

text \<open>\<^verbatim>\<open>ServeHTTP\<close> up to the upgrade: the status code of a refusal, or none.\<close>

definition ServeHTTP :: "string list \<Rightarrow> string \<Rightarrow> wslistener \<Rightarrow> nat option" where
  "ServeHTTP protocols version l =
     (if \<not> (\<exists>v\<in>set protocols. \<exists>p\<in>set (split_comma v). TrimSpace p = wl_SelfName l @ sp_suffix) then Some 400
      else if version \<noteq> ''13'' then Some 400
      else if \<not> wl_running l then Some 404
      else None)"

section \<open>Runs of a listener\<close>

text \<open>
  The core calls \<^verbatim>\<open>Listen\<close> again only when it failed. The handler makes a pipe when \<^verbatim>\<open>ServeHTTP\<close> found the
  listener running and the upgrade succeeded; the listener may have been closed meanwhile. Pipes
  that \<^verbatim>\<open>Accept\<close> returned are closed by their user.
\<close>

inductive ws_step :: "wslistener \<Rightarrow> wslistener \<Rightarrow> bool" where
  wl_set: "ws_step l (fst (ws_listener_SetOption n v l))"
| wl_get: "ws_step l (fst (ws_listener_GetOption n l))"
| wl_listen: "\<not> wl_running l \<or> wl_noserve l \<Longrightarrow> ws_Listen listen l = Some (l', e) \<Longrightarrow> ws_step l l'"
| wl_accept: "ws_Accept l = Some (l', r) \<Longrightarrow> ws_step l l'"
| wl_handler: "wl_running l \<or> wl_closed l \<Longrightarrow> ws_step l (ws_handler la ra st l)"
| wl_pipe_close: "p \<in> set (wl_given l) \<Longrightarrow> ws_step l (l\<lparr>wl_pipes := (wl_pipes l)(p := ws_pipe_Close (wl_pipes l p))\<rparr>)"
| wl_close: "ws_step l (fst (ws_Close l))"
| wl_address: "ws_step l (fst (ws_Address l))"

definition wspipe_ok :: "wspipe \<Rightarrow> bool" where
  "wspipe_ok w \<longleftrightarrow> w_wg w = (if w_open w then 1 else 0) \<and> (w_open w \<longleftrightarrow> \<not> w_wsclosed w) \<and> (w_open w \<longleftrightarrow> \<not> w_cancelled w)"

definition ws_inv :: "wslistener \<Rightarrow> bool" where
  "ws_inv l \<longleftrightarrow> ws_typed (wl_opts l) \<and> distinct (wl_pending l @ wl_given l) \<and>
     set (wl_pending l) \<union> set (wl_given l) \<subseteq> {..<wl_next l} \<and>
     (\<forall>p < wl_next l. wspipe_ok (wl_pipes l p)) \<and>
     (\<forall>p\<in>set (wl_pending l). w_open (wl_pipes l p)) \<and>
     (\<forall>p < wl_next l. w_open (wl_pipes l p) \<longrightarrow> p \<in> set (wl_pending l) \<union> set (wl_given l)) \<and>
     (wl_closed l \<and> \<not> wl_late l \<longrightarrow> wl_pending l = []) \<and> (\<not> wl_running l \<and> \<not> wl_closed l \<longrightarrow> wl_pending l = []) \<and>
     (wl_sock l \<longrightarrow> \<not> wl_closed l)"

lemma wspipe_ok_Close [simp]: "wspipe_ok w \<Longrightarrow> wspipe_ok (ws_pipe_Close w)" "\<not> w_open (ws_pipe_Close w)"
  by (auto simp: wspipe_ok_def ws_pipe_Close_def)

lemma wspipe_ok_new [simp]: "wspipe_ok (new_wspipe a lim o1)" "w_open (new_wspipe a lim o1)"
  by (simp_all add: wspipe_ok_def new_wspipe_def)

lemma fold_close:
  "distinct ps \<Longrightarrow> fold (\<lambda>p f. f(p := ws_pipe_Close (f p))) ps f q = (if q \<in> set ps then ws_pipe_Close (f q) else f q)"
  by (induction ps arbitrary: f) auto

lemma ws_inv_opts: "ws_inv l \<Longrightarrow> ws_typed o1 \<Longrightarrow> ws_inv (l\<lparr>wl_skipverify := b, wl_opts := o1\<rparr>)"
  by (simp add: ws_inv_def)

lemma ws_inv_set:
  assumes "ws_inv l"
  shows "ws_inv (fst (ws_listener_SetOption n v l))"
proof -
  have t: "ws_typed (fst (ws_set n v (wl_opts l)))" using assms by (simp add: ws_inv_def ws_set_typed)
  have "\<exists>b. fst (ws_listener_SetOption n v l) = l\<lparr>wl_skipverify := b, wl_opts := fst (ws_set n v (wl_opts l))\<rparr>"
  proof (cases "n = OptionWebSocketCheckOrigin \<and> asBool v \<noteq> None")
    case True
    then show ?thesis by (auto simp: ws_listener_SetOption_def split: prod.split)
  next
    case False
    then have "fst (ws_listener_SetOption n v l) = l\<lparr>wl_skipverify := wl_skipverify l, wl_opts := fst (ws_set n v (wl_opts l))\<rparr>"
      by (auto simp: ws_listener_SetOption_def Let_def split: prod.split option.split)
    then show ?thesis ..
  qed
  then show ?thesis using ws_inv_opts [OF assms t] by metis
qed

lemma ws_inv_close: "ws_inv l \<Longrightarrow> ws_inv (fst (ws_Close l))"
  by (auto simp: ws_Close_def ws_inv_def fold_close)

lemma ws_Accept_cases:
  assumes "ws_Accept l = Some (l', r)"
  obtains "l' = l" "r = Inl ErrClosed" "\<not> wl_running l"
    | ps p where "wl_running l" "wl_pending l = ps @ [p]" "l' = l\<lparr>wl_pending := ps, wl_given := wl_given l @ [p]\<rparr>" "r = Inr p"
proof (cases "wl_pending l" rule: rev_cases)
  case Nil
  then show thesis using assms that(1) by (auto simp: ws_Accept_def split: if_splits)
next
  case (snoc ps p)
  then show thesis using assms that by (auto simp: ws_Accept_def split: if_splits)
qed

lemma ws_step_inv: "ws_step l l' \<Longrightarrow> ws_inv l \<Longrightarrow> ws_inv l'"
proof (induction rule: ws_step.induct)
  case (wl_get l n)
  then show ?case by (auto simp: ws_listener_GetOption_def ws_inv_def)
next
  case (wl_listen l listen l' e)
  then show ?case by (auto simp: ws_Listen_def ws_inv_def split: if_splits option.splits sum.splits prod.splits)
next
  case (wl_accept l l' r)
  from wl_accept(1) show ?case
  proof (cases rule: ws_Accept_cases)
    case (2 ps p)
    then show ?thesis using wl_accept(2) by (auto simp: ws_inv_def)
  qed (use wl_accept in simp)
next
  case (wl_handler l la ra st)
  then show ?case by (auto simp: ws_handler_def ws_inv_def less_Suc_eq)
next
  case (wl_pipe_close p l)
  then show ?case by (auto simp: ws_inv_def)
next
  case (wl_address l)
  then show ?case by (simp add: ws_Address_def ws_inv_def Let_def)
qed (simp_all add: ws_inv_set ws_inv_close)

interpretation ws: machine "\<lambda>l. \<exists>parse self addr. ws_listener parse self addr = Inr l" ws_step ws_inv
proof
  show "ws_inv l" if "\<exists>parse self addr. ws_listener parse self addr = Inr l" for l
    using that by (auto simp: ws_listener_def ws_inv_def ws_typed_def ws_opt_type split: if_splits sum.splits)
  show "ws_inv l'" if "ws_inv l" "ws_step l l'" for l l' using ws_step_inv that by blast
qed

section \<open>Properties\<close>


definition demo_url :: wsurl where
  "demo_url = \<lparr>u_scheme = ''ws'', u_hostname = ''h'', u_port = ''80'', u_path = ''/x''\<rparr>"

definition wsl0 :: wslistener where
  "wsl0 = (case ws_listener (\<lambda>_. Inr demo_url) ''rep'' ''ws://h:80/x'' of Inr l \<Rightarrow> l | Inl _ \<Rightarrow> undefined)"

lemma wsl0: "ws_listener (\<lambda>_. Inr demo_url) ''rep'' ''ws://h:80/x'' = Inr wsl0"
  by (simp add: wsl0_def ws_listener_def starts_with_def)

lemmas wsl0_eval = wsl0_def ws_listener_def starts_with_def demo_url_def ws_listener_GetOption_def ws_handler_def ws_Close_def
  option_names fold_close

definition wsl_late :: wslistener where
  "wsl_late = ws_handler None None None (fst (ws_Close (fst (ws_listener_GetOption OptionWebSocketHandler wsl0))))"

lemma wsl_late_run: "ws_step\<^sup>*\<^sup>* wsl0 wsl_late"
proof -
  let ?l1 = "fst (ws_listener_GetOption OptionWebSocketHandler wsl0)"
  have "ws_step wsl0 ?l1" by (rule wl_get)
  moreover have "ws_step ?l1 (fst (ws_Close ?l1))" by (rule wl_close)
  moreover have "ws_step (fst (ws_Close ?l1)) wsl_late" unfolding wsl_late_def by (rule wl_handler) (simp add: wsl0_eval)
  ultimately show ?thesis by (meson converse_rtranclp_into_rtranclp r_into_rtranclp)
qed

text \<open>
  A request that was being upgraded when the listener was closed strands its pipe: it is open and pending,
  nobody will accept it, and closing the listener again does not close it.
\<close>

lemma ws_handler_after_Close_strands:
  "wl_closed wsl_late \<and> wl_pending wsl_late = [0] \<and> w_open (wl_pipes wsl_late 0) \<and>
   ws_Accept wsl_late = Some (wsl_late, Inl ErrClosed) \<and> ws_Close wsl_late = (wsl_late, Some ErrClosed)"
  by (simp add: wsl_late_def wsl0_eval ws_Accept_def)


text \<open>
  Dialing never panics: whatever options were set in whatever order, both type assertions of \<^verbatim>\<open>Dial\<close>
  hold, and the pipe reads with the limit that \<^verbatim>\<open>OptionMaxRecvSize\<close> has, or without one when it is not positive.
\<close>

definition wsd_ok :: "wsdialer \<Rightarrow> bool" where
  "wsd_ok d \<longleftrightarrow> ws_typed (wd_opts d) \<and> OptionWebSocketFollowRedirects \<in> dom (wd_opts d)"

interpretation ws_dialer: tran_options ws_dialer_SetOption ws_dialer_GetOption "{OptionNoDelay}" "{}" wsd_ok
proof
  fix n k v and d :: wsdialer
  have f: "ws_dialer_SetOption n v d = (d\<lparr>wd_opts := fst (ws_set n v (wd_opts d))\<rparr>, snd (ws_set n v (wd_opts d)))"
    by (simp add: ws_dialer_SetOption_def split: prod.split)
  have "dom (wd_opts d) \<subseteq> dom (fst (ws_set n v (wd_opts d)))" using ws_set_cases [of n v "wd_opts d"] by auto
  then show "wsd_ok (fst (ws_dialer_SetOption n v d))" if "wsd_ok d" using that ws_set_typed by (auto simp: wsd_ok_def f)
  show "fst (ws_dialer_SetOption n v d) = d" if "snd (ws_dialer_SetOption n v d) \<noteq> None"
    using that ws_options.set_error [of n v "wd_opts d"] by (simp add: f)
  show "opt_type n v" if "snd (ws_dialer_SetOption n v d) = None" using that ws_options.set_typed by (simp add: f)
  show "opt_type n v" if "wsd_ok d" "ws_dialer_GetOption n d = Inr v"
    using that ws_options.get_typed [of "wd_opts d"] by (auto simp: wsd_ok_def ws_dialer_GetOption_def)
  show "ws_dialer_GetOption n (fst (ws_dialer_SetOption n v d)) = Inr v"
    if "snd (ws_dialer_SetOption n v d) = None" "ws_dialer_GetOption n d \<noteq> Inl ErrBadOption" "n \<notin> {OptionNoDelay}"
    using that ws_options.set_get by (simp add: f ws_dialer_GetOption_def)
  show "ws_dialer_GetOption k (fst (ws_dialer_SetOption n v d)) = ws_dialer_GetOption k d" if "k \<noteq> n"
    using that ws_options.set_other by (simp add: f ws_dialer_GetOption_def)
qed

theorem ws_Dial_never_panics:
  assumes "wsd_ok d"
  shows "\<exists>r. ws_Dial dial d = Some r \<and> (\<forall>w. r = Inr w \<longrightarrow> w_open w \<and> w_limit w = wsReadLimit (ws_maxrx (wd_opts d)))"
proof -
  obtain b where b: "wd_opts d OptionWebSocketFollowRedirects = Some (VBool b)"
    using assms by (auto simp: wsd_ok_def ws_typed_def ws_opt_type dest!: spec [of _ OptionWebSocketFollowRedirects])
  moreover obtain tls where "(case wd_opts d OptionTLSConfig of None \<Rightarrow> Some None | Some v \<Rightarrow> map_option Some (asTLS v)) = Some tls"
    using assms by (cases "wd_opts d OptionTLSConfig") (auto simp: wsd_ok_def ws_typed_def ws_opt_type dest!: spec [of _ OptionTLSConfig])
  moreover have "OptionWebSocketFollowRedirects \<noteq> OptionNoDelay" by (simp add: option_names)
  ultimately show ?thesis
    by (cases "dial tls b (wd_PeerName d @ sp_suffix)") (auto simp: ws_Dial_def ws_get_def new_wspipe_def split: option.split prod.split)
qed

text \<open>A TLS configuration that is a nil pointer is accepted as an option, and \<^verbatim>\<open>Listen\<close> of a \<^verbatim>\<open>wss\<close> listener panics.\<close>

lemma wss_nil_config_panics:
  assumes "wl_iswss l" "\<not> wl_closed l" "\<not> wl_noserve l"
  shows "snd (ws_listener_SetOption OptionTLSConfig (VTLS None) l) = None \<and>
    ws_Listen listen (fst (ws_listener_SetOption OptionTLSConfig (VTLS None) l)) = None"
  using assms by (simp add: ws_listener_SetOption_def ws_set_def set_field_def ws_Listen_def wss_config_def option_names)

text \<open>
  The subprotocol. A dialer offers the name of its peer protocol, a listener asks for its own: the
  request is refused with status 400 exactly when they differ.
\<close>

lemma split_comma_single: "CHR '','' \<notin> set s \<Longrightarrow> split_comma s = [s]"
  by (induction s) auto

lemma TrimSpace_id: "\<not> is_space (hd s) \<Longrightarrow> \<not> is_space (last s) \<Longrightarrow> TrimSpace s = s"
proof (cases "s = []")
  case False
  assume "\<not> is_space (hd s)" "\<not> is_space (last s)"
  then have "dropWhile is_space s = s" "dropWhile is_space (rev s) = rev s" using False by (simp_all add: dropWhile_eq_self_iff hd_rev)
  then show ?thesis by (simp add: TrimSpace_def)
qed (simp add: TrimSpace_def)

lemma ws_subprotocol:
  assumes "CHR '','' \<notin> set peer" "peer = [] \<or> \<not> is_space (hd peer)" "wl_running l"
  shows "ServeHTTP [peer @ sp_suffix] ''13'' l = (if peer = wl_SelfName l then None else Some 400)"
proof -
  have c: "CHR '','' \<notin> set (peer @ sp_suffix)" using assms(1) by (simp add: sp_suffix_def)
  have "TrimSpace (peer @ sp_suffix) = peer @ sp_suffix"
    using assms(2) by (intro TrimSpace_id) (auto simp: sp_suffix_def is_space_def hd_append)
  then show ?thesis using assms(3) by (simp add: ServeHTTP_def split_comma_single [OF c])
qed

text \<open>A message goes out as its header and body in one piece, and comes in as a message nobody else holds.\<close>

lemma ws_Recv_delivered:
  assumes "mheap_ok h"
  shows "\<exists>r h'. ws_Recv (Inr b) k h = (Inr r, h') \<and> delivered h r b h'"
proof -
  obtain r h1 where n: "NewMessage 0 k h = (r, h1)" by fastforce
  note np = NewMessage_props [OF assms n]
  have "delivered h r b (upd_obj r (\<lambda>x. x\<lparr>o_Body := b\<rparr>) h1)"
    using np mheap_ok_upd [OF np(2,3)] by (auto simp: delivered_def)
  then show ?thesis by (simp add: ws_Recv_def n)
qed

end
