(* ===== verification/Endpoints.thy ===== *)
theory Endpoints
  imports SocketFD Ws Winpipe
begin

text \<open>
  What the endpoints of the transports have in common, and what they are together with the core's
  socket: the types of their options, and the receive limit on its way from the socket to the wire.
\<close>

section \<open>Types of options\<close>

text \<open>
  C32: Options are typed. After any sequence of settings, accepted or refused, on a new dialer or listener of
  the TCP, TLS, Unix and Windows named-pipe transports or a new WebSocket dialer, every option that can be read has the Go type that
  is documented for it, and a value of any other type is refused and changes nothing; the same
  holds of the listener for descriptors, except that it closes a descriptor given to it after its own close.
  So the type assertions in WebSocket's \<^verbatim>\<open>Dial\<close> never fail.
\<close>

theorem endpoint_options_typed:
  "typed_from tcp_dialer_SetOption tcp_dialer_GetOption (new_sdialer a self peer) \<and>
   typed_from tls_dialer_SetOption tls_dialer_GetOption (new_sdialer a self peer) \<and>
   typed_from unix_dialer_SetOption unix_dialer_GetOption (new_sdialer a self peer) \<and>
   typed_from (tcp_listener_SetOption net) tcp_listener_GetOption (new_slistener a self peer uid gid) \<and>
   typed_from (tls_listener_SetOption net) tls_listener_GetOption (new_slistener a self peer uid gid) \<and>
   typed_from (unix_listener_SetOption net) unix_listener_GetOption (new_slistener a self peer uid gid) \<and>
   typed_from wp_dialer_SetOption wp_dialer_GetOption wd \<and>
   typed_from wp_listener_SetOption wp_listener_GetOption (new_wlistener a self peer) \<and>
   typed (opt_type n v) (sk_SetOption fnet n v sk) \<and>
   (case ws_NewDialer peern addr of
      Inl e \<Rightarrow> e = ErrBadTran
    | Inr d \<Rightarrow> typed_from ws_dialer_SetOption ws_dialer_GetOption d \<and> ws_Dial dial (settings ws_dialer_SetOption xs d) \<noteq> None)"
proof -
  have ok: "wsd_ok d" if "ws_NewDialer peern addr = Inr d" for d
    using that by (auto simp: ws_NewDialer_def Let_def wsd_ok_def ws_typed_def ws_opt_type split: if_splits)
  have "ws_Dial dial (settings ws_dialer_SetOption xs d) \<noteq> None" if "wsd_ok d" for d
    using ws_Dial_never_panics [OF ws_dialer.set_all_ok [OF that]] by (metis option.distinct(1))
  moreover have "ws_NewDialer peern addr = Inl e \<Longrightarrow> e = ErrBadTran" for e
    by (auto simp: ws_NewDialer_def Let_def split: if_splits)
  ultimately show ?thesis
    using tcp_dialer.typed_from [OF TrueI] tls_dialer.typed_from [OF TrueI] unix_dialer.typed_from [OF TrueI]
      tcp_listener.typed_from [OF TrueI] tls_listener.typed_from [OF TrueI] unix_listener.typed_from [OF TrueI]
      wp_dialer.typed_from [OF TrueI] wp_listener.typed_from [OF TrueI] ws_dialer.typed_from [OF ok] ok sk_options_typed(1)
    by (cases "ws_NewDialer peern addr") simp_all
qed

section \<open>The receive limit\<close>

text \<open>The TCP transport as the core's registry has it: its endpoints are dialers or listeners.\<close>

datatype endpoint = DialEnd sdialer | ListenEnd slistener

fun tcp_set :: "(int \<Rightarrow> err + lsocket \<times> bool) \<Rightarrow> string \<Rightarrow> optval \<Rightarrow> endpoint \<Rightarrow> endpoint \<times> status" where
  "tcp_set net n v (DialEnd d) = (case tcp_dialer_SetOption n v d of (d', e) \<Rightarrow> (DialEnd d', e))"
| "tcp_set net n v (ListenEnd l) = (case tcp_listener_SetOption net n v l of (l', e) \<Rightarrow> (ListenEnd l', e))"

definition tcpTran :: "(string \<Rightarrow> err + string) \<Rightarrow> u16 \<Rightarrow> u16 \<Rightarrow> endpoint transport" where
  "tcpTran resolve self peer =
     \<lparr>tr_Scheme = ''tcp'',
      tr_NewDialer = (\<lambda>a. map_sum id DialEnd (tcp_NewDialer resolve self peer a)),
      tr_NewListener = (\<lambda>a. map_sum id ListenEnd (tcp_NewListener self peer a))\<rparr>"

lemma inherit_max_tcp:
  assumes "inherit_max (tcp_set net) mx opts t = Inr t'" "OptionMaxRecvSize \<notin> fst ` set opts"
  shows "case t' of DialEnd d \<Rightarrow> sd_maxRecvSize d = mx | ListenEnd l \<Rightarrow> sl_maxRecvSize l = mx"
  using assms
  by (cases t) (auto simp: inherit_max_def tcp_dialer_SetOption_def tcp_listener_SetOption_def set_field_def option_names)

lemma make_dialer_limit:
  assumes "make_dialer (tcp_set net) r addr opts s = Inr (d, DialEnd sd)" "OptionMaxRecvSize \<notin> fst ` set opts"
  shows "sd_maxRecvSize sd = k_maxRxSize s"
proof -
  obtain t where "inherit_max (tcp_set net) (k_maxRxSize s) opts t = Inr (DialEnd sd)"
    using assms(1) by (auto simp: make_dialer_def split: option.splits sum.splits prod.splits)
  from inherit_max_tcp [OF this assms(2)] show ?thesis by simp
qed

lemma make_listener_limit:
  assumes "make_listener (tcp_set net) r addr opts s = Inr (ListenEnd l)" "OptionMaxRecvSize \<notin> fst ` set opts"
  shows "sl_maxRecvSize l = k_maxRxSize s"
proof -
  obtain t where "inherit_max (tcp_set net) (k_maxRxSize s) opts t = Inr (ListenEnd l)"
    using assms(1) by (auto simp: make_listener_def split: option.splits sum.splits prod.splits)
  from inherit_max_tcp [OF this assms(2)] show ?thesis by simp
qed

lemma handshake_maxrx: "conn_handshake b p = (e, p') \<Longrightarrow> maxrx p' = maxrx p"
  by (auto simp: conn_handshake_def conn_write_def conn_read_def conn_Close_def hang_up_def Let_def
      split: if_splits option.splits prod.splits sum.splits)

lemma finish_dial_maxrx:
  assumes "finish_dial d props c = Some (Inr p)" "OptionMaxRecvSize \<notin> fst ` set props"
  shows "maxrx p = sd_maxRecvSize d"
proof -
  obtain q where q: "endpoint_pipe (sd_maxRecvSize d) props (sd_Self d) (sd_Peer d) c = Some q" "maxrx q = sd_maxRecvSize d"
    using endpoint_pipe_ok [OF assms(2)] by blast
  with assms(1) have "conn_handshake False q = (None, p)" by (auto simp: finish_dial_def split: prod.splits option.splits)
  from handshake_maxrx [OF this] q(2) show ?thesis by simp
qed

text \<open>
  C33: The receive limit reaches the wire. Take a socket with a limit and endpoints that its \<^verbatim>\<open>NewDialer\<close> and
  \<^verbatim>\<open>NewListener\<close> made for TCP, with any options but the limit's. On the pipe that the dialer's \<^verbatim>\<open>Dial\<close> gives, and on one that
  the listener's accept loop makes and that passes its handshake, whatever bytes the peer sends: a message
  that \<^verbatim>\<open>Recv\<close> returns is within the socket's limit, and the messages in use are left alone.
\<close>

theorem receive_limit_end_to_end:
  assumes "0 < k_maxRxSize s" and "OptionMaxRecvSize \<notin> fst ` set opts" and h: "mheap_ok h"
    and "make_dialer (tcp_set net) (RegisterTransport (tcpTran resolve self peer) r) addr opts s = Inr (d, DialEnd sd)"
    and "make_listener (tcp_set net) (RegisterTransport (tcpTran resolve self peer) r) addr2 opts s = Inr (ListenEnd sl)"
    and "tcp_Dial resolve connect sd = Some (Inr p) \<or> (\<exists>p0 c. accept_pipe [] c sl = Some p0 \<and> conn_handshake b p0 = (None, p))"
    and r: "conn_Recv k p h = (res, p', h')"
  shows "maxrx p = k_maxRxSize s \<and>
    (\<forall>m x. res = Inr m \<longrightarrow> objs h' m = Some x \<longrightarrow> int (length (o_Body x)) \<le> k_maxRxSize s) \<and>
    (\<forall>m. live h m \<longrightarrow> objs h' m = objs h m)"
proof -
  have sd: "sd_maxRecvSize sd = k_maxRxSize s" by (rule make_dialer_limit [OF assms(4,2)])
  have sl: "sl_maxRecvSize sl = k_maxRxSize s" by (rule make_listener_limit [OF assms(5,2)])
  have "maxrx p = k_maxRxSize s" using assms(6)
  proof (elim disjE exE conjE)
    assume "tcp_Dial resolve connect sd = Some (Inr p)"
    then show ?thesis using finish_dial_maxrx [of sd "[]"] sd by (auto simp: tcp_Dial_def split: sum.splits)
  next
    fix p0 c assume "accept_pipe [] c sl = Some p0" "conn_handshake b p0 = (None, p)"
    then show ?thesis using endpoint_pipe_ok [of "[]" "sl_maxRecvSize sl" "sl_Self sl" "sl_Peer sl" c] handshake_maxrx sl
      by (auto simp: accept_pipe_def)
  qed
  then show ?thesis using Recv_fair [where Recv = conn_Recv, OF h _ r] assms(1) by (auto simp: recv_fair_def)
qed

text \<open>A dialer and a listener of a new socket, and a peer that announces a message of 16 megabytes.\<close>

definition lim_sock :: "(unit, endpoint) csock" where
  "lim_sock = newSocket () (DialEnd (new_sdialer [] 0 0))"

definition lim_net :: "string \<Rightarrow> err + netconn" where
  "lim_net a = Inr ([connHeader 49, [0, 0, 0, 0, 1, 0, 0, 0]], None, VOther 0, VOther 1)"

definition lim_d :: sdialer where
  "lim_d = (new_sdialer ''h:1'' 48 49)\<lparr>sd_maxRecvSize := 1048576\<rparr>"

definition lim_l :: slistener where
  "lim_l = (new_slistener ''h:1'' 48 49 0 0)\<lparr>sl_maxRecvSize := 1048576\<rparr>"

lemmas lim_eval = lim_sock_def make_dialer_def make_listener_def RegisterTransport_def getTransport_def GetTransport_def starts_with_def
  tcpTran_def newSocket_def inherit_max_def tcp_NewDialer_def tcp_NewListener_def StripScheme_def ResolveTCPAddr_def tran_of_def

lemma lim_make:
  "make_dialer (tcp_set (\<lambda>_. Inl ErrBadValue)) (RegisterTransport (tcpTran Inr 48 49) Map.empty) ''tcp://h:1'' [] lim_sock =
     Inr (new_dialer 100000000 0 False False, DialEnd lim_d)"
  "make_listener (tcp_set (\<lambda>_. Inl ErrBadValue)) (RegisterTransport (tcpTran Inr 48 49) Map.empty) ''tcp://h:1'' [] lim_sock =
     Inr (ListenEnd lim_l)"
  by (simp_all add: lim_eval tcp_dialer_SetOption_def tcp_listener_SetOption_def set_field_def option_names lim_d_def lim_l_def
      new_sdialer_def new_slistener_def)

definition lim_p :: conn where
  "lim_p = (NewConnPipe [[0, 0, 0, 0, 1, 0, 0, 0]] None (VOther 0) (VOther 1) 48 49)
     \<lparr>maxrx := 1048576, options := (options (NewConnPipe [] None (VOther 0) (VOther 1) 48 49))(OptionMaxRecvSize \<mapsto> VInt 1048576),
      tx := connHeader 48, c_open := True\<rparr>"

lemma connHeader_length: "length (connHeader w) = 8"
  by (simp add: connHeader_def)

lemma lim_handshake:
  fixes q :: conn
  assumes "rx q = [connHeader 49, m]" "room q = None" "\<not> hung_up q" "\<not> c_shut q" "proto_Peer q = 49"
  shows "conn_handshake False q = (None, q\<lparr>tx := tx q @ connHeader (proto_Self q), rx := [m], c_open := True\<rparr>)"
proof -
  have r: "read_full 8 [connHeader 49, m] = (Inr (connHeader 49), [m])"
    by (simp add: read_full_Cons connHeader_length)
  have "be_enc 2 (unat (49 :: u16)) = [0, 49]" "be_enc 2 0 = [0, 0]" by (simp_all add: be_enc_numeral)
  then have c: "connHeader 49 = [0, 83, 80, 0, 0, 49, 0, 0]" by (simp add: connHeader_def)
  have u: "Uint16 [0, 0] = 0" "Uint16 [0, 49] = 49" by (simp_all add: Uint16_def be_dec_def)
  show ?thesis using assms r unfolding c
    by (simp add: conn_handshake_def conn_write_def conn_read_def u Let_def)
qed

lemma lim_dial: "tcp_Dial Inr lim_net lim_d = Some (Inr lim_p)"
  by (simp add: tcp_Dial_def ResolveTCPAddr_def lim_net_def finish_dial_def endpoint_pipe_def conn_SetOption_def lim_handshake
      NewConnPipe_def lim_d_def new_sdialer_def lim_p_def)

theorem receive_limit_end_to_end_witness:
  "tcp_Dial Inr lim_net lim_d = Some (Inr lim_p) \<and> maxrx lim_p = 1048576 \<and> conn_Recv 0 lim_p msg_heap = (Inl ErrTooLong, lim_p\<lparr>rx := []\<rparr>, msg_heap)"
proof -
  have i: "int64 [0, 0, 0, 0, 1, 0, 0, 0] = 16777216" by (simp add: int64_def be_dec_def)
  have r: "conn_Recv 0 lim_p msg_heap = (Inl ErrTooLong, lim_p\<lparr>rx := []\<rparr>, msg_heap)"
    by (simp add: conn_Recv_def conn_read_def lim_p_def NewConnPipe_def recv_body_def i read_full_Cons)
  have ok: "mheap_ok msg_heap" by (simp add: msg_heap_def mheap_ok_def pool_ok_def)
  have m: "k_maxRxSize lim_sock = 1048576" by (simp add: lim_sock_def newSocket_def)
  have "maxrx lim_p = 1048576"
    using receive_limit_end_to_end [OF _ _ ok lim_make _ r, of lim_net] lim_dial m by simp
  with r lim_dial show ?thesis by simp
qed

end
