(* ===== verification/PipeIDs.thy ===== *)
theory PipeIDs
  imports Chan
begin

text \<open>
  The application-wide pipe ID allocator of \<^verbatim>\<open>internal/core/pipe.go\<close>. The search loop of
  \<^verbatim>\<open>Get\<close> has no bound in the code, so the model is a partial function: \<open>None\<close> is "does not
  return". \<^verbatim>\<open>rand.Read\<close> supplies the four bytes the counter starts from.
\<close>

record idalloc =
  used :: "u32 set option"
  next_id :: u32

definition id_mask :: u32 where
  "id_mask = 0x7fffffff"

partial_function (option) Get_loop :: "u32 set \<Rightarrow> u32 \<Rightarrow> (u32 \<times> u32) option" where
  "Get_loop us n =
     (let i = n AND id_mask in
      if i = 0 then Get_loop us (n + 1)
      else if i \<in> us then Get_loop us (n + 1)
      else Some (i, n + 1))"

text \<open>The result is the ID and the allocator with that ID marked.\<close>

definition Get :: "bytes \<Rightarrow> idalloc \<Rightarrow> (u32 \<times> idalloc) option" where
  "Get entropy p =
     (let (us, n) = (case used p of None \<Rightarrow> ({}, Uint32 entropy) | Some us \<Rightarrow> (us, next_id p))
      in map_option (\<lambda>(i, n'). (i, p\<lparr>used := Some (insert i us), next_id := n'\<rparr>)) (Get_loop us n))"

text \<open>\<^verbatim>\<open>Free\<close> panics (\<open>None\<close>) on an ID that is not marked.\<close>

definition FreeID :: "u32 \<Rightarrow> idalloc \<Rightarrow> idalloc option" where
  "FreeID i p =
     (case used p of None \<Rightarrow> None
      | Some us \<Rightarrow> if i \<in> us then Some (p\<lparr>used := Some (us - {i})\<rparr>) else None)"

definition used_ids :: "idalloc \<Rightarrow> u32 set" where
  "used_ids p = (case used p of None \<Rightarrow> {} | Some us \<Rightarrow> us)"

definition valid_id :: "u32 \<Rightarrow> bool" where
  "valid_id i \<longleftrightarrow> i \<noteq> 0 \<and> i AND id_mask = i"

section \<open>The search loop\<close>

lemma id_mask_take_bit: "n AND id_mask = take_bit 31 n"
  by (simp add: id_mask_def take_bit_eq_mask mask_eq_exp_minus_1)

lemma valid_id_mask: "valid_id (n AND id_mask) \<longleftrightarrow> n AND id_mask \<noteq> 0"
  by (simp add: valid_id_def and.assoc)

text \<open>A candidate is the masked counter \<open>k\<close> steps ahead.\<close>

definition candidate :: "u32 \<Rightarrow> nat \<Rightarrow> u32" where
  "candidate n k = (n + of_nat k) AND id_mask"

lemma candidate_0 [simp]: "candidate n 0 = n AND id_mask"
  by (simp add: candidate_def)

lemma candidate_Suc: "candidate n (Suc k) = candidate (n + 1) k"
  by (simp add: candidate_def add.assoc)

lemma candidate_reaches:
  assumes "valid_id t"
  obtains k where "k < 2 ^ 31" "candidate n k = t"
proof
  let ?k = "unat (take_bit 31 (t - n))"
  have sum: "(unat n + unat (t - n)) mod 2 ^ 32 = unat t"
    using unat_word_ariths(1) [of n "t - n"] by simp
  have "unat (take_bit 31 (n + take_bit 31 (t - n)))
      = (unat n + unat (t - n) mod 2 ^ 31) mod 2 ^ 32 mod 2 ^ 31"
    by (simp add: unsigned_take_bit_eq unat_word_ariths take_bit_eq_mod)
  also have "\<dots> = (unat n + unat (t - n)) mod 2 ^ 31"
    by (simp add: mod_mod_cancel mod_add_right_eq)
  also have "\<dots> = (unat n + unat (t - n)) mod 2 ^ 32 mod 2 ^ 31"
    by (simp add: mod_mod_cancel)
  also have "\<dots> = unat (take_bit 31 t)"
    unfolding sum by (simp only: unsigned_take_bit_eq) (simp add: take_bit_eq_mod)
  finally have "take_bit 31 (n + take_bit 31 (t - n)) = take_bit 31 t"
    by (rule word_unat_eq_iff [THEN iffD2])
  moreover have "take_bit 31 t = t" using assms by (simp add: valid_id_def id_mask_take_bit)
  ultimately show "candidate n ?k = t" by (simp add: candidate_def id_mask_take_bit)
  show "?k < 2 ^ 31"
    using take_bit_nat_less_exp [of 31 "unat (t - n)"] by (simp only: unsigned_take_bit_eq)
qed

text \<open>The loop returns the first candidate that is neither zero nor in use.\<close>

lemma Get_loop_first:
  assumes "\<And>j. j < k \<Longrightarrow> candidate n j = 0 \<or> candidate n j \<in> us"
    and "candidate n k \<noteq> 0" and "candidate n k \<notin> us"
  shows "Get_loop us n = Some (candidate n k, n + of_nat k + 1)"
  using assms
proof (induction k arbitrary: n)
  case 0
  then show ?case by (simp add: Get_loop.simps [of us n] Let_def)
next
  case (Suc k)
  have skip: "n AND id_mask = 0 \<or> n AND id_mask \<in> us" using Suc.prems(1) [of 0] by simp
  have "Get_loop us (n + 1) = Some (candidate (n + 1) k, (n + 1) + of_nat k + 1)"
  proof (rule Suc.IH)
    show "candidate (n + 1) j = 0 \<or> candidate (n + 1) j \<in> us" if "j < k" for j
      using Suc.prems(1) [of "Suc j"] that by (simp add: candidate_Suc)
  qed (use Suc.prems(2,3) in \<open>simp_all add: candidate_Suc\<close>)
  with skip show ?case
    by (auto simp: Get_loop.simps [of us n] Let_def candidate_Suc add.assoc)
qed

lemma Get_loop_total:
  assumes "valid_id t" and "t \<notin> us"
  obtains k where "k < 2 ^ 31" "Get_loop us n = Some (candidate n k, n + of_nat k + 1)"
    "valid_id (candidate n k)" "candidate n k \<notin> us"
    "\<And>j. j < k \<Longrightarrow> candidate n j = 0 \<or> candidate n j \<in> us"
proof -
  let ?P = "\<lambda>k. candidate n k \<noteq> 0 \<and> candidate n k \<notin> us"
  obtain k0 where k0: "k0 < 2 ^ 31" "candidate n k0 = t" using candidate_reaches [OF assms(1)] .
  then have "?P k0" using assms by (simp add: valid_id_def)
  then have l: "?P (LEAST k. ?P k)" "(LEAST k. ?P k) \<le> k0" by (rule LeastI, rule Least_le)
  show ?thesis
  proof (rule that [of "LEAST k. ?P k"])
    show first: "\<And>j. j < (LEAST k. ?P k) \<Longrightarrow> candidate n j = 0 \<or> candidate n j \<in> us"
      using not_less_Least by blast
    show "Get_loop us n = Some (candidate n (LEAST k. ?P k), n + of_nat (LEAST k. ?P k) + 1)"
      by (rule Get_loop_first [OF first]) (use l in auto)
    show "valid_id (candidate n (LEAST k. ?P k))"
      using l(1) by (simp add: candidate_def valid_id_mask)
  qed (use l k0 in auto)
qed

lemma Get_props:
  assumes "valid_id t" and "t \<notin> used_ids p"
  obtains i q where "Get e p = Some (i, q)" "valid_id i" "i \<notin> used_ids p" "used_ids q = insert i (used_ids p)"
proof (cases "used p")
  case None
  obtain k where "Get_loop {} (Uint32 e) = Some (candidate (Uint32 e) k, Uint32 e + of_nat k + 1)"
    "valid_id (candidate (Uint32 e) k)"
    using Get_loop_total [OF assms(1), of "{}" "Uint32 e"] by auto
  then show ?thesis
    by (intro that [of "candidate (Uint32 e) k" "p\<lparr>used := Some {candidate (Uint32 e) k}, next_id := Uint32 e + of_nat k + 1\<rparr>"])
       (auto simp: Get_def None used_ids_def)
next
  case (Some us)
  obtain k where "Get_loop us (next_id p) = Some (candidate (next_id p) k, next_id p + of_nat k + 1)"
    "valid_id (candidate (next_id p) k)" "candidate (next_id p) k \<notin> us"
    using Get_loop_total [OF assms(1), of us "next_id p"] assms(2) Some by (auto simp: used_ids_def)
  then show ?thesis
    by (intro that [of "candidate (next_id p) k"
          "p\<lparr>used := Some (insert (candidate (next_id p) k) us), next_id := next_id p + of_nat k + 1\<rparr>"])
       (auto simp: Get_def Some used_ids_def)
qed

lemma Get_SomeD:
  assumes "Get e p = Some (i, q)"
  shows "valid_id i" "i \<notin> used_ids p" "used_ids q = insert i (used_ids p)"
proof -
  obtain us n where un: "(case used p of None \<Rightarrow> ({}, Uint32 e) | Some us \<Rightarrow> (us, next_id p)) = (us, n)"
    by fastforce
  then have us: "us = used_ids p" by (auto simp: used_ids_def split: option.splits)
  from assms un obtain n' where g: "Get_loop us n = Some (i, n')"
    and q: "q = p\<lparr>used := Some (insert i us), next_id := n'\<rparr>"
    by (auto simp: Get_def)
  have loop: "valid_id (fst i) \<and> fst i \<notin> us" if "Get_loop us n = Some i" for us n i
  proof (rule Get_loop.raw_induct [where P = "\<lambda>us n i. valid_id (fst i) \<and> fst i \<notin> us", OF _ that])
    fix f us n and i :: "u32 \<times> u32"
    assume IH: "\<And>us n i. f us n = Some i \<Longrightarrow> valid_id (fst i) \<and> fst i \<notin> us"
      and eq: "(let i = n AND id_mask in
         if i = 0 then f us (n + 1) else if i \<in> us then f us (n + 1) else Some (i, n + 1)) = Some i"
    then show "valid_id (fst i) \<and> fst i \<notin> us"
      by (auto simp: Let_def valid_id_mask split: if_splits)
  qed
  from loop [OF g] us q show "valid_id i" "i \<notin> used_ids p" "used_ids q = insert i (used_ids p)"
    by (auto simp: used_ids_def)
qed

lemma FreeID_used: "i \<in> used_ids p \<Longrightarrow> \<exists>q. FreeID i p = Some q \<and> used_ids q = used_ids p - {i}"
  by (auto simp: FreeID_def used_ids_def split: option.splits)

section \<open>Properties\<close>

text \<open>
  C8: While at least one of the \<open>2^31 - 1\<close> pipe IDs is free, \<^verbatim>\<open>Get\<close> returns: it yields a
  non-zero ID with bit 31 clear that no open pipe holds, marks it, and it is the first such
  value at or after the counter, so an ID is reused only after the counter has passed every
  other free ID.
\<close>

theorem Get_returns_next_free_id:
  assumes "used p = Some us" and "valid_id t" and "t \<notin> us"
  shows "\<exists>i k q. Get e p = Some (i, q) \<and> valid_id i \<and> i \<notin> us \<and> used q = Some (insert i us) \<and>
    k < 2 ^ 31 \<and> i = (next_id p + of_nat k) AND id_mask \<and> next_id q = next_id p + of_nat k + 1 \<and>
    (\<forall>j<k. (next_id p + of_nat j) AND id_mask \<in> insert 0 us)"
proof -
  obtain k where "k < 2 ^ 31"
    "Get_loop us (next_id p) = Some (candidate (next_id p) k, next_id p + of_nat k + 1)"
    "valid_id (candidate (next_id p) k)" "candidate (next_id p) k \<notin> us"
    "\<And>j. j < k \<Longrightarrow> candidate (next_id p) j = 0 \<or> candidate (next_id p) j \<in> us"
    using Get_loop_total [OF assms(2,3), of "next_id p"] by metis
  then show ?thesis
    by (intro exI [of _ "candidate (next_id p) k"] exI [of _ k])
       (auto simp: Get_def assms(1) candidate_def)
qed

theorem Get_returns_next_free_id_witness:
  "\<exists>i q. Get [] \<lparr>used = Some {1}, next_id = 0xffffffff\<rparr> = Some (i, q) \<and> i \<noteq> 1 \<and> valid_id 2"
proof -
  let ?p = "\<lparr>used = Some {1}, next_id = 0xffffffff\<rparr>"
  have u: "used ?p = Some {1}" by simp
  have v: "valid_id 2" by (simp add: valid_id_def id_mask_def)
  have n: "(2 :: u32) \<notin> {1}" by simp
  show ?thesis using Get_returns_next_free_id [OF u v n, of "[]"] v by auto
qed

end
