(* ===== verification/CorePipe.thy ===== *)
theory CorePipe
  imports PipeIDs
begin

text \<open>
  The life of a pipe in the core: \<^verbatim>\<open>newPipe\<close>, \<^verbatim>\<open>pipeList\<close> and \<^verbatim>\<open>pipe.Close\<close> of
  \<^verbatim>\<open>internal/core/pipe.go\<close> with \<^verbatim>\<open>addPipe\<close> and \<^verbatim>\<open>remPipe\<close> of \<^verbatim>\<open>internal/core/socket.go\<close>.
  \<^verbatim>\<open>addPipe\<close> runs in three regions, between which other goroutines (and the application's
  event hook) can close the pipe: up to the \<open>Attaching\<close> event, the region under the pipe's
  lock, and the \<open>Attached\<close> event. The goroutine that \<^verbatim>\<open>remPipe\<close> starts is a step of its own.
  The protocol's answer to \<^verbatim>\<open>AddPipe\<close> is an argument. Calls into the protocol, the events and
  the notifications of the dialer are logged in the state.
\<close>

section \<open>State and operations\<close>

datatype pipe_event = PipeEventAttaching | PipeEventAttached | PipeEventDetached

record cpipe =
  cp_id :: u32
  cp_dialer :: "nat option"
  cp_added :: bool
  cp_closing :: bool
  cp_once :: bool
  cp_settled :: bool
  cp_hooked :: bool
  cp_detach :: bool

record core =
  alloc :: idalloc
  cobjs :: "nat \<rightharpoonup> cpipe"
  ncobj :: nat
  plist :: "u32 \<rightharpoonup> nat"
  hook :: bool
  events :: "(pipe_event \<times> nat) list"
  proto_adds :: "nat \<Rightarrow> nat"
  proto_rems :: "nat \<Rightarrow> nat"
  tran_closed :: "nat \<Rightarrow> bool"
  connected :: "nat list"
  redials :: "nat list"
  cpanic :: bool

definition newPipe :: "bytes \<Rightarrow> nat option \<Rightarrow> core \<Rightarrow> (nat \<times> core) option" where
  "newPipe e d c =
     (case Get e (alloc c) of None \<Rightarrow> None
      | Some (i, a) \<Rightarrow>
          Some (ncobj c,
            c\<lparr>alloc := a, ncobj := Suc (ncobj c),
              cobjs := (cobjs c)(ncobj c \<mapsto> \<lparr>cp_id = i, cp_dialer = d, cp_added = False, cp_closing = False,
                cp_once = False, cp_settled = False, cp_hooked = False, cp_detach = False\<rparr>)\<rparr>))"

definition pipeList_Add :: "nat \<Rightarrow> cpipe \<Rightarrow> core \<Rightarrow> core" where
  "pipeList_Add n p c = c\<lparr>plist := (plist c)(cp_id p \<mapsto> n)\<rparr>"

definition pipeList_Remove :: "cpipe \<Rightarrow> core \<Rightarrow> core" where
  "pipeList_Remove p c = c\<lparr>plist := (plist c)(cp_id p := None)\<rparr>"

definition emit :: "pipe_event \<Rightarrow> nat \<Rightarrow> core \<Rightarrow> core" where
  "emit ev n c = (if hook c then c\<lparr>events := events c @ [(ev, n)]\<rparr> else c)"

definition set_pipe :: "nat \<Rightarrow> cpipe \<Rightarrow> core \<Rightarrow> core" where
  "set_pipe n p c = c\<lparr>cobjs := (cobjs c)(n \<mapsto> p)\<rparr>"

definition addPipe_begin :: "bytes \<Rightarrow> nat option \<Rightarrow> core \<Rightarrow> (nat \<times> core) option" where
  "addPipe_begin e d c =
     (case newPipe e d c of None \<Rightarrow> None
      | Some (n, c1) \<Rightarrow>
          Some (n, emit PipeEventAttaching n
            (case cobjs c1 n of Some p \<Rightarrow> pipeList_Add n p c1 | None \<Rightarrow> c1)))"

definition addPipe_locked :: "nat \<Rightarrow> status \<Rightarrow> core \<Rightarrow> core" where
  "addPipe_locked n proto_err c =
     (case cobjs c n of None \<Rightarrow> c
      | Some p \<Rightarrow>
          if cp_closing p then pipeList_Remove p (set_pipe n (p\<lparr>cp_settled := True\<rparr>) c)
          else if proto_err \<noteq> None then pipeList_Remove p (set_pipe n (p\<lparr>cp_settled := True\<rparr>) c)
          else (set_pipe n (p\<lparr>cp_settled := True, cp_added := True\<rparr>) c)
                 \<lparr>proto_adds := (proto_adds c)(n := Suc (proto_adds c n)),
                  connected := connected c @ (case cp_dialer p of Some d \<Rightarrow> [d] | None \<Rightarrow> [])\<rparr>)"

definition addPipe_attached :: "nat \<Rightarrow> core \<Rightarrow> core" where
  "addPipe_attached n c =
     (case cobjs c n of None \<Rightarrow> c
      | Some p \<Rightarrow> emit PipeEventAttached n (set_pipe n (p\<lparr>cp_hooked := True\<rparr>) c))"

definition remPipe :: "nat \<Rightarrow> cpipe \<Rightarrow> core \<Rightarrow> core" where
  "remPipe n p c =
     (let c1 = c\<lparr>proto_rems := (proto_rems c)(n := Suc (proto_rems c n))\<rparr>
      in set_pipe n (p\<lparr>cp_detach := True\<rparr>) (pipeList_Remove p c1))"

definition pipe_Close :: "nat \<Rightarrow> core \<Rightarrow> core" where
  "pipe_Close n c =
     (case cobjs c n of None \<Rightarrow> c
      | Some p \<Rightarrow>
          if cp_once p then c
          else (let p1 = p\<lparr>cp_once := True, cp_closing := True\<rparr>;
                    c1 = (set_pipe n p1 c)\<lparr>tran_closed := (tran_closed c)(n := True)\<rparr>;
                    c2 = (if cp_added p then remPipe n p1 c1 else c1)
                in c2\<lparr>redials := redials c2 @ (case cp_dialer p of Some d \<Rightarrow> [d] | None \<Rightarrow> [])\<rparr>))"

text \<open>The goroutine of \<^verbatim>\<open>remPipe\<close>: the \<open>Detached\<close> event, then the release of the ID.\<close>

definition detach :: "nat \<Rightarrow> core \<Rightarrow> core" where
  "detach n c =
     (case cobjs c n of None \<Rightarrow> c
      | Some p \<Rightarrow>
          (let c1 = emit PipeEventDetached n (set_pipe n (p\<lparr>cp_detach := False\<rparr>) c)
           in case FreeID (cp_id p) (alloc c1) of
                None \<Rightarrow> c1\<lparr>cpanic := True\<rparr>
              | Some a \<Rightarrow> c1\<lparr>alloc := a\<rparr>))"

definition SetPipeEventHook :: "bool \<Rightarrow> core \<Rightarrow> core \<times> bool" where
  "SetPipeEventHook b c = (c\<lparr>hook := b\<rparr>, hook c)"

fun close_list :: "nat list \<Rightarrow> core \<Rightarrow> core" where
  "close_list [] c = c"
| "close_list (n # ns) c = close_list ns (pipe_Close n c)"

inductive core_step :: "core \<Rightarrow> core \<Rightarrow> bool" where
  cs_begin: "addPipe_begin e d c = Some (n, c') \<Longrightarrow> core_step c c'"
| cs_locked: "cobjs c n = Some p \<Longrightarrow> \<not> cp_settled p \<Longrightarrow> core_step c (addPipe_locked n err c)"
| cs_attached: "cobjs c n = Some p \<Longrightarrow> cp_added p \<Longrightarrow> \<not> cp_hooked p \<Longrightarrow> core_step c (addPipe_attached n c)"
| cs_close: "core_step c (pipe_Close n c)"
| cs_detach: "cobjs c n = Some p \<Longrightarrow> cp_detach p \<Longrightarrow> core_step c (detach n c)"
| cs_hook: "core_step c (fst (SetPipeEventHook b c))"

definition core_init :: "core \<Rightarrow> bool" where
  "core_init c \<longleftrightarrow> (used (alloc c) = None \<or> used (alloc c) = Some {}) \<and> cobjs c = Map.empty \<and>
     plist c = Map.empty \<and> events c = [] \<and> proto_adds c = (\<lambda>_. 0) \<and> proto_rems c = (\<lambda>_. 0) \<and> \<not> cpanic c"

section \<open>Invariant\<close>

text \<open>A pipe has released its ID once it was attached, closed, and its goroutine has run.\<close>

definition released :: "cpipe \<Rightarrow> bool" where
  "released p \<longleftrightarrow> cp_added p \<and> cp_once p \<and> \<not> cp_detach p"

definition listed :: "cpipe \<Rightarrow> bool" where
  "listed p \<longleftrightarrow> \<not> cp_settled p \<or> (cp_added p \<and> \<not> cp_once p)"

definition cpipe_ok :: "core \<Rightarrow> nat \<Rightarrow> cpipe \<Rightarrow> bool" where
  "cpipe_ok c n p \<longleftrightarrow> n < ncobj c \<and> (cp_added p \<longrightarrow> cp_settled p) \<and> (cp_detach p \<longrightarrow> cp_added p \<and> cp_once p) \<and>
     cp_closing p = cp_once p \<and> valid_id (cp_id p) \<and> (\<not> released p \<longrightarrow> cp_id p \<in> used_ids (alloc c)) \<and>
     proto_adds c n = of_bool (cp_added p) \<and> proto_rems c n = of_bool (cp_added p \<and> cp_once p)"

definition ids_distinct :: "core \<Rightarrow> bool" where
  "ids_distinct c \<longleftrightarrow> (\<forall>n m p q. cobjs c n = Some p \<and> cobjs c m = Some q \<and> \<not> released p \<and> \<not> released q \<and>
     cp_id p = cp_id q \<longrightarrow> n = m)"

definition plist_ok :: "core \<Rightarrow> bool" where
  "plist_ok c \<longleftrightarrow> (\<forall>i n. plist c i = Some n \<longleftrightarrow> (\<exists>p. cobjs c n = Some p \<and> cp_id p = i \<and> listed p))"

definition core_ok :: "core \<Rightarrow> bool" where
  "core_ok c \<longleftrightarrow> \<not> cpanic c \<and> (\<forall>n p. cobjs c n = Some p \<longrightarrow> cpipe_ok c n p) \<and>
     (\<forall>n. cobjs c n = None \<longrightarrow> proto_adds c n = 0 \<and> proto_rems c n = 0) \<and>
     ids_distinct c \<and> plist_ok c"

lemmas core_defs = core_ok_def cpipe_ok_def ids_distinct_def plist_ok_def released_def listed_def
lemmas core_op_defs = pipeList_Add_def pipeList_Remove_def set_pipe_def emit_def

lemma core_ok_init: "core_init c \<Longrightarrow> core_ok c"
  by (simp add: core_init_def core_defs)

lemma core_okD:
  assumes "core_ok c" and "cobjs c n = Some p"
  shows "cpipe_ok c n p" "listed p \<Longrightarrow> \<not> released p" "n < ncobj c"
  using assms by (auto simp: core_ok_def cpipe_ok_def listed_def released_def)

lemma same_idD:
  "core_ok c \<Longrightarrow> cobjs c n = Some p \<Longrightarrow> cobjs c m = Some q \<Longrightarrow> \<not> released p \<Longrightarrow> \<not> released q \<Longrightarrow>
   cp_id p = cp_id q \<Longrightarrow> n = m"
  unfolding core_ok_def ids_distinct_def by blast

lemma addPipe_begin_ok:
  assumes ok: "core_ok c" and "addPipe_begin e d c = Some (n, c')"
  shows "core_ok c'"
proof -
  obtain i a where g: "Get e (alloc c) = Some (i, a)"
    using assms(2) by (auto simp: addPipe_begin_def newPipe_def split: option.splits)
  note gp = Get_SomeD [OF g]
  let ?p = "\<lparr>cp_id = i, cp_dialer = d, cp_added = False, cp_closing = False, cp_once = False,
    cp_settled = False, cp_hooked = False, cp_detach = False\<rparr>"
  have new: "cobjs c (ncobj c) = None"
    using core_okD(3) [OF ok] by (cases "cobjs c (ncobj c)") auto
  have free: "cp_id p \<noteq> i" if "cobjs c m = Some p" "\<not> released p" for m p
    using core_okD(1) [OF ok that(1)] that(2) gp(2) by (auto simp: cpipe_ok_def)
  have c': "cobjs c' = (cobjs c)(ncobj c \<mapsto> ?p)" "alloc c' = a" "ncobj c' = Suc (ncobj c)"
    "plist c' = (plist c)(i \<mapsto> ncobj c)" "proto_adds c' = proto_adds c" "proto_rems c' = proto_rems c"
    "cpanic c' = cpanic c"
    using assms(2) g by (auto simp: addPipe_begin_def newPipe_def core_op_defs split: if_splits)
  have z: "proto_adds c (ncobj c) = 0 \<and> proto_rems c (ncobj c) = 0"
    using ok new by (simp add: core_ok_def)
  have "cpipe_ok c' m q" if "cobjs c' m = Some q" for m q
  proof (cases "m = ncobj c")
    case True
    then have "q = ?p" using that by (simp add: c'(1))
    then show ?thesis using True z gp by (simp add: cpipe_ok_def c'(2-6) released_def)
  next
    case False
    then have "cobjs c m = Some q" using that by (simp add: c'(1))
    then show ?thesis using core_okD(1) [OF ok, of m q] gp(3) by (simp add: cpipe_ok_def c'(2-6))
  qed
  moreover have "ids_distinct c'"
    unfolding ids_distinct_def c'(1) using free same_idD [OF ok]
    by (auto split: if_splits)
  moreover have "plist_ok c'"
  proof -
    have pl: "plist c j = Some m \<longleftrightarrow> (\<exists>p. cobjs c m = Some p \<and> cp_id p = j \<and> listed p)" for j m
      using ok by (simp add: core_ok_def plist_ok_def)
    have nl: "cp_id p \<noteq> i" if "cobjs c m = Some p" "listed p" for m p
      using free [OF that(1)] core_okD(2) [OF ok that(1,2)] by blast
    have li: "listed ?p" by (simp add: listed_def)
    show ?thesis
      unfolding plist_ok_def c'(1,4) using pl nl li new by auto
  qed
  ultimately show ?thesis
    using ok by (auto simp: core_ok_def c' split: if_splits)
qed

text \<open>The one obligation for every step that changes a single pipe.\<close>

lemma core_ok_update:
  assumes ok: "core_ok c" and p: "cobjs c n = Some p"
    and c': "cobjs c' = (cobjs c)(n \<mapsto> p')" "cp_id p' = cp_id p" "\<not> cpanic c'" "ncobj c' = ncobj c"
    and calls: "\<And>m. m \<noteq> n \<Longrightarrow> proto_adds c' m = proto_adds c m \<and> proto_rems c' m = proto_rems c m"
    and mine: "cpipe_ok c' n p'"
    and rel: "released p \<Longrightarrow> released p'"
    and ids: "used_ids (alloc c') = used_ids (alloc c) \<or>
      (\<not> released p \<and> released p' \<and> used_ids (alloc c') = used_ids (alloc c) - {cp_id p})"
    and pl: "(listed p' = listed p \<and> plist c' = plist c) \<or>
      (listed p \<and> \<not> listed p' \<and> plist c' = (plist c)(cp_id p := None))"
  shows "core_ok c'"
proof -
  have "cpipe_ok c' m q" if "cobjs c' m = Some q" for m q
  proof (cases "m = n")
    case True
    then show ?thesis using that mine c'(1) by simp
  next
    case False
    then have q: "cobjs c m = Some q" using that c'(1) by simp
    have "\<not> released q \<Longrightarrow> \<not> released p \<Longrightarrow> cp_id q \<noteq> cp_id p"
      using same_idD [OF ok q p] False by blast
    then show ?thesis
      using core_okD(1) [OF ok q] calls [OF False] ids c'(4) by (auto simp: cpipe_ok_def)
  qed
  moreover have "ids_distinct c'"
    unfolding ids_distinct_def c'(1) using same_idD [OF ok] p c'(2) rel
    by (auto split: if_splits)
  moreover have "plist_ok c'"
    using pl
  proof (elim disjE conjE)
    assume "listed p' = listed p" "plist c' = plist c"
    then show ?thesis using ok p c'(1,2) by (auto simp: core_ok_def plist_ok_def split: if_splits)
  next
    assume l: "listed p" "\<not> listed p'" and c2: "plist c' = (plist c)(cp_id p := None)"
    have nr: "\<not> released p" using core_okD(2) [OF ok p] l(1) by blast
    have other: "cp_id q \<noteq> cp_id p" if "cobjs c m = Some q" "listed q" "m \<noteq> n" for m q
      using same_idD [OF ok that(1) p] core_okD(2) [OF ok that(1)] that(2,3) nr by blast
    show ?thesis
      unfolding plist_ok_def c2 c'(1) using ok p l other c'(2)
      by (auto simp: core_ok_def plist_ok_def split: if_splits)
  qed
  moreover have "proto_adds c' m = 0 \<and> proto_rems c' m = 0" if "cobjs c' m = None" for m
    using that ok calls [of m] by (auto simp: core_ok_def c'(1) split: if_splits)
  ultimately show ?thesis using c'(3) by (simp add: core_ok_def)
qed

lemma addPipe_locked_ok:
  assumes ok: "core_ok c" and p: "cobjs c n = Some p" "\<not> cp_settled p"
  shows "core_ok (addPipe_locked n err c)"
proof -
  let ?p = "if cp_closing p \<or> err \<noteq> None then p\<lparr>cp_settled := True\<rparr> else p\<lparr>cp_settled := True, cp_added := True\<rparr>"
  have k: "cpipe_ok c n p" by (rule core_okD(1) [OF ok p(1)])
  have "\<not> cpanic c" using ok by (simp add: core_ok_def)
  then show ?thesis
    by (intro core_ok_update [OF ok p(1), of _ ?p])
       (use p k in \<open>auto simp: addPipe_locked_def core_op_defs cpipe_ok_def released_def listed_def\<close>)
qed

lemma addPipe_attached_ok:
  assumes ok: "core_ok c" and p: "cobjs c n = Some p"
  shows "core_ok (addPipe_attached n c)"
proof -
  have k: "cpipe_ok c n p" "\<not> cpanic c" using core_okD(1) [OF ok p] ok by (simp_all add: core_ok_def)
  then show ?thesis
    by (intro core_ok_update [OF ok p, of _ "p\<lparr>cp_hooked := True\<rparr>"])
       (use p in \<open>auto simp: addPipe_attached_def core_op_defs cpipe_ok_def released_def listed_def\<close>)
qed

lemma pipe_Close_ok:
  assumes ok: "core_ok c"
  shows "core_ok (pipe_Close n c)"
proof (cases "cobjs c n")
  case None
  then show ?thesis using ok by (simp add: pipe_Close_def)
next
  case (Some p)
  have k: "cpipe_ok c n p" "\<not> cpanic c" using core_okD(1) [OF ok Some] ok by (simp_all add: core_ok_def)
  show ?thesis
  proof (cases "cp_once p")
    case True
    then show ?thesis using ok Some by (simp add: pipe_Close_def)
  next
    case False
    let ?p = "p\<lparr>cp_once := True, cp_closing := True, cp_detach := cp_added p \<or> cp_detach p\<rparr>"
    show ?thesis
      by (rule core_ok_update [OF ok Some, of _ ?p])
         (use Some False k in \<open>auto simp: pipe_Close_def remPipe_def core_op_defs cpipe_ok_def released_def
            listed_def Let_def split: option.splits\<close>)
  qed
qed

lemma detach_ok:
  assumes ok: "core_ok c" and p: "cobjs c n = Some p" "cp_detach p"
  shows "core_ok (detach n c)"
proof -
  have k: "cpipe_ok c n p" "\<not> cpanic c" using core_okD(1) [OF ok p(1)] ok by (simp_all add: core_ok_def)
  then have "cp_id p \<in> used_ids (alloc c)" using p(2) by (simp add: cpipe_ok_def released_def)
  then obtain a where a: "FreeID (cp_id p) (alloc c) = Some a" "used_ids a = used_ids (alloc c) - {cp_id p}"
    using FreeID_used by blast
  show ?thesis
    by (rule core_ok_update [OF ok p(1), of _ "p\<lparr>cp_detach := False\<rparr>"])
       (use p k a in \<open>auto simp: detach_def core_op_defs cpipe_ok_def released_def listed_def Let_def\<close>)
qed

lemma SetPipeEventHook_ok: "core_ok c \<Longrightarrow> core_ok (fst (SetPipeEventHook b c))"
  by (simp add: SetPipeEventHook_def core_defs)

interpretation pipes: machine core_init core_step core_ok
proof unfold_locales
  show "core_ok c" if "core_init c" for c using that by (rule core_ok_init)
  show "core_ok c'" if "core_ok c" "core_step c c'" for c c'
    using that(2,1)
    by cases (auto intro: addPipe_begin_ok addPipe_locked_ok addPipe_attached_ok pipe_Close_ok detach_ok SetPipeEventHook_ok)
qed

section \<open>Properties\<close>

text \<open>
  C3: In every state the core can reach, and for every pipe, the protocol's \<^verbatim>\<open>AddPipe\<close> has
  succeeded at most once, \<^verbatim>\<open>RemovePipe\<close> has been called exactly when the attached pipe was
  closed (so never twice, and never for a pipe the protocol refused), and releasing a pipe ID
  has not panicked.
\<close>

theorem protocol_call_discipline:
  assumes "core_init c0" and "core_step\<^sup>*\<^sup>* c0 c"
  shows "\<not> cpanic c \<and> proto_adds c n \<le> 1 \<and> proto_rems c n \<le> proto_adds c n \<and>
    (\<forall>p. cobjs c n = Some p \<longrightarrow> (proto_rems c n = 1 \<longleftrightarrow> cp_added p \<and> cp_once p))"
proof -
  have ok: "core_ok c" by (rule pipes.reachable_inv [OF assms])
  show ?thesis
  proof (cases "cobjs c n")
    case None
    then show ?thesis using ok by (simp add: core_ok_def)
  next
    case (Some p)
    then show ?thesis using core_okD(1) [OF ok Some] ok by (auto simp: cpipe_ok_def core_ok_def)
  qed
qed


lemma unattached_persists:
  assumes "core_step c c'" and "cobjs c n = Some p" and "cp_settled p" and "\<not> cp_added p" and "core_ok c"
  shows "\<exists>p'. cobjs c' n = Some p' \<and> cp_id p' = cp_id p \<and> cp_settled p' \<and> \<not> cp_added p'"
  using assms(1)
proof cases
  case (cs_begin e d m)
  then have "m \<noteq> n" using core_okD(3) [OF assms(5,2)]
    by (auto simp: addPipe_begin_def newPipe_def split: option.splits)
  with cs_begin show ?thesis using assms(2-4)
    by (auto simp: addPipe_begin_def newPipe_def core_op_defs split: option.splits if_splits)
next
  case (cs_locked m q err)
  then show ?thesis using assms(2-4) by (auto simp: addPipe_locked_def core_op_defs)
next
  case (cs_attached m q)
  then show ?thesis using assms(2-4) by (auto simp: addPipe_attached_def core_op_defs)
next
  case (cs_close m)
  then show ?thesis using assms(2-4)
    by (cases "cobjs c m") (auto simp: pipe_Close_def remPipe_def core_op_defs Let_def)
next
  case (cs_detach m q)
  then show ?thesis using assms(2-4) core_okD(1) [OF assms(5), of m q]
    by (auto simp: detach_def core_op_defs Let_def cpipe_ok_def split: option.splits)
next
  case (cs_hook b)
  then show ?thesis using assms(2-4) by (simp add: SetPipeEventHook_def)
qed

text \<open>
  A pipe that the protocol refused, or that was closed before it was attached, keeps its ID
  for ever: whatever happens afterwards, the ID stays marked as used, although the pipe is
  closed and gone from the socket's list.
\<close>

theorem refused_pipe_id_never_freed:
  assumes "core_init c0" and "core_step\<^sup>*\<^sup>* c0 c" and "cobjs c n = Some p"
    and "cp_settled p" and "\<not> cp_added p" and "core_step\<^sup>*\<^sup>* c c'"
  shows "cp_id p \<in> used_ids (alloc c') \<and> plist c' (cp_id p) \<noteq> Some n"
proof -
  have ok: "core_ok c" by (rule pipes.reachable_inv [OF assms(1,2)])
  have "core_ok c' \<and> (\<exists>p'. cobjs c' n = Some p' \<and> cp_id p' = cp_id p \<and> cp_settled p' \<and> \<not> cp_added p')"
    using assms(6)
  proof (induction rule: rtranclp_induct)
    case base
    then show ?case using ok assms(3-5) by blast
  next
    case (step y z)
    then show ?case using unattached_persists [OF step.hyps(2)] pipes.step_inv by metis
  qed
  then obtain p' where p': "core_ok c'" "cobjs c' n = Some p'" "cp_id p' = cp_id p" "cp_settled p'" "\<not> cp_added p'"
    by blast
  then show ?thesis
    using core_okD(1) [OF p'(1,2)] by (auto simp: cpipe_ok_def released_def core_ok_def plist_ok_def listed_def)
qed


section \<open>A concrete run\<close>

text \<open>Two pipes are begun; the protocol accepts the first and refuses the second; both are closed.\<close>

definition core0 :: core where
  "core0 = \<lparr>alloc = \<lparr>used = Some {}, next_id = 1\<rparr>, cobjs = Map.empty, ncobj = 0, plist = Map.empty, hook = True,
     events = [], proto_adds = (\<lambda>_. 0), proto_rems = (\<lambda>_. 0), tran_closed = (\<lambda>_. False),
     connected = [], redials = [], cpanic = False\<rparr>"

definition core1 :: core where
  "core1 = snd (the (addPipe_begin [] None core0))"

definition core2 :: core where
  "core2 = snd (the (addPipe_begin [] (Some 7) core1))"

definition core4 :: core where
  "core4 = addPipe_locked 1 (Some ErrProtoState) (addPipe_locked 0 None core2)"

definition core6 :: core where
  "core6 = pipe_Close 1 (pipe_Close 0 core4)"

lemmas core_eval = core0_def core1_def core2_def core4_def core6_def addPipe_begin_def newPipe_def Get_def
  Get_loop.simps id_mask_def core_op_defs addPipe_locked_def pipe_Close_def remPipe_def Let_def

lemma core0_init: "core_init core0"
  by (simp add: core_init_def core0_def)

lemma core1_step: "core_step core0 core1"
proof (rule cs_begin)
  show "addPipe_begin [] None core0 = Some (0, core1)" by (simp add: core_eval)
qed

lemma core2_step: "core_step core1 core2"
proof (rule cs_begin)
  show "addPipe_begin [] (Some 7) core1 = Some (1, core2)" by (simp add: core_eval)
qed

lemma core2_objs:
  "cobjs core2 0 = Some \<lparr>cp_id = 1, cp_dialer = None, cp_added = False, cp_closing = False, cp_once = False,
     cp_settled = False, cp_hooked = False, cp_detach = False\<rparr>"
  "cobjs core2 (Suc 0) = Some \<lparr>cp_id = 2, cp_dialer = Some 7, cp_added = False, cp_closing = False, cp_once = False,
     cp_settled = False, cp_hooked = False, cp_detach = False\<rparr>"
  by (simp_all add: core_eval)

lemma core4_steps: "core_step\<^sup>*\<^sup>* core2 core4"
proof -
  have "core_step core2 (addPipe_locked 0 None core2)"
    by (rule cs_locked [OF core2_objs(1)]) simp
  moreover have "core_step (addPipe_locked 0 None core2) core4"
    unfolding core4_def by (rule cs_locked) (auto simp: addPipe_locked_def core_op_defs core2_objs)
  ultimately show ?thesis by (meson r_into_rtranclp rtranclp_trans)
qed

lemma core2_reachable: "core_step\<^sup>*\<^sup>* core0 core2"
  using core1_step core2_step by (meson r_into_rtranclp rtranclp_trans)

lemma core6_steps: "core_step\<^sup>*\<^sup>* core4 core6"
  unfolding core6_def by (meson cs_close r_into_rtranclp rtranclp_trans)

lemma core4_objs:
  "cobjs core4 (Suc 0) = Some \<lparr>cp_id = 2, cp_dialer = Some 7, cp_added = False, cp_closing = False, cp_once = False,
     cp_settled = True, cp_hooked = False, cp_detach = False\<rparr>"
  by (simp add: core4_def addPipe_locked_def core_op_defs core2_objs)

theorem protocol_call_discipline_witness:
  "core_step\<^sup>*\<^sup>* core0 core6 \<and> \<not> cpanic core6 \<and> proto_rems core6 0 \<le> proto_adds core6 0"
proof -
  have r: "core_step\<^sup>*\<^sup>* core0 core6" using core2_reachable core4_steps core6_steps by (meson rtranclp_trans)
  show ?thesis using protocol_call_discipline [OF core0_init r, of 0] r by simp
qed


theorem refused_pipe_id_never_freed_witness: "(2 :: u32) \<in> used_ids (alloc core6) \<and> tran_closed core6 1"
proof -
  have r: "core_step\<^sup>*\<^sup>* core0 core4" using core2_reachable core4_steps by (meson rtranclp_trans)
  have "tran_closed core6 1"
    by (simp add: core6_def pipe_Close_def remPipe_def core_op_defs Let_def core4_objs split: option.splits)
  then show ?thesis
    using refused_pipe_id_never_freed [OF core0_init r core4_objs _ _ core6_steps] by simp
qed

end
