(* ===== verification/Inproc.thy ===== *)
theory Inproc
  imports CoreSocket
begin

text \<open>
  The intra-process transport, \<^verbatim>\<open>transport/inproc/inproc.go\<close>. All its listeners live in one global
  table under one lock; a dialer takes a waiting accepter of the listener of its address, and the two
  become the ends of a connection of two unbuffered channels. The state holds the pipe objects
  (\<open>np_obj\<close>), the listener objects (\<open>np_lobj\<close>) and for each channel the messages that blocked senders
  offer (\<open>np_offers\<close>): a receiver takes one of them. \<open>np_popped\<close> lists the pairs of client and server
  of the calls of \<^verbatim>\<open>Dial\<close> that have left the lock and not yet wired the two together.
\<close>

section \<open>State\<close>

record ipipe =
  i_rq :: nat
  i_wq :: nat
  i_closeq :: bool
  i_readyq :: bool
  i_selfProto :: u16
  i_peerProto :: u16
  i_addr :: string
  i_peer :: "nat option"
  i_once :: bool

record ilistener =
  il_addr :: string
  il_selfProto :: u16
  il_peerProto :: u16
  il_active :: bool
  il_closed :: bool
  il_accepters :: "nat list"

record iworld =
  np_byAddr :: "string \<rightharpoonup> nat"
  np_obj :: "nat \<Rightarrow> ipipe"
  np_nobj :: nat
  np_lobj :: "nat \<Rightarrow> ilistener"
  np_nlobj :: nat
  np_nchan :: nat
  np_offers :: "nat \<Rightarrow> bytes list"
  np_popped :: "(nat \<times> nat) list"
  np_panicked :: bool

definition upd_ip :: "nat \<Rightarrow> (ipipe \<Rightarrow> ipipe) \<Rightarrow> iworld \<Rightarrow> iworld" where
  "upd_ip p f w = w\<lparr>np_obj := (np_obj w)(p := f (np_obj w p))\<rparr>"

definition upd_il :: "nat \<Rightarrow> (ilistener \<Rightarrow> ilistener) \<Rightarrow> iworld \<Rightarrow> iworld" where
  "upd_il l f w = w\<lparr>np_lobj := (np_lobj w)(l := f (np_lobj w l))\<rparr>"

definition fresh_ipipe :: "u16 \<Rightarrow> u16 \<Rightarrow> string \<Rightarrow> ipipe" where
  "fresh_ipipe sp pp a =
     \<lparr>i_rq = 0, i_wq = 0, i_closeq = False, i_readyq = False, i_selfProto = sp, i_peerProto = pp, i_addr = a,
      i_peer = None, i_once = False\<rparr>"

definition new_ipipe :: "u16 \<Rightarrow> u16 \<Rightarrow> string \<Rightarrow> iworld \<Rightarrow> nat \<times> iworld" where
  "new_ipipe sp pp a w =
     (np_nobj w, w\<lparr>np_obj := (np_obj w)(np_nobj w := fresh_ipipe sp pp a), np_nobj := Suc (np_nobj w)\<rparr>)"

definition inproc_init :: iworld where
  "inproc_init =
     \<lparr>np_byAddr = Map.empty, np_obj = (\<lambda>_. fresh_ipipe 0 0 []), np_nobj = 0,
      np_lobj = (\<lambda>_. \<lparr>il_addr = [], il_selfProto = 0, il_peerProto = 0, il_active = False, il_closed = False, il_accepters = []\<rparr>),
      np_nlobj = 0, np_nchan = 1, np_offers = (\<lambda>_. []), np_popped = [], np_panicked = False\<rparr>"

section \<open>Operations\<close>

definition inproc_tran :: "unit transport" where
  "inproc_tran = \<lparr>tr_Scheme = ''inproc'', tr_NewDialer = (\<lambda>_. Inr ()), tr_NewListener = (\<lambda>_. Inr ())\<rparr>"

text \<open>A dialer is its address and the protocol numbers of its socket; it has no state of its own.\<close>

definition inproc_NewDialer :: "string \<Rightarrow> u16 \<Rightarrow> u16 \<Rightarrow> err + string \<times> u16 \<times> u16" where
  "inproc_NewDialer addr self peer =
     (case StripScheme inproc_tran addr of (_, Some e) \<Rightarrow> Inl e | (_, None) \<Rightarrow> Inr (addr, self, peer))"

definition inproc_NewListener :: "string \<Rightarrow> u16 \<Rightarrow> u16 \<Rightarrow> iworld \<Rightarrow> iworld \<times> (err + nat)" where
  "inproc_NewListener addr self peer w =
     (case StripScheme inproc_tran addr of
        (_, Some e) \<Rightarrow> (w, Inl e)
      | (_, None) \<Rightarrow>
          (w\<lparr>np_lobj := (np_lobj w)(np_nlobj w :=
                \<lparr>il_addr = addr, il_selfProto = self, il_peerProto = peer, il_active = False, il_closed = False, il_accepters = []\<rparr>),
             np_nlobj := Suc (np_nlobj w)\<rparr>, Inr (np_nlobj w)))"

definition inproc_Listen :: "nat \<Rightarrow> iworld \<Rightarrow> iworld \<times> status" where
  "inproc_Listen l w =
     (let x = np_lobj w l
      in if il_closed x then (w, Some ErrClosed)
         else if np_byAddr w (il_addr x) \<noteq> None then (w, Some ErrAddrInUse)
         else ((upd_il l (\<lambda>x. x\<lparr>il_active := True\<rparr>) w)\<lparr>np_byAddr := (np_byAddr w)(il_addr x \<mapsto> l)\<rparr>, None))"

text \<open>\<^verbatim>\<open>Accept\<close>: the new server pipe waits among the accepters; then the \<^verbatim>\<open>select\<close>.\<close>

definition inproc_Accept_begin :: "nat \<Rightarrow> iworld \<Rightarrow> iworld \<times> (err + nat)" where
  "inproc_Accept_begin l w =
     (let x = np_lobj w l; (p, w1) = new_ipipe (il_selfProto x) (il_peerProto x) (il_addr x) w
      in if \<not> il_active x \<or> il_closed x then (w1, Inl ErrClosed)
         else (upd_il l (\<lambda>x. x\<lparr>il_accepters := il_accepters x @ [p]\<rparr>) w1, Inr p))"

definition inproc_Accept_wait :: "nat \<Rightarrow> iworld \<Rightarrow> (err + nat) list" where
  "inproc_Accept_wait p w =
     (if i_readyq (np_obj w p) then [Inr p] else []) @ (if i_closeq (np_obj w p) then [Inl ErrClosed] else [])"

text \<open>
  \<^verbatim>\<open>Dial\<close>: a new client pipe; a turn of the loop under the lock, which fails, takes the newest
  accepter, or waits; and the wiring.
\<close>

datatype dial_out = DialFailed err | DialPopped nat | DialWait

definition inproc_Dial_begin :: "string \<times> u16 \<times> u16 \<Rightarrow> iworld \<Rightarrow> nat \<times> iworld" where
  "inproc_Dial_begin d w = (case d of (a, sp, pp) \<Rightarrow> new_ipipe sp pp a w)"

definition inproc_Dial_turn :: "string \<times> u16 \<times> u16 \<Rightarrow> nat \<Rightarrow> iworld \<Rightarrow> iworld \<times> dial_out" where
  "inproc_Dial_turn d c w =
     (case d of (a, sp, pp) \<Rightarrow>
        (case np_byAddr w a of
           None \<Rightarrow> (w, DialFailed ErrConnRefused)
         | Some l \<Rightarrow>
             let x = np_lobj w l
             in if i_selfProto (np_obj w c) \<noteq> il_peerProto x \<or> i_peerProto (np_obj w c) \<noteq> il_selfProto x
                then (w, DialFailed ErrBadProto)
                else if il_accepters x \<noteq> []
                then ((upd_il l (\<lambda>x. x\<lparr>il_accepters := butlast (il_accepters x)\<rparr>) w)
                        \<lparr>np_popped := np_popped w @ [(c, last (il_accepters x))]\<rparr>, DialPopped (last (il_accepters x)))
                else (w, DialWait)))"

definition close_ready :: "nat \<Rightarrow> iworld \<Rightarrow> iworld" where
  "close_ready p w =
     (if i_readyq (np_obj w p) then w\<lparr>np_panicked := True\<rparr> else upd_ip p (\<lambda>x. x\<lparr>i_readyq := True\<rparr>) w)"

definition inproc_Dial_wire :: "nat \<times> nat \<Rightarrow> iworld \<Rightarrow> iworld" where
  "inproc_Dial_wire cs w =
     (let (c, s) = cs; a = np_nchan w; b = Suc (np_nchan w);
          w1 = w\<lparr>np_nchan := Suc (Suc (np_nchan w)), np_popped := remove1 cs (np_popped w)\<rparr>;
          w2 = upd_ip s (\<lambda>x. x\<lparr>i_wq := a, i_rq := b, i_peer := Some c\<rparr>) w1;
          w3 = upd_ip c (\<lambda>x. x\<lparr>i_rq := a, i_wq := b, i_peer := Some s\<rparr>) w2
      in close_ready c (close_ready s w3))"

definition close_pipe_q :: "nat \<Rightarrow> iworld \<Rightarrow> iworld" where
  "close_pipe_q p w =
     (if i_closeq (np_obj w p) then w\<lparr>np_panicked := True\<rparr> else upd_ip p (\<lambda>x. x\<lparr>i_closeq := True\<rparr>) w)"

definition inproc_listener_Close :: "nat \<Rightarrow> iworld \<Rightarrow> iworld" where
  "inproc_listener_Close l w =
     (let x = np_lobj w l;
          w1 = (if np_byAddr w (il_addr x) = Some l then w\<lparr>np_byAddr := (np_byAddr w)(il_addr x := None)\<rparr> else w)
      in fold close_pipe_q (il_accepters x) (upd_il l (\<lambda>x. x\<lparr>il_accepters := [], il_closed := True\<rparr>) w1))"

definition inproc_Close :: "nat \<Rightarrow> iworld \<Rightarrow> iworld" where
  "inproc_Close p w =
     (if i_once (np_obj w p) then w else close_pipe_q p (upd_ip p (\<lambda>x. x\<lparr>i_once := True\<rparr>) w))"

text \<open>
  \<^verbatim>\<open>Send\<close>: a private copy of header and body is offered to the write queue; the offer is taken by
  the peer's \<^verbatim>\<open>Recv\<close>, or withdrawn when an end is closed.
\<close>

definition ends_closed :: "nat \<Rightarrow> iworld \<Rightarrow> bool" where
  "ends_closed p w \<longleftrightarrow> i_closeq (np_obj w p) \<or>
     (case i_peer (np_obj w p) of Some q \<Rightarrow> i_closeq (np_obj w q) | None \<Rightarrow> False)"

definition inproc_Send_begin :: "nat \<Rightarrow> message \<Rightarrow> iworld \<Rightarrow> iworld" where
  "inproc_Send_begin p m w =
     (let q = i_wq (np_obj w p)
      in w\<lparr>np_offers := (np_offers w)(q := np_offers w q @ [Header m @ Body m])\<rparr>)"

definition inproc_Send_fail :: "nat \<Rightarrow> bytes \<Rightarrow> iworld \<Rightarrow> (iworld \<times> err) list" where
  "inproc_Send_fail p b w =
     (let q = i_wq (np_obj w p)
      in if ends_closed p w \<and> b \<in> set (np_offers w q)
         then [(w\<lparr>np_offers := (np_offers w)(q := remove1 b (np_offers w q))\<rparr>, ErrClosed)] else [])"

definition inproc_Recv :: "nat \<Rightarrow> iworld \<Rightarrow> (iworld \<times> (err + bytes)) list" where
  "inproc_Recv p w =
     (let q = i_rq (np_obj w p)
      in (case np_offers w q of [] \<Rightarrow> [] | b # bs \<Rightarrow> [(w\<lparr>np_offers := (np_offers w)(q := bs)\<rparr>, Inr b)]) @
         (if ends_closed p w then [(w, Inl ErrClosed)] else []))"

definition inproc_GetOption :: "string \<Rightarrow> nat \<Rightarrow> iworld \<Rightarrow> err + string" where
  "inproc_GetOption name p w =
     (if name = OptionRemoteAddr then Inr (i_addr (np_obj w p))
      else if name = OptionLocalAddr then Inr (i_addr (np_obj w p))
      else Inl ErrBadProperty)"

definition inproc_endpoint_SetOption :: "string \<Rightarrow> optval \<Rightarrow> unit \<Rightarrow> unit \<times> status" where
  "inproc_endpoint_SetOption n v t = (t, Some ErrBadOption)"

definition inproc_endpoint_GetOption :: "string \<Rightarrow> err + optval" where
  "inproc_endpoint_GetOption n = Inl ErrBadOption"

section \<open>Runs\<close>

text \<open>
  A client is popped with a server at most once (\<open>ip_turn\<close>: the call of \<^verbatim>\<open>Dial\<close> owns its client until
  then), only pipes that \<^verbatim>\<open>Dial\<close> or \<^verbatim>\<open>Accept\<close> returned are closed or used.
\<close>

inductive inproc_step :: "iworld \<Rightarrow> iworld \<Rightarrow> bool" where
  ip_newl: "inproc_step w (fst (inproc_NewListener a sp pp w))"
| ip_listen: "l < np_nlobj w \<Longrightarrow> inproc_step w (fst (inproc_Listen l w))"
| ip_accept: "l < np_nlobj w \<Longrightarrow> inproc_step w (fst (inproc_Accept_begin l w))"
| ip_dial: "inproc_step w (fst (let (c, w1) = inproc_Dial_begin d w in inproc_Dial_turn d c w1))"
| ip_turn: "c < np_nobj w \<Longrightarrow> np_obj w c = fresh_ipipe sp pp a \<Longrightarrow> c \<notin> fst ` set (np_popped w) \<Longrightarrow>
    c \<notin> snd ` set (np_popped w) \<Longrightarrow> (\<forall>l. c \<notin> set (il_accepters (np_lobj w l))) \<Longrightarrow>
    inproc_step w (fst (inproc_Dial_turn (a, sp, pp) c w))"
| ip_wire: "cs \<in> set (np_popped w) \<Longrightarrow> inproc_step w (inproc_Dial_wire cs w)"
| ip_lclose: "l < np_nlobj w \<Longrightarrow> inproc_step w (inproc_listener_Close l w)"
| ip_close: "i_readyq (np_obj w p) \<Longrightarrow> inproc_step w (inproc_Close p w)"
| ip_send: "i_readyq (np_obj w p) \<Longrightarrow> inproc_step w (inproc_Send_begin p m w)"
| ip_sfail: "i_readyq (np_obj w p) \<Longrightarrow> (w', e) \<in> set (inproc_Send_fail p b w) \<Longrightarrow> inproc_step w w'"
| ip_recv: "i_readyq (np_obj w p) \<Longrightarrow> (w', r) \<in> set (inproc_Recv p w) \<Longrightarrow> inproc_step w w'"


section \<open>Invariant\<close>

abbreviation accs :: "iworld \<Rightarrow> nat \<Rightarrow> nat list" where
  "accs w l \<equiv> il_accepters (np_lobj w l)"

definition idle :: "ipipe \<Rightarrow> bool" where
  "idle x \<longleftrightarrow> \<not> i_readyq x \<and> \<not> i_closeq x \<and> \<not> i_once x \<and> i_peer x = None"

text \<open>Two pipe objects are the ends of one connection.\<close>

definition ends :: "iworld \<Rightarrow> nat \<Rightarrow> nat \<Rightarrow> bool" where
  "ends w p q \<longleftrightarrow> p \<noteq> q \<and> i_peer (np_obj w p) = Some q \<and> i_peer (np_obj w q) = Some p \<and>
     i_readyq (np_obj w p) \<and> i_readyq (np_obj w q) \<and>
     i_rq (np_obj w p) = i_wq (np_obj w q) \<and> i_wq (np_obj w p) = i_rq (np_obj w q) \<and>
     i_selfProto (np_obj w p) = i_peerProto (np_obj w q) \<and> i_peerProto (np_obj w p) = i_selfProto (np_obj w q) \<and>
     i_addr (np_obj w p) = i_addr (np_obj w q)"

definition waiting_ok :: "iworld \<Rightarrow> bool" where
  "waiting_ok w \<longleftrightarrow>
     (\<forall>l. distinct (accs w l) \<and> (np_nlobj w \<le> l \<longrightarrow> accs w l = []) \<and>
       (\<forall>p\<in>set (accs w l). p < np_nobj w \<and> idle (np_obj w p) \<and> i_selfProto (np_obj w p) = il_selfProto (np_lobj w l) \<and>
          i_peerProto (np_obj w p) = il_peerProto (np_lobj w l) \<and> i_addr (np_obj w p) = il_addr (np_lobj w l))) \<and>
     (\<forall>l k p. p \<in> set (accs w l) \<longrightarrow> p \<in> set (accs w k) \<longrightarrow> l = k) \<and>
     (\<forall>a l. np_byAddr w a = Some l \<longrightarrow> l < np_nlobj w \<and> il_addr (np_lobj w l) = a)"

definition popped_ok :: "iworld \<Rightarrow> bool" where
  "popped_ok w \<longleftrightarrow> distinct (map fst (np_popped w) @ map snd (np_popped w)) \<and>
     (\<forall>(c, s)\<in>set (np_popped w). c < np_nobj w \<and> s < np_nobj w \<and> idle (np_obj w c) \<and> idle (np_obj w s) \<and>
        i_selfProto (np_obj w c) = i_peerProto (np_obj w s) \<and> i_peerProto (np_obj w c) = i_selfProto (np_obj w s) \<and>
        i_addr (np_obj w c) = i_addr (np_obj w s)) \<and>
     (\<forall>l. \<forall>p\<in>set (accs w l). p \<notin> fst ` set (np_popped w) \<and> p \<notin> snd ` set (np_popped w))"

definition wired_ok :: "iworld \<Rightarrow> bool" where
  "wired_ok w \<longleftrightarrow>
     (\<forall>p. if i_readyq (np_obj w p)
          then p < np_nobj w \<and> i_once (np_obj w p) = i_closeq (np_obj w p) \<and> i_rq (np_obj w p) < np_nchan w \<and> (\<exists>q. ends w p q)
          else i_peer (np_obj w p) = None) \<and>
     (\<forall>p q. i_readyq (np_obj w p) \<longrightarrow> i_readyq (np_obj w q) \<longrightarrow> i_rq (np_obj w p) = i_rq (np_obj w q) \<longrightarrow> p = q)"

definition inproc_inv :: "iworld \<Rightarrow> bool" where
  "inproc_inv w \<longleftrightarrow> \<not> np_panicked w \<and> waiting_ok w \<and> popped_ok w \<and> wired_ok w"

lemma inproc_invD: "inproc_inv w \<Longrightarrow> \<not> np_panicked w" "inproc_inv w \<Longrightarrow> waiting_ok w" "inproc_inv w \<Longrightarrow> popped_ok w" "inproc_inv w \<Longrightarrow> wired_ok w"
  by (simp_all add: inproc_inv_def)

lemma waitingD:
  assumes "waiting_ok w"
  shows "distinct (accs w l)" "np_nlobj w \<le> l \<Longrightarrow> accs w l = []"
    "p \<in> set (accs w l) \<Longrightarrow> p < np_nobj w \<and> idle (np_obj w p) \<and> i_selfProto (np_obj w p) = il_selfProto (np_lobj w l) \<and>
       i_peerProto (np_obj w p) = il_peerProto (np_lobj w l) \<and> i_addr (np_obj w p) = il_addr (np_lobj w l)"
    "p \<in> set (accs w l) \<Longrightarrow> p \<in> set (accs w k) \<Longrightarrow> l = k"
    "np_byAddr w a = Some l \<Longrightarrow> l < np_nlobj w \<and> il_addr (np_lobj w l) = a"
  using assms unfolding waiting_ok_def by blast+

lemma poppedD:
  assumes "popped_ok w"
  shows "distinct (map fst (np_popped w) @ map snd (np_popped w))"
    "(c, s) \<in> set (np_popped w) \<Longrightarrow> c < np_nobj w \<and> s < np_nobj w \<and> idle (np_obj w c) \<and> idle (np_obj w s) \<and>
        i_selfProto (np_obj w c) = i_peerProto (np_obj w s) \<and> i_peerProto (np_obj w c) = i_selfProto (np_obj w s) \<and>
        i_addr (np_obj w c) = i_addr (np_obj w s)"
    "p \<in> set (accs w l) \<Longrightarrow> p \<notin> fst ` set (np_popped w)" "p \<in> set (accs w l) \<Longrightarrow> p \<notin> snd ` set (np_popped w)"
  using assms unfolding popped_ok_def by blast+

lemma wiredD:
  assumes "wired_ok w"
  shows "i_readyq (np_obj w p) \<Longrightarrow> p < np_nobj w" "i_readyq (np_obj w p) \<Longrightarrow> i_once (np_obj w p) = i_closeq (np_obj w p)"
    "i_readyq (np_obj w p) \<Longrightarrow> i_rq (np_obj w p) < np_nchan w" "i_readyq (np_obj w p) \<Longrightarrow> \<exists>q. ends w p q"
    "\<not> i_readyq (np_obj w p) \<Longrightarrow> i_peer (np_obj w p) = None"
    "i_readyq (np_obj w p) \<Longrightarrow> i_readyq (np_obj w q) \<Longrightarrow> i_rq (np_obj w p) = i_rq (np_obj w q) \<Longrightarrow> p = q"
  using assms unfolding wired_ok_def by metis+

lemma popped_ne: "popped_ok w \<Longrightarrow> (c, s) \<in> set (np_popped w) \<Longrightarrow> (c', s') \<in> set (np_popped w) \<Longrightarrow> c \<noteq> s'"
  using poppedD(1) [of w] by (force simp: disjoint_iff)

lemma popped_other:
  assumes ok: "popped_ok w" and i: "(c, s) \<in> set (np_popped w)" and j: "(c', s') \<in> set (remove1 (c, s) (np_popped w))"
  shows "c' \<noteq> c" "s' \<noteq> c" "c' \<noteq> s" "s' \<noteq> s" "(c', s') \<in> set (np_popped w)"
proof -
  have d: "distinct (map fst (np_popped w))" "distinct (map snd (np_popped w))" using poppedD(1) [OF ok] by simp_all
  have k: "(c', s') \<in> set (np_popped w)" "(c', s') \<noteq> (c, s)"
    using j d(1) by (simp_all add: distinct_map set_remove1_eq)
  show "(c', s') \<in> set (np_popped w)" by (rule k(1))
  show "c' \<noteq> c" "s' \<noteq> s" using k i d by (fastforce simp: distinct_map inj_on_def)+
  show "s' \<noteq> c" "c' \<noteq> s" using popped_ne [OF ok i k(1)] popped_ne [OF ok k(1) i] by simp_all
qed

lemma upd_ip_simps [simp]:
  "np_obj (upd_ip p f w) = (np_obj w)(p := f (np_obj w p))" "np_byAddr (upd_ip p f w) = np_byAddr w" "np_nobj (upd_ip p f w) = np_nobj w"
  "np_lobj (upd_ip p f w) = np_lobj w" "np_nlobj (upd_ip p f w) = np_nlobj w" "np_nchan (upd_ip p f w) = np_nchan w"
  "np_popped (upd_ip p f w) = np_popped w" "np_panicked (upd_ip p f w) = np_panicked w" "np_offers (upd_ip p f w) = np_offers w"
  by (simp_all add: upd_ip_def)

lemma upd_il_simps [simp]:
  "np_lobj (upd_il l f w) = (np_lobj w)(l := f (np_lobj w l))" "np_obj (upd_il l f w) = np_obj w" "np_byAddr (upd_il l f w) = np_byAddr w"
  "np_nobj (upd_il l f w) = np_nobj w" "np_nlobj (upd_il l f w) = np_nlobj w" "np_nchan (upd_il l f w) = np_nchan w"
  "np_popped (upd_il l f w) = np_popped w" "np_panicked (upd_il l f w) = np_panicked w" "np_offers (upd_il l f w) = np_offers w"
  by (simp_all add: upd_il_def)

text \<open>The parts of the invariant depend on few fields.\<close>

lemma wired_cong:
  "np_obj t = np_obj w \<Longrightarrow> np_nobj t = np_nobj w \<Longrightarrow> np_nchan t = np_nchan w \<Longrightarrow> wired_ok w \<Longrightarrow> wired_ok t"
proof -
  assume o: "np_obj t = np_obj w" and n: "np_nobj t = np_nobj w" "np_nchan t = np_nchan w" and wok: "wired_ok w"
  have "ends t = ends w" by (intro ext) (simp add: ends_def o)
  then show ?thesis using wok by (simp add: wired_ok_def o n)
qed

lemma popped_cong:
  "np_obj t = np_obj w \<Longrightarrow> np_nobj t = np_nobj w \<Longrightarrow> np_popped t = np_popped w \<Longrightarrow>
   (\<And>l. set (accs t l) \<subseteq> set (accs w l)) \<Longrightarrow> popped_ok w \<Longrightarrow> popped_ok t"
  by (simp add: popped_ok_def) blast

lemma waiting_cong:
  "np_obj t = np_obj w \<Longrightarrow> np_nobj t = np_nobj w \<Longrightarrow> np_lobj t = np_lobj w \<Longrightarrow> np_nlobj t = np_nlobj w \<Longrightarrow> np_byAddr t = np_byAddr w \<Longrightarrow>
   waiting_ok w \<Longrightarrow> waiting_ok t"
  by (simp add: waiting_ok_def)

lemma offers_inv: "inproc_inv w \<Longrightarrow> inproc_inv (w\<lparr>np_offers := f\<rparr>)"
  using waiting_cong [of "w\<lparr>np_offers := f\<rparr>" w] popped_cong [of "w\<lparr>np_offers := f\<rparr>" w] wired_cong [of "w\<lparr>np_offers := f\<rparr>" w]
  by (simp add: inproc_inv_def)

lemma new_pipe_inv:
  assumes inv: "inproc_inv w"
  shows "inproc_inv (snd (new_ipipe sp pp a w))"
proof -
  let ?t = "snd (new_ipipe sp pp a w)" let ?n = "np_nobj w"
  note d = inproc_invD [OF inv]
  have t: "np_obj ?t = (np_obj w)(?n := fresh_ipipe sp pp a)" "np_nobj ?t = Suc ?n" "np_lobj ?t = np_lobj w" "np_nlobj ?t = np_nlobj w"
    "np_byAddr ?t = np_byAddr w" "np_popped ?t = np_popped w" "np_nchan ?t = np_nchan w" "np_panicked ?t = np_panicked w"
    by (simp_all add: new_ipipe_def)
  have nr: "\<not> i_readyq (np_obj w ?n)" using d(4) unfolding wired_ok_def by (metis less_irrefl)
  have "\<not> i_peer (np_obj w p) = Some ?n" for p
    using d(4) nr unfolding wired_ok_def ends_def by (metis option.distinct(1) option.inject)
  then have e: "ends ?t p q = ends w p q" for p q
    using nr by (auto simp: ends_def t fresh_ipipe_def)
  have "wired_ok ?t"
    using d(4) nr unfolding wired_ok_def e t by (auto simp: fresh_ipipe_def less_SucI)
  moreover have "waiting_ok ?t"
    using d(2) unfolding waiting_ok_def t by (auto simp: less_SucI)
  moreover have "popped_ok ?t"
    using d(3) unfolding popped_ok_def t by (auto simp: less_SucI)
  ultimately show ?thesis using d(1) by (simp add: inproc_inv_def t)
qed

lemma listener_field_inv:
  assumes inv: "inproc_inv w" and f: "il_accepters (f (np_lobj w l)) = accs w l" "il_addr (f (np_lobj w l)) = il_addr (np_lobj w l)"
    "il_selfProto (f (np_lobj w l)) = il_selfProto (np_lobj w l)" "il_peerProto (f (np_lobj w l)) = il_peerProto (np_lobj w l)"
  shows "inproc_inv (upd_il l f w)"
proof -
  let ?t = "upd_il l f w"
  note d = inproc_invD [OF inv]
  have a: "accs ?t k = accs w k" "il_addr (np_lobj ?t k) = il_addr (np_lobj w k)" "il_selfProto (np_lobj ?t k) = il_selfProto (np_lobj w k)"
    "il_peerProto (np_lobj ?t k) = il_peerProto (np_lobj w k)" for k
    using f by simp_all
  have "waiting_ok ?t" using d(2) unfolding waiting_ok_def a by simp
  moreover have "popped_ok ?t" using d(3) by (rule popped_cong [rotated 4]) (simp_all add: f)
  moreover have "wired_ok ?t" using d(4) by (rule wired_cong [rotated 3]) simp_all
  ultimately show ?thesis using d(1) by (simp add: inproc_inv_def)
qed

lemma byAddr_inv:
  assumes inv: "inproc_inv w" and b: "\<And>a l. m a = Some l \<Longrightarrow> l < np_nlobj w \<and> il_addr (np_lobj w l) = a"
  shows "inproc_inv (w\<lparr>np_byAddr := m\<rparr>)"
proof -
  let ?t = "w\<lparr>np_byAddr := m\<rparr>"
  note d = inproc_invD [OF inv]
  have "waiting_ok ?t" using d(2) b by (simp add: waiting_ok_def)
  moreover have "popped_ok ?t" using d(3) by (rule popped_cong [rotated 4]) simp_all
  moreover have "wired_ok ?t" using d(4) by (rule wired_cong [rotated 3]) simp_all
  ultimately show ?thesis using d(1) by (simp add: inproc_inv_def)
qed

lemma inproc_Listen_inv:
  assumes inv: "inproc_inv w" and l: "l < np_nlobj w"
  shows "inproc_inv (fst (inproc_Listen l w))"
proof -
  let ?u = "upd_il l (\<lambda>x. x\<lparr>il_active := True\<rparr>) w"
  have u: "inproc_inv ?u" by (rule listener_field_inv [OF inv]) simp_all
  have "inproc_inv (?u\<lparr>np_byAddr := (np_byAddr w)(il_addr (np_lobj w l) \<mapsto> l)\<rparr>)"
    by (rule byAddr_inv [OF u]) (use inproc_invD(2) [OF inv] l in \<open>auto simp: waiting_ok_def split: if_splits\<close>)
  then show ?thesis using inv by (simp add: inproc_Listen_def Let_def)
qed

lemma inproc_NewListener_inv: 
  assumes inv: "inproc_inv w"
  shows "inproc_inv (fst (inproc_NewListener a sp pp w))"
proof -
  note d = inproc_invD [OF inv]
  have out: "accs w (np_nlobj w) = []" using d(2) by (simp add: waiting_ok_def)
  have k: "np_byAddr w a \<noteq> Some (np_nlobj w)" for a
    using d(2) unfolding waiting_ok_def by (metis less_irrefl)
  define f where "f = (\<lambda>_ :: ilistener. \<lparr>il_addr = a, il_selfProto = sp, il_peerProto = pp, il_active = False, il_closed = False, il_accepters = []\<rparr>)"
  have f: "fst (inproc_NewListener a sp pp w) = w \<or>
      fst (inproc_NewListener a sp pp w) = (upd_il (np_nlobj w) f w)\<lparr>np_nlobj := Suc (np_nlobj w)\<rparr>"
    "\<And>x. il_accepters (f x) = []"
    by (simp_all add: inproc_NewListener_def upd_il_def f_def split: prod.splits option.splits)
  let ?t = "(upd_il (np_nlobj w) f w)\<lparr>np_nlobj := Suc (np_nlobj w)\<rparr>"
  have "waiting_ok ?t" using d(2) f(2) k unfolding waiting_ok_def by (auto simp: out less_SucI)
  moreover have "popped_ok ?t" using d(3) by (rule popped_cong [rotated 4]) (simp_all add: f(2))
  moreover have "wired_ok ?t" using d(4) by (rule wired_cong [rotated 3]) simp_all
  ultimately have "inproc_inv ?t" using d(1) by (simp add: inproc_inv_def)
  then show ?thesis using f(1) inv by auto
qed

lemma enqueue_inv:
  assumes inv: "inproc_inv w" and l: "l < np_nlobj w" and p: "p < np_nobj w" "idle (np_obj w p)"
    and pr: "i_selfProto (np_obj w p) = il_selfProto (np_lobj w l)" "i_peerProto (np_obj w p) = il_peerProto (np_lobj w l)"
      "i_addr (np_obj w p) = il_addr (np_lobj w l)"
    and na: "\<And>k. p \<notin> set (accs w k)" and np: "p \<notin> fst ` set (np_popped w)" "p \<notin> snd ` set (np_popped w)"
  shows "inproc_inv (upd_il l (\<lambda>x. x\<lparr>il_accepters := il_accepters x @ [p]\<rparr>) w)"
proof -
  let ?t = "upd_il l (\<lambda>x. x\<lparr>il_accepters := il_accepters x @ [p]\<rparr>) w"
  note d = inproc_invD [OF inv]
  have a: "accs ?t k = (if k = l then accs w l @ [p] else accs w k)" "il_addr (np_lobj ?t k) = il_addr (np_lobj w k)"
    "il_selfProto (np_lobj ?t k) = il_selfProto (np_lobj w k)" "il_peerProto (np_lobj ?t k) = il_peerProto (np_lobj w k)" for k
    by simp_all
  have "waiting_ok ?t" using d(2) l p pr na unfolding waiting_ok_def a by auto
  moreover have "popped_ok ?t" using d(3) np unfolding popped_ok_def a by auto
  moreover have "wired_ok ?t" using d(4) by (rule wired_cong [rotated 3]) simp_all
  ultimately show ?thesis using d(1) by (simp add: inproc_inv_def)
qed

lemma fresh_out:
  assumes "inproc_inv w"
  shows "np_nobj w \<notin> set (accs w k)" "np_nobj w \<notin> fst ` set (np_popped w)" "np_nobj w \<notin> snd ` set (np_popped w)"
  using inproc_invD(2,3) [OF assms] unfolding waiting_ok_def popped_ok_def by fastforce+

lemma new_ipipe_simps [simp]:
  "fst (new_ipipe sp pp a w) = np_nobj w" "np_obj (snd (new_ipipe sp pp a w)) = (np_obj w)(np_nobj w := fresh_ipipe sp pp a)"
  "np_nobj (snd (new_ipipe sp pp a w)) = Suc (np_nobj w)" "np_lobj (snd (new_ipipe sp pp a w)) = np_lobj w"
  "np_nlobj (snd (new_ipipe sp pp a w)) = np_nlobj w" "np_popped (snd (new_ipipe sp pp a w)) = np_popped w"
  by (simp_all add: new_ipipe_def)

lemma fresh_idle [simp]: "idle (fresh_ipipe sp pp a)"
  by (simp add: idle_def fresh_ipipe_def)

lemma inproc_Accept_inv:
  assumes inv: "inproc_inv w" and l: "l < np_nlobj w"
  shows "inproc_inv (fst (inproc_Accept_begin l w))"
proof -
  let ?x = "np_lobj w l"
  let ?u = "snd (new_ipipe (il_selfProto ?x) (il_peerProto ?x) (il_addr ?x) w)"
  have u: "inproc_inv ?u" by (rule new_pipe_inv [OF inv])
  have "inproc_inv (upd_il l (\<lambda>x. x\<lparr>il_accepters := il_accepters x @ [np_nobj w]\<rparr>) ?u)"
    by (rule enqueue_inv [OF u]) (use l fresh_out [OF inv] in \<open>simp_all add: fresh_ipipe_def idle_def\<close>)
  then show ?thesis
    using u by (simp add: inproc_Accept_begin_def Let_def split_beta)
qed

lemma pop_inv:
  assumes inv: "inproc_inv w" and c: "c < np_nobj w" "idle (np_obj w c)" "\<And>k. c \<notin> set (accs w k)"
      "c \<notin> fst ` set (np_popped w)" "c \<notin> snd ` set (np_popped w)"
    and pr: "i_selfProto (np_obj w c) = il_peerProto (np_lobj w l)" "i_peerProto (np_obj w c) = il_selfProto (np_lobj w l)"
      "i_addr (np_obj w c) = il_addr (np_lobj w l)"
    and ne: "accs w l \<noteq> []"
  shows "inproc_inv ((upd_il l (\<lambda>x. x\<lparr>il_accepters := butlast (il_accepters x)\<rparr>) w)\<lparr>np_popped := np_popped w @ [(c, last (accs w l))]\<rparr>)"
    (is "inproc_inv ?t")
proof -
  note d = inproc_invD [OF inv]
  define as where "as = butlast (accs w l)" define s where "s = last (accs w l)"
  have al: "accs w l = as @ [s]" using ne by (simp add: as_def s_def)
  have a: "accs ?t k = (if k = l then as else accs w k)" "il_addr (np_lobj ?t k) = il_addr (np_lobj w k)"
    "il_selfProto (np_lobj ?t k) = il_selfProto (np_lobj w k)" "il_peerProto (np_lobj ?t k) = il_peerProto (np_lobj w k)" for k
    by (simp_all add: as_def)
  have t: "np_popped ?t = np_popped w @ [(c, s)]" "np_obj ?t = np_obj w" "np_nobj ?t = np_nobj w" "np_nlobj ?t = np_nlobj w"
    "np_byAddr ?t = np_byAddr w" by (simp_all add: s_def)
  have sub: "set (accs ?t k) \<subseteq> set (accs w k)" for k unfolding a using al by auto
  have sl: "s \<in> set (accs w l)" "distinct (as @ [s])" "np_nlobj w \<le> l \<Longrightarrow> as @ [s] = []"
    using waitingD(1,2) [OF d(2), of l] by (simp_all add: al)
  have dk: "distinct (accs ?t k)" "np_nlobj w \<le> k \<Longrightarrow> accs ?t k = []" for k
    using sl waitingD(1,2) [OF d(2), of k] unfolding a by auto
  have s: "s < np_nobj w" "idle (np_obj w s)" "i_selfProto (np_obj w s) = il_selfProto (np_lobj w l)"
    "i_peerProto (np_obj w s) = il_peerProto (np_lobj w l)" "i_addr (np_obj w s) = il_addr (np_lobj w l)" "s \<notin> set as" "s \<noteq> c"
    using waitingD(3) [OF d(2) sl(1)] sl c(3) by auto
  have s2: "s \<notin> fst ` set (np_popped w)" "s \<notin> snd ` set (np_popped w)"
    using d(3) sl(1) unfolding popped_ok_def by blast+
  have so: "s \<notin> set (accs ?t k)" for k
    using waitingD(4) [OF d(2) sl(1), of k] s(6) unfolding a by auto
  have "waiting_ok ?t"
    unfolding waiting_ok_def t a(2-4) using dk waitingD(3,4,5) [OF d(2)] sub by (meson subsetD)
  moreover have "popped_ok ?t"
    unfolding popped_ok_def
  proof (intro conjI allI ballI)
    show "distinct (map fst (np_popped ?t) @ map snd (np_popped ?t))"
      using poppedD(1) [OF d(3)] c(4,5) s2 s(7) unfolding t by auto
    show "case x of (c, s) \<Rightarrow> c < np_nobj ?t \<and> s < np_nobj ?t \<and> idle (np_obj ?t c) \<and> idle (np_obj ?t s) \<and>
        i_selfProto (np_obj ?t c) = i_peerProto (np_obj ?t s) \<and> i_peerProto (np_obj ?t c) = i_selfProto (np_obj ?t s) \<and>
        i_addr (np_obj ?t c) = i_addr (np_obj ?t s)" if "x \<in> set (np_popped ?t)" for x
      using that poppedD(2) [OF d(3), of "fst x" "snd x"] c(1,2) s pr unfolding t by auto
    fix k p assume p: "p \<in> set (accs ?t k)"
    then have "p \<in> set (accs w k)" "p \<noteq> s" using sub so by blast+
    then show "p \<notin> fst ` set (np_popped ?t)" "p \<notin> snd ` set (np_popped ?t)"
      using poppedD(3,4) [OF d(3)] c(3) unfolding t by auto
  qed
  moreover have "wired_ok ?t" using d(4) by (rule wired_cong [rotated 3]) simp_all
  ultimately show ?thesis using d(1) by (simp add: inproc_inv_def)
qed

lemma inproc_Dial_turn_inv:
  assumes inv: "inproc_inv w" and c: "c < np_nobj w" "np_obj w c = fresh_ipipe sp pp a" "\<And>k. c \<notin> set (accs w k)"
      "c \<notin> fst ` set (np_popped w)" "c \<notin> snd ` set (np_popped w)"
  shows "inproc_inv (fst (inproc_Dial_turn (a, sp, pp) c w))"
proof (cases "np_byAddr w a")
  case (Some l)
  have ad: "il_addr (np_lobj w l) = a" using waitingD(5) [OF inproc_invD(2) [OF inv] Some] by simp
  show ?thesis
    using pop_inv [OF inv, of c l] c inv by (simp add: inproc_Dial_turn_def Some Let_def ad fresh_ipipe_def idle_def)
qed (use inv in \<open>simp add: inproc_Dial_turn_def\<close>)

lemma inproc_Dial_inv:
  assumes inv: "inproc_inv w"
  shows "inproc_inv (fst (let (c, w1) = inproc_Dial_begin d w in inproc_Dial_turn d c w1))"
proof -
  obtain a sp pp where d: "d = (a, sp, pp)" by (cases d)
  have "inproc_inv (fst (inproc_Dial_turn (a, sp, pp) (np_nobj w) (snd (new_ipipe sp pp a w))))"
    by (rule inproc_Dial_turn_inv [OF new_pipe_inv [OF inv]]) (use fresh_out [OF inv] in simp_all)
  then show ?thesis by (simp add: d inproc_Dial_begin_def split_beta)
qed

lemma wire_fields:
  assumes "c \<noteq> s" "idle (np_obj w c)" "idle (np_obj w s)"
  shows "np_obj (inproc_Dial_wire (c, s) w) =
     (np_obj w)(s := (np_obj w s)\<lparr>i_wq := np_nchan w, i_rq := Suc (np_nchan w), i_peer := Some c, i_readyq := True\<rparr>,
                c := (np_obj w c)\<lparr>i_rq := np_nchan w, i_wq := Suc (np_nchan w), i_peer := Some s, i_readyq := True\<rparr>)"
    "np_popped (inproc_Dial_wire (c, s) w) = remove1 (c, s) (np_popped w)" "np_nchan (inproc_Dial_wire (c, s) w) = Suc (Suc (np_nchan w))"
    "np_lobj (inproc_Dial_wire (c, s) w) = np_lobj w" "np_nlobj (inproc_Dial_wire (c, s) w) = np_nlobj w"
    "np_nobj (inproc_Dial_wire (c, s) w) = np_nobj w" "np_byAddr (inproc_Dial_wire (c, s) w) = np_byAddr w"
    "np_panicked (inproc_Dial_wire (c, s) w) = np_panicked w" "np_offers (inproc_Dial_wire (c, s) w) = np_offers w"
  using assms by (simp_all add: inproc_Dial_wire_def close_ready_def Let_def idle_def fun_upd_twist)

lemma inproc_wire_inv:
  assumes inv: "inproc_inv w" and cs: "(c, s) \<in> set (np_popped w)"
  shows "inproc_inv (inproc_Dial_wire (c, s) w)" "ends (inproc_Dial_wire (c, s) w) c s"
proof -
  let ?t = "inproc_Dial_wire (c, s) w" let ?n = "np_nchan w"
  note d = inproc_invD [OF inv]
  have x: "c < np_nobj w" "s < np_nobj w" "idle (np_obj w c)" "idle (np_obj w s)" "i_selfProto (np_obj w c) = i_peerProto (np_obj w s)"
    "i_peerProto (np_obj w c) = i_selfProto (np_obj w s)" "i_addr (np_obj w c) = i_addr (np_obj w s)"
    using d(3) cs unfolding popped_ok_def by blast+
  have ne: "c \<noteq> s" using popped_ne [OF d(3) cs cs] .
  note t = wire_fields [OF ne x(3,4)]
  have e0: "\<not> ends w p c" "\<not> ends w p s" "\<not> ends w c p" "\<not> ends w s p" for p
    using x(3,4) by (simp_all add: ends_def idle_def)
  have mono: "ends w p q \<Longrightarrow> ends ?t p q" for p q
  proof -
    assume pq: "ends w p q"
    then have "np_obj ?t p = np_obj w p" "np_obj ?t q = np_obj w q" using e0 by (auto simp: t)
    then show ?thesis using pq by (simp add: ends_def)
  qed
  show ends: "ends ?t c s" using ne x(5-7) by (simp add: ends_def t)
  then have ends': "ends ?t s c" by (auto simp: ends_def)
  have w: "wired_ok ?t"
    unfolding wired_ok_def
  proof (intro conjI allI impI)
    fix p q
    show "if i_readyq (np_obj ?t p) then p < np_nobj ?t \<and> i_once (np_obj ?t p) = i_closeq (np_obj ?t p) \<and>
          i_rq (np_obj ?t p) < np_nchan ?t \<and> (\<exists>q. ends ?t p q) else i_peer (np_obj ?t p) = None"
      using wiredD(1-5) [OF d(4), of p] x(1-4) ends ends' mono by (auto simp: t idle_def less_SucI)
    assume r: "i_readyq (np_obj ?t p)" "i_readyq (np_obj ?t q)" "i_rq (np_obj ?t p) = i_rq (np_obj ?t q)"
    show "p = q"
      using r wiredD(3) [OF d(4), of p] wiredD(3) [OF d(4), of q] wiredD(6) [OF d(4), of p q]
      by (auto simp: t split: if_splits)
  qed
  have ca: "c \<notin> set (accs w k)" "s \<notin> set (accs w k)" for k
    using poppedD(3,4) [OF d(3), of _ k] cs by force+
  have "waiting_ok ?t"
  proof -
    have "np_obj ?t p = np_obj w p" if "p \<in> set (accs w k)" for p k using ca that by (auto simp: t)
    then show ?thesis using d(2) by (simp add: waiting_ok_def t(4-7))
  qed
  moreover have "popped_ok ?t"
  proof -
    note o = popped_other [OF d(3) cs]
    have "distinct (map fst (np_popped ?t) @ map snd (np_popped ?t))"
      using poppedD(1) [OF d(3)] by (auto simp: t distinct_map inj_on_def dest: notin_set_remove1 set_remove1_subset [THEN subsetD])
    moreover have "case x of (c', s') \<Rightarrow> c' < np_nobj ?t \<and> s' < np_nobj ?t \<and> idle (np_obj ?t c') \<and> idle (np_obj ?t s') \<and>
        i_selfProto (np_obj ?t c') = i_peerProto (np_obj ?t s') \<and> i_peerProto (np_obj ?t c') = i_selfProto (np_obj ?t s') \<and>
        i_addr (np_obj ?t c') = i_addr (np_obj ?t s')" if "x \<in> set (np_popped ?t)" for x
      using that o [of "fst x" "snd x"] poppedD(2) [OF d(3), of "fst x" "snd x"] by (simp add: t split_beta)
    moreover have "p \<notin> fst ` set (np_popped ?t) \<and> p \<notin> snd ` set (np_popped ?t)" if "p \<in> set (accs ?t l)" for p l
      using that poppedD(3,4) [OF d(3), of p l] set_remove1_subset unfolding t by fast
    ultimately show ?thesis unfolding popped_ok_def by blast
  qed
  ultimately show "inproc_inv ?t" using w d(1) by (simp add: inproc_inv_def t)
qed

text \<open>Marking one pipe object that nobody waits for as closed keeps the invariant.\<close>

lemma pipe_mark_inv:
  assumes inv: "inproc_inv w" and na: "\<And>k. p \<notin> set (accs w k)" and np: "p \<notin> fst ` set (np_popped w)" "p \<notin> snd ` set (np_popped w)"
    and f: "i_readyq (f (np_obj w p)) = i_readyq (np_obj w p)" "i_rq (f (np_obj w p)) = i_rq (np_obj w p)" "i_wq (f (np_obj w p)) = i_wq (np_obj w p)"
      "i_peer (f (np_obj w p)) = i_peer (np_obj w p)" "i_selfProto (f (np_obj w p)) = i_selfProto (np_obj w p)"
      "i_peerProto (f (np_obj w p)) = i_peerProto (np_obj w p)" "i_addr (f (np_obj w p)) = i_addr (np_obj w p)"
    and r: "i_readyq (np_obj w p) \<Longrightarrow> i_once (f (np_obj w p)) = i_closeq (f (np_obj w p))"
  shows "inproc_inv (upd_ip p f w)"
proof -
  let ?t = "upd_ip p f w"
  note d = inproc_invD [OF inv]
  have g: "i_readyq (np_obj ?t q) = i_readyq (np_obj w q)" "i_rq (np_obj ?t q) = i_rq (np_obj w q)" "i_wq (np_obj ?t q) = i_wq (np_obj w q)"
      "i_peer (np_obj ?t q) = i_peer (np_obj w q)" "i_selfProto (np_obj ?t q) = i_selfProto (np_obj w q)"
      "i_peerProto (np_obj ?t q) = i_peerProto (np_obj w q)" "i_addr (np_obj ?t q) = i_addr (np_obj w q)" for q
    by (simp_all add: f)
  have "ends ?t = ends w" by (intro ext) (simp only: ends_def g)
  moreover have "i_readyq (np_obj w q) \<Longrightarrow> i_once (np_obj ?t q) = i_closeq (np_obj ?t q)" for q
    using r wiredD(2) [OF d(4), of q] by auto
  ultimately have "wired_ok ?t"
    using d(4) unfolding wired_ok_def g by simp
  moreover have "waiting_ok ?t"
    using d(2) na unfolding waiting_ok_def by auto
  moreover have "popped_ok ?t"
  proof -
    have "np_obj ?t c = np_obj w c \<and> np_obj ?t s = np_obj w s" if "(c, s) \<in> set (np_popped w)" for c s
      using that np by force
    then have "case x of (c, s) \<Rightarrow> np_obj ?t c = np_obj w c \<and> np_obj ?t s = np_obj w s" if "x \<in> set (np_popped w)" for x
      using that by (cases x) blast
    then show ?thesis using d(3) unfolding popped_ok_def by (simp add: split_beta del: upd_ip_simps(1))
  qed
  ultimately show ?thesis using d(1) by (simp add: inproc_inv_def)
qed

lemma ready_out:
  assumes inv: "inproc_inv w" and r: "i_readyq (np_obj w p)"
  shows "p \<notin> set (accs w k)" "p \<notin> fst ` set (np_popped w)" "p \<notin> snd ` set (np_popped w)"
  using waitingD(3) [OF inproc_invD(2) [OF inv], of p k] poppedD(2) [OF inproc_invD(3) [OF inv]] r by (force simp: idle_def)+

lemma inproc_Close_inv:
  assumes inv: "inproc_inv w" and r: "i_readyq (np_obj w p)"
  shows "inproc_inv (inproc_Close p w)"
proof (cases "i_once (np_obj w p)")
  case False
  then have nc: "\<not> i_closeq (np_obj w p)" using wiredD(2) [OF inproc_invD(4) [OF inv] r] by simp
  have "inproc_Close p w = upd_ip p (\<lambda>x. x\<lparr>i_once := True, i_closeq := True\<rparr>) w"
    using False nc by (simp add: inproc_Close_def close_pipe_q_def upd_ip_def)
  then show ?thesis using pipe_mark_inv [OF inv ready_out [OF inv r]] by simp
qed (simp add: inproc_Close_def inv)

lemma fold_close_inv:
  assumes "inproc_inv w" "distinct ps"
    "\<And>p. p \<in> set ps \<Longrightarrow> idle (np_obj w p) \<and> (\<forall>k. p \<notin> set (accs w k)) \<and> p \<notin> fst ` set (np_popped w) \<and> p \<notin> snd ` set (np_popped w)"
  shows "inproc_inv (fold close_pipe_q ps w)"
  using assms
proof (induction ps arbitrary: w)
  case (Cons p ps)
  have p: "idle (np_obj w p)" "\<And>k. p \<notin> set (accs w k)" "p \<notin> fst ` set (np_popped w)" "p \<notin> snd ` set (np_popped w)"
    using Cons.prems(3) [of p] by auto
  have c: "close_pipe_q p w = upd_ip p (\<lambda>x. x\<lparr>i_closeq := True\<rparr>) w" using p(1) by (simp add: close_pipe_q_def idle_def)
  have "inproc_inv (close_pipe_q p w)"
    unfolding c by (rule pipe_mark_inv [OF Cons.prems(1) p(2-4)]) (use p(1) in \<open>simp_all add: idle_def\<close>)
  then show ?case
    unfolding fold_Cons o_apply by (rule Cons.IH) (use Cons.prems(2,3) in \<open>auto simp: c\<close>)
qed simp

lemma inproc_listener_Close_inv:
  assumes inv: "inproc_inv w"
  shows "inproc_inv (inproc_listener_Close l w)"
proof -
  let ?x = "np_lobj w l"
  define w1 where "w1 = (if np_byAddr w (il_addr ?x) = Some l then w\<lparr>np_byAddr := (np_byAddr w)(il_addr ?x := None)\<rparr> else w)"
  let ?u = "upd_il l (\<lambda>x. x\<lparr>il_accepters := [], il_closed := True\<rparr>) w1"
  have i1: "inproc_inv w1"
  proof -
    have "inproc_inv (w\<lparr>np_byAddr := (np_byAddr w)(il_addr ?x := None)\<rparr>)"
      by (rule byAddr_inv [OF inv], rule waitingD(5) [OF inproc_invD(2) [OF inv]]) (simp split: if_splits)
    then show ?thesis using inv by (simp add: w1_def)
  qed
  have f: "np_lobj w1 = np_lobj w" "np_obj w1 = np_obj w" "np_popped w1 = np_popped w" by (simp_all add: w1_def)
  note d = inproc_invD [OF i1]
  have iu: "inproc_inv ?u"
  proof -
    have "waiting_ok ?u" using d(2) unfolding waiting_ok_def by auto
    moreover have "popped_ok ?u" using d(3) by (rule popped_cong [rotated 4]) simp_all
    moreover have "wired_ok ?u" using d(4) by (rule wired_cong [rotated 3]) simp_all
    ultimately show ?thesis using d(1) by (simp add: inproc_inv_def)
  qed
  have "inproc_inv (fold close_pipe_q (il_accepters ?x) ?u)"
  proof (rule fold_close_inv [OF iu])
    show "distinct (il_accepters ?x)" using waitingD(1) [OF inproc_invD(2) [OF inv]] .
    fix p assume p: "p \<in> set (il_accepters ?x)"
    show "idle (np_obj ?u p) \<and> (\<forall>k. p \<notin> set (accs ?u k)) \<and> p \<notin> fst ` set (np_popped ?u) \<and> p \<notin> snd ` set (np_popped ?u)"
      using waitingD(3,4) [OF inproc_invD(2) [OF inv] p] poppedD(3,4) [OF inproc_invD(3) [OF inv] p] by (auto simp: f)
  qed
  then show ?thesis by (simp add: inproc_listener_Close_def w1_def Let_def)
qed

lemma inproc_init_inv: "inproc_inv inproc_init"
  by (simp add: inproc_inv_def waiting_ok_def popped_ok_def wired_ok_def inproc_init_def fresh_ipipe_def)

lemma inproc_step_inv: "inproc_step w t \<Longrightarrow> inproc_inv w \<Longrightarrow> inproc_inv t"
proof (induction rule: inproc_step.induct)
  case (ip_wire cs w) then show ?case using inproc_wire_inv(1) [of w "fst cs" "snd cs"] by simp
next
  case (ip_sfail w p w' e b) then show ?case by (auto simp: inproc_Send_fail_def Let_def split: if_splits intro: offers_inv)
next
  case (ip_recv w p w' r) then show ?case
    by (auto simp: inproc_Recv_def Let_def split: list.splits if_splits intro: offers_inv)
next
  case (ip_dial w d) then show ?case by (rule inproc_Dial_inv)
next
  case (ip_turn c w sp pp a) then show ?case by (intro inproc_Dial_turn_inv) auto
qed (simp_all add: inproc_NewListener_inv inproc_Listen_inv inproc_Accept_inv inproc_Dial_inv inproc_listener_Close_inv inproc_Close_inv
   inproc_Send_begin_def Let_def offers_inv)

interpretation inproc: machine "\<lambda>w. w = inproc_init" inproc_step inproc_inv
  by unfold_locales (auto simp: inproc_init_inv intro: inproc_step_inv)

section \<open>Connections\<close>

lemma ends_sym: "ends w p q \<Longrightarrow> ends w q p"
  by (auto simp: ends_def)

lemma ends_peer_unique:
  "inproc_inv w \<Longrightarrow> ends w p q \<Longrightarrow> i_readyq (np_obj w r) \<Longrightarrow> i_rq (np_obj w r) = i_wq (np_obj w p) \<Longrightarrow> r = q"
  by (rule wiredD(6) [OF inproc_invD(4)]) (auto simp: ends_def)

lemma inproc_Send_offers:
  "np_offers (inproc_Send_begin p m w) =
     (np_offers w)(i_wq (np_obj w p) := np_offers w (i_wq (np_obj w p)) @ [Header m @ Body m])"
  by (simp add: inproc_Send_begin_def Let_def)

text \<open>
  C27: Whatever order the calls of listeners, dialers and pipes run in, no channel is closed twice, and
  every pipe that \<^verbatim>\<open>Dial\<close> or \<^verbatim>\<open>Accept\<close> has returned is one end of a connection: it has a peer
  that names it back, speaks the complementary protocol at the same address, and reads what it
  writes; a sent message is offered, header and body in one, to that peer and to no other pipe, and
  the peer's \<^verbatim>\<open>Recv\<close> takes the oldest offer.
\<close>

theorem inproc_connection:
  assumes "inproc_step\<^sup>*\<^sup>* inproc_init w" and "i_readyq (np_obj w p)"
  shows "\<not> np_panicked w \<and>
    (\<exists>q. ends w p q \<and>
       np_offers (inproc_Send_begin p m w) (i_rq (np_obj w q)) = np_offers w (i_rq (np_obj w q)) @ [Header m @ Body m] \<and>
       (\<forall>r. i_readyq (np_obj w r) \<longrightarrow> r \<noteq> q \<longrightarrow> np_offers (inproc_Send_begin p m w) (i_rq (np_obj w r)) = np_offers w (i_rq (np_obj w r))) \<and>
       Inr (hd (np_offers w (i_rq (np_obj w q)) @ [Header m @ Body m])) \<in> snd ` set (inproc_Recv q (inproc_Send_begin p m w)))"
proof -
  have inv: "inproc_inv w" using inproc.reachable_inv [OF _ assms(1)] by simp
  obtain q where q: "ends w p q" using wiredD(4) [OF inproc_invD(4) [OF inv] assms(2)] by blast
  then have e: "i_wq (np_obj w p) = i_rq (np_obj w q)" by (simp add: ends_def)
  have "Inr (hd (np_offers w (i_rq (np_obj w q)) @ [Header m @ Body m])) \<in> snd ` set (inproc_Recv q (inproc_Send_begin p m w))"
    by (cases "np_offers w (i_rq (np_obj w q))") (simp_all add: inproc_Recv_def inproc_Send_begin_def Let_def e)
  then show ?thesis
    using inproc_invD(1) [OF inv] q ends_peer_unique [OF inv q] by (auto simp: inproc_Send_offers e)
qed

text \<open>A listener, a waiting accepter, a dialer of the complementary protocol, and the wiring.\<close>

definition inproc_popped_state :: iworld where
  "inproc_popped_state =
     (let w1 = fst (inproc_NewListener ''inproc://a'' 16 17 inproc_init);
          w2 = fst (inproc_Listen 0 w1);
          w3 = fst (inproc_Accept_begin 0 w2)
      in fst (let (c, w) = inproc_Dial_begin (''inproc://a'', 17, 16) w3 in inproc_Dial_turn (''inproc://a'', 17, 16) c w))"

lemma inproc_popped_reachable: "inproc_step\<^sup>*\<^sup>* inproc_init inproc_popped_state"
proof -
  define w1 where "w1 = fst (inproc_NewListener ''inproc://a'' 16 17 inproc_init)"
  have n1: "0 < np_nlobj w1" unfolding w1_def by code_simp
  have n2: "0 < np_nlobj (fst (inproc_Listen 0 w1))" unfolding w1_def by code_simp
  have "inproc_step inproc_init w1" unfolding w1_def by (rule ip_newl)
  moreover have "inproc_step w1 (fst (inproc_Listen 0 w1))" using n1 by (rule ip_listen)
  moreover have "inproc_step (fst (inproc_Listen 0 w1)) (fst (inproc_Accept_begin 0 (fst (inproc_Listen 0 w1))))"
    using n2 by (rule ip_accept)
  moreover have "inproc_step (fst (inproc_Accept_begin 0 (fst (inproc_Listen 0 w1)))) inproc_popped_state"
    unfolding inproc_popped_state_def w1_def Let_def by (rule ip_dial [unfolded Let_def])
  ultimately show ?thesis by (meson rtranclp.rtrancl_into_rtrancl rtranclp.rtrancl_refl)
qed

lemma inproc_pair_reachable: "inproc_step\<^sup>*\<^sup>* inproc_init (inproc_Dial_wire (1, 0) inproc_popped_state)"
proof -
  have "(1, 0) \<in> set (np_popped inproc_popped_state)" by code_simp
  then show ?thesis using inproc_popped_reachable ip_wire rtranclp.rtrancl_into_rtrancl by metis
qed

theorem inproc_connection_witness:
  "\<not> np_panicked (inproc_Dial_wire (1, 0) inproc_popped_state) \<and>
   (\<exists>q. ends (inproc_Dial_wire (1, 0) inproc_popped_state) 1 q)"
proof -
  have "i_readyq (np_obj (inproc_Dial_wire (1, 0) inproc_popped_state) 1)" by code_simp
  then show ?thesis using inproc_connection [OF inproc_pair_reachable] by blast
qed

end
