(* ===== verification/CoreIO.thy ===== *)
theory CoreIO
  imports CorePipe Inproc Conn
begin

text \<open>
  What the core does with messages and pipe options: \<^verbatim>\<open>SendMsg\<close>, \<^verbatim>\<open>RecvMsg\<close>, \<^verbatim>\<open>GetOption\<close> and the
  accessors of \<^verbatim>\<open>internal/core/pipe.go\<close>, and \<^verbatim>\<open>Send\<close> and \<^verbatim>\<open>Recv\<close> of \<^verbatim>\<open>internal/core/socket.go\<close>. The transport's and the protocol's answers are
  arguments; messages live in the heap of \<open>Message\<close>.
\<close>

section \<open>Pipes\<close>

definition pipe_ID :: "nat \<Rightarrow> core \<Rightarrow> u32 option" where
  "pipe_ID n c = map_option cp_id (cobjs c n)"

text \<open>The protocol calls these for its pipe \<open>n\<close>; the transport answered \<open>st\<close> or \<open>r\<close>.\<close>

definition pipe_SendMsg :: "nat \<Rightarrow> status \<Rightarrow> core \<Rightarrow> core \<times> status" where
  "pipe_SendMsg n st c = (case st of Some e \<Rightarrow> (pipe_Close n c, Some e) | None \<Rightarrow> (c, None))"

definition pipe_RecvMsg :: "nat \<Rightarrow> err + message \<Rightarrow> core \<Rightarrow> core \<times> message option" where
  "pipe_RecvMsg n r c =
     (case r of Inl e \<Rightarrow> (pipe_Close n c, None) | Inr m \<Rightarrow> (c, Some (m\<lparr>m_pipe := pipe_ID n c\<rparr>)))"

definition pipe_Address :: "string option \<Rightarrow> string option \<Rightarrow> string" where
  "pipe_Address l d = (case l of Some a \<Rightarrow> a | None \<Rightarrow> (case d of Some a \<Rightarrow> a | None \<Rightarrow> []))"

text \<open>The answers of the transport's pipe, of the dialer and of the listener.\<close>

definition pipe_GetOption ::
    "(string \<Rightarrow> err + optval) \<Rightarrow> (string \<Rightarrow> err + optval) option \<Rightarrow> (string \<Rightarrow> err + optval) option \<Rightarrow> string \<Rightarrow> err + optval" where
  "pipe_GetOption tp d l name =
     (if tp name = Inl ErrBadOption
      then (case d of Some g \<Rightarrow> g name | None \<Rightarrow> (case l of Some g \<Rightarrow> g name | None \<Rightarrow> tp name))
      else tp name)"

record 'a dpipe = cpipe +
  cp_data :: "'a option"

definition pipe_SetPrivate :: "'a option \<Rightarrow> 'a dpipe \<Rightarrow> 'a dpipe" where
  "pipe_SetPrivate i p = p\<lparr>cp_data := i\<rparr>"

definition pipe_GetPrivate :: "'a dpipe \<Rightarrow> 'a option" where
  "pipe_GetPrivate p = cp_data p"

section \<open>Sockets and contexts\<close>

text \<open>
  \<^verbatim>\<open>Send\<close> and \<^verbatim>\<open>Recv\<close> of a socket or context, over the protocol's \<^verbatim>\<open>SendMsg\<close> and \<^verbatim>\<open>RecvMsg\<close>, which
  work on the message heap and the protocol's state; \<open>k\<close> is the choice of the pool.
\<close>

definition sock_Send :: "(nat \<Rightarrow> mheap \<times> 'p \<Rightarrow> (mheap \<times> 'p) \<times> status) \<Rightarrow> nat \<Rightarrow> bytes \<Rightarrow> mheap \<times> 'p \<Rightarrow> (mheap \<times> 'p) \<times> status" where
  "sock_Send psend k b hs =
     (case hs of (h, s) \<Rightarrow>
        (case NewMessage (length b) k h of (r, h1) \<Rightarrow> psend r (upd_obj r (\<lambda>x. x\<lparr>o_Body := o_Body x @ b\<rparr>) h1, s)))"

definition sock_Recv :: "(mheap \<times> 'p \<Rightarrow> (mheap \<times> 'p) \<times> (err + nat)) \<Rightarrow> mheap \<times> 'p \<Rightarrow> (mheap \<times> 'p) \<times> (err + bytes)" where
  "sock_Recv precv hs =
     (case precv hs of
        (hs1, Inl e) \<Rightarrow> (hs1, Inl e)
      | ((h1, s1), Inr r) \<Rightarrow>
          (case objs h1 r of
             Some x \<Rightarrow> ((Message_Free (Some r) h1, s1), Inr (o_Body x))
           | None \<Rightarrow> ((h1, s1), Inr [])))"

text \<open>A context is the protocol's context with the same two calls.\<close>

definition ctx_Send :: "(nat \<Rightarrow> mheap \<times> 'p \<Rightarrow> (mheap \<times> 'p) \<times> status) \<Rightarrow> nat \<Rightarrow> bytes \<Rightarrow> mheap \<times> 'p \<Rightarrow> (mheap \<times> 'p) \<times> status" where
  "ctx_Send csend k b hs =
     (case NewMessage (length b) k (fst hs) of (r, h1) \<Rightarrow> csend r (upd_obj r (\<lambda>x. x\<lparr>o_Body := o_Body x @ b\<rparr>) h1, snd hs))"

definition ctx_Recv :: "(mheap \<times> 'p \<Rightarrow> (mheap \<times> 'p) \<times> (err + nat)) \<Rightarrow> mheap \<times> 'p \<Rightarrow> (mheap \<times> 'p) \<times> (err + bytes)" where
  "ctx_Recv crecv hs =
     (case crecv hs of
        (hs1, Inl e) \<Rightarrow> (hs1, Inl e)
      | (hs1, Inr r) \<Rightarrow>
          (let b = (case objs (fst hs1) r of Some x \<Rightarrow> o_Body x | None \<Rightarrow> [])
           in ((case objs (fst hs1) r of Some x \<Rightarrow> Message_Free (Some r) (fst hs1) | None \<Rightarrow> fst hs1, snd hs1), Inr b)))"

lemma ctx_calls: "ctx_Send = sock_Send" "ctx_Recv = sock_Recv"
  by (auto simp: fun_eq_iff ctx_Send_def sock_Send_def ctx_Recv_def sock_Recv_def split: prod.splits sum.splits option.splits)

definition sock_OpenContext :: "('p \<Rightarrow> 'p \<times> (err + 'c)) \<Rightarrow> 'p \<Rightarrow> 'p \<times> (err + 'c)" where
  "sock_OpenContext popen s = (case popen s of (s1, Inl e) \<Rightarrow> (s1, Inl e) | (s1, Inr c) \<Rightarrow> (s1, Inr c))"

section \<open>Lemmas\<close>

text \<open>A failed transfer closes the pipe; a received message carries the ID of its pipe.\<close>

lemma pipe_SendMsg_step: "core_step c (fst (pipe_SendMsg n (Some e) c))"
  by (simp add: pipe_SendMsg_def cs_close)

lemma pipe_fail_closed:
  assumes "cobjs c n = Some p"
  shows "tran_closed (pipe_Close n c) n \<or> cp_once p"
    "\<exists>q. cobjs (pipe_Close n c) n = Some q \<and> cp_once q"
  using assms by (auto simp: pipe_Close_def remPipe_def set_pipe_def pipeList_Remove_def Let_def)

lemma pipe_RecvMsg_stamps:
  "cobjs c n = Some p \<Longrightarrow> pipe_RecvMsg n (Inr m) c = (c, Some (m\<lparr>m_pipe := Some (cp_id p)\<rparr>))"
  by (simp add: pipe_RecvMsg_def pipe_ID_def)

lemma pipe_RecvMsg_error: "pipe_RecvMsg n (Inl e) c = (pipe_Close n c, None)"
  by (simp add: pipe_RecvMsg_def)

text \<open>
  The fall-back to dialer and listener asks for \<^verbatim>\<open>ErrBadOption\<close>; the pipes of the stream and the
  intra-process transports answer \<^verbatim>\<open>ErrBadProperty\<close>, so it is never taken for them.
\<close>

lemma conn_no_fallback: "pipe_GetOption (\<lambda>n. conn_GetOption n p) d l name = conn_GetOption name p"
  by (auto simp: pipe_GetOption_def conn_GetOption_def split: option.splits)

lemma inproc_no_fallback:
  "pipe_GetOption (\<lambda>n. map_sum id f (inproc_GetOption n p w)) d l name = map_sum id f (inproc_GetOption name p w)"
  by (simp add: pipe_GetOption_def inproc_GetOption_def)

text \<open>\<^verbatim>\<open>Send\<close> hands the protocol a message of its own: not live before, one reference, the bytes as body.\<close>

lemma sock_Send_message:
  assumes ok: "mheap_ok h"
  obtains r h2 where "sock_Send psend k b (h, s) = psend r (h2, s)" "\<not> live h r" "mheap_ok h2"
    "\<exists>x. objs h2 r = Some x \<and> o_Body x = b \<and> o_Header x = [] \<and> o_refcnt x = 1"
    "\<And>q. live h q \<Longrightarrow> objs h2 q = objs h q"
proof -
  obtain r h1 where n: "NewMessage (length b) k h = (r, h1)" by (cases "NewMessage (length b) k h")
  note p = NewMessage_props [OF ok n]
  show thesis
  proof (rule that [of r "upd_obj r (\<lambda>x. x\<lparr>o_Body := o_Body x @ b\<rparr>) h1"])
    show "mheap_ok (upd_obj r (\<lambda>x. x\<lparr>o_Body := o_Body x @ b\<rparr>) h1)" using p(2,3) by (rule mheap_ok_upd)
    show "objs (upd_obj r (\<lambda>x. x\<lparr>o_Body := o_Body x @ b\<rparr>) h1) q = objs h q" if "live h q" for q
      using that p(1,4) by (cases "q = r") auto
  qed (use p(1,5) in \<open>auto simp: sock_Send_def n\<close>)
qed

text \<open>\<^verbatim>\<open>Recv\<close> returns a copy of the body and gives its reference to the message back.\<close>

lemma sock_Recv_result:
  assumes "precv hs = ((h1, s1), Inr r)" and "objs h1 r = Some x"
  shows "sock_Recv precv hs = ((Message_Free (Some r) h1, s1), Inr (o_Body x))"
  using assms by (simp add: sock_Recv_def)

end
