(* ===== verification/Req.thy ===== *)
theory Req
  imports Chan
begin

text \<open>
  The REQ protocol, \<^verbatim>\<open>protocol/req/req.go\<close>. Contexts and pipes are objects named by numbers;
  every function that runs under the socket lock is one atomic operation. \<^verbatim>\<open>SendMsg\<close> and
  \<^verbatim>\<open>RecvMsg\<close> block on the context's condition variable: their entry is one operation and each
  re-evaluation of the wait condition is another (the model may re-evaluate at any time). The
  local variables that a blocked \<^verbatim>\<open>RecvMsg\<close> keeps (the request ID it waits for and its
  \<^verbatim>\<open>expired\<close> flag) are the context fields \<open>c_waitID\<close> and \<open>c_expired\<close>. Goroutines started
  with \<^verbatim>\<open>go p.sendCtx\<close> are the list \<open>r_inflight\<close>; timer callbacks are operations.
  \<^verbatim>\<open>s.contexts\<close> is a list whose order stands for the arbitrary iteration order of a Go map.
\<close>

section \<open>State\<close>

record rctx =
  c_resendTime :: int
  c_sendExpire :: int
  c_receiveExpire :: int
  c_sendTimer :: bool
  c_receiveTimer :: bool
  c_resendTimer :: bool
  c_reqMsg :: "message option"
  c_repMsg :: "message option"
  c_sendMsg :: "message option"
  c_lastPipe :: "nat option"
  c_reqID :: u32
  c_receiveWait :: bool
  c_bestEffort :: bool
  c_failNoPeers :: bool
  c_queued :: bool
  c_closed :: bool
  c_waitID :: u32
  c_expired :: bool

record rsock = "message world" +
  r_ctxs :: "nat \<Rightarrow> rctx"
  r_nctx :: nat
  r_contexts :: "nat list"
  r_ctxByID :: "u32 \<rightharpoonup> nat"
  r_nextID :: u32
  r_closed :: bool
  r_sendQ :: "nat list"
  r_readyQ :: "nat list"
  r_pipes :: "nat set"
  r_pclosed :: "nat \<Rightarrow> bool"
  r_inflight :: "(nat \<times> message) list"

definition upd_ctx :: "nat \<Rightarrow> (rctx \<Rightarrow> rctx) \<Rightarrow> rsock \<Rightarrow> rsock" where
  "upd_ctx c f s = s\<lparr>r_ctxs := (r_ctxs s)(c := f (r_ctxs s c))\<rparr>"

definition free_opt :: "message option \<Rightarrow> rsock \<Rightarrow> rsock" where
  "free_opt m s = (case m of None \<Rightarrow> s | Some x \<Rightarrow> Free (m_id x) s)"

definition same_msg :: "message option \<Rightarrow> message \<Rightarrow> bool" where
  "same_msg x m \<longleftrightarrow> map_option m_id x = Some (m_id m)"

definition no_peers :: "nat \<Rightarrow> rsock \<Rightarrow> bool" where
  "no_peers c s \<longleftrightarrow> c_failNoPeers (r_ctxs s c) \<and> r_pipes s = {}"

section \<open>Sending\<close>

text \<open>The body of the loop in \<^verbatim>\<open>socket.send\<close>, for the heads of the two queues.\<close>

definition send_one :: "nat \<Rightarrow> nat \<Rightarrow> rsock \<Rightarrow> rsock" where
  "send_one c p s =
     (let x = (r_ctxs s c)\<lparr>c_queued := False\<rparr>;
          x1 = (case c_sendMsg x of
                  Some m \<Rightarrow> x\<lparr>c_reqMsg := Some m, c_sendMsg := None\<rparr>
                | None \<Rightarrow> x);
          s1 = (case c_sendMsg x of
                  Some m \<Rightarrow> s\<lparr>r_ctxByID := (r_ctxByID s)(c_reqID x \<mapsto> c)\<rparr>
                | None \<Rightarrow> s);
          x2 = x1\<lparr>c_lastPipe := Some p,
                  c_resendTimer := c_resendTimer x1 \<or> c_resendTime x1 > 0\<rparr>
      in case c_reqMsg x1 of
           None \<Rightarrow> s1\<lparr>panicked := True\<rparr>
         | Some m \<Rightarrow>
             (Clone (m_id m) (upd_ctx c (\<lambda>_. x2) s1))\<lparr>r_inflight := r_inflight s @ [(p, m)]\<rparr>)"

fun send_loop :: "nat list \<Rightarrow> nat list \<Rightarrow> rsock \<Rightarrow> rsock" where
  "send_loop (c # cs) (p # ps) s =
     send_loop cs ps (send_one c p (s\<lparr>r_sendQ := cs, r_readyQ := ps\<rparr>))"
| "send_loop cs ps s = s"

definition req_send :: "rsock \<Rightarrow> rsock" where
  "req_send s = send_loop (r_sendQ s) (r_readyQ s) s"

text \<open>
  \<^verbatim>\<open>pipe.sendCtx\<close>, after the transport's \<^verbatim>\<open>SendMsg\<close> returned \<open>err\<close>.
\<close>

definition sendCtx_done :: "nat \<Rightarrow> message \<Rightarrow> status \<Rightarrow> rsock \<Rightarrow> rsock" where
  "sendCtx_done p m err s =
     (let s1 = s\<lparr>r_inflight := remove1 (p, m) (r_inflight s)\<rparr>;
          s2 = (if err \<noteq> None then Free (m_id m) s1 else s1)
      in if err = Some ErrClosed then s2
         else if \<not> r_closed s2 \<and> \<not> r_pclosed s2 p
           then req_send (s2\<lparr>r_readyQ := r_readyQ s2 @ [p]\<rparr>)
           else s2)"

definition resendMessage :: "nat \<Rightarrow> u32 \<Rightarrow> rsock \<Rightarrow> rsock" where
  "resendMessage c i s =
     (if c_reqID (r_ctxs s c) = i \<and> c_reqMsg (r_ctxs s c) \<noteq> None \<and> \<not> c_queued (r_ctxs s c)
      then req_send ((upd_ctx c (\<lambda>x. x\<lparr>c_queued := True\<rparr>) s)\<lparr>r_sendQ := r_sendQ s @ [c]\<rparr>)
      else s)"

definition cancelSend :: "nat \<Rightarrow> rsock \<Rightarrow> rsock" where
  "cancelSend c s =
     (if c_queued (r_ctxs s c)
      then (upd_ctx c (\<lambda>x. x\<lparr>c_queued := False\<rparr>) s)\<lparr>r_sendQ := remove1 c (r_sendQ s)\<rparr>
      else s)"

definition req_cancel :: "nat \<Rightarrow> rsock \<Rightarrow> rsock" where
  "req_cancel c s =
     (let s1 = cancelSend c s;
          i = c_reqID (r_ctxs s1 c);
          s2 = (if i \<noteq> 0 then (upd_ctx c (\<lambda>x. x\<lparr>c_reqID := 0\<rparr>) s1)\<lparr>r_ctxByID := (r_ctxByID s1)(i := None)\<rparr>
                else s1);
          s3 = free_opt (c_reqMsg (r_ctxs s2 c)) (free_opt (c_repMsg (r_ctxs s2 c)) s2)
      in upd_ctx c (\<lambda>x. x\<lparr>c_repMsg := None, c_reqMsg := None, c_resendTimer := False,
                           c_sendTimer := False, c_receiveTimer := False\<rparr>) s3)"

text \<open>
  \<^verbatim>\<open>context.SendMsg\<close> up to its wait loop: the message with its new header, the state, and
  either the value returned at once or \<open>Inr\<close> of the local \<^verbatim>\<open>expired\<close> flag.
\<close>

definition req_id :: "u32 \<Rightarrow> u32" where
  "req_id n = (n + 1) OR 0x80000000"

definition SendMsg_begin :: "nat \<Rightarrow> message \<Rightarrow> rsock \<Rightarrow> message \<times> rsock \<times> (status + bool)" where
  "SendMsg_begin c m0 s0 =
     (let i = req_id (r_nextID s0);
          m = m0\<lparr>Header := PutUint32 i\<rparr>;
          s = s0\<lparr>r_nextID := r_nextID s0 + 1\<rparr>
      in if r_closed s \<or> c_closed (r_ctxs s c) then (m, s, Inl (Some ErrClosed))
         else if no_peers c s then (m, s, Inl (Some ErrNoPeers))
         else
           (let s1 = cancelSend c (req_cancel c s);
                s2 = (upd_ctx c (\<lambda>x. x\<lparr>c_reqID := i, c_queued := True, c_sendMsg := Some m\<rparr>) s1)
                       \<lparr>r_sendQ := r_sendQ s1 @ [c]\<rparr>
            in if c_bestEffort (r_ctxs s2 c) then (m, req_send s2, Inl None)
               else
                 (let e = c_sendExpire (r_ctxs s2 c);
                      s3 = (if e > 0 then upd_ctx c (\<lambda>x. x\<lparr>c_sendTimer := True\<rparr>) s2 else s2)
                  in (m, req_send s3, Inr (e < 0)))))"

text \<open>The wait condition and what follows it: \<open>None\<close> is "goes on waiting".\<close>

definition SendMsg_wake :: "nat \<Rightarrow> message \<Rightarrow> bool \<Rightarrow> rsock \<Rightarrow> (rsock \<times> status) option" where
  "SendMsg_wake c m expired s =
     (let x = r_ctxs s c in
      if same_msg (c_sendMsg x) m \<and> \<not> expired \<and> \<not> c_closed x \<and> \<not> no_peers c s then None
      else if same_msg (c_sendMsg x) m then
        (let s1 = upd_ctx c (\<lambda>x. x\<lparr>c_sendMsg := None, c_reqID := 0\<rparr>) (cancelSend c s)
         in Some (s1, Some (if c_closed x then ErrClosed
                            else if no_peers c s then ErrNoPeers else ErrSendTimeout)))
      else Some (s, None))"

definition send_timer :: "nat \<Rightarrow> message \<Rightarrow> rsock \<Rightarrow> rsock" where
  "send_timer c m s = (if same_msg (c_sendMsg (r_ctxs s c)) m then req_cancel c s else s)"

section \<open>Receiving\<close>

definition ready_first :: "nat \<Rightarrow> nat list \<Rightarrow> nat list" where
  "ready_first p q =
     (case find (\<lambda>i. q ! i = p) [0..<length q] of None \<Rightarrow> q | Some i \<Rightarrow> swap_front i q)"

text \<open>
  One iteration of \<^verbatim>\<open>pipe.receiver\<close>, for the message the transport delivered. \<^verbatim>\<open>c.reqMsg.Free()\<close>
  dereferences the pointer: it panics when \<^verbatim>\<open>c.reqMsg\<close> is nil.
\<close>

definition receiver_msg :: "nat \<Rightarrow> message \<Rightarrow> rsock \<Rightarrow> rsock" where
  "receiver_msg p m s =
     (if length (Body m) < 4 then Free (m_id m) s
      else
        (let m1 = m\<lparr>Header := Header m @ take 4 (Body m), Body := drop 4 (Body m)\<rparr>;
             i = Uint32 (Header m1);
             s1 = s\<lparr>r_readyQ := ready_first p (r_readyQ s)\<rparr>
         in case r_ctxByID s1 i of
              Some c \<Rightarrow>
                (let s2 = cancelSend c s1
                 in case c_reqMsg (r_ctxs s2 c) of
                      None \<Rightarrow> s2\<lparr>panicked := True\<rparr>
                    | Some q \<Rightarrow>
                        (upd_ctx c (\<lambda>x. x\<lparr>c_reqMsg := None, c_repMsg := Some m1,
                                       c_resendTimer := False, c_receiveTimer := False\<rparr>)
                           (Free (m_id q) s2))
                          \<lparr>r_ctxByID := (r_ctxByID s2)(i := None)\<rparr>)
            | None \<Rightarrow> Free (m_id m) s1))"

definition RecvMsg_begin :: "nat \<Rightarrow> rsock \<Rightarrow> rsock \<times> status" where
  "RecvMsg_begin c s =
     (let x = r_ctxs s c in
      if r_closed s \<or> c_closed x then (s, Some ErrClosed)
      else if no_peers c s then (s, Some ErrNoPeers)
      else if c_receiveWait x \<or> c_reqID x = 0 then (s, Some ErrProtoState)
      else (upd_ctx c (\<lambda>x. x\<lparr>c_receiveWait := True, c_waitID := c_reqID x, c_expired := False,
                              c_receiveTimer := c_receiveTimer x \<or> c_receiveExpire x > 0\<rparr>) s, None))"

definition recv_timer :: "nat \<Rightarrow> u32 \<Rightarrow> rsock \<Rightarrow> rsock" where
  "recv_timer c i s =
     (if c_reqID (r_ctxs s c) = i
      then upd_ctx c (\<lambda>x. x\<lparr>c_expired := True\<rparr>) (req_cancel c s) else s)"

definition RecvMsg_finish :: "nat \<Rightarrow> rsock \<Rightarrow> rsock \<times> (err + message)" where
  "RecvMsg_finish c s =
     (let x = r_ctxs s c;
          s1 = upd_ctx c (\<lambda>x. x\<lparr>c_reqID := 0, c_repMsg := None, c_receiveWait := False\<rparr>) s
      in case c_repMsg x of
           Some m \<Rightarrow> (s1, Inr m)
         | None \<Rightarrow>
             (s1, Inl (if c_closed x then ErrClosed
                       else if c_expired x then ErrRecvTimeout
                       else if no_peers c s then ErrNoPeers
                       else ErrCanceled)))"

definition RecvMsg_wake :: "nat \<Rightarrow> rsock \<Rightarrow> (rsock \<times> (err + message)) option" where
  "RecvMsg_wake c s =
     (let x = r_ctxs s c in
      if c_waitID x = c_reqID x \<and> c_repMsg x = None then
        (if c_receiveExpire x < 0
         then Some (RecvMsg_finish c (upd_ctx c (\<lambda>x. x\<lparr>c_expired := True\<rparr>) (req_cancel c s)))
         else None)
      else Some (RecvMsg_finish c s))"

section \<open>Contexts, pipes, options\<close>

definition ctx_SetOption :: "string \<Rightarrow> optval \<Rightarrow> rctx \<Rightarrow> rctx \<times> status" where
  "ctx_SetOption name v x =
     (if name = OptionRetryTime then
        set_field (asDuration v) (\<lambda>d x. x\<lparr>c_resendTime := d\<rparr>) x
      else if name = OptionRecvDeadline then
        set_field (asDuration v) (\<lambda>d x. x\<lparr>c_receiveExpire := d\<rparr>) x
      else if name = OptionSendDeadline then
        set_field (asDuration v) (\<lambda>d x. x\<lparr>c_sendExpire := d\<rparr>) x
      else if name = OptionBestEffort then
        set_field (asBool v) (\<lambda>b x. x\<lparr>c_bestEffort := b\<rparr>) x
      else if name = OptionFailNoPeers then
        set_field (asBool v) (\<lambda>b x. x\<lparr>c_failNoPeers := b\<rparr>) x
      else (x, Some ErrBadOption))"

definition ctx_GetOption :: "string \<Rightarrow> rctx \<Rightarrow> err + optval" where
  "ctx_GetOption name x =
     (if name = OptionRetryTime then Inr (VDuration (c_resendTime x))
      else if name = OptionRecvDeadline then Inr (VDuration (c_receiveExpire x))
      else if name = OptionSendDeadline then Inr (VDuration (c_sendExpire x))
      else if name = OptionBestEffort then Inr (VBool (c_bestEffort x))
      else if name = OptionFailNoPeers then Inr (VBool (c_failNoPeers x))
      else Inl ErrBadOption)"

definition req_ctx_set :: "nat \<Rightarrow> string \<Rightarrow> optval \<Rightarrow> rsock \<Rightarrow> rsock \<times> status" where
  "req_ctx_set c name v s =
     (let (x, st) = ctx_SetOption name v (r_ctxs s c) in (upd_ctx c (\<lambda>_. x) s, st))"

text \<open>Context 0 is the default context \<^verbatim>\<open>s.defCtx\<close>.\<close>

definition req_SetOption :: "string \<Rightarrow> optval \<Rightarrow> rsock \<Rightarrow> rsock \<times> status" where
  "req_SetOption name v s = req_ctx_set 0 name v s"

definition req_GetOption :: "string \<Rightarrow> rsock \<Rightarrow> err + optval" where
  "req_GetOption name s =
     (if name = OptionRaw then Inr (VBool False) else ctx_GetOption name (r_ctxs s 0))"

definition ctx_Close :: "nat \<Rightarrow> rsock \<Rightarrow> rsock \<times> status" where
  "ctx_Close c s =
     (if c_closed (r_ctxs s c) then (s, Some ErrClosed)
      else
        (let s1 = req_cancel c (upd_ctx c (\<lambda>x. x\<lparr>c_closed := True\<rparr>) s)
         in (s1\<lparr>r_contexts := remove1 c (r_contexts s1)\<rparr>, None)))"

definition close_one :: "nat \<Rightarrow> rsock \<Rightarrow> rsock" where
  "close_one c s = req_cancel c (upd_ctx c (\<lambda>x. x\<lparr>c_closed := True\<rparr>) s)"

definition req_Close :: "rsock \<Rightarrow> rsock \<times> status" where
  "req_Close s =
     (if r_closed s then (s, Some ErrClosed)
      else ((fold close_one (r_contexts s) (s\<lparr>r_closed := True\<rparr>))\<lparr>r_contexts := []\<rparr>, None))"

definition new_ctx :: "rctx \<Rightarrow> rctx" where
  "new_ctx d =
     \<lparr>c_resendTime = c_resendTime d, c_sendExpire = c_sendExpire d, c_receiveExpire = c_receiveExpire d,
      c_sendTimer = False, c_receiveTimer = False, c_resendTimer = False,
      c_reqMsg = None, c_repMsg = None, c_sendMsg = None, c_lastPipe = None, c_reqID = 0,
      c_receiveWait = False, c_bestEffort = c_bestEffort d, c_failNoPeers = c_failNoPeers d,
      c_queued = False, c_closed = False, c_waitID = 0, c_expired = False\<rparr>"

definition req_OpenContext :: "rsock \<Rightarrow> rsock \<times> (err + nat)" where
  "req_OpenContext s =
     (if r_closed s then (s, Inl ErrClosed)
      else
        ((upd_ctx (r_nctx s) (\<lambda>_. new_ctx (r_ctxs s 0)) s)
           \<lparr>r_nctx := Suc (r_nctx s), r_contexts := r_contexts s @ [r_nctx s]\<rparr>,
         Inr (r_nctx s)))"

definition req_AddPipe :: "nat \<Rightarrow> rsock \<Rightarrow> rsock \<times> status" where
  "req_AddPipe p s =
     (if r_closed s then (s, Some ErrClosed)
      else
        (let s1 = req_send (s\<lparr>r_readyQ := r_readyQ s @ [p]\<rparr>)
         in (s1\<lparr>r_pipes := insert p (r_pipes s1)\<rparr>, None)))"

definition remove_ctx :: "nat \<Rightarrow> nat \<Rightarrow> rsock \<Rightarrow> rsock" where
  "remove_ctx p c s =
     (let x = r_ctxs s c in
      if no_peers c s then req_cancel c s
      else if c_lastPipe x = Some p \<and> c_reqMsg x \<noteq> None then
        (let s1 = upd_ctx c (\<lambda>x. x\<lparr>c_lastPipe := None\<rparr>) s
         in if c_resendTime x = 0 then req_cancel c s1 else cancelSend c s1)
      else s)"

text \<open>
  The removal of \<open>p\<close> from \<^verbatim>\<open>readyQ\<close>, where it occurs at most once. The goroutine
  \<^verbatim>\<open>go c.resendMessage(id)\<close> is the later operation \<open>resendMessage\<close>.
\<close>

definition req_RemovePipe :: "nat \<Rightarrow> rsock \<Rightarrow> rsock" where
  "req_RemovePipe p s =
     (let s1 = s\<lparr>r_pclosed := (r_pclosed s)(p := True), r_readyQ := remove1 p (r_readyQ s),
                 r_pipes := r_pipes s - {p}\<rparr>
      in fold (remove_ctx p) (r_contexts s1) s1)"

definition ctx0 :: rctx where
  "ctx0 = \<lparr>c_resendTime = 60000000000, c_sendExpire = 0, c_receiveExpire = 0,
      c_sendTimer = False, c_receiveTimer = False, c_resendTimer = False,
      c_reqMsg = None, c_repMsg = None, c_sendMsg = None, c_lastPipe = None, c_reqID = 0,
      c_receiveWait = False, c_bestEffort = False, c_failNoPeers = False,
      c_queued = False, c_closed = False, c_waitID = 0, c_expired = False\<rparr>"

definition req_NewProtocol :: "u32 \<Rightarrow> rsock" where
  "req_NewProtocol now =
     \<lparr>refs = (\<lambda>_. 0), chans = (\<lambda>_. make_gochan 0), nchan = 1, panicked = False,
      r_ctxs = (\<lambda>_. ctx0), r_nctx = 1, r_contexts = [0], r_ctxByID = Map.empty, r_nextID = now,
      r_closed = False, r_sendQ = [], r_readyQ = [], r_pipes = {}, r_pclosed = (\<lambda>_. False),
      r_inflight = []\<rparr>"


section \<open>What the helper operations change\<close>

lemma upd_ctx_simps [simp]:
  "r_ctxs (upd_ctx c f s) = (r_ctxs s)(c := f (r_ctxs s c))" "r_sendQ (upd_ctx c f s) = r_sendQ s"
  "r_readyQ (upd_ctx c f s) = r_readyQ s" "r_inflight (upd_ctx c f s) = r_inflight s"
  "r_ctxByID (upd_ctx c f s) = r_ctxByID s" "r_pipes (upd_ctx c f s) = r_pipes s"
  "r_pclosed (upd_ctx c f s) = r_pclosed s" "panicked (upd_ctx c f s) = panicked s"
  "r_contexts (upd_ctx c f s) = r_contexts s" "r_closed (upd_ctx c f s) = r_closed s"
  "r_nctx (upd_ctx c f s) = r_nctx s" "r_nextID (upd_ctx c f s) = r_nextID s"
  by (simp_all add: upd_ctx_def)

lemma Free_rsock [simp]:
  "r_ctxs (Free i s) = r_ctxs s" "r_sendQ (Free i s) = r_sendQ s" "r_readyQ (Free i s) = r_readyQ s"
  "r_inflight (Free i s) = r_inflight s" "r_ctxByID (Free i s) = r_ctxByID s" "r_pipes (Free i s) = r_pipes s"
  "r_pclosed (Free i s) = r_pclosed s" "r_contexts (Free i s) = r_contexts s"
  "r_closed (Free i s) = r_closed s" "r_nctx (Free i s) = r_nctx s" "r_nextID (Free i s) = r_nextID s"
  by (simp_all add: Free_def)

lemma free_opt_rsock [simp]:
  "r_ctxs (free_opt m s) = r_ctxs s" "r_sendQ (free_opt m s) = r_sendQ s" "r_readyQ (free_opt m s) = r_readyQ s"
  "r_inflight (free_opt m s) = r_inflight s" "r_ctxByID (free_opt m s) = r_ctxByID s"
  "r_pipes (free_opt m s) = r_pipes s" "r_pclosed (free_opt m s) = r_pclosed s"
  "panicked (free_opt m s) = panicked s" "r_contexts (free_opt m s) = r_contexts s"
  "r_closed (free_opt m s) = r_closed s" "r_nctx (free_opt m s) = r_nctx s" "r_nextID (free_opt m s) = r_nextID s"
  by (simp_all add: free_opt_def split: option.split)

lemma cancelSend_simps [simp]:
  "r_ctxs (cancelSend c s) = (r_ctxs s)(c := (r_ctxs s c)\<lparr>c_queued := False\<rparr>)"
  "r_sendQ (cancelSend c s) = (if c_queued (r_ctxs s c) then remove1 c (r_sendQ s) else r_sendQ s)"
  "r_readyQ (cancelSend c s) = r_readyQ s" "r_inflight (cancelSend c s) = r_inflight s"
  "r_ctxByID (cancelSend c s) = r_ctxByID s" "r_pipes (cancelSend c s) = r_pipes s"
  "r_pclosed (cancelSend c s) = r_pclosed s" "panicked (cancelSend c s) = panicked s"
  "r_contexts (cancelSend c s) = r_contexts s" "r_closed (cancelSend c s) = r_closed s"
  "r_nctx (cancelSend c s) = r_nctx s" "r_nextID (cancelSend c s) = r_nextID s"
  by (auto simp: cancelSend_def intro: ext)

definition cancelled :: "rctx \<Rightarrow> rctx" where
  "cancelled x = x\<lparr>c_queued := False, c_reqID := 0, c_repMsg := None, c_reqMsg := None,
     c_resendTimer := False, c_sendTimer := False, c_receiveTimer := False\<rparr>"

lemma cancelled_fields [simp]:
  "\<not> c_queued (cancelled x)" "c_reqID (cancelled x) = 0" "c_repMsg (cancelled x) = None"
  "c_reqMsg (cancelled x) = None" "c_sendMsg (cancelled x) = c_sendMsg x"
  "c_receiveWait (cancelled x) = c_receiveWait x" "c_waitID (cancelled x) = c_waitID x"
  "c_closed (cancelled x) = c_closed x" "c_lastPipe (cancelled x) = c_lastPipe x"
  "c_failNoPeers (cancelled x) = c_failNoPeers x" "c_bestEffort (cancelled x) = c_bestEffort x"
  "c_resendTime (cancelled x) = c_resendTime x"
  by (simp_all add: cancelled_def)

lemma req_cancel_simps [simp]:
  "r_ctxs (req_cancel c s) = (r_ctxs s)(c := cancelled (r_ctxs s c))"
  "r_sendQ (req_cancel c s) = (if c_queued (r_ctxs s c) then remove1 c (r_sendQ s) else r_sendQ s)"
  "r_ctxByID (req_cancel c s) =
     (if c_reqID (r_ctxs s c) \<noteq> 0 then (r_ctxByID s)(c_reqID (r_ctxs s c) := None) else r_ctxByID s)"
  "r_readyQ (req_cancel c s) = r_readyQ s" "r_inflight (req_cancel c s) = r_inflight s"
  "r_pipes (req_cancel c s) = r_pipes s" "r_pclosed (req_cancel c s) = r_pclosed s"
  "panicked (req_cancel c s) = panicked s" "r_contexts (req_cancel c s) = r_contexts s"
  "r_closed (req_cancel c s) = r_closed s" "r_nctx (req_cancel c s) = r_nctx s"
  "r_nextID (req_cancel c s) = r_nextID s"
  by (auto simp: req_cancel_def Let_def cancelled_def intro: ext)

section \<open>The invariant\<close>

text \<open>
  \<open>rctx_ok\<close>: a queued context has something to send. \<open>reply_ok\<close>: the received reply answers
  the outstanding request, and a goroutine blocked in \<^verbatim>\<open>RecvMsg\<close> waits for that request or
  for one that was cancelled.
\<close>

definition rctx_ok :: "rctx \<Rightarrow> bool" where
  "rctx_ok x \<longleftrightarrow> (c_queued x \<longrightarrow> c_sendMsg x \<noteq> None \<or> c_reqMsg x \<noteq> None) \<and>
     (c_reqMsg x \<noteq> None \<longrightarrow> c_sendMsg x = None)"

definition reply_ok :: "rctx \<Rightarrow> bool" where
  "reply_ok x \<longleftrightarrow>
     (\<forall>m. c_repMsg x = Some m \<longrightarrow> Uint32 (Header m) = c_reqID x \<and> c_reqID x \<noteq> 0 \<and>
        c_reqMsg x = None \<and> c_sendMsg x = None) \<and>
     (c_queued x \<or> c_reqMsg x \<noteq> None \<longrightarrow> c_reqID x \<noteq> 0) \<and>
     (c_receiveWait x \<longrightarrow> c_reqID x \<in> {0, c_waitID x})"

definition entry_ok :: "u32 \<Rightarrow> rctx \<Rightarrow> bool" where
  "entry_ok i x \<longleftrightarrow> i \<noteq> 0 \<and> c_reqID x = i \<and> c_reqMsg x \<noteq> None"

text \<open>
  The parts marked \<open>d\<close> hold while each context is used by one goroutine at a time.
\<close>

definition req_ok :: "bool \<Rightarrow> rsock \<Rightarrow> bool" where
  "req_ok d s \<longleftrightarrow> (d \<longrightarrow> \<not> panicked s) \<and> distinct (r_sendQ s) \<and>
     (\<forall>c. c \<in> set (r_sendQ s) \<longleftrightarrow> c_queued (r_ctxs s c)) \<and>
     (\<forall>c. rctx_ok (r_ctxs s c) \<and> (d \<longrightarrow> reply_ok (r_ctxs s c)) \<and> (c_queued (r_ctxs s c) \<longrightarrow> c < r_nctx s)) \<and>
     distinct (r_readyQ s @ map fst (r_inflight s)) \<and>
     (\<forall>i c. r_ctxByID s i = Some c \<longrightarrow> c < r_nctx s \<and> (d \<longrightarrow> entry_ok i (r_ctxs s c)))"

definition ready_in :: "nat set \<Rightarrow> rsock \<Rightarrow> bool" where
  "ready_in P s \<longleftrightarrow> (\<forall>p\<in>set (r_readyQ s). \<not> r_pclosed s p) \<and>
     (\<forall>p\<in>set (r_readyQ s) \<union> fst ` set (r_inflight s). \<not> r_pclosed s p \<longrightarrow> p \<in> P)"

lemma req_okD:
  assumes "req_ok d s"
  shows "d \<Longrightarrow> \<not> panicked s" "distinct (r_sendQ s)" "c \<in> set (r_sendQ s) \<longleftrightarrow> c_queued (r_ctxs s c)"
    "rctx_ok (r_ctxs s c)" "d \<Longrightarrow> reply_ok (r_ctxs s c)" "c_queued (r_ctxs s c) \<Longrightarrow> c < r_nctx s"
    "distinct (r_readyQ s @ map fst (r_inflight s))" "r_ctxByID s i = Some c \<Longrightarrow> c < r_nctx s"
    "d \<Longrightarrow> r_ctxByID s i = Some c \<Longrightarrow> entry_ok i (r_ctxs s c)"
  using assms by (auto simp: req_ok_def)

text \<open>The one obligation for an operation that changes a single context.\<close>

lemma req_ok_update:
  assumes ok: "req_ok d s" and x: "r_ctxs t = (r_ctxs s)(c := x)"
    and ctx: "rctx_ok x" "d \<Longrightarrow> reply_ok x" "c_queued x \<Longrightarrow> c < r_nctx t"
    and fr: "r_nctx s \<le> r_nctx t" "panicked t = panicked s"
    and sq: "distinct (r_sendQ t)" "set (r_sendQ t) - {c} = set (r_sendQ s) - {c}"
      "c \<in> set (r_sendQ t) \<longleftrightarrow> c_queued x"
    and rq: "distinct (r_readyQ t @ map fst (r_inflight t))"
    and ids: "\<And>i e. r_ctxByID t i = Some e \<Longrightarrow>
      (e \<noteq> c \<and> r_ctxByID s i = Some e) \<or> (e = c \<and> c < r_nctx t \<and> (d \<longrightarrow> entry_ok i x))"
  shows "req_ok d t"
proof -
  have q: "e \<in> set (r_sendQ t) \<longleftrightarrow> c_queued (r_ctxs t e)" for e
    using sq(2,3) req_okD(3) [OF ok, of e] x by (cases "e = c") auto
  have k: "rctx_ok (r_ctxs t e) \<and> (d \<longrightarrow> reply_ok (r_ctxs t e)) \<and> (c_queued (r_ctxs t e) \<longrightarrow> e < r_nctx t)" for e
    using ctx req_okD(4,5,6) [OF ok, of e] x fr(1) by (cases "e = c") auto
  have "e < r_nctx t \<and> (d \<longrightarrow> entry_ok i (r_ctxs t e))" if "r_ctxByID t i = Some e" for i e
    using ids [OF that] req_okD(8,9) [OF ok, of i e] x fr(1) by auto
  with q k show ?thesis
    using sq(1) rq req_okD(1) [OF ok] fr(2) by (simp add: req_ok_def)
qed

lemma req_ok_same:
  assumes "\<And>x. rctx_ok (f x) = rctx_ok x" "\<And>x. reply_ok (f x) = reply_ok x"
    "\<And>i x. entry_ok i (f x) = entry_ok i x" "\<And>x. c_queued (f x) = c_queued x"
  shows "req_ok d (upd_ctx c f s) = req_ok d s"
proof -
  have "P (r_ctxs (upd_ctx c f s) e) = P (r_ctxs s e)"
    if "\<And>x. P (f x) = P x" for P :: "rctx \<Rightarrow> bool" and e
    using that by simp
  from this [of rctx_ok] this [of reply_ok] this [of "entry_ok _"] this [of c_queued] show ?thesis
    unfolding req_ok_def using assms by simp
qed

lemma req_ok_timers [simp]:
  "req_ok d (upd_ctx c (\<lambda>x. x\<lparr>c_sendTimer := b\<rparr>) s) = req_ok d s"
  "req_ok d (upd_ctx c (\<lambda>x. x\<lparr>c_expired := b\<rparr>) s) = req_ok d s"
  "req_ok d (upd_ctx c (\<lambda>x. x\<lparr>c_closed := b\<rparr>) s) = req_ok d s"
  "req_ok d (upd_ctx c (\<lambda>x. x\<lparr>c_lastPipe := l\<rparr>) s) = req_ok d s"
  by (simp_all add: req_ok_same rctx_ok_def reply_ok_def entry_ok_def)

lemma req_ok_Free [simp]: "req_ok d (Free i s) = req_ok d s"
  by (simp add: req_ok_def)

text \<open>In disciplined runs the ID table has at most the entry of the outstanding request.\<close>

lemma own_entry:
  assumes "req_ok d s" and "r_ctxByID s i = Some c" and d
  shows "c_reqID (r_ctxs s c) = i" "i \<noteq> 0" "c_reqMsg (r_ctxs s c) \<noteq> None"
    "c_repMsg (r_ctxs s c) = None" "c_sendMsg (r_ctxs s c) = None"
  using req_okD(9) [OF assms(1,3,2)] req_okD(5) [OF assms(1,3), of c] req_okD(4) [OF assms(1), of c]
  by (auto simp: entry_ok_def reply_ok_def rctx_ok_def)

lemma cancelSend_ok:
  assumes ok: "req_ok d s"
  shows "req_ok d (cancelSend c s)"
proof (rule req_ok_update [OF ok, of _ c "(r_ctxs s c)\<lparr>c_queued := False\<rparr>"])
  show "(e \<noteq> c \<and> r_ctxByID s i = Some e) \<or>
      (e = c \<and> c < r_nctx (cancelSend c s) \<and> (d \<longrightarrow> entry_ok i ((r_ctxs s c)\<lparr>c_queued := False\<rparr>)))"
    if "r_ctxByID (cancelSend c s) i = Some e" for i e
    using that req_okD(8,9) [OF ok, of i e] by (auto simp: entry_ok_def)
qed (use req_okD(1,2,7) [OF ok] req_okD(3-6) [OF ok, of c] in \<open>auto simp: rctx_ok_def reply_ok_def\<close>)

lemma req_cancel_ok:
  assumes ok: "req_ok d s"
  shows "req_ok d (req_cancel c s)"
proof (rule req_ok_update [OF ok, of _ c "cancelled (r_ctxs s c)"])
  show "(e \<noteq> c \<and> r_ctxByID s i = Some e) \<or>
      (e = c \<and> c < r_nctx (req_cancel c s) \<and> (d \<longrightarrow> entry_ok i (cancelled (r_ctxs s c))))"
    if "r_ctxByID (req_cancel c s) i = Some e" for i e
  proof (cases "e = c \<and> d")
    case True
    then show ?thesis using that own_entry [OF ok, of i c] by (auto split: if_splits)
  next
    case False
    then show ?thesis using that req_okD(8) [OF ok, of i e] by (auto split: if_splits)
  qed
qed (use req_okD(1,2,7) [OF ok] req_okD(3-6) [OF ok, of c] in \<open>auto simp: rctx_ok_def reply_ok_def\<close>)

text \<open>The loop of \<^verbatim>\<open>send\<close>: it keeps the invariant and only moves pipes from ready to busy.\<close>

lemma send_one_frame [simp]:
  "r_sendQ (send_one c p s) = r_sendQ s" "r_readyQ (send_one c p s) = r_readyQ s"
  "r_pipes (send_one c p s) = r_pipes s" "r_pclosed (send_one c p s) = r_pclosed s"
  "r_contexts (send_one c p s) = r_contexts s" "r_closed (send_one c p s) = r_closed s"
  "r_nctx (send_one c p s) = r_nctx s" "r_nextID (send_one c p s) = r_nextID s"
  by (auto simp: send_one_def Let_def Clone_def split: option.splits)

definition sent_ctx :: "nat \<Rightarrow> rctx \<Rightarrow> rctx" where
  "sent_ctx p x =
     (case c_sendMsg x of
        Some m \<Rightarrow> x\<lparr>c_queued := False, c_reqMsg := Some m, c_sendMsg := None, c_lastPipe := Some p,
                     c_resendTimer := c_resendTimer x \<or> c_resendTime x > 0\<rparr>
      | None \<Rightarrow> x\<lparr>c_queued := False, c_lastPipe := Some p,
                   c_resendTimer := c_resendTimer x \<or> c_resendTime x > 0\<rparr>)"

lemma sent_ctx_fields [simp]:
  "\<not> c_queued (sent_ctx p x)" "c_sendMsg (sent_ctx p x) = None" "c_reqID (sent_ctx p x) = c_reqID x"
  "c_reqMsg (sent_ctx p x) = (if c_sendMsg x = None then c_reqMsg x else c_sendMsg x)"
  "c_repMsg (sent_ctx p x) = c_repMsg x" "c_receiveWait (sent_ctx p x) = c_receiveWait x"
  "c_waitID (sent_ctx p x) = c_waitID x" "c_lastPipe (sent_ctx p x) = Some p"
  by (auto simp: sent_ctx_def split: option.split)

lemma send_one_effect:
  assumes "rctx_ok (r_ctxs s c)" "c_queued (r_ctxs s c)"
  obtains m where "c_reqMsg (sent_ctx p (r_ctxs s c)) = Some m"
    "r_ctxs (send_one c p s) = (r_ctxs s)(c := sent_ctx p (r_ctxs s c))"
    "r_inflight (send_one c p s) = r_inflight s @ [(p, m)]" "panicked (send_one c p s) = panicked s"
    "r_ctxByID (send_one c p s) =
       (if c_sendMsg (r_ctxs s c) = None then r_ctxByID s else (r_ctxByID s)(c_reqID (r_ctxs s c) \<mapsto> c))"
  using assms
  by (cases "c_sendMsg (r_ctxs s c)"; cases "c_reqMsg (r_ctxs s c)")
     (auto simp: send_one_def Let_def sent_ctx_def Clone_def rctx_ok_def)

lemma send_one_ok:
  assumes ok: "req_ok d s" and q: "r_sendQ s = c # cs" "r_readyQ s = p # ps"
  shows "req_ok d (send_one c p (s\<lparr>r_sendQ := cs, r_readyQ := ps\<rparr>))"
proof -
  let ?s = "s\<lparr>r_sendQ := cs, r_readyQ := ps\<rparr>"
  let ?x = "sent_ctx p (r_ctxs s c)"
  have c: "rctx_ok (r_ctxs ?s c)" "c_queued (r_ctxs ?s c)"
    using req_okD(3,4) [OF ok, of c] q by simp_all
  obtain m where m: "c_reqMsg (sent_ctx p (r_ctxs ?s c)) = Some m"
    "r_ctxs (send_one c p ?s) = (r_ctxs ?s)(c := sent_ctx p (r_ctxs ?s c))"
    "r_inflight (send_one c p ?s) = r_inflight ?s @ [(p, m)]" "panicked (send_one c p ?s) = panicked ?s"
    "r_ctxByID (send_one c p ?s) =
       (if c_sendMsg (r_ctxs ?s c) = None then r_ctxByID ?s else (r_ctxByID ?s)(c_reqID (r_ctxs ?s c) \<mapsto> c))"
    by (rule send_one_effect [OF c])
  have n: "c < r_nctx s" using req_okD(6) [OF ok, of c] c(2) by simp
  have id0: "d \<Longrightarrow> c_reqID (r_ctxs s c) \<noteq> 0" using req_okD(5) [OF ok, of c] c(2) by (simp add: reply_ok_def)
  have rep: "d \<Longrightarrow> c_repMsg (r_ctxs s c) = None"
    using req_okD(5) [OF ok, of c] c by (cases "c_repMsg (r_ctxs s c)") (auto simp: reply_ok_def rctx_ok_def)
  show ?thesis
  proof (rule req_ok_update [OF ok, of _ c ?x])
    show "(e \<noteq> c \<and> r_ctxByID s i = Some e) \<or> (e = c \<and> c < r_nctx (send_one c p ?s) \<and> (d \<longrightarrow> entry_ok i ?x))"
      if e: "r_ctxByID (send_one c p ?s) i = Some e" for i e
    proof (cases "e = c")
      case True
      have "d \<longrightarrow> entry_ok i ?x"
        using e True id0 m(1) req_okD(9) [OF ok, of i c] by (auto simp: m(5) entry_ok_def split: if_splits)
      then show ?thesis using True n by simp
    qed (use e in \<open>auto simp: m(5) split: if_splits\<close>)
    show "d \<Longrightarrow> reply_ok ?x"
      using rep id0 req_okD(5) [OF ok, of c] by (simp add: reply_ok_def)
    show "distinct (r_readyQ (send_one c p ?s) @ map fst (r_inflight (send_one c p ?s)))"
      using req_okD(7) [OF ok] q by (auto simp: m(3))
  qed (use req_okD(1,2) [OF ok] q m in \<open>auto simp: rctx_ok_def\<close>)
qed

lemma send_loop_ok:
  "req_ok d s \<Longrightarrow> r_sendQ s = cs \<Longrightarrow> r_readyQ s = ps \<Longrightarrow> req_ok d (send_loop cs ps s)"
proof (induction cs ps s rule: send_loop.induct)
  case (1 c cs p ps s)
  then show ?case using send_one_ok [OF 1(2), of c cs p ps] by simp
qed simp_all

lemma req_send_ok: "req_ok d s \<Longrightarrow> req_ok d (req_send s)"
  by (simp add: req_send_def send_loop_ok)

lemma send_loop_frame:
  "r_pipes (send_loop cs ps s) = r_pipes s" "r_pclosed (send_loop cs ps s) = r_pclosed s"
  "r_contexts (send_loop cs ps s) = r_contexts s" "r_closed (send_loop cs ps s) = r_closed s"
  "r_nctx (send_loop cs ps s) = r_nctx s" "r_nextID (send_loop cs ps s) = r_nextID s"
  by (induction cs ps s rule: send_loop.induct) simp_all

lemma req_send_frame [simp]:
  "r_pipes (req_send s) = r_pipes s" "r_pclosed (req_send s) = r_pclosed s"
  "r_contexts (req_send s) = r_contexts s" "r_closed (req_send s) = r_closed s"
  "r_nctx (req_send s) = r_nctx s" "r_nextID (req_send s) = r_nextID s"
  by (simp_all add: req_send_def send_loop_frame)

lemma send_loop_queues:
  "r_sendQ s = cs \<Longrightarrow> r_readyQ s = ps \<Longrightarrow>
   r_sendQ (send_loop cs ps s) = drop (length ps) cs \<and> r_readyQ (send_loop cs ps s) = drop (length cs) ps"
  by (induction cs ps s rule: send_loop.induct) simp_all

lemma req_send_queues:
  "r_sendQ (req_send s) = drop (length (r_readyQ s)) (r_sendQ s)"
  "r_readyQ (req_send s) = drop (length (r_sendQ s)) (r_readyQ s)"
  by (simp_all add: req_send_def send_loop_queues)

lemma send_one_inflight: "fst ` set (r_inflight (send_one c p s)) \<subseteq> insert p (fst ` set (r_inflight s))"
  by (auto simp: send_one_def Let_def Clone_def split: option.splits)

lemma send_loop_inflight:
  "fst ` set (r_inflight (send_loop cs ps s)) \<subseteq> fst ` set (r_inflight s) \<union> set ps"
proof (induction cs ps s rule: send_loop.induct)
  case (1 c cs p ps s)
  then show ?case using send_one_inflight [of c p "s\<lparr>r_sendQ := cs, r_readyQ := ps\<rparr>"] by auto
qed auto

lemma req_send_ready:
  assumes "ready_in P s"
  shows "ready_in P (req_send s)"
proof -
  have "set (r_readyQ (req_send s)) \<subseteq> set (r_readyQ s)"
    unfolding req_send_queues by (rule set_drop_subset)
  moreover have "fst ` set (r_inflight (req_send s)) \<subseteq> fst ` set (r_inflight s) \<union> set (r_readyQ s)"
    unfolding req_send_def by (rule send_loop_inflight)
  ultimately show ?thesis using assms unfolding ready_in_def req_send_frame by blast
qed

section \<open>Every operation keeps the invariant\<close>

lemma req_id_nonzero [simp]: "req_id n \<noteq> 0"
  by (simp add: req_id_def or_eq_0_iff)

lemma SendMsg_begin_ok:
  assumes ok: "req_ok d s" and c: "c < r_nctx s" and w: "d \<Longrightarrow> \<not> c_receiveWait (r_ctxs s c)"
    and b: "SendMsg_begin c m s = (m', s', r)"
  shows "req_ok d s'"
proof -
  let ?s0 = "s\<lparr>r_nextID := r_nextID s + 1\<rparr>"
  let ?s1 = "cancelSend c (req_cancel c ?s0)"
  let ?f = "\<lambda>x. x\<lparr>c_reqID := req_id (r_nextID s), c_queued := True, c_sendMsg := Some m'\<rparr>"
  let ?s2 = "(upd_ctx c ?f ?s1)\<lparr>r_sendQ := r_sendQ ?s1 @ [c]\<rparr>"
  have ok0: "req_ok d ?s0" using ok by (simp add: req_ok_def)
  then have ok1: "req_ok d ?s1" by (intro cancelSend_ok req_cancel_ok)
  have x1: "c_reqMsg (r_ctxs ?s1 c) = None" "c_repMsg (r_ctxs ?s1 c) = None" "c \<notin> set (r_sendQ ?s1)"
    "d \<Longrightarrow> \<not> c_receiveWait (r_ctxs ?s1 c)"
    using w req_okD(3) [OF ok1, of c] by auto
  have ok2: "req_ok d ?s2"
  proof (rule req_ok_update [OF ok1, of _ c "?f (r_ctxs ?s1 c)"])
    show "(e \<noteq> c \<and> r_ctxByID ?s1 i = Some e) \<or>
        (e = c \<and> c < r_nctx ?s2 \<and> (d \<longrightarrow> entry_ok i (?f (r_ctxs ?s1 c))))"
      if "r_ctxByID ?s2 i = Some e" for i e
    proof (cases "e = c \<and> d")
      case True
      then show ?thesis using that own_entry(3) [OF ok1, of i c] x1(1) by simp
    next
      case False
      then show ?thesis using that req_okD(8) [OF ok1, of i e] c by auto
    qed
  qed (use c x1 req_okD(1,2,7) [OF ok1] req_okD(3-6) [OF ok1, of c] in \<open>auto simp: rctx_ok_def reply_ok_def\<close>)
  then have "req_ok d (req_send ?s2)" "req_ok d (req_send (upd_ctx c (\<lambda>x. x\<lparr>c_sendTimer := True\<rparr>) ?s2))"
    by (simp_all only: req_ok_timers req_send_ok)
  then show ?thesis
    using b ok0 by (auto simp: SendMsg_begin_def Let_def split: if_splits)
qed

lemma SendMsg_wake_ok:
  assumes ok: "req_ok d s" and w: "SendMsg_wake c m e s = Some (s', st)"
  shows "req_ok d s'"
proof (cases "same_msg (c_sendMsg (r_ctxs s c)) m")
  case True
  let ?s1 = "cancelSend c s"
  let ?f = "\<lambda>x. x\<lparr>c_sendMsg := None, c_reqID := 0\<rparr>"
  have m': "c_sendMsg (r_ctxs s c) \<noteq> None" using True by (auto simp: same_msg_def)
  then have rm: "c_reqMsg (r_ctxs s c) = None" using req_okD(4) [OF ok, of c] by (auto simp: rctx_ok_def)
  have rp: "d \<Longrightarrow> c_repMsg (r_ctxs s c) = None"
    using m' req_okD(5) [OF ok, of c] by (cases "c_repMsg (r_ctxs s c)") (auto simp: reply_ok_def)
  have ok1: "req_ok d ?s1" by (rule cancelSend_ok [OF ok])
  have "req_ok d (upd_ctx c ?f ?s1)"
  proof (rule req_ok_update [OF ok1, of _ c "?f (r_ctxs ?s1 c)"])
    show "(e \<noteq> c \<and> r_ctxByID ?s1 i = Some e) \<or>
        (e = c \<and> c < r_nctx (upd_ctx c ?f ?s1) \<and> (d \<longrightarrow> entry_ok i (?f (r_ctxs ?s1 c))))"
      if "r_ctxByID (upd_ctx c ?f ?s1) i = Some e" for i e
      using that own_entry(3) [OF ok, of i c] req_okD(8) [OF ok, of i e] rm by auto
  qed (use rm rp req_okD(1,2,7) [OF ok1] req_okD(3-6) [OF ok1, of c] in \<open>auto simp: rctx_ok_def reply_ok_def\<close>)
  with True w show ?thesis by (auto simp: SendMsg_wake_def Let_def split: if_splits)
next
  case False
  with assms show ?thesis by (auto simp: SendMsg_wake_def Let_def split: if_splits)
qed

lemma send_timer_ok: "req_ok d s \<Longrightarrow> req_ok d (send_timer c m s)"
  by (simp add: send_timer_def req_cancel_ok)

lemma ready_first_set [simp]: "set (ready_first p q) = set q" "distinct (ready_first p q) = distinct q"
  by (auto simp: ready_first_def find_Some_iff split: option.split)


lemma receiver_msg_ok:
  assumes ok: "req_ok d s"
  shows "req_ok d (receiver_msg p m s)"
proof -
  let ?s1 = "s\<lparr>r_readyQ := ready_first p (r_readyQ s)\<rparr>"
  let ?m = "m\<lparr>Header := Header m @ take 4 (Body m), Body := drop 4 (Body m)\<rparr>"
  let ?i = "Uint32 (Header ?m)"
  let ?f = "\<lambda>x. x\<lparr>c_reqMsg := None, c_repMsg := Some ?m, c_resendTimer := False, c_receiveTimer := False\<rparr>"
  have ok1: "req_ok d ?s1" using ok by (simp add: req_ok_def)
  have "req_ok d ((upd_ctx c ?f (Free (m_id q) (cancelSend c ?s1)))\<lparr>r_ctxByID := (r_ctxByID s)(?i := None)\<rparr>)"
    (is "req_ok d ?t") if r: "r_ctxByID s ?i = Some c" for c q
  proof -
    have ok2: "req_ok d (cancelSend c ?s1)" by (rule cancelSend_ok [OF ok1])
    show ?thesis
    proof (rule req_ok_update [OF ok2, of _ c "?f (r_ctxs (cancelSend c ?s1) c)"])
      show "(e \<noteq> c \<and> r_ctxByID (cancelSend c ?s1) j = Some e) \<or>
          (e = c \<and> c < r_nctx ?t \<and> (d \<longrightarrow> entry_ok j (?f (r_ctxs (cancelSend c ?s1) c))))"
        if "r_ctxByID ?t j = Some e" for j e
      proof (cases "e = c \<and> d")
        case True
        then show ?thesis
          using that own_entry(1) [OF ok, of j c] own_entry(1) [OF ok r] by (auto split: if_splits)
      next
        case False
        then show ?thesis using that req_okD(8) [OF ok, of j e] by (auto split: if_splits)
      qed
      show "d \<Longrightarrow> reply_ok (?f (r_ctxs (cancelSend c ?s1) c))"
        using own_entry [OF ok r] req_okD(5) [OF ok, of c] by (auto simp: reply_ok_def)
    qed (use req_okD(1,2,7) [OF ok2] req_okD(3-6) [OF ok2, of c] in \<open>auto simp: rctx_ok_def\<close>)
  qed
  note live = this
  have "req_ok d ((cancelSend c ?s1)\<lparr>panicked := True\<rparr>)"
    if "r_ctxByID s ?i = Some c" "c_reqMsg (r_ctxs s c) = None" for c
    using own_entry(3) [OF ok that(1)] that(2) cancelSend_ok [OF ok1, of c] by (auto simp: req_ok_def)
  with live ok ok1 show ?thesis
    by (auto simp: receiver_msg_def Let_def split: option.splits)
qed

lemma RecvMsg_begin_ok:
  assumes ok: "req_ok d s"
  shows "req_ok d (fst (RecvMsg_begin c s))"
proof -
  let ?f = "\<lambda>x. x\<lparr>c_receiveWait := True, c_waitID := c_reqID x, c_expired := False,
      c_receiveTimer := c_receiveTimer x \<or> c_receiveExpire x > 0\<rparr>"
  have "req_ok d (upd_ctx c ?f s)"
  proof (rule req_ok_update [OF ok, of _ c "?f (r_ctxs s c)"])
    show "(e \<noteq> c \<and> r_ctxByID s i = Some e) \<or>
        (e = c \<and> c < r_nctx (upd_ctx c ?f s) \<and> (d \<longrightarrow> entry_ok i (?f (r_ctxs s c))))"
      if "r_ctxByID (upd_ctx c ?f s) i = Some e" for i e
      using that req_okD(8,9) [OF ok, of i e] by (auto simp: entry_ok_def)
  qed (use req_okD(1,2,7) [OF ok] req_okD(3-6) [OF ok, of c] in \<open>auto simp: rctx_ok_def reply_ok_def\<close>)
  then show ?thesis using ok by (simp add: RecvMsg_begin_def Let_def)
qed

lemma recv_timer_ok: "req_ok d s \<Longrightarrow> req_ok d (recv_timer c i s)"
  by (simp add: recv_timer_def req_cancel_ok)

text \<open>\<^verbatim>\<open>RecvMsg\<close> clears \<^verbatim>\<open>c.reqID\<close> on its way out: safe when no newer request is outstanding.\<close>

lemma RecvMsg_finish_ok:
  assumes ok: "req_ok d s" and r: "d \<Longrightarrow> c_reqID (r_ctxs s c) = 0 \<or> c_repMsg (r_ctxs s c) \<noteq> None"
  shows "req_ok d (fst (RecvMsg_finish c s))"
proof -
  let ?f = "\<lambda>x. x\<lparr>c_reqID := 0, c_repMsg := None, c_receiveWait := False\<rparr>"
  have nq: "d \<Longrightarrow> \<not> c_queued (r_ctxs s c) \<and> c_reqMsg (r_ctxs s c) = None"
    using r req_okD(4,5) [OF ok, of c] by (auto simp: reply_ok_def rctx_ok_def)
  have "req_ok d (upd_ctx c ?f s)"
  proof (rule req_ok_update [OF ok, of _ c "?f (r_ctxs s c)"])
    show "(e \<noteq> c \<and> r_ctxByID s i = Some e) \<or>
        (e = c \<and> c < r_nctx (upd_ctx c ?f s) \<and> (d \<longrightarrow> entry_ok i (?f (r_ctxs s c))))"
      if "r_ctxByID (upd_ctx c ?f s) i = Some e" for i e
    proof (cases "e = c \<and> d")
      case True
      then show ?thesis using that own_entry [OF ok, of i c] r by auto
    next
      case False
      then show ?thesis using that req_okD(8) [OF ok, of i e] by auto
    qed
  qed (use nq req_okD(1,2,7) [OF ok] req_okD(3-6) [OF ok, of c] in \<open>auto simp: rctx_ok_def reply_ok_def\<close>)
  then show ?thesis by (simp add: RecvMsg_finish_def Let_def split: option.split)
qed

lemma RecvMsg_wake_ok:
  assumes ok: "req_ok d s" and w: "c_receiveWait (r_ctxs s c)" and r: "RecvMsg_wake c s = Some (s', x)"
  shows "req_ok d s'"
proof (cases "c_waitID (r_ctxs s c) = c_reqID (r_ctxs s c) \<and> c_repMsg (r_ctxs s c) = None")
  case True
  let ?t = "upd_ctx c (\<lambda>x. x\<lparr>c_expired := True\<rparr>) (req_cancel c s)"
  have "req_ok d (fst (RecvMsg_finish c ?t))"
    by (rule RecvMsg_finish_ok) (simp_all add: req_cancel_ok ok)
  moreover have "s' = fst (RecvMsg_finish c ?t)"
    using True r by (auto simp: RecvMsg_wake_def Let_def split: if_splits)
  ultimately show ?thesis by simp
next
  case False
  then have "s' = fst (RecvMsg_finish c s)"
    using r by (auto simp: RecvMsg_wake_def Let_def)
  moreover have "d \<Longrightarrow> c_reqID (r_ctxs s c) = 0 \<or> c_repMsg (r_ctxs s c) \<noteq> None"
    using False w req_okD(5) [OF ok, of c] by (auto simp: reply_ok_def)
  ultimately show ?thesis using RecvMsg_finish_ok [OF ok] by simp
qed



lemma resendMessage_ok:
  assumes ok: "req_ok d s" and c: "c < r_nctx s"
  shows "req_ok d (resendMessage c i s)"
proof (cases "c_reqMsg (r_ctxs s c) \<noteq> None \<and> \<not> c_queued (r_ctxs s c)")
  case True
  let ?f = "\<lambda>x. x\<lparr>c_queued := True\<rparr>"
  let ?t = "(upd_ctx c ?f s)\<lparr>r_sendQ := r_sendQ s @ [c]\<rparr>"
  have "req_ok d ?t"
  proof (rule req_ok_update [OF ok, of _ c "?f (r_ctxs s c)"])
    show "(e \<noteq> c \<and> r_ctxByID s j = Some e) \<or> (e = c \<and> c < r_nctx ?t \<and> (d \<longrightarrow> entry_ok j (?f (r_ctxs s c))))"
      if "r_ctxByID ?t j = Some e" for j e
      using that req_okD(8,9) [OF ok, of j e] by (auto simp: entry_ok_def)
  qed (use True c req_okD(1,2,7) [OF ok] req_okD(3-6) [OF ok, of c] in \<open>auto simp: rctx_ok_def reply_ok_def\<close>)
  then show ?thesis using ok by (simp add: resendMessage_def req_send_ok)
next
  case False
  then show ?thesis using ok by (auto simp: resendMessage_def)
qed

lemma sendCtx_done_ok:
  assumes ok: "req_ok d s" and p: "(p, m) \<in> set (r_inflight s)"
  shows "req_ok d (sendCtx_done p m err s)"
proof -
  let ?q = "remove1 (p, m) (r_inflight s)"
  obtain xs ys where q: "r_inflight s = xs @ (p, m) # ys" "?q = xs @ ys"
    using p by (metis remove1_split)
  have ok1: "req_ok d (s\<lparr>r_inflight := ?q\<rparr>)" "req_ok d (s\<lparr>r_inflight := ?q, r_readyQ := r_readyQ s @ [p]\<rparr>)"
    using ok q by (auto simp: req_ok_def)
  have "req_ok d (Free k (s\<lparr>r_inflight := ?q\<rparr>)\<lparr>r_readyQ := r_readyQ s @ [p]\<rparr>)" for k
    using ok1(2) by (simp add: Free_def req_ok_def)
  with ok1 show ?thesis
    by (auto simp: sendCtx_done_def Let_def intro!: req_send_ok)
qed

lemma ctx_SetOption_fields:
  "c_queued (fst (ctx_SetOption n v x)) = c_queued x" "rctx_ok (fst (ctx_SetOption n v x)) = rctx_ok x"
  "reply_ok (fst (ctx_SetOption n v x)) = reply_ok x" "entry_ok i (fst (ctx_SetOption n v x)) = entry_ok i x"
  by (auto simp: ctx_SetOption_def fst_set_field rctx_ok_def reply_ok_def entry_ok_def split: option.split)

lemma req_ctx_set_eq: "req_ctx_set c n v s = (upd_ctx c (\<lambda>x. fst (ctx_SetOption n v x)) s, snd (ctx_SetOption n v (r_ctxs s c)))"
  by (simp add: req_ctx_set_def split_beta upd_ctx_def)

lemma req_ctx_set_ok: "req_ok d s \<Longrightarrow> req_ok d (fst (req_ctx_set c n v s))"
  by (simp add: req_ctx_set_eq req_ok_same ctx_SetOption_fields)

lemma req_ok_contexts [simp]: "req_ok d (s\<lparr>r_contexts := cs\<rparr>) = req_ok d s"
  by (simp add: req_ok_def)

lemma close_one_ok: "req_ok d s \<Longrightarrow> req_ok d (close_one c s)"
  by (simp add: close_one_def req_cancel_ok)

lemma fold_ok: "(\<And>c s. req_ok d s \<Longrightarrow> req_ok d (f c s)) \<Longrightarrow> req_ok d s \<Longrightarrow> req_ok d (fold f cs s)"
  by (induction cs arbitrary: s) auto

lemma ctx_Close_ok: "req_ok d s \<Longrightarrow> req_ok d (fst (ctx_Close c s))"
  by (simp add: ctx_Close_def Let_def req_cancel_ok)

lemma req_Close_ok: "req_ok d s \<Longrightarrow> req_ok d (fst (req_Close s))"
  by (auto simp: req_Close_def intro!: fold_ok close_one_ok) (simp add: req_ok_def)

lemma req_OpenContext_ok:
  assumes ok: "req_ok d s"
  shows "req_ok d (fst (req_OpenContext s))"
proof -
  let ?n = "r_nctx s"
  let ?t = "(upd_ctx ?n (\<lambda>_. new_ctx (r_ctxs s 0)) s)\<lparr>r_nctx := Suc ?n, r_contexts := r_contexts s @ [?n]\<rparr>"
  have nq: "\<not> c_queued (r_ctxs s ?n)" "\<And>i. r_ctxByID s i \<noteq> Some ?n"
    using req_okD(6,8) [OF ok] by blast+
  have "req_ok d ?t"
  proof (rule req_ok_update [OF ok, of _ ?n "new_ctx (r_ctxs s 0)"])
    show "(e \<noteq> ?n \<and> r_ctxByID s i = Some e) \<or> (e = ?n \<and> ?n < r_nctx ?t \<and> (d \<longrightarrow> entry_ok i (new_ctx (r_ctxs s 0))))"
      if "r_ctxByID ?t i = Some e" for i e
      using that nq(2) [of i] by auto
  qed (use nq req_okD(1,2,7) [OF ok] req_okD(3) [OF ok, of ?n] in \<open>auto simp: new_ctx_def rctx_ok_def reply_ok_def\<close>)
  then show ?thesis using ok by (simp add: req_OpenContext_def)
qed

lemma req_AddPipe_ok:
  assumes ok: "req_ok d s" and p: "p \<notin> set (r_readyQ s)" "p \<notin> fst ` set (r_inflight s)"
  shows "req_ok d (fst (req_AddPipe p s))"
proof -
  have "req_ok d (s\<lparr>r_readyQ := r_readyQ s @ [p]\<rparr>)"
    using ok p by (auto simp: req_ok_def)
  then have "req_ok d (req_send (s\<lparr>r_readyQ := r_readyQ s @ [p]\<rparr>))" by (rule req_send_ok)
  then show ?thesis using ok by (auto simp: req_AddPipe_def Let_def req_ok_def)
qed

lemma remove_ctx_ok: "req_ok d s \<Longrightarrow> req_ok d (remove_ctx p c s)"
  by (simp add: remove_ctx_def Let_def req_cancel_ok cancelSend_ok)

lemma req_RemovePipe_ok:
  assumes ok: "req_ok d s"
  shows "req_ok d (req_RemovePipe p s)"
proof -
  have "distinct (remove1 p (r_readyQ s) @ map fst (r_inflight s))"
    using req_okD(7) [OF ok] by (auto dest: notin_set_remove1)
  with ok have "req_ok d (s\<lparr>r_pclosed := (r_pclosed s)(p := True), r_readyQ := remove1 p (r_readyQ s),
      r_pipes := r_pipes s - {p}\<rparr>)"
    by (simp add: req_ok_def)
  then show ?thesis unfolding req_RemovePipe_def Let_def by (intro fold_ok remove_ctx_ok)
qed

end
