(* ===== verification/ReqRuns.thy ===== *)
theory ReqRuns
  imports Req
begin

text \<open>
  Runs of the REQ socket: the interleavings of application calls, transport events, timer
  callbacks and goroutine completions, with the properties of \<^verbatim>\<open>protocol/req/req.go\<close> that
  follow from the invariant of the previous theory.
\<close>

section \<open>Steps\<close>

text \<open>
  With \<open>d\<close> the steps are those of applications that use each context from one goroutine at a
  time: no \<^verbatim>\<open>SendMsg\<close> on a context in which a \<^verbatim>\<open>RecvMsg\<close> is blocked. Pipes come and go as the
  core's call discipline allows: a pipe is added once, with no send outstanding.
\<close>

inductive req_step :: "bool \<Rightarrow> rsock \<Rightarrow> rsock \<Rightarrow> bool" for d where
  rq_send: "c < r_nctx s \<Longrightarrow> d \<longrightarrow> \<not> c_receiveWait (r_ctxs s c) \<Longrightarrow>
     SendMsg_begin c m s = (m', s', r) \<Longrightarrow> req_step d s s'"
| rq_send_wake: "SendMsg_wake c m e s = Some (s', st) \<Longrightarrow> req_step d s s'"
| rq_send_timer: "req_step d s (send_timer c m s)"
| rq_recv: "RecvMsg_begin c s = (s', st) \<Longrightarrow> req_step d s s'"
| rq_recv_timer: "req_step d s (recv_timer c i s)"
| rq_recv_wake: "c_receiveWait (r_ctxs s c) \<Longrightarrow> RecvMsg_wake c s = Some (s', x) \<Longrightarrow> req_step d s s'"
| rq_receive: "req_step d s (receiver_msg p m s)"
| rq_resend: "c < r_nctx s \<Longrightarrow> req_step d s (resendMessage c i s)"
| rq_sent: "(p, m) \<in> set (r_inflight s) \<Longrightarrow> req_step d s (sendCtx_done p m err s)"
| rq_set: "req_step d s (fst (req_ctx_set c n v s))"
| rq_ctx_close: "req_step d s (fst (ctx_Close c s))"
| rq_close: "req_step d s (fst (req_Close s))"
| rq_open: "req_step d s (fst (req_OpenContext s))"
| rq_add: "p \<notin> r_pipes s \<Longrightarrow> \<not> r_pclosed s p \<Longrightarrow> p \<notin> set (r_readyQ s) \<Longrightarrow> p \<notin> fst ` set (r_inflight s) \<Longrightarrow>
     req_step d s (fst (req_AddPipe p s))"
| rq_remove: "req_step d s (req_RemovePipe p s)"
| rq_order: "mset cs = mset (r_contexts s) \<Longrightarrow> req_step d s (s\<lparr>r_contexts := cs\<rparr>)"

definition req_inv :: "bool \<Rightarrow> rsock \<Rightarrow> bool" where
  "req_inv d s \<longleftrightarrow> req_ok d s \<and> ready_in (r_pipes s) s"

section \<open>Ready pipes\<close>

text \<open>Most steps leave the pipes alone.\<close>

definition same_pipes :: "rsock \<Rightarrow> rsock \<Rightarrow> bool" where
  "same_pipes s t \<longleftrightarrow> r_readyQ t = r_readyQ s \<and> r_inflight t = r_inflight s \<and>
     r_pclosed t = r_pclosed s \<and> r_pipes t = r_pipes s"

lemma same_pipes_ready: "same_pipes s t \<Longrightarrow> ready_in (r_pipes s) s \<Longrightarrow> ready_in (r_pipes t) t"
  by (simp add: same_pipes_def ready_in_def)

lemma fold_frame:
  assumes "\<And>c s. g (f c s) = g s"
  shows "g (fold f cs s) = g s"
  using assms by (induction cs arbitrary: s) auto

lemma remove_ctx_frame:
  "r_readyQ (remove_ctx p c s) = r_readyQ s" "r_inflight (remove_ctx p c s) = r_inflight s"
  "r_pclosed (remove_ctx p c s) = r_pclosed s" "r_pipes (remove_ctx p c s) = r_pipes s"
  "r_contexts (remove_ctx p c s) = r_contexts s" "r_nctx (remove_ctx p c s) = r_nctx s"
  by (simp_all add: remove_ctx_def Let_def)

lemma close_one_frame:
  "r_readyQ (close_one c s) = r_readyQ s" "r_inflight (close_one c s) = r_inflight s"
  "r_pclosed (close_one c s) = r_pclosed s" "r_pipes (close_one c s) = r_pipes s"
  by (simp_all add: close_one_def)

lemmas fold_remove_ctx = fold_frame [of r_readyQ "remove_ctx p" for p, OF remove_ctx_frame(1)]
  fold_frame [of r_inflight "remove_ctx p" for p, OF remove_ctx_frame(2)]
  fold_frame [of r_pclosed "remove_ctx p" for p, OF remove_ctx_frame(3)]
  fold_frame [of r_pipes "remove_ctx p" for p, OF remove_ctx_frame(4)]

lemmas fold_close_one = fold_frame [of r_readyQ close_one, OF close_one_frame(1)]
  fold_frame [of r_inflight close_one, OF close_one_frame(2)]
  fold_frame [of r_pclosed close_one, OF close_one_frame(3)]
  fold_frame [of r_pipes close_one, OF close_one_frame(4)]

lemma SendMsg_begin_ready:
  assumes r: "ready_in (r_pipes s) s" and b: "SendMsg_begin c m s = (m', s', x)"
  shows "ready_in (r_pipes s') s'"
proof -
  have "ready_in (r_pipes s) t"
    if "r_readyQ t = r_readyQ s" "r_inflight t = r_inflight s" "r_pclosed t = r_pclosed s" for t
    using that r by (auto simp: ready_in_def)
  then show ?thesis
    using b r by (auto simp: SendMsg_begin_def Let_def split: if_splits intro!: req_send_ready)
qed

lemma RecvMsg_finish_frame [simp]:
  "r_readyQ (fst (RecvMsg_finish c s)) = r_readyQ s" "r_inflight (fst (RecvMsg_finish c s)) = r_inflight s"
  "r_pclosed (fst (RecvMsg_finish c s)) = r_pclosed s" "r_pipes (fst (RecvMsg_finish c s)) = r_pipes s"
  by (auto simp: RecvMsg_finish_def Let_def split: option.split)

lemma RecvMsg_wake_frame:
  assumes "RecvMsg_wake c s = Some (s', x)"
  shows "r_readyQ s' = r_readyQ s" "r_inflight s' = r_inflight s" "r_pclosed s' = r_pclosed s" "r_pipes s' = r_pipes s"
proof -
  obtain t where "s' = fst (RecvMsg_finish c t)" "r_readyQ t = r_readyQ s" "r_inflight t = r_inflight s"
    "r_pclosed t = r_pclosed s" "r_pipes t = r_pipes s"
    using assms by (auto simp: RecvMsg_wake_def Let_def split: if_splits) (metis fst_conv req_cancel_simps upd_ctx_simps)+
  then show "r_readyQ s' = r_readyQ s" "r_inflight s' = r_inflight s" "r_pclosed s' = r_pclosed s" "r_pipes s' = r_pipes s"
    by simp_all
qed

lemma receiver_msg_frame:
  "set (r_readyQ (receiver_msg p m s)) = set (r_readyQ s)" "r_inflight (receiver_msg p m s) = r_inflight s"
  "r_pclosed (receiver_msg p m s) = r_pclosed s" "r_pipes (receiver_msg p m s) = r_pipes s"
  by (auto simp: receiver_msg_def Let_def split: option.split)

lemma sendCtx_done_ready:
  assumes ok: "req_ok d s" and r: "ready_in (r_pipes s) s" and p: "(p, m) \<in> set (r_inflight s)"
  shows "ready_in (r_pipes (sendCtx_done p m err s)) (sendCtx_done p m err s)"
proof -
  let ?q = "remove1 (p, m) (r_inflight s)"
  have sub: "fst ` set ?q \<subseteq> fst ` set (r_inflight s)" by (intro image_mono set_remove1_subset)
  have a: "ready_in (r_pipes s) t"
    if "r_inflight t = ?q" "r_pclosed t = r_pclosed s" "r_readyQ t = r_readyQ s" for t
    using r sub that unfolding ready_in_def by (simp add: subset_iff) blast
  have b: "ready_in (r_pipes s) t"
    if "\<not> r_pclosed s p" "r_inflight t = ?q" "r_pclosed t = r_pclosed s" "r_readyQ t = r_readyQ s @ [p]" for t
  proof -
    have "p \<in> fst ` set (r_inflight s)" using p by (rule image_eqI [rotated]) simp
    then show ?thesis using r sub that unfolding ready_in_def by (simp add: subset_iff) blast
  qed
  show ?thesis
  proof (cases "err \<noteq> Some ErrClosed \<and> \<not> r_closed s \<and> \<not> r_pclosed s p")
    case True
    let ?s1 = "s\<lparr>r_inflight := ?q\<rparr>"
    let ?s2 = "if err \<noteq> None then Free (m_id m) ?s1 else ?s1"
    have "ready_in (r_pipes s) (req_send (?s2\<lparr>r_readyQ := r_readyQ s @ [p]\<rparr>))"
      by (rule req_send_ready, rule b) (use True in \<open>auto simp: Free_def\<close>)
    then show ?thesis using True by (auto simp: sendCtx_done_def Let_def)
  next
    case False
    then show ?thesis by (auto simp: sendCtx_done_def Let_def intro!: a)
  qed
qed

lemma req_AddPipe_ready:
  assumes r: "ready_in (r_pipes s) s" and p: "\<not> r_pclosed s p"
  shows "ready_in (r_pipes (fst (req_AddPipe p s))) (fst (req_AddPipe p s))"
proof (cases "r_closed s")
  case True
  then show ?thesis using r by (simp add: req_AddPipe_def)
next
  case False
  have "ready_in (insert p (r_pipes s)) (s\<lparr>r_readyQ := r_readyQ s @ [p]\<rparr>)"
    using r p by (auto simp: ready_in_def)
  then have "ready_in (insert p (r_pipes s)) (req_send (s\<lparr>r_readyQ := r_readyQ s @ [p]\<rparr>))"
    by (rule req_send_ready)
  then show ?thesis using False by (simp add: req_AddPipe_def Let_def ready_in_def)
qed

lemma req_RemovePipe_ready:
  assumes ok: "req_ok d s" and r: "ready_in (r_pipes s) s"
  shows "ready_in (r_pipes (req_RemovePipe p s)) (req_RemovePipe p s)"
proof -
  have "p \<notin> set (remove1 p (r_readyQ s))" using req_okD(7) [OF ok] by simp
  then show ?thesis
    using r by (auto simp: req_RemovePipe_def Let_def fold_remove_ctx ready_in_def dest: notin_set_remove1)
qed

lemma req_step_ready:
  assumes st: "req_step d s t" and ok: "req_ok d s" and r: "ready_in (r_pipes s) s"
  shows "ready_in (r_pipes t) t"
  using st
proof cases
  case rq_send
  then show ?thesis using SendMsg_begin_ready [OF r] by blast
next
  case (rq_send_wake c m e st)
  then have "same_pipes s t" by (auto simp: SendMsg_wake_def Let_def same_pipes_def split: if_splits)
  then show ?thesis using r by (rule same_pipes_ready)
next
  case (rq_recv_wake c x)
  then have "same_pipes s t" using RecvMsg_wake_frame [OF rq_recv_wake(2)] by (simp add: same_pipes_def)
  then show ?thesis using r by (rule same_pipes_ready)
next
  case (rq_receive p m)
  then show ?thesis using r receiver_msg_frame [of p m s] by (simp add: ready_in_def)
next
  case rq_resend
  then show ?thesis using r
    by (auto simp: resendMessage_def intro!: req_send_ready) (simp add: ready_in_def)
next
  case rq_sent
  then show ?thesis using sendCtx_done_ready [OF ok r] by simp
next
  case rq_add
  then show ?thesis using req_AddPipe_ready [OF r] by simp
next
  case rq_remove
  then show ?thesis using req_RemovePipe_ready [OF ok r] by simp
next
  case rq_close
  then have "same_pipes s t" by (auto simp: req_Close_def fold_close_one same_pipes_def)
  then show ?thesis using r by (rule same_pipes_ready)
qed (rule same_pipes_ready [OF _ r]; auto simp: same_pipes_def send_timer_def recv_timer_def RecvMsg_begin_def
      Let_def req_ctx_set_eq ctx_Close_def req_OpenContext_def split: if_splits)+

lemma req_step_ok:
  assumes st: "req_step d s t" and ok: "req_ok d s"
  shows "req_ok d t"
  using st
proof cases
  case rq_send
  then show ?thesis using SendMsg_begin_ok [OF ok] by blast
next
  case (rq_recv c st)
  then show ?thesis using RecvMsg_begin_ok [OF ok, of c] by simp
qed (use ok in \<open>auto intro: SendMsg_wake_ok send_timer_ok recv_timer_ok RecvMsg_wake_ok receiver_msg_ok
      resendMessage_ok sendCtx_done_ok req_ctx_set_ok ctx_Close_ok req_Close_ok req_OpenContext_ok
      req_AddPipe_ok req_RemovePipe_ok\<close>)

lemma req_init_inv: "req_inv d (req_NewProtocol now)"
  by (simp add: req_inv_def req_ok_def ready_in_def req_NewProtocol_def rctx_ok_def reply_ok_def ctx0_def)

interpretation req: machine "\<lambda>s. \<exists>now. s = req_NewProtocol now" "req_step d" "req_inv d" for d
proof unfold_locales
  show "req_inv d s" if "\<exists>now. s = req_NewProtocol now" for s using that req_init_inv by blast
  show "req_inv d t" if "req_inv d s" "req_step d s t" for s t
    using that req_step_ok req_step_ready by (auto simp: req_inv_def)
qed


section \<open>The send loop\<close>

definition pending_msg :: "rctx \<Rightarrow> message" where
  "pending_msg x = (case c_sendMsg x of Some m \<Rightarrow> m | None \<Rightarrow> the (c_reqMsg x))"

lemma sent_ctx_pending: "c_reqMsg (sent_ctx p x) = Some m \<Longrightarrow> pending_msg x = m"
  by (auto simp: pending_msg_def sent_ctx_def split: option.splits)

lemma send_loop_sent:
  "req_ok d s \<Longrightarrow> r_sendQ s = cs \<Longrightarrow> r_readyQ s = ps \<Longrightarrow>
   r_inflight (send_loop cs ps s) = r_inflight s @ zip ps (map (\<lambda>c. pending_msg (r_ctxs s c)) cs)"
proof (induction cs ps s rule: send_loop.induct)
  case (1 c cs p ps s)
  let ?s = "s\<lparr>r_sendQ := cs, r_readyQ := ps\<rparr>"
  have c: "rctx_ok (r_ctxs ?s c)" "c_queued (r_ctxs ?s c)" and nc: "c \<notin> set cs"
    using req_okD(2,3,4) [OF 1(2)] 1(3) by auto
  obtain m where m: "c_reqMsg (sent_ctx p (r_ctxs ?s c)) = Some m"
    "r_ctxs (send_one c p ?s) = (r_ctxs ?s)(c := sent_ctx p (r_ctxs ?s c))"
    "r_inflight (send_one c p ?s) = r_inflight ?s @ [(p, m)]"
    by (rule send_one_effect [OF c])
  have rest: "map (\<lambda>e. pending_msg (r_ctxs (send_one c p ?s) e)) cs = map (\<lambda>e. pending_msg (r_ctxs s e)) cs"
    using nc by (auto simp: m(2))
  have "pending_msg (r_ctxs s c) = m" using sent_ctx_pending [OF m(1)] by simp
  then show ?case
    using 1(1) send_one_ok [OF 1(2), of c cs p ps] 1(3,4) rest by (simp add: m(3))
qed simp_all

lemma req_send_sent:
  "req_ok d s \<Longrightarrow>
   r_inflight (req_send s) = r_inflight s @ zip (r_readyQ s) (map (\<lambda>c. pending_msg (r_ctxs s c)) (r_sendQ s))"
  unfolding req_send_def by (rule send_loop_sent) simp_all

section \<open>Losing a pipe\<close>

text \<open>What the loop of \<^verbatim>\<open>RemovePipe\<close> makes of one context; visiting it twice changes nothing more.\<close>

definition removed_ctx :: "nat set \<Rightarrow> nat \<Rightarrow> rctx \<Rightarrow> rctx" where
  "removed_ctx P p x =
     (if c_failNoPeers x \<and> P = {} then cancelled x
      else if c_lastPipe x = Some p \<and> c_reqMsg x \<noteq> None then
        (if c_resendTime x = 0 then cancelled (x\<lparr>c_lastPipe := None\<rparr>)
         else x\<lparr>c_lastPipe := None, c_queued := False\<rparr>)
      else x)"

lemma cancelled_idem: "cancelled (cancelled x) = cancelled x"
  by (simp add: cancelled_def)

lemma removed_ctx_idem: "removed_ctx P p (removed_ctx P p x) = removed_ctx P p x"
proof -
  consider (np) "c_failNoPeers x \<and> P = {}"
    | (drop) "\<not> (c_failNoPeers x \<and> P = {})" "c_lastPipe x = Some p \<and> c_reqMsg x \<noteq> None" "c_resendTime x = 0"
    | (keep) "\<not> (c_failNoPeers x \<and> P = {})" "c_lastPipe x = Some p \<and> c_reqMsg x \<noteq> None" "c_resendTime x \<noteq> 0"
    | (skip) "\<not> (c_failNoPeers x \<and> P = {})" "\<not> (c_lastPipe x = Some p \<and> c_reqMsg x \<noteq> None)"
    by blast
  then show ?thesis
  proof cases
    case np
    then have "removed_ctx P p x = cancelled x" by (simp add: removed_ctx_def)
    then show ?thesis using np by (simp only:) (simp add: removed_ctx_def cancelled_idem)
  next
    case drop
    then have "removed_ctx P p x = cancelled (x\<lparr>c_lastPipe := None\<rparr>)"
      by (simp only: removed_ctx_def if_False simp_thms if_True)
    then show ?thesis using drop by (simp only:) (simp add: removed_ctx_def cancelled_idem)
  next
    case keep
    then have "removed_ctx P p x = x\<lparr>c_lastPipe := None, c_queued := False\<rparr>"
      by (simp only: removed_ctx_def if_False simp_thms if_True)
    then show ?thesis using keep by (simp only:) (auto simp: removed_ctx_def)
  next
    case skip
    then have "removed_ctx P p x = x" by (simp only: removed_ctx_def if_False)
    then show ?thesis by (simp only:)
  qed
qed

lemma remove_ctx_ctxs: "r_ctxs (remove_ctx p c s) = (r_ctxs s)(c := removed_ctx (r_pipes s) p (r_ctxs s c))"
  by (auto simp: remove_ctx_def removed_ctx_def no_peers_def Let_def)

lemma fold_remove_ctxs:
  "r_ctxs (fold (remove_ctx p) cs s) c =
   (if c \<in> set cs then removed_ctx (r_pipes s) p (r_ctxs s c) else r_ctxs s c)"
  by (induction cs arbitrary: s) (auto simp: remove_ctx_ctxs remove_ctx_frame(4) removed_ctx_idem)

lemma req_RemovePipe_ctx:
  "c \<in> set (r_contexts s) \<Longrightarrow>
   r_ctxs (req_RemovePipe p s) c = removed_ctx (r_pipes s - {p}) p (r_ctxs s c)"
  by (simp add: req_RemovePipe_def fold_remove_ctxs)

lemma fold_remove_nctx: "r_nctx (fold (remove_ctx p) cs s) = r_nctx s"
  by (rule fold_frame) (rule remove_ctx_frame(6))

lemma req_RemovePipe_nctx [simp]: "r_nctx (req_RemovePipe p s) = r_nctx s"
  by (simp add: req_RemovePipe_def fold_remove_nctx)

text \<open>A requeued request is at once with a pipe or waits in the send queue.\<close>

lemma resendMessage_pending:
  assumes ok: "req_ok d s" and c: "c < r_nctx s" "c_reqID (r_ctxs s c) = i" "c_reqMsg (r_ctxs s c) = Some m"
  shows "c \<in> set (r_sendQ (resendMessage c i s)) \<or> m \<in> snd ` set (r_inflight (resendMessage c i s))"
proof (cases "c_queued (r_ctxs s c)")
  case True
  then show ?thesis using c req_okD(3) [OF ok, of c] by (simp add: resendMessage_def)
next
  case False
  let ?t = "(upd_ctx c (\<lambda>x. x\<lparr>c_queued := True\<rparr>) s)\<lparr>r_sendQ := r_sendQ s @ [c]\<rparr>"
  have r: "resendMessage c i s = req_send ?t" using False c by (simp add: resendMessage_def)
  have okt: "req_ok d ?t"
  proof (rule req_ok_update [OF ok, of _ c "(r_ctxs s c)\<lparr>c_queued := True\<rparr>"])
    show "(e \<noteq> c \<and> r_ctxByID s j = Some e) \<or>
        (e = c \<and> c < r_nctx ?t \<and> (d \<longrightarrow> entry_ok j ((r_ctxs s c)\<lparr>c_queued := True\<rparr>)))"
      if "r_ctxByID ?t j = Some e" for j e
      using that req_okD(8,9) [OF ok, of j e] by (auto simp: entry_ok_def)
  qed (use False c req_okD(1,2,7) [OF ok] req_okD(3-6) [OF ok, of c] in \<open>auto simp: rctx_ok_def reply_ok_def\<close>)
  show ?thesis
  proof (cases "length (r_readyQ s) \<le> length (r_sendQ s)")
    case True
    then show ?thesis unfolding r req_send_queues by simp
  next
    case False
    have "c_sendMsg (r_ctxs s c) = None" using c(3) req_okD(4) [OF ok, of c] by (simp add: rctx_ok_def)
    then have "pending_msg (r_ctxs ?t c) = m" using c(3) by (simp add: pending_msg_def)
    moreover have "(r_readyQ ?t ! length (r_sendQ s), pending_msg (r_ctxs ?t c))
        \<in> set (zip (r_readyQ ?t) (map (\<lambda>e. pending_msg (r_ctxs ?t e)) (r_sendQ ?t)))"
      using False by (auto simp: in_set_zip nth_append intro!: exI [of _ "length (r_sendQ s)"])
    ultimately show ?thesis unfolding r req_send_sent [OF okt] by force
  qed
qed

section \<open>Properties\<close>



text \<open>
  The send loop is work-conserving and fair: the queued contexts are served in queue order
  by the ready pipes in queue order, each with the message it has pending, until one of the
  two queues is empty.
\<close>

theorem req_send_fifo:
  assumes "(req_step d)\<^sup>*\<^sup>* (req_NewProtocol now) s"
  shows "r_inflight (req_send s) =
      r_inflight s @ zip (r_readyQ s) (map (\<lambda>c. pending_msg (r_ctxs s c)) (r_sendQ s)) \<and>
    r_sendQ (req_send s) = drop (length (r_readyQ s)) (r_sendQ s) \<and>
    r_readyQ (req_send s) = drop (length (r_sendQ s)) (r_readyQ s)"
  using req.reachable_inv [OF _ assms] req_send_sent [of d s] req_send_queues [of s] by (auto simp: req_inv_def)



text \<open>
  A run of one socket: a pipe is attached, a request sent and awaited (\<open>rq3\<close>); its reply
  arrives (\<open>rq_ok\<close>) or, from another goroutine, a second request replaces it (\<open>rq5\<close>), the
  first \<^verbatim>\<open>RecvMsg\<close> wakes up cancelled (\<open>rq6\<close>), a third request is queued (\<open>rq7\<close>) and the
  reply to the second one arrives (\<open>rq8\<close>).
\<close>

definition msg_of :: "nat \<Rightarrow> bytes \<Rightarrow> message" where
  "msg_of i b = \<lparr>m_id = i, Header = [], Body = b, m_pipe = None, m_from = 0\<rparr>"

definition rq1 :: rsock where "rq1 = fst (req_AddPipe 1 (req_NewProtocol 0))"
definition rq2 :: rsock where "rq2 = fst (snd (SendMsg_begin 0 (msg_of 1 []) rq1))"
definition rq3 :: rsock where "rq3 = fst (RecvMsg_begin 0 rq2)"
definition rq_ok :: rsock where "rq_ok = receiver_msg 1 (msg_of 9 (PutUint32 0x80000001)) rq3"
definition rq4 :: rsock where "rq4 = sendCtx_done 1 (snd (hd (r_inflight rq3))) None rq3"
definition rq5 :: rsock where "rq5 = fst (snd (SendMsg_begin 0 (msg_of 2 []) rq4))"
definition rq6 :: rsock where "rq6 = fst (the (RecvMsg_wake 0 rq5))"
definition rq7 :: rsock where "rq7 = fst (snd (SendMsg_begin 0 (msg_of 3 []) rq6))"
definition rq8 :: rsock where "rq8 = receiver_msg 1 (msg_of 9 (PutUint32 0x80000002)) rq7"

lemma rq_send':
  "c < r_nctx s \<Longrightarrow> d \<longrightarrow> \<not> c_receiveWait (r_ctxs s c) \<Longrightarrow> req_step d s (fst (snd (SendMsg_begin c m s)))"
  by (cases "SendMsg_begin c m s") (auto intro: rq_send)

lemmas req_eval = req_NewProtocol_def ctx0_def req_AddPipe_def SendMsg_begin_def RecvMsg_begin_def
  RecvMsg_wake_def RecvMsg_finish_def receiver_msg_def sendCtx_done_def req_send_def send_one_def upd_ctx_def
  cancelSend_def req_cancel_def free_opt_def no_peers_def msg_of_def Clone_def Free_def ready_first_def
  swap_front_def req_id_def Let_def

lemmas rq_defs = rq1_def rq2_def rq3_def rq4_def rq5_def rq6_def rq7_def rq8_def rq_ok_def

lemma rq_inflight: "\<exists>m. r_inflight rq3 = [(1, m)]"
  by (simp add: rq_defs req_eval)

lemma rq_eval: "0 < r_nctx rq1" "\<not> c_receiveWait (r_ctxs rq1 0)" "0 < r_nctx rq4" "0 < r_nctx rq6"
  "c_receiveWait (r_ctxs rq5 0)" "RecvMsg_wake 0 rq5 \<noteq> None" 
  by (simp_all add: rq_defs req_eval)

lemma rq_eval2:
  "panicked rq8"
  by (simp add: rq_defs req_eval)

lemma rq_steps:
  "req_step d (req_NewProtocol 0) rq1" "req_step d rq1 rq2" "req_step d rq2 rq3" "req_step d rq3 rq_ok"
  "req_step d rq3 rq4" "req_step False rq4 rq5" "req_step False rq5 rq6" "req_step False rq6 rq7"
  "req_step False rq7 rq8"
proof -
  show "req_step d (req_NewProtocol 0) rq1"
    unfolding rq1_def by (rule rq_add) (simp_all add: req_NewProtocol_def)
  show "req_step d rq1 rq2" unfolding rq2_def by (intro rq_send') (simp_all add: rq_eval)
  show "req_step d rq2 rq3" unfolding rq3_def by (rule rq_recv) (rule prod.collapse [symmetric])
  show "req_step d rq3 rq_ok" unfolding rq_ok_def by (rule rq_receive)
  have "(1, snd (hd (r_inflight rq3))) \<in> set (r_inflight rq3)" using rq_inflight by auto
  then show "req_step d rq3 rq4" unfolding rq4_def by (rule rq_sent)
  show "req_step False rq4 rq5" unfolding rq5_def by (intro rq_send') (simp_all add: rq_eval)
  show "req_step False rq5 rq6" unfolding rq6_def
    using rq_eval(5,6) by (auto intro!: rq_recv_wake)
  show "req_step False rq6 rq7" unfolding rq7_def by (intro rq_send') (simp_all add: rq_eval)
  show "req_step False rq7 rq8" unfolding rq8_def by (rule rq_receive)
qed

lemma rq_runs:
  "(req_step d)\<^sup>*\<^sup>* (req_NewProtocol 0) rq2" "(req_step d)\<^sup>*\<^sup>* (req_NewProtocol 0) rq_ok"
  "(req_step False)\<^sup>*\<^sup>* (req_NewProtocol 0) rq8"
proof -
  have r2: "(req_step d)\<^sup>*\<^sup>* (req_NewProtocol 0) rq2" for d
    using rq_steps(1,2) by (meson converse_rtranclp_into_rtranclp rtranclp.rtrancl_refl)
  have r3: "(req_step d)\<^sup>*\<^sup>* (req_NewProtocol 0) rq3" for d
    using r2 rq_steps(3) by (rule rtranclp.rtrancl_into_rtrancl)
  show "(req_step d)\<^sup>*\<^sup>* (req_NewProtocol 0) rq2" by (rule r2)
  show "(req_step d)\<^sup>*\<^sup>* (req_NewProtocol 0) rq_ok"
    using r3 rq_steps(4) by (rule rtranclp.rtrancl_into_rtrancl)
  show "(req_step False)\<^sup>*\<^sup>* (req_NewProtocol 0) rq8"
    using r3 [of False] rq_steps(5) [of False] rq_steps(6-9) by (meson rtranclp.rtrancl_into_rtrancl)
qed



theorem req_send_fifo_witness:
  "r_inflight (req_send rq8) =
      r_inflight rq8 @ zip (r_readyQ rq8) (map (\<lambda>c. pending_msg (r_ctxs rq8 c)) (r_sendQ rq8)) \<and>
    r_sendQ (req_send rq8) = drop (length (r_readyQ rq8)) (r_sendQ rq8) \<and>
    r_readyQ (req_send rq8) = drop (length (r_sendQ rq8)) (r_readyQ rq8)"
  by (rule req_send_fifo [OF rq_runs(3)])



section \<open>The protocol contract\<close>

lemma ctx_set_raw: "snd (ctx_SetOption OptionRaw v x) = Some ErrBadOption"
  by (simp add: ctx_SetOption_def option_names)

lemma ctx_set_error: "clean x (ctx_SetOption n v x)"
  by (simp add: ctx_SetOption_def)

lemma ctx_set_get: "snd (ctx_SetOption n v x) = None \<longrightarrow> ctx_GetOption n (fst (ctx_SetOption n v x)) = Inr v"
  by (auto simp: ctx_SetOption_def ctx_GetOption_def fst_set_field)

interpretation req_proto: protocol_base r_closed "\<lambda>s. of_nat ` r_pipes s" req_Close
  "\<lambda>p. req_AddPipe (unat p)" req_SetOption req_GetOption
proof unfold_locales
  show "snd (req_Close s) = None \<and> r_closed (fst (req_Close s))" if "\<not> r_closed s" for s
  proof -
    have "r_closed (fold close_one cs t) = r_closed t" for cs t
      by (rule fold_frame) (simp add: close_one_def)
    then show ?thesis using that by (simp add: req_Close_def)
  qed
  show "req_GetOption n (fst (req_SetOption n v s)) = Inr v" if "snd (req_SetOption n v s) = None" for n v s
    using that ctx_set_get [of n v "r_ctxs s 0"]
    by (cases "n = OptionRaw") (simp_all add: req_SetOption_def req_GetOption_def req_ctx_set_eq ctx_set_raw)
  show "fst (req_SetOption n v s) = s" if "snd (req_SetOption n v s) \<noteq> None" for n v s
    using that cleanD [OF ctx_set_error, of n v "r_ctxs s 0"] by (simp add: req_SetOption_def req_ctx_set_eq upd_ctx_def)
qed (auto simp: req_Close_def req_AddPipe_def Let_def req_SetOption_def req_ctx_set_eq)

end
