(* ===== verification/Backtrace.thy ===== *)
theory Backtrace
  imports PipeIDs
begin

text \<open>
  The routing header of the request and survey protocols. A message on the wire starts with
  the IDs of the pipes it came through, outermost first, and ends with the request ID, the
  only word whose top bit is set. \<^verbatim>\<open>receiver\<close> of rep, respondent, xrep and xrespondent moves
  these words from the body to the header, each with its own way of counting hops; the
  reference definition is \<open>bt_words\<close>.
\<close>

section \<open>The parsing loops\<close>

definition top_bit :: "byte \<Rightarrow> bool" where
  "top_bit b \<longleftrightarrow> b AND 0x80 \<noteq> 0"

text \<open>
  \<^verbatim>\<open>rep.go\<close> and \<^verbatim>\<open>respondent.go\<close>: \<open>None\<close> when the message is dropped. The check reads the first
  byte of the word just appended to the header.
\<close>

function rep_loop :: "nat \<Rightarrow> nat \<Rightarrow> bytes \<Rightarrow> bytes \<Rightarrow> (bytes \<times> bytes) option" where
  "rep_loop ttl hops h b =
     (if hops \<ge> ttl then None
      else if length b < 4 then None
      else
        (let h' = h @ take 4 b; b' = drop 4 b
         in if top_bit (h' ! (length h' - 4)) then Some (h', b')
            else rep_loop ttl (Suc hops) h' b'))"
  by pat_completeness auto
termination by (relation "measure (\<lambda>(ttl, hops, h, b). length b)") auto

text \<open>\<^verbatim>\<open>xrep.go\<close>: hops start at one, and the word is examined before it is moved.\<close>

function xrep_loop :: "nat \<Rightarrow> nat \<Rightarrow> bytes \<Rightarrow> bytes \<Rightarrow> (bytes \<times> bytes) option" where
  "xrep_loop ttl hops h b =
     (if hops > ttl then None
      else if length b < 4 then None
      else if top_bit (b ! 0) then Some (h @ take 4 b, drop 4 b)
      else xrep_loop ttl (Suc hops) (h @ take 4 b) (drop 4 b))"
  by pat_completeness auto
termination by (relation "measure (\<lambda>(ttl, hops, h, b). length b)") auto

text \<open>\<^verbatim>\<open>xrespondent.go\<close>: hops start at one, and the limit is reached one word earlier.\<close>

function xrespondent_loop :: "nat \<Rightarrow> nat \<Rightarrow> bytes \<Rightarrow> bytes \<Rightarrow> (bytes \<times> bytes) option" where
  "xrespondent_loop ttl hops h b =
     (if hops \<ge> ttl then None
      else if length b < 4 then None
      else if top_bit (b ! 0) then Some (h @ take 4 b, drop 4 b)
      else xrespondent_loop ttl (Suc hops) (h @ take 4 b) (drop 4 b))"
  by pat_completeness auto
termination by (relation "measure (\<lambda>(ttl, hops, h, b). length b)") auto

declare rep_loop.simps [simp del] xrep_loop.simps [simp del] xrespondent_loop.simps [simp del]

section \<open>Reference definition\<close>

text \<open>The number of words up to and including the first one with its top bit set.\<close>

function bt_words :: "bytes \<Rightarrow> nat option" where
  "bt_words b =
     (if length b < 4 then None
      else if top_bit (b ! 0) then Some 1
      else map_option Suc (bt_words (drop 4 b)))"
  by pat_completeness auto
termination by (relation "measure length") auto

declare bt_words.simps [simp del]

definition split_bt :: "nat \<Rightarrow> bytes \<Rightarrow> bytes \<Rightarrow> (bytes \<times> bytes) option" where
  "split_bt n h b =
     (case bt_words b of
        Some k \<Rightarrow> if k \<le> n then Some (h @ take (4 * k) b, drop (4 * k) b) else None
      | None \<Rightarrow> None)"

lemma split_bt_0 [simp]: "split_bt 0 h b = None"
proof -
  have "bt_words b \<noteq> Some 0" by (subst bt_words.simps) (auto simp: map_option_case split: option.split)
  then show ?thesis by (auto simp: split_bt_def split: option.split)
qed

lemma split_bt_Suc:
  "split_bt (Suc n) h b =
     (if length b < 4 then None
      else if top_bit (b ! 0) then Some (h @ take 4 b, drop 4 b)
      else split_bt n (h @ take 4 b) (drop 4 b))"
  by (subst (1) split_bt_def, subst bt_words.simps)
     (auto simp: split_bt_def take_add add.commute split: option.split)

lemma rep_loop_split: "rep_loop ttl hops h b = split_bt (ttl - hops) h b"
proof (induction ttl hops h b rule: rep_loop.induct)
  case (1 ttl hops h b)
  show ?case
  proof (cases "hops < ttl \<and> 4 \<le> length b")
    case True
    then obtain n where n: "ttl - hops = Suc n" "ttl - Suc hops = n"
      by (metis Suc_diff_Suc)
    have hd: "(h @ take 4 b) ! length h = b ! 0" "length (h @ take 4 b) - 4 = length h"
      using True by (auto simp: nth_append)
    show ?thesis
      unfolding n(1) split_bt_Suc
      using True 1 by (subst rep_loop.simps) (simp add: Let_def hd n(2))
  next
    case False
    then show ?thesis
      by (cases "ttl - hops") (auto simp: rep_loop.simps split_bt_Suc)
  qed
qed

lemma xrep_loop_split: "0 < hops \<Longrightarrow> xrep_loop ttl hops h b = split_bt (Suc ttl - hops) h b"
proof (induction ttl hops h b rule: xrep_loop.induct)
  case (1 ttl hops h b)
  show ?case
  proof (cases "hops \<le> ttl")
    case True
    then have n: "Suc ttl - hops = Suc (ttl - hops)" "Suc ttl - Suc hops = ttl - hops" by auto
    show ?thesis
      unfolding n(1) split_bt_Suc using True 1 by (subst xrep_loop.simps) (auto simp: n(2))
  next
    case False
    then show ?thesis by (subst xrep_loop.simps) simp
  qed
qed

lemma xrespondent_loop_split: "0 < hops \<Longrightarrow> xrespondent_loop ttl hops h b = split_bt (ttl - hops) h b"
proof (induction ttl hops h b rule: xrespondent_loop.induct)
  case (1 ttl hops h b)
  show ?case
  proof (cases "hops < ttl")
    case True
    then obtain n where n: "ttl - hops = Suc n" "ttl - Suc hops = n" by (metis Suc_diff_Suc)
    show ?thesis
      unfolding n(1) split_bt_Suc using True 1 by (subst xrespondent_loop.simps) (auto simp: n(2))
  next
    case False
    then show ?thesis by (subst xrespondent_loop.simps) simp
  qed
qed

section \<open>What a path puts on the wire\<close>

text \<open>Pipe IDs have their top bit clear, request IDs have it set.\<close>

definition words_of :: "u32 list \<Rightarrow> bytes" where
  "words_of ids = concat (map PutUint32 ids)"

lemma length_words_of [simp]: "length (words_of ids) = 4 * length ids"
  by (induction ids) (auto simp: words_of_def)

lemma words_of_simps [simp]: "words_of [] = []" "words_of (i # ids) = PutUint32 i @ words_of ids"
  "words_of (ids @ js) = words_of ids @ words_of js"
  by (simp_all add: words_of_def)

lemma top_bit_iff: "top_bit b \<longleftrightarrow> bit b 7"
  using and_exp_eq_0_iff_not_bit [of b 7] by (simp add: top_bit_def)

lemma top_bit_PutUint32 [simp]: "top_bit ((PutUint32 w @ bs) ! 0) \<longleftrightarrow> bit w 31"
proof -
  have "be_enc 4 n ! 0 = of_nat (n div 256 div 256 div 256)" for n
  proof -
    have "be_enc (Suc (Suc (Suc (Suc 0)))) n ! 0 = of_nat (n div 256 div 256 div 256)"
      by (simp only: be_enc.simps append.simps nth_Cons_0)
    moreover have "Suc (Suc (Suc (Suc 0))) = 4" by simp
    ultimately show ?thesis by (simp only:)
  qed
  then have "PutUint32 w ! 0 = of_nat (unat w div 2 ^ 24)"
    by (simp only: PutUint32_def div_mult2_eq [symmetric]) simp
  moreover have "PutUint32 w \<noteq> []" by (metis length_PutUint32 list.size(3) zero_neq_numeral)
  ultimately have "(PutUint32 w @ bs) ! 0 = of_nat (unat w div 2 ^ 24)" by (simp add: nth_append)
  then have "top_bit ((PutUint32 w @ bs) ! 0) \<longleftrightarrow> bit (unat w div 2 ^ 24) 7"
    by (simp add: top_bit_iff bit_of_nat_iff)
  also have "\<dots> \<longleftrightarrow> bit w 31"
    by (simp only: drop_bit_eq_div [symmetric] bit_drop_bit_eq) (simp add: bit_unsigned_iff)
  finally show ?thesis .
qed

lemma valid_id_bit: "valid_id i \<Longrightarrow> \<not> bit i 31"
proof
  assume "valid_id i" and "bit i 31"
  then have "take_bit 31 i = i" by (simp add: valid_id_def id_mask_take_bit)
  then have "bit (take_bit 31 i) 31" using \<open>bit i 31\<close> by simp
  then show False by (simp add: bit_take_bit_iff)
qed

lemma bt_words_path:
  assumes "\<forall>i\<in>set ids. \<not> bit i 31" and "bit r 31"
  shows "bt_words (words_of ids @ PutUint32 r @ body) = Some (Suc (length ids))"
  using assms(1)
proof (induction ids)
  case Nil
  show ?case by (subst bt_words.simps) (simp add: assms(2))
next
  case (Cons i ids)
  then have "\<not> top_bit ((PutUint32 i @ words_of ids @ PutUint32 r @ body) ! 0)" by simp
  then show ?case using Cons by (subst bt_words.simps) simp
qed

section \<open>Properties\<close>

text \<open>
  C14: The three implementations of the backtrace loop against the reference definition: rep,
  respondent and xrep accept exactly the messages with at most \<open>ttl\<close> routing words and split
  them after the first word with the top bit set; both hop counts and both orders of testing
  and moving the word come to the same.
\<close>

theorem backtrace_loops_agree:
  "rep_loop ttl 0 h b = split_bt ttl h b \<and> xrep_loop ttl 1 h b = split_bt ttl h b"
  by (simp add: rep_loop_split xrep_loop_split)

text \<open>
  \<^verbatim>\<open>xrespondent\<close> counts one hop more: with the same \<^verbatim>\<open>OptionTTL\<close> it accepts only what the
  others accept with a limit one lower; at the legal value 1 it drops every message.
\<close>

theorem xrespondent_ttl_off_by_one:
  "xrespondent_loop ttl 1 h b = split_bt (ttl - 1) h b \<and> xrespondent_loop 1 1 h b = None"
  by (simp add: xrespondent_loop_split)



end
