(* ===== verification/Xrep.thy ===== *)
theory Xrep
  imports RawSock Backtrace
begin

text \<open>
  Raw REP, \<^verbatim>\<open>protocol/xrep/xrep.go\<close>. A received message gets the ID of its pipe and the
  backtrace as its header; a message to send names its pipe in the first four header bytes.
\<close>

section \<open>Operations\<close>

text \<open>
  \<^verbatim>\<open>SendMsg\<close> up to the \<^verbatim>\<open>select\<close>: the message as the caller sees it and the result, or what the
  \<^verbatim>\<open>select\<close> works on: message, saved header, pipe, best-effort flag and time channel.
\<close>

definition xrep_SendMsg_begin ::
    "message \<Rightarrow> rawsock \<Rightarrow> rawsock \<times> ((message \<times> status) + (message \<times> bytes \<times> nat \<times> bool \<times> timeq))" where
  "xrep_SendMsg_begin m s =
     (if x_closed s then (s, Inl (m, Some ErrClosed))
      else if length (Header m) < 4 then (Free (m_id m) s, Inl (m, None))
      else
        (let i = Uint32 (Header m);
             hdr = Header m;
             m' = m\<lparr>Header := drop 4 (Header m)\<rparr>
         in case x_pipes s i of
              None \<Rightarrow> (Free (m_id m) s, Inl (m', None))
            | Some p \<Rightarrow>
                (s, Inr (m', hdr, p, x_bestEffort s,
                         if x_bestEffort s then ClosedQ else expire_q (x_sendExpire s)))))"

definition xrep_SendMsg_try :: "bool \<Rightarrow> nat \<Rightarrow> message \<Rightarrow> rawsock \<Rightarrow> (rawsock \<times> message \<times> status) option" where
  "xrep_SendMsg_try parked p m s = map_option (\<lambda>s'. (s', m, None)) (pipe_send parked p m s)"

definition xrep_SendMsg_wait ::
    "bool \<Rightarrow> bool \<Rightarrow> message \<times> bytes \<times> nat \<times> bool \<times> timeq \<Rightarrow> rawsock \<Rightarrow> (rawsock \<times> message \<times> status) list" where
  "xrep_SendMsg_wait parked fired loc s =
     (case loc of (m, hdr, p, be, tq) \<Rightarrow>
        ready_cases
          [xrep_SendMsg_try parked p m s,
           case_if (p_closeQ (x_pobj s p)) (s, m\<lparr>Header := hdr\<rparr>, Some ErrClosed),
           case_if (timeq_ready fired tq)
             (if be then (Free (m_id m) s, m, None) else (s, m\<lparr>Header := hdr\<rparr>, Some ErrSendTimeout))])"

definition xrep_RecvMsg_begin :: "rawsock \<Rightarrow> recv_snap" where
  "xrep_RecvMsg_begin s = (expire_q (x_recvExpire s), x_recvQ s, x_sizeQ s)"

text \<open>One message of \<^verbatim>\<open>receiver\<close>, up to its \<^verbatim>\<open>select\<close>; the \<^verbatim>\<open>select\<close> is \<open>xrep_receiver_put\<close>.\<close>

definition xrep_receiver_msg :: "nat \<Rightarrow> message \<Rightarrow> rawsock \<Rightarrow> rawsock" where
  "xrep_receiver_msg p m s =
     (case xrep_loop (x_ttl s) 1 (PutUint32 (p_ID (x_pobj s p)) @ Header m) (Body m) of
        None \<Rightarrow> Free (m_id m) s
      | Some (h, b) \<Rightarrow> hold_msg p (m\<lparr>Header := h, Body := b\<rparr>) s)"

definition xrep_receiver_put :: "nat \<Rightarrow> rawsock \<Rightarrow> rawsock list" where
  "xrep_receiver_put p s = receiver_put False False p s"

definition xrep_sender_done :: "nat \<Rightarrow> status \<Rightarrow> rawsock \<Rightarrow> rawsock" where
  "xrep_sender_done p err s = sender_done False p err s"

definition xrep_SetOption :: "string \<Rightarrow> optval \<Rightarrow> rawsock \<Rightarrow> rawsock \<times> status" where
  "xrep_SetOption name v s =
     (if name = OptionTTL then set_field (asTTL v) (\<lambda>n s. s\<lparr>x_ttl := n\<rparr>) s
      else if name = OptionRecvDeadline then set_field (asDuration v) (\<lambda>d s. s\<lparr>x_recvExpire := d\<rparr>) s
      else if name = OptionSendDeadline then set_field (asDuration v) (\<lambda>d s. s\<lparr>x_sendExpire := d\<rparr>) s
      else if name = OptionBestEffort then set_field (asBool v) (\<lambda>b s. s\<lparr>x_bestEffort := b\<rparr>) s
      else if name = OptionWriteQLen then set_field (asQLen v) (\<lambda>n s. s\<lparr>x_sendQLen := n\<rparr>) s
      else if name = OptionReadQLen then set_field (asQLen v) resize_recvQ s
      else (s, Some ErrBadOption))"

definition xrep_GetOption :: "string \<Rightarrow> rawsock \<Rightarrow> err + optval" where
  "xrep_GetOption name s =
     (if name = OptionRaw then Inr (VBool True)
      else if name = OptionTTL then Inr (VInt (int (x_ttl s)))
      else if name = OptionRecvDeadline then Inr (VDuration (x_recvExpire s))
      else if name = OptionSendDeadline then Inr (VDuration (x_sendExpire s))
      else if name = OptionBestEffort then Inr (VBool (x_bestEffort s))
      else if name = OptionWriteQLen then Inr (VInt (int (x_sendQLen s)))
      else if name = OptionReadQLen then Inr (VInt (int (x_recvQLen s)))
      else Inl ErrBadOption)"

definition xrep_Close :: "rawsock \<Rightarrow> rawsock \<times> status" where
  "xrep_Close s =
     (if x_closed s then (s, Some ErrClosed) else (close_closeQ (s\<lparr>x_closed := True\<rparr>), None))"

definition xrep_AddPipe :: "u32 \<Rightarrow> rawsock \<Rightarrow> rawsock \<times> status" where
  "xrep_AddPipe i s = (if x_closed s then (s, Some ErrClosed) else (attach_pipe i s, None))"

definition xrep_RemovePipe :: "nat \<Rightarrow> rawsock \<Rightarrow> rawsock" where
  "xrep_RemovePipe p s =
     (let s1 = close_pipeQ p s in s1\<lparr>x_pipes := (x_pipes s1)(p_ID (x_pobj s1 p) := None)\<rparr>)"

definition xrep_OpenContext :: "rawsock \<Rightarrow> err + nat" where
  "xrep_OpenContext s = Inl ErrProtoOp"

definition xrep_NewProtocol :: rawsock where
  "xrep_NewProtocol = raw_new 128 128 8"

section \<open>Runs\<close>

text \<open>
  The core hands the protocol messages stamped with the pipe's ID (\<^verbatim>\<open>msg.Pipe = p\<close> in
  \<^verbatim>\<open>internal/core/pipe.go\<close>), never reuses the ID of an attached pipe, and removes a pipe once.
\<close>

inductive xrep_step :: "rawsock \<Rightarrow> rawsock \<Rightarrow> bool" where
  xr_raw: "raw_step False False False True s s' \<Longrightarrow> xrep_step s s'"
| xr_send: "xrep_SendMsg_begin m s = (s', r) \<Longrightarrow> xrep_step s s'"
| xr_send_try: "xrep_SendMsg_try b p m s = Some (s', r) \<Longrightarrow> xrep_step s s'"
| xr_send_wait: "(s', r) \<in> set (xrep_SendMsg_wait b f loc s) \<Longrightarrow> xrep_step s s'"
| xr_receive: "m_pipe m = Some (p_ID (x_pobj s p)) \<Longrightarrow> xrep_step s (xrep_receiver_msg p m s)"
| xr_set: "xrep_step s (fst (xrep_SetOption n v s))"
| xr_close: "xrep_step s (fst (xrep_Close s))"
| xr_add: "x_pipes s i = None \<Longrightarrow> xrep_step s (fst (xrep_AddPipe i s))"
| xr_remove: "p < x_npipe s \<Longrightarrow> \<not> p_closeQ (x_pobj s p) \<Longrightarrow> xrep_step s (xrep_RemovePipe p s)"

text \<open>What the header of a queued message looks like.\<close>

definition tagged :: "message \<Rightarrow> bool" where
  "tagged m \<longleftrightarrow> (\<exists>i. m_pipe m = Some i \<and> take 4 (Header m) = PutUint32 i \<and> 4 \<le> length (Header m))"

definition xrep_inv :: "rawsock \<Rightarrow> bool" where
  "xrep_inv s \<longleftrightarrow> raw_ok tagged s \<and> pipes_ok s"

lemma xrep_loop_header:
  assumes "xrep_loop ttl 1 h b = Some (h', b')"
  shows "\<exists>t. h' = h @ t \<and> t @ b' = b"
  using assms by (auto simp: xrep_loop_split split_bt_def split: option.splits if_splits)

lemma xrep_receiver_msg_ok:
  assumes ok: "raw_ok tagged s" and m: "m_pipe m = Some (p_ID (x_pobj s p))"
  shows "raw_ok tagged (xrep_receiver_msg p m s)"
proof (cases "xrep_loop (x_ttl s) 1 (PutUint32 (p_ID (x_pobj s p)) @ Header m) (Body m)")
  case None
  then show ?thesis using ok by (simp add: xrep_receiver_msg_def)
next
  case (Some r)
  obtain h b where r: "r = (h, b)" by fastforce
  obtain t where "h = (PutUint32 (p_ID (x_pobj s p)) @ Header m) @ t"
    using xrep_loop_header Some r by blast
  then have "tagged (m\<lparr>Header := h, Body := b\<rparr>)" using m by (simp add: tagged_def)
  then show ?thesis using Some r raw_ok_hold [OF ok] by (simp add: xrep_receiver_msg_def)
qed

lemma xrep_send_raw:
  "xrep_SendMsg_begin m s = (s', r) \<Longrightarrow> s' = s \<or> raw_step zf ze fr cl s s'"
  "xrep_SendMsg_try b p m s = Some (s', r2) \<Longrightarrow> raw_step zf ze fr cl s s'"
  "(s', r2) \<in> set (xrep_SendMsg_wait b f loc s) \<Longrightarrow> s' = s \<or> raw_step zf ze fr cl s s'"
  by (auto simp: xrep_SendMsg_begin_def xrep_SendMsg_try_def xrep_SendMsg_wait_def set_ready_cases Let_def
      split: prod.splits if_splits option.splits intro: rs_free rs_pipe_send rs_recv)

lemma xrep_SetOption_table: "same_table s (fst (xrep_SetOption n v s))"
  by (rule afterD) (simp add: xrep_SetOption_def same_table_resize)

lemma xrep_step_raw: "xrep_step s t \<Longrightarrow> raw_ok tagged s \<Longrightarrow> raw_ok tagged t"
proof (induction rule: xrep_step.induct)
  case (xr_set s n v)
  show ?case by (rule afterD) (use xr_set in \<open>simp add: xrep_SetOption_def raw_ok_make_recv\<close>)
next
  case (xr_remove p s)
  then show ?case by (simp add: xrep_RemovePipe_def Let_def raw_ok_close_pipe)
qed (auto simp: xrep_Close_def xrep_AddPipe_def intro: raw_ok_close raw_ok_attach xrep_receiver_msg_ok
    dest!: xrep_send_raw dest: raw_step_ok)

lemma xrep_step_pipes: "xrep_step s t \<Longrightarrow> pipes_ok s \<Longrightarrow> pipes_ok t"
proof (induction rule: xrep_step.induct)
  case (xr_add s i)
  then show ?case by (simp add: xrep_AddPipe_def pipes_ok_attach)
next
  case (xr_remove p s)
  then show ?case
    using pipes_ok_detach [of s p] by (simp add: xrep_RemovePipe_def Let_def close_pipeQ_def)
next
  case (xr_receive m s p)
  have "same_table s (xrep_receiver_msg p m s)"
    by (auto simp: xrep_receiver_msg_def same_table_hold split: option.split)
  with xr_receive show ?case by (blast intro: same_table_ok)
next
  case (xr_close s)
  have "same_table s (fst (xrep_Close s))" by (simp add: xrep_Close_def same_table_close)
  with xr_close show ?case by (blast intro: same_table_ok)
qed (auto intro: same_table_ok raw_step_table xrep_SetOption_table dest!: xrep_send_raw)

interpretation xrep: machine "\<lambda>s. s = xrep_NewProtocol" xrep_step xrep_inv
proof unfold_locales
  show "xrep_inv s" if "s = xrep_NewProtocol" for s
    using that by (simp add: xrep_inv_def xrep_NewProtocol_def raw_ok_new) (simp add: pipes_ok_def raw_new_def)
  show "xrep_inv t" if "xrep_inv s" "xrep_step s t" for s t
    using that xrep_step_raw xrep_step_pipes by (simp add: xrep_inv_def)
qed

section \<open>The protocol contract\<close>

interpretation xrep_proto: protocol_base x_closed "\<lambda>s. dom (x_pipes s)" xrep_Close xrep_AddPipe xrep_SetOption xrep_GetOption
proof unfold_locales
  show "xrep_GetOption n (fst (xrep_SetOption n v s)) = Inr v"
    if "snd (xrep_SetOption n v s) = None" "xrep_GetOption n s \<noteq> Inl ErrBadOption" for n v s
  proof (cases "n = OptionRaw")
    case True
    then show ?thesis using that by (simp add: xrep_SetOption_def option_names)
  next
    case False
    then show ?thesis using that(1)
      by (auto simp: xrep_SetOption_def xrep_GetOption_def fst_set_field asQLen_eq_Some asTTL_eq_Some split: if_splits)
  qed
  show "fst (xrep_SetOption n v s) = s" if "snd (xrep_SetOption n v s) \<noteq> None" for n v s
    by (rule cleanD [OF _ that]) (simp add: xrep_SetOption_def)
  show "x_closed (fst (xrep_SetOption n v s)) = x_closed s \<and>
      dom (x_pipes (fst (xrep_SetOption n v s))) = dom (x_pipes s)" for n v s
    by (rule afterD) (simp add: xrep_SetOption_def)
qed (auto simp: xrep_Close_def xrep_AddPipe_def attach_pipe_def)

section \<open>Properties\<close>

text \<open>
  In every reachable state of a raw REP socket nothing has panicked (no channel is closed
  twice, no closed channel is sent to, across any number of queue replacements), the receive
  queue holds at most \<^verbatim>\<open>OptionReadQLen\<close> messages, and the pipe table maps exactly the attached
  pipes by their IDs.
\<close>

theorem xrep_state_sound:
  assumes "xrep_step\<^sup>*\<^sup>* xrep_NewProtocol s"
  shows "\<not> panicked s \<and> length (ch_buf (chans s (x_recvQ s))) \<le> x_recvQLen s \<and>
    (\<forall>i p. x_pipes s i = Some p \<longleftrightarrow> p < x_npipe s \<and> p_ID (x_pobj s p) = i \<and> \<not> p_closeQ (x_pobj s p))"
proof -
  have inv: "raw_ok tagged s" "pipes_ok s"
    using xrep.reachable_inv [OF refl assms] by (simp_all add: xrep_inv_def)
  show ?thesis
    using raw_okD(1,7) [OF inv(1)] raw_okD(2) [OF inv(1), of "x_recvQ s"] inv(2)
    by (auto simp: plain_chan_def pipes_ok_def)
qed

text \<open>
  A reply finds its way back. Whatever \<^verbatim>\<open>RecvMsg\<close> returned carries the ID of the pipe it came
  from; a message sent later with that header, in any later state, goes to the pipe attached
  under that ID, with exactly the remaining backtrace as its header, or is dropped when that
  pipe is gone.
\<close>

theorem xrep_reply_routed:
  assumes "xrep_step\<^sup>*\<^sup>* xrep_NewProtocol s" and "(s', Got m) \<in> set (recv_wait fired snap s)"
    and "xrep_step\<^sup>*\<^sup>* s' t" and "\<not> x_closed t" and "Header r = Header m"
  shows "\<exists>i. m_pipe m = Some i \<and> Header m = PutUint32 i @ drop 4 (Header m) \<and>
    (case x_pipes t i of
       None \<Rightarrow> snd (xrep_SendMsg_begin r t) = Inl (r\<lparr>Header := drop 4 (Header m)\<rparr>, None)
     | Some p \<Rightarrow> p_ID (x_pobj t p) = i \<and> \<not> p_closeQ (x_pobj t p) \<and>
         (\<exists>be tq. snd (xrep_SendMsg_begin r t) = Inr (r\<lparr>Header := drop 4 (Header m)\<rparr>, Header m, p, be, tq)))"
proof -
  have inv: "xrep_inv s" by (rule xrep.reachable_inv [OF refl assms(1)])
  then have "xrep_inv s'"
    using raw_ok_recv_wait [OF _ assms(2), of tagged] same_table_ok [OF same_table_recv_wait [OF assms(2)]]
    by (simp add: xrep_inv_def)
  then have "xrep_inv t" by (rule xrep.steps_inv [OF assms(3)])
  then have table: "pipes_ok t" by (simp add: xrep_inv_def)
  have "tagged m"
    using raw_ok_recv_wait [OF _ assms(2), of tagged] inv by (simp add: xrep_inv_def)
  then obtain i where i: "m_pipe m = Some i" "take 4 (Header m) = PutUint32 i" "4 \<le> length (Header m)"
    by (auto simp: tagged_def)
  have h: "Header m = PutUint32 i @ drop 4 (Header m)" using i(2) by (metis append_take_drop_id)
  then have "Uint32 (Header m) = i" by (metis Uint32_PutUint32)
  then have snd: "snd (xrep_SendMsg_begin r t) =
      (case x_pipes t i of None \<Rightarrow> Inl (r\<lparr>Header := drop 4 (Header m)\<rparr>, None)
       | Some p \<Rightarrow> Inr (r\<lparr>Header := drop 4 (Header m)\<rparr>, Header m, p, x_bestEffort t,
           if x_bestEffort t then ClosedQ else expire_q (x_sendExpire t)))"
    using assms(4,5) i(3) by (simp add: xrep_SendMsg_begin_def Let_def split: option.split)
  have "p_ID (x_pobj t p) = i \<and> \<not> p_closeQ (x_pobj t p)" if "x_pipes t i = Some p" for p
    using table that by (simp add: pipes_ok_def)
  then show ?thesis
    using i(1) h snd by (cases "x_pipes t i") auto
qed

text \<open>
  Once raw REP has picked the pipe, \<^verbatim>\<open>SendMsg\<close> touches no other pipe, and when it reports an
  error the message has its full header back and nothing has changed, so the caller can send it
  again.
\<close>

theorem xrep_SendMsg_error_restores:
  assumes "(s', m', st) \<in> set (xrep_SendMsg_wait parked fired (m, hdr, p, be, tq) s)"
  shows "(\<forall>q. q \<noteq> p \<longrightarrow> x_pobj s' q = x_pobj s q) \<and> (st \<noteq> None \<longrightarrow> s' = s \<and> m' = m\<lparr>Header := hdr\<rparr>)"
  using assms
  by (auto simp: xrep_SendMsg_wait_def xrep_SendMsg_try_def set_ready_cases pipe_send_def split: if_splits)

text \<open>A run: one pipe is attached, a request arrives and is queued.\<close>

definition xr0 :: rawsock where "xr0 = fst (xrep_AddPipe 5 xrep_NewProtocol)"
definition xr_msg :: message where
  "xr_msg = \<lparr>m_id = 1, Header = [], Body = PutUint32 0x80000001 @ [7], m_pipe = Some 5, m_from = 0\<rparr>"
definition xr1 :: rawsock where "xr1 = xrep_receiver_msg 0 xr_msg xr0"
definition xr2 :: rawsock where "xr2 = hd (xrep_receiver_put 0 xr1)"
definition xr3 :: rawsock where "xr3 = fst (hd (recv_wait False (NilQ, 1, 0) xr2))"

lemma xr_loop: "xrep_loop 8 (Suc 0) h (PutUint32 0x80000001 @ b) = Some (h @ PutUint32 0x80000001, b)"
proof -
  have "top_bit ((PutUint32 0x80000001 @ b) ! 0)" unfolding top_bit_PutUint32 by simp
  then show ?thesis by (subst xrep_loop.simps) simp
qed

definition xr_got :: message where
  "xr_got = xr_msg\<lparr>Header := PutUint32 5 @ PutUint32 0x80000001, Body := [7]\<rparr>"

lemma xr0_eval: "x_ttl xr0 = 8" "p_ID (x_pobj xr0 0) = 5" "x_recvQ xr0 = Suc 0" "x_sizeQ xr0 = 0"
  "chans xr0 (Suc 0) = make_gochan 128" "x_closeQ xr0 = False" "\<not> x_closed xr0"
  by (simp_all add: xr0_def xrep_AddPipe_def xrep_NewProtocol_def raw_new_def attach_pipe_def new_rpipe_def)

lemma xr1_eq: "xr1 = hold_msg 0 xr_got xr0"
  using xr_loop [of "PutUint32 5" "[7]"] by (simp add: xr1_def xrep_receiver_msg_def xr0_eval xr_msg_def xr_got_def)

lemma xr1_eval: "p_hold (x_pobj xr1 0) = Some (xr_got, Suc 0, 0)" "chans xr1 (Suc 0) = make_gochan 128"
  "\<not> x_closeQ xr1" "\<not> x_closed xr1"
  by (simp_all add: xr1_eq hold_msg_def xr0_eval)

lemma xr2_eval: "xrep_receiver_put 0 xr1 \<noteq> []" "chans xr2 (Suc 0) = chan_push xr_got (make_gochan 128)"
  "\<not> x_closeQ xr2" "\<not> x_closed xr2"
  by (simp_all add: xr2_def xrep_receiver_put_def receiver_put_def xr1_eval try_send_def chan_room_def)

lemma xr3_eval: "(xr3, Got xr_got) \<in> set (recv_wait False (NilQ, Suc 0, 0) xr2)" "\<not> x_closed xr3"
  by (simp_all add: xr3_def recv_wait_def recv_try_def try_recv_def chan_pop_def chan_push_def case_if_def xr2_eval)

lemma xr_run: "xrep_step\<^sup>*\<^sup>* xrep_NewProtocol xr2"
proof -
  have "x_pipes xrep_NewProtocol 5 = None" by (simp add: xrep_NewProtocol_def raw_new_def)
  then have "xrep_step xrep_NewProtocol xr0" unfolding xr0_def by (rule xr_add)
  moreover have "m_pipe xr_msg = Some (p_ID (x_pobj xr0 0))" by (simp add: xr_msg_def xr0_eval)
  then have "xrep_step xr0 xr1" unfolding xr1_def by (rule xr_receive)
  moreover have "xrep_step xr1 xr2" using hd_in_set [OF xr2_eval(1)]
    unfolding xr2_def xrep_receiver_put_def by (intro xr_raw rs_recv rs_put)
  ultimately show ?thesis by (meson rtranclp.rtrancl_into_rtrancl rtranclp.rtrancl_refl)
qed

theorem xrep_state_sound_witness:
  "\<not> panicked xr2 \<and> length (ch_buf (chans xr2 (x_recvQ xr2))) \<le> x_recvQLen xr2 \<and>
    (\<forall>i p. x_pipes xr2 i = Some p \<longleftrightarrow> p < x_npipe xr2 \<and> p_ID (x_pobj xr2 p) = i \<and> \<not> p_closeQ (x_pobj xr2 p))"
  by (rule xrep_state_sound [OF xr_run])

theorem xrep_reply_routed_witness: "m_pipe xr_got = Some 5 \<and> Header xr_got = PutUint32 5 @ drop 4 (Header xr_got)"
  using xrep_reply_routed [OF xr_run xr3_eval(1) rtranclp.rtrancl_refl xr3_eval(2), of xr_got]
  by (auto simp: xr_got_def xr_msg_def)

theorem xrep_SendMsg_error_restores_witness:
  "\<exists>s' m'. (s', m', Some ErrSendTimeout) \<in> set (xrep_SendMsg_wait False True (xr_msg, [1], 1, False, TimerQ) xr0) \<and>
     s' = xr0 \<and> m' = xr_msg\<lparr>Header := [1]\<rparr>"
proof -
  have i: "(xr0, xr_msg\<lparr>Header := [1]\<rparr>, Some ErrSendTimeout)
      \<in> set (xrep_SendMsg_wait False True (xr_msg, [1], 1, False, TimerQ) xr0)"
    by (simp add: xrep_SendMsg_wait_def set_ready_cases)
  from xrep_SendMsg_error_restores [OF i] i show ?thesis by blast
qed

end
