(* ===== verification/TypedQueues.thy ===== *)
theory TypedQueues
  imports RawSock
begin

text \<open>
  The raw protocols whose pipes share one send queue keep send and receive queues in the same heap
  of channels. \<open>typed_ok Q\<close> is the invariant they share: nothing panics, send queues and receive
  queues are never mixed up however often they are replaced, and everything on its way to
  \<^verbatim>\<open>RecvMsg\<close> satisfies \<open>Q\<close>.
\<close>

section \<open>Invariant\<close>

definition typed_ok :: "(message \<Rightarrow> bool) \<Rightarrow> 'z rawsock_scheme \<Rightarrow> bool" where
  "typed_ok Q s \<longleftrightarrow> raw_ok any s \<and> rqs_ok s \<and> 0 \<notin> x_rqs s \<and>
     (\<forall>q\<in>x_rqs s. \<forall>m\<in>set (ch_buf (chans s q)). Q m) \<and>
     (\<forall>p m rq zq. p_hold (x_pobj s p) = Some (m, rq, zq) \<longrightarrow> Q m) \<and>
     x_sendQ s \<notin> x_rqs s \<and>
     (\<forall>p. fst (p_snap (x_pobj s p)) \<notin> x_rqs s \<and> fst (p_snap (x_pobj s p)) < nchan s)"

lemma typed_okD:
  assumes "typed_ok Q s"
  shows "raw_ok any s" "rqs_ok s" "0 \<notin> x_rqs s" "q \<in> x_rqs s \<Longrightarrow> m \<in> set (ch_buf (chans s q)) \<Longrightarrow> Q m"
    "p_hold (x_pobj s p) = Some (m, rq, zq) \<Longrightarrow> Q m" "x_sendQ s \<notin> x_rqs s" "fst (p_snap (x_pobj s p)) \<notin> x_rqs s"
    "fst (p_snap (x_pobj s p)) < nchan s" "q \<in> x_rqs s \<Longrightarrow> q < nchan s"
  using assms unfolding typed_ok_def rqs_ok_def by blast+

lemma typed_frame:
  assumes ok: "typed_ok Q s" and r: "raw_ok any t" and q: "same_queues s t"
    and c: "\<And>q m. q \<in> x_rqs s \<Longrightarrow> m \<in> set (ch_buf (chans t q)) \<Longrightarrow> Q m"
  shows "typed_ok Q t"
proof -
  have "Q m" if "p_hold (x_pobj t p) = Some (m, rq, zq)" for p m rq zq
    using q that typed_okD(5) [OF ok] unfolding same_queues_def by (metis option.distinct(1))
  then show ?thesis
    using r same_queues_rqs [OF q typed_okD(2) [OF ok]] c typed_okD(3,6,7,8) [OF ok] q
    by (simp add: typed_ok_def same_queues_def)
qed

lemma typed_new: "typed_ok Q (raw_new r w ttl)"
  using raw_ok_new [of any r w ttl] by (simp add: typed_ok_def) (simp add: raw_new_def rqs_ok_def)

lemma raw_ok_refs_upd [simp]: "raw_ok Q (s\<lparr>refs := f\<rparr>) = raw_ok Q s"
  by (simp add: raw_ok_def)

lemma typed_fields [simp]:
  "typed_ok Q (s\<lparr>refs := g\<rparr>) = typed_ok Q s"
  "typed_ok Q (s\<lparr>x_recvExpire := d\<rparr>) = typed_ok Q s" "typed_ok Q (s\<lparr>x_sendExpire := d\<rparr>) = typed_ok Q s"
  "typed_ok Q (s\<lparr>x_bestEffort := b\<rparr>) = typed_ok Q s" "typed_ok Q (s\<lparr>x_ttl := n\<rparr>) = typed_ok Q s"
  "typed_ok Q (s\<lparr>x_peer := w\<rparr>) = typed_ok Q s" "typed_ok Q (s\<lparr>x_pipes := f\<rparr>) = typed_ok Q s"
  "typed_ok Q (s\<lparr>x_npipe := n\<rparr>) = typed_ok Q s"
  "typed_ok Q (Free i s) = typed_ok Q s" "typed_ok Q (Clone i s) = typed_ok Q s" "typed_ok Q (free_if b m s) = typed_ok Q s"
  by (simp_all add: typed_ok_def rqs_ok_def free_if_def)

section \<open>Receiving\<close>

text \<open>A message enters a receive queue only from the hands of a receiver goroutine.\<close>

lemma recv_step_contents:
  assumes "recv_step zf ze s t" "raw_ok any s" "m \<in> set (ch_buf (chans t q))"
  shows "m \<in> set (ch_buf (chans s q)) \<or> (\<exists>p rq zq. p_hold (x_pobj s p) = Some (m, rq, zq))"
  using assms
proof (induction rule: recv_step.induct)
  case (rs_recv_try snap s s' x)
  then show ?case
    using plain_pop(2) [OF raw_okD(2) [OF rs_recv_try(3)]]
    by (auto simp: recv_try_def try_recv_def split: prod.splits option.splits if_splits)
next
  case (rs_recv_wait snap s s' x f)
  then show ?case
    using plain_pop(2) [OF raw_okD(2) [OF rs_recv_wait(3)]]
    by (auto simp: recv_wait_def set_ready_cases recv_try_def try_recv_def split: prod.splits option.splits if_splits)
next
  case (rs_rendezvous snap s p s' x)
  then show ?case by (auto simp: rendezvous_def split: prod.splits option.splits if_splits)
next
  case (rs_put s' p s)
  then obtain m' rq zq where h: "p_hold (x_pobj s p) = Some (m', rq, zq)"
    by (cases "p_hold (x_pobj s p)") (auto simp: receiver_put_def)
  then show ?case using rs_put raw_okD(2) [OF rs_put(2), of rq]
    by (auto simp: receiver_put_def set_ready_cases try_send_def receiver_exit_def free_if_def plain_chan_def
        split: if_splits)
qed (simp_all add: receiver_exit_def)

lemma typed_recv_step:
  assumes st: "recv_step zf ze s t" and ok: "typed_ok Q s"
  shows "typed_ok Q t"
proof (rule typed_frame [OF ok recv_step_ok [OF st typed_okD(1) [OF ok]] recv_step_queues [OF st]])
  show "Q m" if "q \<in> x_rqs s" "m \<in> set (ch_buf (chans t q))" for q m
    using recv_step_contents [OF st typed_okD(1) [OF ok] that(2)] typed_okD(4,5) [OF ok] that(1) by blast
qed

lemma typed_Got:
  assumes ok: "typed_ok Q s" and q: "fst (snd snap) \<in> x_rqs s"
  shows "recv_try snap s = Some (t, x) \<Longrightarrow> \<exists>m. x = Got m \<and> Q m"
    and "(t, Got m) \<in> set (recv_wait f snap s) \<Longrightarrow> Q m"
    and "rendezvous p snap s = Some (t, x) \<Longrightarrow> \<exists>m. x = Got m \<and> Q m"
proof -
  obtain tq rq zq where snap: "snap = (tq, rq, zq)" by (cases snap) auto
  have rq: "0 < rq" using q typed_okD(3) [OF ok] snap by (cases rq) auto
  note pl = try_recv_plain [OF raw_okD(2) [OF typed_okD(1) [OF ok], of rq] rq]
  have Q: "Q m" if "ch_buf (chans s rq) = m # ms" for m ms using typed_okD(4) [OF ok, of rq m] q snap that by simp
  show t: "\<exists>m. x = Got m \<and> Q m" if "recv_try snap s = Some (t, x)" for t x
    using that Q by (auto simp: recv_try_def snap pl split: list.splits)
  show "Q m" if "(t, Got m) \<in> set (recv_wait f snap s)"
    using that t by (auto simp: recv_wait_def snap set_ready_cases)
  show "\<exists>m. x = Got m \<and> Q m" if "rendezvous p snap s = Some (t, x)"
    using that typed_okD(5) [OF ok] by (auto simp: rendezvous_def snap split: option.splits prod.splits if_splits)
qed

lemma typed_hold:
  assumes ok: "typed_ok Q s" and m: "Q m"
  shows "typed_ok Q (hold_msg p m s)"
proof -
  have r: "raw_ok any (hold_msg p m s)" using raw_ok_hold [OF typed_okD(1) [OF ok]] by simp
  show ?thesis using ok m r by (auto simp: typed_ok_def hold_msg_def rqs_ok_def)
qed

section \<open>Sending\<close>

lemma typed_sq_send:
  assumes ok: "typed_ok Q s" and q: "q \<notin> x_rqs s" and r: "sq_send pk q m s = Some t"
  shows "typed_ok Q t"
proof (rule typed_frame [OF ok raw_ok_sq_send [OF typed_okD(1) [OF ok] r]])
  show "same_queues s t" using r by (auto simp: sq_send_def try_send_def same_queues_def split: option.splits if_splits)
  show "Q m'" if "q' \<in> x_rqs s" "m' \<in> set (ch_buf (chans t q'))" for q' m'
  proof -
    have "chans t q' = chans s q'" using r q that(1) by (auto simp: sq_send_def try_send_def split: option.splits if_splits)
    then show ?thesis using typed_okD(4) [OF ok that(1)] that(2) by simp
  qed
qed

lemma typed_sq_begin:
  assumes ok: "typed_ok Q s"
  shows "typed_ok Q (sq_begin p s)"
proof -
  have r: "raw_ok any (sq_begin p s)" "x_sendQ s < nchan s"
    using raw_ok_sq_begin [OF typed_okD(1) [OF ok]] raw_okD(6) [OF typed_okD(1) [OF ok]] by simp_all
  show ?thesis using ok r by (auto simp: typed_ok_def sq_begin_def rqs_ok_def)
qed

lemma typed_sq_take:
  assumes ok: "typed_ok Q s" and r: "(t, x) \<in> set (sq_take p s)"
  shows "typed_ok Q t"
  using r
proof (cases rule: sq_take_cases)
  case (1 m c)
  have q: "fst (p_snap (x_pobj s p)) \<notin> x_rqs s" by (rule typed_okD(7) [OF ok])
  show ?thesis
  proof (rule typed_frame [OF ok raw_ok_sq_take [OF typed_okD(1) [OF ok] r]])
    show "same_queues s t" unfolding 1(3) by (simp add: same_queues_def)
    show "Q m'" if "q' \<in> x_rqs s" "m' \<in> set (ch_buf (chans t q'))" for q' m'
      using that q typed_okD(4) [OF ok that(1)] unfolding 1(3) by (auto split: if_splits)
  qed
next
  case 2
  then show ?thesis using typed_sq_begin [OF ok] by simp
next
  case 3
  show ?thesis
    by (rule typed_frame [OF ok raw_ok_sq_take [OF typed_okD(1) [OF ok] r]])
      (use typed_okD(4) [OF ok] in \<open>auto simp: 3 same_queues_def\<close>)
qed

lemma typed_sender_done:
  assumes ok: "typed_ok Q s"
  shows "typed_ok Q (sender_done b p e s)"
proof (rule typed_frame [OF ok raw_ok_sender_done [OF typed_okD(1) [OF ok]]])
  have c: "chans (sender_done b p e s) = chans s" by (simp add: sender_done_def Let_def split: option.split)
  show "same_queues s (sender_done b p e s)" by (auto simp: sender_done_def Let_def same_queues_def split: option.split)
  show "Q m" if "q \<in> x_rqs s" "m \<in> set (ch_buf (chans (sender_done b p e s) q))" for q m
    using typed_okD(4) [OF ok] that unfolding c .
qed

section \<open>Replacing queues, pipes, closing\<close>

lemma typed_resize_recv:
  assumes ok: "typed_ok Q s"
  shows "typed_ok Q (resize_recvQ n s)"
proof -
  note r = typed_okD(1) [OF ok]
  have z: "\<not> x_zclosed s (x_sizeQ s)" using raw_okD(8) [OF r] by blast
  let ?t = "resize_recvQ n s"
  have t: "x_rqs ?t = insert (nchan s) (x_rqs s)" "chans ?t = (chans s)(nchan s := make_gochan n)" "x_pobj ?t = x_pobj s"
    "x_sendQ ?t = x_sendQ s" "nchan ?t = Suc (nchan s)" "x_recvQ ?t = nchan s"
    using z by (simp_all add: resize_recvQ_def make_chan_def close_sizeQ_def)
  have "0 < nchan s" "x_sendQ s < nchan s" using raw_okD(4-6) [OF r] by simp_all
  moreover have "fst (p_snap (x_pobj s p)) < nchan s" for p by (rule typed_okD(8) [OF ok])
  then have "fst (p_snap (x_pobj s p)) \<noteq> nchan s" "fst (p_snap (x_pobj s p)) < Suc (nchan s)" for p
    by (metis less_irrefl, metis less_SucI)
  moreover have "rqs_ok ?t" using typed_okD(2) [OF ok] by (auto simp: rqs_ok_def t less_SucI)
  moreover have "x_sendQ s \<noteq> nchan s" using raw_okD(6) [OF r] by simp
  ultimately show ?thesis
    using raw_ok_make_recv [OF r, of n] ok unfolding typed_ok_def t by auto
qed

lemma typed_resize_send:
  assumes ok: "typed_ok Q s"
  shows "typed_ok Q (resize_sendQ n s)"
proof -
  note r = typed_okD(1) [OF ok]
  have z: "\<not> x_zclosed s (x_sizeQ s)" using raw_okD(8) [OF r] by blast
  let ?t = "resize_sendQ n s"
  have t: "x_rqs ?t = x_rqs s" "chans ?t = (chans s)(nchan s := make_gochan n)" "x_pobj ?t = x_pobj s"
    "x_sendQ ?t = nchan s" "nchan ?t = Suc (nchan s)" "x_recvQ ?t = x_recvQ s"
    using z by (simp_all add: resize_sendQ_def make_chan_def close_sizeQ_def)
  have n: "nchan s \<notin> x_rqs s" using typed_okD(9) [OF ok] by blast
  have "rqs_ok ?t" using typed_okD(2) [OF ok] by (auto simp: rqs_ok_def t less_SucI)
  then show ?thesis
    using raw_ok_make_send [OF r, of n] ok n unfolding typed_ok_def t by (auto simp: less_SucI)
qed

lemma typed_no_sendQ:
  assumes ok: "typed_ok Q s"
  shows "typed_ok Q (s\<lparr>x_sendQ := 0\<rparr>)"
proof -
  have "0 < nchan s" using raw_okD(4,5) [OF typed_okD(1) [OF ok]] by simp
  then have "raw_ok any (s\<lparr>x_sendQ := 0\<rparr>)" using typed_okD(1) [OF ok] by (simp add: raw_ok_def)
  then show ?thesis using ok by (simp add: typed_ok_def rqs_ok_def)
qed

lemma typed_close:
  assumes ok: "typed_ok Q s" and c: "\<not> x_closed s"
  shows "typed_ok Q (close_closeQ (s\<lparr>x_closed := True\<rparr>))"
proof -
  let ?t = "close_closeQ (s\<lparr>x_closed := True\<rparr>)"
  have t: "x_rqs ?t = x_rqs s" "chans ?t = chans s" "x_pobj ?t = x_pobj s" "x_sendQ ?t = x_sendQ s" "nchan ?t = nchan s" "x_recvQ ?t = x_recvQ s"
    by (simp_all add: close_closeQ_def)
  show ?thesis using ok raw_ok_close [OF typed_okD(1) [OF ok] c] unfolding typed_ok_def rqs_ok_def t by blast
qed

lemma typed_close_pipe:
  assumes ok: "typed_ok Q s" and c: "\<not> p_closeQ (x_pobj s p)"
  shows "typed_ok Q (close_pipeQ p s)"
proof -
  have r: "raw_ok any (close_pipeQ p s)" using raw_ok_close_pipe [OF typed_okD(1) [OF ok] c] .
  show ?thesis
    by (rule typed_frame [OF ok r]) (use typed_okD(4) [OF ok] c in \<open>auto simp: close_pipeQ_def same_queues_def\<close>)
qed

lemma typed_new_pipe:
  assumes ok: "typed_ok Q s"
  shows "typed_ok Q (upd_pipe p (\<lambda>_. new_rpipe i n) s)"
proof -
  have "raw_ok any (upd_pipe p (\<lambda>_. new_rpipe i n) s)"
    by (rule raw_ok_upd_pipe [OF typed_okD(1) [OF ok]]) (simp add: rpipe_ok_def new_rpipe_def)
  moreover have "0 < nchan s" using raw_okD(4,5) [OF typed_okD(1) [OF ok]] by simp
  ultimately show ?thesis using ok by (auto simp: typed_ok_def rqs_ok_def new_rpipe_def)
qed

lemmas typed_ops = typed_recv_step typed_hold typed_sq_send typed_sq_begin typed_sq_take typed_sender_done
  typed_resize_recv typed_resize_send typed_no_sendQ typed_close typed_close_pipe typed_new_pipe


lemma resize_sendQ_fields [simp]:
  "x_closed (resize_sendQ n s) = x_closed s" "x_sendQLen (resize_sendQ n s) = n" "x_npipe (resize_sendQ n s) = x_npipe s"
  "x_npipe (resize_recvQ n s) = x_npipe s"
  by (simp_all add: resize_sendQ_def resize_recvQ_def make_chan_def close_sizeQ_def)

end
