(* ===== verification/Xreq.thy ===== *)
theory Xreq
  imports TypedQueues
begin

text \<open>
  Raw REQ, \<^verbatim>\<open>protocol/xreq/xreq.go\<close>: requests go into one queue that the sender goroutines of all
  pipes pull from; the receiver goroutines move the request ID of a reply into its header.
\<close>

section \<open>Operations\<close>

type_synonym send_snap = "timeq \<times> nat \<times> nat \<times> bool"

definition xreq_SendMsg_begin :: "rawsock \<Rightarrow> send_snap" where
  "xreq_SendMsg_begin s =
     (if x_bestEffort s then ClosedQ else expire_q (x_sendExpire s), x_sendQ s, x_sizeQ s, x_bestEffort s)"

definition xreq_SendMsg_try :: "nat option \<Rightarrow> message \<Rightarrow> send_snap \<Rightarrow> rawsock \<Rightarrow> (rawsock \<times> status) option" where
  "xreq_SendMsg_try parked m snap s =
     (case snap of (tq, sq, zq, be) \<Rightarrow> map_option (\<lambda>t. (t, None)) (sq_send parked sq m s))"

definition xreq_SendMsg_wait :: "nat option \<Rightarrow> bool \<Rightarrow> message \<Rightarrow> send_snap \<Rightarrow> rawsock \<Rightarrow> (rawsock \<times> status) list" where
  "xreq_SendMsg_wait parked fired m snap s =
     (case snap of (tq, sq, zq, be) \<Rightarrow>
        ready_cases
          [xreq_SendMsg_try parked m snap s,
           case_if (x_zclosed s zq) (Free (m_id m) s, None),
           case_if (x_closeQ s) (s, Some ErrClosed),
           case_if (timeq_ready fired tq) (if be then (Free (m_id m) s, None) else (s, Some ErrSendTimeout))])"

definition xreq_RecvMsg_begin :: "rawsock \<Rightarrow> recv_snap" where
  "xreq_RecvMsg_begin s = (expire_q (x_recvExpire s), x_recvQ s, x_sizeQ s)"

definition xreq_receiver_msg :: "nat \<Rightarrow> message \<Rightarrow> rawsock \<Rightarrow> rawsock" where
  "xreq_receiver_msg p m s =
     (if length (Body m) < 4 then Free (m_id m) s
      else hold_msg p (m\<lparr>Header := take 4 (Body m), Body := drop 4 (Body m)\<rparr>) s)"

definition xreq_receiver_put :: "nat \<Rightarrow> rawsock \<Rightarrow> rawsock list" where
  "xreq_receiver_put p s = receiver_put True False p s"

definition xreq_sender_take :: "nat \<Rightarrow> rawsock \<Rightarrow> (rawsock \<times> message option) list" where
  "xreq_sender_take p s = sq_take p s"

text \<open>A message that could not be sent is not freed.\<close>

definition xreq_sender_done :: "nat \<Rightarrow> status \<Rightarrow> rawsock \<Rightarrow> rawsock" where
  "xreq_sender_done p err s =
     (if p_out (x_pobj s p) = None then s
      else if err = None then sq_begin p (sender_done False p None s) else sender_done False p err s)"

definition xreq_SetOption :: "string \<Rightarrow> optval \<Rightarrow> rawsock \<Rightarrow> rawsock \<times> status" where
  "xreq_SetOption name v s =
     (if name = OptionRecvDeadline then set_field (asDuration v) (\<lambda>d s. s\<lparr>x_recvExpire := d\<rparr>) s
      else if name = OptionSendDeadline then set_field (asDuration v) (\<lambda>d s. s\<lparr>x_sendExpire := d\<rparr>) s
      else if name = OptionBestEffort then set_field (asBool v) (\<lambda>b s. s\<lparr>x_bestEffort := b\<rparr>) s
      else if name = OptionWriteQLen then set_field (asQLen v) resize_sendQ s
      else if name = OptionReadQLen then set_field (asQLen v) resize_recvQ s
      else (s, Some ErrBadOption))"

definition xreq_GetOption :: "string \<Rightarrow> rawsock \<Rightarrow> err + optval" where
  "xreq_GetOption name s =
     (if name = OptionRaw then Inr (VBool True)
      else if name = OptionRecvDeadline then Inr (VDuration (x_recvExpire s))
      else if name = OptionSendDeadline then Inr (VDuration (x_sendExpire s))
      else if name = OptionBestEffort then Inr (VBool (x_bestEffort s))
      else if name = OptionWriteQLen then Inr (VInt (int (x_sendQLen s)))
      else if name = OptionReadQLen then Inr (VInt (int (x_recvQLen s)))
      else Inl ErrBadOption)"

definition xreq_Close :: "rawsock \<Rightarrow> rawsock \<times> status" where
  "xreq_Close s =
     (if x_closed s then (s, Some ErrClosed)
      else (close_closeQ (s\<lparr>x_sendQ := 0, x_closed := True\<rparr>), None))"

definition xreq_AddPipe :: "u32 \<Rightarrow> rawsock \<Rightarrow> rawsock \<times> status" where
  "xreq_AddPipe i s =
     (if x_closed s then (s, Some ErrClosed)
      else ((upd_pipe (x_npipe s) (\<lambda>_. new_rpipe i 0) s)\<lparr>x_npipe := Suc (x_npipe s)\<rparr>, None))"

definition xreq_RemovePipe :: "nat \<Rightarrow> rawsock \<Rightarrow> rawsock" where
  "xreq_RemovePipe p s = close_pipeQ p s"

definition xreq_NewProtocol :: rawsock where
  "xreq_NewProtocol = raw_new 128 128 0"

section \<open>Runs\<close>

inductive xreq_step :: "rawsock \<Rightarrow> rawsock \<Rightarrow> bool" where
  xq_recv: "recv_step True False s s' \<Longrightarrow> xreq_step s s'"
| xq_send: "fst (snd snap) \<notin> x_rqs s \<Longrightarrow> (s', st) \<in> set (xreq_SendMsg_wait pk f m snap s) \<Longrightarrow> xreq_step s s'"
| xq_receive: "xreq_step s (xreq_receiver_msg p m s)"
| xq_begin: "xreq_step s (sq_begin p s)"
| xq_take: "(s', x) \<in> set (xreq_sender_take p s) \<Longrightarrow> xreq_step s s'"
| xq_sent: "xreq_step s (xreq_sender_done p err s)"
| xq_set: "xreq_step s (fst (xreq_SetOption n v s))"
| xq_close: "xreq_step s (fst (xreq_Close s))"
| xq_add: "xreq_step s (fst (xreq_AddPipe i s))"
| xq_remove: "p < x_npipe s \<Longrightarrow> \<not> p_closeQ (x_pobj s p) \<Longrightarrow> xreq_step s (xreq_RemovePipe p s)"

definition is_reply :: "message \<Rightarrow> bool" where
  "is_reply m \<longleftrightarrow> length (Header m) = 4"

lemma xreq_set_typed: "typed_ok Q s \<Longrightarrow> typed_ok Q (fst (xreq_SetOption n v s))"
  by (rule afterD) (simp add: xreq_SetOption_def typed_resize_recv typed_resize_send)

lemma xreq_close_typed: "typed_ok Q s \<Longrightarrow> typed_ok Q (fst (xreq_Close s))"
  using typed_close [of Q "s\<lparr>x_sendQ := 0\<rparr>"] typed_no_sendQ [of Q s] by (simp add: xreq_Close_def)

lemma xreq_send_typed:
  assumes ok: "typed_ok Q s" and q: "fst (snd snap) \<notin> x_rqs s" and r: "(t, st) \<in> set (xreq_SendMsg_wait pk f m snap s)"
  shows "typed_ok Q t"
proof -
  obtain tq sq zq be where s: "snap = (tq, sq, zq, be)" by (cases snap) auto
  then consider "t = s" | "t = Free (m_id m) s" | "sq_send pk sq m s = Some t"
    using r by (auto simp: xreq_SendMsg_wait_def xreq_SendMsg_try_def set_ready_cases split: if_splits)
  then show ?thesis using ok q s typed_sq_send by cases auto
qed

lemma xreq_step_typed: "xreq_step s t \<Longrightarrow> typed_ok is_reply s \<Longrightarrow> typed_ok is_reply t"
proof (induction rule: xreq_step.induct)
  case (xq_receive s p m)
  then show ?case by (auto simp: xreq_receiver_msg_def is_reply_def intro: typed_hold)
next
  case (xq_take s' x p s)
  then show ?case unfolding xreq_sender_take_def by (blast intro: typed_sq_take)
next
  case (xq_sent s p err)
  then show ?case by (simp add: xreq_sender_done_def typed_sq_begin typed_sender_done)
next
  case (xq_add s i)
  then show ?case by (simp add: xreq_AddPipe_def typed_new_pipe)
next
  case (xq_remove p s)
  then show ?case by (simp add: xreq_RemovePipe_def typed_close_pipe)
qed (blast intro: typed_ops xreq_set_typed xreq_close_typed xreq_send_typed)+

interpretation xreq: machine "\<lambda>s. s = xreq_NewProtocol" xreq_step "typed_ok is_reply"
  by unfold_locales (auto simp: xreq_NewProtocol_def typed_new intro: xreq_step_typed)

section \<open>Properties\<close>

text \<open>
  Whatever the peers send, raw REQ never panics, and what \<^verbatim>\<open>RecvMsg\<close> returns has the four bytes of a
  request ID as its header.
\<close>

lemma xreq_returns_replies:
  assumes run: "xreq_step\<^sup>*\<^sup>* xreq_NewProtocol s"
  shows "\<not> panicked s" and "recv_try (xreq_RecvMsg_begin s) s = Some (t, x) \<Longrightarrow> \<exists>m. x = Got m \<and> length (Header m) = 4"
    and "(t, Got m) \<in> set (recv_wait f (xreq_RecvMsg_begin s) s) \<Longrightarrow> length (Header m) = 4"
proof -
  have ok: "typed_ok is_reply s" by (rule xreq.reachable_inv [OF refl run])
  have q: "fst (snd (xreq_RecvMsg_begin s)) \<in> x_rqs s"
    using typed_okD(2) [OF ok] by (simp add: xreq_RecvMsg_begin_def rqs_ok_def)
  show "\<not> panicked s" by (rule raw_okD(1) [OF typed_okD(1) [OF ok]])
  show "\<exists>m. x = Got m \<and> length (Header m) = 4" if "recv_try (xreq_RecvMsg_begin s) s = Some (t, x)"
    using typed_Got(1) [OF ok q that] by (simp add: is_reply_def)
  show "length (Header m) = 4" if "(t, Got m) \<in> set (recv_wait f (xreq_RecvMsg_begin s) s)"
    using typed_Got(2) [OF ok q that] by (simp add: is_reply_def)
qed

text \<open>The receiver loses no byte: header and body together are what arrived.\<close>

lemma xreq_receiver_keeps_bytes:
  assumes "4 \<le> length (Body m)"
  shows "\<exists>m'. p_hold (x_pobj (xreq_receiver_msg p m s) p) = Some (m', x_recvQ s, x_sizeQ s) \<and>
    Header m' @ Body m' = Body m \<and> m_id m' = m_id m"
  using assms by (simp add: xreq_receiver_msg_def hold_msg_def)

text \<open>
  \<^verbatim>\<open>SendMsg\<close> does not look at \<^verbatim>\<open>closed\<close>; it relies on \<^verbatim>\<open>Close\<close> having set the send queue to nil. Setting
  \<^verbatim>\<open>OptionWriteQLen\<close> on a closed socket brings a queue back, and \<^verbatim>\<open>SendMsg\<close> then accepts messages.
\<close>

lemma xreq_closed_socket_accepts:
  assumes ok: "typed_ok is_reply s" and c: "x_closed s" and n: "0 < n"
  defines "s1 \<equiv> fst (xreq_SetOption OptionWriteQLen (VInt (int n)) s)"
  shows "x_closed s1 \<and> (\<exists>t. xreq_SendMsg_try None m (xreq_SendMsg_begin s1) s1 = Some (t, None))"
proof -
  have z: "\<not> x_zclosed s (x_sizeQ s)" using raw_okD(8) [OF typed_okD(1) [OF ok]] by blast
  have "0 < nchan s" using raw_okD(4,5) [OF typed_okD(1) [OF ok]] by simp
  moreover have "s1 = resize_sendQ n s" by (simp add: s1_def xreq_SetOption_def option_names)
  ultimately show ?thesis using z c n
    by (simp add: xreq_SendMsg_try_def xreq_SendMsg_begin_def resize_sendQ_def make_chan_def close_sizeQ_def sq_send_def
        try_send_def chan_room_def)
qed

section \<open>The protocol contract\<close>

interpretation xreq_proto: protocol_base x_closed "\<lambda>s. of_nat ` {..<x_npipe s}" xreq_Close xreq_AddPipe xreq_SetOption xreq_GetOption
proof unfold_locales
  show "xreq_GetOption n (fst (xreq_SetOption n v s)) = Inr v"
    if "snd (xreq_SetOption n v s) = None" "xreq_GetOption n s \<noteq> Inl ErrBadOption" for n v s
    using that(1) by (auto simp: xreq_SetOption_def xreq_GetOption_def fst_set_field asQLen_eq_Some option_names split: if_splits)
  show "fst (xreq_SetOption n v s) = s" if "snd (xreq_SetOption n v s) \<noteq> None" for n v s
    by (rule cleanD [OF _ that]) (simp add: xreq_SetOption_def)
qed (simp_all add: xreq_Close_def xreq_AddPipe_def xreq_SetOption_def close_closeQ_def fst_set_field split: option.split)

end
