(* ===== verification/Device.thy ===== *)
theory Device
  imports Xrep Xreq
begin

text \<open>
  Devices, \<^verbatim>\<open>device.go\<close>: two goroutines that pass the messages of one raw socket to another. What a
  device sees of a socket is its identity, its protocol numbers and its answer to
  \<^verbatim>\<open>GetOption(OptionRaw)\<close>. The theory also composes raw REP and raw REQ into the request/reply device.
\<close>

section \<open>Operations\<close>

definition ProtoReq :: u16 where "ProtoReq = 0x30"

definition ProtoRep :: u16 where "ProtoRep = 0x31"

record dsock =
  ds_ptr :: nat
  ds_Self :: u16
  ds_Peer :: u16
  ds_raw :: "err + optval"

definition check_raw :: "dsock \<Rightarrow> status" where
  "check_raw s =
     (case ds_raw s of Inl e \<Rightarrow> Some e | Inr v \<Rightarrow> (case v of VBool True \<Rightarrow> None | _ \<Rightarrow> Some ErrNotRaw))"

text \<open>\<^verbatim>\<open>Device\<close>: the result and the forwarders that were started, as pairs of source and target.\<close>

definition Device :: "dsock option \<Rightarrow> dsock option \<Rightarrow> status \<times> (dsock \<times> dsock) list" where
  "Device s1 s2 =
     (let a = (if s1 = None then s2 else s1); b = (if s2 = None then a else s2)
      in case (a, b) of
           (Some x, Some y) \<Rightarrow>
             if ds_Self x \<noteq> ds_Peer y \<or> ds_Self y \<noteq> ds_Peer x then (Some ErrBadProto, [])
             else (case check_raw x of
                Some e \<Rightarrow> (Some e, [])
              | None \<Rightarrow> (case check_raw y of
                    Some e \<Rightarrow> (Some e, [])
                  | None \<Rightarrow> (None, (x, y) # (if ds_ptr y \<noteq> ds_ptr x then [(y, x)] else []))))
         | _ \<Rightarrow> (Some ErrClosed, []))"

text \<open>
  \<^verbatim>\<open>forwarder\<close> against the answers of the two sockets so far: the messages it has given to
  \<^verbatim>\<open>SendMsg\<close>, and whether it still runs.
\<close>

fun forwarder :: "(err + message) list \<Rightarrow> status list \<Rightarrow> message list \<times> bool" where
  "forwarder [] ss = ([], True)"
| "forwarder (Inl e # rs) ss = ([], False)"
| "forwarder (Inr m # rs) [] = ([m], True)"
| "forwarder (Inr m # rs) (Some e # ss) = ([m], False)"
| "forwarder (Inr m # rs) (None # ss) = (case forwarder rs ss of (ms, r) \<Rightarrow> (m # ms, r))"

section \<open>Lemmas\<close>

text \<open>A nil socket stands for the other one: the loopback device.\<close>

lemma Device_loopback: "Device None s = Device s s" "Device s None = Device s s"
  by (cases s; simp add: Device_def)+

lemma check_raw_None: "check_raw s = None \<longleftrightarrow> ds_raw s = Inr (VBool True)"
  by (auto simp: check_raw_def split: sum.split optval.split bool.split)

lemma Device_succeeds:
  "fst (Device (Some x) (Some y)) = None \<longleftrightarrow>
     ds_Self x = ds_Peer y \<and> ds_Self y = ds_Peer x \<and> ds_raw x = Inr (VBool True) \<and> ds_raw y = Inr (VBool True)"
  by (cases "check_raw x"; cases "check_raw y"; simp add: Device_def check_raw_None [symmetric])

lemma Device_error_starts_nothing: "fst (Device s1 s2) \<noteq> None \<Longrightarrow> snd (Device s1 s2) = []"
  by (auto simp: Device_def Let_def split: option.splits if_splits)

text \<open>What a forwarder sends is what it received, in order, up to the first failure.\<close>

lemma forwarder_take:
  "\<exists>k. map Inr (fst (forwarder rs ss)) = take k rs \<and> k \<le> Suc (length ss)"
proof (induction rs ss rule: forwarder.induct)
  case (5 m rs ss)
  then obtain k where "map Inr (fst (forwarder rs ss)) = take k rs" "k \<le> Suc (length ss)" by blast
  then show ?case by (intro exI [of _ "Suc k"]) (simp add: split_beta)
qed (auto intro: exI [of _ "1 :: nat"] exI [of _ "0 :: nat"])

lemma forwarder_all: "length ms \<le> length ss \<Longrightarrow> set ss \<subseteq> {None} \<Longrightarrow> forwarder (map Inr ms) ss = (ms, True)"
proof (induction ms arbitrary: ss)
  case (Cons m ms)
  then show ?case by (cases ss) auto
qed simp

section \<open>The request/reply device\<close>

lemma drop_PutUint32 [simp]: "drop 4 (PutUint32 i @ bs) = bs" "take 4 (PutUint32 i @ bs) = PutUint32 i"
  by simp_all

lemma xrep_receives_path:
  assumes ids: "\<forall>i\<in>set ids. valid_id i" and r: "bit r 31" and n: "length ids < x_ttl s"
    and m: "Header m = []" "Body m = words_of ids @ PutUint32 r @ body"
  shows "xrep_receiver_msg p m s =
     hold_msg p (m\<lparr>Header := words_of (p_ID (x_pobj s p) # ids) @ PutUint32 r, Body := body\<rparr>) s"
proof -
  have "bt_words (Body m) = Some (Suc (length ids))"
    unfolding m(2) using ids r valid_id_bit by (intro bt_words_path) auto
  moreover have "take (4 * Suc (length ids)) (Body m) = words_of ids @ PutUint32 r" "drop (4 * Suc (length ids)) (Body m) = body"
    by (simp_all add: m(2))
  ultimately show ?thesis
    using n by (simp add: xrep_receiver_msg_def xrep_loop_split split_bt_def m(1))
qed

definition held :: "nat \<Rightarrow> rawsock \<Rightarrow> message option" where
  "held p s = map_option fst (p_hold (x_pobj s p))"

lemma held_hold [simp]: "held p (hold_msg p m s) = Some m"
  by (simp add: held_def hold_msg_def upd_pipe_def)

text \<open>The two sides of the device, as \<^verbatim>\<open>Device\<close> sees them.\<close>

definition xrep_view :: "nat \<Rightarrow> rawsock \<Rightarrow> dsock" where
  "xrep_view k s = \<lparr>ds_ptr = k, ds_Self = ProtoRep, ds_Peer = ProtoReq, ds_raw = xrep_GetOption OptionRaw s\<rparr>"

definition xreq_view :: "nat \<Rightarrow> rawsock \<Rightarrow> dsock" where
  "xreq_view k s = \<lparr>ds_ptr = k, ds_Self = ProtoReq, ds_Peer = ProtoRep, ds_raw = xreq_GetOption OptionRaw s\<rparr>"

text \<open>
  C28: The request/reply device. Between a raw REP socket and a raw REQ socket \<^verbatim>\<open>Device\<close> starts a
  forwarder in each direction. A request that comes in on a pipe of the REP side within its hop limit leaves
  on the REQ side with that pipe's ID put before its path and nothing else changed; a reply that
  carries the path of that request leaves the REP side on the very pipe the request came from, with
  the path as the requester sent it: the device is transparent, also behind further devices.
\<close>

theorem device_round_trip:
  assumes "k \<noteq> l" and "\<forall>j\<in>set ids. valid_id j" and "bit r 31" and "length ids < x_ttl s"
    and "p_ID (x_pobj s p) = i" and "x_pipes s' i = Some p" and "\<not> x_closed s'"
    and "Header m = []" and "Body m = words_of ids @ PutUint32 r @ body"
    and "Header n = []" and "Body n = words_of (i # ids) @ PutUint32 r @ reply"
  shows "Device (Some (xrep_view k s)) (Some (xreq_view l t)) =
      (None, [(xrep_view k s, xreq_view l t), (xreq_view l t, xrep_view k s)]) \<and>
    (\<exists>m1 n1 n2 h be tq.
       held p (xrep_receiver_msg p m s) = Some m1 \<and> fst (forwarder [Inr m1] [None]) = [m1] \<and>
       wire m1 = words_of (i # ids) @ PutUint32 r @ body \<and> Body m1 = body \<and>
       held q (xreq_receiver_msg q n t) = Some n1 \<and> fst (forwarder [Inr n1] [None]) = [n1] \<and>
       xrep_SendMsg_begin n1 s' = (s', Inr (n2, h, p, be, tq)) \<and>
       wire n2 = words_of ids @ PutUint32 r @ reply)"
proof -
  let ?n1 = "n\<lparr>Header := PutUint32 i, Body := words_of ids @ PutUint32 r @ reply\<rparr>"
  have dev: "Device (Some (xrep_view k s)) (Some (xreq_view l t)) =
      (None, [(xrep_view k s, xreq_view l t), (xreq_view l t, xrep_view k s)])"
    using assms(1) by (simp add: Device_def xrep_view_def xreq_view_def check_raw_def xrep_GetOption_def xreq_GetOption_def)
  have req: "held p (xrep_receiver_msg p m s) = Some (m\<lparr>Header := words_of (i # ids) @ PutUint32 r, Body := body\<rparr>)"
    using xrep_receives_path [OF assms(2,3,4,8,9)] assms(5) by simp
  have rep: "held q (xreq_receiver_msg q n t) = Some ?n1"
    by (simp add: xreq_receiver_msg_def assms(10,11))
  have snd: "\<exists>h be tq. xrep_SendMsg_begin ?n1 s' = (s', Inr (?n1\<lparr>Header := []\<rparr>, h, p, be, tq))"
    using assms(6,7) by (simp add: xrep_SendMsg_begin_def Let_def)
  then obtain h be tq where "xrep_SendMsg_begin ?n1 s' = (s', Inr (?n1\<lparr>Header := []\<rparr>, h, p, be, tq))" by blast
  then show ?thesis
    using dev req rep by (intro conjI exI) (auto simp: wire_def)
qed

definition dev_sock :: rawsock where
  "dev_sock = fst (xrep_AddPipe 5 xrep_NewProtocol)"

definition dev_msg :: "bytes \<Rightarrow> message" where
  "dev_msg b = \<lparr>m_id = 0, Header = [], Body = b, m_pipe = Some 5, m_from = 0\<rparr>"

lemma dev_sock_eval:
  "p_ID (x_pobj dev_sock 0) = 5" "x_pipes dev_sock 5 = Some 0" "\<not> x_closed dev_sock" "x_ttl dev_sock = 8"
  by (simp_all add: dev_sock_def xrep_AddPipe_def xrep_NewProtocol_def raw_new_def attach_pipe_def new_rpipe_def upd_pipe_def Let_def)

theorem device_round_trip_witness:
  "\<exists>n1 n2 h be tq. held 0 (xreq_receiver_msg 0 (dev_msg (words_of [5, 7] @ PutUint32 0x80000001 @ [9])) xreq_NewProtocol) = Some n1 \<and>
     xrep_SendMsg_begin n1 dev_sock = (dev_sock, Inr (n2, h, 0, be, tq)) \<and> wire n2 = words_of [7] @ PutUint32 0x80000001 @ [9]"
proof -
  have v: "\<forall>j\<in>set [7 :: u32]. valid_id j" by (simp add: valid_id_def id_mask_def)
  have b: "bit (0x80000001 :: u32) 31" by simp
  have t: "length [7 :: u32] < x_ttl dev_sock" by (simp add: dev_sock_eval(4))
  have h: "Header (dev_msg b) = []" "Body (dev_msg b) = b" for b by (simp_all add: dev_msg_def)
  have n: "(0 :: nat) \<noteq> 1" by simp
  show ?thesis
    using device_round_trip [OF n v b t dev_sock_eval(1-3) h(1) h(2) h(1) h(2), where t = xreq_NewProtocol and q = 0] by blast
qed

end
