(* ===== verification/Rep.thy ===== *)
theory Rep
  imports RawSock Backtrace
begin

text \<open>
  REP, \<^verbatim>\<open>protocol/rep/rep.go\<close>, and the context state it shares with RESPONDENT. A context keeps
  the backtrace and the pipe of the request it received last; a reply uses them up. The receive
  queue of REP is unbuffered: a request passes from the receiver goroutine that holds it
  directly to a \<^verbatim>\<open>RecvMsg\<close> that waits.
\<close>

section \<open>State\<close>

record ectx =
  e_closed :: bool
  e_recvWait :: bool
  e_recvExpire :: int
  e_recvPipe :: "nat option"
  e_closeQ :: bool
  e_sendExpire :: int
  e_bestEffort :: bool
  e_backtrace :: "bytes option"

record repsock = rawsock +
  e_ctxs :: "nat \<Rightarrow> ectx"
  e_nctx :: nat
  e_contexts :: "nat list"

definition upd_ectx :: "nat \<Rightarrow> (ectx \<Rightarrow> ectx) \<Rightarrow> repsock \<Rightarrow> repsock" where
  "upd_ectx c f s = s\<lparr>e_ctxs := (e_ctxs s)(c := f (e_ctxs s c))\<rparr>"

definition ectx0 :: ectx where
  "ectx0 = \<lparr>e_closed = False, e_recvWait = False, e_recvExpire = 0, e_recvPipe = None, e_closeQ = False,
     e_sendExpire = 0, e_bestEffort = False, e_backtrace = None\<rparr>"

section \<open>Operations\<close>

text \<open>\<^verbatim>\<open>RecvMsg\<close> up to its \<^verbatim>\<open>select\<close>: the error, or the time channel.\<close>

definition rep_RecvMsg_begin :: "nat \<Rightarrow> repsock \<Rightarrow> repsock \<times> (err + timeq)" where
  "rep_RecvMsg_begin c s =
     (let x = e_ctxs s c in
      if e_closed x then (s, Inl ErrClosed)
      else if e_recvWait x then (s, Inl ErrProtoState)
      else (upd_ectx c (\<lambda>x. x\<lparr>e_recvWait := True\<rparr>) s, Inr (expire_q (e_recvExpire x))))"

text \<open>The case that receives the entry of pipe \<open>p\<close>, in either \<^verbatim>\<open>select\<close>, and what follows.\<close>

definition rep_RecvMsg_take :: "nat \<Rightarrow> nat \<Rightarrow> repsock \<Rightarrow> (repsock \<times> message) option" where
  "rep_RecvMsg_take c p s =
     (case p_hold (x_pobj s p) of
        Some (m, rq, zq) \<Rightarrow>
          Some (upd_ectx c (\<lambda>x. x\<lparr>e_backtrace := Some (Header m), e_recvPipe := Some p, e_recvWait := False\<rparr>)
                  (upd_pipe p (\<lambda>x. x\<lparr>p_hold := None\<rparr>) s),
                m\<lparr>Header := []\<rparr>)
      | None \<Rightarrow> None)"

text \<open>The other cases of the blocking \<^verbatim>\<open>select\<close>.\<close>

definition rep_RecvMsg_fail :: "bool \<Rightarrow> nat \<Rightarrow> timeq \<Rightarrow> repsock \<Rightarrow> (repsock \<times> err) list" where
  "rep_RecvMsg_fail fired c tq s =
     (let s1 = upd_ectx c (\<lambda>x. x\<lparr>e_recvWait := False\<rparr>) s
      in ready_cases
           [case_if (timeq_ready fired tq) (s1, ErrRecvTimeout),
            case_if (e_closeQ (e_ctxs s c)) (s1, ErrClosed)])"

text \<open>
  \<^verbatim>\<open>SendMsg\<close> up to its \<^verbatim>\<open>select\<close>: the error, or message, pipe, best-effort flag and time channel.
  \<^verbatim>\<open>p.sendQ\<close> panics when the pipe is nil.
\<close>

definition rep_SendMsg_begin :: "nat \<Rightarrow> message \<Rightarrow> repsock \<Rightarrow> repsock \<times> (err + message \<times> nat \<times> bool \<times> timeq)" where
  "rep_SendMsg_begin c m s =
     (let x = e_ctxs s c in
      if x_closed s \<or> e_closed x then (s, Inl ErrClosed)
      else
        case e_backtrace x of
          None \<Rightarrow> (s, Inl ErrProtoState)
        | Some bt \<Rightarrow>
            (let s1 = upd_ectx c (\<lambda>x. x\<lparr>e_recvPipe := None, e_backtrace := None\<rparr>) s;
                 be = e_bestEffort x;
                 tq = (if be then ClosedQ else expire_q (e_sendExpire x))
             in case e_recvPipe x of
                  None \<Rightarrow> (s1\<lparr>panicked := True\<rparr>, Inl ErrProtoState)
                | Some p \<Rightarrow> (s1, Inr (m\<lparr>Header := bt\<rparr>, p, be, tq))))"

definition rep_SendMsg_try :: "bool \<Rightarrow> nat \<Rightarrow> message \<Rightarrow> repsock \<Rightarrow> (repsock \<times> message \<times> status) option" where
  "rep_SendMsg_try parked p m s = map_option (\<lambda>s'. (s', m, None)) (pipe_send parked p m s)"

definition rep_SendMsg_wait ::
    "bool \<Rightarrow> bool \<Rightarrow> nat \<Rightarrow> message \<times> nat \<times> bool \<times> timeq \<Rightarrow> repsock \<Rightarrow> (repsock \<times> message \<times> status) list" where
  "rep_SendMsg_wait parked fired c loc s =
     (case loc of (m, p, be, tq) \<Rightarrow>
        ready_cases
          [case_if (e_closeQ (e_ctxs s c)) (s, m\<lparr>Header := []\<rparr>, Some ErrClosed),
           case_if (p_closeQ (x_pobj s p)) (Free (m_id m) s, m, None),
           case_if (timeq_ready fired tq)
             (if be then (Free (m_id m) s, m, None) else (s, m\<lparr>Header := []\<rparr>, Some ErrSendTimeout)),
           rep_SendMsg_try parked p m s])"

definition rep_ctx_Close :: "nat \<Rightarrow> repsock \<Rightarrow> repsock \<times> status" where
  "rep_ctx_Close c s =
     (if e_closed (e_ctxs s c) then (s, Some ErrClosed)
      else
        (let s1 = (upd_ectx c (\<lambda>x. x\<lparr>e_closed := True\<rparr>) s)\<lparr>e_contexts := remove1 c (e_contexts s)\<rparr>
         in (if e_closeQ (e_ctxs s1 c) then s1\<lparr>panicked := True\<rparr>
             else upd_ectx c (\<lambda>x. x\<lparr>e_closeQ := True\<rparr>) s1, None)))"

definition rep_ctx_GetOption :: "string \<Rightarrow> ectx \<Rightarrow> err + optval" where
  "rep_ctx_GetOption name x =
     (if name = OptionBestEffort then Inr (VBool (e_bestEffort x))
      else if name = OptionRecvDeadline then Inr (VDuration (e_recvExpire x))
      else if name = OptionSendDeadline then Inr (VDuration (e_sendExpire x))
      else Inl ErrBadOption)"

definition rep_ctx_SetOption :: "string \<Rightarrow> optval \<Rightarrow> nat \<Rightarrow> repsock \<Rightarrow> repsock \<times> status" where
  "rep_ctx_SetOption name v c s =
     (if name = OptionBestEffort then set_field (asBool v) (\<lambda>b. upd_ectx c (\<lambda>x. x\<lparr>e_bestEffort := b\<rparr>)) s
      else if name = OptionSendDeadline then set_field (asDuration v) (\<lambda>d. upd_ectx c (\<lambda>x. x\<lparr>e_sendExpire := d\<rparr>)) s
      else if name = OptionRecvDeadline then set_field (asDuration v) (\<lambda>d. upd_ectx c (\<lambda>x. x\<lparr>e_recvExpire := d\<rparr>)) s
      else (s, Some ErrBadOption))"

definition rep_receiver_msg :: "nat \<Rightarrow> message \<Rightarrow> repsock \<Rightarrow> repsock" where
  "rep_receiver_msg p m s =
     (case rep_loop (x_ttl s) 0 (Header m) (Body m) of
        None \<Rightarrow> Free (m_id m) s
      | Some (h, b) \<Rightarrow> hold_msg p (m\<lparr>Header := h, Body := b\<rparr>) s)"

text \<open>The \<^verbatim>\<open>closeQ\<close> case of the receiver's \<^verbatim>\<open>select\<close> (its other case is \<open>rep_RecvMsg_take\<close>).\<close>

definition rep_receiver_closed :: "nat \<Rightarrow> repsock \<Rightarrow> repsock" where
  "rep_receiver_closed p s =
     (case p_hold (x_pobj s p) of
        Some (m, rq, zq) \<Rightarrow> if p_closeQ (x_pobj s p) then receiver_exit p (Free (m_id m) s) else s
      | None \<Rightarrow> s)"

definition rep_Close :: "repsock \<Rightarrow> repsock \<times> status" where
  "rep_Close s =
     (if x_closed s then (s, Some ErrClosed)
      else (fold (\<lambda>c s. fst (rep_ctx_Close c s)) (e_contexts s) (s\<lparr>x_closed := True\<rparr>), None))"

definition rep_AddPipe :: "u32 \<Rightarrow> repsock \<Rightarrow> repsock \<times> status" where
  "rep_AddPipe i s =
     (if x_closed s then (s, Some ErrClosed)
      else ((upd_pipe (x_npipe s) (\<lambda>_. new_rpipe i (x_sendQLen s)) s)\<lparr>x_npipe := Suc (x_npipe s)\<rparr>, None))"

definition rep_RemovePipe :: "nat \<Rightarrow> repsock \<Rightarrow> repsock" where
  "rep_RemovePipe p s = close_pipeQ p s"

text \<open>Context 0 is \<^verbatim>\<open>s.master\<close>.\<close>

definition rep_SetOption :: "string \<Rightarrow> optval \<Rightarrow> repsock \<Rightarrow> repsock \<times> status" where
  "rep_SetOption name v s =
     (if name = OptionWriteQLen then set_field (asQLen v) (\<lambda>n s. s\<lparr>x_sendQLen := n\<rparr>) s
      else if name = OptionTTL then set_field (asTTL v) (\<lambda>n s. s\<lparr>x_ttl := n\<rparr>) s
      else rep_ctx_SetOption name v 0 s)"

definition rep_GetOption :: "string \<Rightarrow> repsock \<Rightarrow> err + optval" where
  "rep_GetOption name s =
     (if name = OptionRaw then Inr (VBool False)
      else if name = OptionTTL then Inr (VInt (int (x_ttl s)))
      else if name = OptionWriteQLen then Inr (VInt (int (x_sendQLen s)))
      else rep_ctx_GetOption name (e_ctxs s 0))"

definition rep_OpenContext :: "repsock \<Rightarrow> repsock \<times> (err + nat)" where
  "rep_OpenContext s =
     (if x_closed s then (s, Inl ErrClosed)
      else ((upd_ectx (e_nctx s) (\<lambda>_. ectx0) s)\<lparr>e_nctx := Suc (e_nctx s), e_contexts := e_contexts s @ [e_nctx s]\<rparr>,
            Inr (e_nctx s)))"

definition rep_NewProtocol :: repsock where
  "rep_NewProtocol = rawsock.extend (raw_new 0 0 8)
     \<lparr>e_ctxs = (\<lambda>_. ectx0), e_nctx = 1, e_contexts = [0]\<rparr>"

section \<open>Runs\<close>

text \<open>
  A step is labelled with the context whose saved request it may change: a completed
  \<^verbatim>\<open>RecvMsg\<close> or a \<^verbatim>\<open>SendMsg\<close>.
\<close>

inductive rep_step :: "nat option \<Rightarrow> repsock \<Rightarrow> repsock \<Rightarrow> bool" where
  re_recv: "rep_step None s (fst (rep_RecvMsg_begin c s))"
| re_take: "c < e_nctx s \<Longrightarrow> rep_RecvMsg_take c p s = Some (s', m) \<Longrightarrow> p < x_npipe s \<Longrightarrow> rep_step (Some c) s s'"
| re_fail: "(s', e) \<in> set (rep_RecvMsg_fail f c tq s) \<Longrightarrow> rep_step None s s'"
| re_send: "c < e_nctx s \<Longrightarrow> rep_step (Some c) s (fst (rep_SendMsg_begin c m s))"
| re_send_try: "rep_SendMsg_try b p m s = Some (s', r) \<Longrightarrow> rep_step None s s'"
| re_send_wait: "(s', r) \<in> set (rep_SendMsg_wait b f c loc s) \<Longrightarrow> rep_step None s s'"
| re_receive: "rep_step None s (rep_receiver_msg p m s)"
| re_rclosed: "rep_step None s (rep_receiver_closed p s)"
| re_sender: "s' \<in> set (sender_take False p s) \<Longrightarrow> rep_step None s s'"
| re_sent: "rep_step None s (sender_done False p err s)"
| re_ctx_close: "rep_step None s (fst (rep_ctx_Close c s))"
| re_ctx_set: "rep_step None s (fst (rep_ctx_SetOption n v c s))"
| re_set: "rep_step None s (fst (rep_SetOption n v s))"
| re_close: "rep_step None s (fst (rep_Close s))"
| re_open: "rep_step None s (fst (rep_OpenContext s))"
| re_add: "rep_step None s (fst (rep_AddPipe i s))"
| re_remove: "p < x_npipe s \<Longrightarrow> \<not> p_closeQ (x_pobj s p) \<Longrightarrow> rep_step None s (rep_RemovePipe p s)"

text \<open>The saved request of a context: backtrace and pipe come and go together.\<close>

definition ectx_ok :: "ectx \<Rightarrow> bool" where
  "ectx_ok x \<longleftrightarrow> (e_backtrace x = None \<longleftrightarrow> e_recvPipe x = None) \<and> e_closeQ x = e_closed x"

definition rep_inv :: "repsock \<Rightarrow> bool" where
  "rep_inv s \<longleftrightarrow> \<not> panicked s \<and> (\<forall>c. ectx_ok (e_ctxs s c)) \<and> (\<forall>c\<ge>e_nctx s. e_backtrace (e_ctxs s c) = None) \<and>
     (\<forall>p. plain_chan (p_sendQ (x_pobj s p)))"

section \<open>What the operations change\<close>

lemma upd_ectx_simps [simp]:
  "e_ctxs (upd_ectx c f s) = (e_ctxs s)(c := f (e_ctxs s c))" "e_nctx (upd_ectx c f s) = e_nctx s"
  "e_contexts (upd_ectx c f s) = e_contexts s" "panicked (upd_ectx c f s) = panicked s"
  "x_pobj (upd_ectx c f s) = x_pobj s" "x_closed (upd_ectx c f s) = x_closed s" "x_npipe (upd_ectx c f s) = x_npipe s"
  "x_ttl (upd_ectx c f s) = x_ttl s" "x_sendQLen (upd_ectx c f s) = x_sendQLen s"
  by (simp_all add: upd_ectx_def)

lemma upd_pipe_repsock [simp]:
  "e_ctxs (upd_pipe p f s) = e_ctxs s" "e_nctx (upd_pipe p f s) = e_nctx s" "e_contexts (upd_pipe p f s) = e_contexts s"
  by (simp_all add: upd_pipe_def)

lemma Free_repsock [simp]:
  "e_ctxs (Free i s) = e_ctxs s" "e_nctx (Free i s) = e_nctx s" "e_contexts (Free i s) = e_contexts s"
  by (simp_all add: Free_def)

text \<open>Steps that leave the contexts alone.\<close>

definition calm :: "repsock \<Rightarrow> repsock \<Rightarrow> bool" where
  "calm s t \<longleftrightarrow> panicked t = panicked s \<and> e_ctxs t = e_ctxs s \<and> e_nctx t = e_nctx s \<and>
     ((\<forall>p. plain_chan (p_sendQ (x_pobj s p))) \<longrightarrow> (\<forall>p. plain_chan (p_sendQ (x_pobj t p))))"

lemma calm_inv: "calm s t \<Longrightarrow> rep_inv s \<Longrightarrow> rep_inv t"
  by (simp add: calm_def rep_inv_def)

lemma calm_refl [simp]: "calm s s" "calm s (Free i s)"
  by (simp_all add: calm_def)

lemma calm_pipe_send: "pipe_send b p m s = Some t \<Longrightarrow> calm s t"
  by (auto simp: pipe_send_def calm_def plain_push split: if_splits)

lemma calm_sender_take:
  assumes "t \<in> set (sender_take b p s)"
  shows "calm s t"
proof (cases "chan_pop (p_sendQ (x_pobj s p))")
  case None
  then show ?thesis using assms
    by (auto simp: sender_take_def Let_def set_ready_cases calm_def split: if_splits)
next
  case (Some r)
  then obtain m q where "chan_pop (p_sendQ (x_pobj s p)) = Some (m, q)" by (cases r) auto
  then show ?thesis using assms
    by (auto simp: sender_take_def Let_def set_ready_cases calm_def split: if_splits dest: plain_pop(1) [rotated])
qed

lemma calm_sender_done: "calm s (sender_done b p e s)"
  by (auto simp: sender_done_def Let_def calm_def split: option.splits)

lemma calm_receive: "calm s (rep_receiver_msg p m s)"
  by (auto simp: rep_receiver_msg_def hold_msg_def calm_def split: option.splits)

lemma calm_rclosed: "calm s (rep_receiver_closed p s)"
  by (auto simp: rep_receiver_closed_def receiver_exit_def calm_def split: option.splits)

lemma calm_send_wait: "(t, r) \<in> set (rep_SendMsg_wait b f c loc s) \<Longrightarrow> calm s t"
  by (auto simp: rep_SendMsg_wait_def rep_SendMsg_try_def set_ready_cases split: prod.splits if_splits intro: calm_pipe_send)

lemma calm_add: "calm s (fst (rep_AddPipe i s))"
  by (auto simp: rep_AddPipe_def calm_def new_rpipe_def)

lemma calm_remove: "\<not> p_closeQ (x_pobj s p) \<Longrightarrow> calm s (rep_RemovePipe p s)"
  by (auto simp: rep_RemovePipe_def close_pipeQ_def calm_def)

lemmas calm_ops = calm_refl calm_pipe_send calm_sender_take calm_sender_done calm_receive calm_rclosed
  calm_send_wait calm_add calm_remove

text \<open>Steps that change one context.\<close>

lemma rep_inv_upd:
  assumes "rep_inv s" and "ectx_ok (f (e_ctxs s c))"
    and "c < e_nctx s \<or> e_backtrace (f (e_ctxs s c)) = None"
  shows "rep_inv (upd_ectx c f s)"
  using assms by (auto simp: rep_inv_def)

lemma rep_invD:
  assumes "rep_inv s"
  shows "\<not> panicked s" "ectx_ok (e_ctxs s c)" "e_nctx s \<le> c \<Longrightarrow> e_backtrace (e_ctxs s c) = None"
  using assms by (auto simp: rep_inv_def)

lemma rep_inv_upd_same:
  assumes "rep_inv s" "\<And>x. ectx_ok x \<Longrightarrow> ectx_ok (f x)" "\<And>x. e_backtrace (f x) = e_backtrace x"
  shows "rep_inv (upd_ectx c f s)"
  using assms rep_invD(2,3) [OF assms(1)] by (intro rep_inv_upd) (auto simp: not_le [symmetric])

lemma rep_ctx_Close_inv:
  assumes "rep_inv s"
  shows "rep_inv (fst (rep_ctx_Close c s))"
proof -
  have "fst (rep_ctx_Close c s) = s \<or>
      fst (rep_ctx_Close c s) =
        (upd_ectx c (\<lambda>x. x\<lparr>e_closed := True, e_closeQ := True\<rparr>) s)\<lparr>e_contexts := remove1 c (e_contexts s)\<rparr>"
    using rep_invD(2) [OF assms, of c]
    by (auto simp: rep_ctx_Close_def Let_def ectx_ok_def upd_ectx_def)
  moreover have "rep_inv (upd_ectx c (\<lambda>x. x\<lparr>e_closed := True, e_closeQ := True\<rparr>) s)"
    using assms by (intro rep_inv_upd_same) (auto simp: ectx_ok_def)
  ultimately show ?thesis using assms by (auto simp: rep_inv_def)
qed

lemma rep_Close_inv: "rep_inv s \<Longrightarrow> rep_inv (fst (rep_Close s))"
proof -
  assume "rep_inv s"
  then have "rep_inv (s\<lparr>x_closed := True\<rparr>)" by (simp add: rep_inv_def)
  then have "rep_inv (fold (\<lambda>c s. fst (rep_ctx_Close c s)) cs (s\<lparr>x_closed := True\<rparr>))" for cs
    by (induction cs arbitrary: s rule: rev_induct) (auto intro: rep_ctx_Close_inv)
  then show ?thesis using \<open>rep_inv s\<close> by (simp add: rep_Close_def)
qed

lemma rep_take_inv:
  assumes "rep_inv s" "c < e_nctx s" "rep_RecvMsg_take c p s = Some (s', m)"
  shows "rep_inv s'"
proof -
  obtain h where s': "s' = upd_ectx c (\<lambda>x. x\<lparr>e_backtrace := Some h, e_recvPipe := Some p, e_recvWait := False\<rparr>)
      (upd_pipe p (\<lambda>x. x\<lparr>p_hold := None\<rparr>) s)"
    using assms(3) by (auto simp: rep_RecvMsg_take_def split: option.splits)
  have "rep_inv (upd_pipe p (\<lambda>x. x\<lparr>p_hold := None\<rparr>) s)" using assms(1) by (simp add: rep_inv_def)
  then show ?thesis
    unfolding s' using assms(2) rep_invD(2) [OF assms(1), of c] by (intro rep_inv_upd) (auto simp: ectx_ok_def)
qed

lemma rep_send_inv:
  assumes "rep_inv s"
  shows "rep_inv (fst (rep_SendMsg_begin c m s))"
proof -
  have "rep_inv (upd_ectx c (\<lambda>x. x\<lparr>e_recvPipe := None, e_backtrace := None\<rparr>) s)"
    using assms rep_invD(2) [OF assms, of c] by (intro rep_inv_upd) (auto simp: ectx_ok_def)
  then show ?thesis
    using assms rep_invD(2) [OF assms, of c]
    by (auto simp: rep_SendMsg_begin_def Let_def ectx_ok_def split: option.split)
qed

lemma rep_inv_fields: "rep_inv (s\<lparr>x_sendQLen := n\<rparr>) = rep_inv s" "rep_inv (s\<lparr>x_ttl := n\<rparr>) = rep_inv s"
  by (simp_all add: rep_inv_def)

lemma rep_set_inv: "rep_inv s \<Longrightarrow> rep_inv (fst (rep_ctx_SetOption n v c s))" "rep_inv s \<Longrightarrow> rep_inv (fst (rep_SetOption n v s))"
proof -
  have upd: "rep_inv (upd_ectx c (\<lambda>x. x\<lparr>e_bestEffort := b\<rparr>) s)" "rep_inv (upd_ectx c (\<lambda>x. x\<lparr>e_sendExpire := d\<rparr>) s)"
    "rep_inv (upd_ectx c (\<lambda>x. x\<lparr>e_recvExpire := d\<rparr>) s)" if "rep_inv s" for b d c
    using that by (auto simp: ectx_ok_def intro!: rep_inv_upd_same)
  show "rep_inv s \<Longrightarrow> rep_inv (fst (rep_ctx_SetOption n v c s))"
    by (rule afterD) (simp add: rep_ctx_SetOption_def upd)
  show "rep_inv s \<Longrightarrow> rep_inv (fst (rep_SetOption n v s))"
    by (rule afterD) (simp add: rep_SetOption_def rep_ctx_SetOption_def upd rep_inv_fields)
qed

lemma rep_open_inv: "rep_inv s \<Longrightarrow> rep_inv (fst (rep_OpenContext s))"
  by (auto simp: rep_OpenContext_def rep_inv_def ectx_ok_def ectx0_def)

lemma rep_step_inv: "rep_step l s t \<Longrightarrow> rep_inv s \<Longrightarrow> rep_inv t"
proof (induction rule: rep_step.induct)
  case (re_recv s c)
  then show ?case by (auto simp: rep_RecvMsg_begin_def Let_def ectx_ok_def intro!: rep_inv_upd_same)
next
  case (re_fail s' e f c tq s)
  then show ?case
    by (auto simp: rep_RecvMsg_fail_def Let_def set_ready_cases ectx_ok_def intro!: rep_inv_upd_same)
qed (auto simp: rep_SendMsg_try_def intro: calm_inv calm_ops rep_take_inv rep_send_inv rep_ctx_Close_inv rep_Close_inv
    rep_set_inv rep_open_inv)

interpretation rep: machine "\<lambda>s. s = rep_NewProtocol" "\<lambda>s t. \<exists>l. rep_step l s t" rep_inv
proof unfold_locales
  show "rep_inv s" if "s = rep_NewProtocol" for s
    using that by (simp add: rep_inv_def rep_NewProtocol_def raw_new_def rawsock.extend_def ectx_ok_def ectx0_def)
  show "rep_inv t" if "rep_inv s" "\<exists>l. rep_step l s t" for s t using that rep_step_inv by blast
qed

section \<open>The saved request\<close>

definition saved :: "nat \<Rightarrow> repsock \<Rightarrow> bytes option \<times> nat option" where
  "saved c s = (e_backtrace (e_ctxs s c), e_recvPipe (e_ctxs s c))"

definition keeps_saved :: "nat \<Rightarrow> repsock \<Rightarrow> repsock \<Rightarrow> bool" where
  "keeps_saved c s t \<longleftrightarrow> saved c t = saved c s \<and> e_nctx s \<le> e_nctx t"

lemma calm_saved: "calm s t \<Longrightarrow> keeps_saved c s t"
  by (simp add: calm_def keeps_saved_def saved_def)

lemma upd_saved:
  "(\<And>x. e_backtrace (f x) = e_backtrace x \<and> e_recvPipe (f x) = e_recvPipe x) \<Longrightarrow> keeps_saved c s (upd_ectx d f s)"
  by (simp add: keeps_saved_def saved_def)

lemma rep_ctx_Close_saved: "keeps_saved c s (fst (rep_ctx_Close d s))"
  by (auto simp: rep_ctx_Close_def Let_def keeps_saved_def saved_def)

lemma rep_Close_saved: "keeps_saved c s (fst (rep_Close s))"
proof -
  have "keeps_saved c s t \<Longrightarrow> keeps_saved c s (fold (\<lambda>c s. fst (rep_ctx_Close c s)) cs t)" for cs t
  proof (induction cs arbitrary: t)
    case (Cons d cs)
    then have "keeps_saved c s (fst (rep_ctx_Close d t))"
      using rep_ctx_Close_saved [of c t d] by (simp add: keeps_saved_def)
    then show ?case using Cons.IH by simp
  qed simp
  then show ?thesis by (simp add: rep_Close_def keeps_saved_def saved_def)
qed

lemma rep_set_saved: "keeps_saved c s (fst (rep_ctx_SetOption n v d s))" "keeps_saved c s (fst (rep_SetOption n v s))"
  by (rule afterD, simp add: rep_SetOption_def rep_ctx_SetOption_def upd_saved, simp add: keeps_saved_def saved_def)+

lemma rep_step_saved:
  "rep_step l s t \<Longrightarrow> l \<noteq> Some c \<Longrightarrow> c < e_nctx s \<Longrightarrow> keeps_saved c s t"
proof (induction rule: rep_step.induct)
  case (re_recv s d)
  then show ?case by (auto simp: rep_RecvMsg_begin_def Let_def keeps_saved_def saved_def)
next
  case (re_take d s p s' m)
  then show ?case by (auto simp: rep_RecvMsg_take_def keeps_saved_def saved_def split: option.splits)
next
  case (re_fail s' e f d tq s)
  then show ?case by (auto simp: rep_RecvMsg_fail_def Let_def set_ready_cases keeps_saved_def saved_def)
next
  case (re_send d s m)
  then show ?case by (auto simp: rep_SendMsg_begin_def Let_def keeps_saved_def saved_def split: option.split)
next
  case (re_open s)
  then show ?case by (auto simp: rep_OpenContext_def keeps_saved_def saved_def)
qed (auto simp: rep_SendMsg_try_def intro: calm_saved calm_ops rep_ctx_Close_saved rep_Close_saved rep_set_saved)

definition others :: "nat \<Rightarrow> repsock \<Rightarrow> repsock \<Rightarrow> bool" where
  "others c s t \<longleftrightarrow> (\<exists>l. l \<noteq> Some c \<and> rep_step l s t)"

lemma others_saved:
  assumes "(others c)\<^sup>*\<^sup>* s t" and "c < e_nctx s"
  shows "keeps_saved c s t"
  using assms(1)
proof (induction rule: rtranclp_induct)
  case base
  then show ?case by (simp add: keeps_saved_def)
next
  case (step t u)
  then have "keeps_saved c t u" using rep_step_saved assms(2) by (fastforce simp: others_def keeps_saved_def)
  with step show ?case by (simp add: keeps_saved_def)
qed

section \<open>Properties\<close>

text \<open>
  REP never panics: in every reachable state a context that has a backtrace to reply with
  also has the pipe, so \<^verbatim>\<open>SendMsg\<close> never dereferences a nil pipe, and no context or pipe channel
  is closed twice.
\<close>

theorem rep_never_panics:
  assumes "(\<lambda>s t. \<exists>l. rep_step l s t)\<^sup>*\<^sup>* rep_NewProtocol s"
  shows "\<not> panicked s \<and> (\<forall>c. e_backtrace (e_ctxs s c) = None \<longleftrightarrow> e_recvPipe (e_ctxs s c) = None)"
  using rep.reachable_inv [OF refl assms] by (simp add: rep_inv_def ectx_ok_def)

text \<open>What a context saved of a request lasts until its own next \<^verbatim>\<open>RecvMsg\<close> or \<^verbatim>\<open>SendMsg\<close>.\<close>

lemma rep_saved_lasts:
  assumes "p_hold (x_pobj s p) = Some (m, rq, zq)" and "rep_RecvMsg_take c p s = Some (s1, m')"
    and "c < e_nctx s" and "(others c)\<^sup>*\<^sup>* s1 t"
  shows "e_backtrace (e_ctxs t c) = Some (Header m)" "e_recvPipe (e_ctxs t c) = Some p"
proof -
  have "saved c s1 = (Some (Header m), Some p)" "e_nctx s1 = e_nctx s"
    using assms(1,2) by (auto simp: rep_RecvMsg_take_def saved_def)
  moreover have "saved c t = saved c s1"
    using others_saved [OF assms(4)] assms(3) calculation(2) by (simp add: keeps_saved_def)
  ultimately show "e_backtrace (e_ctxs t c) = Some (Header m)" "e_recvPipe (e_ctxs t c) = Some p"
    by (simp_all add: saved_def)
qed

text \<open>
  C10: The reply goes where the request came from. When a context has received a request that
  pipe \<open>p\<close> held, then whatever other contexts, pipes and the socket do in between, its next
  \<^verbatim>\<open>SendMsg\<close> (unless the context or socket was closed) goes to \<open>p\<close> with the request's backtrace as
  its header; and a further \<^verbatim>\<open>SendMsg\<close> without a new request is refused with \<^verbatim>\<open>ErrProtoState\<close>.
\<close>

theorem rep_reply_routed:
  assumes "p_hold (x_pobj s p) = Some (m, rq, zq)" and "rep_RecvMsg_take c p s = Some (s1, m')"
    and "c < e_nctx s" and "(others c)\<^sup>*\<^sup>* s1 t" and "\<not> x_closed t" and "\<not> e_closed (e_ctxs t c)"
  shows "\<exists>be tq u. rep_SendMsg_begin c r t = (u, Inr (r\<lparr>Header := Header m\<rparr>, p, be, tq)) \<and>
    snd (rep_SendMsg_begin c r u) = Inl ErrProtoState"
  using rep_saved_lasts [OF assms(1-4)] assms(5,6) by (auto simp: rep_SendMsg_begin_def Let_def)

definition rep_m :: message where
  "rep_m = \<lparr>m_id = 1, Header = [], Body = PutUint32 0x80000001 @ [7], m_pipe = Some 5, m_from = 0\<rparr>"
definition rep1 :: repsock where "rep1 = fst (rep_AddPipe 5 rep_NewProtocol)"
definition rep2 :: repsock where "rep2 = rep_receiver_msg 0 rep_m rep1"

lemma rep2_eval: "\<exists>h rq zq b. p_hold (x_pobj rep2 0) = Some (rep_m\<lparr>Header := h, Body := b\<rparr>, rq, zq)"
  "0 < e_nctx rep2" "\<not> x_closed rep2" "\<not> e_closed (e_ctxs rep2 0)"
proof -
  have "top_bit ((PutUint32 0x80000001 @ [7]) ! 0)" unfolding top_bit_PutUint32 by simp
  moreover have "rep_loop 8 0 [] b = split_bt (Suc 7) [] b" for b by (simp add: rep_loop_split)
  ultimately have l: "rep_loop 8 0 [] (PutUint32 0x80000001 @ [7]) = Some (PutUint32 0x80000001, [7])"
    by (simp only: split_bt_Suc) simp
  have e: "x_ttl rep1 = 8" "e_nctx rep1 = 1" "\<not> x_closed rep1" "\<not> e_closed (e_ctxs rep1 0)"
    by (simp_all add: rep1_def rep_AddPipe_def rep_NewProtocol_def raw_new_def rawsock.extend_def ectx0_def)
  have r2: "rep2 = hold_msg 0 (rep_m\<lparr>Header := PutUint32 0x80000001, Body := [7]\<rparr>) rep1"
    by (simp add: rep2_def rep_receiver_msg_def e rep_m_def l)
  show "\<exists>h rq zq b. p_hold (x_pobj rep2 0) = Some (rep_m\<lparr>Header := h, Body := b\<rparr>, rq, zq)"
    "0 < e_nctx rep2" "\<not> x_closed rep2" "\<not> e_closed (e_ctxs rep2 0)"
    unfolding r2 by (auto simp: hold_msg_def e)
qed

theorem rep_never_panics_witness: "\<not> panicked rep2"
proof -
  have "\<exists>l. rep_step l rep_NewProtocol rep1" unfolding rep1_def by (blast intro: re_add)
  moreover have "\<exists>l. rep_step l rep1 rep2" unfolding rep2_def by (blast intro: re_receive)
  ultimately have "(\<lambda>s t. \<exists>l. rep_step l s t)\<^sup>*\<^sup>* rep_NewProtocol rep2"
    by (intro rtranclp.rtrancl_into_rtrancl [OF r_into_rtranclp, of _ _ rep1])
  from rep_never_panics [OF this] show ?thesis by simp
qed

theorem rep_reply_routed_witness:
  "\<exists>s1 m' h be tq u. rep_RecvMsg_take 0 0 rep2 = Some (s1, m') \<and>
     rep_SendMsg_begin 0 rep_m s1 = (u, Inr (rep_m\<lparr>Header := h\<rparr>, 0, be, tq))"
proof -
  obtain h rq zq b where h: "p_hold (x_pobj rep2 0) = Some (rep_m\<lparr>Header := h, Body := b\<rparr>, rq, zq)"
    using rep2_eval(1) by blast
  then obtain s1 m' where t: "rep_RecvMsg_take 0 0 rep2 = Some (s1, m')" "\<not> x_closed s1" "\<not> e_closed (e_ctxs s1 0)"
    using rep2_eval(3,4) by (auto simp: rep_RecvMsg_take_def)
  show ?thesis
    using rep_reply_routed [OF h t(1) rep2_eval(2) rtranclp.rtrancl_refl t(2,3), of rep_m] t(1) by blast
qed

section \<open>The protocol contract\<close>

lemma rep_Close_closed: "x_closed (fold (\<lambda>c s. fst (rep_ctx_Close c s)) cs s) = x_closed s"
  by (induction cs arbitrary: s) (auto simp: rep_ctx_Close_def Let_def)

interpretation rep_proto: protocol_base x_closed "\<lambda>s. p_ID ` x_pobj s ` {..<x_npipe s}" rep_Close rep_AddPipe rep_SetOption rep_GetOption
proof unfold_locales
  show "rep_GetOption n (fst (rep_SetOption n v s)) = Inr v"
    if "snd (rep_SetOption n v s) = None" "rep_GetOption n s \<noteq> Inl ErrBadOption" for n v s
  proof (cases "n = OptionRaw")
    case True
    then show ?thesis using that by (simp add: rep_SetOption_def rep_ctx_SetOption_def option_names)
  next
    case False
    then show ?thesis using that(1)
      by (auto simp: rep_SetOption_def rep_ctx_SetOption_def rep_GetOption_def rep_ctx_GetOption_def fst_set_field
          asQLen_eq_Some asTTL_eq_Some split: if_splits) (simp_all add: option_names)
  qed
  show "fst (rep_SetOption n v s) = s" if "snd (rep_SetOption n v s) \<noteq> None" for n v s
    by (rule cleanD [OF _ that]) (simp add: rep_SetOption_def rep_ctx_SetOption_def)
  show "x_closed (fst (rep_SetOption n v s)) = x_closed s \<and>
      p_ID ` x_pobj (fst (rep_SetOption n v s)) ` {..<x_npipe (fst (rep_SetOption n v s))} = p_ID ` x_pobj s ` {..<x_npipe s}" for n v s
    by (rule afterD) (simp add: rep_SetOption_def rep_ctx_SetOption_def)
qed (auto simp: rep_Close_def rep_AddPipe_def rep_Close_closed)

end
