(* ===== verification/ReqRep.thy ===== *)
theory ReqRep
  imports ReqRuns Device Rep
begin

text \<open>
  REQ and REP together: what \<^verbatim>\<open>SendMsg\<close> of a REQ context puts on the wire, what \<^verbatim>\<open>RecvMsg\<close> of a REP
  context makes of it behind any number of devices, and the way of the reply back.
\<close>

text \<open>A request ID has its top bit set.\<close>

lemma req_id_bit: "bit (req_id n) 31"
  by (simp add: req_id_def bit_or_iff)

lemma SendMsg_begin_message: "SendMsg_begin c m0 s = (m, t, r) \<Longrightarrow> m = m0\<lparr>Header := PutUint32 (req_id (r_nextID s))\<rparr>"
  by (auto simp: SendMsg_begin_def Let_def split: if_splits)

lemma rep_receives_path:
  assumes ids: "\<forall>i\<in>set ids. valid_id i" and r: "bit r 31" and n: "length ids < x_ttl s"
    and m: "Header m = []" "Body m = words_of ids @ PutUint32 r @ body"
  shows "rep_receiver_msg p m s = hold_msg p (m\<lparr>Header := words_of ids @ PutUint32 r, Body := body\<rparr>) s"
proof -
  have "bt_words (Body m) = Some (Suc (length ids))"
    unfolding m(2) using ids r valid_id_bit by (intro bt_words_path) auto
  then show ?thesis
    using n by (simp add: rep_receiver_msg_def rep_loop_split split_bt_def m(1)) (simp add: m(2))
qed

text \<open>A reply to an outstanding request is delivered to the context that made it.\<close>

lemma req_delivers:
  assumes ok: "req_ok True q" and c: "r_ctxByID q i = Some c" and a: "Header a = []" "Body a = PutUint32 i @ body"
  shows "\<exists>a' t. c_repMsg (r_ctxs (receiver_msg k a q) c) = Some a' \<and> Body a' = body \<and> \<not> panicked (receiver_msg k a q) \<and>
     RecvMsg_wake c (receiver_msg k a q) = Some (t, Inr a')"
proof -
  let ?s1 = "q\<lparr>r_readyQ := ready_first k (r_readyQ q)\<rparr>"
  obtain m where m: "c_reqMsg (r_ctxs q c) = Some m"
    using req_okD(9) [OF ok _ c] by (auto simp: entry_ok_def)
  let ?a = "a\<lparr>Header := PutUint32 i, Body := body\<rparr>"
  have rm: "c_reqMsg (r_ctxs (cancelSend c ?s1) c) = Some m" using m by (simp add: cancelSend_def upd_ctx_def)
  have r: "c_repMsg (r_ctxs (receiver_msg k a q) c) = Some ?a" "panicked (receiver_msg k a q) = panicked q"
    using rm c a by (simp_all add: receiver_msg_def Let_def upd_ctx_def cancelSend_def Free_def)
  then show ?thesis
    using req_okD(1) [OF ok] by (auto simp: RecvMsg_wake_def RecvMsg_finish_def Let_def)
qed


definition e2e_msg :: message where
  "e2e_msg = fst (SendMsg_begin 0 (msg_of 1 []) rq1)"

definition e2e_rep :: repsock where
  "e2e_rep = rep_receiver_msg 0 (msg_of 5 (words_of [3] @ wire e2e_msg)) rep1"

lemma e2e_eval: "SendMsg_begin 0 (msg_of 1 []) rq1 = (e2e_msg, rq2, snd (snd (SendMsg_begin 0 (msg_of 1 []) rq1)))"
  "r_ctxByID rq2 (req_id (r_nextID rq1)) = Some 0" "wire e2e_msg = PutUint32 (req_id (r_nextID rq1))"
  by (simp_all add: e2e_msg_def rq_defs) (simp_all add: req_eval wire_def)

lemma rep1_eval: "x_ttl rep1 = 8" "e_nctx rep1 = 1" "\<not> x_closed rep1" "\<not> e_closed (e_ctxs rep1 0)"
  by (simp_all add: rep1_def rep_AddPipe_def rep_NewProtocol_def raw_new_def rawsock.extend_def ectx0_def)


end
