(* ===== verification/Xpush.thy ===== *)
theory Xpush
  imports RawSock
begin

text \<open>
  PUSH (\<^verbatim>\<open>protocol/xpush/xpush.go\<close>, \<^verbatim>\<open>protocol/push/push.go\<close>): one send queue, one sender
  goroutine that waits on a condition variable, and a queue of the pipes that are idle.
  \<open>ps_awake\<close> tells whether the sender goroutine is running or waits in \<^verbatim>\<open>cv.Wait\<close>;
  \<open>ps_signals\<close> counts the calls of \<^verbatim>\<open>SendMsg\<close> whose message was accepted and that have not
  reached \<^verbatim>\<open>cv.Signal\<close> yet. A call blocked in its second \<^verbatim>\<open>select\<close> leaves its message in
  \<open>ch_offers\<close> of the queue. \<^verbatim>\<open>SendMsg\<close> reads \<^verbatim>\<open>s.sendQ\<close> without the lock, so the queue it
  uses is an argument: any queue that has been the send queue (\<open>ps_sqs\<close>).
\<close>

section \<open>State\<close>

record ppipe =
  ps_ID :: u32
  ps_pclosed :: bool
  ps_pcloseQ :: bool
  ps_out :: "message list"
  ps_closing :: bool

record pushsock = "message world" +
  ps_closed :: bool
  ps_closeQ :: bool
  ps_sendQ :: nat
  ps_sqs :: "nat set"
  ps_noPeerQ :: nat
  ps_npclosed :: "nat \<Rightarrow> bool"
  ps_sendExpire :: int
  ps_sendQLen :: nat
  ps_bestEffort :: bool
  ps_failNoPeers :: bool
  ps_readyQ :: "nat list"
  ps_pipes :: "u32 \<rightharpoonup> nat"
  ps_pobj :: "nat \<Rightarrow> ppipe"
  ps_npipe :: nat
  ps_awake :: bool
  ps_sexit :: bool
  ps_signals :: nat

definition upd_pp :: "nat \<Rightarrow> (ppipe \<Rightarrow> ppipe) \<Rightarrow> pushsock \<Rightarrow> pushsock" where
  "upd_pp p f s = s\<lparr>ps_pobj := (ps_pobj s)(p := f (ps_pobj s p))\<rparr>"

section \<open>Operations\<close>

type_synonym push_snap = "timeq \<times> nat \<times> bool"

definition push_SendMsg_begin :: "pushsock \<Rightarrow> err + push_snap" where
  "push_SendMsg_begin s =
     (let be = ps_bestEffort s;
          tq = (if be then ClosedQ else expire_q (ps_sendExpire s))
      in if ps_closed s then Inl ErrClosed
         else if ps_failNoPeers s \<and> ps_pipes s = Map.empty then Inl ErrNoPeers
         else Inr (tq, ps_noPeerQ s, be))"

text \<open>A send case; when it is taken the call still has to signal the sender.\<close>

definition push_send_case :: "nat \<Rightarrow> message \<Rightarrow> pushsock \<Rightarrow> (pushsock \<times> status) option" where
  "push_send_case q m s = map_option (\<lambda>t. (t\<lparr>ps_signals := Suc (ps_signals t)\<rparr>, None)) (try_send q m s)"

definition push_SendMsg_try :: "push_snap \<Rightarrow> nat \<Rightarrow> message \<Rightarrow> pushsock \<Rightarrow> (pushsock \<times> status) list" where
  "push_SendMsg_try snap q m s =
     (case snap of (tq, pq, be) \<Rightarrow>
        ready_cases [case_if (ps_npclosed s pq) (s, Some ErrNoPeers), push_send_case q m s])"

text \<open>The other cases of the second \<^verbatim>\<open>select\<close>.\<close>

definition push_give_up :: "bool \<Rightarrow> push_snap \<Rightarrow> message \<Rightarrow> pushsock \<Rightarrow> (pushsock \<times> status) list" where
  "push_give_up fired snap m s =
     (case snap of (tq, pq, be) \<Rightarrow>
        ready_cases
          [case_if (ps_npclosed s pq) (s, Some ErrNoPeers),
           case_if (ps_closeQ s) (s, Some ErrClosed),
           case_if (timeq_ready fired tq) (if be then (Free (m_id m) s, None) else (s, Some ErrSendTimeout))])"

definition push_SendMsg_wait :: "bool \<Rightarrow> push_snap \<Rightarrow> nat \<Rightarrow> message \<Rightarrow> pushsock \<Rightarrow> (pushsock \<times> status) list" where
  "push_SendMsg_wait fired snap q m s = ready_cases [push_send_case q m s] @ push_give_up fired snap m s"

text \<open>No case is ready: the call parks on the queue, and leaves it when another case gets ready.\<close>

definition push_SendMsg_park :: "push_snap \<Rightarrow> nat \<Rightarrow> message \<Rightarrow> pushsock \<Rightarrow> pushsock" where
  "push_SendMsg_park snap q m s =
     (if push_SendMsg_wait False snap q m s = [] \<and> q \<noteq> 0
      then s\<lparr>chans := (chans s)(q := chan_park_send m (chans s q))\<rparr> else s)"

definition push_SendMsg_unpark :: "bool \<Rightarrow> push_snap \<Rightarrow> nat \<Rightarrow> message \<Rightarrow> pushsock \<Rightarrow> (pushsock \<times> status) list" where
  "push_SendMsg_unpark fired snap q m s =
     (if m \<in> set (ch_offers (chans s q))
      then push_give_up fired snap m
             (s\<lparr>chans := (chans s)(q := (chans s q)\<lparr>ch_offers := remove1 m (ch_offers (chans s q))\<rparr>)\<rparr>)
      else [])"

definition push_SendMsg_signal :: "pushsock \<Rightarrow> pushsock" where
  "push_SendMsg_signal s = (if ps_signals s = 0 then s else s\<lparr>ps_signals := ps_signals s - 1, ps_awake := True\<rparr>)"

text \<open>
  One turn of the loop of \<^verbatim>\<open>sender\<close>; \<open>None\<close> while it waits or after it has returned. Taking a
  message lets one parked call in, which then has to signal.
\<close>

definition push_sender :: "pushsock \<Rightarrow> pushsock option" where
  "push_sender s =
     (if ps_sexit s \<or> \<not> ps_awake s then None
      else if ps_closed s then Some (s\<lparr>ps_sexit := True\<rparr>)
      else if ps_readyQ s = [] \<or> ch_buf (chans s (ps_sendQ s)) = [] then Some (s\<lparr>ps_awake := False\<rparr>)
      else
        (case chan_pop (chans s (ps_sendQ s)) of
           None \<Rightarrow> None
         | Some (m, c) \<Rightarrow>
             Some (upd_pp (hd (ps_readyQ s)) (\<lambda>x. x\<lparr>ps_out := ps_out x @ [m]\<rparr>)
                     (s\<lparr>chans := (chans s)(ps_sendQ s := c),
                        ps_signals := ps_signals s + (length (ch_offers (chans s (ps_sendQ s))) - length (ch_offers c)),
                        ps_readyQ := tl (ps_readyQ s)\<rparr>))))"

text \<open>\<^verbatim>\<open>pipe.send\<close> after \<^verbatim>\<open>p.p.SendMsg\<close> returned.\<close>

definition push_send_done :: "nat \<Rightarrow> message \<Rightarrow> status \<Rightarrow> pushsock \<Rightarrow> pushsock" where
  "push_send_done p m err s =
     (if m \<notin> set (ps_out (ps_pobj s p)) then s
      else
        (let s1 = upd_pp p (\<lambda>x. x\<lparr>ps_out := remove1 m (ps_out x)\<rparr>) s
         in if err \<noteq> None then upd_pp p (\<lambda>x. x\<lparr>ps_closing := True\<rparr>) (Free (m_id m) s1)
            else if \<not> ps_closed s \<and> \<not> ps_pclosed (ps_pobj s p)
            then s1\<lparr>ps_readyQ := ps_readyQ s @ [p], ps_awake := True\<rparr>
            else s1))"

definition push_RecvMsg :: "pushsock \<Rightarrow> err + message" where
  "push_RecvMsg s = Inl ErrProtoOp"

definition push_receiver_msg :: "message \<Rightarrow> pushsock \<Rightarrow> pushsock" where
  "push_receiver_msg m s = Free (m_id m) s"

definition push_receiver_exit :: "nat \<Rightarrow> pushsock \<Rightarrow> pushsock" where
  "push_receiver_exit p s = upd_pp p (\<lambda>x. x\<lparr>ps_closing := True\<rparr>) s"

text \<open>
  The loop that moves the messages of the old queue: it receives what the old queue holds, the
  buffered messages first, then those of the calls parked on it.
\<close>

fun push_drain :: "nat \<Rightarrow> message list \<Rightarrow> pushsock \<Rightarrow> pushsock" where
  "push_drain q [] s = s"
| "push_drain q (m # ms) s =
     (case try_send q m s of
        Some t \<Rightarrow> push_drain q ms t
      | None \<Rightarrow> push_drain q ms (Free (m_id m) s))"

definition push_resize :: "nat \<Rightarrow> pushsock \<Rightarrow> pushsock" where
  "push_resize n s =
     (let old = chans s (ps_sendQ s);
          (q, s1) = make_chan n s;
          s2 = s1\<lparr>ps_sendQLen := n, ps_sendQ := q, ps_sqs := insert q (ps_sqs s),
                  chans := (chans s1)(ps_sendQ s := old\<lparr>ch_buf := [], ch_offers := []\<rparr>),
                  ps_signals := ps_signals s + length (ch_offers old)\<rparr>
      in push_drain q (chan_contents old) s2)"

definition push_SetOption :: "string \<Rightarrow> optval \<Rightarrow> pushsock \<Rightarrow> pushsock \<times> status" where
  "push_SetOption name v s =
     (if name = OptionSendDeadline then set_field (asDuration v) (\<lambda>d s. s\<lparr>ps_sendExpire := d\<rparr>) s
      else if name = OptionBestEffort then set_field (asBool v) (\<lambda>b s. s\<lparr>ps_bestEffort := b\<rparr>) s
      else if name = OptionFailNoPeers then set_field (asBool v) (\<lambda>b s. s\<lparr>ps_failNoPeers := b\<rparr>) s
      else if name = OptionWriteQLen then set_field (asQLen v) push_resize s
      else (s, Some ErrBadOption))"

definition push_GetOption :: "string \<Rightarrow> pushsock \<Rightarrow> err + optval" where
  "push_GetOption name s =
     (if name = OptionRaw then Inr (VBool True)
      else if name = OptionSendDeadline then Inr (VDuration (ps_sendExpire s))
      else if name = OptionBestEffort then Inr (VBool (ps_bestEffort s))
      else if name = OptionWriteQLen then Inr (VInt (int (ps_sendQLen s)))
      else if name = OptionFailNoPeers then Inr (VBool (ps_failNoPeers s))
      else Inl ErrBadOption)"

definition push_Close :: "pushsock \<Rightarrow> pushsock \<times> status" where
  "push_Close s =
     (if ps_closed s then (s, Some ErrClosed)
      else
        (let s1 = s\<lparr>ps_closed := True, ps_awake := True\<rparr>
         in (if ps_closeQ s1 then s1\<lparr>panicked := True\<rparr> else s1\<lparr>ps_closeQ := True\<rparr>, None)))"

definition new_ppipe :: "u32 \<Rightarrow> ppipe" where
  "new_ppipe i = \<lparr>ps_ID = i, ps_pclosed = False, ps_pcloseQ = False, ps_out = [], ps_closing = False\<rparr>"

definition push_AddPipe :: "u32 \<Rightarrow> pushsock \<Rightarrow> pushsock \<times> status" where
  "push_AddPipe i s =
     (if ps_closed s then (s, Some ErrClosed)
      else ((upd_pp (ps_npipe s) (\<lambda>_. new_ppipe i) s)
              \<lparr>ps_npipe := Suc (ps_npipe s), ps_pipes := (ps_pipes s)(i \<mapsto> ps_npipe s),
               ps_readyQ := ps_readyQ s @ [ps_npipe s], ps_awake := True\<rparr>, None))"

definition close_noPeerQ :: "pushsock \<Rightarrow> pushsock" where
  "close_noPeerQ s =
     (if ps_npclosed s (ps_noPeerQ s) then s\<lparr>panicked := True\<rparr>
      else s\<lparr>ps_npclosed := (ps_npclosed s)(ps_noPeerQ s := True), ps_noPeerQ := Suc (ps_noPeerQ s)\<rparr>)"

definition push_RemovePipe :: "nat \<Rightarrow> pushsock \<Rightarrow> pushsock" where
  "push_RemovePipe p s =
     (if ps_pcloseQ (ps_pobj s p) then s\<lparr>panicked := True\<rparr>
      else
        (let s1 = (upd_pp p (\<lambda>x. x\<lparr>ps_pcloseQ := True, ps_pclosed := True\<rparr>) s)
                    \<lparr>ps_readyQ := remove1 p (ps_readyQ s), ps_pipes := (ps_pipes s)(ps_ID (ps_pobj s p) := None)\<rparr>
         in if ps_failNoPeers s1 \<and> ps_pipes s1 = Map.empty then close_noPeerQ s1 else s1))"

definition push_NewProtocol :: pushsock where
  "push_NewProtocol =
     \<lparr>refs = (\<lambda>_. 0), chans = (\<lambda>_. make_gochan 0)(1 := make_gochan 128), nchan = 2, panicked = False,
      ps_closed = False, ps_closeQ = False, ps_sendQ = 1, ps_sqs = {1}, ps_noPeerQ = 0, ps_npclosed = (\<lambda>_. False),
      ps_sendExpire = 0, ps_sendQLen = 128, ps_bestEffort = False, ps_failNoPeers = False, ps_readyQ = [],
      ps_pipes = Map.empty, ps_pobj = (\<lambda>_. (new_ppipe 0)\<lparr>ps_pclosed := True, ps_pcloseQ := True\<rparr>), ps_npipe = 0,
      ps_awake = True, ps_sexit = False, ps_signals = 0\<rparr>"

section \<open>Runs\<close>

inductive push_step :: "pushsock \<Rightarrow> pushsock \<Rightarrow> bool" where
  ph_try: "q \<in> ps_sqs s \<Longrightarrow> (s', r) \<in> set (push_SendMsg_try snap q m s) \<Longrightarrow> push_step s s'"
| ph_wait: "q \<in> ps_sqs s \<Longrightarrow> (s', r) \<in> set (push_SendMsg_wait f snap q m s) \<Longrightarrow> push_step s s'"
| ph_park: "q \<in> ps_sqs s \<Longrightarrow> push_step s (push_SendMsg_park snap q m s)"
| ph_unpark: "q \<in> ps_sqs s \<Longrightarrow> (s', r) \<in> set (push_SendMsg_unpark f snap q m s) \<Longrightarrow> push_step s s'"
| ph_signal: "push_step s (push_SendMsg_signal s)"
| ph_sender: "push_sender s = Some s' \<Longrightarrow> push_step s s'"
| ph_sent: "push_step s (push_send_done p m err s)"
| ph_receive: "push_step s (push_receiver_msg m s)"
| ph_rexit: "p < ps_npipe s \<Longrightarrow> push_step s (push_receiver_exit p s)"
| ph_set: "push_step s (fst (push_SetOption n v s))"
| ph_close: "push_step s (fst (push_Close s))"
| ph_add: "ps_pipes s i = None \<Longrightarrow> push_step s (fst (push_AddPipe i s))"
| ph_remove: "p < ps_npipe s \<Longrightarrow> \<not> ps_pcloseQ (ps_pobj s p) \<Longrightarrow> push_step s (push_RemovePipe p s)"

text \<open>
  The invariant, in four parts: the queues; the pipe table; the ready queue, which holds exactly
  the idle pipes, each once; and the condition variable.
\<close>

definition push_queues :: "pushsock \<Rightarrow> bool" where
  "push_queues s \<longleftrightarrow> \<not> panicked s \<and>
     (\<forall>q. length (ch_buf (chans s q)) \<le> ch_cap (chans s q) \<and> ch_rwait (chans s q) = 0 \<and> \<not> ch_closed (chans s q)) \<and>
     0 < ps_sendQ s \<and> (\<forall>q\<in>ps_sqs s. q < nchan s) \<and> ps_sendQ s \<in> ps_sqs s \<and>
     ch_cap (chans s (ps_sendQ s)) = ps_sendQLen s \<and>
     (\<forall>z. ps_npclosed s z \<longrightarrow> z < ps_noPeerQ s) \<and> (ps_closeQ s \<longrightarrow> ps_closed s)"

definition push_table :: "pushsock \<Rightarrow> bool" where
  "push_table s \<longleftrightarrow> (\<forall>i p. ps_pipes s i = Some p \<longleftrightarrow> p < ps_npipe s \<and> ps_ID (ps_pobj s p) = i \<and> \<not> ps_pclosed (ps_pobj s p)) \<and>
     (\<forall>p. ps_pcloseQ (ps_pobj s p) = ps_pclosed (ps_pobj s p))"

definition push_ready :: "pushsock \<Rightarrow> bool" where
  "push_ready s \<longleftrightarrow> distinct (ps_readyQ s) \<and>
     (\<forall>p\<in>set (ps_readyQ s). p < ps_npipe s \<and> \<not> ps_pclosed (ps_pobj s p) \<and> ps_out (ps_pobj s p) = []) \<and>
     (\<forall>p. length (ps_out (ps_pobj s p)) \<le> 1) \<and> (\<forall>p\<ge>ps_npipe s. ps_out (ps_pobj s p) = []) \<and>
     (\<forall>p<ps_npipe s. \<not> ps_closed s \<longrightarrow> \<not> ps_pclosed (ps_pobj s p) \<longrightarrow> \<not> ps_closing (ps_pobj s p) \<longrightarrow>
        ps_out (ps_pobj s p) = [] \<longrightarrow> p \<in> set (ps_readyQ s))"

definition push_awake :: "pushsock \<Rightarrow> bool" where
  "push_awake s \<longleftrightarrow> (ps_sexit s \<longrightarrow> ps_closed s) \<and>
     (\<not> ps_awake s \<longrightarrow> \<not> ps_closed s \<and>
        (ps_readyQ s = [] \<or> ch_buf (chans s (ps_sendQ s)) = [] \<or> 0 < ps_signals s))"

definition push_inv :: "pushsock \<Rightarrow> bool" where
  "push_inv s \<longleftrightarrow> push_queues s \<and> push_table s \<and> push_ready s \<and> push_awake s"


section \<open>The invariant holds\<close>

lemma upd_pp_simps [simp]:
  "ps_pobj (upd_pp p f s) = (ps_pobj s)(p := f (ps_pobj s p))" "refs (upd_pp p f s) = refs s" "chans (upd_pp p f s) = chans s"
  "nchan (upd_pp p f s) = nchan s" "panicked (upd_pp p f s) = panicked s" "ps_closed (upd_pp p f s) = ps_closed s"
  "ps_closeQ (upd_pp p f s) = ps_closeQ s" "ps_sendQ (upd_pp p f s) = ps_sendQ s" "ps_sqs (upd_pp p f s) = ps_sqs s"
  "ps_noPeerQ (upd_pp p f s) = ps_noPeerQ s" "ps_npclosed (upd_pp p f s) = ps_npclosed s"
  "ps_sendExpire (upd_pp p f s) = ps_sendExpire s" "ps_sendQLen (upd_pp p f s) = ps_sendQLen s"
  "ps_bestEffort (upd_pp p f s) = ps_bestEffort s" "ps_failNoPeers (upd_pp p f s) = ps_failNoPeers s"
  "ps_readyQ (upd_pp p f s) = ps_readyQ s" "ps_pipes (upd_pp p f s) = ps_pipes s" "ps_npipe (upd_pp p f s) = ps_npipe s"
  "ps_awake (upd_pp p f s) = ps_awake s" "ps_sexit (upd_pp p f s) = ps_sexit s" "ps_signals (upd_pp p f s) = ps_signals s"
  by (simp_all add: upd_pp_def)

lemma Free_pushsock [simp]:
  "ps_pobj (Free i s) = ps_pobj s" "ps_closed (Free i s) = ps_closed s" "ps_closeQ (Free i s) = ps_closeQ s"
  "ps_sendQ (Free i s) = ps_sendQ s" "ps_sqs (Free i s) = ps_sqs s" "ps_noPeerQ (Free i s) = ps_noPeerQ s"
  "ps_npclosed (Free i s) = ps_npclosed s" "ps_sendQLen (Free i s) = ps_sendQLen s" "ps_readyQ (Free i s) = ps_readyQ s"
  "ps_sendExpire (Free i s) = ps_sendExpire s" "ps_bestEffort (Free i s) = ps_bestEffort s"
  "ps_failNoPeers (Free i s) = ps_failNoPeers s"
  "ps_pipes (Free i s) = ps_pipes s" "ps_npipe (Free i s) = ps_npipe s" "ps_awake (Free i s) = ps_awake s"
  "ps_sexit (Free i s) = ps_sexit s" "ps_signals (Free i s) = ps_signals s"
  by (simp_all add: Free_def)

text \<open>
  Steps of \<^verbatim>\<open>SendMsg\<close> and of the drain loop touch only queues, references and the count of calls
  that have to signal; a message may appear in the send queue only when that count grows.
\<close>

definition only_queues :: "pushsock \<Rightarrow> pushsock \<Rightarrow> bool" where
  "only_queues s t \<longleftrightarrow> panicked t = panicked s \<and> nchan t = nchan s \<and> ps_closed t = ps_closed s \<and> ps_closeQ t = ps_closeQ s \<and>
     ps_sendQ t = ps_sendQ s \<and> ps_sqs t = ps_sqs s \<and> ps_noPeerQ t = ps_noPeerQ s \<and> ps_npclosed t = ps_npclosed s \<and>
     ps_sendQLen t = ps_sendQLen s \<and> ps_readyQ t = ps_readyQ s \<and> ps_pipes t = ps_pipes s \<and> ps_pobj t = ps_pobj s \<and>
     ps_npipe t = ps_npipe s \<and> ps_awake t = ps_awake s \<and> ps_sexit t = ps_sexit s \<and>
     (\<forall>q. ch_cap (chans t q) = ch_cap (chans s q) \<and> ch_rwait (chans t q) = ch_rwait (chans s q) \<and>
        ch_closed (chans t q) = ch_closed (chans s q) \<and>
        (length (ch_buf (chans s q)) \<le> ch_cap (chans s q) + ch_rwait (chans s q) \<longrightarrow>
         length (ch_buf (chans t q)) \<le> ch_cap (chans s q) + ch_rwait (chans s q)))"

definition heeds :: "pushsock \<Rightarrow> pushsock \<Rightarrow> bool" where
  "heeds s t \<longleftrightarrow> ps_signals s \<le> ps_signals t \<and>
     (ch_buf (chans s (ps_sendQ s)) = [] \<longrightarrow> ch_buf (chans t (ps_sendQ s)) = [] \<or> 0 < ps_signals t)"

lemma push_table_cong:
  "ps_pipes t = ps_pipes s \<Longrightarrow> ps_pobj t = ps_pobj s \<Longrightarrow> ps_npipe t = ps_npipe s \<Longrightarrow> push_table s \<Longrightarrow> push_table t"
  by (simp add: push_table_def)

lemma push_ready_cong:
  "ps_readyQ t = ps_readyQ s \<Longrightarrow> ps_pobj t = ps_pobj s \<Longrightarrow> ps_npipe t = ps_npipe s \<Longrightarrow> ps_closed t = ps_closed s \<Longrightarrow>
   push_ready s \<Longrightarrow> push_ready t"
  by (simp add: push_ready_def)

lemma push_queues_cong:
  "panicked t = panicked s \<Longrightarrow> chans t = chans s \<Longrightarrow> nchan t = nchan s \<Longrightarrow> ps_sendQ t = ps_sendQ s \<Longrightarrow> ps_sqs t = ps_sqs s \<Longrightarrow>
   ps_sendQLen t = ps_sendQLen s \<Longrightarrow> ps_noPeerQ t = ps_noPeerQ s \<Longrightarrow> ps_npclosed t = ps_npclosed s \<Longrightarrow>
   ps_closeQ t = ps_closeQ s \<Longrightarrow> ps_closed t = ps_closed s \<Longrightarrow> push_queues s \<Longrightarrow> push_queues t"
  by (simp add: push_queues_def)

lemmas push_congs = push_table_cong push_ready_cong push_queues_cong

lemma push_readyD:
  assumes "push_ready s"
  shows "distinct (ps_readyQ s)" "p \<in> set (ps_readyQ s) \<Longrightarrow> p < ps_npipe s" "p \<in> set (ps_readyQ s) \<Longrightarrow> \<not> ps_pclosed (ps_pobj s p)"
    "p \<in> set (ps_readyQ s) \<Longrightarrow> ps_out (ps_pobj s p) = []" "length (ps_out (ps_pobj s p)) \<le> 1"
    "ps_npipe s \<le> p \<Longrightarrow> ps_out (ps_pobj s p) = []"
    "\<not> ps_closed s \<Longrightarrow> p < ps_npipe s \<Longrightarrow> \<not> ps_pclosed (ps_pobj s p) \<Longrightarrow> \<not> ps_closing (ps_pobj s p) \<Longrightarrow>
     ps_out (ps_pobj s p) = [] \<Longrightarrow> p \<in> set (ps_readyQ s)"
  using assms by (simp_all add: push_ready_def)

text \<open>The ready queue after the object of pipe \<open>p\<close> became \<open>x\<close>.\<close>

lemma push_ready_upd:
  assumes r: "push_ready s" and t: "ps_pobj t = (ps_pobj s)(p := x)" "ps_npipe t = ps_npipe s" "ps_closed t = ps_closed s"
    and p: "p < ps_npipe s" and x: "length (ps_out x) \<le> 1" and q: "distinct (ps_readyQ t)"
    and old: "\<And>r. r \<noteq> p \<Longrightarrow> r \<in> set (ps_readyQ t) \<longleftrightarrow> r \<in> set (ps_readyQ s)"
    and new: "p \<in> set (ps_readyQ t) \<Longrightarrow> \<not> ps_pclosed x \<and> ps_out x = []"
      "\<not> ps_closed s \<Longrightarrow> \<not> ps_pclosed x \<Longrightarrow> \<not> ps_closing x \<Longrightarrow> ps_out x = [] \<Longrightarrow> p \<in> set (ps_readyQ t)"
  shows "push_ready t"
  unfolding push_ready_def t
proof (intro conjI ballI allI impI)
  fix r
  note d = push_readyD(1) [OF r] push_readyD(2-7) [OF r, of r]
  show "length (ps_out (((ps_pobj s)(p := x)) r)) \<le> 1" using d(5) x by simp
  show "ps_out (((ps_pobj s)(p := x)) r) = []" if "ps_npipe s \<le> r" using that d(6) p by auto
  show "r < ps_npipe s" "\<not> ps_pclosed (((ps_pobj s)(p := x)) r)" "ps_out (((ps_pobj s)(p := x)) r) = []" if "r \<in> set (ps_readyQ t)"
    using that old [of r] new(1) d(2-4) p by (cases "r = p"; simp)+
  show "r \<in> set (ps_readyQ t)" if "r < ps_npipe s" "\<not> ps_closed s" "\<not> ps_pclosed (((ps_pobj s)(p := x)) r)"
      "\<not> ps_closing (((ps_pobj s)(p := x)) r)" "ps_out (((ps_pobj s)(p := x)) r) = []"
    using that old [of r] new(2) d(7) by (cases "r = p"; simp)
qed (rule q)

lemma push_invD:
  assumes "push_inv s"
  shows "push_queues s" "push_table s" "push_ready s" "push_awake s"
  using assms by (simp_all add: push_inv_def)

lemma only_queues_parts:
  assumes o: "only_queues s t" and q: "push_queues s" and tb: "push_table s" and r: "push_ready s"
  shows "push_queues t" "push_table t" "push_ready t"
proof -
  show "push_table t" using o by (intro push_table_cong [OF _ _ _ tb]) (simp_all only: only_queues_def)
  show "push_ready t" using o by (intro push_ready_cong [OF _ _ _ _ r]) (simp_all only: only_queues_def)
  show "push_queues t" using o q unfolding only_queues_def push_queues_def by (metis add.right_neutral)
qed

lemma only_queues_inv:
  assumes o: "only_queues s t" and h: "heeds s t" and inv: "push_inv s"
  shows "push_inv t"
proof -
  note d = push_invD [OF inv]
  have "push_awake t"
    using o h d(4) unfolding only_queues_def push_awake_def heeds_def by (metis less_le_trans)
  then show ?thesis using only_queues_parts [OF o d(1-3)] by (simp add: push_inv_def)
qed

lemma only_queues_refl [simp]: "only_queues s s" "only_queues s (Free i s)" "heeds s s" "heeds s (Free i s)"
  by (simp_all add: only_queues_def heeds_def)

lemma only_queues_trans: "only_queues s t \<Longrightarrow> only_queues t u \<Longrightarrow> only_queues s u"
  by (simp add: only_queues_def)

lemma only_queues_send: "\<not> ch_closed (chans s q) \<Longrightarrow> try_send q m s = Some t \<Longrightarrow> only_queues s t"
  by (auto simp: only_queues_def try_send_def chan_room_def split: if_splits)

lemma push_send_case_only:
  assumes inv: "push_inv s" and r: "push_send_case q m s = Some (t, e)"
  shows "only_queues s t \<and> heeds s t"
proof -
  have "\<not> ch_closed (chans s q)" using inv by (simp add: push_inv_def push_queues_def)
  then show ?thesis using r
    by (auto simp: push_send_case_def try_send_def chan_room_def only_queues_def heeds_def split: if_splits)
qed

lemma push_give_up_only: "(t, e) \<in> set (push_give_up f snap m s) \<Longrightarrow> t = s \<or> t = Free (m_id m) s"
  by (auto simp: push_give_up_def set_ready_cases split: prod.splits if_splits)

lemma push_give_up_inv: "push_inv s \<Longrightarrow> (t, e) \<in> set (push_give_up f snap m s) \<Longrightarrow> push_inv t"
  using push_give_up_only only_queues_inv by (metis only_queues_refl)

lemma push_offers_inv: "push_inv s \<Longrightarrow> push_inv (s\<lparr>chans := (chans s)(q := (chans s q)\<lparr>ch_offers := xs\<rparr>)\<rparr>)"
  by (rule only_queues_inv) (auto simp: only_queues_def heeds_def)

lemma push_SendMsg_inv:
  assumes inv: "push_inv s"
  shows "(t, e) \<in> set (push_SendMsg_try snap q m s) \<Longrightarrow> push_inv t"
    and "(t, e) \<in> set (push_SendMsg_wait f snap q m s) \<Longrightarrow> push_inv t"
    and "push_inv (push_SendMsg_park snap q m s)"
    and "(t, e) \<in> set (push_SendMsg_unpark f snap q m s) \<Longrightarrow> push_inv t"
proof -
  have sent: "push_inv t" if "push_send_case q m s = Some (t, e)"
    using push_send_case_only [OF inv that] only_queues_inv inv by blast
  show "push_inv t" if "(t, e) \<in> set (push_SendMsg_try snap q m s)"
    using that sent inv by (auto simp: push_SendMsg_try_def set_ready_cases split: prod.splits)
  show "push_inv t" if "(t, e) \<in> set (push_SendMsg_wait f snap q m s)"
    using that sent push_give_up_inv [OF inv, of t e f snap m] by (auto simp: push_SendMsg_wait_def set_ready_cases)
  show "push_inv (push_SendMsg_park snap q m s)"
    using inv push_offers_inv [OF inv] by (auto simp: push_SendMsg_park_def chan_park_send_def)
  show "push_inv t" if "(t, e) \<in> set (push_SendMsg_unpark f snap q m s)"
    using that push_give_up_inv [OF push_offers_inv [OF inv], of t e f snap m] by (auto simp: push_SendMsg_unpark_def split: if_splits)
qed

lemma push_signal_inv: "push_inv s \<Longrightarrow> push_inv (push_SendMsg_signal s)"
proof -
  assume inv: "push_inv s"
  let ?t = "push_SendMsg_signal s"
  have "push_table ?t" by (rule push_table_cong [OF _ _ _ push_invD(2) [OF inv]]) (simp_all add: push_SendMsg_signal_def)
  moreover have "push_ready ?t" by (rule push_ready_cong [OF _ _ _ _ push_invD(3) [OF inv]]) (simp_all add: push_SendMsg_signal_def)
  moreover have "push_queues ?t"
    by (rule push_queues_cong [OF _ _ _ _ _ _ _ _ _ _ push_invD(1) [OF inv]]) (simp_all add: push_SendMsg_signal_def)
  moreover have "push_awake ?t" using push_invD(4) [OF inv] by (auto simp: push_SendMsg_signal_def push_awake_def)
  ultimately show ?thesis by (simp add: push_inv_def)
qed


text \<open>The sender hands the oldest message to the pipe that has been idle longest.\<close>

lemma push_sender_dispatch:
  assumes inv: "push_inv s" and a: "ps_awake s" "\<not> ps_closed s" and r: "ps_readyQ s = p # ps"
    and b: "ch_buf (chans s (ps_sendQ s)) = m # ms"
  shows "push_sender s = Some (upd_pp p (\<lambda>x. x\<lparr>ps_out := [m]\<rparr>)
    (s\<lparr>chans := (chans s)(ps_sendQ s := (chans s (ps_sendQ s))
          \<lparr>ch_buf := ms @ take 1 (ch_offers (chans s (ps_sendQ s))), ch_offers := drop 1 (ch_offers (chans s (ps_sendQ s)))\<rparr>),
       ps_signals := ps_signals s + min 1 (length (ch_offers (chans s (ps_sendQ s)))), ps_readyQ := ps\<rparr>))"
proof -
  have "ps_out (ps_pobj s p) = []" using push_invD(3) [OF inv] r by (simp add: push_ready_def)
  moreover have "\<not> ps_sexit s" using push_invD(4) [OF inv] a by (auto simp: push_awake_def)
  ultimately show ?thesis using a r b
    by (cases "ch_offers (chans s (ps_sendQ s))") (simp_all add: push_sender_def chan_pop_def upd_pp_def)
qed

lemma push_dispatch_inv:
  assumes inv: "push_inv s" and a: "ps_awake s" "\<not> ps_closed s" and r: "ps_readyQ s = p # ps"
    and b: "ch_buf (chans s (ps_sendQ s)) = m # ms"
    and t: "push_sender s = Some t"
  shows "push_inv t"
proof -
  let ?c = "chans s (ps_sendQ s)"
  note d = push_invD [OF inv]
  note t = t [unfolded push_sender_dispatch [OF inv a r b] option.inject, symmetric]
  have "push_table t" using d(2) unfolding push_table_def t by simp
  moreover have "push_ready t"
    using push_readyD(1) [OF d(3)] push_readyD(2-7) [OF d(3), of p] r
    by (intro push_ready_upd [OF d(3), of t p "(ps_pobj s p)\<lparr>ps_out := [m]\<rparr>"]) (auto simp: t)
  moreover have "push_awake t" using d(4) a unfolding push_awake_def t by simp
  moreover have "length (ms @ take 1 (ch_offers ?c)) \<le> ch_cap ?c"
  proof -
    have "length (m # ms) \<le> ch_cap ?c" using d(1) b unfolding push_queues_def by metis
    then show ?thesis by simp
  qed
  then have "push_queues t" using d(1) unfolding push_queues_def t by simp
  ultimately show ?thesis by (simp add: push_inv_def)
qed

lemma push_sender_inv:
  assumes inv: "push_inv s" and t: "push_sender s = Some t"
  shows "push_inv t"
proof -
  note d = push_invD [OF inv]
  have a: "ps_awake s" "\<not> ps_sexit s" using t by (auto simp: push_sender_def split: if_splits)
  show ?thesis
  proof (cases "ps_closed s \<or> ps_readyQ s = [] \<or> ch_buf (chans s (ps_sendQ s)) = []")
    case True
    then have "t = s\<lparr>ps_sexit := True\<rparr> \<and> ps_closed s \<or>
        t = s\<lparr>ps_awake := False\<rparr> \<and> \<not> ps_closed s \<and> (ps_readyQ s = [] \<or> ch_buf (chans s (ps_sendQ s)) = [])"
      using t a by (auto simp: push_sender_def split: if_splits)
    then show ?thesis
      using d a push_table_cong [OF _ _ _ d(2), of t] push_ready_cong [OF _ _ _ _ d(3), of t]
        push_queues_cong [OF _ _ _ _ _ _ _ _ _ _ d(1), of t]
      by (elim disjE) (simp_all add: push_inv_def push_awake_def, blast)
  next
    case False
    then obtain p ps m ms where "ps_readyQ s = p # ps" "ch_buf (chans s (ps_sendQ s)) = m # ms" "\<not> ps_closed s"
      by (auto simp: neq_Nil_conv)
    then show ?thesis using push_dispatch_inv [OF inv a(1)] t by blast
  qed
qed

lemma push_send_done_inv:
  assumes inv: "push_inv s"
  shows "push_inv (push_send_done p m err s)"
proof (cases "m \<in> set (ps_out (ps_pobj s p))")
  case False
  then show ?thesis using inv by (simp add: push_send_done_def)
next
  case True
  note d = push_invD [OF inv]
  have le: "length (ps_out (ps_pobj s p)) \<le> 1" using d(3) by (simp add: push_ready_def)
  then have o: "ps_out (ps_pobj s p) = [m]" using True by (cases "ps_out (ps_pobj s p)") auto
  then have p: "p < ps_npipe s" "p \<notin> set (ps_readyQ s)"
    using d(3) unfolding push_ready_def by (metis list.distinct(1) not_le, metis list.distinct(1))
  let ?t = "push_send_done p m err s"
  define x where "x = (ps_pobj s p)\<lparr>ps_out := [], ps_closing := ps_closing (ps_pobj s p) \<or> err \<noteq> None\<rparr>"
  have x: "ps_out x = []" "ps_pclosed x = ps_pclosed (ps_pobj s p)" "ps_pcloseQ x = ps_pcloseQ (ps_pobj s p)"
    "ps_ID x = ps_ID (ps_pobj s p)" "ps_closing x = (ps_closing (ps_pobj s p) \<or> err \<noteq> None)"
    by (simp_all add: x_def)
  have g: "ps_npipe ?t = ps_npipe s" "ps_closed ?t = ps_closed s" "ps_sexit ?t = ps_sexit s" "chans ?t = chans s" "ps_sendQ ?t = ps_sendQ s"
    "ps_signals ?t = ps_signals s" "ps_pipes ?t = ps_pipes s" "ps_pobj ?t = (ps_pobj s)(p := x)"
    "ps_readyQ ?t = (if err = None \<and> \<not> ps_closed s \<and> \<not> ps_pclosed (ps_pobj s p) then ps_readyQ s @ [p] else ps_readyQ s)"
    "ps_awake ?t = (ps_awake s \<or> err = None \<and> \<not> ps_closed s \<and> \<not> ps_pclosed (ps_pobj s p))"
    using True by (cases err; simp add: push_send_done_def Let_def o x_def)+
  have "push_queues ?t"
    by (rule push_queues_cong [OF _ _ _ _ _ _ _ _ _ _ d(1)]) (simp_all add: push_send_done_def Let_def)
  moreover have "push_table ?t" using d(2) unfolding push_table_def g by (auto simp: x)
  moreover have "push_awake ?t" using d(4) unfolding push_awake_def g by auto
  moreover have "push_ready ?t"
    using p push_readyD(1) [OF d(3)] g(9)
    by (intro push_ready_upd [OF d(3) g(8,1,2)]) (auto simp: x(1,2,5) split: if_splits)
  ultimately show ?thesis by (simp add: push_inv_def)
qed


lemma push_drain_only:
  "\<not> ch_closed (chans s q) \<Longrightarrow> only_queues s (push_drain q ms s) \<and> ps_signals (push_drain q ms s) = ps_signals s"
proof (induction ms arbitrary: s)
  case (Cons m ms)
  show ?case
  proof (cases "try_send q m s")
    case None
    then show ?thesis using Cons.IH [of "Free (m_id m) s"] Cons.prems only_queues_trans [of s "Free (m_id m) s"] by simp
  next
    case (Some t)
    note o = only_queues_send [OF Cons.prems Some]
    have "ps_signals t = ps_signals s" using Some Cons.prems by (auto simp: try_send_def split: if_splits)
    moreover have "\<not> ch_closed (chans t q)" using o Cons.prems by (simp add: only_queues_def)
    ultimately show ?thesis using Cons.IH [of t] only_queues_trans [OF o] Some by simp
  qed
qed simp

lemma push_resize_inv:
  assumes inv: "push_inv s"
  shows "push_inv (push_resize n s)"
proof -
  note d = push_invD [OF inv]
  let ?old = "chans s (ps_sendQ s)"
  let ?q = "nchan s"
  define u where "u = s\<lparr>nchan := Suc ?q, ps_sendQLen := n, ps_sendQ := ?q, ps_sqs := insert ?q (ps_sqs s),
     chans := ((chans s)(?q := make_gochan n))(ps_sendQ s := ?old\<lparr>ch_buf := [], ch_offers := []\<rparr>),
     ps_signals := ps_signals s + length (ch_offers ?old)\<rparr>"
  have r: "push_resize n s = push_drain ?q (chan_contents ?old) u"
    by (simp add: push_resize_def make_chan_def u_def Let_def)
  have ne: "ps_sendQ s < ?q" using d(1) by (auto simp: push_queues_def)
  have q: "push_queues u"
    using d(1) ne unfolding push_queues_def u_def by (auto simp: less_SucI)
  have tb: "push_table u" by (rule push_table_cong [OF _ _ _ d(2)]) (simp_all add: u_def)
  have rd: "push_ready u" by (rule push_ready_cong [OF _ _ _ _ d(3)]) (simp_all add: u_def)
  have "\<not> ch_closed (chans u ?q)" using q by (simp add: push_queues_def)
  note o = push_drain_only [OF this, of "chan_contents ?old"]
  have f: "ps_closed u = ps_closed s" "ps_awake u = ps_awake s" "ps_sexit u = ps_sexit s" "ps_readyQ u = ps_readyQ s"
    "ps_signals u = ps_signals s + length (ch_offers ?old)" "ps_sendQ u = ?q" "ch_buf (chans u ?q) = []"
    using ne by (simp_all add: u_def)
  have "push_awake (push_resize n s)"
  proof (cases "chan_contents ?old = []")
    case True
    then show ?thesis using d(4) f unfolding r push_awake_def by (simp add: chan_contents_def)
  next
    case False
    then have "ch_buf ?old = [] \<Longrightarrow> 0 < ps_signals u" using f(5) by (simp add: chan_contents_def)
    then show ?thesis using d(4) o f(1-6) unfolding r push_awake_def only_queues_def by (metis add_gr_0)
  qed
  then show ?thesis using only_queues_parts [OF conjunct1 [OF o] q tb rd] unfolding push_inv_def r by blast
qed

lemma push_SetOption_inv: "push_inv s \<Longrightarrow> push_inv (fst (push_SetOption n v s))"
proof (rule afterD)
  assume inv: "push_inv s"
  note d = push_invD [OF inv]
  have "push_inv t" if "only_queues s t" "heeds s t" for t using only_queues_inv [OF that inv] .
  then have "push_inv (s\<lparr>ps_sendExpire := a\<rparr>)" "push_inv (s\<lparr>ps_bestEffort := b\<rparr>)" "push_inv (s\<lparr>ps_failNoPeers := b\<rparr>)" for a b
    by (simp_all add: only_queues_def heeds_def)
  then show "after push_inv (push_SetOption n v s)" by (simp add: push_SetOption_def inv push_resize_inv)
qed

lemma push_Close_inv:
  assumes inv: "push_inv s"
  shows "push_inv (fst (push_Close s))"
proof (cases "ps_closed s")
  case False
  note d = push_invD [OF inv]
  let ?t = "fst (push_Close s)"
  have t: "?t = s\<lparr>ps_closed := True, ps_awake := True, ps_closeQ := True\<rparr>"
    using False d(1) by (auto simp: push_Close_def push_queues_def)
  have "push_table ?t" by (rule push_table_cong [OF _ _ _ d(2)]) (simp_all add: t)
  moreover have "push_queues ?t" using d(1) by (simp add: push_queues_def t)
  moreover have "push_ready ?t" using d(3) by (simp add: push_ready_def t)
  ultimately show ?thesis by (simp add: push_inv_def push_awake_def t)
qed (simp add: push_Close_def inv)

lemma push_AddPipe_inv:
  assumes inv: "push_inv s" and i: "ps_pipes s i = None"
  shows "push_inv (fst (push_AddPipe i s))"
proof (cases "ps_closed s")
  case False
  note d = push_invD [OF inv]
  let ?t = "fst (push_AddPipe i s)"
  have t: "ps_npipe ?t = Suc (ps_npipe s)" "ps_pipes ?t = (ps_pipes s)(i \<mapsto> ps_npipe s)" "ps_readyQ ?t = ps_readyQ s @ [ps_npipe s]"
    "ps_awake ?t" "ps_pobj ?t = (ps_pobj s)(ps_npipe s := new_ppipe i)" "ps_closed ?t = ps_closed s" "ps_sexit ?t = ps_sexit s"
    using False by (simp_all add: push_AddPipe_def)
  have n: "\<not> (p < ps_npipe s \<and> ps_ID (ps_pobj s p) = i \<and> \<not> ps_pclosed (ps_pobj s p))" for p
    using d(2) i unfolding push_table_def by (metis option.distinct(1))
  have m: "ps_pipes s j \<noteq> Some (ps_npipe s)" for j
    using d(2) unfolding push_table_def by (metis less_irrefl)
  have "push_queues ?t"
    by (rule push_queues_cong [OF _ _ _ _ _ _ _ _ _ _ d(1)]) (simp_all add: push_AddPipe_def)
  moreover have "push_table ?t"
    using d(2) n m unfolding push_table_def t by (auto simp: new_ppipe_def less_Suc_eq)
  moreover have "push_ready ?t"
    using d(3) unfolding push_ready_def t by (auto simp: new_ppipe_def less_Suc_eq)
  moreover have "push_awake ?t" using d(4) unfolding push_awake_def t(6,7) by (simp add: t(4))
  ultimately show ?thesis by (simp add: push_inv_def)
qed (simp add: push_AddPipe_def inv)

lemma push_RemovePipe_inv:
  assumes inv: "push_inv s" and p: "p < ps_npipe s" "\<not> ps_pcloseQ (ps_pobj s p)"
  shows "push_inv (push_RemovePipe p s)"
proof -
  note d = push_invD [OF inv]
  let ?t = "push_RemovePipe p s"
  have z: "\<not> ps_npclosed s (ps_noPeerQ s)" using d(1) unfolding push_queues_def by blast
  have t: "ps_npipe ?t = ps_npipe s" "ps_pipes ?t = (ps_pipes s)(ps_ID (ps_pobj s p) := None)" "ps_readyQ ?t = remove1 p (ps_readyQ s)"
    "ps_awake ?t = ps_awake s" "ps_pobj ?t = (ps_pobj s)(p := (ps_pobj s p)\<lparr>ps_pcloseQ := True, ps_pclosed := True\<rparr>)"
    "ps_closed ?t = ps_closed s" "ps_sexit ?t = ps_sexit s" "chans ?t = chans s" "ps_sendQ ?t = ps_sendQ s" "ps_signals ?t = ps_signals s"
    using p z by (simp_all add: push_RemovePipe_def Let_def close_noPeerQ_def)
  have q: "panicked ?t = panicked s" "nchan ?t = nchan s" "ps_sqs ?t = ps_sqs s" "ps_sendQLen ?t = ps_sendQLen s" "ps_closeQ ?t = ps_closeQ s"
    "\<forall>z. ps_npclosed ?t z \<longrightarrow> z < ps_noPeerQ ?t"
    using p z d(1) by (simp_all add: push_RemovePipe_def Let_def close_noPeerQ_def push_queues_def less_SucI)
  have pq: "\<not> ps_pclosed (ps_pobj s p)" "\<And>q. ps_pcloseQ (ps_pobj s q) = ps_pclosed (ps_pobj s q)"
    using d(2) p by (simp_all add: push_table_def)
  then have tp: "ps_pipes s (ps_ID (ps_pobj s p)) = Some p" using d(2) p unfolding push_table_def by blast
  have uniq: "r = p" if "r < ps_npipe s" "ps_ID (ps_pobj s r) = ps_ID (ps_pobj s p)" "\<not> ps_pclosed (ps_pobj s r)" for r
    using d(2) that tp unfolding push_table_def by (metis option.inject)
  have "push_queues ?t" using d(1) q unfolding push_queues_def t q(1-5) by blast
  moreover have "push_table ?t"
    using d(2) tp p pq uniq unfolding push_table_def t by (auto split: if_splits)
  moreover have "push_ready ?t"
    using p push_readyD(1) [OF d(3)] push_readyD(5) [OF d(3), of p] by (intro push_ready_upd [OF d(3) t(5,1,6)]) (auto simp: t(3))
  moreover have "push_awake ?t" using d(4) unfolding push_awake_def t by auto
  ultimately show ?thesis by (simp add: push_inv_def)
qed


lemma push_rexit_inv:
  assumes inv: "push_inv s" and p: "p < ps_npipe s"
  shows "push_inv (push_receiver_exit p s)"
proof -
  note d = push_invD [OF inv]
  let ?t = "push_receiver_exit p s"
  let ?x = "(ps_pobj s p)\<lparr>ps_closing := True\<rparr>"
  have "push_queues ?t"
    by (rule push_queues_cong [OF _ _ _ _ _ _ _ _ _ _ d(1)]) (simp_all add: push_receiver_exit_def)
  moreover have "push_table ?t" using d(2) by (auto simp: push_table_def push_receiver_exit_def)
  moreover have "push_ready ?t"
  proof (rule push_ready_upd [OF d(3), of ?t p ?x])
    show "distinct (ps_readyQ ?t)" "length (ps_out ?x) \<le> 1"
      using push_readyD(1,5) [OF d(3)] by (simp_all add: push_receiver_exit_def)
    show "\<not> ps_pclosed ?x \<and> ps_out ?x = []" if "p \<in> set (ps_readyQ ?t)"
      using that push_readyD(3,4) [OF d(3), of p] by (simp add: push_receiver_exit_def)
  qed (simp_all add: push_receiver_exit_def p)
  moreover have "push_awake ?t" using d(4) by (simp add: push_awake_def push_receiver_exit_def)
  ultimately show ?thesis by (simp add: push_inv_def)
qed

lemma push_step_inv: "push_step s t \<Longrightarrow> push_inv s \<Longrightarrow> push_inv t"
proof (induction rule: push_step.induct)
  case (ph_receive s m)
  then show ?case using only_queues_inv [of s "Free (m_id m) s"] by (simp add: push_receiver_msg_def)
qed (auto dest: push_SendMsg_inv push_sender_inv
    intro: push_SendMsg_inv(3) push_signal_inv push_send_done_inv push_rexit_inv push_SetOption_inv push_Close_inv
      push_AddPipe_inv push_RemovePipe_inv)

interpretation push: machine "\<lambda>s. s = push_NewProtocol" push_step push_inv
proof unfold_locales
  show "push_inv s" if "s = push_NewProtocol" for s
    using that
    by (simp add: push_inv_def push_NewProtocol_def push_queues_def push_table_def push_ready_def push_awake_def new_ppipe_def)
  show "push_inv t" if "push_inv s" "push_step s t" for s t using that push_step_inv by blast
qed

text \<open>Nothing is ever taken out of a queue that has been replaced.\<close>

lemma push_drain_other: "r \<noteq> q \<Longrightarrow> chans (push_drain q ms s) r = chans s r"
  by (induction q ms s rule: push_drain.induct) (auto simp: try_send_def split: option.splits if_splits)

lemma push_drain_sqs [simp]: "ps_sqs (push_drain q ms s) = ps_sqs s" "ps_sendQ (push_drain q ms s) = ps_sendQ s"
  by (induction q ms s rule: push_drain.induct) (auto simp: try_send_def split: option.splits if_splits)

definition stale :: "nat \<Rightarrow> pushsock \<Rightarrow> bool" where
  "stale q s \<longleftrightarrow> q \<in> ps_sqs s \<and> q \<noteq> ps_sendQ s"

definition keeps :: "nat \<Rightarrow> pushsock \<Rightarrow> pushsock \<Rightarrow> bool" where
  "keeps q s t \<longleftrightarrow> stale q t \<and> (\<exists>xs. ch_buf (chans t q) = ch_buf (chans s q) @ xs)"

lemma keeps_same: "stale q s \<Longrightarrow> ps_sqs t = ps_sqs s \<Longrightarrow> ps_sendQ t = ps_sendQ s \<Longrightarrow> ch_buf (chans t q) = ch_buf (chans s q) \<Longrightarrow> keeps q s t"
  by (simp add: keeps_def stale_def)

lemma keeps_trans: "keeps q s t \<Longrightarrow> keeps q t u \<Longrightarrow> keeps q s u"
  by (auto simp: keeps_def)

lemma keeps_send: "stale q s \<Longrightarrow> push_send_case r m s = Some (t, e) \<Longrightarrow> keeps q s t"
  by (auto simp: push_send_case_def try_send_def keeps_def stale_def split: if_splits)

lemma keeps_give_up: "stale q s \<Longrightarrow> (t, e) \<in> set (push_give_up f snap m s) \<Longrightarrow> keeps q s t"
  using push_give_up_only [of t e f snap m s] by (auto simp: keeps_def stale_def)

lemma keeps_offers: "stale q s \<Longrightarrow> keeps q s (s\<lparr>chans := (chans s)(r := (chans s r)\<lparr>ch_offers := xs\<rparr>)\<rparr>)"
  by (rule keeps_same) auto

lemma keeps_resize: "push_inv s \<Longrightarrow> stale q s \<Longrightarrow> keeps q s (push_resize n s)"
  by (auto simp: push_resize_def make_chan_def push_drain_other keeps_def stale_def push_inv_def push_queues_def Let_def)

lemma push_step_keeps: "push_step s t \<Longrightarrow> push_inv s \<Longrightarrow> stale q s \<Longrightarrow> keeps q s t"
proof (induction rule: push_step.induct)
  case (ph_try q s s' r snap m)
  then show ?case
    by (auto simp: push_SendMsg_try_def set_ready_cases intro: keeps_send keeps_same split: prod.splits)
next
  case (ph_wait q s s' r f snap m)
  then show ?case
    by (auto simp: push_SendMsg_wait_def set_ready_cases intro: keeps_send keeps_give_up)
next
  case (ph_park q s snap m)
  then show ?case using keeps_offers by (auto simp: push_SendMsg_park_def chan_park_send_def intro: keeps_same)
next
  case (ph_unpark r s s' e f snap m)
  note k = keeps_offers [OF ph_unpark(4), of r "remove1 m (ch_offers (chans s r))"]
  then show ?case using ph_unpark keeps_trans [OF k keeps_give_up]
    by (auto simp: push_SendMsg_unpark_def keeps_def split: if_splits)
next
  case (ph_sender s s')
  then show ?case
    by (auto simp: push_sender_def stale_def intro!: keeps_same split: if_splits option.splits)
next
  case (ph_set s n v)
  then have k: "keeps q s (push_resize k s)" for k using keeps_resize by blast
  have "after (keeps q s) (push_SetOption n v s)"
    using ph_set k by (simp add: push_SetOption_def) (auto intro: keeps_same)
  then show ?case by (rule afterD)
qed (auto simp: push_SendMsg_signal_def push_send_done_def Let_def push_receiver_msg_def push_receiver_exit_def push_Close_def
    push_AddPipe_def push_RemovePipe_def close_noPeerQ_def intro!: keeps_same)

lemma push_steps_keep:
  assumes "push_step\<^sup>*\<^sup>* s t" and "push_inv s" and "stale q s"
  shows "keeps q s t"
  using assms
proof (induction rule: rtranclp_induct)
  case base
  then show ?case by (auto intro: keeps_same)
next
  case (step t u)
  then have "keeps q s t" "push_inv t" using push.steps_inv by blast+
  then show ?case using push_step_keeps [OF step(2)] keeps_trans by (auto simp: keeps_def)
qed


section \<open>Properties\<close>

text \<open>
  C21: No wake-up is lost. Whenever an open PUSH socket, in any reachable state, has a message in its
  send queue and an idle pipe, the sender goroutine is running or a call of \<^verbatim>\<open>SendMsg\<close> is about to
  signal it, and its next turn hands the oldest message to the pipe that has been idle longest. That
  pipe is attached and has nothing else in flight, and no attached pipe that is idle and not being
  closed is missing from the ready queue.
\<close>

theorem push_dispatches:
  assumes run: "push_step\<^sup>*\<^sup>* push_NewProtocol s" and o: "\<not> ps_closed s"
    and r: "ps_readyQ s = p # ps" and b: "ch_buf (chans s (ps_sendQ s)) = m # ms"
  shows "\<exists>t u. (t = s \<and> ps_awake s \<or> t = push_SendMsg_signal s \<and> 0 < ps_signals s) \<and> push_sender t = Some u \<and>
      ps_out (ps_pobj u p) = [m] \<and> ps_readyQ u = ps \<and> take (length ms) (ch_buf (chans u (ps_sendQ u))) = ms \<and>
      p < ps_npipe s \<and> \<not> ps_pclosed (ps_pobj s p) \<and> ps_out (ps_pobj s p) = [] \<and>
      (\<forall>k < ps_npipe s. \<not> ps_pclosed (ps_pobj s k) \<longrightarrow> \<not> ps_closing (ps_pobj s k) \<longrightarrow> ps_out (ps_pobj s k) = [] \<longrightarrow> k \<in> set (p # ps))"
proof -
  have inv: "push_inv s" by (rule push.reachable_inv [OF refl run])
  note d = push_invD [OF inv]
  define t where "t = (if ps_awake s then s else push_SendMsg_signal s)"
  have sg: "ps_awake s \<or> 0 < ps_signals s" using d(4) r b by (auto simp: push_awake_def)
  then have t: "push_inv t" "ps_awake t" "\<not> ps_closed t" "ps_readyQ t = p # ps" "ch_buf (chans t (ps_sendQ t)) = m # ms"
    using inv push_signal_inv [OF inv] o r b by (auto simp: t_def push_SendMsg_signal_def)
  note u = push_sender_dispatch [OF t]
  note rd = push_readyD(2-7) [OF d(3)]
  have "t = s \<and> ps_awake s \<or> t = push_SendMsg_signal s \<and> 0 < ps_signals s" using sg by (auto simp: t_def)
  moreover have "p < ps_npipe s" "\<not> ps_pclosed (ps_pobj s p)" "ps_out (ps_pobj s p) = []" using rd(1-3) [of p] r by simp_all
  moreover have "\<forall>k < ps_npipe s. \<not> ps_pclosed (ps_pobj s k) \<longrightarrow> \<not> ps_closing (ps_pobj s k) \<longrightarrow> ps_out (ps_pobj s k) = [] \<longrightarrow> k \<in> set (p # ps)"
    using rd(6) o unfolding r [symmetric] by blast
  ultimately show ?thesis using u by (intro exI conjI) (assumption | simp)+
qed

definition push_m :: message where "push_m = \<lparr>m_id = 1, Header = [], Body = [7], m_pipe = None, m_from = 0\<rparr>"

text \<open>A pipe arrives, the sender goes to sleep again, and then a message is sent.\<close>

definition push1 :: pushsock where "push1 = (fst (push_AddPipe 4 push_NewProtocol))\<lparr>ps_awake := False\<rparr>"
definition push2 :: pushsock where "push2 = fst (hd (push_SendMsg_try (NilQ, 0, False) 1 push_m push1))"

lemma push2_run: "push_step\<^sup>*\<^sup>* push_NewProtocol push2"
proof -
  have "push_step push_NewProtocol (fst (push_AddPipe 4 push_NewProtocol))"
    by (rule ph_add) (simp add: push_NewProtocol_def)
  moreover have "push_step (fst (push_AddPipe 4 push_NewProtocol)) push1"
    by (rule ph_sender) (simp add: push_sender_def push_AddPipe_def push_NewProtocol_def push1_def)
  moreover have "push_step push1 push2"
    by (rule ph_try [of 1 _ _ None "(NilQ, 0, False)" push_m])
      (simp_all add: push2_def push1_def push_SendMsg_try_def push_send_case_def push_AddPipe_def push_NewProtocol_def
        try_send_def chan_room_def case_if_def)
  ultimately show ?thesis by (meson rtranclp.rtrancl_into_rtrancl r_into_rtranclp)
qed

lemma push2_eval: "\<not> ps_closed push2" "ps_readyQ push2 = [0]" "ch_buf (chans push2 (ps_sendQ push2)) = [push_m]" "\<not> ps_awake push2"
  by (simp_all add: push2_def push1_def push_SendMsg_try_def push_send_case_def push_AddPipe_def push_NewProtocol_def
      try_send_def chan_room_def case_if_def)

theorem push_dispatches_witness:
  "\<not> ps_awake push2 \<and> (\<exists>u. push_sender (push_SendMsg_signal push2) = Some u \<and> ps_out (ps_pobj u 0) = [push_m])"
  using push_dispatches [OF push2_run push2_eval(1-3)] push2_eval(4) by auto

text \<open>
  \<^verbatim>\<open>SendMsg\<close> can accept a message that is never sent. It reads \<^verbatim>\<open>s.sendQ\<close> without the lock; when
  \<^verbatim>\<open>OptionWriteQLen\<close> has replaced the queue in the meantime, the send to the old queue succeeds and
  the call reports success, but nothing is taken out of that queue any more, in any run.
\<close>

theorem push_stale_queue_loses:
  assumes run: "push_step\<^sup>*\<^sup>* push_NewProtocol s" and q: "q \<in> ps_sqs s" "q \<noteq> ps_sendQ s"
    and sent: "(t, None) \<in> set (push_SendMsg_try snap q m s)" and later: "push_step\<^sup>*\<^sup>* t u"
  shows "m \<in> set (ch_buf (chans u q)) \<and> ps_sendQ u \<noteq> q"
proof -
  have inv: "push_inv s" by (rule push.reachable_inv [OF refl run])
  have t: "push_inv t" using push_SendMsg_inv(1) [OF inv sent] .
  have "stale q t" using push_step_keeps [OF ph_try [OF q(1) sent] inv, of q] q by (simp add: stale_def keeps_def)
  then have k: "keeps q t u" using push_steps_keep [OF later t] by blast
  have "\<not> ch_closed (chans s q)" using inv by (simp add: push_inv_def push_queues_def)
  then have "m \<in> set (ch_buf (chans t q))"
    using sent by (auto simp: push_SendMsg_try_def set_ready_cases push_send_case_def try_send_def split: prod.splits if_splits)
  then show ?thesis using k by (auto simp: keeps_def stale_def)
qed

definition push3 :: pushsock where "push3 = fst (push_SetOption OptionWriteQLen (VInt (int 5)) push_NewProtocol)"

lemma push3_eval: "push3 = push_NewProtocol\<lparr>nchan := 3, ps_sendQLen := 5, ps_sendQ := 2, ps_sqs := {1, 2},
    chans := ((chans push_NewProtocol)(2 := make_gochan 5))(1 := make_gochan 128), ps_signals := 0\<rparr>"
  by (simp add: push3_def push_SetOption_def option_names push_resize_def push_NewProtocol_def make_chan_def chan_contents_def
      Let_def insert_commute make_gochan_def asQLen_def)

theorem push_stale_queue_loses_witness:
  "\<exists>t. push_SendMsg_try (NilQ, 0, False) 1 push_m push3 = [(t, None)] \<and> push_m \<in> set (ch_buf (chans t 1)) \<and> ps_sendQ t \<noteq> 1"
proof -
  have run: "push_step\<^sup>*\<^sup>* push_NewProtocol push3" unfolding push3_def by (intro r_into_rtranclp ph_set)
  obtain t where t: "push_SendMsg_try (NilQ, 0, False) 1 push_m push3 = [(t, None)]"
    by (simp add: push_SendMsg_try_def push_send_case_def try_send_def push3_eval chan_room_def push_NewProtocol_def case_if_def)
  have "1 \<in> ps_sqs push3" "1 \<noteq> ps_sendQ push3" by (simp_all add: push3_eval)
  moreover have "(t, None) \<in> set (push_SendMsg_try (NilQ, 0, False) 1 push_m push3)" unfolding t by simp
  ultimately show ?thesis using push_stale_queue_loses [OF run _ _ _ rtranclp.rtrancl_refl] t by blast
qed

text \<open>With \<^verbatim>\<open>OptionWriteQLen\<close> zero nothing can be sent: no send case is ever ready, and nothing is dispatched.\<close>

lemma push_zero_length_never_sends:
  assumes inv: "push_inv s" and z: "ps_sendQLen s = 0"
  shows "push_send_case (ps_sendQ s) m s = None" "push_sender s = Some u \<Longrightarrow> ps_pobj u = ps_pobj s"
proof -
  have q: "ch_cap (chans s (ps_sendQ s)) = 0" "ch_buf (chans s (ps_sendQ s)) = []" "ch_rwait (chans s (ps_sendQ s)) = 0" "\<not> ch_closed (chans s (ps_sendQ s))"
    using push_invD(1) [OF inv] z unfolding push_queues_def by (metis, metis le_zero_eq length_0_conv, metis, metis)
  show "push_send_case (ps_sendQ s) m s = None" using q by (simp add: push_send_case_def try_send_def chan_room_def)
  show "ps_pobj u = ps_pobj s" if "push_sender s = Some u" using that q by (auto simp: push_sender_def split: if_splits)
qed

section \<open>The protocol contract and cooked PUSH\<close>

lemma push_drain_frame:
  "ps_closed (push_drain q ms s) = ps_closed s" "ps_pipes (push_drain q ms s) = ps_pipes s" "ps_sendQLen (push_drain q ms s) = ps_sendQLen s"
  by (induction q ms s rule: push_drain.induct) (auto simp: try_send_def split: option.splits if_splits)

lemma push_resize_simps [simp]:
  "ps_closed (push_resize n s) = ps_closed s" "ps_pipes (push_resize n s) = ps_pipes s" "ps_sendQLen (push_resize n s) = n"
  by (simp_all add: push_resize_def push_drain_frame make_chan_def Let_def)

interpretation push_proto: protocol_base ps_closed "\<lambda>s. dom (ps_pipes s)" push_Close push_AddPipe push_SetOption push_GetOption
proof unfold_locales
  show "push_GetOption n (fst (push_SetOption n v s)) = Inr v"
    if "snd (push_SetOption n v s) = None" "push_GetOption n s \<noteq> Inl ErrBadOption" for n v s
    using that(1) by (auto simp: push_SetOption_def push_GetOption_def fst_set_field asQLen_eq_Some option_names split: if_splits)
  show "fst (push_SetOption n v s) = s" if "snd (push_SetOption n v s) \<noteq> None" for n v s
    using that by (rule cleanD [rotated]) (simp add: push_SetOption_def)
qed (simp_all add: push_Close_def Let_def push_AddPipe_def push_SetOption_def fst_set_field split: option.split)

text \<open>\<^verbatim>\<open>protocol/push/push.go\<close>.\<close>

definition cooked_push_GetOption :: "string \<Rightarrow> pushsock \<Rightarrow> err + optval" where
  "cooked_push_GetOption name s = (if name = OptionRaw then Inr (VBool False) else push_GetOption name s)"

definition cooked_push_NewProtocol :: pushsock where
  "cooked_push_NewProtocol = push_NewProtocol"

interpretation cooked_push: protocol_base ps_closed "\<lambda>s. dom (ps_pipes s)" push_Close push_AddPipe push_SetOption cooked_push_GetOption
proof unfold_locales
  show "cooked_push_GetOption n (fst (push_SetOption n v s)) = Inr v"
    if "snd (push_SetOption n v s) = None" "cooked_push_GetOption n s \<noteq> Inl ErrBadOption" for n v s
    using that push_proto.set_get [of n v s]
    by (cases "n = OptionRaw") (simp_all add: cooked_push_GetOption_def push_SetOption_def option_names)
qed (fact push_proto.close_open push_proto.close_closed push_proto.add_closed push_proto.add_keeps
    push_proto.set_keeps push_proto.set_error)+

end
