(* ===== verification/Xpull.thy ===== *)
theory Xpull
  imports TypedQueues
begin

text \<open>
  PULL, \<^verbatim>\<open>protocol/xpull/xpull.go\<close> and \<^verbatim>\<open>protocol/pull/pull.go\<close>: one receive queue; when it is replaced,
  \<^verbatim>\<open>SetOption\<close> moves the messages of the old queue to the new one, after it has released the lock
  and told the goroutines that use the old queue. \<open>l_moving\<close> holds the pairs of old and new queue
  of the calls of \<^verbatim>\<open>SetOption\<close> that are in that loop.
\<close>

section \<open>Operations\<close>

record pullsock = rawsock +
  l_resizeDiscards :: bool
  l_moving :: "(nat \<times> nat) list"

definition pull_SendMsg :: "pullsock \<Rightarrow> status" where
  "pull_SendMsg s = Some ErrProtoOp"

definition pull_RecvMsg_begin :: "pullsock \<Rightarrow> recv_snap" where
  "pull_RecvMsg_begin s = (expire_q (x_recvExpire s), x_recvQ s, x_sizeQ s)"

definition pull_receiver_msg :: "nat \<Rightarrow> message \<Rightarrow> pullsock \<Rightarrow> pullsock" where
  "pull_receiver_msg p m s = hold_msg p m s"

text \<open>When the queue is replaced the receiver tries again, with the new queue and the same message.\<close>

definition pull_receiver_put :: "nat \<Rightarrow> pullsock \<Rightarrow> pullsock list" where
  "pull_receiver_put p s =
     (case p_hold (x_pobj s p) of
        None \<Rightarrow> []
      | Some (m, rq, zq) \<Rightarrow>
          ready_cases
            [map_option (upd_pipe p (\<lambda>x. x\<lparr>p_hold := None\<rparr>)) (try_send rq m s),
             case_if (x_zclosed s zq) (hold_msg p m s),
             case_if (p_closeQ (x_pobj s p)) (receiver_exit p (Free (m_id m) s))])"

definition pull_resize :: "nat \<Rightarrow> pullsock \<Rightarrow> pullsock" where
  "pull_resize n s =
     (let s1 = resize_recvQ n s
      in if l_resizeDiscards s then s1 else s1\<lparr>l_moving := l_moving s @ [(x_recvQ s, x_recvQ s1)]\<rparr>)"

text \<open>One turn of the loop that moves messages; it ends when the old queue is empty.\<close>

definition pull_move :: "nat \<times> nat \<Rightarrow> pullsock \<Rightarrow> pullsock" where
  "pull_move qs s =
     (case try_recv (fst qs) s of
        Some (Some m, s1) \<Rightarrow>
          (case try_send (snd qs) m s1 of Some s2 \<Rightarrow> s2 | None \<Rightarrow> Free (m_id m) s1)
      | _ \<Rightarrow> s\<lparr>l_moving := remove1 qs (l_moving s)\<rparr>)"

definition pull_SetOption :: "string \<Rightarrow> optval \<Rightarrow> pullsock \<Rightarrow> pullsock \<times> status" where
  "pull_SetOption name v s =
     (if name = OptionRecvDeadline then set_field (asDuration v) (\<lambda>d s. s\<lparr>x_recvExpire := d\<rparr>) s
      else if name = OptionReadQLen then set_field (asQLen v) pull_resize s
      else if name = ''_resizeDiscards''
      then ((case asBool v of Some b \<Rightarrow> s\<lparr>l_resizeDiscards := b\<rparr> | None \<Rightarrow> s), None)
      else (s, Some ErrBadOption))"

definition pull_GetOption :: "string \<Rightarrow> pullsock \<Rightarrow> err + optval" where
  "pull_GetOption name s =
     (if name = OptionRaw then Inr (VBool True)
      else if name = OptionRecvDeadline then Inr (VDuration (x_recvExpire s))
      else if name = OptionReadQLen then Inr (VInt (int (x_recvQLen s)))
      else Inl ErrBadOption)"

definition pull_AddPipe :: "u32 \<Rightarrow> pullsock \<Rightarrow> pullsock \<times> status" where
  "pull_AddPipe i s =
     (if x_closed s then (s, Some ErrClosed)
      else ((upd_pipe (x_npipe s) (\<lambda>_. new_rpipe i 0) s)\<lparr>x_npipe := Suc (x_npipe s)\<rparr>, None))"

definition pull_RemovePipe :: "nat \<Rightarrow> pullsock \<Rightarrow> pullsock" where
  "pull_RemovePipe p s = close_pipeQ p s"

definition pull_Close :: "pullsock \<Rightarrow> pullsock \<times> status" where
  "pull_Close s = (if x_closed s then (s, Some ErrClosed) else (close_closeQ (s\<lparr>x_closed := True\<rparr>), None))"

definition pull_NewProtocol :: pullsock where
  "pull_NewProtocol = rawsock.extend (raw_new 128 0 0) \<lparr>l_resizeDiscards = False, l_moving = []\<rparr>"

text \<open>\<^verbatim>\<open>protocol/pull/pull.go\<close>.\<close>

definition cooked_pull_GetOption :: "string \<Rightarrow> pullsock \<Rightarrow> err + optval" where
  "cooked_pull_GetOption name s = (if name = OptionRaw then Inr (VBool False) else pull_GetOption name s)"

definition cooked_pull_NewProtocol :: pullsock where
  "cooked_pull_NewProtocol = pull_NewProtocol"

section \<open>Runs\<close>

inductive pull_step :: "pullsock \<Rightarrow> pullsock \<Rightarrow> bool" where
  pl_recv_try: "fst (snd snap) \<in> x_rqs s \<Longrightarrow> recv_try snap s = Some (s', x) \<Longrightarrow> pull_step s s'"
| pl_recv_wait: "fst (snd snap) \<in> x_rqs s \<Longrightarrow> (s', x) \<in> set (recv_wait f snap s) \<Longrightarrow> pull_step s s'"
| pl_rendezvous: "fst (snd snap) \<in> x_rqs s \<Longrightarrow> rendezvous p snap s = Some (s', x) \<Longrightarrow> pull_step s s'"
| pl_receive: "pull_step s (pull_receiver_msg p m s)"
| pl_put: "s' \<in> set (pull_receiver_put p s) \<Longrightarrow> pull_step s s'"
| pl_exit: "pull_step s (receiver_exit p s)"
| pl_move: "qs \<in> set (l_moving s) \<Longrightarrow> pull_step s (pull_move qs s)"
| pl_set: "pull_step s (fst (pull_SetOption n v s))"
| pl_close: "pull_step s (fst (pull_Close s))"
| pl_add: "pull_step s (fst (pull_AddPipe i s))"
| pl_remove: "p < x_npipe s \<Longrightarrow> \<not> p_closeQ (x_pobj s p) \<Longrightarrow> pull_step s (pull_RemovePipe p s)"

definition pull_inv :: "pullsock \<Rightarrow> bool" where
  "pull_inv s \<longleftrightarrow> typed_ok any s \<and> (\<forall>(q, q')\<in>set (l_moving s). q \<in> x_rqs s \<and> q' \<in> x_rqs s)"

lemma l_moving_frames:
  "l_moving (hold_msg p m s) = l_moving s" "l_moving (receiver_exit p s) = l_moving s" "l_moving (resize_recvQ n s) = l_moving s"
  "l_moving (close_closeQ s) = l_moving s" "l_moving (close_pipeQ p s) = l_moving s" "l_moving (upd_pipe p f s) = l_moving s"
  "l_moving (Free i s) = l_moving s"
  by (simp_all add: hold_msg_def receiver_exit_def resize_recvQ_def make_chan_def close_sizeQ_def close_closeQ_def close_pipeQ_def
      upd_pipe_def Free_def)

lemma pull_inv_frame: "pull_inv s \<Longrightarrow> typed_ok any t \<Longrightarrow> l_moving t = l_moving s \<Longrightarrow> x_rqs s \<subseteq> x_rqs t \<Longrightarrow> pull_inv t"
  by (fastforce simp: pull_inv_def)

lemma typed_l [simp]: "typed_ok Q (s\<lparr>l_moving := l\<rparr>) = typed_ok Q s" "typed_ok Q (s\<lparr>l_resizeDiscards := b\<rparr>) = typed_ok Q s"
  by (simp_all add: typed_ok_def raw_ok_def rqs_ok_def)

lemma typed_any_chan:
  assumes ok: "typed_ok any s" and c: "plain_chan c" "ch_cap c = ch_cap (chans s q)"
  shows "typed_ok any (s\<lparr>chans := (chans s)(q := c)\<rparr>)"
  using raw_ok_set_chan [OF typed_okD(1) [OF ok] c] ok by (auto simp: typed_ok_def rqs_ok_def)

lemma pull_move_inv:
  assumes inv: "pull_inv s" and q: "qs \<in> set (l_moving s)"
  shows "pull_inv (pull_move qs s)"
proof -
  have ok: "typed_ok any s" using inv by (simp add: pull_inv_def)
  have "fst qs \<in> x_rqs s" "snd qs \<in> x_rqs s" using inv q by (auto simp: pull_inv_def)
  then have qs: "0 < fst qs" "0 < snd qs" using typed_okD(3) [OF ok] by (metis gr0I)+
  have pl: "plain_chan (chans s k)" for k by (rule raw_okD(2) [OF typed_okD(1) [OF ok]])
  show ?thesis
  proof (cases "ch_buf (chans s (fst qs))")
    case Nil
    then have "pull_move qs s = s\<lparr>l_moving := remove1 qs (l_moving s)\<rparr>"
      using try_recv_plain [OF pl qs(1)] by (simp add: pull_move_def)
    moreover have "set (remove1 qs (l_moving s)) \<subseteq> set (l_moving s)" by (rule set_remove1_subset)
    ultimately show ?thesis using inv unfolding pull_inv_def by auto
  next
    case (Cons m ms)
    define s1 where "s1 = s\<lparr>chans := (chans s)(fst qs := (chans s (fst qs))\<lparr>ch_buf := ms\<rparr>)\<rparr>"
    have r: "try_recv (fst qs) s = Some (Some m, s1)" using try_recv_plain [OF pl qs(1)] Cons by (simp add: s1_def)
    have t1: "typed_ok any s1" "l_moving s1 = l_moving s" "x_rqs s1 = x_rqs s"
      using typed_any_chan [OF ok, of "(chans s (fst qs))\<lparr>ch_buf := ms\<rparr>"] pl [of "fst qs"] Cons
      by (simp_all add: s1_def plain_chan_def)
    have pl1: "plain_chan (chans s1 k)" for k by (rule raw_okD(2) [OF typed_okD(1) [OF t1(1)]])
    have "typed_ok any (pull_move qs s) \<and> l_moving (pull_move qs s) = l_moving s \<and> x_rqs (pull_move qs s) = x_rqs s"
      using t1 r try_send_plain [OF pl1 qs(2), of m] typed_any_chan [OF t1(1) plain_push [OF pl1 [of "snd qs"]], of m] pl1 [of "snd qs"]
      by (auto simp: pull_move_def l_moving_frames chan_room_def plain_chan_def)
    then show ?thesis by (intro pull_inv_frame [OF inv]) simp_all
  qed
qed

lemma pull_put_inv:
  assumes inv: "pull_inv s" and r: "t \<in> set (pull_receiver_put p s)"
  shows "pull_inv t"
proof -
  have ok: "typed_ok any s" using inv by (simp add: pull_inv_def)
  obtain m rq zq where h: "p_hold (x_pobj s p) = Some (m, rq, zq)"
    using r by (cases "p_hold (x_pobj s p)") (auto simp: pull_receiver_put_def)
  consider "t \<in> set (receiver_put False False p s)" | "t = hold_msg p m s"
    using r by (auto simp: pull_receiver_put_def receiver_put_def h set_ready_cases)
  then show ?thesis
  proof cases
    case 1
    have "l_moving t = l_moving s"
      using 1 by (auto simp: receiver_put_def h set_ready_cases try_send_def l_moving_frames free_if_def split: if_splits)
    moreover have "x_rqs t = x_rqs s" using recv_step_queues [OF rs_put [OF 1]] by (simp add: same_queues_def)
    ultimately show ?thesis using typed_recv_step [OF rs_put [OF 1] ok] by (intro pull_inv_frame [OF inv]) simp_all
  next
    case 2
    then show ?thesis using typed_hold [OF ok, of p m] by (intro pull_inv_frame [OF inv]) (simp_all add: l_moving_frames hold_msg_def)
  qed
qed

lemma pull_resize_inv:
  assumes inv: "pull_inv s"
  shows "pull_inv (pull_resize n s)"
proof -
  have ok: "typed_ok any s" using inv by (simp add: pull_inv_def)
  have t: "typed_ok any (resize_recvQ n s)" by (rule typed_resize_recv [OF ok])
  have z: "x_rqs (resize_recvQ n s) = insert (x_recvQ (resize_recvQ n s)) (x_rqs s)"
    by (simp add: resize_recvQ_def make_chan_def close_sizeQ_def)
  have i: "pull_inv (resize_recvQ n s)" using z by (intro pull_inv_frame [OF inv t]) (auto simp: l_moving_frames)
  have "x_recvQ s \<in> x_rqs s" using typed_okD(2) [OF ok] by (simp add: rqs_ok_def)
  then show ?thesis using i z t inv by (auto simp: pull_resize_def Let_def pull_inv_def l_moving_frames)
qed

lemma pull_step_inv: "pull_step s t \<Longrightarrow> pull_inv s \<Longrightarrow> pull_inv t"
proof (induction rule: pull_step.induct)
  case (pl_recv_try snap s s' x)
  note st = rs_recv_try [OF pl_recv_try(1,2), of True False]
  show ?case using typed_recv_step [OF st] recv_step_queues [OF st] pl_recv_try
    by (intro pull_inv_frame [OF pl_recv_try(3)])
      (auto simp: pull_inv_def same_queues_def recv_try_def split: prod.splits option.splits dest!: try_recv_eqs)
next
  case (pl_recv_wait snap s s' x f)
  note st = rs_recv_wait [OF pl_recv_wait(1,2), of True False]
  show ?case using typed_recv_step [OF st] recv_step_queues [OF st] pl_recv_wait
    by (intro pull_inv_frame [OF pl_recv_wait(3)])
      (auto simp: pull_inv_def same_queues_def recv_wait_def recv_try_def set_ready_cases split: prod.splits option.splits dest!: try_recv_eqs)
next
  case (pl_rendezvous snap s p s' x)
  note st = rs_rendezvous [OF pl_rendezvous(1,2), of True False]
  show ?case using typed_recv_step [OF st] recv_step_queues [OF st] pl_rendezvous
    by (intro pull_inv_frame [OF pl_rendezvous(3)])
      (auto simp: pull_inv_def same_queues_def rendezvous_def l_moving_frames split: prod.splits option.splits if_splits)
next
  case (pl_receive s p m)
  then show ?case
    using typed_hold [of any s m p] by (intro pull_inv_frame [OF pl_receive]) (simp_all add: pull_inv_def pull_receiver_msg_def l_moving_frames hold_msg_def)
next
  case (pl_exit s p)
  have "recv_step True False s (receiver_exit p s)" by (rule rs_exit)
  then show ?case
    using typed_recv_step [of True False s "receiver_exit p s" any] pl_exit
    by (intro pull_inv_frame [OF pl_exit]) (simp_all add: pull_inv_def l_moving_frames receiver_exit_def)
next
  case (pl_set s n v)
  have "pull_inv (s\<lparr>x_recvExpire := d\<rparr>)" "pull_inv (s\<lparr>l_resizeDiscards := b\<rparr>)" for d b
    using pl_set by (simp_all add: pull_inv_def)
  then have "after pull_inv (pull_SetOption n v s)"
    using pl_set pull_resize_inv [OF pl_set] by (auto simp: pull_SetOption_def split: option.split)
  then show ?case by (rule afterD)
next
  case (pl_close s)
  then show ?case
    using typed_close [of any s] by (auto simp: pull_Close_def pull_inv_def l_moving_frames) (auto simp: close_closeQ_def)
next
  case (pl_add s i)
  then show ?case using typed_new_pipe [of any s] by (auto simp: pull_AddPipe_def pull_inv_def l_moving_frames)
next
  case (pl_remove p s)
  then show ?case
    using typed_close_pipe [of any s p] by (intro pull_inv_frame [OF pl_remove(3)]) (simp_all add: pull_inv_def pull_RemovePipe_def l_moving_frames close_pipeQ_def)
qed (blast intro: pull_put_inv pull_move_inv)+


interpretation pull: machine "\<lambda>s. s = pull_NewProtocol" pull_step pull_inv
proof unfold_locales
  show "pull_inv s" if "s = pull_NewProtocol" for s
    using that
    by (simp add: pull_inv_def pull_NewProtocol_def typed_ok_def raw_ok_def rqs_ok_def rpipe_ok_def rawsock.extend_def raw_new_def)
  show "pull_inv t" if "pull_inv s" "pull_step s t" for s t using that pull_step_inv by blast
qed

section \<open>Lemmas on runs\<close>

text \<open>
  A turn of the loop that moves messages loses none: the oldest message of the old queue goes to the
  end of the new one, or is freed when the new queue has no room.
\<close>

lemma pull_move_conserves:
  assumes run: "pull_step\<^sup>*\<^sup>* pull_NewProtocol s" and q: "(q, q') \<in> set (l_moving s)" "q \<noteq> q'" and b: "ch_buf (chans s q) = m # ms"
  shows "ch_buf (chans (pull_move (q, q') s) q) = ms"
    and "if length (ch_buf (chans s q')) < ch_cap (chans s q')
      then ch_buf (chans (pull_move (q, q') s) q') = ch_buf (chans s q') @ [m] \<and> refs (pull_move (q, q') s) = refs s
      else ch_buf (chans (pull_move (q, q') s) q') = ch_buf (chans s q') \<and>
        refs (pull_move (q, q') s) = (refs s)(m_id m := refs s (m_id m) - 1)"
proof -
  have inv: "pull_inv s" by (rule pull.reachable_inv [OF refl run])
  then have ok: "typed_ok any s" by (simp add: pull_inv_def)
  have "q \<in> x_rqs s" "q' \<in> x_rqs s" using inv q(1) by (auto simp: pull_inv_def)
  then have pos: "0 < q" "0 < q'" using typed_okD(3) [OF ok] by (metis gr0I)+
  have pl: "plain_chan (chans s k)" for k by (rule raw_okD(2) [OF typed_okD(1) [OF ok]])
  have r: "try_recv q s = Some (Some m, s\<lparr>chans := (chans s)(q := (chans s q)\<lparr>ch_buf := ms\<rparr>)\<rparr>)"
    using try_recv_plain [OF pl pos(1)] b by simp
  let ?s1 = "s\<lparr>chans := (chans s)(q := (chans s q)\<lparr>ch_buf := ms\<rparr>)\<rparr>"
  have "plain_chan (chans ?s1 q')" using pl [of q'] q(2) by simp
  note t = try_send_plain [OF this pos(2), of m]
  show "ch_buf (chans (pull_move (q, q') s) q) = ms" using r t q(2) by (simp add: pull_move_def)
  show "if length (ch_buf (chans s q')) < ch_cap (chans s q')
      then ch_buf (chans (pull_move (q, q') s) q') = ch_buf (chans s q') @ [m] \<and> refs (pull_move (q, q') s) = refs s
      else ch_buf (chans (pull_move (q, q') s) q') = ch_buf (chans s q') \<and>
        refs (pull_move (q, q') s) = (refs s)(m_id m := refs s (m_id m) - 1)"
    using r t q(2) by (simp add: pull_move_def)
qed

text \<open>
  A receiver goroutine that still holds the old queue may put its message there after the loop has
  ended (both cases of its \<^verbatim>\<open>select\<close> are ready, and Go picks any): the message is then in a queue that
  is neither read nor moved.
\<close>

lemma pull_put_strands:
  assumes run: "pull_step\<^sup>*\<^sup>* pull_NewProtocol s" and h: "p_hold (x_pobj s p) = Some (m, rq, zq)"
    and old: "rq \<noteq> x_recvQ s" "rq \<notin> fst ` set (l_moving s)" and room: "length (ch_buf (chans s rq)) < ch_cap (chans s rq)"
  shows "\<exists>t\<in>set (pull_receiver_put p s). m \<in> set (ch_buf (chans t rq)) \<and> x_recvQ t \<noteq> rq \<and> rq \<notin> fst ` set (l_moving t)"
proof -
  have ok: "typed_ok any s" using pull.reachable_inv [OF refl run] by (simp add: pull_inv_def)
  have "rq \<in> x_rqs s" using typed_okD(2) [OF ok] h unfolding rqs_ok_def by blast
  then have "0 < rq" using typed_okD(3) [OF ok] by (metis gr0I)
  then have "try_send rq m s = Some (s\<lparr>chans := (chans s)(rq := chan_push m (chans s rq))\<rparr>)"
    using try_send_plain [OF raw_okD(2) [OF typed_okD(1) [OF ok], of rq]] room by simp
  then show ?thesis using h old by (simp add: pull_receiver_put_def l_moving_frames)
qed

section \<open>The protocol contract\<close>

lemma pull_resize_simps [simp]:
  "x_closed (pull_resize n s) = x_closed s" "x_recvQLen (pull_resize n s) = n" "x_npipe (pull_resize n s) = x_npipe s"
  by (simp_all add: pull_resize_def Let_def)

interpretation pull_proto: protocol_base x_closed "\<lambda>s. of_nat ` {..<x_npipe s}" pull_Close pull_AddPipe pull_SetOption pull_GetOption
proof unfold_locales
  show "pull_GetOption n (fst (pull_SetOption n v s)) = Inr v"
    if "snd (pull_SetOption n v s) = None" "pull_GetOption n s \<noteq> Inl ErrBadOption" for n v s
    using that by (auto simp: pull_SetOption_def pull_GetOption_def fst_set_field asQLen_eq_Some option_names split: if_splits)
  show "fst (pull_SetOption n v s) = s" if "snd (pull_SetOption n v s) \<noteq> None" for n v s
    by (rule cleanD [OF _ that]) (simp add: pull_SetOption_def)
qed (simp_all add: pull_Close_def pull_AddPipe_def pull_SetOption_def close_closeQ_def fst_set_field split: option.split)

interpretation cooked_pull: protocol_base x_closed "\<lambda>s. of_nat ` {..<x_npipe s}" pull_Close pull_AddPipe pull_SetOption cooked_pull_GetOption
proof unfold_locales
  show "cooked_pull_GetOption n (fst (pull_SetOption n v s)) = Inr v"
    if "snd (pull_SetOption n v s) = None" "cooked_pull_GetOption n s \<noteq> Inl ErrBadOption" for n v s
    using that pull_proto.set_get [of n v s]
    by (cases "n = OptionRaw") (simp_all add: cooked_pull_GetOption_def pull_SetOption_def option_names)
qed (fact pull_proto.close_open pull_proto.close_closed pull_proto.add_closed pull_proto.add_keeps
    pull_proto.set_keeps pull_proto.set_error)+

end
