(* ===== verification/Xsub.thy ===== *)
theory Xsub
  imports TypedQueues
begin

text \<open>
  Raw SUB, \<^verbatim>\<open>protocol/xsub/xsub.go\<close>: every message of every pipe goes into one receive queue, and
  is dropped when the queue is full, so that a slow reader never blocks a pipe.
\<close>

section \<open>Operations\<close>

definition xsub_SendMsg :: "rawsock \<Rightarrow> status" where
  "xsub_SendMsg s = Some ErrProtoOp"

definition xsub_RecvMsg_begin :: "rawsock \<Rightarrow> recv_snap" where
  "xsub_RecvMsg_begin s = (expire_q (x_recvExpire s), x_recvQ s, x_sizeQ s)"

text \<open>
  The receiver goroutine reads the queue under the lock and sends without it; in between it holds
  the message. \<open>parked\<close>: a \<^verbatim>\<open>RecvMsg\<close> waits on the queue, so that even an unbuffered one takes the
  message, which it returns.
\<close>

definition xsub_receiver_msg :: "nat \<Rightarrow> message \<Rightarrow> rawsock \<Rightarrow> rawsock" where
  "xsub_receiver_msg p m s = hold_msg p m s"

definition xsub_receiver_put :: "bool \<Rightarrow> nat \<Rightarrow> rawsock \<Rightarrow> (rawsock \<times> message option) list" where
  "xsub_receiver_put parked p s =
     (case p_hold (x_pobj s p) of
        None \<Rightarrow> []
      | Some (m, rq, zq) \<Rightarrow>
          [(case try_send rq m s of
              Some t \<Rightarrow> (upd_pipe p (\<lambda>x. x\<lparr>p_hold := None\<rparr>) t, None)
            | None \<Rightarrow>
                if parked \<and> ch_buf (chans s rq) = [] then (upd_pipe p (\<lambda>x. x\<lparr>p_hold := None\<rparr>) s, Some m)
                else (upd_pipe p (\<lambda>x. x\<lparr>p_hold := None\<rparr>) (Free (m_id m) s), None))])"

definition xsub_SetOption :: "string \<Rightarrow> optval \<Rightarrow> rawsock \<Rightarrow> rawsock \<times> status" where
  "xsub_SetOption name v s =
     (if name = OptionRecvDeadline then set_field (asDuration v) (\<lambda>d s. s\<lparr>x_recvExpire := d\<rparr>) s
      else if name = OptionReadQLen then set_field (asQLen v) resize_recvQ s
      else (s, Some ErrBadOption))"

definition xsub_GetOption :: "string \<Rightarrow> rawsock \<Rightarrow> err + optval" where
  "xsub_GetOption name s =
     (if name = OptionRaw then Inr (VBool True)
      else if name = OptionRecvDeadline then Inr (VDuration (x_recvExpire s))
      else if name = OptionReadQLen then Inr (VInt (int (x_recvQLen s)))
      else Inl ErrBadOption)"

definition xsub_AddPipe :: "u32 \<Rightarrow> rawsock \<Rightarrow> rawsock \<times> status" where
  "xsub_AddPipe i s =
     (if x_closed s then (s, Some ErrClosed)
      else ((upd_pipe (x_npipe s) (\<lambda>_. new_rpipe i 0) s)\<lparr>x_npipe := Suc (x_npipe s)\<rparr>, None))"

definition xsub_RemovePipe :: "nat \<Rightarrow> rawsock \<Rightarrow> rawsock" where
  "xsub_RemovePipe p s = s"

definition xsub_Close :: "rawsock \<Rightarrow> rawsock \<times> status" where
  "xsub_Close s = (if x_closed s then (s, Some ErrClosed) else (close_closeQ (s\<lparr>x_closed := True\<rparr>), None))"

definition xsub_NewProtocol :: rawsock where
  "xsub_NewProtocol = raw_new 128 0 0"

section \<open>Runs\<close>

inductive xsub_step :: "rawsock \<Rightarrow> rawsock \<Rightarrow> bool" where
  xs_recv_try: "fst (snd snap) \<in> x_rqs s \<Longrightarrow> recv_try snap s = Some (s', x) \<Longrightarrow> xsub_step s s'"
| xs_recv_wait: "fst (snd snap) \<in> x_rqs s \<Longrightarrow> (s', x) \<in> set (recv_wait f snap s) \<Longrightarrow> xsub_step s s'"
| xs_receive: "xsub_step s (xsub_receiver_msg p m s)"
| xs_put: "(s', x) \<in> set (xsub_receiver_put pk p s) \<Longrightarrow> xsub_step s s'"
| xs_exit: "xsub_step s (receiver_exit p s)"
| xs_set: "xsub_step s (fst (xsub_SetOption n v s))"
| xs_close: "xsub_step s (fst (xsub_Close s))"
| xs_add: "xsub_step s (fst (xsub_AddPipe i s))"
| xs_remove: "xsub_step s (xsub_RemovePipe p s)"

lemma xsub_put_typed:
  assumes ok: "typed_ok any s" and r: "(t, x) \<in> set (xsub_receiver_put pk p s)"
  shows "typed_ok any t"
proof -
  obtain m rq zq where h: "p_hold (x_pobj s p) = Some (m, rq, zq)"
    using r by (cases "p_hold (x_pobj s p)") (auto simp: xsub_receiver_put_def)
  have "raw_ok any t"
    using r raw_ok_try_send [of any s m rq] raw_ok_unhold [of any] typed_okD(1) [OF ok]
    by (auto simp: xsub_receiver_put_def h split: option.splits if_splits)
  moreover have "same_queues s t"
    using r by (auto simp: xsub_receiver_put_def h try_send_def same_queues_def split: option.splits if_splits)
  ultimately show ?thesis by (rule typed_frame [OF ok]) simp
qed

lemma xsub_step_typed: "xsub_step s t \<Longrightarrow> typed_ok any s \<Longrightarrow> typed_ok any t"
proof (induction rule: xsub_step.induct)
  case (xs_recv_try snap s s' x)
  then show ?case using rs_recv_try typed_recv_step by blast
next
  case (xs_recv_wait snap s s' x f)
  then show ?case using rs_recv_wait typed_recv_step by blast
next
  case (xs_receive s p m)
  then show ?case by (simp add: xsub_receiver_msg_def typed_hold)
next
  case (xs_put s' x pk p s)
  then show ?case using xsub_put_typed by blast
next
  case (xs_exit s p)
  then show ?case using rs_exit typed_recv_step by blast
next
  case (xs_set s n v)
  then show ?case by - (rule afterD, simp add: xsub_SetOption_def typed_resize_recv)
next
  case (xs_close s)
  then show ?case by (simp add: xsub_Close_def typed_close)
next
  case (xs_add s i)
  then show ?case by (simp add: xsub_AddPipe_def typed_new_pipe)
qed (simp add: xsub_RemovePipe_def)

interpretation xsub: machine "\<lambda>s. s = xsub_NewProtocol" xsub_step "typed_ok any"
  by unfold_locales (auto simp: xsub_NewProtocol_def typed_new intro: xsub_step_typed)

text \<open>
  The receiver never waits: with a message in hand its next step is possible in every reachable
  state, and either queues the message, hands it over or drops it.
\<close>

lemma xsub_never_blocks:
  assumes "xsub_step\<^sup>*\<^sup>* xsub_NewProtocol s" and "p_hold (x_pobj s p) = Some (m, rq, zq)"
  shows "\<not> panicked s" and "\<exists>t x. xsub_receiver_put pk p s = [(t, x)] \<and> p_hold (x_pobj t p) = None \<and>
    (ch_buf (chans t rq) = ch_buf (chans s rq) @ [m] \<and> refs t = refs s \<or> x = Some m \<and> refs t = refs s \<or>
     chans t = chans s \<and> refs t (m_id m) = refs s (m_id m) - 1)"
proof -
  have ok: "typed_ok any s" by (rule xsub.reachable_inv [OF refl assms(1)])
  show "\<not> panicked s" by (rule raw_okD(1) [OF typed_okD(1) [OF ok]])
  have "0 < rq" using assms(2) typed_okD(2,3) [OF ok] unfolding rqs_ok_def by (metis gr0I)
  then show "\<exists>t x. xsub_receiver_put pk p s = [(t, x)] \<and> p_hold (x_pobj t p) = None \<and>
    (ch_buf (chans t rq) = ch_buf (chans s rq) @ [m] \<and> refs t = refs s \<or> x = Some m \<and> refs t = refs s \<or>
     chans t = chans s \<and> refs t (m_id m) = refs s (m_id m) - 1)"
    using assms(2) try_send_plain [OF raw_okD(2) [OF typed_okD(1) [OF ok], of rq], of m]
    by (auto simp: xsub_receiver_put_def)
qed

section \<open>The protocol contract\<close>

interpretation xsub_proto: protocol_base x_closed "\<lambda>s. of_nat ` {..<x_npipe s}" xsub_Close xsub_AddPipe xsub_SetOption xsub_GetOption
proof unfold_locales
  show "xsub_GetOption n (fst (xsub_SetOption n v s)) = Inr v"
    if "snd (xsub_SetOption n v s) = None" "xsub_GetOption n s \<noteq> Inl ErrBadOption" for n v s
    using that(1) by (auto simp: xsub_SetOption_def xsub_GetOption_def fst_set_field asQLen_eq_Some option_names split: if_splits)
  show "fst (xsub_SetOption n v s) = s" if "snd (xsub_SetOption n v s) \<noteq> None" for n v s
    by (rule cleanD [OF _ that]) (simp add: xsub_SetOption_def)
qed (simp_all add: xsub_Close_def xsub_AddPipe_def xsub_SetOption_def close_closeQ_def fst_set_field split: option.split)

end
