(* ===== verification/Broadcast.thy ===== *)
theory Broadcast
  imports RawSock
begin

text \<open>
  The fan-out loop that xpub, xbus, xstar and xsurveyor repeat: every attached pipe gets a
  reference to the message if its queue has room, and the loop never blocks. The loop ranges
  over a Go map, in an order that Go does not fix: the model takes the order as a list.
  \<open>parked p\<close> tells whether the sender goroutine of pipe \<open>p\<close> is waiting. Raw PUB,
  \<^verbatim>\<open>protocol/xpub/xpub.go\<close>, and its cooked form are modelled here too.
\<close>

section \<open>The loop\<close>

definition bcast_one :: "(nat \<Rightarrow> bool) \<Rightarrow> message \<Rightarrow> nat \<Rightarrow> 'z rawsock_scheme \<Rightarrow> 'z rawsock_scheme" where
  "bcast_one parked m p s =
     (let s1 = Clone (m_id m) s
      in case pipe_send (parked p) p m s1 of Some s2 \<Rightarrow> s2 | None \<Rightarrow> Free (m_id m) s1)"

definition broadcast :: "(nat \<Rightarrow> bool) \<Rightarrow> message \<Rightarrow> nat list \<Rightarrow> 'z rawsock_scheme \<Rightarrow> 'z rawsock_scheme" where
  "broadcast parked m ps s = fold (bcast_one parked m) ps s"

text \<open>A legal order: every attached pipe once.\<close>

definition map_order :: "nat list \<Rightarrow> 'z rawsock_scheme \<Rightarrow> bool" where
  "map_order ps s \<longleftrightarrow> distinct ps \<and> set ps = ran (x_pipes s)"

section \<open>What it does\<close>

text \<open>The effect on one pipe, and whether the pipe takes the message.\<close>

definition accepts :: "bool \<Rightarrow> rpipe \<Rightarrow> bool" where
  "accepts pk x \<longleftrightarrow> chan_room (p_sendQ x) \<or>
     (pk \<and> ch_buf (p_sendQ x) = [] \<and> p_out x = None \<and> \<not> p_sexit x)"

definition give :: "message \<Rightarrow> rpipe \<Rightarrow> rpipe" where
  "give m x = (if chan_room (p_sendQ x) then x\<lparr>p_sendQ := chan_push m (p_sendQ x)\<rparr> else x\<lparr>p_out := Some m\<rparr>)"

lemma pipe_send_eq: "pipe_send pk p m s = (if accepts pk (x_pobj s p) then Some (upd_pipe p (give m) s) else None)"
  by (auto simp: pipe_send_def accepts_def give_def upd_pipe_def)

lemma bcast_one_eq:
  "bcast_one parked m p s =
     (if accepts (parked p) (x_pobj s p) then upd_pipe p (give m) (Clone (m_id m) s) else s)"
  by (simp add: bcast_one_def Let_def pipe_send_eq) (simp add: Free_def Clone_def)

definition takers :: "(nat \<Rightarrow> bool) \<Rightarrow> nat set \<Rightarrow> 'z rawsock_scheme \<Rightarrow> nat set" where
  "takers parked P s = {p \<in> P. accepts (parked p) (x_pobj s p)}"

text \<open>The state after the loop does not depend on the order of the pipes.\<close>

lemma broadcast_eq:
  "distinct ps \<Longrightarrow>
   broadcast parked m ps s =
     s\<lparr>refs := (refs s)(m_id m := refs s (m_id m) + int (card (takers parked (set ps) s))),
       x_pobj := (\<lambda>p. if p \<in> takers parked (set ps) s then give m (x_pobj s p) else x_pobj s p)\<rparr>"
proof (induction ps arbitrary: s)
  case Nil
  then show ?case by (simp add: broadcast_def takers_def)
next
  case (Cons p ps)
  let ?t = "bcast_one parked m p s"
  have p: "p \<notin> set ps" "distinct ps" using Cons.prems by auto
  have same: "x_pobj ?t q = x_pobj s q" if "q \<noteq> p" for q
    using that by (simp add: bcast_one_eq)
  have tk: "takers parked (set ps) ?t = takers parked (set ps) s"
    using p same by (auto simp: takers_def) (metis same)+
  have fin: "finite (takers parked (set ps) s)" by (simp add: takers_def)
  have "broadcast parked m (p # ps) s = broadcast parked m ps ?t" by (simp add: broadcast_def)
  also have "\<dots> =
      ?t\<lparr>refs := (refs ?t)(m_id m := refs ?t (m_id m) + int (card (takers parked (set ps) s))),
         x_pobj := (\<lambda>q. if q \<in> takers parked (set ps) s then give m (x_pobj ?t q) else x_pobj ?t q)\<rparr>"
    using Cons.IH [OF p(2), of ?t] unfolding tk .
  finally have IH: "broadcast parked m (p # ps) s =
      ?t\<lparr>refs := (refs ?t)(m_id m := refs ?t (m_id m) + int (card (takers parked (set ps) s))),
         x_pobj := (\<lambda>q. if q \<in> takers parked (set ps) s then give m (x_pobj ?t q) else x_pobj ?t q)\<rparr>" .
  show ?case
  proof (cases "accepts (parked p) (x_pobj s p)")
    case True
    then have t: "takers parked (set (p # ps)) s = insert p (takers parked (set ps) s)" "p \<notin> takers parked (set ps) s"
      using p by (auto simp: takers_def)
    have b: "?t = upd_pipe p (give m) (Clone (m_id m) s)" using True by (simp add: bcast_one_eq)
    have "(\<lambda>q. if q \<in> takers parked (set ps) s then give m (x_pobj ?t q) else x_pobj ?t q) =
        (\<lambda>q. if q \<in> takers parked (set (p # ps)) s then give m (x_pobj s q) else x_pobj s q)"
      using t by (auto simp: b)
    then show ?thesis
      unfolding IH t(1) using t(2) fin by (simp add: b upd_pipe_def Clone_def fun_upd_def add.assoc cong: if_cong)
  next
    case False
    then have tp: "takers parked (set (p # ps)) s = takers parked (set ps) s" by (auto simp: takers_def)
    have "?t = s" using False by (simp add: bcast_one_eq)
    then show ?thesis unfolding IH tp by (simp only:)
  qed
qed

lemma broadcast_order:
  assumes "distinct ps" "distinct qs" "set ps = set qs"
  shows "broadcast parked m ps s = broadcast parked m qs s"
  using assms by (simp add: broadcast_eq)

lemma raw_ok_broadcast: "raw_ok Q s \<Longrightarrow> raw_ok Q (broadcast parked m ps s)"
proof (induction ps arbitrary: s)
  case (Cons p ps)
  have "raw_ok Q (bcast_one parked m p s)"
    using raw_ok_pipe_send [of Q "Clone (m_id m) s" "parked p" p m] Cons.prems
    by (auto simp: bcast_one_def Let_def split: option.split)
  then show ?case using Cons.IH by (simp add: broadcast_def)
qed (simp add: broadcast_def)

lemma same_table_broadcast: "same_table s (broadcast parked m ps s)"
proof (induction ps arbitrary: s)
  case (Cons p ps)
  have "same_table s (bcast_one parked m p s)"
    by (simp add: bcast_one_eq same_table_def give_def)
  then show ?case using Cons.IH [of "bcast_one parked m p s"] same_table_trans by (simp add: broadcast_def) blast
qed (simp add: broadcast_def)

section \<open>Raw PUB\<close>

definition xpub_SendMsg :: "(nat \<Rightarrow> bool) \<Rightarrow> nat list \<Rightarrow> message \<Rightarrow> rawsock \<Rightarrow> rawsock \<times> status" where
  "xpub_SendMsg parked ps m s =
     (if x_closed s then (s, Some ErrClosed) else (Free (m_id m) (broadcast parked m ps s), None))"

definition xpub_RecvMsg :: "rawsock \<Rightarrow> err + message" where
  "xpub_RecvMsg s = Inl ErrProtoOp"

definition xpub_SetOption :: "string \<Rightarrow> optval \<Rightarrow> rawsock \<Rightarrow> rawsock \<times> status" where
  "xpub_SetOption name v s =
     (if name = OptionWriteQLen then set_field (asQLen v) (\<lambda>n s. s\<lparr>x_sendQLen := n\<rparr>) s
      else (s, Some ErrBadOption))"

definition xpub_GetOption :: "string \<Rightarrow> rawsock \<Rightarrow> err + optval" where
  "xpub_GetOption name s =
     (if name = OptionRaw then Inr (VBool True)
      else if name = OptionWriteQLen then Inr (VInt (int (x_sendQLen s)))
      else Inl ErrBadOption)"

definition xpub_AddPipe :: "u32 \<Rightarrow> rawsock \<Rightarrow> rawsock \<times> status" where
  "xpub_AddPipe i s = (if x_closed s then (s, Some ErrClosed) else (attach_pipe i s, None))"

definition xpub_RemovePipe :: "nat \<Rightarrow> rawsock \<Rightarrow> rawsock" where
  "xpub_RemovePipe p s = close_pipeQ p (s\<lparr>x_pipes := (x_pipes s)(p_ID (x_pobj s p) := None)\<rparr>)"

definition xpub_Close :: "rawsock \<Rightarrow> rawsock \<times> status" where
  "xpub_Close s = (if x_closed s then (s, Some ErrClosed) else (s\<lparr>x_closed := True\<rparr>, None))"

definition xpub_sender_done :: "nat \<Rightarrow> status \<Rightarrow> rawsock \<Rightarrow> rawsock" where
  "xpub_sender_done p err s = sender_done True p err s"

text \<open>The receiver discards everything.\<close>

definition xpub_receiver_msg :: "message \<Rightarrow> rawsock \<Rightarrow> rawsock" where
  "xpub_receiver_msg m s = Free (m_id m) s"

definition xpub_NewProtocol :: rawsock where
  "xpub_NewProtocol = raw_new 0 128 0"

inductive xpub_step :: "rawsock \<Rightarrow> rawsock \<Rightarrow> bool" where
  pb_send: "map_order ps s \<Longrightarrow> xpub_step s (fst (xpub_SendMsg parked ps m s))"
| pb_take: "s' \<in> set (sender_take True p s) \<Longrightarrow> xpub_step s s'"
| pb_sent: "xpub_step s (xpub_sender_done p err s)"
| pb_receive: "xpub_step s (xpub_receiver_msg m s)"
| pb_rexit: "xpub_step s (receiver_exit p s)"
| pb_set: "xpub_step s (fst (xpub_SetOption n v s))"
| pb_close: "xpub_step s (fst (xpub_Close s))"
| pb_add: "x_pipes s i = None \<Longrightarrow> xpub_step s (fst (xpub_AddPipe i s))"
| pb_remove: "p < x_npipe s \<Longrightarrow> \<not> p_closeQ (x_pobj s p) \<Longrightarrow> xpub_step s (xpub_RemovePipe p s)"

definition bcast_inv :: "rawsock \<Rightarrow> bool" where
  "bcast_inv s \<longleftrightarrow> raw_ok any s \<and> pipes_ok s"

lemma bcast_inv_frame: "bcast_inv s \<Longrightarrow> raw_ok any t \<Longrightarrow> same_table s t \<Longrightarrow> bcast_inv t"
  using same_table_ok by (auto simp: bcast_inv_def)

lemma bcast_inv_detach:
  assumes "bcast_inv s" "p < x_npipe s" "\<not> p_closeQ (x_pobj s p)"
  shows "bcast_inv ((close_pipeQ p s)\<lparr>x_pipes := (x_pipes s)(p_ID (x_pobj s p) := None)\<rparr>)"
  using assms pipes_ok_detach [of s p] raw_ok_close_pipe [of any s p] by (simp add: bcast_inv_def)

lemma bcast_inv_attach: "bcast_inv s \<Longrightarrow> x_pipes s i = None \<Longrightarrow> bcast_inv (attach_pipe i s)"
  by (simp add: bcast_inv_def raw_ok_attach pipes_ok_attach)

lemma bcast_inv_send: "bcast_inv s \<Longrightarrow> bcast_inv (Free j (broadcast parked m ps s))"
  using raw_ok_broadcast [of any s parked m ps] same_table_Free [OF same_table_broadcast [of s parked m ps], of j]
    bcast_inv_frame [of s "Free j (broadcast parked m ps s)"] by (simp add: bcast_inv_def)

lemma xpub_step_inv: "xpub_step s t \<Longrightarrow> bcast_inv s \<Longrightarrow> bcast_inv t"
proof (induction rule: xpub_step.induct)
  case (pb_send ps s parked m)
  then show ?case by (simp add: xpub_SendMsg_def bcast_inv_send)
next
  case (pb_take s' p s)
  then show ?case
    using raw_ok_sender_take same_table_sender_take by (blast intro: bcast_inv_frame bcast_inv_def [THEN iffD1, THEN conjunct1])
next
  case (pb_sent s p err)
  then show ?case
    using raw_ok_sender_done same_table_sender_done
    unfolding xpub_sender_done_def by (blast intro: bcast_inv_frame bcast_inv_def [THEN iffD1, THEN conjunct1])
next
  case (pb_receive s m)
  then show ?case
    using bcast_inv_frame [of s "Free (m_id m) s"] by (simp add: xpub_receiver_msg_def bcast_inv_def)
next
  case (pb_rexit s p)
  then show ?case
    using raw_ok_receiver_exit [of any s p] same_table_exit [of s s p] bcast_inv_frame [of s] by (simp add: bcast_inv_def)
next
  case (pb_set s n v)
  have "bcast_inv (s\<lparr>x_sendQLen := k\<rparr>)" for k
    using bcast_inv_frame [OF pb_set, of "s\<lparr>x_sendQLen := k\<rparr>"] pb_set by (simp add: bcast_inv_def)
  then show ?case by - (rule afterD, simp add: xpub_SetOption_def pb_set)
next
  case (pb_close s)
  then have "raw_ok any (s\<lparr>x_closed := True\<rparr>)" by (simp add: bcast_inv_def raw_ok_def)
  then have "bcast_inv (s\<lparr>x_closed := True\<rparr>)"
    by (rule bcast_inv_frame [OF pb_close]) (simp add: same_table_def)
  then show ?case using pb_close by (simp add: xpub_Close_def)
next
  case (pb_add s i)
  then show ?case by (simp add: xpub_AddPipe_def bcast_inv_attach)
next
  case (pb_remove p s)
  have "xpub_RemovePipe p s = (close_pipeQ p s)\<lparr>x_pipes := (x_pipes s)(p_ID (x_pobj s p) := None)\<rparr>"
    using pb_remove(2) by (simp add: xpub_RemovePipe_def close_pipeQ_def upd_pipe_def)
  then show ?case using bcast_inv_detach [of s p] pb_remove by simp
qed

interpretation xpub: machine "\<lambda>s. s = xpub_NewProtocol" xpub_step bcast_inv
proof unfold_locales
  show "bcast_inv s" if "s = xpub_NewProtocol" for s
    using that by (simp add: bcast_inv_def xpub_NewProtocol_def raw_ok_new) (simp add: pipes_ok_def raw_new_def)
  show "bcast_inv t" if "bcast_inv s" "xpub_step s t" for s t using that xpub_step_inv by blast
qed

section \<open>Properties\<close>

text \<open>
  C13: Publishing: \<^verbatim>\<open>SendMsg\<close> on an open raw PUB socket, in any reachable state and whatever order
  Go's map iteration takes, gives the message to exactly the attached pipes that can take it
  without blocking, once each, leaves every other pipe as it was, and balances the references:
  the caller's reference is replaced by one per pipe that took the message.
\<close>

theorem xpub_SendMsg_fans_out:
  assumes "xpub_step\<^sup>*\<^sup>* xpub_NewProtocol s" and "map_order ps s" and "\<not> x_closed s"
  shows "\<exists>t. xpub_SendMsg parked ps m s = (t, None) \<and>
    (\<forall>p. x_pobj t p =
       (if p < x_npipe s \<and> \<not> p_closeQ (x_pobj s p) \<and> accepts (parked p) (x_pobj s p)
        then give m (x_pobj s p) else x_pobj s p)) \<and>
    refs t = (refs s)(m_id m := refs s (m_id m) - 1 + int (card (takers parked (ran (x_pipes s)) s)))"
proof -
  have "pipes_ok s" using xpub.reachable_inv [OF refl assms(1)] by (simp add: bcast_inv_def)
  then have "p \<in> ran (x_pipes s) \<longleftrightarrow> p < x_npipe s \<and> \<not> p_closeQ (x_pobj s p)" for p
    unfolding pipes_ok_def ran_def by blast
  then show ?thesis
    using assms(2,3) by (auto simp: xpub_SendMsg_def broadcast_eq map_order_def takers_def)
qed

definition pub1 :: rawsock where "pub1 = fst (xpub_AddPipe 4 xpub_NewProtocol)"
definition pub_m :: message where "pub_m = \<lparr>m_id = 1, Header = [], Body = [3], m_pipe = None, m_from = 0\<rparr>"

lemma pub1_eval: "\<not> x_closed pub1" "map_order [0] pub1" "x_pobj pub1 0 = new_rpipe 4 128" "x_npipe pub1 = 1"
  by (simp_all add: pub1_def xpub_AddPipe_def xpub_NewProtocol_def attach_pipe_def raw_new_def map_order_def)

lemma pub1_run: "xpub_step\<^sup>*\<^sup>* xpub_NewProtocol pub1"
  unfolding pub1_def
  by (rule r_into_rtranclp, rule pb_add) (simp add: xpub_NewProtocol_def raw_new_def)

theorem xpub_SendMsg_fans_out_witness:
  "\<exists>t. xpub_SendMsg (\<lambda>_. False) [0] pub_m pub1 = (t, None) \<and> ch_buf (p_sendQ (x_pobj t 0)) = [pub_m]"
  using xpub_SendMsg_fans_out [OF pub1_run pub1_eval(2,1), of "\<lambda>_. False" pub_m] pub1_eval(3,4)
  by (auto simp: accepts_def give_def new_rpipe_def chan_room_def)

section \<open>The protocol contract and cooked PUB\<close>

interpretation xpub_proto: protocol_base x_closed "\<lambda>s. dom (x_pipes s)" xpub_Close xpub_AddPipe xpub_SetOption xpub_GetOption
proof unfold_locales
  show "xpub_GetOption n (fst (xpub_SetOption n v s)) = Inr v"
    if "snd (xpub_SetOption n v s) = None" "xpub_GetOption n s \<noteq> Inl ErrBadOption" for n v s
    using that(1) by (auto simp: xpub_SetOption_def xpub_GetOption_def fst_set_field asQLen_eq_Some option_names split: if_splits)
qed (auto simp: xpub_Close_def xpub_AddPipe_def xpub_SetOption_def attach_pipe_def fst_set_field split: option.splits)

text \<open>\<^verbatim>\<open>protocol/pub/pub.go\<close>.\<close>

definition pub_GetOption :: "string \<Rightarrow> rawsock \<Rightarrow> err + optval" where
  "pub_GetOption name s = (if name = OptionRaw then Inr (VBool False) else xpub_GetOption name s)"

definition pub_NewProtocol :: rawsock where
  "pub_NewProtocol = xpub_NewProtocol"

interpretation pub_proto: protocol_base x_closed "\<lambda>s. dom (x_pipes s)" xpub_Close xpub_AddPipe xpub_SetOption pub_GetOption
proof unfold_locales
  show "pub_GetOption n (fst (xpub_SetOption n v s)) = Inr v"
    if "snd (xpub_SetOption n v s) = None" "pub_GetOption n s \<noteq> Inl ErrBadOption" for n v s
    using that xpub_proto.set_get [of n v s]
    by (cases "n = OptionRaw") (simp_all add: pub_GetOption_def xpub_SetOption_def option_names)
qed (fact xpub_proto.close_open xpub_proto.close_closed xpub_proto.add_closed xpub_proto.add_keeps
    xpub_proto.set_keeps xpub_proto.set_error)+

end
