(* ===== verification/Xsurveyor.thy ===== *)
theory Xsurveyor
  imports Broadcast
begin

text \<open>
  Raw SURVEYOR, \<^verbatim>\<open>protocol/xsurveyor/xsurveyor.go\<close>: a survey is offered to the send queue of every
  pipe, as in PUB; the receivers move the survey ID of a response into its header.
\<close>

section \<open>Operations\<close>

definition xsurv_SendMsg :: "(nat \<Rightarrow> bool) \<Rightarrow> nat list \<Rightarrow> message \<Rightarrow> rawsock \<Rightarrow> rawsock \<times> status" where
  "xsurv_SendMsg parked ps m s =
     (if x_closed s then (s, Some ErrClosed) else (Free (m_id m) (broadcast parked m ps s), None))"

definition xsurv_RecvMsg_begin :: "rawsock \<Rightarrow> recv_snap" where
  "xsurv_RecvMsg_begin s = (expire_q (x_recvExpire s), x_recvQ s, x_sizeQ s)"

definition xsurv_receiver_msg :: "nat \<Rightarrow> message \<Rightarrow> rawsock \<Rightarrow> rawsock" where
  "xsurv_receiver_msg p m s =
     (if length (Body m) < 4 then Free (m_id m) s
      else hold_msg p (m\<lparr>Header := take 4 (Body m), Body := drop 4 (Body m)\<rparr>) s)"

definition xsurv_receiver_put :: "nat \<Rightarrow> rawsock \<Rightarrow> rawsock list" where
  "xsurv_receiver_put p s = receiver_put True False p s"

definition xsurv_sender_take :: "nat \<Rightarrow> rawsock \<Rightarrow> rawsock list" where
  "xsurv_sender_take p s = sender_take True p s"

definition xsurv_sender_done :: "nat \<Rightarrow> status \<Rightarrow> rawsock \<Rightarrow> rawsock" where
  "xsurv_sender_done p err s = sender_done True p err s"

definition xsurv_SetOption :: "string \<Rightarrow> optval \<Rightarrow> rawsock \<Rightarrow> rawsock \<times> status" where
  "xsurv_SetOption name v s =
     (if name = OptionRecvDeadline then set_field (asDuration v) (\<lambda>d s. s\<lparr>x_recvExpire := d\<rparr>) s
      else if name = OptionWriteQLen then set_field (asQLen v) (\<lambda>n s. s\<lparr>x_sendQLen := n\<rparr>) s
      else if name = OptionReadQLen then set_field (asQLen v) resize_recvQ s
      else (s, Some ErrBadOption))"

definition xsurv_GetOption :: "string \<Rightarrow> rawsock \<Rightarrow> err + optval" where
  "xsurv_GetOption name s =
     (if name = OptionRaw then Inr (VBool True)
      else if name = OptionRecvDeadline then Inr (VDuration (x_recvExpire s))
      else if name = OptionWriteQLen then Inr (VInt (int (x_sendQLen s)))
      else if name = OptionReadQLen then Inr (VInt (int (x_recvQLen s)))
      else Inl ErrBadOption)"

definition xsurv_AddPipe :: "u32 \<Rightarrow> rawsock \<Rightarrow> rawsock \<times> status" where
  "xsurv_AddPipe i s = (if x_closed s then (s, Some ErrClosed) else (attach_pipe i s, None))"

definition xsurv_RemovePipe :: "nat \<Rightarrow> rawsock \<Rightarrow> rawsock" where
  "xsurv_RemovePipe p s = (close_pipeQ p s)\<lparr>x_pipes := (x_pipes s)(p_ID (x_pobj s p) := None)\<rparr>"

definition xsurv_Close :: "rawsock \<Rightarrow> rawsock \<times> status" where
  "xsurv_Close s = (if x_closed s then (s, Some ErrClosed) else (close_closeQ (s\<lparr>x_closed := True\<rparr>), None))"

definition xsurv_NewProtocol :: rawsock where
  "xsurv_NewProtocol = raw_new 128 128 0"

section \<open>Runs\<close>

inductive xsurv_step :: "rawsock \<Rightarrow> rawsock \<Rightarrow> bool" where
  xv_raw: "raw_step True False True True s s' \<Longrightarrow> xsurv_step s s'"
| xv_send: "map_order ps s \<Longrightarrow> xsurv_step s (fst (xsurv_SendMsg parked ps m s))"
| xv_receive: "xsurv_step s (xsurv_receiver_msg p m s)"
| xv_set: "xsurv_step s (fst (xsurv_SetOption n v s))"
| xv_close: "xsurv_step s (fst (xsurv_Close s))"
| xv_add: "x_pipes s i = None \<Longrightarrow> xsurv_step s (fst (xsurv_AddPipe i s))"
| xv_remove: "p < x_npipe s \<Longrightarrow> \<not> p_closeQ (x_pobj s p) \<Longrightarrow> xsurv_step s (xsurv_RemovePipe p s)"

definition is_response :: "message \<Rightarrow> bool" where
  "is_response m \<longleftrightarrow> length (Header m) = 4"

definition xsurv_inv :: "rawsock \<Rightarrow> bool" where
  "xsurv_inv s \<longleftrightarrow> raw_ok is_response s \<and> pipes_ok s"

lemma xsurv_inv_frame: "xsurv_inv s \<Longrightarrow> raw_ok is_response t \<Longrightarrow> same_table s t \<Longrightarrow> xsurv_inv t"
  using same_table_ok by (auto simp: xsurv_inv_def)

lemma xsurv_set_inv: "xsurv_inv s \<Longrightarrow> xsurv_inv (fst (xsurv_SetOption n v s))"
proof (rule afterD)
  assume inv: "xsurv_inv s"
  then have ok: "raw_ok is_response s" by (simp add: xsurv_inv_def)
  have "xsurv_inv (s\<lparr>x_recvExpire := d\<rparr>)" "xsurv_inv (s\<lparr>x_sendQLen := k\<rparr>)" for d k
    using xsurv_inv_frame [OF inv] ok by simp_all
  moreover have "xsurv_inv (resize_recvQ k s)" for k
    using xsurv_inv_frame [OF inv raw_ok_make_recv [OF ok]] same_table_resize by blast
  ultimately show "after xsurv_inv (xsurv_SetOption n v s)" by (simp add: xsurv_SetOption_def inv)
qed

lemma xsurv_step_inv: "xsurv_step s t \<Longrightarrow> xsurv_inv s \<Longrightarrow> xsurv_inv t"
proof (induction rule: xsurv_step.induct)
  case (xv_raw s s')
  then show ?case using raw_step_ok raw_step_table by (blast intro: xsurv_inv_frame xsurv_inv_def [THEN iffD1, THEN conjunct1])
next
  case (xv_send ps s parked m)
  have "xsurv_inv (Free (m_id m) (broadcast parked m ps s))"
    using xv_send raw_ok_broadcast [of is_response s parked m ps] same_table_Free [OF same_table_broadcast [of s parked m ps]]
    by (intro xsurv_inv_frame [OF xv_send(2)]) (simp_all add: xsurv_inv_def)
  then show ?case using xv_send by (simp add: xsurv_SendMsg_def)
next
  case (xv_receive s p m)
  have "xsurv_inv (Free (m_id m) s)" using xsurv_inv_frame [OF xv_receive, of "Free (m_id m) s"] xv_receive by (simp add: xsurv_inv_def)
  moreover have "xsurv_inv (hold_msg p m' s)" if "is_response m'" for m'
    by (rule xsurv_inv_frame [OF xv_receive raw_ok_hold same_table_hold]) (use xv_receive that in \<open>simp_all add: xsurv_inv_def\<close>)
  ultimately show ?case by (simp add: xsurv_receiver_msg_def is_response_def)
next
  case (xv_set s n v)
  then show ?case by (rule xsurv_set_inv)
next
  case (xv_close s)
  then show ?case
    using raw_ok_close [of is_response s] same_table_close [of s] xsurv_inv_frame [OF xv_close] by (simp add: xsurv_Close_def xsurv_inv_def)
next
  case (xv_add s i)
  then show ?case by (simp add: xsurv_AddPipe_def xsurv_inv_def raw_ok_attach pipes_ok_attach)
next
  case (xv_remove p s)
  then show ?case using pipes_ok_detach [of s p] raw_ok_close_pipe [of is_response s p] by (simp add: xsurv_RemovePipe_def xsurv_inv_def)
qed

interpretation xsurv: machine "\<lambda>s. s = xsurv_NewProtocol" xsurv_step xsurv_inv
proof unfold_locales
  show "xsurv_inv s" if "s = xsurv_NewProtocol" for s
    using that by (simp add: xsurv_inv_def xsurv_NewProtocol_def raw_ok_new) (simp add: pipes_ok_def raw_new_def)
  show "xsurv_inv t" if "xsurv_inv s" "xsurv_step s t" for s t using that xsurv_step_inv by blast
qed

section \<open>Lemmas on runs\<close>

text \<open>A survey reaches exactly the attached pipes that can take it, and no run panics.\<close>

lemma xsurv_SendMsg_reaches_all:
  assumes "xsurv_step\<^sup>*\<^sup>* xsurv_NewProtocol s" and "map_order ps s" and "\<not> x_closed s"
  shows "\<not> panicked s" and "\<exists>t. xsurv_SendMsg parked ps m s = (t, None) \<and>
    (\<forall>p. x_pobj t p =
       (if p < x_npipe s \<and> \<not> p_closeQ (x_pobj s p) \<and> accepts (parked p) (x_pobj s p)
        then give m (x_pobj s p) else x_pobj s p))"
proof -
  have inv: "xsurv_inv s" by (rule xsurv.reachable_inv [OF refl assms(1)])
  then show "\<not> panicked s" by (simp add: xsurv_inv_def raw_ok_def)
  have "p \<in> ran (x_pipes s) \<longleftrightarrow> p < x_npipe s \<and> \<not> p_closeQ (x_pobj s p)" for p
    using inv unfolding xsurv_inv_def pipes_ok_def ran_def by blast
  then show "\<exists>t. xsurv_SendMsg parked ps m s = (t, None) \<and>
    (\<forall>p. x_pobj t p =
       (if p < x_npipe s \<and> \<not> p_closeQ (x_pobj s p) \<and> accepts (parked p) (x_pobj s p)
        then give m (x_pobj s p) else x_pobj s p))"
    using assms(2,3) by (auto simp: xsurv_SendMsg_def broadcast_eq map_order_def takers_def)
qed

lemma xsurv_returns_responses:
  assumes run: "xsurv_step\<^sup>*\<^sup>* xsurv_NewProtocol s" and r: "recv_try snap s = Some (t, x)"
  shows "\<exists>m. x = Got m \<and> length (Header m) = 4"
  using raw_ok_recv_try [OF _ r, of is_response] xsurv.reachable_inv [OF refl run] by (auto simp: xsurv_inv_def is_response_def)

section \<open>The protocol contract\<close>

interpretation xsurv_proto: protocol_base x_closed "\<lambda>s. dom (x_pipes s)" xsurv_Close xsurv_AddPipe xsurv_SetOption xsurv_GetOption
proof unfold_locales
  show "xsurv_GetOption n (fst (xsurv_SetOption n v s)) = Inr v"
    if "snd (xsurv_SetOption n v s) = None" "xsurv_GetOption n s \<noteq> Inl ErrBadOption" for n v s
    using that(1) by (auto simp: xsurv_SetOption_def xsurv_GetOption_def fst_set_field asQLen_eq_Some option_names split: if_splits)
  show "fst (xsurv_SetOption n v s) = s" if "snd (xsurv_SetOption n v s) \<noteq> None" for n v s
    by (rule cleanD [OF _ that]) (simp add: xsurv_SetOption_def)
qed (simp_all add: xsurv_Close_def xsurv_AddPipe_def attach_pipe_def xsurv_SetOption_def close_closeQ_def fst_set_field split: option.split)

end
