(* ===== verification/Xpair.thy ===== *)
theory Xpair
  imports RawSock
begin

text \<open>
  Raw PAIR, \<^verbatim>\<open>protocol/xpair/xpair.go\<close>: one peer at a time, one send queue and one receive queue,
  both replaceable. Steps are labelled with the messages that enter and leave the send queue.
\<close>

section \<open>Operations\<close>

definition xpair_SendMsg_begin :: "rawsock \<Rightarrow> err + timeq \<times> nat \<times> nat" where
  "xpair_SendMsg_begin s =
     (if x_closed s then Inl ErrClosed
      else Inr (if x_bestEffort s then ClosedQ else expire_q (x_sendExpire s), x_sendQ s, x_sizeQ s))"

definition xpair_SendMsg_try :: "nat option \<Rightarrow> message \<Rightarrow> timeq \<times> nat \<times> nat \<Rightarrow> rawsock \<Rightarrow> (rawsock \<times> status \<times> bool) option" where
  "xpair_SendMsg_try parked m snap s =
     (case snap of (tq, sq, zq) \<Rightarrow> map_option (\<lambda>s'. (s', None, True)) (sq_send parked sq m s))"

text \<open>
  The outcomes of the blocking \<^verbatim>\<open>select\<close>; the flag tells whether the message entered the queue.
  \<^verbatim>\<open>timeQ == closedQ\<close> is the best-effort case.
\<close>

definition xpair_SendMsg_wait ::
    "nat option \<Rightarrow> bool \<Rightarrow> message \<Rightarrow> timeq \<times> nat \<times> nat \<Rightarrow> rawsock \<Rightarrow> (rawsock \<times> status \<times> bool) list" where
  "xpair_SendMsg_wait parked fired m snap s =
     (case snap of (tq, sq, zq) \<Rightarrow>
        ready_cases
          [case_if (x_closeQ s) (s, Some ErrClosed, False),
           case_if (timeq_ready fired tq)
             (if tq = ClosedQ then (Free (m_id m) s, None, False) else (s, Some ErrSendTimeout, False)),
           case_if (x_zclosed s zq) (Free (m_id m) s, None, False),
           xpair_SendMsg_try parked m snap s])"

definition xpair_RecvMsg_begin :: "rawsock \<Rightarrow> recv_snap" where
  "xpair_RecvMsg_begin s = (expire_q (x_recvExpire s), x_recvQ s, x_sizeQ s)"

definition xpair_SetOption :: "string \<Rightarrow> optval \<Rightarrow> rawsock \<Rightarrow> rawsock \<times> status" where
  "xpair_SetOption name v s =
     (if name = OptionBestEffort then set_field (asBool v) (\<lambda>b s. s\<lparr>x_bestEffort := b\<rparr>) s
      else if name = OptionRecvDeadline then set_field (asDuration v) (\<lambda>d s. s\<lparr>x_recvExpire := d\<rparr>) s
      else if name = OptionSendDeadline then set_field (asDuration v) (\<lambda>d s. s\<lparr>x_sendExpire := d\<rparr>) s
      else if name = OptionReadQLen then set_field (asQLen v) resize_recvQ s
      else if name = OptionWriteQLen then set_field (asQLen v) resize_sendQ s
      else (s, Some ErrBadOption))"

definition xpair_GetOption :: "string \<Rightarrow> rawsock \<Rightarrow> err + optval" where
  "xpair_GetOption name s =
     (if name = OptionRaw then Inr (VBool True)
      else if name = OptionBestEffort then Inr (VBool (x_bestEffort s))
      else if name = OptionRecvDeadline then Inr (VDuration (x_recvExpire s))
      else if name = OptionSendDeadline then Inr (VDuration (x_sendExpire s))
      else if name = OptionReadQLen then Inr (VInt (int (x_recvQLen s)))
      else if name = OptionWriteQLen then Inr (VInt (int (x_sendQLen s)))
      else Inl ErrBadOption)"

definition xpair_AddPipe :: "u32 \<Rightarrow> rawsock \<Rightarrow> rawsock \<times> status" where
  "xpair_AddPipe i s =
     (if x_closed s then (s, Some ErrClosed)
      else if x_peer s \<noteq> None then (s, Some ErrProtoState)
      else ((upd_pipe (x_npipe s) (\<lambda>_. new_rpipe i 0) s)\<lparr>x_peer := Some (x_npipe s), x_npipe := Suc (x_npipe s)\<rparr>, None))"

definition xpair_RemovePipe :: "nat \<Rightarrow> rawsock \<Rightarrow> rawsock" where
  "xpair_RemovePipe p s = (if x_peer s = Some p then close_pipeQ p (s\<lparr>x_peer := None\<rparr>) else s)"

definition xpair_Close :: "rawsock \<Rightarrow> rawsock \<times> status" where
  "xpair_Close s =
     (if x_closed s then (s, Some ErrClosed) else (close_closeQ (s\<lparr>x_closed := True\<rparr>), None))"

definition xpair_receiver_msg :: "nat \<Rightarrow> message \<Rightarrow> rawsock \<Rightarrow> rawsock" where
  "xpair_receiver_msg p m s = hold_msg p m s"

definition xpair_receiver_put :: "nat \<Rightarrow> rawsock \<Rightarrow> rawsock list" where
  "xpair_receiver_put p s = receiver_put True False p s"

definition xpair_sender_take :: "nat \<Rightarrow> rawsock \<Rightarrow> (rawsock \<times> message option) list" where
  "xpair_sender_take p s = sq_take p s"

text \<open>After a send the loop reads the queue and size channel again.\<close>

definition xpair_sender_done :: "nat \<Rightarrow> status \<Rightarrow> rawsock \<Rightarrow> rawsock" where
  "xpair_sender_done p err s =
     (if p_out (x_pobj s p) = None then s
      else if err = None then sq_begin p (sender_done True p None s) else sender_done True p err s)"

definition xpair_NewProtocol :: rawsock where
  "xpair_NewProtocol = raw_new 128 128 0"

section \<open>Runs\<close>

text \<open>
  \<open>xpair_step acc tak\<close>: \<open>acc\<close> are the messages the step puts into the send queue and \<open>tak\<close> those it
  takes out. \<open>xp_resize_send\<close> is kept apart: replacing the queue abandons what is in it.
\<close>

inductive xpair_step :: "message list \<Rightarrow> message list \<Rightarrow> rawsock \<Rightarrow> rawsock \<Rightarrow> bool" where
  xp_recv: "recv_step True False s s' \<Longrightarrow> xpair_step [] [] s s'"
| xp_send: "sq = x_sendQ s \<Longrightarrow> (s', st, acc) \<in> set (xpair_SendMsg_wait pk f m (tq, sq, zq) s) \<Longrightarrow>
     xpair_step (if acc then [m] else []) (if acc \<and> chans s' sq = chans s sq then [m] else []) s s'"
| xp_receive: "xpair_step [] [] s (xpair_receiver_msg p m s)"
| xp_begin: "xpair_step [] [] s (sq_begin p s)"
| xp_take: "(s', x) \<in> set (xpair_sender_take p s) \<Longrightarrow>
     xpair_step [] (case x of Some m \<Rightarrow> [m] | None \<Rightarrow> []) s s'"
| xp_sent: "xpair_step [] [] s (xpair_sender_done p err s)"
| xp_set: "n \<noteq> OptionWriteQLen \<Longrightarrow> xpair_step [] [] s (fst (xpair_SetOption n v s))"
| xp_close: "xpair_step [] [] s (fst (xpair_Close s))"
| xp_add: "xpair_step [] [] s (fst (xpair_AddPipe i s))"
| xp_remove: "xpair_step [] [] s (xpair_RemovePipe p s)"

definition peer_ok :: "rawsock \<Rightarrow> bool" where
  "peer_ok s \<longleftrightarrow> (\<forall>p. x_peer s = Some p \<longleftrightarrow> p < x_npipe s \<and> \<not> p_closeQ (x_pobj s p))"

text \<open>
  The invariant for runs that keep the send queue: it is queue 2, distinct from every receive
  queue, and the sender goroutines hold it or have not read it yet.
\<close>

definition xpair_inv :: "rawsock \<Rightarrow> bool" where
  "xpair_inv s \<longleftrightarrow> raw_ok any s \<and> rqs_ok s \<and> peer_ok s \<and> x_sendQ s = 2 \<and> 2 \<notin> x_rqs s \<and>
     (\<forall>p. fst (p_snap (x_pobj s p)) \<in> {0, 2})"

lemma xpair_invD:
  assumes "xpair_inv s"
  shows "raw_ok any s" "rqs_ok s" "peer_ok s" "x_sendQ s = 2" "2 \<notin> x_rqs s" "fst (p_snap (x_pobj s p)) \<in> {0, 2}"
  using assms by (auto simp: xpair_inv_def)

text \<open>Most steps leave the peer alone.\<close>

definition same_peer :: "rawsock \<Rightarrow> rawsock \<Rightarrow> bool" where
  "same_peer s t \<longleftrightarrow> x_peer t = x_peer s \<and> x_npipe t = x_npipe s \<and>
     (\<forall>p. p_closeQ (x_pobj t p) = p_closeQ (x_pobj s p))"

lemma same_peer_ok: "same_peer s t \<Longrightarrow> peer_ok s \<Longrightarrow> peer_ok t"
  by (simp add: same_peer_def peer_ok_def)

lemma recv_step_peer: "recv_step zf ze s t \<Longrightarrow> same_peer s t"
proof (induction rule: recv_step.induct)
  case (rs_recv_try snap s s' x)
  then show ?case by (auto simp: recv_try_def same_peer_def split: prod.splits option.splits dest!: try_recv_eqs)
next
  case (rs_recv_wait snap s s' x f)
  then show ?case
    by (auto simp: recv_wait_def recv_try_def set_ready_cases same_peer_def split: prod.splits option.splits
        dest!: try_recv_eqs)
next
  case (rs_rendezvous snap s p s' x)
  then show ?case by (auto simp: rendezvous_def same_peer_def split: prod.splits option.splits if_splits)
next
  case (rs_put s' p s)
  then obtain m rq zq where h: "p_hold (x_pobj s p) = Some (m, rq, zq)"
    by (cases "p_hold (x_pobj s p)") (auto simp: receiver_put_def)
  then show ?case using rs_put
    by (auto simp: receiver_put_def set_ready_cases try_send_def receiver_exit_def free_if_def same_peer_def
        split: if_splits)
qed (simp_all add: receiver_exit_def same_peer_def)

text \<open>The obligations of a step, given that queues and peer are as before.\<close>

lemma xpair_inv_frame:
  assumes "xpair_inv s" "raw_ok any t" "same_queues s t" "same_peer s t"
  shows "xpair_inv t"
  using assms same_queues_rqs [OF assms(3)] same_peer_ok [OF assms(4)]
  by (auto simp: xpair_inv_def same_queues_def)

lemma sq_send_frame: "sq_send pk q m s = Some t \<Longrightarrow> same_queues s t \<and> same_peer s t"
  by (auto simp: sq_send_def try_send_def same_queues_def same_peer_def split: option.splits if_splits)

lemma sq_begin_inv: "xpair_inv s \<Longrightarrow> xpair_inv (sq_begin p s)"
proof -
  assume inv: "xpair_inv s"
  have "raw_ok any (sq_begin p s)" by (rule raw_ok_sq_begin [OF xpair_invD(1) [OF inv]])
  moreover have "rqs_ok (sq_begin p s)" using xpair_invD(2) [OF inv] by (simp add: rqs_ok_def sq_begin_def)
  moreover have "peer_ok (sq_begin p s)" using xpair_invD(3) [OF inv] by (simp add: peer_ok_def sq_begin_def)
  ultimately show ?thesis using inv by (simp add: xpair_inv_def sq_begin_def)
qed

lemma sq_take_inv:
  assumes inv: "xpair_inv s" and r: "(t, x) \<in> set (sq_take p s)"
  shows "xpair_inv t"
proof -
  have ok: "raw_ok any t" by (rule raw_ok_sq_take [OF xpair_invD(1) [OF inv] r])
  show ?thesis using r
  proof (cases rule: sq_take_cases)
    case (1 m c)
    then have "same_queues s t" "same_peer s t" by (simp_all add: same_queues_def same_peer_def)
    then show ?thesis using inv ok by (blast intro: xpair_inv_frame)
  next
    case 2
    then show ?thesis using sq_begin_inv [OF inv] by simp
  next
    case 3
    then have "same_queues s t" "same_peer s t" by (simp_all add: same_queues_def same_peer_def)
    then show ?thesis using inv ok by (blast intro: xpair_inv_frame)
  qed
qed

lemma sender_done_inv: "xpair_inv s \<Longrightarrow> xpair_inv (sender_done b p e s)"
  using raw_ok_sender_done [of any s b p e] xpair_invD(1) [of s]
  by (auto intro!: xpair_inv_frame [of s] simp: sender_done_def Let_def same_queues_def same_peer_def split: option.splits)

lemma resize_recvQ_inv:
  assumes inv: "xpair_inv s"
  shows "xpair_inv (resize_recvQ n s)"
proof -
  have ok: "raw_ok any s" by (rule xpair_invD(1) [OF inv])
  have n: "nchan s \<noteq> 2" using raw_okD(6) [OF ok] xpair_invD(4) [OF inv] by simp
  have z: "\<not> x_zclosed s (x_sizeQ s)" using raw_okD(8) [OF ok] by blast
  then have "rqs_ok (resize_recvQ n s)" "peer_ok (resize_recvQ n s)"
    using xpair_invD(2,3) [OF inv]
    by (auto simp: rqs_ok_def peer_ok_def resize_recvQ_def make_chan_def close_sizeQ_def less_Suc_eq)
  then show ?thesis
    using inv n z raw_ok_make_recv [OF ok]
    by (auto simp: xpair_inv_def resize_recvQ_def make_chan_def close_sizeQ_def)
qed

lemma xpair_set_inv:
  assumes inv: "xpair_inv s" and n: "n \<noteq> OptionWriteQLen"
  shows "xpair_inv (fst (xpair_SetOption n v s))"
proof -
  have "xpair_inv (s\<lparr>x_bestEffort := b\<rparr>)" "xpair_inv (s\<lparr>x_recvExpire := d\<rparr>)" "xpair_inv (s\<lparr>x_sendExpire := d\<rparr>)" for b d
    using inv by (simp_all add: xpair_inv_def rqs_ok_def peer_ok_def)
  then show ?thesis
    by - (rule afterD, simp add: xpair_SetOption_def inv n resize_recvQ_inv)
qed

lemma xpair_add_inv:
  assumes inv: "xpair_inv s"
  shows "xpair_inv (fst (xpair_AddPipe i s))"
proof (cases "x_closed s \<or> x_peer s \<noteq> None")
  case False
  let ?t = "(upd_pipe (x_npipe s) (\<lambda>_. new_rpipe i 0) s)\<lparr>x_peer := Some (x_npipe s), x_npipe := Suc (x_npipe s)\<rparr>"
  have "raw_ok any ?t"
    using xpair_invD(1) [OF inv] by (simp add: raw_ok_upd_pipe rpipe_ok_def new_rpipe_def)
  moreover have "rqs_ok ?t" using xpair_invD(2) [OF inv] by (auto simp: rqs_ok_def new_rpipe_def)
  moreover have "peer_ok ?t"
    using xpair_invD(3) [OF inv] False by (auto simp: peer_ok_def new_rpipe_def less_Suc_eq)
  ultimately have "xpair_inv ?t" using inv by (auto simp: xpair_inv_def new_rpipe_def)
  then show ?thesis using False by (simp add: xpair_AddPipe_def)
qed (use inv in \<open>auto simp: xpair_AddPipe_def\<close>)

lemma xpair_remove_inv:
  assumes inv: "xpair_inv s"
  shows "xpair_inv (xpair_RemovePipe p s)"
proof (cases "x_peer s = Some p")
  case True
  have o: "\<not> p_closeQ (x_pobj s p)" using xpair_invD(3) [OF inv] True unfolding peer_ok_def by blast
  let ?t = "close_pipeQ p (s\<lparr>x_peer := None\<rparr>)"
  have "raw_ok any ?t" using xpair_invD(1) [OF inv] o by (intro raw_ok_close_pipe) simp_all
  moreover have "rqs_ok ?t" using xpair_invD(2) [OF inv] o by (auto simp: rqs_ok_def close_pipeQ_def)
  moreover have "\<forall>q<x_npipe s. q \<noteq> p \<longrightarrow> p_closeQ (x_pobj s q)"
    using xpair_invD(3) [OF inv] True unfolding peer_ok_def by (metis option.inject)
  then have "peer_ok ?t" using o by (simp add: peer_ok_def close_pipeQ_def)
  ultimately show ?thesis using inv True o by (auto simp: xpair_inv_def xpair_RemovePipe_def close_pipeQ_def)
qed (use inv in \<open>simp add: xpair_RemovePipe_def\<close>)

lemma xpair_send_inv:
  assumes inv: "xpair_inv s" and r: "(t, st, acc) \<in> set (xpair_SendMsg_wait pk f m snap s)"
  shows "xpair_inv t"
proof -
  obtain tq sq zq where "snap = (tq, sq, zq)" by (cases snap) auto
  then consider "t = s" | "t = Free (m_id m) s" | "sq_send pk sq m s = Some t"
    using r by (auto simp: xpair_SendMsg_wait_def xpair_SendMsg_try_def set_ready_cases split: if_splits)
  then show ?thesis
  proof cases
    case 2
    have "same_queues s t" "same_peer s t" unfolding 2 by (simp_all add: same_queues_def same_peer_def)
    then show ?thesis using inv xpair_invD(1) [OF inv] 2 by (auto intro: xpair_inv_frame)
  next
    case 3
    then show ?thesis
      using sq_send_frame raw_ok_sq_send [OF xpair_invD(1) [OF inv]] inv by (blast intro: xpair_inv_frame)
  qed (simp add: inv)
qed

lemma xpair_hold_inv:
  assumes inv: "xpair_inv s"
  shows "xpair_inv (xpair_receiver_msg p m s)"
proof -
  have "raw_ok any (hold_msg p m s)" using raw_ok_hold [OF xpair_invD(1) [OF inv]] by simp
  moreover have "rqs_ok (hold_msg p m s)" using xpair_invD(2) [OF inv] by (auto simp: rqs_ok_def hold_msg_def)
  moreover have "peer_ok (hold_msg p m s)" using xpair_invD(3) [OF inv] by (simp add: peer_ok_def hold_msg_def)
  ultimately show ?thesis using inv by (auto simp: xpair_inv_def xpair_receiver_msg_def hold_msg_def)
qed

lemma xpair_close_inv:
  assumes inv: "xpair_inv s"
  shows "xpair_inv (fst (xpair_Close s))"
proof (cases "x_closed s")
  case False
  have "raw_ok any (close_closeQ (s\<lparr>x_closed := True\<rparr>))" by (rule raw_ok_close [OF xpair_invD(1) [OF inv] False])
  then show ?thesis
    using inv False raw_okD(9) [OF xpair_invD(1) [OF inv]]
    by (auto simp: xpair_Close_def xpair_inv_def close_closeQ_def rqs_ok_def peer_ok_def)
qed (use inv in \<open>simp add: xpair_Close_def\<close>)

lemma xpair_step_inv: "xpair_step a k s t \<Longrightarrow> xpair_inv s \<Longrightarrow> xpair_inv t"
proof (induction rule: xpair_step.induct)
  case (xp_recv s s')
  then show ?case
    using recv_step_ok recv_step_queues recv_step_peer xpair_invD(1) by (blast intro: xpair_inv_frame)
next
  case (xp_sent s p err)
  then show ?case by (simp add: xpair_sender_done_def sender_done_inv sq_begin_inv)
next
  case (xp_take s' x p s)
  then show ?case unfolding xpair_sender_take_def by (blast intro: sq_take_inv)
qed (blast intro: xpair_send_inv xpair_hold_inv sq_begin_inv xpair_set_inv xpair_close_inv xpair_add_inv
    xpair_remove_inv)+

interpretation xpair: machine "\<lambda>s. s = xpair_NewProtocol" "\<lambda>s t. \<exists>a k. xpair_step a k s t" xpair_inv
proof unfold_locales
  show "xpair_inv s" if "s = xpair_NewProtocol" for s
    using that raw_ok_new [of any 128 128 0]
    by (simp add: xpair_inv_def xpair_NewProtocol_def) (simp add: rqs_ok_def peer_ok_def raw_new_def)
  show "xpair_inv t" if "xpair_inv s" "\<exists>a k. xpair_step a k s t" for s t using that xpair_step_inv by blast
qed

section \<open>First in, first out\<close>

lemma close_chans [simp]: "chans (close_closeQ s) = chans s" "chans (close_pipeQ p s) = chans s"
  by (simp_all add: close_closeQ_def close_pipeQ_def)

lemma xpair_set_chans:
  assumes inv: "xpair_inv s" and n: "n \<noteq> OptionWriteQLen"
  shows "chans (fst (xpair_SetOption n v s)) 2 = chans s 2"
proof -
  have "2 \<noteq> nchan s" using raw_okD(6) [OF xpair_invD(1) [OF inv]] xpair_invD(4) [OF inv] by simp
  then have "chans (resize_recvQ k s) 2 = chans s 2" for k
    by (simp add: resize_recvQ_def make_chan_def close_sizeQ_def)
  then show ?thesis
    by - (rule afterD, simp add: xpair_SetOption_def n)
qed

lemma xpair_step_log:
  assumes "xpair_step a k s t" and inv: "xpair_inv s"
  shows "qlog 2 a k s t"
  using assms(1)
proof cases
  case xp_recv
  then show ?thesis
    using recv_step_chans [OF xp_recv(3) xpair_invD(2) [OF inv] xpair_invD(5) [OF inv]] by (simp add: qlog_same)
next
  case (xp_send sq st acc pk f m tq zq)
  have sq: "sq = 2" using xp_send(3) xpair_invD(4) [OF inv] by simp
  consider "\<not> acc" "chans t = chans s" | "acc" "sq_send pk 2 m s = Some t"
    using xp_send(4) sq by (auto simp: xpair_SendMsg_wait_def xpair_SendMsg_try_def set_ready_cases split: if_splits)
  then show ?thesis
  proof cases
    case 1
    then show ?thesis using xp_send(1,2) by (simp add: qlog_same)
  next
    case 2
    have b: "chan_push m c \<noteq> c" for c :: "message gochan"
    proof
      assume "chan_push m c = c"
      then have "ch_buf (chan_push m c) = ch_buf c" by simp
      then show False by simp
    qed
    have pl: "plain_chan (chans s 2)" by (rule raw_okD(2) [OF xpair_invD(1) [OF inv]])
    show ?thesis
    proof (cases "try_send 2 m s")
      case None
      then have "chans t = chans s" "ch_buf (chans s 2) = []"
        using 2(2) by (auto simp: sq_send_def split: option.splits if_splits)
      then show ?thesis using xp_send(1,2) 2(1) sq by (simp add: qlog_def)
    next
      case (Some u)
      then have "t = s\<lparr>chans := (chans s)(2 := chan_push m (chans s 2))\<rparr>"
        using 2(2) try_sendD [OF Some] pl by (auto simp: sq_send_def plain_chan_def)
      then show ?thesis using xp_send(1,2) 2(1) sq b by (simp add: qlog_def)
    qed
  qed
next
  case (xp_take x p)
  have "fst (p_snap (x_pobj s p)) \<in> {0, 2}" by (rule xpair_invD(6) [OF inv])
  then show ?thesis
  proof (elim insertE)
    assume "fst (p_snap (x_pobj s p)) = 0"
    then have "x = None" "chans t = chans s"
      using xp_take(3) by (auto simp: xpair_sender_take_def sq_take_def Let_def set_ready_cases try_recv_def sq_begin_def split: if_splits)
    then show ?thesis using xp_take(1,2) by (simp add: qlog_same)
  next
    assume "fst (p_snap (x_pobj s p)) = 2"
    then show ?thesis
      using qlog_take [OF xpair_invD(1) [OF inv]] xp_take(1-3) by (simp add: xpair_sender_take_def)
  qed simp
next
  case (xp_set n v)
  then show ?thesis using xpair_set_chans [OF inv] by (simp add: qlog_same)
next
  case (xp_sent p err)
  then show ?thesis
    by (auto simp: xpair_sender_done_def sender_done_def sq_begin_def Let_def intro!: qlog_same split: option.splits)
qed (auto simp: xpair_receiver_msg_def hold_msg_def sq_begin_def xpair_Close_def xpair_AddPipe_def xpair_RemovePipe_def
    intro!: qlog_same)

inductive xpair_run :: "message list \<Rightarrow> message list \<Rightarrow> rawsock \<Rightarrow> rawsock \<Rightarrow> bool" where
  xrun_refl: "xpair_run [] [] s s"
| xrun_step: "xpair_run a k s t \<Longrightarrow> xpair_step a' k' t u \<Longrightarrow> xpair_run (a @ a') (k @ k') s u"

lemma xpair_run_log: "xpair_run a k s t \<Longrightarrow> xpair_inv s \<Longrightarrow> qlog 2 a k s t \<and> xpair_inv t"
proof (induction rule: xpair_run.induct)
  case (xrun_refl s)
  then show ?case by (simp add: qlog_def)
next
  case (xrun_step a k s t a' k' u)
  then show ?case using xpair_step_log xpair_step_inv qlog_trans by blast
qed

section \<open>Properties\<close>

text \<open>
  Raw PAIR neither loses, duplicates nor reorders what it accepts: in every run that does not
  replace the send queue, the messages accepted by \<^verbatim>\<open>SendMsg\<close>, in order, are those that the
  sender goroutines took, in order, followed by those still in the queue; and nothing panics.
\<close>

theorem xpair_send_fifo:
  assumes "xpair_run acc tak xpair_NewProtocol s"
  shows "acc = tak @ ch_buf (chans s 2) \<and> \<not> panicked s"
proof -
  have "qlog 2 acc tak xpair_NewProtocol s" "xpair_inv s"
    using xpair_run_log [OF assms xpair.init_inv [OF refl]] by simp_all
  moreover have "ch_buf (chans xpair_NewProtocol 2) = []" by (simp add: xpair_NewProtocol_def raw_new_def)
  ultimately show ?thesis using raw_okD(1) [OF xpair_invD(1)] by (auto simp: qlog_def)
qed

text \<open>
  A PAIR socket has at most one peer: in every reachable state the peer is the one pipe whose
  \<^verbatim>\<open>closeQ\<close> is open, and while it is attached \<^verbatim>\<open>AddPipe\<close> refuses any other with
  \<^verbatim>\<open>ErrProtoState\<close> (or \<^verbatim>\<open>ErrClosed\<close>) and changes nothing.
\<close>

theorem xpair_single_peer:
  assumes "(\<lambda>s t. \<exists>a k. xpair_step a k s t)\<^sup>*\<^sup>* xpair_NewProtocol s"
  shows "(\<forall>p q. p < x_npipe s \<and> q < x_npipe s \<and> \<not> p_closeQ (x_pobj s p) \<and> \<not> p_closeQ (x_pobj s q) \<longrightarrow> p = q) \<and>
    (\<forall>p i. x_peer s = Some p \<longrightarrow> xpair_AddPipe i s = (s, Some (if x_closed s then ErrClosed else ErrProtoState)))"
proof -
  have "peer_ok s" using xpair.reachable_inv [OF refl assms] by (rule xpair_invD(3))
  then have "p = q" if "p < x_npipe s" "q < x_npipe s" "\<not> p_closeQ (x_pobj s p)" "\<not> p_closeQ (x_pobj s q)" for p q
    using that unfolding peer_ok_def by (metis option.inject)
  then show ?thesis by (auto simp: xpair_AddPipe_def)
qed

definition xpr1 :: rawsock where "xpr1 = fst (xpair_AddPipe 7 xpair_NewProtocol)"
definition xpr_m :: message where "xpr_m = \<lparr>m_id = 1, Header = [], Body = [9], m_pipe = None, m_from = 0\<rparr>"

theorem xpair_send_fifo_witness:
  "\<exists>s. xpair_run [xpr_m] [] xpair_NewProtocol s \<and> [xpr_m] = ch_buf (chans s 2) \<and> \<not> panicked s"
proof -
  let ?c = "chan_push xpr_m (make_gochan 128)"
  let ?s = "xpr1\<lparr>chans := (chans xpr1)(2 := ?c)\<rparr>"
  have e: "x_sendQ xpr1 = 2" "chans xpr1 2 = make_gochan 128"
    by (simp_all add: xpr1_def xpair_AddPipe_def xpair_NewProtocol_def raw_new_def)
  then have "sq_send None 2 xpr_m xpr1 = Some ?s" by (simp add: sq_send_def try_send_def chan_room_def)
  then have "(?s, None, True) \<in> set (xpair_SendMsg_wait None False xpr_m (NilQ, 2, 0) xpr1)"
    by (simp add: xpair_SendMsg_wait_def xpair_SendMsg_try_def set_ready_cases)
  from xp_send [OF e(1) [symmetric] this] have s: "xpair_step [xpr_m] [] xpr1 ?s"
    using e(2) by (simp add: chan_push_def make_gochan_def split: if_splits)
  have "xpair_run ([] @ []) ([] @ []) xpair_NewProtocol xpr1"
    unfolding xpr1_def by (rule xrun_step [OF xrun_refl xp_add])
  from xrun_step [OF this s] have r: "xpair_run [xpr_m] [] xpair_NewProtocol ?s" by simp
  from xpair_send_fifo [OF r] r show ?thesis by auto
qed

theorem xpair_single_peer_witness: "xpair_AddPipe 8 xpr1 = (xpr1, Some ErrProtoState)"
proof -
  have "(\<lambda>s t. \<exists>a k. xpair_step a k s t)\<^sup>*\<^sup>* xpair_NewProtocol xpr1"
    unfolding xpr1_def by (rule r_into_rtranclp) (blast intro: xp_add)
  moreover have "x_peer xpr1 = Some 0" "\<not> x_closed xpr1"
    by (simp_all add: xpr1_def xpair_AddPipe_def xpair_NewProtocol_def raw_new_def)
  ultimately show ?thesis using xpair_single_peer by auto
qed

section \<open>The protocol contract and cooked PAIR\<close>

lemma resize_sendQ_simps [simp]:
  "x_closed (resize_sendQ n s) = x_closed s" "x_sendQLen (resize_sendQ n s) = n" "x_peer (resize_sendQ n s) = x_peer s"
  "x_pobj (resize_sendQ n s) = x_pobj s" "x_pobj (resize_recvQ n s) = x_pobj s" "x_peer (resize_recvQ n s) = x_peer s"
  by (simp_all add: resize_sendQ_def resize_recvQ_def make_chan_def close_sizeQ_def)

definition peer_ids :: "rawsock \<Rightarrow> u32 set" where
  "peer_ids s = (case x_peer s of Some p \<Rightarrow> {p_ID (x_pobj s p)} | None \<Rightarrow> {})"

lemma peer_ids_upd [simp]:
  "peer_ids (s\<lparr>x_bestEffort := b\<rparr>) = peer_ids s" "peer_ids (s\<lparr>x_recvExpire := d\<rparr>) = peer_ids s"
  "peer_ids (s\<lparr>x_sendExpire := d\<rparr>) = peer_ids s" "peer_ids (resize_recvQ n s) = peer_ids s"
  "peer_ids (resize_sendQ n s) = peer_ids s"
  by (auto simp: peer_ids_def split: option.split)

interpretation xpair_proto: protocol_base x_closed peer_ids xpair_Close xpair_AddPipe xpair_SetOption xpair_GetOption
proof unfold_locales
  show "xpair_GetOption n (fst (xpair_SetOption n v s)) = Inr v"
    if "snd (xpair_SetOption n v s) = None" "xpair_GetOption n s \<noteq> Inl ErrBadOption" for n v s
  proof (cases "n = OptionRaw")
    case True
    then show ?thesis using that by (simp add: xpair_SetOption_def option_names)
  next
    case False
    then show ?thesis using that(1)
      by (auto simp: xpair_SetOption_def xpair_GetOption_def fst_set_field asQLen_eq_Some split: if_splits)
  qed
  show "fst (xpair_SetOption n v s) = s" if "snd (xpair_SetOption n v s) \<noteq> None" for n v s
    by (rule cleanD [OF _ that]) (simp add: xpair_SetOption_def)
  show "x_closed (fst (xpair_SetOption n v s)) = x_closed s \<and> peer_ids (fst (xpair_SetOption n v s)) = peer_ids s" for n v s
    by (rule afterD) (simp add: xpair_SetOption_def)
qed (auto simp: xpair_Close_def xpair_AddPipe_def)

text \<open>\<^verbatim>\<open>protocol/pair/pair.go\<close> wraps the raw protocol and answers \<^verbatim>\<open>OptionRaw\<close> itself.\<close>

definition pair_GetOption :: "string \<Rightarrow> rawsock \<Rightarrow> err + optval" where
  "pair_GetOption name s = (if name = OptionRaw then Inr (VBool False) else xpair_GetOption name s)"

definition pair_NewProtocol :: rawsock where
  "pair_NewProtocol = xpair_NewProtocol"

interpretation pair_proto: protocol_base x_closed peer_ids xpair_Close xpair_AddPipe xpair_SetOption pair_GetOption
proof unfold_locales
  show "pair_GetOption n (fst (xpair_SetOption n v s)) = Inr v"
    if "snd (xpair_SetOption n v s) = None" "pair_GetOption n s \<noteq> Inl ErrBadOption" for n v s
    using that xpair_proto.set_get [of n v s]
    by (cases "n = OptionRaw") (simp_all add: pair_GetOption_def xpair_SetOption_def option_names)
qed (fact xpair_proto.close_open xpair_proto.close_closed xpair_proto.add_closed xpair_proto.add_keeps
    xpair_proto.set_keeps xpair_proto.set_error)+

end
