(* ===== verification/Xpair1.thy ===== *)
theory Xpair1
  imports TypedQueues Xpair
begin

text \<open>
  PAIR version 1, \<^verbatim>\<open>protocol/xpair1/xpair1.go\<close> and \<^verbatim>\<open>protocol/pair1/pair1.go\<close>: like PAIR, with a
  four-byte header that counts the hops of a message, so that a loop of devices ends.
\<close>

section \<open>Operations\<close>

text \<open>A message whose header is not a hop count is dropped, and \<^verbatim>\<open>SendMsg\<close> reports success.\<close>

definition pair1_SendMsg_begin :: "message \<Rightarrow> rawsock \<Rightarrow> rawsock \<times> (status + timeq \<times> nat \<times> nat)" where
  "pair1_SendMsg_begin m s =
     (if length (Header m) < 4 then (Free (m_id m) s, Inl None)
      else if Header m ! 0 \<noteq> 0 \<or> Header m ! 1 \<noteq> 0 \<or> Header m ! 2 \<noteq> 0 then (Free (m_id m) s, Inl None)
      else if x_closed s then (s, Inl (Some ErrClosed))
      else (s, Inr (if x_bestEffort s then ClosedQ else expire_q (x_sendExpire s), x_sendQ s, x_sizeQ s)))"

definition pair1_SendMsg_try :: "nat option \<Rightarrow> message \<Rightarrow> timeq \<times> nat \<times> nat \<Rightarrow> rawsock \<Rightarrow> (rawsock \<times> status) option" where
  "pair1_SendMsg_try parked m snap s =
     (case snap of (tq, sq, zq) \<Rightarrow> map_option (\<lambda>t. (t, None)) (sq_send parked sq m s))"

definition pair1_SendMsg_wait ::
    "nat option \<Rightarrow> bool \<Rightarrow> message \<Rightarrow> timeq \<times> nat \<times> nat \<Rightarrow> rawsock \<Rightarrow> (rawsock \<times> status) list" where
  "pair1_SendMsg_wait parked fired m snap s =
     (case snap of (tq, sq, zq) \<Rightarrow>
        ready_cases
          [case_if (x_closeQ s) (s, Some ErrClosed),
           case_if (timeq_ready fired tq)
             (if tq = ClosedQ then (Free (m_id m) s, None) else (s, Some ErrSendTimeout)),
           case_if (x_zclosed s zq) (Free (m_id m) s, None),
           pair1_SendMsg_try parked m snap s])"

definition pair1_RecvMsg_begin :: "rawsock \<Rightarrow> recv_snap" where
  "pair1_RecvMsg_begin s = (expire_q (x_recvExpire s), x_recvQ s, x_sizeQ s)"

text \<open>The new header: the four bytes appended, the last one replaced by the hop count.\<close>

definition pair1_header :: "nat \<Rightarrow> message \<Rightarrow> bytes option" where
  "pair1_header ttl m =
     (if length (Body m) < 4 then None
      else let hops = Uint32 (Body m) in
           if 255 \<le> hops \<or> of_nat ttl < hops then None
           else Some ((Header m @ take 4 (Body m))[3 := ucast (hops + 1)]))"

definition pair1_receiver_msg :: "nat \<Rightarrow> nat \<Rightarrow> message \<Rightarrow> rawsock \<Rightarrow> rawsock" where
  "pair1_receiver_msg k p m s =
     (case pair1_header (x_ttl s) m of
        None \<Rightarrow> Free (m_id m) s
      | Some h \<Rightarrow>
          (case make_unique k m s of (m1, s1) \<Rightarrow> hold_msg p (m1\<lparr>Header := h, Body := drop 4 (Body m1)\<rparr>) s1))"

definition pair1_receiver_put :: "nat \<Rightarrow> rawsock \<Rightarrow> rawsock list" where
  "pair1_receiver_put p s = receiver_put True False p s"

definition pair1_sender_take :: "nat \<Rightarrow> rawsock \<Rightarrow> (rawsock \<times> message option) list" where
  "pair1_sender_take p s = sq_take p s"

definition pair1_sender_done :: "nat \<Rightarrow> status \<Rightarrow> rawsock \<Rightarrow> rawsock" where
  "pair1_sender_done p err s =
     (if p_out (x_pobj s p) = None then s
      else if err = None then sq_begin p (sender_done True p None s) else sender_done True p err s)"

definition pair1_SetOption :: "string \<Rightarrow> optval \<Rightarrow> rawsock \<Rightarrow> rawsock \<times> status" where
  "pair1_SetOption name v s =
     (if name = OptionBestEffort then set_field (asBool v) (\<lambda>b s. s\<lparr>x_bestEffort := b\<rparr>) s
      else if name = OptionRecvDeadline then set_field (asDuration v) (\<lambda>d s. s\<lparr>x_recvExpire := d\<rparr>) s
      else if name = OptionSendDeadline then set_field (asDuration v) (\<lambda>d s. s\<lparr>x_sendExpire := d\<rparr>) s
      else if name = OptionReadQLen then set_field (asQLen v) resize_recvQ s
      else if name = OptionWriteQLen then set_field (asQLen v) resize_sendQ s
      else if name = OptionTTL then set_field (asTTL v) (\<lambda>n s. s\<lparr>x_ttl := n\<rparr>) s
      else (s, Some ErrBadOption))"

definition pair1_GetOption :: "string \<Rightarrow> rawsock \<Rightarrow> err + optval" where
  "pair1_GetOption name s =
     (if name = OptionRaw then Inr (VBool True)
      else if name = OptionBestEffort then Inr (VBool (x_bestEffort s))
      else if name = OptionRecvDeadline then Inr (VDuration (x_recvExpire s))
      else if name = OptionSendDeadline then Inr (VDuration (x_sendExpire s))
      else if name = OptionReadQLen then Inr (VInt (int (x_recvQLen s)))
      else if name = OptionWriteQLen then Inr (VInt (int (x_sendQLen s)))
      else if name = OptionTTL then Inr (VInt (int (x_ttl s)))
      else Inl ErrBadOption)"

definition pair1_AddPipe :: "u32 \<Rightarrow> rawsock \<Rightarrow> rawsock \<times> status" where
  "pair1_AddPipe i s =
     (if x_closed s then (s, Some ErrClosed)
      else if x_peer s \<noteq> None then (s, Some ErrProtoState)
      else ((upd_pipe (x_npipe s) (\<lambda>_. new_rpipe i 0) s)\<lparr>x_peer := Some (x_npipe s), x_npipe := Suc (x_npipe s)\<rparr>, None))"

definition pair1_RemovePipe :: "nat \<Rightarrow> rawsock \<Rightarrow> rawsock" where
  "pair1_RemovePipe p s = (if x_peer s = Some p then close_pipeQ p (s\<lparr>x_peer := None\<rparr>) else s)"

definition pair1_Close :: "rawsock \<Rightarrow> rawsock \<times> status" where
  "pair1_Close s = (if x_closed s then (s, Some ErrClosed) else (close_closeQ (s\<lparr>x_closed := True\<rparr>), None))"

definition pair1_NewProtocol :: rawsock where
  "pair1_NewProtocol = raw_new 128 128 8"

section \<open>Runs\<close>

inductive pair1_step :: "rawsock \<Rightarrow> rawsock \<Rightarrow> bool" where
  p1_recv: "recv_step True False s s' \<Longrightarrow> pair1_step s s'"
| p1_begin_send: "pair1_step s (fst (pair1_SendMsg_begin m s))"
| p1_send: "fst (snd snap) \<notin> x_rqs s \<Longrightarrow> (s', st) \<in> set (pair1_SendMsg_wait pk f m snap s) \<Longrightarrow> pair1_step s s'"
| p1_receive: "Header m = [] \<Longrightarrow> pair1_step s (pair1_receiver_msg k p m s)"
| p1_begin: "pair1_step s (sq_begin p s)"
| p1_take: "(s', x) \<in> set (pair1_sender_take p s) \<Longrightarrow> pair1_step s s'"
| p1_sent: "pair1_step s (pair1_sender_done p err s)"
| p1_set: "pair1_step s (fst (pair1_SetOption n v s))"
| p1_close: "pair1_step s (fst (pair1_Close s))"
| p1_add: "pair1_step s (fst (pair1_AddPipe i s))"
| p1_remove: "pair1_step s (pair1_RemovePipe p s)"

text \<open>What arrives at \<^verbatim>\<open>RecvMsg\<close> carries a positive hop count.\<close>

definition hopped :: "message \<Rightarrow> bool" where
  "hopped m \<longleftrightarrow> (\<exists>h. Header m = [0, 0, 0, h] \<and> 0 < h)"

definition pair1_inv :: "rawsock \<Rightarrow> bool" where
  "pair1_inv s \<longleftrightarrow> typed_ok hopped s \<and> peer_ok s \<and> x_ttl s < 256"

lemma pair1_header_hopped:
  assumes "pair1_header ttl m = Some h" and "Header m = []"
  shows "\<exists>b. h = [0, 0, 0, b] \<and> unat b = Suc (unat (Uint32 (Body m))) \<and> take 3 (Body m) = [0, 0, 0] \<and>
    unat (Uint32 (Body m)) = unat (Body m ! 3) \<and> (ttl < 256 \<longrightarrow> unat b \<le> Suc ttl)"
proof -
  have len: "4 \<le> length (Body m)" and small: "Uint32 (Body m) < 255" and t: "Uint32 (Body m) \<le> of_nat ttl"
    and h: "h = (take 4 (Body m))[3 := ucast (Uint32 (Body m) + 1)]"
    using assms by (auto simp: pair1_header_def Let_def not_le not_less split: if_splits)
  note u = Uint32_small [OF len small]
  have "take 3 (Body m) = [0, 0, 0]" using arg_cong [OF u(1), of "take 3"] by simp
  moreover have "Body m ! 3 = ucast (Uint32 (Body m))" using arg_cong [OF u(1), of "\<lambda>xs. xs ! 3"] by simp
  moreover have "unat (ucast (Uint32 (Body m)) :: byte) = unat (Uint32 (Body m))"
    using small by (simp add: unat_byte_ucast word_less_nat_alt)
  moreover have "unat (Uint32 (Body m)) \<le> ttl" if "ttl < 256" using t that by (simp add: word_le_nat_alt unat_of_nat)
  ultimately show ?thesis using u(2) by (simp add: h u(1))
qed


lemma pair1_invD: "pair1_inv s \<Longrightarrow> typed_ok hopped s" "pair1_inv s \<Longrightarrow> peer_ok s" "pair1_inv s \<Longrightarrow> x_ttl s < 256"
  by (simp_all add: pair1_inv_def)

lemma pair1_inv_frame: "pair1_inv s \<Longrightarrow> typed_ok hopped t \<Longrightarrow> same_peer s t \<Longrightarrow> x_ttl t = x_ttl s \<Longrightarrow> pair1_inv t"
  using same_peer_ok by (simp add: pair1_inv_def)

lemma ttl_frames:
  "recv_step zf ze s t \<Longrightarrow> x_ttl t = x_ttl s" "sq_send pk q m s = Some t \<Longrightarrow> x_ttl t = x_ttl s"
  "(t, x) \<in> set (sq_take p s) \<Longrightarrow> x_ttl t = x_ttl s" "x_ttl (sq_begin p s) = x_ttl s" "x_ttl (sender_done b p e s) = x_ttl s"
proof -
  show "recv_step zf ze s t \<Longrightarrow> x_ttl t = x_ttl s"
  proof (induction rule: recv_step.induct)
    case (rs_put s' p s)
    then obtain m rq zq where h: "p_hold (x_pobj s p) = Some (m, rq, zq)"
      by (cases "p_hold (x_pobj s p)") (auto simp: receiver_put_def)
    then show ?case using rs_put
      by (auto simp: receiver_put_def set_ready_cases try_send_def receiver_exit_def free_if_def split: if_splits)
  qed (auto simp: recv_try_def recv_wait_def set_ready_cases rendezvous_def receiver_exit_def
      split: prod.splits option.splits if_splits dest!: try_recv_eqs)
  show "x_ttl t = x_ttl s" if "(t, x) \<in> set (sq_take p s)" using that by (cases rule: sq_take_cases) (simp_all add: sq_begin_def)
qed (auto simp: sq_send_def try_send_def sq_begin_def sender_done_def Let_def split: option.splits if_splits)

lemma same_peer_ops:
  "same_peer s s" "same_peer s (Free i s)" "same_peer s (sq_begin p s)" "same_peer s (sender_done b p e s)"
  "same_peer s (hold_msg p m s)" "(t, x) \<in> set (sq_take p s) \<Longrightarrow> same_peer s t"
  "same_peer s (resize_recvQ n s)" "same_peer s (resize_sendQ n s)"
proof -
  show "same_peer s t" if "(t, x) \<in> set (sq_take p s)"
    using that by (cases rule: sq_take_cases) (simp_all add: same_peer_def sq_begin_def)
qed (simp_all add: same_peer_def sq_begin_def sender_done_def hold_msg_def resize_recvQ_def resize_sendQ_def make_chan_def
    close_sizeQ_def Let_def split: option.split)

lemma pair1_send_inv:
  assumes inv: "pair1_inv s" and q: "fst (snd snap) \<notin> x_rqs s" and r: "(t, st) \<in> set (pair1_SendMsg_wait pk f m snap s)"
  shows "pair1_inv t"
proof -
  obtain tq sq zq where s: "snap = (tq, sq, zq)" by (cases snap) auto
  then consider "t = s" | "t = Free (m_id m) s" | "sq_send pk sq m s = Some t"
    using r by (auto simp: pair1_SendMsg_wait_def pair1_SendMsg_try_def set_ready_cases split: if_splits)
  then show ?thesis
  proof cases
    case 2
    then show ?thesis using inv pair1_inv_frame [of s t] by (simp add: same_peer_ops pair1_invD)
  next
    case 3
    then show ?thesis
      using inv q s typed_sq_send [OF pair1_invD(1) [OF inv] _ 3] sq_send_frame [OF 3] ttl_frames(2) [OF 3]
      by (intro pair1_inv_frame [OF inv]) auto
  qed (simp add: inv)
qed

lemma pair1_receive_inv:
  assumes inv: "pair1_inv s" and h: "Header m = []"
  shows "pair1_inv (pair1_receiver_msg k p m s)"
proof (cases "pair1_header (x_ttl s) m")
  case None
  then show ?thesis using inv pair1_inv_frame [of s "Free (m_id m) s"] by (simp add: pair1_receiver_msg_def same_peer_ops pair1_invD)
next
  case (Some hd)
  obtain m1 s1 where u: "make_unique k m s = (m1, s1)" by force
  have s1: "typed_ok hopped s1" "same_peer s s1" "x_ttl s1 = x_ttl s"
    using u pair1_invD(1) [OF inv]
    by (auto simp: make_unique_def same_peer_def split: if_splits)
  obtain b where b: "hd = [0, 0, 0, b]" "unat b = Suc (unat (Uint32 (Body m)))"
    using pair1_header_hopped [OF Some h] by blast
  then have "0 < b" by (simp add: word_gt_0_no word_less_nat_alt)
  then have "hopped (m1\<lparr>Header := hd, Body := drop 4 (Body m1)\<rparr>)" by (simp add: hopped_def b(1))
  then have "typed_ok hopped (pair1_receiver_msg k p m s)" using s1(1) Some u by (simp add: pair1_receiver_msg_def typed_hold)
  moreover have "same_peer s (pair1_receiver_msg k p m s)" "x_ttl (pair1_receiver_msg k p m s) = x_ttl s"
    using s1(2,3) Some u by (simp_all add: pair1_receiver_msg_def same_peer_def hold_msg_def)
  ultimately show ?thesis by (rule pair1_inv_frame [OF inv])
qed

lemma pair1_set_inv: "pair1_inv s \<Longrightarrow> pair1_inv (fst (pair1_SetOption n v s))"
proof (rule afterD)
  assume inv: "pair1_inv s"
  have rs: "x_ttl (resize_recvQ k s) = x_ttl s" "x_ttl (resize_sendQ k s) = x_ttl s" for k
    by (simp_all add: resize_recvQ_def resize_sendQ_def make_chan_def close_sizeQ_def)
  have "pair1_inv (resize_recvQ k s)" "pair1_inv (resize_sendQ k s)" for k
    using pair1_inv_frame [OF inv typed_resize_recv [OF pair1_invD(1) [OF inv]] same_peer_ops(7) rs(1)]
      pair1_inv_frame [OF inv typed_resize_send [OF pair1_invD(1) [OF inv]] same_peer_ops(8) rs(2)] by simp_all
  moreover have "pair1_inv (s\<lparr>x_bestEffort := b\<rparr>)" "pair1_inv (s\<lparr>x_recvExpire := d\<rparr>)" "pair1_inv (s\<lparr>x_sendExpire := d\<rparr>)"
    "j < 256 \<Longrightarrow> pair1_inv (s\<lparr>x_ttl := j\<rparr>)" for b d j
    using inv by (simp_all add: pair1_inv_def peer_ok_def)
  ultimately show "after pair1_inv (pair1_SetOption n v s)" by (simp add: pair1_SetOption_def inv asTTL_eq_Some)
qed

lemma pair1_pipes_inv:
  assumes inv: "pair1_inv s"
  shows "pair1_inv (fst (pair1_AddPipe i s))" "pair1_inv (pair1_RemovePipe p s)" "pair1_inv (fst (pair1_Close s))"
proof -
  note d = pair1_invD [OF inv]
  show "pair1_inv (fst (pair1_AddPipe i s))"
  proof (cases "x_closed s \<or> x_peer s \<noteq> None")
    case False
    let ?t = "(upd_pipe (x_npipe s) (\<lambda>_. new_rpipe i 0) s)\<lparr>x_peer := Some (x_npipe s), x_npipe := Suc (x_npipe s)\<rparr>"
    have "peer_ok ?t" using d(2) False by (auto simp: peer_ok_def new_rpipe_def less_Suc_eq)
    then have "pair1_inv ?t" using typed_new_pipe [OF d(1)] d(3) by (simp add: pair1_inv_def)
    then show ?thesis using False by (simp add: pair1_AddPipe_def)
  qed (use inv in \<open>auto simp: pair1_AddPipe_def\<close>)
  show "pair1_inv (pair1_RemovePipe p s)"
  proof (cases "x_peer s = Some p")
    case True
    have o: "\<not> p_closeQ (x_pobj s p)" using d(2) True unfolding peer_ok_def by blast
    let ?t = "close_pipeQ p (s\<lparr>x_peer := None\<rparr>)"
    have "typed_ok hopped ?t" using d(1) o by (intro typed_close_pipe) simp_all
    moreover have "\<forall>q<x_npipe s. q \<noteq> p \<longrightarrow> p_closeQ (x_pobj s q)" using d(2) True unfolding peer_ok_def by (metis option.inject)
    then have "peer_ok ?t" using o by (simp add: peer_ok_def close_pipeQ_def)
    moreover have "x_ttl ?t = x_ttl s" by (simp add: close_pipeQ_def)
    ultimately show ?thesis using d(3) True by (simp add: pair1_inv_def pair1_RemovePipe_def)
  qed (use inv in \<open>simp add: pair1_RemovePipe_def\<close>)
  show "pair1_inv (fst (pair1_Close s))"
  proof (cases "x_closed s")
    case False
    have "typed_ok hopped (close_closeQ (s\<lparr>x_closed := True\<rparr>))" by (rule typed_close [OF d(1) False])
    then show ?thesis using False d(2,3) by (simp add: pair1_Close_def pair1_inv_def close_closeQ_def peer_ok_def)
  qed (use inv in \<open>simp add: pair1_Close_def\<close>)
qed

lemma pair1_step_inv: "pair1_step s t \<Longrightarrow> pair1_inv s \<Longrightarrow> pair1_inv t"
proof (induction rule: pair1_step.induct)
  case (p1_recv s s')
  then show ?case using typed_recv_step recv_step_peer ttl_frames(1) pair1_invD(1) by (blast intro: pair1_inv_frame)
next
  case (p1_begin_send s m)
  then show ?case using pair1_inv_frame [of s "Free (m_id m) s"] by (simp add: pair1_SendMsg_begin_def same_peer_ops pair1_invD)
next
  case (p1_begin s p)
  then show ?case using typed_sq_begin same_peer_ops(3) ttl_frames(4) pair1_invD(1) by (blast intro: pair1_inv_frame)
next
  case (p1_take s' x p s)
  then show ?case
    unfolding pair1_sender_take_def using typed_sq_take same_peer_ops(6) ttl_frames(3) pair1_invD(1) by (blast intro: pair1_inv_frame)
next
  case (p1_sent s p err)
  have d: "pair1_inv (sender_done True p e s)" for e
    using p1_sent typed_sender_done same_peer_ops(4) ttl_frames(5) pair1_invD(1) by (blast intro: pair1_inv_frame)
  moreover have "pair1_inv (sq_begin p (sender_done True p e s))" for e
    using d typed_sq_begin same_peer_ops(3) ttl_frames(4) pair1_invD(1) by (blast intro: pair1_inv_frame)
  ultimately show ?case using p1_sent by (simp add: pair1_sender_done_def)
qed (blast intro: pair1_send_inv pair1_receive_inv pair1_set_inv pair1_pipes_inv)+

interpretation pair1: machine "\<lambda>s. s = pair1_NewProtocol" pair1_step pair1_inv
proof unfold_locales
  show "pair1_inv s" if "s = pair1_NewProtocol" for s
    using that typed_new [of hopped 128 128 8] by (simp add: pair1_inv_def pair1_NewProtocol_def) (simp add: peer_ok_def raw_new_def)
  show "pair1_inv t" if "pair1_inv s" "pair1_step s t" for s t using that pair1_step_inv by blast
qed


section \<open>Cooked PAIR version 1\<close>

text \<open>
  \<^verbatim>\<open>protocol/pair1/pair1.go\<close>: \<^verbatim>\<open>SendMsg\<close> starts the count at zero, and takes the header off again when
  the raw protocol returns an error; \<^verbatim>\<open>RecvMsg\<close> takes it off.
\<close>

definition cooked_pair1_header :: "message \<Rightarrow> message" where
  "cooked_pair1_header m = m\<lparr>Header := replicate 4 0\<rparr>"

definition cooked_pair1_SendMsg_result :: "message \<Rightarrow> status \<Rightarrow> message \<times> status" where
  "cooked_pair1_SendMsg_result m err = (if err \<noteq> None then m\<lparr>Header := []\<rparr> else m, err)"

definition cooked_pair1_RecvMsg :: "recv_out \<Rightarrow> recv_out" where
  "cooked_pair1_RecvMsg r = (case r of Got m \<Rightarrow> Got (m\<lparr>Header := []\<rparr>) | x \<Rightarrow> x)"

definition cooked_pair1_GetOption :: "string \<Rightarrow> rawsock \<Rightarrow> err + optval" where
  "cooked_pair1_GetOption name s = (if name = OptionRaw then Inr (VBool False) else pair1_GetOption name s)"

definition cooked_pair1_NewProtocol :: rawsock where
  "cooked_pair1_NewProtocol = pair1_NewProtocol"

section \<open>Hop limit\<close>

text \<open>
  The message as the next socket on the way sees it, after a raw socket with the given \<^verbatim>\<open>OptionTTL\<close>
  received it and a device sent it on: the header is in front of the body again.
\<close>

definition pair1_hop :: "nat \<Rightarrow> message \<Rightarrow> message option" where
  "pair1_hop ttl m = map_option (\<lambda>h. m\<lparr>Header := [], Body := h @ drop 4 (Body m)\<rparr>) (pair1_header ttl m)"

fun pair1_path :: "nat list \<Rightarrow> message \<Rightarrow> message option" where
  "pair1_path [] m = Some m"
| "pair1_path (t # ts) m = (case pair1_hop t m of None \<Rightarrow> None | Some m' \<Rightarrow> pair1_path ts m')"

definition counted :: "nat \<Rightarrow> bytes \<Rightarrow> message \<Rightarrow> bool" where
  "counted c b m \<longleftrightarrow> Header m = [] \<and> Body m = [0, 0, 0, of_nat c] @ b \<and> c < 256"

lemma counted_Uint32:
  assumes "counted c b m"
  shows "Uint32 (Body m) = of_nat c" "take 4 (Body m) = [0, 0, 0, of_nat c]" "drop 4 (Body m) = b" "4 \<le> length (Body m)"
proof -
  have "Body m = be_enc 4 c @ b" using assms by (simp add: counted_def be_enc_4)
  then have "take 4 (Body m) = be_enc 4 c" "drop 4 (Body m) = b" "4 \<le> length (Body m)" by simp_all
  moreover have "c < 256 ^ 4" using assms by (simp add: counted_def)
  ultimately show "Uint32 (Body m) = of_nat c" "take 4 (Body m) = [0, 0, 0, of_nat c]" "drop 4 (Body m) = b" "4 \<le> length (Body m)"
    using assms by (simp_all add: Uint32_def be_dec_enc counted_def)
qed

lemma pair1_header_counted:
  assumes c: "counted c b m" and t: "t < 256"
  shows "pair1_header t m = (if c < 255 \<and> c \<le> t then Some [0, 0, 0, of_nat (Suc c)] else None)"
proof -
  note u = counted_Uint32 [OF c]
  have lt: "c < 256" using c by (simp add: counted_def)
  have "(255 :: u32) \<le> of_nat c \<longleftrightarrow> 255 \<le> c" "(of_nat t :: u32) < of_nat c \<longleftrightarrow> t < c"
    using lt t by (simp_all add: word_le_nat_alt word_less_nat_alt unat_of_nat)
  moreover have "(ucast (of_nat c + 1 :: u32) :: byte) = of_nat (Suc c)" if "c < 255"
    by (rule word_unat_eq_iff [THEN iffD2]) (use that in \<open>simp add: unat_byte_ucast unat_word_ariths unat_of_nat\<close>)
  ultimately show ?thesis using u c by (auto simp: pair1_header_def Let_def counted_def)
qed

lemma pair1_hop_counted:
  assumes c: "counted c b m" and t: "t < 256"
  shows "if c < 255 \<and> c \<le> t then \<exists>m'. pair1_hop t m = Some m' \<and> counted (Suc c) b m' \<and> m_id m' = m_id m else pair1_hop t m = None"
  using pair1_header_counted [OF c t] counted_Uint32(3) [OF c] by (simp add: pair1_hop_def counted_def)

lemma pair1_path_counted:
  assumes "counted c b m" "\<forall>t\<in>set ts. t < 256"
  shows "if \<forall>i < length ts. c + i < 255 \<and> c + i \<le> ts ! i
    then \<exists>m'. pair1_path ts m = Some m' \<and> counted (c + length ts) b m' \<and> m_id m' = m_id m else pair1_path ts m = None"
  using assms
proof (induction ts arbitrary: c m)
  case (Cons t ts)
  have split: "(\<forall>i < length (t # ts). c + i < 255 \<and> c + i \<le> (t # ts) ! i) \<longleftrightarrow>
      (c < 255 \<and> c \<le> t) \<and> (\<forall>i < length ts. Suc c + i < 255 \<and> Suc c + i \<le> ts ! i)"
    by (auto simp: less_Suc_eq_0_disj)
  show ?case
  proof (cases "c < 255 \<and> c \<le> t")
    case True
    then obtain m' where m': "pair1_hop t m = Some m'" "counted (Suc c) b m'" "m_id m' = m_id m"
      using pair1_hop_counted [OF Cons.prems(1), of t] Cons.prems(2) by auto
    show ?thesis using Cons.IH [OF m'(2)] Cons.prems(2) m' True unfolding split by (simp split: if_splits)
  next
    case False
    then show ?thesis using pair1_hop_counted [OF Cons.prems(1), of t] Cons.prems(2) unfolding split by auto
  qed
qed simp

section \<open>Properties\<close>

text \<open>
  C26: PAIR version 1 keeps to its hop limit exactly. A message of a cooked socket that went through
  devices, each of which still accepted it, is delivered if their number is at most the receiver's
  \<^verbatim>\<open>OptionTTL\<close> (and below 255), with its body intact and the number of hops in its header, in any
  reachable state of the receiver; beyond that it is dropped and its reference given back. The
  delivered message can be sent on: its header is a valid hop count.
\<close>

theorem pair1_ttl_exact:
  assumes run: "pair1_step\<^sup>*\<^sup>* pair1_NewProtocol s"
    and m0: "Header m0 = []" "Body m0 = wire (cooked_pair1_header \<lparr>m_id = i, Header = [], Body = b, m_pipe = None, m_from = 0\<rparr>)"
    and ts: "\<forall>j < length ts. j \<le> ts ! j \<and> ts ! j < 256" "length ts < 255"
  shows "\<exists>m. pair1_path ts m0 = Some m \<and>
    (if length ts \<le> x_ttl s
     then \<exists>m1. p_hold (x_pobj (pair1_receiver_msg k p m s) p) = Some (m1, x_recvQ s, x_sizeQ s) \<and>
       Body m1 = b \<and> Header m1 = [0, 0, 0, of_nat (Suc (length ts))] \<and>
       (\<forall>s'. \<not> x_closed s' \<longrightarrow> (\<exists>snap. pair1_SendMsg_begin m1 s' = (s', Inr snap)))
     else pair1_receiver_msg k p m s = Free (m_id m) s)"
proof -
  have ttl: "x_ttl s < 256" by (rule pair1_invD(3) [OF pair1.reachable_inv [OF refl run]])
  have c0: "counted 0 b m0" using m0 by (simp add: counted_def wire_def cooked_pair1_header_def numeral_eq_Suc)
  have "\<forall>t\<in>set ts. t < 256" using ts(1) by (auto simp: in_set_conv_nth)
  then obtain m where m: "pair1_path ts m0 = Some m" "counted (length ts) b m" "m_id m = m_id m0"
    using pair1_path_counted [OF c0, of ts] ts by auto
  have "\<exists>m1. p_hold (x_pobj (pair1_receiver_msg k p m s) p) = Some (m1, x_recvQ s, x_sizeQ s) \<and>
       Body m1 = b \<and> Header m1 = [0, 0, 0, of_nat (Suc (length ts))] \<and>
       (\<forall>s'. \<not> x_closed s' \<longrightarrow> (\<exists>snap. pair1_SendMsg_begin m1 s' = (s', Inr snap)))" if "length ts \<le> x_ttl s"
    using pair1_header_counted [OF m(2) ttl] ts(2) that counted_Uint32(3) [OF m(2)]
    by (simp add: pair1_receiver_msg_def make_unique_def hold_msg_def pair1_SendMsg_begin_def)
  moreover have "pair1_receiver_msg k p m s = Free (m_id m) s" if "\<not> length ts \<le> x_ttl s"
    using pair1_header_counted [OF m(2) ttl] that by (simp add: pair1_receiver_msg_def)
  ultimately show ?thesis using m(1) by auto
qed

definition p1_m :: message where "p1_m = \<lparr>m_id = 1, Header = [], Body = [0, 0, 0, 0, 9], m_pipe = None, m_from = 0\<rparr>"

theorem pair1_ttl_exact_witness:
  "\<exists>m m1. pair1_path [8, 8] p1_m = Some m \<and>
     p_hold (x_pobj (pair1_receiver_msg 5 0 m pair1_NewProtocol) 0) = Some (m1, x_recvQ pair1_NewProtocol, x_sizeQ pair1_NewProtocol) \<and>
     Body m1 = [9] \<and> Header m1 = [0, 0, 0, 3]"
proof -
  have t: "x_ttl pair1_NewProtocol = 8" by (simp add: pair1_NewProtocol_def raw_new_def)
  have "Header p1_m = []" "Body p1_m = wire (cooked_pair1_header \<lparr>m_id = 1, Header = [], Body = [9], m_pipe = None, m_from = 0\<rparr>)"
    by (simp_all add: p1_m_def wire_def cooked_pair1_header_def numeral_eq_Suc)
  moreover have "\<forall>j < length [8::nat, 8]. j \<le> [8, 8] ! j \<and> [8, 8] ! j < (256::nat)" "length [8::nat, 8] < 255"
    by (auto simp: less_Suc_eq nth_Cons')
  ultimately show ?thesis
    using pair1_ttl_exact [OF rtranclp.rtrancl_refl, of p1_m 1 "[9]" "[8, 8]" 5 0] t by auto
qed

section \<open>The protocol contract\<close>

lemma peer_ids_ttl [simp]: "peer_ids (s\<lparr>x_ttl := n\<rparr>) = peer_ids s"
  by (simp add: peer_ids_def split: option.split)

lemma resize_ttl [simp]: "x_ttl (resize_recvQ n s) = x_ttl s" "x_ttl (resize_sendQ n s) = x_ttl s"
  by (simp_all add: resize_recvQ_def resize_sendQ_def make_chan_def close_sizeQ_def)

interpretation pair1_proto: protocol_base x_closed peer_ids pair1_Close pair1_AddPipe pair1_SetOption pair1_GetOption
proof unfold_locales
  show "pair1_GetOption n (fst (pair1_SetOption n v s)) = Inr v"
    if "snd (pair1_SetOption n v s) = None" "pair1_GetOption n s \<noteq> Inl ErrBadOption" for n v s
  proof (cases "n = OptionRaw")
    case True
    then show ?thesis using that by (simp add: pair1_SetOption_def option_names)
  next
    case False
    then show ?thesis using that(1)
      by (auto simp: pair1_SetOption_def pair1_GetOption_def fst_set_field asQLen_eq_Some asTTL_eq_Some split: if_splits)
  qed
  show "fst (pair1_SetOption n v s) = s" if "snd (pair1_SetOption n v s) \<noteq> None" for n v s
    by (rule cleanD [OF _ that]) (simp add: pair1_SetOption_def)
  show "x_closed (fst (pair1_SetOption n v s)) = x_closed s \<and> peer_ids (fst (pair1_SetOption n v s)) = peer_ids s" for n v s
    by (rule afterD) (simp add: pair1_SetOption_def)
qed (auto simp: pair1_Close_def pair1_AddPipe_def)

interpretation cooked_pair1: protocol_base x_closed peer_ids pair1_Close pair1_AddPipe pair1_SetOption cooked_pair1_GetOption
proof unfold_locales
  show "cooked_pair1_GetOption n (fst (pair1_SetOption n v s)) = Inr v"
    if "snd (pair1_SetOption n v s) = None" "cooked_pair1_GetOption n s \<noteq> Inl ErrBadOption" for n v s
    using that pair1_proto.set_get [of n v s]
    by (cases "n = OptionRaw") (simp_all add: cooked_pair1_GetOption_def pair1_SetOption_def option_names)
qed (fact pair1_proto.close_open pair1_proto.close_closed pair1_proto.add_closed pair1_proto.add_keeps
    pair1_proto.set_keeps pair1_proto.set_error)+

end
