(* ===== verification/Surveyor.thy ===== *)
theory Surveyor
  imports Broadcast PipeIDs
begin

text \<open>
  Cooked SURVEYOR, \<^verbatim>\<open>protocol/surveyor/surveyor.go\<close>: contexts, surveys with an ID, a timer and a
  response queue of their own, and the broadcast of surveys to all pipes. A survey ends once,
  by \<^verbatim>\<open>cancel\<close>: \<open>y_stage\<close> is 0 before, 1 when it has left the tables, 2 when its queue is closed and
  drained. \<open>v_pending\<close> holds the goroutines that are about to call \<^verbatim>\<open>cancel\<close>; a timer may fire
  while it is armed.
\<close>

unbundle bit_operations_syntax

section \<open>State\<close>

record survey =
  y_recvQ :: "message gochan"
  y_id :: u32
  y_ctx :: nat
  y_err :: status
  y_stage :: nat
  y_timer :: bool

record vctx =
  v_closed :: bool
  v_closeQ :: bool
  v_recvQLen :: nat
  v_recvExpire :: int
  v_survExpire :: int
  v_surv :: "nat option"

record survsock = rawsock +
  v_obj :: "nat \<Rightarrow> vctx"
  v_nobj :: nat
  v_ctxs :: "nat set"
  v_surveys :: "u32 \<rightharpoonup> nat"
  v_sobj :: "nat \<Rightarrow> survey"
  v_nsurv :: nat
  v_nextID :: u32
  v_pending :: "(nat \<times> err) set"

definition upd_vctx :: "nat \<Rightarrow> (vctx \<Rightarrow> vctx) \<Rightarrow> survsock \<Rightarrow> survsock" where
  "upd_vctx c f s = s\<lparr>v_obj := (v_obj s)(c := f (v_obj s c))\<rparr>"

definition upd_survey :: "nat \<Rightarrow> (survey \<Rightarrow> survey) \<Rightarrow> survsock \<Rightarrow> survsock" where
  "upd_survey y f s = s\<lparr>v_sobj := (v_sobj s)(y := f (v_sobj s y))\<rparr>"

section \<open>Surveys\<close>

text \<open>\<^verbatim>\<open>cancel\<close>: the region under the lock, then closing and draining the queue.\<close>

definition cancel_begin :: "nat \<Rightarrow> err \<Rightarrow> survsock \<Rightarrow> survsock" where
  "cancel_begin y err s =
     (if y_stage (v_sobj s y) \<noteq> 0 then s
      else
        (let x = v_sobj s y;
             s1 = upd_survey y (\<lambda>x. x\<lparr>y_err := Some err, y_stage := 1, y_timer := False\<rparr>) s;
             s2 = (if v_surv (v_obj s1 (y_ctx x)) = Some y then upd_vctx (y_ctx x) (\<lambda>c. c\<lparr>v_surv := None\<rparr>) s1 else s1)
         in s2\<lparr>v_surveys := (v_surveys s2)(y_id x := None)\<rparr>))"

definition cancel_close :: "nat \<Rightarrow> survsock \<Rightarrow> survsock" where
  "cancel_close y s =
     (if y_stage (v_sobj s y) \<noteq> 1 then s
      else if ch_closed (y_recvQ (v_sobj s y)) then s\<lparr>panicked := True\<rparr>
      else
        (let ms = ch_buf (y_recvQ (v_sobj s y));
             s1 = upd_survey y (\<lambda>x. x\<lparr>y_recvQ := (y_recvQ x)\<lparr>ch_closed := True, ch_buf := []\<rparr>, y_stage := 2\<rparr>) s
         in fold (\<lambda>m. Free (m_id m)) ms s1))"

text \<open>\<^verbatim>\<open>start\<close>, with the new survey as object number \<open>v_nsurv\<close>.\<close>

definition survey_start :: "nat \<Rightarrow> u32 \<Rightarrow> survsock \<Rightarrow> survsock" where
  "survey_start c i s =
     (let y = v_nsurv s
      in (upd_vctx c (\<lambda>x. x\<lparr>v_surv := Some y\<rparr>)
           (upd_survey y (\<lambda>_. \<lparr>y_recvQ = make_gochan (v_recvQLen (v_obj s c)), y_id = i, y_ctx = c, y_err = None,
              y_stage = 0, y_timer = True\<rparr>) s))
           \<lparr>v_surveys := (v_surveys s)(i \<mapsto> y), v_nsurv := Suc y\<rparr>)"

section \<open>Contexts\<close>

text \<open>
  \<^verbatim>\<open>SendMsg\<close> before the lock. The result of \<^verbatim>\<open>m.MakeUnique()\<close> is not used: a shared message loses a
  reference, its copy \<open>k\<close> is lost, and the original goes on.
\<close>

definition surv_SendMsg_begin :: "nat \<Rightarrow> message \<Rightarrow> survsock \<Rightarrow> survsock \<times> message \<times> u32" where
  "surv_SendMsg_begin k m s =
     (let i = (v_nextID s + 1) OR 0x80000000;
          s1 = snd (make_unique k m (s\<lparr>v_nextID := v_nextID s + 1\<rparr>))
      in (s1, m\<lparr>Header := PutUint32 i\<rparr>, i))"

definition surv_SendMsg_locked :: "nat \<Rightarrow> u32 \<Rightarrow> survsock \<Rightarrow> survsock \<times> status" where
  "surv_SendMsg_locked c i s =
     (if x_closed s \<or> v_closed (v_obj s c) then (s, Some ErrClosed)
      else
        (let old = v_surv (v_obj s c); s1 = survey_start c i s
         in (case old of Some y \<Rightarrow> s1\<lparr>v_pending := insert (y, ErrCanceled) (v_pending s1)\<rparr> | None \<Rightarrow> s1, None)))"

text \<open>The broadcast after the lock, to the pipes \<open>ps\<close> read under it, and the final \<^verbatim>\<open>m.Free\<close>.\<close>

definition surv_SendMsg_send :: "(nat \<Rightarrow> bool) \<Rightarrow> message \<Rightarrow> nat list \<Rightarrow> survsock \<Rightarrow> survsock" where
  "surv_SendMsg_send parked m ps s = Free (m_id m) (broadcast parked m ps s)"

definition surv_RecvMsg_begin :: "nat \<Rightarrow> survsock \<Rightarrow> err + nat \<times> timeq" where
  "surv_RecvMsg_begin c s =
     (if x_closed s then Inl ErrClosed
      else case v_surv (v_obj s c) of
             None \<Rightarrow> Inl ErrProtoState
           | Some y \<Rightarrow> Inr (y, expire_q_neg (v_recvExpire (v_obj s c))))"

text \<open>A message, or \<^verbatim>\<open>nil\<close> with an error.\<close>

datatype surv_out = SGot message | SRet status

definition surv_RecvMsg_try :: "nat \<Rightarrow> survsock \<Rightarrow> (survsock \<times> surv_out) option" where
  "surv_RecvMsg_try y s =
     (case chan_pop (y_recvQ (v_sobj s y)) of
        Some (m, q) \<Rightarrow> Some (upd_survey y (\<lambda>x. x\<lparr>y_recvQ := q\<rparr>) s, SGot m)
      | None \<Rightarrow> if ch_closed (y_recvQ (v_sobj s y)) then Some (s, SRet (y_err (v_sobj s y))) else None)"

definition surv_RecvMsg_wait :: "bool \<Rightarrow> nat \<Rightarrow> nat \<times> timeq \<Rightarrow> survsock \<Rightarrow> (survsock \<times> surv_out) list" where
  "surv_RecvMsg_wait fired c loc s =
     (case loc of (y, tq) \<Rightarrow>
        ready_cases
          [case_if (v_closeQ (v_obj s c)) (s, SRet (Some ErrClosed)),
           surv_RecvMsg_try y s,
           case_if (timeq_ready fired tq) (s, SRet (Some ErrRecvTimeout))])"

definition surv_ctx_close :: "nat \<Rightarrow> survsock \<Rightarrow> survsock" where
  "surv_ctx_close c s =
     (if v_closed (v_obj s c) then s
      else
        (let s1 = upd_vctx c (\<lambda>x. x\<lparr>v_closed := True\<rparr>) s;
             s2 = (if v_closeQ (v_obj s1 c) then s1\<lparr>panicked := True\<rparr> else upd_vctx c (\<lambda>x. x\<lparr>v_closeQ := True\<rparr>) s1)
         in case v_surv (v_obj s2 c) of
              None \<Rightarrow> s2
            | Some y \<Rightarrow> (upd_vctx c (\<lambda>x. x\<lparr>v_surv := None\<rparr>) s2)\<lparr>v_pending := insert (y, ErrClosed) (v_pending s2)\<rparr>))"

definition surv_ctx_Close :: "nat \<Rightarrow> survsock \<Rightarrow> survsock \<times> status" where
  "surv_ctx_Close c s = (if v_closed (v_obj s c) then (s, Some ErrClosed) else (surv_ctx_close c s, None))"

definition surv_ctx_SetOption :: "nat \<Rightarrow> string \<Rightarrow> optval \<Rightarrow> survsock \<Rightarrow> survsock \<times> status" where
  "surv_ctx_SetOption c name v s =
     (if name = OptionSurveyTime then set_field (asDuration v) (\<lambda>d. upd_vctx c (\<lambda>x. x\<lparr>v_survExpire := d\<rparr>)) s
      else if name = OptionRecvDeadline then set_field (asDuration v) (\<lambda>d. upd_vctx c (\<lambda>x. x\<lparr>v_recvExpire := d\<rparr>)) s
      else if name = OptionReadQLen then set_field (asQLen v) (\<lambda>n. upd_vctx c (\<lambda>x. x\<lparr>v_recvQLen := n\<rparr>)) s
      else (s, Some ErrBadOption))"

definition surv_ctx_GetOption :: "nat \<Rightarrow> string \<Rightarrow> survsock \<Rightarrow> err + optval" where
  "surv_ctx_GetOption c name s =
     (if name = OptionSurveyTime then Inr (VDuration (v_survExpire (v_obj s c)))
      else if name = OptionRecvDeadline then Inr (VDuration (v_recvExpire (v_obj s c)))
      else if name = OptionReadQLen then Inr (VInt (int (v_recvQLen (v_obj s c))))
      else Inl ErrBadOption)"

section \<open>Pipes and the socket\<close>

definition surv_sender_done :: "nat \<Rightarrow> status \<Rightarrow> survsock \<Rightarrow> survsock" where
  "surv_sender_done p err s = sender_done True p err s"

text \<open>
  One message of \<^verbatim>\<open>receiver\<close>. On an unbuffered queue it goes straight to a waiting \<^verbatim>\<open>RecvMsg\<close>
  (\<open>parked\<close>), as the output.
\<close>

definition surv_receiver_msg :: "bool \<Rightarrow> message \<Rightarrow> survsock \<Rightarrow> survsock \<times> message option" where
  "surv_receiver_msg parked m s =
     (if length (Body m) < 4 then (Free (m_id m) s, None)
      else
        (let m1 = m\<lparr>Header := Header m @ take 4 (Body m), Body := drop 4 (Body m)\<rparr>
         in case v_surveys s (Uint32 (Header m1)) of
              None \<Rightarrow> (Free (m_id m) s, None)
            | Some y \<Rightarrow>
                (let q = y_recvQ (v_sobj s y) in
                 if ch_closed q then (s\<lparr>panicked := True\<rparr>, None)
                 else if chan_room q then (upd_survey y (\<lambda>x. x\<lparr>y_recvQ := chan_push m1 (y_recvQ x)\<rparr>) s, None)
                 else if parked \<and> ch_cap q = 0 then (s, Some m1)
                 else (Free (m_id m) s, None))))"

definition surv_OpenContext :: "survsock \<Rightarrow> survsock \<times> (err + nat)" where
  "surv_OpenContext s =
     (if x_closed s then (s, Inl ErrClosed)
      else
        (let c = v_nobj s; master = v_obj s 0
         in (s\<lparr>v_obj := (v_obj s)(c := \<lparr>v_closed = False, v_closeQ = False, v_recvQLen = v_recvQLen master,
                  v_recvExpire = v_recvExpire master, v_survExpire = v_survExpire master, v_surv = None\<rparr>),
              v_nobj := Suc c, v_ctxs := insert c (v_ctxs s)\<rparr>, Inr c)))"

definition surv_AddPipe :: "u32 \<Rightarrow> survsock \<Rightarrow> survsock \<times> status" where
  "surv_AddPipe i s = (if x_closed s then (s, Some ErrClosed) else (attach_pipe i s, None))"

definition surv_RemovePipe :: "nat \<Rightarrow> survsock \<Rightarrow> survsock" where
  "surv_RemovePipe p s =
     (let s1 = close_pipeQ p s in s1\<lparr>x_pipes := (x_pipes s1)(p_ID (x_pobj s1 p) := None)\<rparr>)"

definition surv_Close :: "nat list \<Rightarrow> survsock \<Rightarrow> survsock \<times> status" where
  "surv_Close cs s =
     (if x_closed s then (s, Some ErrClosed) else (fold surv_ctx_close cs (s\<lparr>x_closed := True\<rparr>), None))"

definition surv_GetOption :: "string \<Rightarrow> survsock \<Rightarrow> err + optval" where
  "surv_GetOption name s =
     (if name = OptionRaw then Inr (VBool False)
      else if name = OptionWriteQLen then Inr (VInt (int (x_sendQLen s)))
      else surv_ctx_GetOption 0 name s)"

definition surv_SetOption :: "string \<Rightarrow> optval \<Rightarrow> survsock \<Rightarrow> survsock \<times> status" where
  "surv_SetOption name v s =
     (if name = OptionWriteQLen then set_field (asQLen v) (\<lambda>n s. s\<lparr>x_sendQLen := n\<rparr>) s
      else surv_ctx_SetOption 0 name v s)"

definition surv_NewProtocol :: "u32 \<Rightarrow> survsock" where
  "surv_NewProtocol now =
     rawsock.extend (raw_new 0 128 0)
       \<lparr>v_obj = (\<lambda>_. \<lparr>v_closed = False, v_closeQ = False, v_recvQLen = 128, v_recvExpire = 0,
            v_survExpire = 1000000000, v_surv = None\<rparr>), v_nobj = 1, v_ctxs = {0}, v_surveys = Map.empty,
        v_sobj = (\<lambda>_. \<lparr>y_recvQ = make_gochan 0, y_id = 0, y_ctx = 0, y_err = None, y_stage = 0, y_timer = False\<rparr>),
        v_nsurv = 0, v_nextID = now, v_pending = {}\<rparr>"

section \<open>Runs\<close>

text \<open>
  Every interleaving of the regions above, of the timers and of the goroutines that cancel. The
  survey ID of a call that has not yet taken the lock can be any that \<^verbatim>\<open>SendMsg\<close> makes.
\<close>

inductive surv_step :: "survsock \<Rightarrow> survsock \<Rightarrow> bool" where
  sv_begin: "surv_step s (fst (surv_SendMsg_begin k m s))"
| sv_locked: "c < v_nobj s \<Longrightarrow> surv_step s (fst (surv_SendMsg_locked c (n OR 0x80000000) s))"
| sv_send: "surv_step s (surv_SendMsg_send pk m ps s)"
| sv_timer: "y < v_nsurv s \<Longrightarrow> y_timer (v_sobj s y) \<Longrightarrow> surv_step s (cancel_begin y ErrProtoState s)"
| sv_cancel: "(y, e) \<in> v_pending s \<Longrightarrow> surv_step s (cancel_begin y e s)"
| sv_drain: "y < v_nsurv s \<Longrightarrow> surv_step s (cancel_close y s)"
| sv_recv: "y < v_nsurv s \<Longrightarrow> (s', x) \<in> set (surv_RecvMsg_wait f c (y, tq) s) \<Longrightarrow> surv_step s s'"
| sv_receive: "surv_step s (fst (surv_receiver_msg pk' m s))"
| sv_take: "s' \<in> set (sender_take True p s) \<Longrightarrow> surv_step s s'"
| sv_sent: "surv_step s (surv_sender_done p err s)"
| sv_ctx_set: "surv_step s (fst (surv_ctx_SetOption c nm v s))"
| sv_set: "surv_step s (fst (surv_SetOption nm v s))"
| sv_ctx_close: "surv_step s (fst (surv_ctx_Close c s))"
| sv_close: "surv_step s (fst (surv_Close cs s))"
| sv_open: "surv_step s (fst (surv_OpenContext s))"
| sv_add: "x_pipes s i = None \<Longrightarrow> surv_step s (fst (surv_AddPipe i s))"
| sv_remove: "p < x_npipe s \<Longrightarrow> \<not> p_closeQ (x_pobj s p) \<Longrightarrow> surv_step s (surv_RemovePipe p s)"

text \<open>
  A survey in the table is not cancelled and stands under its own ID; a context's survey is its
  own; a queue holds responses to its survey only and is closed when, and only when, the
  survey has ended; an active survey has its timer running.
\<close>

definition survey_ok :: "survey \<Rightarrow> bool" where
  "survey_ok x \<longleftrightarrow> bit (y_id x) 31 \<and> (\<forall>m\<in>set (ch_buf (y_recvQ x)). Uint32 (Header m) = y_id x) \<and>
     length (ch_buf (y_recvQ x)) \<le> ch_cap (y_recvQ x) \<and> ch_offers (y_recvQ x) = [] \<and> ch_rwait (y_recvQ x) = 0 \<and>
     (ch_closed (y_recvQ x) \<longleftrightarrow> y_stage x = 2) \<and> (y_stage x = 2 \<longrightarrow> ch_buf (y_recvQ x) = []) \<and>
     (y_stage x = 0 \<longleftrightarrow> y_err x = None) \<and> (y_stage x = 0 \<longrightarrow> y_timer x) \<and> y_stage x \<le> 2"

definition surv_inv :: "survsock \<Rightarrow> bool" where
  "surv_inv s \<longleftrightarrow> raw_ok any s \<and> pipes_ok s \<and> (\<forall>y < v_nsurv s. survey_ok (v_sobj s y)) \<and>
     (\<forall>i y. v_surveys s i = Some y \<longrightarrow> y < v_nsurv s \<and> y_id (v_sobj s y) = i \<and> y_stage (v_sobj s y) = 0) \<and>
     (\<forall>c y. v_surv (v_obj s c) = Some y \<longrightarrow> y < v_nsurv s \<and> y_ctx (v_sobj s y) = c) \<and>
     (\<forall>y e. (y, e) \<in> v_pending s \<longrightarrow> y < v_nsurv s) \<and>
     (\<forall>c. v_closeQ (v_obj s c) = v_closed (v_obj s c))"

lemma surv_invD:
  assumes "surv_inv s"
  shows "raw_ok any s" "pipes_ok s" "y < v_nsurv s \<Longrightarrow> survey_ok (v_sobj s y)"
    "v_surveys s i = Some y \<Longrightarrow> y < v_nsurv s" "v_surveys s i = Some y \<Longrightarrow> y_id (v_sobj s y) = i"
    "v_surveys s i = Some y \<Longrightarrow> y_stage (v_sobj s y) = 0"
    "v_surv (v_obj s c) = Some y \<Longrightarrow> y < v_nsurv s" "v_surv (v_obj s c) = Some y \<Longrightarrow> y_ctx (v_sobj s y) = c"
    "(y, e) \<in> v_pending s \<Longrightarrow> y < v_nsurv s" "v_closeQ (v_obj s c) = v_closed (v_obj s c)"
  using assms by (auto simp: surv_inv_def)

text \<open>Steps that leave contexts and surveys alone.\<close>

definition same_surveys :: "survsock \<Rightarrow> survsock \<Rightarrow> bool" where
  "same_surveys s t \<longleftrightarrow> v_obj t = v_obj s \<and> v_surveys t = v_surveys s \<and> v_sobj t = v_sobj s \<and> v_nsurv t = v_nsurv s \<and>
     v_pending t = v_pending s"

lemma same_surveys_inv: "surv_inv s \<Longrightarrow> same_surveys s t \<Longrightarrow> raw_ok any t \<Longrightarrow> pipes_ok t \<Longrightarrow> surv_inv t"
  by (simp add: surv_inv_def same_surveys_def)

lemma same_surveys_refl [simp]: "same_surveys s s" "same_surveys s (Free i s)" "same_surveys s (Clone i s)"
  "same_surveys s (upd_pipe p f s)"
  by (simp_all add: same_surveys_def Free_def Clone_def upd_pipe_def)

lemma same_surveys_trans: "same_surveys s t \<Longrightarrow> same_surveys t u \<Longrightarrow> same_surveys s u"
  by (simp add: same_surveys_def)

lemma upd_survey_simps [simp]:
  "v_sobj (upd_survey y f s) = (v_sobj s)(y := f (v_sobj s y))" "v_obj (upd_survey y f s) = v_obj s"
  "v_surveys (upd_survey y f s) = v_surveys s" "v_nsurv (upd_survey y f s) = v_nsurv s" "v_pending (upd_survey y f s) = v_pending s"
  "x_closed (upd_survey y f s) = x_closed s" "raw_ok Q (upd_survey y f s) = raw_ok Q s" "pipes_ok (upd_survey y f s) = pipes_ok s"
  "panicked (upd_survey y f s) = panicked s" "refs (upd_survey y f s) = refs s" "v_nobj (upd_survey y f s) = v_nobj s"
  by (simp_all add: upd_survey_def raw_ok_def pipes_ok_def)

lemma upd_vctx_simps [simp]:
  "v_obj (upd_vctx c g s) = (v_obj s)(c := g (v_obj s c))" "v_sobj (upd_vctx c g s) = v_sobj s"
  "v_surveys (upd_vctx c g s) = v_surveys s" "v_nsurv (upd_vctx c g s) = v_nsurv s" "v_pending (upd_vctx c g s) = v_pending s"
  "x_closed (upd_vctx c g s) = x_closed s" "raw_ok Q (upd_vctx c g s) = raw_ok Q s" "pipes_ok (upd_vctx c g s) = pipes_ok s"
  "panicked (upd_vctx c g s) = panicked s" "refs (upd_vctx c g s) = refs s" "v_nobj (upd_vctx c g s) = v_nobj s"
  by (simp_all add: upd_vctx_def raw_ok_def pipes_ok_def)

lemma raw_ok_surv_fields [simp]:
  "raw_ok Q (s\<lparr>v_surveys := a\<rparr>) = raw_ok Q s" "raw_ok Q (s\<lparr>v_nsurv := n\<rparr>) = raw_ok Q s" "raw_ok Q (s\<lparr>v_pending := b\<rparr>) = raw_ok Q s"
  "raw_ok Q (s\<lparr>v_nextID := i\<rparr>) = raw_ok Q s" "raw_ok Q (s\<lparr>v_obj := ob\<rparr>) = raw_ok Q s" "raw_ok Q (s\<lparr>v_nobj := n\<rparr>) = raw_ok Q s"
  "raw_ok Q (s\<lparr>v_ctxs := z\<rparr>) = raw_ok Q s" "raw_ok Q (s\<lparr>refs := r\<rparr>) = raw_ok Q s"
  "pipes_ok (s\<lparr>v_surveys := a\<rparr>) = pipes_ok s" "pipes_ok (s\<lparr>v_nsurv := n\<rparr>) = pipes_ok s" "pipes_ok (s\<lparr>v_pending := b\<rparr>) = pipes_ok s"
  "pipes_ok (s\<lparr>v_nextID := i\<rparr>) = pipes_ok s" "pipes_ok (s\<lparr>v_obj := ob\<rparr>) = pipes_ok s" "pipes_ok (s\<lparr>v_nobj := n\<rparr>) = pipes_ok s"
  "pipes_ok (s\<lparr>v_ctxs := z\<rparr>) = pipes_ok s" "pipes_ok (s\<lparr>refs := r\<rparr>) = pipes_ok s"
  by (simp_all add: raw_ok_def pipes_ok_def)

lemma pipes_ok_Free [simp]: "pipes_ok (Free i s) = pipes_ok s"
  by (simp add: pipes_ok_def)

text \<open>Changing one survey, as far as the invariant is concerned.\<close>

lemma surv_inv_upd:
  assumes "surv_inv s" and "y < v_nsurv s \<Longrightarrow> survey_ok (f (v_sobj s y))"
    and "y_id (f (v_sobj s y)) = y_id (v_sobj s y)" "y_ctx (f (v_sobj s y)) = y_ctx (v_sobj s y)"
    "y_stage (v_sobj s y) = 0 \<Longrightarrow> y_stage (f (v_sobj s y)) = 0"
  shows "surv_inv (upd_survey y f s)"
  using assms by (auto simp: surv_inv_def)

lemma cancel_begin_inv:
  assumes inv: "surv_inv s" and y: "y < v_nsurv s"
  shows "surv_inv (cancel_begin y e s)"
proof (cases "y_stage (v_sobj s y) = 0")
  case True
  have ok: "survey_ok (v_sobj s y)" by (rule surv_invD(3) [OF inv y])
  then have "survey_ok ((v_sobj s y)\<lparr>y_err := Some e, y_stage := 1, y_timer := False\<rparr>)"
    using True by (auto simp: survey_ok_def)
  then have sv: "\<forall>z < v_nsurv s. survey_ok (if z = y then (v_sobj s y)\<lparr>y_err := Some e, y_stage := 1, y_timer := False\<rparr> else v_sobj s z)"
    using surv_invD(3) [OF inv] by simp
  let ?t = "cancel_begin y e s"
  have t: "v_sobj ?t = (\<lambda>z. if z = y then (v_sobj s y)\<lparr>y_err := Some e, y_stage := 1, y_timer := False\<rparr> else v_sobj s z)"
    "v_surveys ?t = (v_surveys s)(y_id (v_sobj s y) := None)" "v_nsurv ?t = v_nsurv s" "v_pending ?t = v_pending s"
    "raw_ok any ?t = raw_ok any s" "pipes_ok ?t = pipes_ok s"
    "v_surv (v_obj ?t c) = (if v_surv (v_obj s c) = Some y \<and> c = y_ctx (v_sobj s y) then None else v_surv (v_obj s c))"
    "v_closeQ (v_obj ?t c) = v_closeQ (v_obj s c)" "v_closed (v_obj ?t c) = v_closed (v_obj s c)" for c
    using True by (auto simp: cancel_begin_def Let_def fun_eq_iff)
  have "z \<noteq> y" if "v_surveys ?t i = Some z" for i z
    using that surv_invD(5) [OF inv, of i z] by (auto simp: t(2) split: if_splits)
  then show ?thesis
    using sv surv_invD [OF inv] unfolding surv_inv_def t by (auto simp: t(2) split: if_splits)
qed (simp add: cancel_begin_def inv)

lemma fold_Free: "fold (\<lambda>m. Free (m_id m)) ms s = s\<lparr>refs := refs (fold (\<lambda>m. Free (m_id m)) ms s)\<rparr>"
proof (induction ms arbitrary: s)
  case (Cons m ms)
  show ?case using Cons.IH [of "Free (m_id m) s"] by (simp add: Free_def)
qed simp

lemma cancel_close_inv:
  assumes inv: "surv_inv s" and y: "y < v_nsurv s"
  shows "surv_inv (cancel_close y s)"
proof (cases "y_stage (v_sobj s y) = 1")
  case True
  have ok: "survey_ok (v_sobj s y)" by (rule surv_invD(3) [OF inv y])
  then have nc: "\<not> ch_closed (y_recvQ (v_sobj s y))" using True by (simp add: survey_ok_def)
  let ?f = "\<lambda>x :: survey. x\<lparr>y_recvQ := (y_recvQ x)\<lparr>ch_closed := True, ch_buf := []\<rparr>, y_stage := 2\<rparr>"
  have "surv_inv (upd_survey y ?f s)"
    by (rule surv_inv_upd [OF inv]) (use ok True in \<open>auto simp: survey_ok_def\<close>)
  moreover have "surv_inv (s\<lparr>refs := r\<rparr>) = surv_inv s" for s r by (simp add: surv_inv_def)
  ultimately show ?thesis
    using True nc by (simp add: cancel_close_def Let_def) (subst fold_Free, simp)
qed (simp add: cancel_close_def inv)

lemma surv_locked_inv:
  assumes inv: "surv_inv s"
  shows "surv_inv (fst (surv_SendMsg_locked c (n OR 0x80000000) s))"
proof (cases "x_closed s \<or> v_closed (v_obj s c)")
  case False
  let ?i = "n OR 0x80000000 :: u32" and ?t = "fst (surv_SendMsg_locked c (n OR 0x80000000) s)"
  let ?x = "\<lparr>y_recvQ = make_gochan (v_recvQLen (v_obj s c)), y_id = ?i, y_ctx = c, y_err = None, y_stage = 0, y_timer = True\<rparr>"
  have "(0x80000000 :: u32) = 2 ^ 31" by simp
  then have "bit (0x80000000 :: u32) 31" by (simp only: bit_exp_iff) simp
  then have "bit ?i 31" by (simp only: bit_or_iff simp_thms)
  then have x: "survey_ok ?x" by (simp add: survey_ok_def)
  have t: "v_sobj ?t = (v_sobj s)(v_nsurv s := ?x)" "v_surveys ?t = (v_surveys s)(?i \<mapsto> v_nsurv s)" "v_nsurv ?t = Suc (v_nsurv s)"
    "v_obj ?t = (v_obj s)(c := (v_obj s c)\<lparr>v_surv := Some (v_nsurv s)\<rparr>)" "raw_ok any ?t = raw_ok any s" "pipes_ok ?t = pipes_ok s"
    "v_pending ?t = v_pending s \<union> (case v_surv (v_obj s c) of Some y \<Rightarrow> {(y, ErrCanceled)} | None \<Rightarrow> {})"
    using False by (auto simp: surv_SendMsg_locked_def survey_start_def Let_def split: option.split)
  have "y \<noteq> v_nsurv s" if "v_surveys s j = Some y \<or> v_surv (v_obj s d) = Some y \<or> (y, e) \<in> v_pending s" for y j d e
    using that surv_invD(4,7,9) [OF inv] by blast
  then show ?thesis
    using x surv_invD [OF inv] unfolding surv_inv_def t by (auto simp: less_Suc_eq split: option.splits if_splits)
qed (auto simp: surv_SendMsg_locked_def inv)

lemma surv_recv_inv:
  assumes inv: "surv_inv s" and y: "y < v_nsurv s" and r: "(s', x) \<in> set (surv_RecvMsg_wait f c (y, tm) s)"
  shows "surv_inv s'"
proof -
  consider "s' = s" | m q where "chan_pop (y_recvQ (v_sobj s y)) = Some (m, q)" "s' = upd_survey y (\<lambda>x. x\<lparr>y_recvQ := q\<rparr>) s"
    using r by (auto simp: surv_RecvMsg_wait_def surv_RecvMsg_try_def set_ready_cases split: option.splits if_splits)
  then show ?thesis
  proof cases
    case 2
    have ok: "survey_ok (v_sobj s y)" by (rule surv_invD(3) [OF inv y])
    then have q: "ch_buf (y_recvQ (v_sobj s y)) = m # ch_buf q" "ch_cap q = ch_cap (y_recvQ (v_sobj s y))" "ch_offers q = []"
      "ch_rwait q = 0" "ch_closed q = ch_closed (y_recvQ (v_sobj s y))"
      using 2(1) by (auto simp: survey_ok_def chan_pop_def split: list.splits)
    show ?thesis unfolding 2(2)
      by (rule surv_inv_upd [OF inv]) (use ok q in \<open>auto simp: survey_ok_def\<close>)
  qed (simp add: inv)
qed

lemma surv_receive_inv:
  assumes inv: "surv_inv s"
  shows "surv_inv (fst (surv_receiver_msg pk m s))"
proof -
  let ?m = "m\<lparr>Header := Header m @ take 4 (Body m), Body := drop 4 (Body m)\<rparr>"
  have fr: "surv_inv (Free (m_id m) s)" by (rule same_surveys_inv [OF inv]) (use surv_invD(1,2) [OF inv] in simp_all)
  show ?thesis
  proof (cases "v_surveys s (Uint32 (Header ?m))")
    case None
    then show ?thesis using inv fr by (simp add: surv_receiver_msg_def Let_def)
  next
    case (Some y)
    note d = surv_invD [OF inv]
    have ok: "survey_ok (v_sobj s y)" "y_id (v_sobj s y) = Uint32 (Header ?m)" "y_stage (v_sobj s y) = 0"
      using d(3-6) Some by auto
    then have nc: "\<not> ch_closed (y_recvQ (v_sobj s y))" by (simp add: survey_ok_def)
    have "surv_inv (upd_survey y (\<lambda>x. x\<lparr>y_recvQ := chan_push ?m (y_recvQ x)\<rparr>) s)" if "chan_room (y_recvQ (v_sobj s y))"
      by (rule surv_inv_upd [OF inv]) (use ok that in \<open>auto simp: survey_ok_def chan_room_def\<close>)
    then show ?thesis using inv fr Some nc by (simp add: surv_receiver_msg_def Let_def)
  qed
qed

lemma surv_ctx_close_inv:
  assumes inv: "surv_inv s"
  shows "surv_inv (surv_ctx_close c s)"
proof (cases "v_closed (v_obj s c)")
  case False
  let ?t = "surv_ctx_close c s"
  have nq: "\<not> v_closeQ (v_obj s c)" using False surv_invD(10) [OF inv] by simp
  have t: "v_sobj ?t = v_sobj s" "v_surveys ?t = v_surveys s" "v_nsurv ?t = v_nsurv s" "raw_ok any ?t = raw_ok any s"
    "pipes_ok ?t = pipes_ok s" "v_obj ?t = (v_obj s)(c := (v_obj s c)\<lparr>v_closed := True, v_closeQ := True, v_surv := None\<rparr>)"
    "v_pending ?t = v_pending s \<union> (case v_surv (v_obj s c) of Some y \<Rightarrow> {(y, ErrClosed)} | None \<Rightarrow> {})"
    using False nq by (auto simp: surv_ctx_close_def Let_def split: option.split)
  show ?thesis using surv_invD [OF inv] unfolding surv_inv_def t by (auto split: option.splits if_splits)
qed (simp add: surv_ctx_close_def inv)

lemma surv_Close_inv:
  assumes inv: "surv_inv s"
  shows "surv_inv (fst (surv_Close cs s))"
proof -
  have "surv_inv (fold surv_ctx_close cs t)" if "surv_inv t" for t
    using that by (induction cs arbitrary: t) (simp_all add: surv_ctx_close_inv)
  moreover have "surv_inv (s\<lparr>x_closed := True\<rparr>)"
    using inv by (auto simp: surv_inv_def raw_ok_def pipes_ok_def)
  ultimately show ?thesis using inv by (simp add: surv_Close_def)
qed

lemma surv_ctx_set_inv:
  assumes inv: "surv_inv s"
  shows "surv_inv (fst (surv_ctx_SetOption c n v s))"
proof -
  have "surv_inv (upd_vctx c g s)"
    if "\<And>x. v_surv (g x) = v_surv x \<and> v_closed (g x) = v_closed x \<and> v_closeQ (g x) = v_closeQ x" for g
    using inv that by (simp add: surv_inv_def)
  then show ?thesis by - (rule afterD, simp add: surv_ctx_SetOption_def inv)
qed

lemma surv_frame_inv:
  assumes inv: "surv_inv s" and "same_surveys s t" "raw_ok any t" "same_table s t"
  shows "surv_inv t"
  using same_surveys_inv [OF assms(1-3)] same_table_ok [OF assms(4)] surv_invD(2) [OF inv] by blast

lemma same_surveys_bcast: "same_surveys s (broadcast pk m ps s)"
proof -
  have one: "same_surveys s (bcast_one pk m p s)" for p s
    by (auto simp: bcast_one_def pipe_send_def same_surveys_def Clone_def Free_def upd_pipe_def Let_def split: option.split)
  show ?thesis unfolding broadcast_def
    by (induction ps arbitrary: s) (auto intro: same_surveys_trans [OF one])
qed

lemma surv_open_inv: "surv_inv s \<Longrightarrow> surv_inv (fst (surv_OpenContext s))"
  by (auto simp: surv_OpenContext_def Let_def surv_inv_def)

lemma surv_begin_same: "surv_inv s \<Longrightarrow> surv_inv (fst (surv_SendMsg_begin k m s))"
  by (auto simp: surv_SendMsg_begin_def Let_def make_unique_def surv_inv_def Free_def)

lemma surv_take_inv:
  assumes inv: "surv_inv s" and r: "t \<in> set (sender_take True p s)"
  shows "surv_inv t"
  using r by (intro surv_frame_inv [OF inv])
    (auto simp: raw_ok_sender_take [OF surv_invD(1) [OF inv] r] same_table_sender_take [OF r],
     auto simp: sender_take_def Let_def set_ready_cases split: if_splits option.splits)

lemma surv_sent_inv: "surv_inv s \<Longrightarrow> surv_inv (surv_sender_done p e s)"
  unfolding surv_sender_done_def
  by (rule surv_frame_inv)
     (auto simp: raw_ok_sender_done surv_invD(1) same_table_sender_done,
      auto simp: sender_done_def Let_def same_surveys_def upd_pipe_def Free_def split: option.split)

lemma surv_add_inv:
  assumes inv: "surv_inv s" and n: "x_pipes s i = None"
  shows "surv_inv (fst (surv_AddPipe i s))"
proof -
  have "same_surveys s (attach_pipe i s)" by (simp add: same_surveys_def attach_pipe_def upd_pipe_def)
  then have "surv_inv (attach_pipe i s)"
    using raw_ok_attach [OF surv_invD(1) [OF inv]] pipes_ok_attach [OF surv_invD(2) [OF inv] n]
    by (blast intro: same_surveys_inv [OF inv])
  then show ?thesis using inv by (simp add: surv_AddPipe_def)
qed

lemma surv_remove_inv:
  assumes inv: "surv_inv s" and p: "p < x_npipe s" "\<not> p_closeQ (x_pobj s p)"
  shows "surv_inv (surv_RemovePipe p s)"
proof -
  have "same_surveys s (surv_RemovePipe p s)"
    using p by (simp add: same_surveys_def surv_RemovePipe_def close_pipeQ_def upd_pipe_def)
  moreover have "raw_ok any (surv_RemovePipe p s)"
    using raw_ok_close_pipe [OF surv_invD(1) [OF inv] p(2)] by (simp add: surv_RemovePipe_def Let_def)
  moreover have "pipes_ok (surv_RemovePipe p s)"
    using pipes_ok_detach [OF surv_invD(2) [OF inv] p] p by (simp add: surv_RemovePipe_def Let_def close_pipeQ_def)
  ultimately show ?thesis by (blast intro: same_surveys_inv [OF inv])
qed

lemma surv_send_inv:
  assumes inv: "surv_inv s"
  shows "surv_inv (surv_SendMsg_send pk m ps s)"
  unfolding surv_SendMsg_send_def
  using raw_ok_broadcast [OF surv_invD(1) [OF inv]] same_table_Free [OF same_table_broadcast]
    same_surveys_trans [OF same_surveys_bcast same_surveys_refl(2)]
  by (intro surv_frame_inv [OF inv]) auto

lemma surv_step_inv: "surv_step s t \<Longrightarrow> surv_inv s \<Longrightarrow> surv_inv t"
proof (induction rule: surv_step.induct)
  case (sv_cancel y e s)
  then show ?case using surv_invD(9) by (blast intro: cancel_begin_inv)
next
  case (sv_set s nm v)
  then show ?case using surv_ctx_set_inv [of s 0 nm v]
    by (cases "nm = OptionWriteQLen")
       (auto simp: surv_SetOption_def fst_set_field surv_inv_def pipes_ok_def split: option.split)
next
  case (sv_ctx_close s c)
  then show ?case using surv_ctx_close_inv by (simp add: surv_ctx_Close_def)
qed (auto intro: cancel_begin_inv cancel_close_inv surv_locked_inv surv_recv_inv surv_receive_inv surv_Close_inv
    surv_ctx_set_inv surv_open_inv surv_begin_same surv_take_inv surv_sent_inv surv_add_inv surv_remove_inv surv_send_inv)

interpretation surv: machine "\<lambda>s. \<exists>now. s = surv_NewProtocol now" surv_step surv_inv
proof unfold_locales
  show "surv_inv s" if n: "\<exists>now. s = surv_NewProtocol now" for s
  proof -
    obtain now where s: "s = surv_NewProtocol now" using n by blast
    have "raw_ok any s" "pipes_ok s"
      unfolding s surv_NewProtocol_def by (simp_all add: raw_ok_def pipes_ok_def raw_new_def rawsock.extend_def rpipe_ok_def)
    then show ?thesis by (simp add: surv_inv_def s surv_NewProtocol_def rawsock.extend_def raw_new_def)
  qed
  show "surv_inv t" if "surv_inv s" "surv_step s t" for s t using that surv_step_inv by blast
qed

text \<open>What never changes about a survey: its ID, its context, and its error once it has one.\<close>

definition survey_mono :: "survsock \<Rightarrow> survsock \<Rightarrow> bool" where
  "survey_mono s t \<longleftrightarrow> v_nsurv s \<le> v_nsurv t \<and>
     (\<forall>y < v_nsurv s. y_id (v_sobj t y) = y_id (v_sobj s y) \<and> y_ctx (v_sobj t y) = y_ctx (v_sobj s y) \<and>
        y_stage (v_sobj s y) \<le> y_stage (v_sobj t y) \<and> (y_stage (v_sobj s y) \<noteq> 0 \<longrightarrow> y_err (v_sobj t y) = y_err (v_sobj s y)))"

lemma survey_mono_refl [simp]: "survey_mono s s"
  by (simp add: survey_mono_def)

lemma survey_mono_trans:
  assumes st: "survey_mono s t" and tu: "survey_mono t u"
  shows "survey_mono s u"
proof -
  have le: "v_nsurv s \<le> v_nsurv t" "v_nsurv t \<le> v_nsurv u" using st tu by (simp_all add: survey_mono_def)
  have "y_id (v_sobj u y) = y_id (v_sobj s y) \<and> y_ctx (v_sobj u y) = y_ctx (v_sobj s y) \<and>
      y_stage (v_sobj s y) \<le> y_stage (v_sobj u y) \<and> (y_stage (v_sobj s y) \<noteq> 0 \<longrightarrow> y_err (v_sobj u y) = y_err (v_sobj s y))"
    if y: "y < v_nsurv s" for y
  proof -
    have "y < v_nsurv t" using y le(1) by simp
    then show ?thesis using st tu y unfolding survey_mono_def by fastforce
  qed
  then show ?thesis using le by (simp add: survey_mono_def)
qed

lemma survey_mono_same: "v_sobj t = v_sobj s \<Longrightarrow> v_nsurv t = v_nsurv s \<Longrightarrow> survey_mono s t"
  by (simp add: survey_mono_def)

lemma fold_Free_survey [simp]:
  "v_sobj (fold (\<lambda>m. Free (m_id m)) ms s) = v_sobj s" "v_nsurv (fold (\<lambda>m. Free (m_id m)) ms s) = v_nsurv s"
  by (subst fold_Free, simp)+

lemma surv_ctx_close_survey: "v_sobj (surv_ctx_close c s) = v_sobj s \<and> v_nsurv (surv_ctx_close c s) = v_nsurv s"
  by (auto simp: surv_ctx_close_def Let_def split: option.split)

lemma surv_Close_survey: "v_sobj (fst (surv_Close cs s)) = v_sobj s \<and> v_nsurv (fst (surv_Close cs s)) = v_nsurv s"
proof -
  have "v_sobj (fold surv_ctx_close cs t) = v_sobj t \<and> v_nsurv (fold surv_ctx_close cs t) = v_nsurv t" for t
    by (induction cs arbitrary: t) (simp_all add: surv_ctx_close_survey)
  then show ?thesis by (simp add: surv_Close_def)
qed

lemma surv_step_mono: "surv_step s t \<Longrightarrow> survey_mono s t"
proof (induction rule: surv_step.induct)
  case (sv_begin s k m)
  then show ?case by (intro survey_mono_same) (simp_all add: surv_SendMsg_begin_def Let_def make_unique_def Free_def)
next
  case (sv_locked c s n)
  then show ?case
    by (auto simp: survey_mono_def surv_SendMsg_locked_def survey_start_def Let_def split: option.split)
next
  case (sv_send s pk m ps)
  then show ?case using same_surveys_bcast [of s pk m ps]
    by (intro survey_mono_same) (simp_all add: surv_SendMsg_send_def same_surveys_def Free_def)
next
  case (sv_timer y s)
  then show ?case by (auto simp: survey_mono_def cancel_begin_def Let_def)
next
  case (sv_cancel y e s)
  then show ?case by (auto simp: survey_mono_def cancel_begin_def Let_def)
next
  case (sv_drain y s)
  then show ?case by (auto simp: survey_mono_def cancel_close_def Let_def)
next
  case (sv_recv y s s' x f c tq)
  then show ?case
    by (auto simp: survey_mono_def surv_RecvMsg_wait_def surv_RecvMsg_try_def set_ready_cases split: option.splits if_splits)
next
  case (sv_receive s pk' m)
  then show ?case
    by (auto simp: survey_mono_def surv_receiver_msg_def Let_def Free_def split: option.split)
next
  case (sv_take s' p s)
  then show ?case
    by (intro survey_mono_same)
       (auto simp: sender_take_def Let_def set_ready_cases upd_pipe_def split: if_splits option.splits)
next
  case (sv_sent s p err)
  then show ?case
    by (intro survey_mono_same)
       (auto simp: surv_sender_done_def sender_done_def Let_def upd_pipe_def Free_def split: option.split)
next
  case (sv_close s cs)
  then show ?case using surv_Close_survey by (intro survey_mono_same) auto
next
  case (sv_ctx_close s c)
  then show ?case using surv_ctx_close_survey by (intro survey_mono_same) (auto simp: surv_ctx_Close_def)
qed (auto intro!: survey_mono_same simp: surv_ctx_SetOption_def surv_SetOption_def fst_set_field surv_OpenContext_def Let_def
    surv_AddPipe_def attach_pipe_def upd_pipe_def surv_RemovePipe_def close_pipeQ_def split: option.split)

lemma surv_steps_mono: "surv_step\<^sup>*\<^sup>* s t \<Longrightarrow> survey_mono s t"
  by (induction rule: rtranclp_induct) (auto intro: survey_mono_trans surv_step_mono)

section \<open>Properties\<close>

text \<open>
  C19: Responses reach the survey they answer. However surveys, responses, timers, new surveys on
  the same context and closes interleave, nothing panics (in particular no response is ever
  sent to a closed queue), and a call of \<^verbatim>\<open>RecvMsg\<close> that started while survey \<open>y\<close> was the
  context's survey only ever returns messages that carry the ID of \<open>y\<close>.
\<close>

theorem surveyor_responses_match:
  assumes run: "surv_step\<^sup>*\<^sup>* (surv_NewProtocol now) s" and b: "surv_RecvMsg_begin c s = Inr (y, tq)"
    and later: "surv_step\<^sup>*\<^sup>* s t" and r: "(t', SGot m) \<in> set (surv_RecvMsg_wait f c (y, tq) t)"
  shows "\<not> panicked t \<and> Uint32 (Header m) = y_id (v_sobj s y) \<and> bit (y_id (v_sobj s y)) 31 \<and>
    y_ctx (v_sobj s y) = c \<and> v_surv (v_obj s c) = Some y"
proof -
  have inv: "surv_inv s" using surv.reachable_inv [OF _ run] by blast
  then have invt: "surv_inv t" using surv.steps_inv [OF later] by blast
  have y: "v_surv (v_obj s c) = Some y" using b by (auto simp: surv_RecvMsg_begin_def split: if_splits option.splits)
  have lt: "y < v_nsurv s" "y_ctx (v_sobj s y) = c" using surv_invD(7,8) [OF inv y] by auto
  have same: "y_id (v_sobj t y) = y_id (v_sobj s y)" "y < v_nsurv t"
    using surv_steps_mono [OF later] lt(1) by (auto simp: survey_mono_def)
  have ok: "survey_ok (v_sobj t y)" by (rule surv_invD(3) [OF invt same(2)])
  obtain q where "chan_pop (y_recvQ (v_sobj t y)) = Some (m, q)"
    using r by (auto simp: surv_RecvMsg_wait_def surv_RecvMsg_try_def set_ready_cases split: option.splits if_splits)
  then have "m \<in> set (ch_buf (y_recvQ (v_sobj t y)))" using ok by (auto simp: survey_ok_def chan_pop_def split: list.splits)
  then show ?thesis using ok same y lt raw_okD(1) [OF surv_invD(1) [OF invt]] by (auto simp: survey_ok_def)
qed

definition sv1 :: survsock where
  "sv1 = fst (surv_SendMsg_locked 0 0x80000005 (surv_NewProtocol 4))"

definition sv_m :: message where
  "sv_m = \<lparr>m_id = 3, Header = [], Body = [128, 0, 0, 5, 42], m_pipe = None, m_from = 0\<rparr>"

definition sv2 :: survsock where
  "sv2 = fst (surv_receiver_msg False sv_m sv1)"

lemma sv1_eval: "v_surv (v_obj sv1 0) = Some 0" "v_nsurv sv1 = 1" "\<not> x_closed sv1" "v_surveys sv1 0x80000005 = Some 0"
  "y_stage (v_sobj sv1 0) = 0" "y_recvQ (v_sobj sv1 0) = make_gochan 128" "v_recvExpire (v_obj sv1 0) = 0"
  "y_id (v_sobj sv1 0) = 0x80000005" "\<not> v_closeQ (v_obj sv1 0)"
  by (simp_all add: sv1_def surv_SendMsg_locked_def survey_start_def Let_def surv_NewProtocol_def rawsock.extend_def raw_new_def)

lemma sv_hdr: "Uint32 [128, 0, 0, 5] = 0x80000005"
  by (simp add: Uint32_def be_dec_def)

lemma sv_nobj: "0 < v_nobj (surv_NewProtocol now)"
  by (simp add: surv_NewProtocol_def rawsock.extend_def)

lemma sv1_run: "surv_step\<^sup>*\<^sup>* (surv_NewProtocol 4) sv1"
proof -
  have "(0x80000005 :: u32) = 5 OR 0x80000000" by simp
  then show ?thesis
    unfolding sv1_def by (metis sv_locked r_into_rtranclp sv_nobj)
qed

lemma sv2_recv: "surv_RecvMsg_wait False 0 (0, NilQ) sv2 = [(upd_survey 0 (\<lambda>x. x\<lparr>y_recvQ := make_gochan 128\<rparr>) sv2,
    SGot (sv_m\<lparr>Header := [128, 0, 0, 5], Body := [42]\<rparr>))]"
  by (simp add: sv2_def surv_receiver_msg_def sv_m_def Let_def sv_hdr sv1_eval chan_room_def surv_RecvMsg_wait_def
      surv_RecvMsg_try_def chan_pop_def chan_push_def case_if_def make_gochan_def)

theorem surveyor_responses_match_witness:
  "Uint32 (Header (sv_m\<lparr>Header := [128, 0, 0, 5], Body := [42]\<rparr>)) = y_id (v_sobj sv1 0) \<and> bit (y_id (v_sobj sv1 0)) 31"
proof -
  have b: "surv_RecvMsg_begin 0 sv1 = Inr (0, NilQ)"
    by (simp add: surv_RecvMsg_begin_def sv1_eval expire_q_neg_def)
  have "surv_step\<^sup>*\<^sup>* sv1 sv2" unfolding sv2_def by (intro r_into_rtranclp sv_receive)
  then show ?thesis
    using surveyor_responses_match [OF sv1_run b, of sv2 _ "sv_m\<lparr>Header := [128, 0, 0, 5], Body := [42]\<rparr>" False]
    by (simp add: sv2_recv)
qed



text \<open>
  \<^verbatim>\<open>SendMsg\<close> throws away the result of \<^verbatim>\<open>MakeUnique\<close>. A message that the application holds more
  than once loses two references instead of one when it is sent, even with no pipe attached,
  and the private copy stays allocated although nobody can free it.
\<close>

theorem surveyor_send_loses_reference:
  assumes "refs s (m_id m) \<noteq> 1" and "k \<noteq> m_id m" and "surv_SendMsg_begin k m s = (s', m', i)"
  shows "m_id m' = m_id m \<and> refs (surv_SendMsg_send pk m' [] s') (m_id m) = refs s (m_id m) - 2 \<and>
    refs (surv_SendMsg_send pk m' [] s') k = 1"
proof -
  have s': "s' = snd (make_unique k m (s\<lparr>v_nextID := v_nextID s + 1\<rparr>))" and m': "m_id m' = m_id m"
    using assms(3) unfolding surv_SendMsg_begin_def Let_def by (simp only: prod.inject, auto)+
  have "refs s' = (refs s)(k := 1, m_id m := refs s (m_id m) - 1)"
    using assms(1,2) by (simp add: s' make_unique_def Free_def)
  then show ?thesis using assms(2) m' by (simp add: surv_SendMsg_send_def broadcast_def)
qed

theorem surveyor_send_loses_reference_witness:
  "\<exists>s' m' i. surv_SendMsg_begin 9 sv_m (sv1\<lparr>refs := (\<lambda>_. 2)\<rparr>) = (s', m', i) \<and>
     refs (surv_SendMsg_send (\<lambda>_. False) m' [] s') 3 = 0 \<and> refs (surv_SendMsg_send (\<lambda>_. False) m' [] s') 9 = 1"
proof -
  obtain s' m' i where e: "surv_SendMsg_begin 9 sv_m (sv1\<lparr>refs := (\<lambda>_. 2)\<rparr>) = (s', m', i)" by (metis prod_cases3)
  have "refs (sv1\<lparr>refs := (\<lambda>_. 2)\<rparr>) (m_id sv_m) \<noteq> 1" "(9 :: nat) \<noteq> m_id sv_m" by (simp_all add: sv_m_def)
  from surveyor_send_loses_reference [OF this e, of "\<lambda>_. False"] e show ?thesis by (simp add: sv_m_def)
qed

end
