(* ===== verification/Respondent.thy ===== *)
theory Respondent
  imports Rep
begin

text \<open>
  RESPONDENT, \<^verbatim>\<open>protocol/respondent/respondent.go\<close>: the contexts of REP on a buffered receive
  queue that can be replaced. A queue entry pairs the survey with the pipe it came from
  (\<open>m_from\<close>).
\<close>

section \<open>Operations\<close>

definition resp_RecvMsg_begin :: "nat \<Rightarrow> repsock \<Rightarrow> repsock \<times> (err + recv_snap)" where
  "resp_RecvMsg_begin c s =
     (let x = e_ctxs s c in
      if e_closed x then (s, Inl ErrClosed)
      else (upd_ectx c (\<lambda>x. x\<lparr>e_backtrace := None, e_recvPipe := None\<rparr>) s,
            Inr (expire_q_neg (e_recvExpire x), x_recvQ s, x_sizeQ s)))"

text \<open>What \<^verbatim>\<open>RecvMsg\<close> does with the entry it got.\<close>

definition resp_got :: "nat \<Rightarrow> repsock \<times> recv_out \<Rightarrow> repsock \<times> recv_out" where
  "resp_got c r =
     (case r of
        (s, Got m) \<Rightarrow>
          (upd_ectx c (\<lambda>x. x\<lparr>e_recvPipe := Some (m_from m), e_backtrace := Some (Header m)\<rparr>) s,
           Got (m\<lparr>Header := []\<rparr>))
      | (s, x) \<Rightarrow> (s, x))"

definition resp_RecvMsg_try :: "nat \<Rightarrow> recv_snap \<Rightarrow> repsock \<Rightarrow> (repsock \<times> recv_out) option" where
  "resp_RecvMsg_try c snap s = map_option (resp_got c) (recv_try snap s)"

definition resp_RecvMsg_wait :: "bool \<Rightarrow> nat \<Rightarrow> recv_snap \<Rightarrow> repsock \<Rightarrow> (repsock \<times> recv_out) list" where
  "resp_RecvMsg_wait fired c snap s =
     (case snap of (tq, rq, zq) \<Rightarrow>
        ready_cases
          [resp_RecvMsg_try c snap s,
           case_if (x_zclosed s zq) (s, Retry),
           case_if (timeq_ready fired tq) (s, Failed ErrRecvTimeout),
           case_if (e_closeQ (e_ctxs s c)) (s, Failed ErrClosed)])"

definition resp_SendMsg_begin :: "nat \<Rightarrow> message \<Rightarrow> repsock \<Rightarrow> repsock \<times> (err + message \<times> nat \<times> bool \<times> timeq)" where
  "resp_SendMsg_begin c m s =
     (let x = e_ctxs s c in
      if x_closed s \<or> e_closed x then (s, Inl ErrClosed)
      else
        case e_backtrace x of
          None \<Rightarrow> (s, Inl ErrProtoState)
        | Some bt \<Rightarrow>
            (let s1 = upd_ectx c (\<lambda>x. x\<lparr>e_recvPipe := None, e_backtrace := None\<rparr>) s;
                 be = e_bestEffort x;
                 tq = (if be then ClosedQ else expire_q_neg (e_sendExpire x))
             in case e_recvPipe x of
                  None \<Rightarrow> (s1\<lparr>panicked := True\<rparr>, Inl ErrProtoState)
                | Some p \<Rightarrow> (s1, Inr (m\<lparr>Header := bt\<rparr>, p, be, tq))))"

definition resp_SendMsg_try :: "bool \<Rightarrow> nat \<Rightarrow> message \<Rightarrow> repsock \<Rightarrow> (repsock \<times> message \<times> status) option" where
  "resp_SendMsg_try parked p m s = map_option (\<lambda>s'. (s', m, None)) (pipe_send parked p m s)"

definition resp_SendMsg_wait ::
    "bool \<Rightarrow> bool \<Rightarrow> nat \<Rightarrow> message \<times> nat \<times> bool \<times> timeq \<Rightarrow> repsock \<Rightarrow> (repsock \<times> message \<times> status) list" where
  "resp_SendMsg_wait parked fired c loc s =
     (case loc of (m, p, be, tq) \<Rightarrow>
        ready_cases
          [case_if (e_closeQ (e_ctxs s c)) (s, m\<lparr>Header := []\<rparr>, Some ErrClosed),
           case_if (p_closeQ (x_pobj s p)) (Free (m_id m) s, m, None),
           case_if (timeq_ready fired tq)
             (if be then (Free (m_id m) s, m, None) else (s, m\<lparr>Header := []\<rparr>, Some ErrSendTimeout)),
           resp_SendMsg_try parked p m s])"

text \<open>The unexported \<^verbatim>\<open>close\<close> does nothing on a closed context.\<close>

definition resp_ctx_close :: "nat \<Rightarrow> repsock \<Rightarrow> repsock" where
  "resp_ctx_close c s =
     (if e_closed (e_ctxs s c) then s
      else
        (let s1 = (upd_ectx c (\<lambda>x. x\<lparr>e_closed := True\<rparr>) s)\<lparr>e_contexts := remove1 c (e_contexts s)\<rparr>
         in if e_closeQ (e_ctxs s1 c) then s1\<lparr>panicked := True\<rparr>
            else upd_ectx c (\<lambda>x. x\<lparr>e_closeQ := True\<rparr>) s1))"

definition resp_ctx_Close :: "nat \<Rightarrow> repsock \<Rightarrow> repsock \<times> status" where
  "resp_ctx_Close c s = (if e_closed (e_ctxs s c) then (s, Some ErrClosed) else (resp_ctx_close c s, None))"

definition resp_ctx_GetOption :: "string \<Rightarrow> ectx \<Rightarrow> err + optval" where
  "resp_ctx_GetOption name x =
     (if name = OptionBestEffort then Inr (VBool (e_bestEffort x))
      else if name = OptionRecvDeadline then Inr (VDuration (e_recvExpire x))
      else if name = OptionSendDeadline then Inr (VDuration (e_sendExpire x))
      else Inl ErrBadOption)"

definition resp_ctx_SetOption :: "string \<Rightarrow> optval \<Rightarrow> nat \<Rightarrow> repsock \<Rightarrow> repsock \<times> status" where
  "resp_ctx_SetOption name v c s =
     (if name = OptionSendDeadline then set_field (asDuration v) (\<lambda>d. upd_ectx c (\<lambda>x. x\<lparr>e_sendExpire := d\<rparr>)) s
      else if name = OptionRecvDeadline then set_field (asDuration v) (\<lambda>d. upd_ectx c (\<lambda>x. x\<lparr>e_recvExpire := d\<rparr>)) s
      else if name = OptionBestEffort then set_field (asBool v) (\<lambda>b. upd_ectx c (\<lambda>x. x\<lparr>e_bestEffort := b\<rparr>)) s
      else (s, Some ErrBadOption))"

definition resp_receiver_msg :: "nat \<Rightarrow> message \<Rightarrow> repsock \<Rightarrow> repsock" where
  "resp_receiver_msg p m s =
     (case rep_loop (x_ttl s) 0 (Header m) (Body m) of
        None \<Rightarrow> Free (m_id m) s
      | Some (h, b) \<Rightarrow> hold_msg p (m\<lparr>Header := h, Body := b, m_from := p\<rparr>) s)"

text \<open>The inner loop of \<^verbatim>\<open>receiver\<close>: after a replacement it offers the message to the new queue.\<close>

definition resp_receiver_put :: "nat \<Rightarrow> repsock \<Rightarrow> repsock list" where
  "resp_receiver_put p s =
     (case p_hold (x_pobj s p) of
        None \<Rightarrow> []
      | Some (m, rq, zq) \<Rightarrow>
          ready_cases
            [case_if (x_zclosed s zq) (hold_msg p m s),
             map_option (upd_pipe p (\<lambda>x. x\<lparr>p_hold := None\<rparr>)) (try_send rq m s),
             case_if (x_closeQ s) (receiver_exit p (Free (m_id m) s))])"

definition resp_Close :: "repsock \<Rightarrow> repsock \<times> status" where
  "resp_Close s =
     (if x_closed s then (s, Some ErrClosed)
      else (fold resp_ctx_close (e_contexts s) (close_closeQ (s\<lparr>x_closed := True\<rparr>)), None))"

definition resp_AddPipe :: "u32 \<Rightarrow> repsock \<Rightarrow> repsock \<times> status" where
  "resp_AddPipe i s =
     (if x_closed s then (s, Some ErrClosed)
      else ((upd_pipe (x_npipe s) (\<lambda>_. new_rpipe i (x_sendQLen s)) s)\<lparr>x_npipe := Suc (x_npipe s)\<rparr>, None))"

definition resp_RemovePipe :: "nat \<Rightarrow> repsock \<Rightarrow> repsock" where
  "resp_RemovePipe p s = close_pipeQ p s"

text \<open>Context 0 is \<^verbatim>\<open>s.defCtx\<close>.\<close>

definition resp_SetOption :: "string \<Rightarrow> optval \<Rightarrow> repsock \<Rightarrow> repsock \<times> status" where
  "resp_SetOption name v s =
     (if name = OptionWriteQLen then set_field (asQLen v) (\<lambda>n s. s\<lparr>x_sendQLen := n\<rparr>) s
      else if name = OptionReadQLen then set_field (asQLen v) resize_recvQ s
      else if name = OptionTTL then set_field (asTTL v) (\<lambda>n s. s\<lparr>x_ttl := n\<rparr>) s
      else resp_ctx_SetOption name v 0 s)"

definition resp_GetOption :: "string \<Rightarrow> repsock \<Rightarrow> err + optval" where
  "resp_GetOption name s =
     (if name = OptionRaw then Inr (VBool False)
      else if name = OptionTTL then Inr (VInt (int (x_ttl s)))
      else if name = OptionWriteQLen then Inr (VInt (int (x_sendQLen s)))
      else if name = OptionReadQLen then Inr (VInt (int (x_recvQLen s)))
      else resp_ctx_GetOption name (e_ctxs s 0))"

definition resp_OpenContext :: "repsock \<Rightarrow> repsock \<times> (err + nat)" where
  "resp_OpenContext s =
     (if x_closed s then (s, Inl ErrClosed)
      else
        (let d = e_ctxs s 0;
             x = ectx0\<lparr>e_bestEffort := e_bestEffort d, e_recvExpire := e_recvExpire d, e_sendExpire := e_sendExpire d\<rparr>
         in ((upd_ectx (e_nctx s) (\<lambda>_. x) s)\<lparr>e_nctx := Suc (e_nctx s), e_contexts := e_contexts s @ [e_nctx s]\<rparr>,
             Inr (e_nctx s))))"

definition resp_NewProtocol :: repsock where
  "resp_NewProtocol = rawsock.extend (raw_new 128 0 8)
     \<lparr>e_ctxs = (\<lambda>_. ectx0), e_nctx = 1, e_contexts = [0]\<rparr>"

section \<open>Runs\<close>

text \<open>As for REP, a step is labelled with the context whose saved survey it may change.\<close>

inductive resp_step :: "nat option \<Rightarrow> repsock \<Rightarrow> repsock \<Rightarrow> bool" where
  rd_recv: "resp_step (Some c) s (fst (resp_RecvMsg_begin c s))"
| rd_try: "c < e_nctx s \<Longrightarrow> resp_RecvMsg_try c snap s = Some (s', x) \<Longrightarrow> resp_step (Some c) s s'"
| rd_wait: "c < e_nctx s \<Longrightarrow> (s', x) \<in> set (resp_RecvMsg_wait f c snap s) \<Longrightarrow> resp_step (Some c) s s'"
| rd_rendezvous: "c < e_nctx s \<Longrightarrow> rendezvous p snap s = Some r \<Longrightarrow> resp_step (Some c) s (fst (resp_got c r))"
| rd_send: "resp_step (Some c) s (fst (resp_SendMsg_begin c m s))"
| rd_send_try: "resp_SendMsg_try b p m s = Some (s', r) \<Longrightarrow> resp_step None s s'"
| rd_send_wait: "(s', r) \<in> set (resp_SendMsg_wait b f c loc s) \<Longrightarrow> resp_step None s s'"
| rd_receive: "resp_step None s (resp_receiver_msg p m s)"
| rd_put: "s' \<in> set (resp_receiver_put p s) \<Longrightarrow> resp_step None s s'"
| rd_sender: "s' \<in> set (sender_take False p s) \<Longrightarrow> resp_step None s s'"
| rd_sent: "resp_step None s (sender_done False p err s)"
| rd_ctx_close: "resp_step None s (fst (resp_ctx_Close c s))"
| rd_ctx_set: "resp_step None s (fst (resp_ctx_SetOption n v c s))"
| rd_set: "resp_step None s (fst (resp_SetOption n v s))"
| rd_close: "resp_step None s (fst (resp_Close s))"
| rd_open: "resp_step None s (fst (resp_OpenContext s))"
| rd_add: "resp_step None s (fst (resp_AddPipe i s))"
| rd_remove: "p < x_npipe s \<Longrightarrow> \<not> p_closeQ (x_pobj s p) \<Longrightarrow> resp_step None s (resp_RemovePipe p s)"

definition resp_inv :: "repsock \<Rightarrow> bool" where
  "resp_inv s \<longleftrightarrow> raw_ok any s \<and> (\<forall>c. ectx_ok (e_ctxs s c)) \<and> (\<forall>c\<ge>e_nctx s. e_backtrace (e_ctxs s c) = None)"

lemma resp_invD:
  assumes "resp_inv s"
  shows "raw_ok any s" "ectx_ok (e_ctxs s c)" "e_nctx s \<le> c \<Longrightarrow> e_backtrace (e_ctxs s c) = None"
  using assms by (auto simp: resp_inv_def)

lemma raw_ok_ectx [simp]: "raw_ok Q (upd_ectx c f s) = raw_ok Q s" "raw_ok Q (s\<lparr>e_contexts := cs\<rparr>) = raw_ok Q s"
  "raw_ok Q (s\<lparr>e_nctx := n\<rparr>) = raw_ok Q s"
  by (simp_all add: raw_ok_def upd_ectx_def)

text \<open>Operations on queues and pipes leave the contexts alone.\<close>

definition same_ctxs :: "repsock \<Rightarrow> repsock \<Rightarrow> bool" where
  "same_ctxs s t \<longleftrightarrow> e_ctxs t = e_ctxs s \<and> e_nctx t = e_nctx s"

lemma same_ctxs_inv: "resp_inv s \<Longrightarrow> raw_ok any t \<Longrightarrow> same_ctxs s t \<Longrightarrow> resp_inv t"
  by (simp add: resp_inv_def same_ctxs_def)

lemma same_ctxs_ops [intro]:
  "same_ctxs s s" "same_ctxs s (Free i s)"
  "recv_try snap s = Some (t, x) \<Longrightarrow> same_ctxs s t" "rendezvous p snap s = Some (t, x) \<Longrightarrow> same_ctxs s t"
  "pipe_send b p m s = Some t \<Longrightarrow> same_ctxs s t" "t \<in> set (sender_take cl p s) \<Longrightarrow> same_ctxs s t"
  "same_ctxs s (sender_done fr p e s)" "try_send q m s = Some t \<Longrightarrow> same_ctxs s t" "same_ctxs s (hold_msg p m s)"
  "same_ctxs s (receiver_exit p s)" "same_ctxs s (close_pipeQ p s)" "same_ctxs s (resize_recvQ n s)"
  by (auto simp: same_ctxs_def recv_try_def try_recv_def rendezvous_def pipe_send_def sender_take_def sender_done_def
      try_send_def hold_msg_def receiver_exit_def close_pipeQ_def resize_recvQ_def make_chan_def close_sizeQ_def
      set_ready_cases Let_def split: prod.splits option.splits if_splits)

lemma resp_inv_upd:
  assumes "resp_inv s" and "ectx_ok (f (e_ctxs s c))"
    and "c < e_nctx s \<or> e_backtrace (f (e_ctxs s c)) = None"
  shows "resp_inv (upd_ectx c f s)"
  using assms by (auto simp: resp_inv_def)

lemma resp_inv_upd_same:
  assumes "resp_inv s" "\<And>x. ectx_ok x \<Longrightarrow> ectx_ok (f x)" "\<And>x. e_backtrace (f x) = e_backtrace x"
  shows "resp_inv (upd_ectx c f s)"
  using assms resp_invD(2,3) [OF assms(1)] by (intro resp_inv_upd) (auto simp: not_le [symmetric])

lemma resp_ctx_close_inv:
  assumes "resp_inv s"
  shows "resp_inv (resp_ctx_close c s)"
proof -
  have "resp_ctx_close c s = s \<or>
      resp_ctx_close c s =
        (upd_ectx c (\<lambda>x. x\<lparr>e_closed := True, e_closeQ := True\<rparr>) s)\<lparr>e_contexts := remove1 c (e_contexts s)\<rparr>"
    using resp_invD(2) [OF assms, of c]
    by (auto simp: resp_ctx_close_def Let_def ectx_ok_def upd_ectx_def)
  moreover have "resp_inv (upd_ectx c (\<lambda>x. x\<lparr>e_closed := True, e_closeQ := True\<rparr>) s)"
    using assms by (intro resp_inv_upd_same) (auto simp: ectx_ok_def)
  ultimately show ?thesis using assms by (auto simp: resp_inv_def)
qed

lemma resp_Close_inv:
  assumes "resp_inv s"
  shows "resp_inv (fst (resp_Close s))"
proof (cases "x_closed s")
  case False
  have "resp_inv (close_closeQ (s\<lparr>x_closed := True\<rparr>))"
    using raw_ok_close [OF resp_invD(1) [OF assms] False] assms False
    by (auto simp: resp_inv_def close_closeQ_def)
  then have "resp_inv (fold resp_ctx_close cs (close_closeQ (s\<lparr>x_closed := True\<rparr>)))" for cs
    by (induction cs rule: rev_induct) (auto intro: resp_ctx_close_inv)
  then show ?thesis using False by (simp add: resp_Close_def)
qed (use assms in \<open>simp add: resp_Close_def\<close>)

lemma resp_got_inv:
  assumes "resp_inv s" "c < e_nctx s" "raw_ok any t" "same_ctxs s t"
  shows "resp_inv (fst (resp_got c (t, x)))"
proof -
  have t: "resp_inv t" using assms by (blast intro: same_ctxs_inv)
  have "c < e_nctx t" using assms by (simp add: same_ctxs_def)
  then show ?thesis
    using t resp_invD(2) [OF t, of c]
    by (cases x) (auto simp: resp_got_def ectx_ok_def intro!: resp_inv_upd)
qed

lemma resp_try_inv:
  assumes "resp_inv s" "c < e_nctx s" "resp_RecvMsg_try c snap s = Some (s', x)"
  shows "resp_inv s'"
proof -
  obtain r where r: "recv_try snap s = Some r" "(s', x) = resp_got c r"
    using assms(3) by (auto simp: resp_RecvMsg_try_def)
  then have "recv_try snap s = Some (fst r, snd r)" by simp
  then have "raw_ok any (fst r)" "same_ctxs s (fst r)"
    using raw_ok_recv_try [OF resp_invD(1) [OF assms(1)]] same_ctxs_ops(3) by blast+
  from resp_got_inv [OF assms(1,2) this, of "snd r"] r(2) show ?thesis by (metis fst_conv prod.collapse)
qed

lemma resp_send_inv:
  assumes "resp_inv s"
  shows "resp_inv (fst (resp_SendMsg_begin c m s))"
proof -
  have "resp_inv (upd_ectx c (\<lambda>x. x\<lparr>e_recvPipe := None, e_backtrace := None\<rparr>) s)"
    using assms resp_invD(2) [OF assms, of c] by (intro resp_inv_upd) (auto simp: ectx_ok_def)
  then show ?thesis
    using assms resp_invD(2) [OF assms, of c]
    by (auto simp: resp_SendMsg_begin_def Let_def ectx_ok_def split: option.split)
qed

lemma resp_set_inv:
  assumes "resp_inv s"
  shows "resp_inv (fst (resp_ctx_SetOption n v c s))" "resp_inv (fst (resp_SetOption n v s))"
proof -
  have upd: "resp_inv (upd_ectx c (\<lambda>x. x\<lparr>e_bestEffort := b\<rparr>) s)" "resp_inv (upd_ectx c (\<lambda>x. x\<lparr>e_sendExpire := d\<rparr>) s)"
    "resp_inv (upd_ectx c (\<lambda>x. x\<lparr>e_recvExpire := d\<rparr>) s)" for b d c
    using assms by (auto simp: ectx_ok_def intro!: resp_inv_upd_same)
  have sz: "resp_inv (resize_recvQ k s)" for k
    using same_ctxs_inv [OF assms raw_ok_make_recv [OF resp_invD(1) [OF assms]]] same_ctxs_ops(12) by simp
  have fl: "resp_inv (s\<lparr>x_sendQLen := k\<rparr>)" "resp_inv (s\<lparr>x_ttl := k\<rparr>)" for k
    using assms by (simp_all add: resp_inv_def)
  show "resp_inv (fst (resp_ctx_SetOption n v c s))"
    by (rule afterD) (simp add: resp_ctx_SetOption_def upd assms)
  show "resp_inv (fst (resp_SetOption n v s))"
    by (rule afterD) (simp add: resp_SetOption_def resp_ctx_SetOption_def upd sz fl assms)
qed

lemma resp_put_inv:
  assumes "resp_inv s" "t \<in> set (resp_receiver_put p s)"
  shows "resp_inv t"
proof -
  have ok: "raw_ok any s" by (rule resp_invD(1) [OF assms(1)])
  obtain m rq zq where h: "p_hold (x_pobj s p) = Some (m, rq, zq)"
    using assms(2) by (cases "p_hold (x_pobj s p)") (auto simp: resp_receiver_put_def)
  consider "t = hold_msg p m s" | s1 where "try_send rq m s = Some s1" "t = upd_pipe p (\<lambda>x. x\<lparr>p_hold := None\<rparr>) s1"
    | "t = receiver_exit p (Free (m_id m) s)"
    using assms(2) by (auto simp: resp_receiver_put_def h set_ready_cases)
  then have "raw_ok any t \<and> same_ctxs s t"
  proof cases
    case 1
    then show ?thesis using raw_ok_hold [OF ok] by blast
  next
    case 2
    then have "raw_ok any s1" "same_ctxs s s1" using raw_ok_try_send [OF ok] by blast+
    then show ?thesis unfolding 2(2) using raw_ok_unhold [of any s1 p] by (simp add: same_ctxs_def)
  next
    case 3
    then show ?thesis using raw_ok_receiver_exit [of any "Free (m_id m) s" p] ok
      by (simp add: same_ctxs_def receiver_exit_def)
  qed
  then show ?thesis using assms(1) same_ctxs_inv by blast
qed

lemma resp_step_inv: "resp_step l s t \<Longrightarrow> resp_inv s \<Longrightarrow> resp_inv t"
proof (induction rule: resp_step.induct)
  case (rd_recv c s)
  then show ?case
    using resp_invD(2) [OF rd_recv, of c]
    by (auto simp: resp_RecvMsg_begin_def Let_def ectx_ok_def intro!: resp_inv_upd)
next
  case (rd_try c s snap s' x)
  then show ?case by (blast intro: resp_try_inv)
next
  case (rd_wait c s s' x f snap)
  then show ?case
    by (auto simp: resp_RecvMsg_wait_def set_ready_cases split: prod.splits intro: resp_try_inv)
next
  case (rd_rendezvous c s p snap r)
  then show ?case
    using resp_got_inv [of s c "fst r" "snd r"] raw_ok_rendezvous [OF resp_invD(1) [OF rd_rendezvous.prems], of p snap "fst r" "snd r"]
    by (metis prod.collapse same_ctxs_ops(4))
next
  case (rd_send_try b p m s s' r)
  then show ?case
    using raw_ok_pipe_send [OF resp_invD(1) [OF rd_send_try.prems]]
    by (auto simp: resp_SendMsg_try_def intro: same_ctxs_inv)
next
  case (rd_send_wait s' r b f c loc s)
  then show ?case
    using raw_ok_pipe_send [OF resp_invD(1) [OF rd_send_wait.prems]] resp_invD(1) [OF rd_send_wait.prems]
    by (auto simp: resp_SendMsg_wait_def resp_SendMsg_try_def set_ready_cases split: prod.splits if_splits
        intro: same_ctxs_inv)
next
  case (rd_receive s p m)
  have ok: "raw_ok any s" by (rule resp_invD(1) [OF rd_receive])
  show ?case using rd_receive raw_ok_hold [OF ok] ok
    by (auto simp: resp_receiver_msg_def split: option.split intro: same_ctxs_inv)
next
  case (rd_ctx_close s c)
  then show ?case by (simp add: resp_ctx_Close_def resp_ctx_close_inv)
next
  case (rd_open s)
  then show ?case
    by (auto simp: resp_OpenContext_def Let_def resp_inv_def ectx_ok_def ectx0_def)
next
  case (rd_add s i)
  have "raw_ok any (upd_pipe k (\<lambda>_. new_rpipe i n) s)" for k n
    using resp_invD(1) [OF rd_add] by (intro raw_ok_upd_pipe) (auto simp: rpipe_ok_def new_rpipe_def)
  then show ?case using rd_add by (auto simp: resp_AddPipe_def resp_inv_def)
next
  case (rd_remove p s)
  then show ?case
    using raw_ok_close_pipe [OF resp_invD(1)] by (auto simp: resp_RemovePipe_def intro: same_ctxs_inv)
next
  case (rd_sender s' p s)
  then show ?case using raw_ok_sender_take [OF resp_invD(1)] by (blast intro: same_ctxs_inv)
next
  case (rd_sent s p err)
  then show ?case using raw_ok_sender_done [OF resp_invD(1)] by (blast intro: same_ctxs_inv)
qed (blast intro: resp_send_inv resp_put_inv resp_set_inv resp_Close_inv)+

interpretation resp: machine "\<lambda>s. s = resp_NewProtocol" "\<lambda>s t. \<exists>l. resp_step l s t" resp_inv
proof unfold_locales
  show "resp_inv s" if "s = resp_NewProtocol" for s
  proof -
    have "raw_ok any (raw_new 128 0 8)" by (rule raw_ok_new)
    then show ?thesis using that
      by (simp add: resp_inv_def resp_NewProtocol_def raw_ok_def rawsock.extend_def ectx_ok_def ectx0_def)
  qed
  show "resp_inv t" if "resp_inv s" "\<exists>l. resp_step l s t" for s t using that resp_step_inv by blast
qed

section \<open>The saved survey\<close>

lemma same_ctxs_saved: "same_ctxs s t \<Longrightarrow> keeps_saved c s t"
  by (simp add: same_ctxs_def keeps_saved_def saved_def)

lemma resp_ctx_close_saved: "keeps_saved c s (resp_ctx_close d s)"
  by (auto simp: resp_ctx_close_def Let_def keeps_saved_def saved_def)

lemma resp_Close_saved: "keeps_saved c s (fst (resp_Close s))"
proof -
  have "keeps_saved c s t \<Longrightarrow> keeps_saved c s (fold resp_ctx_close cs t)" for cs t
  proof (induction cs arbitrary: t)
    case (Cons d cs)
    then have "keeps_saved c s (resp_ctx_close d t)"
      using resp_ctx_close_saved [of c t d] by (simp add: keeps_saved_def)
    then show ?case using Cons.IH by simp
  qed simp
  then show ?thesis by (simp add: resp_Close_def keeps_saved_def saved_def close_closeQ_def)
qed

lemma resp_set_saved: "keeps_saved c s (fst (resp_ctx_SetOption n v d s))" "keeps_saved c s (fst (resp_SetOption n v s))"
proof -
  have "keeps_saved c s (resize_recvQ k s)" for k by (rule same_ctxs_saved) blast
  moreover have "keeps_saved c s (s\<lparr>x_sendQLen := k\<rparr>)" "keeps_saved c s (s\<lparr>x_ttl := k\<rparr>)" "keeps_saved c s s" for k
    by (simp_all add: keeps_saved_def saved_def)
  moreover note upd_saved
  ultimately show "keeps_saved c s (fst (resp_ctx_SetOption n v d s))" "keeps_saved c s (fst (resp_SetOption n v s))"
    by - (rule afterD, simp add: resp_SetOption_def resp_ctx_SetOption_def)+
qed

lemma resp_put_same: "t \<in> set (resp_receiver_put p s) \<Longrightarrow> same_ctxs s t"
  by (auto simp: resp_receiver_put_def same_ctxs_def try_send_def hold_msg_def receiver_exit_def set_ready_cases
      split: option.splits if_splits)

lemma resp_step_saved: "resp_step l s t \<Longrightarrow> l \<noteq> Some c \<Longrightarrow> c < e_nctx s \<Longrightarrow> keeps_saved c s t"
proof (induction rule: resp_step.induct)
  case (rd_recv d s)
  then show ?case by (auto simp: resp_RecvMsg_begin_def Let_def keeps_saved_def saved_def)
next
  case (rd_try d s snap s' x)
  then obtain r where r: "recv_try snap s = Some r" "(s', x) = resp_got d r"
    by (auto simp: resp_RecvMsg_try_def)
  then have "same_ctxs s (fst r)" by (metis prod.collapse same_ctxs_ops(3))
  with r(2) rd_try show ?case
    by (cases r; cases "snd r") (auto simp: resp_got_def same_ctxs_def keeps_saved_def saved_def)
next
  case (rd_wait d s s' x f snap)
  then consider r where "recv_try snap s = Some r" "(s', x) = resp_got d r" | "s' = s"
    by (auto simp: resp_RecvMsg_wait_def resp_RecvMsg_try_def set_ready_cases split: prod.splits)
  then show ?case
  proof cases
    case (1 r)
    then have "same_ctxs s (fst r)" by (metis prod.collapse same_ctxs_ops(3))
    with 1 rd_wait show ?thesis
      by (cases r; cases "snd r") (auto simp: resp_got_def same_ctxs_def keeps_saved_def saved_def)
  qed (simp add: keeps_saved_def)
next
  case (rd_rendezvous d s p snap r)
  then have "same_ctxs s (fst r)" by (metis prod.collapse same_ctxs_ops(4))
  with rd_rendezvous show ?case
    by (cases r; cases "snd r") (auto simp: resp_got_def same_ctxs_def keeps_saved_def saved_def)
next
  case (rd_send d s m)
  then show ?case by (auto simp: resp_SendMsg_begin_def Let_def keeps_saved_def saved_def split: option.split)
next
  case (rd_send_try b p m s s' r)
  then have "same_ctxs s s'" by (auto simp: resp_SendMsg_try_def)
  then show ?case by (rule same_ctxs_saved)
next
  case (rd_send_wait s' r b f c' loc s)
  then have "same_ctxs s s'"
    by (auto simp: resp_SendMsg_wait_def resp_SendMsg_try_def set_ready_cases split: prod.splits if_splits)
  then show ?case by (rule same_ctxs_saved)
next
  case (rd_receive s p m)
  have "same_ctxs s (resp_receiver_msg p m s)" by (auto simp: resp_receiver_msg_def split: option.split)
  then show ?case by (rule same_ctxs_saved)
next
  case (rd_ctx_close s d)
  then show ?case by (simp add: resp_ctx_Close_def resp_ctx_close_saved) (simp add: keeps_saved_def)
next
  case (rd_open s)
  then show ?case by (auto simp: resp_OpenContext_def Let_def keeps_saved_def saved_def)
next
  case (rd_add s i)
  then show ?case by (auto simp: resp_AddPipe_def keeps_saved_def saved_def)
next
  case (rd_remove p s)
  have "same_ctxs s (resp_RemovePipe p s)" unfolding resp_RemovePipe_def by blast
  then show ?case by (rule same_ctxs_saved)
qed (blast intro: same_ctxs_saved resp_put_same resp_set_saved resp_Close_saved)+

definition resp_others :: "nat \<Rightarrow> repsock \<Rightarrow> repsock \<Rightarrow> bool" where
  "resp_others c s t \<longleftrightarrow> (\<exists>l. l \<noteq> Some c \<and> resp_step l s t)"

lemma resp_others_saved:
  assumes "(resp_others c)\<^sup>*\<^sup>* s t" and "c < e_nctx s"
  shows "keeps_saved c s t"
  using assms(1)
proof (induction rule: rtranclp_induct)
  case base
  then show ?case by (simp add: keeps_saved_def)
next
  case (step t u)
  then have "keeps_saved c t u" using resp_step_saved assms(2) by (fastforce simp: resp_others_def keeps_saved_def)
  with step show ?case by (simp add: keeps_saved_def)
qed

section \<open>Properties\<close>

text \<open>
  RESPONDENT never panics, in any interleaving and through any number of queue replacements,
  and its receive queue never holds more surveys than \<^verbatim>\<open>OptionReadQLen\<close> allows.
\<close>

theorem respondent_never_panics:
  assumes "(\<lambda>s t. \<exists>l. resp_step l s t)\<^sup>*\<^sup>* resp_NewProtocol s"
  shows "\<not> panicked s \<and> length (ch_buf (chans s (x_recvQ s))) \<le> x_recvQLen s"
proof -
  have ok: "raw_ok any s" using resp.reachable_inv [OF refl assms] by (simp add: resp_inv_def)
  show ?thesis using raw_okD(1,7) [OF ok] raw_okD(2) [OF ok, of "x_recvQ s"] by (auto simp: plain_chan_def)
qed

text \<open>
  A response goes to the surveyor whose survey the context received: whatever the others do in
  between, \<^verbatim>\<open>SendMsg\<close> addresses the pipe of that survey and carries its backtrace.
\<close>

theorem respondent_reply_routed:
  assumes "recv_try snap s = Some (s0, Got m)" and "resp_RecvMsg_try c snap s = Some (s1, x)"
    and "c < e_nctx s" and "(resp_others c)\<^sup>*\<^sup>* s1 t" and "\<not> x_closed t" and "\<not> e_closed (e_ctxs t c)"
  shows "\<exists>be tq u. resp_SendMsg_begin c r t = (u, Inr (r\<lparr>Header := Header m\<rparr>, m_from m, be, tq))"
proof -
  have "saved c s1 = (Some (Header m), Some (m_from m))" "e_nctx s1 = e_nctx s"
    using assms(1,2) same_ctxs_ops(3) [OF assms(1)]
    by (auto simp: resp_RecvMsg_try_def resp_got_def saved_def same_ctxs_def)
  moreover have "saved c t = saved c s1"
    using resp_others_saved [OF assms(4)] assms(3) calculation(2) by (simp add: keeps_saved_def)
  ultimately have "e_backtrace (e_ctxs t c) = Some (Header m)" "e_recvPipe (e_ctxs t c) = Some (m_from m)"
    by (simp_all add: saved_def)
  then show ?thesis
    using assms(5,6) by (auto simp: resp_SendMsg_begin_def Let_def)
qed

definition resp1 :: repsock where
  "resp1 = resp_NewProtocol\<lparr>chans := (chans resp_NewProtocol)(1 := chan_push rep_m (make_gochan 128))\<rparr>"

theorem respondent_never_panics_witness:
  "\<not> panicked (fst (resp_Close (fst (resp_AddPipe 5 resp_NewProtocol))))"
proof -
  have "\<exists>l. resp_step l resp_NewProtocol (fst (resp_AddPipe 5 resp_NewProtocol))" by (blast intro: rd_add)
  moreover have "\<exists>l. resp_step l (fst (resp_AddPipe 5 resp_NewProtocol)) (fst (resp_Close (fst (resp_AddPipe 5 resp_NewProtocol))))"
    by (blast intro: rd_close)
  ultimately have "(\<lambda>s t. \<exists>l. resp_step l s t)\<^sup>*\<^sup>* resp_NewProtocol (fst (resp_Close (fst (resp_AddPipe 5 resp_NewProtocol))))"
    by (rule rtranclp.rtrancl_into_rtrancl [OF r_into_rtranclp])
  from respondent_never_panics [OF this] show ?thesis by simp
qed

theorem respondent_reply_routed_witness:
  "\<exists>s1 x be tq u. resp_RecvMsg_try 0 (NilQ, Suc 0, 0) resp1 = Some (s1, x) \<and>
     resp_SendMsg_begin 0 rep_m s1 = (u, Inr (rep_m, 0, be, tq))"
proof -
  have c: "chans resp1 (Suc 0) = chan_push rep_m (make_gochan 128)" "0 < e_nctx resp1" "\<not> x_closed resp1"
    "\<not> e_closed (e_ctxs resp1 0)"
    by (simp_all add: resp1_def resp_NewProtocol_def raw_new_def rawsock.extend_def ectx0_def)
  then obtain s0 where r: "recv_try (NilQ, Suc 0, 0) resp1 = Some (s0, Got rep_m)"
    "\<not> x_closed s0" "\<not> e_closed (e_ctxs s0 0)"
    by (auto simp: recv_try_def try_recv_def chan_pop_def)
  then obtain s1 x where t: "resp_RecvMsg_try 0 (NilQ, Suc 0, 0) resp1 = Some (s1, x)" "\<not> x_closed s1" "\<not> e_closed (e_ctxs s1 0)"
    by (auto simp: resp_RecvMsg_try_def resp_got_def)
  have "rep_m\<lparr>Header := Header rep_m\<rparr> = rep_m" "m_from rep_m = 0" by (simp_all add: rep_m_def)
  then show ?thesis
    using respondent_reply_routed [OF r(1) t(1) c(2) rtranclp.rtrancl_refl t(2,3), of rep_m] t(1) by auto
qed

section \<open>The protocol contract\<close>

lemma resp_Close_closed: "x_closed (fold resp_ctx_close cs s) = x_closed s"
  by (induction cs arbitrary: s) (auto simp: resp_ctx_close_def Let_def)

interpretation resp_proto: protocol_base x_closed "\<lambda>s. p_ID ` x_pobj s ` {..<x_npipe s}" resp_Close resp_AddPipe resp_SetOption resp_GetOption
proof unfold_locales
  show "resp_GetOption n (fst (resp_SetOption n v s)) = Inr v"
    if "snd (resp_SetOption n v s) = None" "resp_GetOption n s \<noteq> Inl ErrBadOption" for n v s
  proof (cases "n = OptionRaw")
    case True
    then show ?thesis using that by (simp add: resp_SetOption_def resp_ctx_SetOption_def option_names)
  next
    case False
    then show ?thesis using that(1)
      by (auto simp: resp_SetOption_def resp_ctx_SetOption_def resp_GetOption_def resp_ctx_GetOption_def fst_set_field
          asQLen_eq_Some asTTL_eq_Some split: if_splits) (simp_all add: option_names)
  qed
  show "fst (resp_SetOption n v s) = s" if "snd (resp_SetOption n v s) \<noteq> None" for n v s
    by (rule cleanD [OF _ that]) (simp add: resp_SetOption_def resp_ctx_SetOption_def)
  have rz: "x_npipe (resize_recvQ k s) = x_npipe s" "x_pobj (resize_recvQ k s) = x_pobj s" for k and s :: repsock
    by (simp_all add: resize_recvQ_def make_chan_def close_sizeQ_def)
  show "x_closed (fst (resp_SetOption n v s)) = x_closed s \<and>
      p_ID ` x_pobj (fst (resp_SetOption n v s)) ` {..<x_npipe (fst (resp_SetOption n v s))} = p_ID ` x_pobj s ` {..<x_npipe s}" for n v s
    by (rule afterD) (simp add: resp_SetOption_def resp_ctx_SetOption_def rz)
qed (auto simp: resp_Close_def resp_AddPipe_def resp_Close_closed)

end
