(* ===== verification/Xrespondent.thy ===== *)
theory Xrespondent
  imports Xrep
begin

text \<open>
  Raw RESPONDENT, \<^verbatim>\<open>protocol/xrespondent/xrespondent.go\<close>. It differs from raw REP in the hop
  limit, in what a send to a closed pipe reports, and in keeping one timer across queue
  replacements.
\<close>

section \<open>Operations\<close>

definition xresp_SendMsg_begin ::
    "message \<Rightarrow> rawsock \<Rightarrow> rawsock \<times> ((message \<times> status) + (message \<times> bytes \<times> nat \<times> bool \<times> timeq))" where
  "xresp_SendMsg_begin m s =
     (if x_closed s then (s, Inl (m, Some ErrClosed))
      else if length (Header m) < 4 then (Free (m_id m) s, Inl (m, None))
      else
        (let i = Uint32 (Header m);
             hdr = Header m;
             m' = m\<lparr>Header := drop 4 (Header m)\<rparr>
         in case x_pipes s i of
              None \<Rightarrow> (Free (m_id m) s, Inl (m', None))
            | Some p \<Rightarrow>
                (s, Inr (m', hdr, p, x_bestEffort s,
                         if x_bestEffort s then ClosedQ else expire_q (x_sendExpire s)))))"

definition xresp_SendMsg_try :: "bool \<Rightarrow> nat \<Rightarrow> message \<Rightarrow> rawsock \<Rightarrow> (rawsock \<times> message \<times> status) option" where
  "xresp_SendMsg_try parked p m s = map_option (\<lambda>s'. (s', m, None)) (pipe_send parked p m s)"

definition xresp_SendMsg_wait ::
    "bool \<Rightarrow> bool \<Rightarrow> message \<times> bytes \<times> nat \<times> bool \<times> timeq \<Rightarrow> rawsock \<Rightarrow> (rawsock \<times> message \<times> status) list" where
  "xresp_SendMsg_wait parked fired loc s =
     (case loc of (m, hdr, p, be, tq) \<Rightarrow>
        ready_cases
          [xresp_SendMsg_try parked p m s,
           case_if (p_closeQ (x_pobj s p)) (Free (m_id m) s, m, None),
           case_if (timeq_ready fired tq)
             (if be then (Free (m_id m) s, m, None) else (s, m\<lparr>Header := hdr\<rparr>, Some ErrSendTimeout))])"

definition xresp_RecvMsg_begin :: "rawsock \<Rightarrow> recv_snap" where
  "xresp_RecvMsg_begin s = (expire_q (x_recvExpire s), x_recvQ s, x_sizeQ s)"

text \<open>After a replacement of the queue the loop goes on with the new queue and the old timer.\<close>

definition xresp_RecvMsg_again :: "recv_snap \<Rightarrow> rawsock \<Rightarrow> recv_snap" where
  "xresp_RecvMsg_again snap s = (case snap of (tq, rq, zq) \<Rightarrow> (tq, x_recvQ s, x_sizeQ s))"

definition xresp_receiver_msg :: "nat \<Rightarrow> message \<Rightarrow> rawsock \<Rightarrow> rawsock" where
  "xresp_receiver_msg p m s =
     (if length (Body m) < 4 then Free (m_id m) s
      else
        case xrespondent_loop (x_ttl s) 1 (PutUint32 (p_ID (x_pobj s p)) @ Header m) (Body m) of
          None \<Rightarrow> Free (m_id m) s
        | Some (h, b) \<Rightarrow> hold_msg p (m\<lparr>Header := h, Body := b\<rparr>) s)"

text \<open>Here the old size channel is closed before the fields are replaced, under the same lock.\<close>

definition xresp_resize :: "nat \<Rightarrow> rawsock \<Rightarrow> rawsock" where
  "xresp_resize n s =
     (let (q, s1) = make_chan n s; s2 = close_sizeQ (x_sizeQ s1) s1
      in s2\<lparr>x_recvQLen := n, x_recvQ := q, x_rqs := insert q (x_rqs s2), x_sizeQ := Suc (x_sizeQ s2)\<rparr>)"

definition xresp_SetOption :: "string \<Rightarrow> optval \<Rightarrow> rawsock \<Rightarrow> rawsock \<times> status" where
  "xresp_SetOption name v s =
     (if name = OptionTTL then set_field (asTTL v) (\<lambda>n s. s\<lparr>x_ttl := n\<rparr>) s
      else if name = OptionRecvDeadline then set_field (asDuration v) (\<lambda>d s. s\<lparr>x_recvExpire := d\<rparr>) s
      else if name = OptionSendDeadline then set_field (asDuration v) (\<lambda>d s. s\<lparr>x_sendExpire := d\<rparr>) s
      else if name = OptionBestEffort then set_field (asBool v) (\<lambda>b s. s\<lparr>x_bestEffort := b\<rparr>) s
      else if name = OptionWriteQLen then set_field (asQLen v) (\<lambda>n s. s\<lparr>x_sendQLen := n\<rparr>) s
      else if name = OptionReadQLen then set_field (asQLen v) xresp_resize s
      else (s, Some ErrBadOption))"

definition xresp_GetOption :: "string \<Rightarrow> rawsock \<Rightarrow> err + optval" where
  "xresp_GetOption name s =
     (if name = OptionRaw then Inr (VBool True)
      else if name = OptionTTL then Inr (VInt (int (x_ttl s)))
      else if name = OptionRecvDeadline then Inr (VDuration (x_recvExpire s))
      else if name = OptionSendDeadline then Inr (VDuration (x_sendExpire s))
      else if name = OptionBestEffort then Inr (VBool (x_bestEffort s))
      else if name = OptionWriteQLen then Inr (VInt (int (x_sendQLen s)))
      else if name = OptionReadQLen then Inr (VInt (int (x_recvQLen s)))
      else Inl ErrBadOption)"

definition xresp_Close :: "rawsock \<Rightarrow> rawsock \<times> status" where
  "xresp_Close s =
     (if x_closed s then (s, Some ErrClosed) else (close_closeQ (s\<lparr>x_closed := True\<rparr>), None))"

definition xresp_AddPipe :: "u32 \<Rightarrow> rawsock \<Rightarrow> rawsock \<times> status" where
  "xresp_AddPipe i s = (if x_closed s then (s, Some ErrClosed) else (attach_pipe i s, None))"

definition xresp_RemovePipe :: "nat \<Rightarrow> rawsock \<Rightarrow> rawsock" where
  "xresp_RemovePipe p s =
     (let s1 = close_pipeQ p s in s1\<lparr>x_pipes := (x_pipes s1)(p_ID (x_pobj s1 p) := None)\<rparr>)"

definition xresp_NewProtocol :: rawsock where
  "xresp_NewProtocol = raw_new 128 128 8"

section \<open>Runs\<close>

lemma xresp_resize_eq: "xresp_resize n s = resize_recvQ n s"
  by (simp add: xresp_resize_def resize_recvQ_def make_chan_def close_sizeQ_def)

inductive xresp_step :: "rawsock \<Rightarrow> rawsock \<Rightarrow> bool" where
  xp_raw: "raw_step False False False True s s' \<Longrightarrow> xresp_step s s'"
| xp_send: "xresp_SendMsg_begin m s = (s', r) \<Longrightarrow> xresp_step s s'"
| xp_send_try: "xresp_SendMsg_try b p m s = Some (s', r) \<Longrightarrow> xresp_step s s'"
| xp_send_wait: "(s', r) \<in> set (xresp_SendMsg_wait b f loc s) \<Longrightarrow> xresp_step s s'"
| xp_receive: "m_pipe m = Some (p_ID (x_pobj s p)) \<Longrightarrow> xresp_step s (xresp_receiver_msg p m s)"
| xp_set: "xresp_step s (fst (xresp_SetOption n v s))"
| xp_close: "xresp_step s (fst (xresp_Close s))"
| xp_add: "x_pipes s i = None \<Longrightarrow> xresp_step s (fst (xresp_AddPipe i s))"
| xp_remove: "p < x_npipe s \<Longrightarrow> \<not> p_closeQ (x_pobj s p) \<Longrightarrow> xresp_step s (xresp_RemovePipe p s)"

lemma xresp_receiver_msg_ok:
  assumes ok: "raw_ok tagged s" and m: "m_pipe m = Some (p_ID (x_pobj s p))"
  shows "raw_ok tagged (xresp_receiver_msg p m s)"
proof -
  have "tagged (m\<lparr>Header := h, Body := b\<rparr>)"
    if l: "xrespondent_loop (x_ttl s) 1 (PutUint32 (p_ID (x_pobj s p)) @ Header m) (Body m) = Some (h, b)" for h b
  proof -
    obtain t where "h = (PutUint32 (p_ID (x_pobj s p)) @ Header m) @ t"
      using l by (auto simp: xrespondent_loop_split split_bt_def split: option.splits if_splits)
    then show ?thesis using m by (simp add: tagged_def)
  qed
  then show ?thesis
    using ok raw_ok_hold [OF ok] by (auto simp: xresp_receiver_msg_def split: option.split)
qed

lemma xresp_send_raw:
  "xresp_SendMsg_begin m s = (s', r) \<Longrightarrow> s' = s \<or> raw_step zf ze fr cl s s'"
  "xresp_SendMsg_try b p m s = Some (s', r2) \<Longrightarrow> raw_step zf ze fr cl s s'"
  "(s', r2) \<in> set (xresp_SendMsg_wait b f loc s) \<Longrightarrow> s' = s \<or> raw_step zf ze fr cl s s'"
  by (auto simp: xresp_SendMsg_begin_def xresp_SendMsg_try_def xresp_SendMsg_wait_def set_ready_cases Let_def
      split: prod.splits if_splits option.splits intro: rs_free rs_pipe_send rs_recv)

lemma xresp_SetOption_table: "same_table s (fst (xresp_SetOption n v s))"
  by (rule afterD) (simp add: xresp_SetOption_def xresp_resize_eq same_table_resize)

lemma xresp_step_raw: "xresp_step s t \<Longrightarrow> raw_ok tagged s \<Longrightarrow> raw_ok tagged t"
proof (induction rule: xresp_step.induct)
  case (xp_set s n v)
  show ?case by (rule afterD) (use xp_set in \<open>simp add: xresp_SetOption_def xresp_resize_eq raw_ok_make_recv\<close>)
next
  case (xp_remove p s)
  then show ?case by (simp add: xresp_RemovePipe_def Let_def raw_ok_close_pipe)
qed (auto simp: xresp_Close_def xresp_AddPipe_def intro: raw_ok_close raw_ok_attach xresp_receiver_msg_ok
    dest!: xresp_send_raw dest: raw_step_ok)

lemma xresp_step_pipes: "xresp_step s t \<Longrightarrow> pipes_ok s \<Longrightarrow> pipes_ok t"
proof (induction rule: xresp_step.induct)
  case (xp_add s i)
  then show ?case by (simp add: xresp_AddPipe_def pipes_ok_attach)
next
  case (xp_remove p s)
  then show ?case
    using pipes_ok_detach [of s p] by (simp add: xresp_RemovePipe_def Let_def close_pipeQ_def)
next
  case (xp_receive m s p)
  have "same_table s (xresp_receiver_msg p m s)"
    by (auto simp: xresp_receiver_msg_def same_table_hold split: option.split)
  with xp_receive show ?case by (blast intro: same_table_ok)
next
  case (xp_close s)
  have "same_table s (fst (xresp_Close s))" by (simp add: xresp_Close_def same_table_close)
  with xp_close show ?case by (blast intro: same_table_ok)
qed (auto intro: same_table_ok raw_step_table xresp_SetOption_table dest!: xresp_send_raw)

interpretation xresp: machine "\<lambda>s. s = xresp_NewProtocol" xresp_step xrep_inv
proof unfold_locales
  show "xrep_inv s" if "s = xresp_NewProtocol" for s
    using that xrep.init_inv [OF refl] by (simp add: xresp_NewProtocol_def xrep_NewProtocol_def)
  show "xrep_inv t" if "xrep_inv s" "xresp_step s t" for s t
    using that xresp_step_raw xresp_step_pipes by (simp add: xrep_inv_def)
qed

interpretation xresp_proto: protocol_base x_closed "\<lambda>s. dom (x_pipes s)" xresp_Close xresp_AddPipe xresp_SetOption xresp_GetOption
proof unfold_locales
  show "xresp_GetOption n (fst (xresp_SetOption n v s)) = Inr v"
    if "snd (xresp_SetOption n v s) = None" "xresp_GetOption n s \<noteq> Inl ErrBadOption" for n v s
  proof (cases "n = OptionRaw")
    case True
    then show ?thesis using that by (simp add: xresp_SetOption_def option_names)
  next
    case False
    then show ?thesis using that(1)
      by (auto simp: xresp_SetOption_def xresp_GetOption_def xresp_resize_eq fst_set_field asQLen_eq_Some asTTL_eq_Some
          split: if_splits)
  qed
  show "fst (xresp_SetOption n v s) = s" if "snd (xresp_SetOption n v s) \<noteq> None" for n v s
    by (rule cleanD [OF _ that]) (simp add: xresp_SetOption_def)
  show "x_closed (fst (xresp_SetOption n v s)) = x_closed s \<and>
      dom (x_pipes (fst (xresp_SetOption n v s))) = dom (x_pipes s)" for n v s
    by (rule afterD) (simp add: xresp_SetOption_def xresp_resize_eq)
qed (auto simp: xresp_Close_def xresp_AddPipe_def attach_pipe_def)

section \<open>Properties\<close>

text \<open>
  In every run raw RESPONDENT panics nowhere, keeps its receive queue within
  \<^verbatim>\<open>OptionReadQLen\<close>, and every message waiting in that queue names in its header the pipe it
  arrived on.
\<close>

theorem xrespondent_state_sound:
  assumes "xresp_step\<^sup>*\<^sup>* xresp_NewProtocol s"
  shows "\<not> panicked s \<and> length (ch_buf (chans s (x_recvQ s))) \<le> x_recvQLen s \<and>
    (\<forall>m\<in>set (ch_buf (chans s (x_recvQ s))). m_pipe m = Some (Uint32 (Header m)))"
proof -
  have ok: "raw_ok tagged s"
    using xresp.reachable_inv [OF refl assms] by (simp add: xrep_inv_def)
  have "m_pipe m = Some (Uint32 (Header m))" if "tagged m" for m
    using that unfolding tagged_def by (metis append_take_drop_id Uint32_PutUint32)
  then show ?thesis
    using raw_okD(1,7) [OF ok] raw_okD(3) [OF ok, of _ "x_recvQ s"] raw_okD(2) [OF ok, of "x_recvQ s"]
    by (auto simp: plain_chan_def)
qed

theorem xrespondent_state_sound_witness:
  "\<not> panicked (fst (xresp_SetOption OptionReadQLen (VInt 3) (fst (xresp_AddPipe 1 xresp_NewProtocol))))"
proof -
  have "x_pipes xresp_NewProtocol 1 = None" by (simp add: xresp_NewProtocol_def raw_new_def)
  then have "xresp_step\<^sup>*\<^sup>* xresp_NewProtocol
      (fst (xresp_SetOption OptionReadQLen (VInt 3) (fst (xresp_AddPipe 1 xresp_NewProtocol))))"
    by (meson xp_add xp_set rtranclp.rtrancl_into_rtrancl rtranclp.rtrancl_refl)
  from xrespondent_state_sound [OF this] show ?thesis by simp
qed

end
