(* ===== verification/Xbus.thy ===== *)
theory Xbus
  imports Broadcast
begin

text \<open>
  Raw BUS, \<^verbatim>\<open>protocol/xbus/xbus.go\<close>, and cooked BUS, \<^verbatim>\<open>protocol/bus/bus.go\<close>. A received message
  carries the ID of its pipe as header, so that a device which sends it on does not send it back.
\<close>

section \<open>Operations\<close>

definition xbus_source :: "nat \<Rightarrow> message \<Rightarrow> rawsock \<Rightarrow> message \<times> rawsock \<times> u32" where
  "xbus_source k m s =
     (if length (Header m) = 4
      then (let (m1, s1) = make_unique k m s in (m1\<lparr>Header := []\<rparr>, s1, Uint32 (Header m1)))
      else (m, s, 0))"

definition xbus_SendMsg :: "(nat \<Rightarrow> bool) \<Rightarrow> nat \<Rightarrow> nat list \<Rightarrow> message \<Rightarrow> rawsock \<Rightarrow> rawsock \<times> status" where
  "xbus_SendMsg parked k ps m s =
     (if x_closed s then (s, Some ErrClosed)
      else
        (let (m1, s1, i) = xbus_source k m s
         in (Free (m_id m1) (broadcast parked m1 [p\<leftarrow>ps. p_ID (x_pobj s1 p) \<noteq> i] s1), None)))"

definition xbus_RecvMsg_begin :: "rawsock \<Rightarrow> recv_snap" where
  "xbus_RecvMsg_begin s = (expire_q_neg (x_recvExpire s), x_recvQ s, x_sizeQ s)"

definition xbus_SetOption :: "string \<Rightarrow> optval \<Rightarrow> rawsock \<Rightarrow> rawsock \<times> status" where
  "xbus_SetOption name v s =
     (if name = OptionRecvDeadline then set_field (asDuration v) (\<lambda>d s. s\<lparr>x_recvExpire := d\<rparr>) s
      else if name = OptionWriteQLen then set_field (asQLen v) (\<lambda>n s. s\<lparr>x_sendQLen := n\<rparr>) s
      else if name = OptionReadQLen then set_field (asQLen v) resize_recvQ s
      else (s, Some ErrBadOption))"

definition xbus_GetOption :: "string \<Rightarrow> rawsock \<Rightarrow> err + optval" where
  "xbus_GetOption name s =
     (if name = OptionRaw then Inr (VBool True)
      else if name = OptionRecvDeadline then Inr (VDuration (x_recvExpire s))
      else if name = OptionWriteQLen then Inr (VInt (int (x_sendQLen s)))
      else if name = OptionReadQLen then Inr (VInt (int (x_recvQLen s)))
      else Inl ErrBadOption)"

definition xbus_AddPipe :: "u32 \<Rightarrow> rawsock \<Rightarrow> rawsock \<times> status" where
  "xbus_AddPipe i s = (if x_closed s then (s, Some ErrClosed) else (attach_pipe i s, None))"

definition xbus_RemovePipe :: "nat \<Rightarrow> rawsock \<Rightarrow> rawsock" where
  "xbus_RemovePipe p s = close_pipeQ p (s\<lparr>x_pipes := (x_pipes s)(p_ID (x_pobj s p) := None)\<rparr>)"

definition xbus_Close :: "rawsock \<Rightarrow> rawsock \<times> status" where
  "xbus_Close s =
     (if x_closed s then (s, Some ErrClosed) else (close_closeQ (s\<lparr>x_closed := True\<rparr>), None))"

definition xbus_receiver_msg :: "nat \<Rightarrow> message \<Rightarrow> rawsock \<Rightarrow> rawsock" where
  "xbus_receiver_msg p m s = hold_msg p (m\<lparr>Header := PutUint32 (p_ID (x_pobj s p))\<rparr>) s"

text \<open>When the queue was replaced, the receiver frees its message and returns, closing the pipe.\<close>

definition xbus_receiver_put :: "nat \<Rightarrow> rawsock \<Rightarrow> rawsock list" where
  "xbus_receiver_put p s = receiver_put True True p s"

definition xbus_sender_done :: "nat \<Rightarrow> status \<Rightarrow> rawsock \<Rightarrow> rawsock" where
  "xbus_sender_done p err s = sender_done True p err s"

definition xbus_NewProtocol :: rawsock where
  "xbus_NewProtocol = raw_new 128 128 0"

text \<open>Cooked BUS strips the header in both directions.\<close>

definition bus_GetOption :: "string \<Rightarrow> rawsock \<Rightarrow> err + optval" where
  "bus_GetOption name s = (if name = OptionRaw then Inr (VBool False) else xbus_GetOption name s)"

definition bus_RecvMsg :: "recv_out \<Rightarrow> recv_out" where
  "bus_RecvMsg x = (case x of Got m \<Rightarrow> Got (m\<lparr>Header := []\<rparr>) | y \<Rightarrow> y)"

definition bus_SendMsg :: "(nat \<Rightarrow> bool) \<Rightarrow> nat \<Rightarrow> nat list \<Rightarrow> message \<Rightarrow> rawsock \<Rightarrow> rawsock \<times> status" where
  "bus_SendMsg parked k ps m s =
     xbus_SendMsg parked k ps (if length (Header m) > 0 then m\<lparr>Header := []\<rparr> else m) s"

section \<open>Runs\<close>

inductive xbus_step :: "rawsock \<Rightarrow> rawsock \<Rightarrow> bool" where
  bu_send: "map_order ps s \<Longrightarrow> xbus_step s (fst (xbus_SendMsg parked k ps m s))"
| bu_recv: "recv_step True True s s' \<Longrightarrow> xbus_step s s'"
| bu_receive: "m_pipe m = Some (p_ID (x_pobj s p)) \<Longrightarrow> xbus_step s (xbus_receiver_msg p m s)"
| bu_take: "s' \<in> set (sender_take True p s) \<Longrightarrow> xbus_step s s'"
| bu_sent: "xbus_step s (xbus_sender_done p err s)"
| bu_set: "xbus_step s (fst (xbus_SetOption n v s))"
| bu_close: "xbus_step s (fst (xbus_Close s))"
| bu_add: "x_pipes s i = None \<Longrightarrow> xbus_step s (fst (xbus_AddPipe i s))"
| bu_remove: "p < x_npipe s \<Longrightarrow> \<not> p_closeQ (x_pobj s p) \<Longrightarrow> xbus_step s (xbus_RemovePipe p s)"

definition from_pipe :: "message \<Rightarrow> bool" where
  "from_pipe m \<longleftrightarrow> (\<exists>i. m_pipe m = Some i \<and> Header m = PutUint32 i)"

definition xbus_inv :: "rawsock \<Rightarrow> bool" where
  "xbus_inv s \<longleftrightarrow> raw_ok from_pipe s \<and> pipes_ok s"

lemma xbus_inv_frame: "xbus_inv s \<Longrightarrow> raw_ok from_pipe t \<Longrightarrow> same_table s t \<Longrightarrow> xbus_inv t"
  using same_table_ok by (auto simp: xbus_inv_def)

lemma xbus_invD: "xbus_inv s \<Longrightarrow> raw_ok from_pipe s" "xbus_inv s \<Longrightarrow> pipes_ok s"
  by (simp_all add: xbus_inv_def)

lemma make_unique_frame:
  assumes "make_unique k m s = (m', s')"
  shows "raw_ok Q s' = raw_ok Q s" "same_table s s'" "x_pobj s' = x_pobj s" "Header m' = Header m" "x_pipes s' = x_pipes s"
  using assms by (auto simp: make_unique_def raw_ok_def same_table_def split: if_splits)

lemma xbus_source_frame:
  assumes "xbus_source k m s = (m', s', i)"
  shows "raw_ok Q s' = raw_ok Q s" "same_table s s'" "x_pobj s' = x_pobj s"
    "length (Header m) = 4 \<Longrightarrow> i = Uint32 (Header m) \<and> Header m' = []"
  using assms make_unique_frame [of k m s] by (auto simp: xbus_source_def split: if_splits prod.splits)

lemma xbus_send_inv:
  assumes "xbus_inv s"
  shows "xbus_inv (fst (xbus_SendMsg parked k ps m s))"
proof -
  obtain m1 s1 i where src: "xbus_source k m s = (m1, s1, i)" by (metis prod.collapse)
  have "xbus_inv s1"
    using xbus_inv_frame [OF assms] xbus_source_frame(1,2) [OF src] xbus_invD(1) [OF assms] by blast
  then have "raw_ok from_pipe (Free j (broadcast parked m1 qs s1))" "same_table s1 (Free j (broadcast parked m1 qs s1))" for j qs
    by (auto intro: raw_ok_broadcast xbus_invD(1) same_table_broadcast same_table_Free)
  then have "xbus_inv (Free j (broadcast parked m1 qs s1))" for j qs
    using xbus_inv_frame [OF \<open>xbus_inv s1\<close>] by blast
  then show ?thesis using assms src by (simp add: xbus_SendMsg_def)
qed

lemma xbus_step_inv: "xbus_step s t \<Longrightarrow> xbus_inv s \<Longrightarrow> xbus_inv t"
proof (induction rule: xbus_step.induct)
  case (bu_send ps s parked k m)
  then show ?case by (simp add: xbus_send_inv)
next
  case (bu_recv s s')
  then show ?case using recv_step_ok recv_step_table xbus_invD(1) by (blast intro: xbus_inv_frame)
next
  case (bu_receive m s p)
  then have "from_pipe (m\<lparr>Header := PutUint32 (p_ID (x_pobj s p))\<rparr>)" by (simp add: from_pipe_def)
  then show ?case
    using raw_ok_hold xbus_invD(1) [OF bu_receive(2)] same_table_hold bu_receive(2)
    unfolding xbus_receiver_msg_def by (blast intro: xbus_inv_frame)
next
  case (bu_take s' p s)
  then show ?case
    using raw_ok_sender_take same_table_sender_take xbus_invD(1) by (blast intro: xbus_inv_frame)
next
  case (bu_sent s p err)
  then show ?case
    using raw_ok_sender_done same_table_sender_done xbus_invD(1) unfolding xbus_sender_done_def
    by (blast intro: xbus_inv_frame)
next
  case (bu_set s n v)
  have "raw_ok from_pipe (fst (xbus_SetOption n v s))"
    by (rule afterD) (use xbus_invD(1) [OF bu_set] in \<open>simp add: xbus_SetOption_def raw_ok_make_recv\<close>)
  moreover have "same_table s (fst (xbus_SetOption n v s))"
    by (rule afterD) (simp add: xbus_SetOption_def same_table_resize)
  ultimately show ?case using bu_set by (blast intro: xbus_inv_frame)
next
  case (bu_close s)
  then show ?case
    using raw_ok_close [OF xbus_invD(1)] same_table_close [of s] by (auto simp: xbus_Close_def intro: xbus_inv_frame)
next
  case (bu_add s i)
  then show ?case by (simp add: xbus_AddPipe_def xbus_inv_def raw_ok_attach pipes_ok_attach)
next
  case (bu_remove p s)
  have "xbus_RemovePipe p s = (close_pipeQ p s)\<lparr>x_pipes := (x_pipes s)(p_ID (x_pobj s p) := None)\<rparr>"
    using bu_remove(2) by (simp add: xbus_RemovePipe_def close_pipeQ_def upd_pipe_def)
  then show ?case
    using pipes_ok_detach [of s p] raw_ok_close_pipe [of from_pipe s p] bu_remove by (simp add: xbus_inv_def)
qed

interpretation xbus: machine "\<lambda>s. s = xbus_NewProtocol" xbus_step xbus_inv
proof unfold_locales
  show "xbus_inv s" if "s = xbus_NewProtocol" for s
    using that by (simp add: xbus_inv_def xbus_NewProtocol_def raw_ok_new) (simp add: pipes_ok_def raw_new_def)
  show "xbus_inv t" if "xbus_inv s" "xbus_step s t" for s t using that xbus_step_inv by blast
qed

section \<open>Properties\<close>

text \<open>
  A message that came in on one pipe of a raw BUS socket and is sent on in any later state
  reaches every other attached pipe that can take it, with an empty header and once each, and is
  never sent back to a pipe with the ID it came from.
\<close>

theorem xbus_forward_skips_source:
  assumes "xbus_step\<^sup>*\<^sup>* xbus_NewProtocol s" and "(s', Got m) \<in> set (recv_wait fired snap s)"
    and "xbus_step\<^sup>*\<^sup>* s' t" and "\<not> x_closed t" and "map_order ps t"
  shows "\<exists>i m1. m_pipe m = Some i \<and> Header m1 = [] \<and> Body m1 = Body m \<and>
    (\<forall>p. x_pobj (fst (xbus_SendMsg parked k ps m t)) p =
       (if p < x_npipe t \<and> \<not> p_closeQ (x_pobj t p) \<and> p_ID (x_pobj t p) \<noteq> i \<and> accepts (parked p) (x_pobj t p)
        then give m1 (x_pobj t p) else x_pobj t p))"
proof -
  have inv: "xbus_inv s" by (rule xbus.reachable_inv [OF refl assms(1)])
  then have "xbus_inv s'"
    using raw_ok_recv_wait [OF _ assms(2), of from_pipe] same_table_recv_wait [OF assms(2)] xbus_invD(1)
    by (blast intro: xbus_inv_frame)
  then have table: "pipes_ok t" using xbus.steps_inv [OF assms(3)] xbus_invD(2) by blast
  have "from_pipe m" using raw_ok_recv_wait [OF xbus_invD(1) [OF inv] assms(2)] by simp
  then obtain i where i: "m_pipe m = Some i" "Header m = PutUint32 i" by (auto simp: from_pipe_def)
  obtain m1 t1 j where src: "xbus_source k m t = (m1, t1, j)" by (metis prod.collapse)
  have fr: "x_pobj t1 = x_pobj t" "j = i" "Header m1 = []"
    using xbus_source_frame(3,4) [OF src] i(2) by auto
  have body: "Body m1 = Body m"
    using src i(2) by (auto simp: xbus_source_def make_unique_def split: if_splits)
  have "p \<in> ran (x_pipes t) \<longleftrightarrow> p < x_npipe t \<and> \<not> p_closeQ (x_pobj t p)" for p
    using table unfolding pipes_ok_def ran_def by blast
  then have "x_pobj (fst (xbus_SendMsg parked k ps m t)) p =
       (if p < x_npipe t \<and> \<not> p_closeQ (x_pobj t p) \<and> p_ID (x_pobj t p) \<noteq> i \<and> accepts (parked p) (x_pobj t p)
        then give m1 (x_pobj t p) else x_pobj t p)" for p
    using assms(4,5) src fr by (auto simp: xbus_SendMsg_def broadcast_eq map_order_def takers_def)
  then show ?thesis using i(1) fr(3) body by blast
qed

definition bus1 :: rawsock where "bus1 = fst (xbus_AddPipe 4 xbus_NewProtocol)"
definition bus2 :: rawsock where "bus2 = xbus_receiver_msg 0 (pub_m\<lparr>m_pipe := Some 4\<rparr>) bus1"
definition bus3 :: rawsock where "bus3 = hd (xbus_receiver_put 0 bus2)"
definition bus4 :: rawsock where "bus4 = fst (hd (recv_wait False (NilQ, Suc 0, 0) bus3))"
definition bus_m :: message where "bus_m = pub_m\<lparr>m_pipe := Some 4, Header := PutUint32 4\<rparr>"

lemma bus2_eval: "p_hold (x_pobj bus2 0) = Some (bus_m, Suc 0, 0)" "chans bus2 (Suc 0) = make_gochan 128"
  "\<not> x_closeQ bus2" "\<not> x_closed bus2" "x_pipes bus2 = [4 \<mapsto> 0]"
  by (simp_all add: bus2_def xbus_receiver_msg_def hold_msg_def bus1_def xbus_AddPipe_def attach_pipe_def new_rpipe_def
      xbus_NewProtocol_def raw_new_def bus_m_def pub_m_def)

lemma bus3_eval: "xbus_receiver_put 0 bus2 \<noteq> []" "chans bus3 (Suc 0) = chan_push bus_m (make_gochan 128)"
  "\<not> x_closeQ bus3" "\<not> x_closed bus3" "x_pipes bus3 = [4 \<mapsto> 0]"
  by (simp_all add: bus3_def xbus_receiver_put_def receiver_put_def bus2_eval try_send_def chan_room_def)

lemma bus4_eval: "(bus4, Got bus_m) \<in> set (recv_wait False (NilQ, Suc 0, 0) bus3)" "\<not> x_closed bus4" "map_order [0] bus4"
  by (simp_all add: bus4_def recv_wait_def recv_try_def try_recv_def chan_pop_def chan_push_def case_if_def bus3_eval map_order_def)

theorem xbus_forward_skips_source_witness:
  "x_pobj (fst (xbus_SendMsg (\<lambda>_. False) 9 [0] bus_m bus4)) 0 = x_pobj bus4 0"
proof -
  have "x_pipes xbus_NewProtocol 4 = None" by (simp add: xbus_NewProtocol_def raw_new_def)
  then have "xbus_step xbus_NewProtocol bus1" unfolding bus1_def by (rule bu_add)
  moreover have "m_pipe (pub_m\<lparr>m_pipe := Some 4\<rparr>) = Some (p_ID (x_pobj bus1 0))"
    by (simp add: bus1_def xbus_AddPipe_def attach_pipe_def new_rpipe_def xbus_NewProtocol_def raw_new_def)
  then have "xbus_step bus1 bus2" unfolding bus2_def by (rule bu_receive)
  moreover have "xbus_step bus2 bus3"
    using hd_in_set [OF bus3_eval(1)] unfolding bus3_def xbus_receiver_put_def by (intro bu_recv rs_put)
  ultimately have r: "xbus_step\<^sup>*\<^sup>* xbus_NewProtocol bus3"
    by (meson rtranclp.rtrancl_into_rtrancl rtranclp.rtrancl_refl)
  have "p_ID (x_pobj bus4 0) = 4"
    using same_table_recv_wait [OF bus4_eval(1)]
    by (simp add: same_table_def bus3_def xbus_receiver_put_def receiver_put_def bus2_eval try_send_def chan_room_def)
       (simp add: bus2_def xbus_receiver_msg_def hold_msg_def bus1_def xbus_AddPipe_def attach_pipe_def new_rpipe_def
        xbus_NewProtocol_def raw_new_def)
  then show ?thesis
    using xbus_forward_skips_source [OF r bus4_eval(1) rtranclp.rtrancl_refl bus4_eval(2,3), of "\<lambda>_. False" 9]
    by (auto simp: bus_m_def)
qed

text \<open>
  A receiver that waits with a message while \<^verbatim>\<open>OptionReadQLen\<close> is set may take the closed size channel, and then gives up its pipe: setting a
  queue length disconnects a peer. (The raw protocols that share this \<^verbatim>\<open>select\<close> go on with the next message.)
\<close>

lemma xbus_resize_closes_pipe:
  assumes "p_hold (x_pobj s p) = Some (m, rq, x_sizeQ s)" "\<not> x_zclosed s (x_sizeQ s)"
  shows "\<exists>t \<in> set (xbus_receiver_put p (fst (xbus_SetOption OptionReadQLen (VInt (int n)) s))).
    p_closing (x_pobj t p) \<and> p_rexit (x_pobj t p)"
proof -
  let ?s = "fst (xbus_SetOption OptionReadQLen (VInt (int n)) s)"
  have z: "p_hold (x_pobj ?s p) = Some (m, rq, x_sizeQ s)" "x_zclosed ?s (x_sizeQ s)"
    using assms by (simp_all add: xbus_SetOption_def resize_recvQ_def close_sizeQ_def make_chan_def Let_def option_names)
  have "receiver_exit p (Free (m_id m) ?s) \<in> set (xbus_receiver_put p ?s)"
    using z by (simp add: xbus_receiver_put_def receiver_put_def set_ready_cases free_if_def)
  then show ?thesis by (intro bexI) (simp_all add: receiver_exit_def upd_pipe_def)
qed

section \<open>The protocol contract\<close>

interpretation xbus_proto: protocol_base x_closed "\<lambda>s. dom (x_pipes s)" xbus_Close xbus_AddPipe xbus_SetOption xbus_GetOption
proof unfold_locales
  show "xbus_GetOption n (fst (xbus_SetOption n v s)) = Inr v"
    if "snd (xbus_SetOption n v s) = None" "xbus_GetOption n s \<noteq> Inl ErrBadOption" for n v s
  proof (cases "n = OptionRaw")
    case True
    then show ?thesis using that by (simp add: xbus_SetOption_def option_names)
  next
    case False
    then show ?thesis using that(1)
      by (auto simp: xbus_SetOption_def xbus_GetOption_def fst_set_field asQLen_eq_Some split: if_splits)
  qed
  show "fst (xbus_SetOption n v s) = s" if "snd (xbus_SetOption n v s) \<noteq> None" for n v s
    by (rule cleanD [OF _ that]) (simp add: xbus_SetOption_def)
  show "x_closed (fst (xbus_SetOption n v s)) = x_closed s \<and>
      dom (x_pipes (fst (xbus_SetOption n v s))) = dom (x_pipes s)" for n v s
    by (rule afterD) (simp add: xbus_SetOption_def)
qed (auto simp: xbus_Close_def xbus_AddPipe_def attach_pipe_def)

interpretation bus_proto: protocol_base x_closed "\<lambda>s. dom (x_pipes s)" xbus_Close xbus_AddPipe xbus_SetOption bus_GetOption
proof unfold_locales
  show "bus_GetOption n (fst (xbus_SetOption n v s)) = Inr v"
    if "snd (xbus_SetOption n v s) = None" "bus_GetOption n s \<noteq> Inl ErrBadOption" for n v s
    using that xbus_proto.set_get [of n v s]
    by (cases "n = OptionRaw") (simp_all add: bus_GetOption_def xbus_SetOption_def option_names)
qed (fact xbus_proto.close_open xbus_proto.close_closed xbus_proto.add_closed xbus_proto.add_keeps
    xbus_proto.set_keeps xbus_proto.set_error)+

end
