(* ===== verification/Xstar.thy ===== *)
theory Xstar
  imports Broadcast
begin

text \<open>
  Raw STAR, \<^verbatim>\<open>protocol/xstar/xstar.go\<close>, and cooked STAR, \<^verbatim>\<open>protocol/star/star.go\<close>. Each received
  message is delivered and passed on to all other pipes; a hop count in the fourth header byte,
  limited by \<^verbatim>\<open>OptionTTL\<close>, stops it from circling.
\<close>

section \<open>Operations\<close>

definition xstar_SendMsg :: "(nat \<Rightarrow> bool) \<Rightarrow> nat list \<Rightarrow> message \<Rightarrow> rawsock \<Rightarrow> rawsock \<times> status" where
  "xstar_SendMsg parked ps m s =
     (if x_closed s then (s, Some ErrClosed)
      else if length (Header m) \<noteq> 4 then (Free (m_id m) s, None)
      else (Free (m_id m) (broadcast parked m ps s), None))"

text \<open>\<^verbatim>\<open>RecvMsg\<close> reads \<^verbatim>\<open>s.recvq\<close> when it evaluates the \<^verbatim>\<open>select\<close>; there is no size channel.\<close>

definition xstar_RecvMsg_begin :: "rawsock \<Rightarrow> recv_snap" where
  "xstar_RecvMsg_begin s = (expire_q (x_recvExpire s), x_recvQ s, x_sizeQ s)"

definition xstar_RecvMsg_wait :: "bool \<Rightarrow> recv_snap \<Rightarrow> rawsock \<Rightarrow> (rawsock \<times> recv_out) list" where
  "xstar_RecvMsg_wait fired snap s =
     ready_cases
       [case_if (x_closeQ s) (s, Failed ErrClosed),
        case_if (timeq_ready fired (fst snap)) (s, Failed ErrRecvTimeout),
        recv_try snap s]"

definition xstar_resize :: "nat \<Rightarrow> rawsock \<Rightarrow> rawsock" where
  "xstar_resize n s =
     (let (q, s1) = make_chan n s in s1\<lparr>x_recvQLen := n, x_recvQ := q, x_rqs := insert q (x_rqs s)\<rparr>)"

definition xstar_SetOption :: "string \<Rightarrow> optval \<Rightarrow> rawsock \<Rightarrow> rawsock \<times> status" where
  "xstar_SetOption name v s =
     (if name = OptionTTL then set_field (asTTL v) (\<lambda>n s. s\<lparr>x_ttl := n\<rparr>) s
      else if name = OptionRecvDeadline then set_field (asDuration v) (\<lambda>d s. s\<lparr>x_recvExpire := d\<rparr>) s
      else if name = OptionWriteQLen then set_field (asQLen v) (\<lambda>n s. s\<lparr>x_sendQLen := n\<rparr>) s
      else if name = OptionReadQLen then set_field (asQLen v) xstar_resize s
      else (s, Some ErrBadOption))"

definition xstar_GetOption :: "string \<Rightarrow> rawsock \<Rightarrow> err + optval" where
  "xstar_GetOption name s =
     (if name = OptionRaw then Inr (VBool True)
      else if name = OptionTTL then Inr (VInt (int (x_ttl s)))
      else if name = OptionRecvDeadline then Inr (VDuration (x_recvExpire s))
      else if name = OptionWriteQLen then Inr (VInt (int (x_sendQLen s)))
      else if name = OptionReadQLen then Inr (VInt (int (x_recvQLen s)))
      else Inl ErrBadOption)"

definition xstar_AddPipe :: "u32 \<Rightarrow> rawsock \<Rightarrow> rawsock \<times> status" where
  "xstar_AddPipe i s = (if x_closed s then (s, Some ErrClosed) else (attach_pipe i s, None))"

definition xstar_RemovePipe :: "nat \<Rightarrow> rawsock \<Rightarrow> rawsock" where
  "xstar_RemovePipe p s =
     (let s1 = close_pipeQ p s in s1\<lparr>x_pipes := (x_pipes s1)(p_ID (x_pobj s1 p) := None)\<rparr>)"

definition xstar_Close :: "rawsock \<Rightarrow> rawsock \<times> status" where
  "xstar_Close s =
     (if x_closed s then (s, Some ErrClosed) else (close_closeQ (s\<lparr>x_closed := True\<rparr>), None))"

definition xstar_sender_done :: "nat \<Rightarrow> status \<Rightarrow> rawsock \<Rightarrow> rawsock" where
  "xstar_sender_done p err s = sender_done True p err s"

text \<open>
  \<^verbatim>\<open>receiver\<close>: the checks and the new header, the copies for the other pipes (\<open>fr\<close> names the fresh
  identities of \<^verbatim>\<open>m.Dup()\<close>), and the copy \<open>k\<close> for the application, which it then holds.
\<close>

definition star_header :: "nat \<Rightarrow> message \<Rightarrow> message option" where
  "star_header ttl m =
     (if length (Body m) < 4 \<or> Body m ! 0 \<noteq> 0 \<or> Body m ! 1 \<noteq> 0 \<or> Body m ! 2 \<noteq> 0 \<or> unat (Body m ! 3) \<ge> ttl
      then None
      else (let h = take 4 (Body m) in Some (m\<lparr>Header := h[3 := h ! 3 + 1], Body := drop 4 (Body m)\<rparr>)))"

definition star_one :: "(nat \<Rightarrow> bool) \<Rightarrow> (nat \<Rightarrow> nat) \<Rightarrow> message \<Rightarrow> nat \<Rightarrow> rawsock \<Rightarrow> rawsock" where
  "star_one parked fr m p s =
     (let m2 = m\<lparr>m_id := fr p\<rparr>; s1 = s\<lparr>refs := (refs s)(fr p := 1)\<rparr>
      in case pipe_send (parked p) p m2 s1 of Some s2 \<Rightarrow> s2 | None \<Rightarrow> Free (fr p) s1)"

definition xstar_receiver_msg ::
    "(nat \<Rightarrow> bool) \<Rightarrow> (nat \<Rightarrow> nat) \<Rightarrow> nat \<Rightarrow> nat list \<Rightarrow> nat \<Rightarrow> message \<Rightarrow> rawsock \<Rightarrow> rawsock" where
  "xstar_receiver_msg parked fr k ps p m0 s =
     (case star_header (x_ttl s) m0 of
        None \<Rightarrow> Free (m_id m0) s
      | Some m \<Rightarrow>
          (let s1 = s\<lparr>refs := (refs s)(k := 1)\<rparr>;
               s2 = fold (star_one parked fr m) [p2\<leftarrow>ps. p2 \<noteq> p] s1
           in hold_msg p (m\<lparr>m_id := k\<rparr>) (Free (m_id m) s2)))"

definition xstar_receiver_put :: "nat \<Rightarrow> rawsock \<Rightarrow> rawsock list" where
  "xstar_receiver_put p s =
     (case p_hold (x_pobj s p) of
        None \<Rightarrow> []
      | Some (m, rq, zq) \<Rightarrow>
          ready_cases
            [map_option (upd_pipe p (\<lambda>x. x\<lparr>p_hold := None\<rparr>)) (try_send rq m s),
             case_if (p_closeQ (x_pobj s p)) (receiver_exit p (Free (m_id m) s)),
             case_if (x_closeQ s) (receiver_exit p (Free (m_id m) s))])"

definition xstar_NewProtocol :: rawsock where
  "xstar_NewProtocol = raw_new 128 128 8"

text \<open>Cooked STAR.\<close>

definition star_GetOption :: "string \<Rightarrow> rawsock \<Rightarrow> err + optval" where
  "star_GetOption name s = (if name = OptionRaw then Inr (VBool False) else xstar_GetOption name s)"

definition star_SendMsg :: "(nat \<Rightarrow> bool) \<Rightarrow> nat list \<Rightarrow> message \<Rightarrow> rawsock \<Rightarrow> message \<times> rawsock \<times> status" where
  "star_SendMsg parked ps m s =
     (let m1 = m\<lparr>Header := [0, 0, 0, 0]\<rparr>; (s1, e) = xstar_SendMsg parked ps m1 s
      in (if e \<noteq> None then m1\<lparr>Header := []\<rparr> else m1, s1, e))"

definition star_RecvMsg :: "recv_out \<Rightarrow> recv_out" where
  "star_RecvMsg x = (case x of Got m \<Rightarrow> Got (m\<lparr>Header := []\<rparr>) | y \<Rightarrow> y)"

section \<open>Runs\<close>

inductive xstar_step :: "rawsock \<Rightarrow> rawsock \<Rightarrow> bool" where
  st_send: "map_order ps s \<Longrightarrow> xstar_step s (fst (xstar_SendMsg parked ps m s))"
| st_recv: "(s', x) \<in> set (xstar_RecvMsg_wait f snap s) \<Longrightarrow> xstar_step s s'"
| st_rendezvous: "rendezvous p snap s = Some (s', x) \<Longrightarrow> xstar_step s s'"
| st_receive: "map_order ps s \<Longrightarrow> xstar_step s (xstar_receiver_msg parked fr k ps p m s)"
| st_put: "s' \<in> set (xstar_receiver_put p s) \<Longrightarrow> xstar_step s s'"
| st_take: "s' \<in> set (sender_take True p s) \<Longrightarrow> xstar_step s s'"
| st_sent: "xstar_step s (xstar_sender_done p err s)"
| st_set: "xstar_step s (fst (xstar_SetOption n v s))"
| st_close: "xstar_step s (fst (xstar_Close s))"
| st_add: "x_pipes s i = None \<Longrightarrow> xstar_step s (fst (xstar_AddPipe i s))"
| st_remove: "p < x_npipe s \<Longrightarrow> \<not> p_closeQ (x_pobj s p) \<Longrightarrow> xstar_step s (xstar_RemovePipe p s)"

definition xstar_inv :: "rawsock \<Rightarrow> bool" where
  "xstar_inv s \<longleftrightarrow> raw_ok any s \<and> pipes_ok s \<and> 0 < x_ttl s \<and> x_ttl s < 256"

lemma xstar_invD: "xstar_inv s \<Longrightarrow> raw_ok any s" "xstar_inv s \<Longrightarrow> pipes_ok s" "xstar_inv s \<Longrightarrow> x_ttl s < 256"
  by (simp_all add: xstar_inv_def)

lemma xstar_inv_frame:
  "xstar_inv s \<Longrightarrow> raw_ok any t \<Longrightarrow> same_table s t \<Longrightarrow> x_ttl t = x_ttl s \<Longrightarrow> xstar_inv t"
  using same_table_ok by (auto simp: xstar_inv_def)

text \<open>The effect of the forwarding loop on each pipe.\<close>

lemma star_one_pobj:
  "x_pobj (star_one parked fr m p s) =
     (x_pobj s)(p := if accepts (parked p) (x_pobj s p) then give (m\<lparr>m_id := fr p\<rparr>) (x_pobj s p) else x_pobj s p)"
  by (auto simp: star_one_def Let_def pipe_send_eq)

lemma star_one_raw: "raw_ok Q s \<Longrightarrow> raw_ok Q (star_one parked fr m p s)"
proof -
  assume "raw_ok Q s"
  then have "raw_ok Q (s\<lparr>refs := (refs s)(fr p := 1)\<rparr>)" by (simp add: raw_ok_def)
  then show ?thesis using raw_ok_pipe_send by (auto simp: star_one_def Let_def split: option.split)
qed

lemma star_one_frame: "same_table s (star_one parked fr m p s)" "x_ttl (star_one parked fr m p s) = x_ttl s"
  by (simp_all add: star_one_def Let_def pipe_send_eq same_table_def give_def)

lemma star_fold:
  "raw_ok Q s \<Longrightarrow> raw_ok Q (fold (star_one parked fr m) qs s) \<and> same_table s (fold (star_one parked fr m) qs s) \<and>
    x_ttl (fold (star_one parked fr m) qs s) = x_ttl s"
proof (induction qs arbitrary: s)
  case (Cons q qs)
  then show ?case
    using Cons.IH [OF star_one_raw [OF Cons.prems, of parked fr m q]] star_one_frame(1) [of s parked fr m q]
      star_one_frame(2) [of parked fr m q s] same_table_trans [of s "star_one parked fr m q s"]
    by auto
qed simp

lemma star_fold_pobj:
  "distinct qs \<Longrightarrow> x_pobj (fold (star_one parked fr m) qs s) p =
     (if p \<in> set qs \<and> accepts (parked p) (x_pobj s p) then give (m\<lparr>m_id := fr p\<rparr>) (x_pobj s p) else x_pobj s p)"
  by (induction qs arbitrary: s) (auto simp: star_one_pobj)

lemma xstar_receive_inv:
  assumes "xstar_inv s"
  shows "xstar_inv (xstar_receiver_msg parked fr k ps p m s)"
proof (cases "star_header (x_ttl s) m")
  case None
  then show ?thesis
    using xstar_inv_frame [OF assms, of "Free (m_id m) s"] xstar_invD(1) [OF assms] by (simp add: xstar_receiver_msg_def)
next
  case (Some m1)
  let ?s1 = "s\<lparr>refs := (refs s)(k := 1)\<rparr>"
  let ?s2 = "fold (star_one parked fr m1) [p2\<leftarrow>ps. p2 \<noteq> p] ?s1"
  have "raw_ok any ?s1" using xstar_invD(1) [OF assms] by (simp add: raw_ok_def)
  note f = star_fold [OF this, of parked fr m1 "[p2\<leftarrow>ps. p2 \<noteq> p]"]
  have "raw_ok any (hold_msg p (m1\<lparr>m_id := k\<rparr>) (Free (m_id m1) ?s2))"
    using f by (intro raw_ok_hold) simp_all
  moreover have "same_table s (hold_msg p (m1\<lparr>m_id := k\<rparr>) (Free (m_id m1) ?s2))"
    using f by (simp add: same_table_def hold_msg_def)
  moreover have "x_ttl (hold_msg p (m1\<lparr>m_id := k\<rparr>) (Free (m_id m1) ?s2)) = x_ttl s"
    using f by (simp add: hold_msg_def)
  ultimately show ?thesis
    using xstar_inv_frame [OF assms] Some by (simp add: xstar_receiver_msg_def Let_def)
qed

lemma xstar_recv_frame:
  assumes "raw_ok Q s"
  shows "(t, x) \<in> set (xstar_RecvMsg_wait f snap s) \<Longrightarrow> raw_ok Q t \<and> same_table s t \<and> x_ttl t = x_ttl s"
    "rendezvous p snap s = Some (t, x) \<Longrightarrow> raw_ok Q t \<and> same_table s t \<and> x_ttl t = x_ttl s"
    "t \<in> set (sender_take b p s) \<Longrightarrow> raw_ok Q t \<and> same_table s t \<and> x_ttl t = x_ttl s"
    "raw_ok Q (sender_done b p e s) \<and> same_table s (sender_done b p e s) \<and> x_ttl (sender_done b p e s) = x_ttl s"
proof -
  have r: "recv_try snap s = Some (t, x) \<Longrightarrow> x_ttl t = x_ttl s"
    by (auto simp: recv_try_def split: prod.splits option.splits dest!: try_recv_eqs)
  then show "(t, x) \<in> set (xstar_RecvMsg_wait f snap s) \<Longrightarrow> raw_ok Q t \<and> same_table s t \<and> x_ttl t = x_ttl s"
    using raw_ok_recv_try [OF assms, of snap t x] same_table_recv_try [of snap s t x] assms
    by (auto simp: xstar_RecvMsg_wait_def set_ready_cases)
  show "rendezvous p snap s = Some (t, x) \<Longrightarrow> raw_ok Q t \<and> same_table s t \<and> x_ttl t = x_ttl s"
    using raw_ok_rendezvous [OF assms] same_table_rendezvous [of p snap s t x]
    by (auto simp: rendezvous_def split: prod.splits option.splits if_splits)
  show "t \<in> set (sender_take b p s) \<Longrightarrow> raw_ok Q t \<and> same_table s t \<and> x_ttl t = x_ttl s"
    using raw_ok_sender_take [OF assms] same_table_sender_take [of t b p s]
    by (auto simp: sender_take_def Let_def set_ready_cases split: if_splits option.splits)
  show "raw_ok Q (sender_done b p e s) \<and> same_table s (sender_done b p e s) \<and> x_ttl (sender_done b p e s) = x_ttl s"
    using raw_ok_sender_done [OF assms] same_table_sender_done [of s b p e]
    by (auto simp: sender_done_def Let_def split: option.splits)
qed

lemma xstar_put_frame:
  assumes ok: "raw_ok any s" and "t \<in> set (xstar_receiver_put p s)"
  shows "raw_ok any t \<and> same_table s t \<and> x_ttl t = x_ttl s"
proof -
  obtain m rq zq where h: "p_hold (x_pobj s p) = Some (m, rq, zq)"
    using assms(2) by (cases "p_hold (x_pobj s p)") (auto simp: xstar_receiver_put_def)
  consider s1 where "try_send rq m s = Some s1" "t = upd_pipe p (\<lambda>x. x\<lparr>p_hold := None\<rparr>) s1"
    | "t = receiver_exit p (Free (m_id m) s)"
    using assms(2) by (auto simp: xstar_receiver_put_def h set_ready_cases)
  then show ?thesis
  proof cases
    case 1
    have "raw_ok any s1" using raw_ok_try_send [OF ok _ 1(1)] by simp
    moreover have "same_table s s1" "x_ttl s1 = x_ttl s"
      using same_table_try_send [OF 1(1)] 1(1) by (auto simp: try_send_def split: if_splits)
    ultimately show ?thesis unfolding 1(2) using raw_ok_unhold [of any s1 p] same_table_unhold by simp
  next
    case 2
    have "raw_ok any t" unfolding 2 using ok by (intro raw_ok_receiver_exit) simp
    then show ?thesis unfolding 2 by (simp add: receiver_exit_def same_table_def)
  qed
qed

lemma xstar_resize_inv:
  assumes "xstar_inv s"
  shows "xstar_inv (xstar_resize n s)"
proof -
  have "raw_ok any (xstar_resize n s)"
    using xstar_invD(1) [OF assms] by (auto simp: raw_ok_def xstar_resize_def make_chan_def)
  then show ?thesis
    by (rule xstar_inv_frame [OF assms]) (simp_all add: xstar_resize_def make_chan_def same_table_def)
qed

lemma xstar_step_inv: "xstar_step s t \<Longrightarrow> xstar_inv s \<Longrightarrow> xstar_inv t"
proof (induction rule: xstar_step.induct)
  case (st_send ps s parked m)
  have fr: "xstar_inv (Free j s)" "xstar_inv (Free j (broadcast parked m ps s))" for j
  proof -
    show "xstar_inv (Free j s)"
      using xstar_inv_frame [OF st_send(2), of "Free j s"] xstar_invD(1) [OF st_send(2)] by simp
    have "x_ttl (broadcast parked m ps s) = x_ttl s" using st_send(1) by (simp add: map_order_def broadcast_eq)
    then show "xstar_inv (Free j (broadcast parked m ps s))"
      using xstar_inv_frame [OF st_send(2), of "Free j (broadcast parked m ps s)"]
        raw_ok_broadcast [OF xstar_invD(1) [OF st_send(2)], of parked m ps]
        same_table_Free [OF same_table_broadcast [of s parked m ps], of j] by simp
  qed
  then show ?case using st_send by (simp add: xstar_SendMsg_def)
next
  case (st_recv s' x f snap s)
  then show ?case using xstar_recv_frame(1) xstar_invD(1) by (blast intro: xstar_inv_frame)
next
  case (st_rendezvous p snap s s' x)
  then show ?case using xstar_recv_frame(2) xstar_invD(1) by (blast intro: xstar_inv_frame)
next
  case (st_put s' p s)
  then show ?case using xstar_put_frame xstar_invD(1) by (blast intro: xstar_inv_frame)
next
  case (st_take s' p s)
  then show ?case using xstar_recv_frame(3) xstar_invD(1) by (blast intro: xstar_inv_frame)
next
  case (st_sent s p err)
  then show ?case
    using xstar_recv_frame(4) xstar_invD(1) unfolding xstar_sender_done_def by (blast intro: xstar_inv_frame)
next
  case (st_set s n v)
  have "xstar_inv (s\<lparr>x_recvExpire := d\<rparr>)" "xstar_inv (s\<lparr>x_sendQLen := j\<rparr>)" for d j
    using st_set by (simp_all add: xstar_inv_def pipes_ok_def)
  moreover have "asTTL v = Some j \<Longrightarrow> xstar_inv (s\<lparr>x_ttl := j\<rparr>)" for j
    using st_set by (simp add: xstar_inv_def pipes_ok_def asTTL_eq_Some)
  ultimately show ?case
    by - (rule afterD, simp add: xstar_SetOption_def st_set xstar_resize_inv)
next
  case (st_close s)
  have "xstar_inv (close_closeQ (s\<lparr>x_closed := True\<rparr>))" if "\<not> x_closed s"
    using raw_ok_close [OF xstar_invD(1) [OF st_close] that] same_table_close [of s]
    by (intro xstar_inv_frame [OF st_close]) (simp_all add: close_closeQ_def)
  then show ?case using st_close by (simp add: xstar_Close_def)
next
  case (st_add s i)
  then show ?case
    using raw_ok_attach [of any s i] pipes_ok_attach [of s i] by (auto simp: xstar_AddPipe_def xstar_inv_def attach_pipe_def)
next
  case (st_remove p s)
  then show ?case
    using pipes_ok_detach [of s p] raw_ok_close_pipe [of any s p]
    by (simp add: xstar_RemovePipe_def Let_def xstar_inv_def close_pipeQ_def)
qed (simp add: xstar_receive_inv)

interpretation xstar: machine "\<lambda>s. s = xstar_NewProtocol" xstar_step xstar_inv
proof unfold_locales
  show "xstar_inv s" if "s = xstar_NewProtocol" for s
    using that raw_ok_new [of any 128 128 8]
    by (simp add: xstar_inv_def xstar_NewProtocol_def) (simp add: pipes_ok_def raw_new_def)
  show "xstar_inv t" if "xstar_inv s" "xstar_step s t" for s t using that xstar_step_inv by blast
qed

section \<open>Properties\<close>

lemma take3_zeros:
  "4 \<le> length b \<Longrightarrow> take 3 b = [0, 0, 0] \<longleftrightarrow> b ! 0 = (0 :: byte) \<and> b ! 1 = 0 \<and> b ! 2 = 0"
  by (auto simp: numeral_eq_Suc Suc_le_length_iff)

lemma star_header_None:
  "star_header ttl m = None \<longleftrightarrow>
     length (Body m) < 4 \<or> take 3 (Body m) \<noteq> [0, 0, 0] \<or> unat (Body m ! 3) \<ge> ttl"
  by (cases "4 \<le> length (Body m)") (auto simp: star_header_def Let_def take3_zeros)

text \<open>
  C12: What raw STAR passes on. In every reachable state a message is dropped unless it starts with
  three zero bytes and a hop count below \<^verbatim>\<open>OptionTTL\<close>. Otherwise every other attached pipe that can
  take it gets a copy, the application gets one, the source pipe gets none; the new hop count is
  the old one plus one, never wraps around and never exceeds the limit. So no message makes more
  than \<^verbatim>\<open>OptionTTL\<close> hops, even in a ring of STAR sockets.
\<close>

theorem xstar_forwards_with_hop_limit:
  assumes "xstar_step\<^sup>*\<^sup>* xstar_NewProtocol s" and "map_order ps s"
  shows "if length (Body m) < 4 \<or> take 3 (Body m) \<noteq> [0, 0, 0] \<or> unat (Body m ! 3) \<ge> x_ttl s
    then xstar_receiver_msg parked fr k ps p m s = Free (m_id m) s
    else \<exists>b m1. Header m1 = [0, 0, 0, b] \<and> unat b = Suc (unat (Body m ! 3)) \<and> unat b \<le> x_ttl s \<and>
      Body m1 = drop 4 (Body m) \<and>
      p_hold (x_pobj (xstar_receiver_msg parked fr k ps p m s) p) = Some (m1\<lparr>m_id := k\<rparr>, x_recvQ s, x_sizeQ s) \<and>
      p_sendQ (x_pobj (xstar_receiver_msg parked fr k ps p m s) p) = p_sendQ (x_pobj s p) \<and>
      (\<forall>q. q \<noteq> p \<longrightarrow> x_pobj (xstar_receiver_msg parked fr k ps p m s) q =
         (if q < x_npipe s \<and> \<not> p_closeQ (x_pobj s q) \<and> accepts (parked q) (x_pobj s q)
          then give (m1\<lparr>m_id := fr q\<rparr>) (x_pobj s q) else x_pobj s q))"
proof -
  have inv: "xstar_inv s" by (rule xstar.reachable_inv [OF refl assms(1)])
  show ?thesis
  proof (cases "length (Body m) < 4 \<or> take 3 (Body m) \<noteq> [0, 0, 0] \<or> unat (Body m ! 3) \<ge> x_ttl s")
    case True
    then have "star_header (x_ttl s) m = None" by (simp add: star_header_None)
    then show ?thesis using True by (simp add: xstar_receiver_msg_def)
  next
    case False
    obtain b0 b1 b2 b3 r where body: "Body m = b0 # b1 # b2 # b3 # r"
      using False by (auto simp: not_less numeral_eq_Suc Suc_le_length_iff)
    let ?m1 = "m\<lparr>Header := [0, 0, 0, b3 + 1], Body := r\<rparr>"
    let ?qs = "[p2\<leftarrow>ps. p2 \<noteq> p]"
    let ?s1 = "s\<lparr>refs := (refs s)(k := 1)\<rparr>"
    have hd: "star_header (x_ttl s) m = Some ?m1" using False body by (simp add: star_header_def)
    have hop: "unat (b3 + 1) = Suc (unat b3)" "unat (b3 + 1) \<le> x_ttl s"
      using False body xstar_invD(3) [OF inv] byte_Suc [of b3] by auto
    have q: "q \<in> set ps \<longleftrightarrow> q < x_npipe s \<and> \<not> p_closeQ (x_pobj s q)" for q
      using assms(2) xstar_invD(2) [OF inv] unfolding map_order_def pipes_ok_def ran_def by blast
    have f: "x_recvQ (fold (star_one parked fr ?m1) qs t) = x_recvQ t" "x_sizeQ (fold (star_one parked fr ?m1) qs t) = x_sizeQ t" for qs t
      by (induction qs arbitrary: t) (auto simp: star_one_def Let_def pipe_send_eq)
    have eq: "xstar_receiver_msg parked fr k ps p m s =
        hold_msg p (?m1\<lparr>m_id := k\<rparr>) (Free (m_id m) (fold (star_one parked fr ?m1) ?qs ?s1))"
      using hd by (simp add: xstar_receiver_msg_def Let_def)
    have pobj: "x_pobj (fold (star_one parked fr ?m1) ?qs ?s1) j =
        (if j \<in> set ?qs \<and> accepts (parked j) (x_pobj s j) then give (?m1\<lparr>m_id := fr j\<rparr>) (x_pobj s j) else x_pobj s j)" for j
      using star_fold_pobj [of ?qs parked fr ?m1 ?s1 j] assms(2) by (simp add: map_order_def)
    have "\<exists>b m1. Header m1 = [0, 0, 0, b] \<and> unat b = Suc (unat (Body m ! 3)) \<and> unat b \<le> x_ttl s \<and>
      Body m1 = drop 4 (Body m) \<and>
      p_hold (x_pobj (xstar_receiver_msg parked fr k ps p m s) p) = Some (m1\<lparr>m_id := k\<rparr>, x_recvQ s, x_sizeQ s) \<and>
      p_sendQ (x_pobj (xstar_receiver_msg parked fr k ps p m s) p) = p_sendQ (x_pobj s p) \<and>
      (\<forall>q. q \<noteq> p \<longrightarrow> x_pobj (xstar_receiver_msg parked fr k ps p m s) q =
         (if q < x_npipe s \<and> \<not> p_closeQ (x_pobj s q) \<and> accepts (parked q) (x_pobj s q)
          then give (m1\<lparr>m_id := fr q\<rparr>) (x_pobj s q) else x_pobj s q))"
      by (rule exI [of _ "b3 + 1"], rule exI [of _ ?m1]) (use hop(2) in \<open>simp add: eq hold_msg_def pobj hop(1) body f q\<close>)
    then show ?thesis using False by (simp only: if_False)
  qed
qed

definition star1 :: rawsock where "star1 = fst (xstar_AddPipe 4 xstar_NewProtocol)"

theorem xstar_forwards_with_hop_limit_witness:
  "xstar_receiver_msg (\<lambda>_. False) id 5 [0] 0 (pub_m\<lparr>Body := [0, 0, 0, 8]\<rparr>) star1 = Free 1 star1"
proof -
  have "x_pipes xstar_NewProtocol 4 = None" by (simp add: xstar_NewProtocol_def raw_new_def)
  then have "xstar_step\<^sup>*\<^sup>* xstar_NewProtocol star1"
    unfolding star1_def by (intro r_into_rtranclp st_add)
  moreover have "map_order [0] star1" "x_ttl star1 = 8"
    by (simp_all add: star1_def xstar_AddPipe_def xstar_NewProtocol_def attach_pipe_def raw_new_def map_order_def)
  ultimately show ?thesis
    using xstar_forwards_with_hop_limit [of star1 "[0]" "pub_m\<lparr>Body := [0, 0, 0, 8]\<rparr>" "\<lambda>_. False" id 5 0]
    by (simp add: pub_m_def)
qed

section \<open>The protocol contract\<close>

lemma xstar_resize_simps [simp]:
  "x_closed (xstar_resize n s) = x_closed s" "x_recvQLen (xstar_resize n s) = n" "x_pipes (xstar_resize n s) = x_pipes s"
  by (simp_all add: xstar_resize_def make_chan_def)

interpretation xstar_proto: protocol_base x_closed "\<lambda>s. dom (x_pipes s)" xstar_Close xstar_AddPipe xstar_SetOption xstar_GetOption
proof unfold_locales
  show "xstar_GetOption n (fst (xstar_SetOption n v s)) = Inr v"
    if "snd (xstar_SetOption n v s) = None" "xstar_GetOption n s \<noteq> Inl ErrBadOption" for n v s
  proof (cases "n = OptionRaw")
    case True
    then show ?thesis using that by (simp add: xstar_SetOption_def option_names)
  next
    case False
    then show ?thesis using that(1)
      by (auto simp: xstar_SetOption_def xstar_GetOption_def fst_set_field asQLen_eq_Some asTTL_eq_Some split: if_splits)
  qed
  show "fst (xstar_SetOption n v s) = s" if "snd (xstar_SetOption n v s) \<noteq> None" for n v s
    by (rule cleanD [OF _ that]) (simp add: xstar_SetOption_def)
  show "x_closed (fst (xstar_SetOption n v s)) = x_closed s \<and>
      dom (x_pipes (fst (xstar_SetOption n v s))) = dom (x_pipes s)" for n v s
    by (rule afterD) (simp add: xstar_SetOption_def)
qed (auto simp: xstar_Close_def xstar_AddPipe_def attach_pipe_def)

interpretation star_proto: protocol_base x_closed "\<lambda>s. dom (x_pipes s)" xstar_Close xstar_AddPipe xstar_SetOption star_GetOption
proof unfold_locales
  show "star_GetOption n (fst (xstar_SetOption n v s)) = Inr v"
    if "snd (xstar_SetOption n v s) = None" "star_GetOption n s \<noteq> Inl ErrBadOption" for n v s
    using that xstar_proto.set_get [of n v s]
    by (cases "n = OptionRaw") (simp_all add: star_GetOption_def xstar_SetOption_def option_names)
qed (fact xstar_proto.close_open xstar_proto.close_closed xstar_proto.add_closed xstar_proto.add_keeps
    xstar_proto.set_keeps xstar_proto.set_error)+

end
