(* ===== verification/Spec2Isabelle.thy ===== *)
theory Spec2Isabelle
  imports Macat Protocols Winpipe Dtls Endpoints Udp CoreIO ReqRep Inproc Device CoreSocket Xpush Xpull Xsub Xreq Xsurveyor Xpair1 Sub Surveyor Message CorePipe ReqRuns Rep Respondent Xrep Xrespondent Xpair Broadcast Xbus Xstar Handshaker
begin

text \<open>
  \<^bold>\<open>Verification of mangos\<close>, the Go implementation of the Scalability Protocols (\<^verbatim>\<open>nanomsg/mangos\<close>).

  \<^bold>\<open>The program.\<close> A \<^emph>\<open>socket\<close> (\<^verbatim>\<open>internal/core\<close>) joins a \<^emph>\<open>protocol\<close> (\<^verbatim>\<open>protocol/*\<close>) to \<^emph>\<open>transports\<close> (\<^verbatim>\<open>transport/*\<close>). Dialers and listeners of
  a transport make connections; each connection that passes its handshake becomes a core pipe with an ID, which the core
  announces to the protocol (\<^verbatim>\<open>AddPipe\<close>, \<^verbatim>\<open>RemovePipe\<close>). The protocol runs goroutines that receive from and send to its pipes and offers
  \<^verbatim>\<open>SendMsg\<close>, \<^verbatim>\<open>RecvMsg\<close> and options. Messages are reference counted and pooled (\<^verbatim>\<open>message.go\<close>). \<^verbatim>\<open>Device\<close> joins two raw sockets, and the tool
  \<^verbatim>\<open>macat\<close> drives a socket from the command line.

  \<^bold>\<open>Theories and sources.\<close>

  \<^item> \<open>Prelude\<close>: bytes, big-endian words, the errors of \<^verbatim>\<open>errors/errors.go\<close>, option names of \<^verbatim>\<open>options.go\<close> and the type assertions on
    option values. \<open>Chan\<close>: Go channels, the contract of a protocol (\<open>protocol_base\<close>), transition systems with an invariant (\<open>machine\<close>).
  \<^item> \<open>Message\<close>: \<^verbatim>\<open>message.go\<close>. \<open>PipeIDs\<close>, \<open>CorePipe\<close>: \<^verbatim>\<open>internal/core/pipe.go\<close> and the pipe handling of \<^verbatim>\<open>socket.go\<close>. \<open>Dialer\<close>: \<^verbatim>\<open>internal/core/dialer.go\<close> and
    \<^verbatim>\<open>listener.go\<close>. \<open>CoreSocket\<close>: the rest of \<^verbatim>\<open>internal/core/socket.go\<close> with \<^verbatim>\<open>transport/transport.go\<close>. \<open>CoreIO\<close>: message transfer and options of pipes,
    \<^verbatim>\<open>Send\<close> and \<^verbatim>\<open>Recv\<close>. \<open>Protocols\<close>: \<^verbatim>\<open>protocol.go\<close> and \<^verbatim>\<open>Info\<close> of every protocol.
  \<^item> \<open>RawSock\<close>, \<open>TypedQueues\<close>, \<open>Broadcast\<close>, \<open>Backtrace\<close>: what the protocols share (selects, queue resizing, pipe bookkeeping, fan-out, hop
    loops). \<open>Req\<close> and \<open>ReqRuns\<close>, \<open>Rep\<close>, \<open>Surveyor\<close>, \<open>Respondent\<close>, \<open>Sub\<close>: the protocols with contexts. \<open>Xreq\<close>, \<open>Xrep\<close>, \<open>Xsurveyor\<close>, \<open>Xrespondent\<close>, \<open>Xsub\<close>, \<open>Xpush\<close>,
    \<open>Xpull\<close>, \<open>Xpair\<close>, \<open>Xpair1\<close>, \<open>Xbus\<close>, \<open>Xstar\<close>, and XPUB in \<open>Broadcast\<close>: the raw protocols, with the cooked protocols that wrap them. Each theory
    models the directory of \<^verbatim>\<open>protocol/\<close> of its name. \<open>ReqRep\<close>: REQ, the devices and REP together. \<open>Device\<close>: \<^verbatim>\<open>device.go\<close>.
  \<^item> \<open>Conn\<close>, \<open>Handshaker\<close>: \<^verbatim>\<open>transport/conn.go\<close> and \<^verbatim>\<open>connipc*.go\<close>. \<open>StreamEnds\<close>, \<open>StreamListeners\<close>: \<^verbatim>\<open>transport/tcp\<close>, \<^verbatim>\<open>tlstcp\<close>, \<^verbatim>\<open>unix\<close>, \<^verbatim>\<open>ipc\<close>. \<open>Winpipe\<close>: \<^verbatim>\<open>transport/winpipe\<close>.
    \<open>SocketFD\<close>: \<^verbatim>\<open>transport/socket\<close>. \<open>Ws\<close>: \<^verbatim>\<open>transport/ws\<close> and \<^verbatim>\<open>wss\<close>. \<open>Inproc\<close>, \<open>Udp\<close>: the transports of these names. \<open>DtlsPacket\<close>, \<open>DtlsPipe\<close>, \<open>Dtls\<close>: \<^verbatim>\<open>transport/dtls\<close>.
    \<open>Endpoints\<close>: what the endpoints have in common, with the core's socket.
  \<^item> \<open>Macat\<close>: \<^verbatim>\<open>macat/macat.go\<close>.

  \<^bold>\<open>How the code is modelled.\<close> A struct is a record with the code's fields, to which fields are added that only record what has happened (the
  text of each theory says which); an operation is a function on the state, one per function of the code, or one per lock
  region where other goroutines can run between two regions, so that \<^verbatim>\<open>SendMsg\<close> is \<open>..._begin\<close>, \<open>..._try\<close> and \<open>..._wait\<close>. Locals that a goroutine keeps
  across regions are values that the first part returns and the next takes. A \<^verbatim>\<open>select\<close> is the list of its ready cases, of which any
  may be taken; inputs named \<open>fired\<close> and \<open>parked\<close> stand for the scheduler and the timers. Channels that are replaced (queues after a resizing,
  \<^verbatim>\<open>sizeQ\<close>) are numbered, so that a goroutine may still hold an old one. Closing \<^verbatim>\<open>sizeQ\<close> is put together with the lock region before it.
  A panic is a flag of the state or \<open>None\<close>, an error a value. Runs are the reflexive transitive closure of an inductive step relation with
  one rule per region and goroutine; the invariants are proved by the locale \<open>machine\<close>. A \<^verbatim>\<open>net.Conn\<close> is the list of chunks that its
  reads return, what has been written, and how much room is left. Integers are words where the width matters (IDs, hop
  counts, lengths on the wire, \<^verbatim>\<open>count\<close> of macat); queue lengths are naturals. Maps whose order of iteration does not matter are maps, those that are
  iterated are association lists or sets. The ID of a survey whose \<^verbatim>\<open>SendMsg\<close> has not taken the lock yet may be any that \<^verbatim>\<open>SendMsg\<close> makes. The dialer's backoff takes the
  random factor as an argument; the token bucket of DTLS counts in rationals. Memory is not exhausted.

  \<^bold>\<open>Parameters.\<close> Code outside the repository is an argument: the answers of the operating system and of the packages \<^verbatim>\<open>net\<close>, \<^verbatim>\<open>crypto/tls\<close>, \<^verbatim>\<open>net/http\<close>,
  gorilla's WebSocket, Pion, go-winio and optopia, and of \<^verbatim>\<open>sync.Pool\<close>. Theorems hold for all their answers unless a hypothesis restricts them. No
  recursion needs fuel except \<open>decode_all\<close> of \<open>Macat\<close>, for which the length of its input is enough (each message takes a byte at least). The search for a free ID in
  \<open>PipeIDs\<close> is a partial function, proved to end while an ID is free. Loops that go on until their input fails, such as those of macat, run over the list of the answers they
  get, and are \<open>Running\<close> when it is used up.

  \<^bold>\<open>Interfaces.\<close> \<open>bounded_fifo\<close>: a channel. \<open>machine\<close>: states, steps, an invariant. \<open>protocol_base\<close> and its extension \<open>core_protocol\<close>: what the core relies on of a protocol
  (interpreted for every protocol, the latter below). \<open>framing\<close>: a message format on a stream (TCP, IPC, Windows IPC). \<open>tran_options\<close>: the options of an endpoint.
  \<open>output_format\<close>: an output of macat that can be read back.

  \<^bold>\<open>What is shown.\<close> \<^emph>\<open>Protocols\<close>: a reply or response reaches the context whose request or survey it answers, and no other; retries; expiry of surveys; routing
  of replies by the backtrace, and agreement of the differently written hop loops; hop limits of STAR, PAIR1 and devices; fan-out of PUB, BUS, SURVEYOR;
  SUB as a filtered queue (refinement); no lost wake-up in PUSH; no panic in the runs of REQ with one goroutine per context, REP, RESPONDENT and
  SURVEYOR, and a run of REQ with two goroutines on a context that panics; each
  protocol meets the contract of the core. \<^emph>\<open>Core\<close>: pipe IDs are unique and released once; \<^verbatim>\<open>AddPipe\<close> precedes \<^verbatim>\<open>RemovePipe\<close>, each once; one line of
  connection attempts per dialer, with bounded backoff; \<^verbatim>\<open>Close\<close> closes everything; options round-trip. \<^emph>\<open>Messages\<close>: no object is handed out while it is referenced. \<^emph>\<open>Transports\<close>: framing,
  handshakes and datagrams round-trip; which protocols connect; limits hold end to end; no connection is lost by listeners and handshaker;
  peers, queues and pending handshakes are bounded. \<^emph>\<open>macat\<close>: the TLS policy, readable output, exact counts.

  \<^bold>\<open>Not modelled.\<close> The bodies of interfaces and re-exports (\<^verbatim>\<open>socket.go\<close>, \<^verbatim>\<open>dialer.go\<close>, \<^verbatim>\<open>listener.go\<close>, \<^verbatim>\<open>pipe.go\<close>, \<^verbatim>\<open>transport.go\<close>, \<^verbatim>\<open>errors.go\<close>, \<^verbatim>\<open>protocol/protocol.go\<close>, \<^verbatim>\<open>transport/handshaker.go\<close>) have no
  behaviour; \<^verbatim>\<open>init\<close> functions, \<^verbatim>\<open>transport/all\<close> and \<^verbatim>\<open>macat/macat/main.go\<close> only register or call; \<^verbatim>\<open>unix_windows.go\<close>, \<^verbatim>\<open>unix_peer_solaris.go\<close> and \<^verbatim>\<open>unix_peer_unix.go\<close> are the variants of
  \<^verbatim>\<open>unix_posix.go\<close> and \<^verbatim>\<open>unix_peer_linux.go\<close> for other systems and consist of system calls; \<^verbatim>\<open>perf\<close>, \<^verbatim>\<open>examples\<close>, \<^verbatim>\<open>test\<close> and \<^verbatim>\<open>internal/test\<close> measure, demonstrate and test. Time is an
  argument; the durations of sleeps, the sizes of socket buffers and the texts of errors are left out.
\<close>

section \<open>Every protocol under the core socket\<close>

text \<open>The protocols meet the contract that the core socket relies on.\<close>

interpretation xpub_core: core_protocol x_closed "\<lambda>s. dom (x_pipes s)" xpub_Close xpub_AddPipe xpub_SetOption xpub_GetOption
  by unfold_locales (auto simp: own_options_def xpub_SetOption_def xpub_GetOption_def option_names)

interpretation xbus_core: core_protocol x_closed "\<lambda>s. dom (x_pipes s)" xbus_Close xbus_AddPipe xbus_SetOption xbus_GetOption
  by unfold_locales (auto simp: own_options_def xbus_SetOption_def xbus_GetOption_def option_names)

interpretation xstar_core: core_protocol x_closed "\<lambda>s. dom (x_pipes s)" xstar_Close xstar_AddPipe xstar_SetOption xstar_GetOption
  by unfold_locales (auto simp: own_options_def xstar_SetOption_def xstar_GetOption_def option_names)

interpretation xrep_core: core_protocol x_closed "\<lambda>s. dom (x_pipes s)" xrep_Close xrep_AddPipe xrep_SetOption xrep_GetOption
  by unfold_locales (auto simp: own_options_def xrep_SetOption_def xrep_GetOption_def option_names)

interpretation xresp_core: core_protocol x_closed "\<lambda>s. dom (x_pipes s)" xresp_Close xresp_AddPipe xresp_SetOption xresp_GetOption
  by unfold_locales (auto simp: own_options_def xresp_SetOption_def xresp_GetOption_def option_names)

interpretation xpair_core: core_protocol x_closed peer_ids xpair_Close xpair_AddPipe xpair_SetOption xpair_GetOption
  by unfold_locales (auto simp: own_options_def xpair_SetOption_def xpair_GetOption_def option_names)

interpretation push_core: core_protocol ps_closed "\<lambda>s. dom (ps_pipes s)" push_Close push_AddPipe push_SetOption push_GetOption
  by unfold_locales (auto simp: own_options_def push_SetOption_def push_GetOption_def option_names)


interpretation xreq_core: core_protocol x_closed "\<lambda>s. of_nat ` {..<x_npipe s}" xreq_Close xreq_AddPipe xreq_SetOption xreq_GetOption
  by unfold_locales (auto simp: own_options_def xreq_SetOption_def xreq_GetOption_def option_names)

interpretation pull_core: core_protocol x_closed "\<lambda>s. of_nat ` {..<x_npipe s}" pull_Close pull_AddPipe pull_SetOption pull_GetOption
  by unfold_locales (auto simp: own_options_def pull_SetOption_def pull_GetOption_def option_names)

interpretation xsub_core: core_protocol x_closed "\<lambda>s. of_nat ` {..<x_npipe s}" xsub_Close xsub_AddPipe xsub_SetOption xsub_GetOption
  by unfold_locales (auto simp: own_options_def xsub_SetOption_def xsub_GetOption_def option_names)

interpretation xsurv_core: core_protocol x_closed "\<lambda>s. dom (x_pipes s)" xsurv_Close xsurv_AddPipe xsurv_SetOption xsurv_GetOption
  by unfold_locales (auto simp: own_options_def xsurv_SetOption_def xsurv_GetOption_def option_names)

interpretation pair1_core: core_protocol x_closed peer_ids pair1_Close pair1_AddPipe pair1_SetOption pair1_GetOption
  by unfold_locales (auto simp: own_options_def pair1_SetOption_def pair1_GetOption_def option_names)

interpretation rep_core: core_protocol x_closed "\<lambda>s. p_ID ` x_pobj s ` {..<x_npipe s}" rep_Close rep_AddPipe rep_SetOption rep_GetOption
  by unfold_locales (auto simp: own_options_def rep_SetOption_def rep_ctx_SetOption_def rep_GetOption_def rep_ctx_GetOption_def option_names)

interpretation resp_core: core_protocol x_closed "\<lambda>s. p_ID ` x_pobj s ` {..<x_npipe s}" resp_Close resp_AddPipe resp_SetOption resp_GetOption
  by unfold_locales (auto simp: own_options_def resp_SetOption_def resp_ctx_SetOption_def resp_GetOption_def resp_ctx_GetOption_def option_names)

interpretation req_core: core_protocol r_closed "\<lambda>s. of_nat ` r_pipes s" req_Close "\<lambda>p. req_AddPipe (unat p)" req_SetOption req_GetOption
  by unfold_locales
    (auto simp: own_options_def req_SetOption_def req_ctx_set_eq upd_ctx_def ctx_SetOption_def req_GetOption_def ctx_GetOption_def option_names)


section \<open>Properties that span components\<close>

text \<open>
  C25: Options through the whole stack. On a REQ socket (\<^verbatim>\<open>SetOption\<close> and \<^verbatim>\<open>GetOption\<close> of the core over
  those of the protocol), an option that was set and can be read reads back as set, whichever layer
  keeps it; a rejected option changes nothing in any layer; and a reconnect time that is not negative
  reaches every dialer of the socket.
\<close>

theorem req_socket_options:
  assumes "sock_GetOption req_GetOption n s \<noteq> Inl ErrBadOption" and "distinct (k_dialers s)" and "k \<in> set (k_dialers s)" and "0 \<le> d"
  shows "(case sock_SetOption req_SetOption tset n v s of
      (t, None) \<Rightarrow> sock_GetOption req_GetOption n t = Inr v
    | (t, Some e) \<Rightarrow> t = s) \<and>
    (\<exists>t. sock_SetOption req_SetOption tset OptionReconnectTime (VDuration d) s = (t, None) \<and>
       dl_reconnMinTime (fst (k_dobj t k)) = d \<and> sock_GetOption req_GetOption OptionReconnectTime t = Inr (VDuration d))"
proof -
  have "case sock_SetOption req_SetOption tset n v s of
      (t, None) \<Rightarrow> sock_GetOption req_GetOption n t = Inr v | (t, Some e) \<Rightarrow> t = s"
    using req_core.sock_set_get [of tset n v s] req_core.sock_set_error [of tset n v s] assms(1)
    by (auto split: prod.split option.split)
  moreover have "sock_GetOption req_GetOption OptionReconnectTime s \<noteq> Inl ErrBadOption"
    using req_core.own_get [of OptionReconnectTime "k_proto s"] by (simp add: sock_GetOption_def own_options_def option_names)
  then have "\<exists>t. sock_SetOption req_SetOption tset OptionReconnectTime (VDuration d) s = (t, None) \<and>
       dl_reconnMinTime (fst (k_dobj t k)) = d \<and> sock_GetOption req_GetOption OptionReconnectTime t = Inr (VDuration d)"
    using req_core.sock_set_get [of tset OptionReconnectTime "VDuration d" s]
      req_core.sock_set_reconnect [OF assms(3,2), of tset d] assms(4)
    by (cases "sock_SetOption req_SetOption tset OptionReconnectTime (VDuration d) s") auto
  ultimately show ?thesis by blast
qed

definition req_sock :: "(rsock, unit) csock" where
  "req_sock = fst (sock_NewDialer demo_set demo_reg ''t://x'' [] (newSocket (req_NewProtocol 0) ()))"

lemma req_sock_eval: "k_dialers req_sock = [0]" "sock_GetOption req_GetOption OptionRetryTime req_sock \<noteq> Inl ErrBadOption"
  by (simp_all add: req_sock_def sock_NewDialer_def make_dialer_def demo_reg_def demo_set_def RegisterTransport_def
      getTransport_def GetTransport_def starts_with_def newSocket_def inherit_max_def sock_GetOption_def req_GetOption_def
      ctx_GetOption_def option_names)

theorem req_socket_options_witness:
  "\<exists>t. sock_SetOption req_SetOption demo_set OptionReconnectTime (VDuration 7) req_sock = (t, None) \<and>
     dl_reconnMinTime (fst (k_dobj t 0)) = 7"
  using req_socket_options [OF req_sock_eval(2), of 0 7 _ demo_set] by (auto simp: req_sock_eval(1))

end
